(* ===== verification/Prelude.thy ===== *)
theory Prelude
  imports Main "HOL-Library.Word"
begin

section \<open>Shared types, C integers, flat memory and stream machines\<close>

text \<open>
  What every component theory uses: bytes at their width, the C \<open>int\<close> with its
  32-bit range written out, an array as a function from addresses to contents (so that a write
  outside the array is visible as a change there), and the locales for the interface that
  every terminal, decoder and protocol parser of the program shares: a state that is driven
  one byte at a time by a \<open>feed\<close> loop.
\<close>

type_synonym byte = "8 word"
type_synonym u16 = "16 word"
type_synonym u32 = "32 word"

named_theorems frame_simps \<open>what an operation leaves unchanged\<close>
named_theorems inv_intros \<open>an operation keeps its component's invariant\<close>

subsection \<open>C integers\<close>

text \<open>
  \<open>wrap32 x\<close> is the value a 32-bit two's complement register holds after a C \<open>int\<close>
  operation whose mathematical result is \<open>x\<close>. (The C standard leaves overflow undefined;
  this is what the machine code the project is built to does.)
\<close>

definition wrap32 :: "int \<Rightarrow> int" where
  "wrap32 x = (x + 2147483648) mod 4294967296 - 2147483648"

lemma wrap32_id [simp]: "- 2147483648 \<le> x \<Longrightarrow> x \<le> 2147483647 \<Longrightarrow> wrap32 x = x"
  by (simp add: wrap32_def)

lemma wrap32_range: "- 2147483648 \<le> wrap32 x \<and> wrap32 x \<le> 2147483647"
proof -
  have "0 \<le> (x + 2147483648) mod 4294967296" and "(x + 2147483648) mod 4294967296 < 4294967296"
    by simp_all
  then show ?thesis by (simp add: wrap32_def)
qed

lemma wrap32_lower: "- 2147483648 \<le> wrap32 x"
  using wrap32_range by blast

lemma wrap32_upper: "wrap32 x \<le> 2147483647"
  using wrap32_range by blast

text \<open>The clamping idioms of the code.\<close>

named_theorems clamp_simps \<open>an \<open>if\<close> that clamps is a minimum or a maximum\<close>

lemma clamp_hi [clamp_simps]: "(if b < a then b else a) = min a (b::int)"
  by simp

lemma clamp_lo [clamp_simps]: "(if a < b then b else a) = max a (b::int)"
  by simp

lemma clamp_last [clamp_simps]: "(if b \<le> a then b - 1 else a) = min a (b - 1 :: int)"
  by simp

text \<open>C division truncates towards zero.\<close>

definition cdiv :: "int \<Rightarrow> int \<Rightarrow> int" where
  "cdiv a b = sgn a * sgn b * (\<bar>a\<bar> div \<bar>b\<bar>)"

lemma cdiv_nonneg [simp]: "0 \<le> a \<Longrightarrow> 0 < b \<Longrightarrow> cdiv a b = a div b"
  by (cases "a = 0") (simp_all add: cdiv_def)

text \<open>The digits 0 to 9 of a byte stream.\<close>

definition is_digit :: "byte \<Rightarrow> bool" where
  "is_digit b \<longleftrightarrow> 48 \<le> b \<and> b \<le> 57"

lemma is_digit_bounds: "is_digit b \<Longrightarrow> 48 \<le> uint b \<and> uint b \<le> 57"
  by (simp add: is_digit_def word_le_def)

subsection \<open>C strings\<close>

text \<open>
  A C string is the list of its bytes without the terminator. \<open>asc\<close> is a literal, \<open>dec_bytes\<close>
  what \<open>%d\<close> prints for a number that is not negative, \<open>cstr\<close> what a byte array holds as a string.
\<close>

definition asc :: "string \<Rightarrow> byte list" where
  "asc s = map of_char s"

lemma asc_simps [simp]: "asc [] = []" "asc (c # cs) = of_char c # asc cs" "length (asc s) = length s"
  by (simp_all add: asc_def)

fun dec_digits :: "nat \<Rightarrow> nat \<Rightarrow> byte list" where
  "dec_digits 0 n = []"
| "dec_digits (Suc f) n =
     (if n < 10 then [word_of_nat (48 + n)]
      else dec_digits f (n div 10) @ [word_of_nat (48 + n mod 10)])"

definition dec_bytes :: "nat \<Rightarrow> byte list" where
  "dec_bytes n = dec_digits (Suc n) n"

definition cstr :: "byte list \<Rightarrow> byte list" where
  "cstr buf = takeWhile (\<lambda>c. c \<noteq> 0) buf"

subsection \<open>Arrays as functions of an address\<close>

text \<open>
  An array of the program is a function from an \<open>int\<close> address to its contents. The loops
  that fill a range and the library's \<open>memmove\<close> are these two operations.
\<close>

definition mem_fill :: "(int \<Rightarrow> 'a) \<Rightarrow> int \<Rightarrow> int \<Rightarrow> 'a \<Rightarrow> (int \<Rightarrow> 'a)" where
  "mem_fill m lo hi v = (\<lambda>a. if lo \<le> a \<and> a < hi then v else m a)"

definition mem_move :: "(int \<Rightarrow> 'a) \<Rightarrow> int \<Rightarrow> int \<Rightarrow> int \<Rightarrow> (int \<Rightarrow> 'a)" where
  "mem_move m dst src n = (\<lambda>a. if dst \<le> a \<and> a < dst + n then m (src + (a - dst)) else m a)"

lemma mem_fill_apply: "mem_fill m lo hi v a = (if lo \<le> a \<and> a < hi then v else m a)"
  by (simp add: mem_fill_def)

lemma mem_move_apply:
  "mem_move m dst src n a = (if dst \<le> a \<and> a < dst + n then m (src + (a - dst)) else m a)"
  by (simp add: mem_move_def)

lemma mem_fill_outside: "a < lo \<or> hi \<le> a \<Longrightarrow> mem_fill m lo hi v a = m a"
  by (auto simp: mem_fill_def fun_eq_iff)

lemma mem_fill_empty [simp]: "hi \<le> lo \<Longrightarrow> mem_fill m lo hi v = m"
  by (auto simp: mem_fill_def fun_eq_iff)

lemma mem_move_outside: "a < dst \<or> dst + n \<le> a \<Longrightarrow> mem_move m dst src n a = m a"
  by (auto simp: mem_move_def)

text \<open>The \<open>n\<close> cells that start at \<open>a\<close>, as a list.\<close>

definition mem_slice :: "(int \<Rightarrow> 'a) \<Rightarrow> int \<Rightarrow> int \<Rightarrow> 'a list" where
  "mem_slice m a n = map (\<lambda>i. m (a + int i)) [0..<nat n]"

lemma length_mem_slice [simp]: "length (mem_slice m a n) = nat n"
  by (simp add: mem_slice_def)

lemma nth_mem_slice: "i < nat n \<Longrightarrow> mem_slice m a n ! i = m (a + int i)"
  by (simp add: mem_slice_def)

lemma mem_slice_cong:
  "(\<And>i. 0 \<le> i \<Longrightarrow> i < n \<Longrightarrow> m (a + i) = m' (a' + i)) \<Longrightarrow> mem_slice m a n = mem_slice m' a' n"
  by (auto simp: mem_slice_def)

text \<open>A list written from address \<open>p\<close> on.\<close>

definition mem_write :: "(int \<Rightarrow> 'a) \<Rightarrow> int \<Rightarrow> 'a list \<Rightarrow> (int \<Rightarrow> 'a)" where
  "mem_write m p xs =
     (\<lambda>a. if p \<le> a \<and> a < p + int (length xs) then xs ! nat (a - p) else m a)"

lemma mem_write_Nil [simp]: "mem_write m p [] = m"
  by (auto simp: mem_write_def fun_eq_iff)

lemma mem_write_Cons: "mem_write m p (x # xs) = mem_write (m(p := x)) (p + 1) xs"
proof
  fix a
  show "mem_write m p (x # xs) a = mem_write (m(p := x)) (p + 1) xs a"
  proof (cases "p < a")
    case True
    then have "nat (a - p) = Suc (nat (a - (p + 1)))" by simp
    then show ?thesis using True by (auto simp: mem_write_def)
  qed (auto simp: mem_write_def)
qed

text \<open>A cell of a row-major buffer lies inside it when its row and its column do.\<close>

lemma row_major_bounds:
  assumes "0 \<le> r" "r < (n::int)" "0 \<le> x" "x < w"
  shows "0 \<le> r * w + x" and "r * w + x < n * w"
proof -
  show "0 \<le> r * w + x" using assms by simp
  have "(r + 1) * w \<le> n * w" using assms by (intro mult_right_mono) auto
  then show "r * w + x < n * w" using assms by (simp add: algebra_simps)
qed

lemma row_major_block:
  assumes "0 \<le> r" "r < (n::int)" "0 \<le> w"
  shows "0 \<le> r * w" and "r * w + w \<le> n * w"
proof -
  show "0 \<le> r * w" using assms by simp
  have "(r + 1) * w \<le> n * w" using assms by (intro mult_right_mono) auto
  then show "r * w + w \<le> n * w" by (simp add: algebra_simps)
qed

text \<open>Rows of the same width do not overlap.\<close>

lemma row_major_disjoint:
  assumes "r \<noteq> (q::int)" "0 \<le> x" "x < w"
  shows "\<not> (r * w \<le> q * w + x \<and> q * w + x < r * w + w)"
proof (cases "r < q")
  case True
  then have "(r + 1) * w \<le> q * w" using assms by (intro mult_right_mono) auto
  then show ?thesis using assms by (simp add: algebra_simps)
next
  case False
  then have "(q + 1) * w \<le> r * w" using assms by (intro mult_right_mono) auto
  then show ?thesis using assms by (simp add: algebra_simps)
qed

subsection \<open>Byte-driven state machines\<close>

text \<open>
  Every decoder of the program has a \<open>feed\<close> function that calls one step per byte of the
  received buffer. What a caller relies on is that the state's invariant survives the input;
  \<open>ok\<close> names the bytes for which it does (for most machines, all of them).
\<close>

fun run_ok :: "('s \<Rightarrow> 'b \<Rightarrow> 's) \<Rightarrow> ('s \<Rightarrow> 'b \<Rightarrow> bool) \<Rightarrow> 's \<Rightarrow> 'b list \<Rightarrow> bool" where
  "run_ok f ok s [] = True"
| "run_ok f ok s (b # bs) = (ok s b \<and> run_ok f ok (f s b) bs)"

lemma run_ok_each: "run_ok f (\<lambda>_. P) s bs \<longleftrightarrow> list_all P bs"
  by (induction bs arbitrary: s) auto

lemma run_ok_True [simp]: "run_ok f (\<lambda>_ _. True) s bs"
  by (induction bs arbitrary: s) auto

locale stream_machine =
  fixes step :: "'s \<Rightarrow> 'b \<Rightarrow> 's"
    and ok :: "'s \<Rightarrow> 'b \<Rightarrow> bool"
    and inv :: "'s \<Rightarrow> bool"
  assumes step_inv: "inv s \<Longrightarrow> ok s b \<Longrightarrow> inv (step s b)"
begin

lemma run_inv: "inv s \<Longrightarrow> run_ok step ok s bs \<Longrightarrow> inv (foldl step s bs)"
  by (induction bs arbitrary: s) (auto intro: step_inv)

end

text \<open>
  A machine whose state holds a memory: no step changes a cell outside the region the state
  owns. Because nothing is assumed of the cells outside, this says that no write goes there.
\<close>

locale framed_machine = stream_machine step ok inv
  for step :: "'s \<Rightarrow> 'b \<Rightarrow> 's" and ok :: "'s \<Rightarrow> 'b \<Rightarrow> bool" and inv :: "'s \<Rightarrow> bool" +
  fixes mem :: "'s \<Rightarrow> 'a \<Rightarrow> 'c"
    and region :: "'s \<Rightarrow> 'a set"
  assumes step_region: "inv s \<Longrightarrow> ok s b \<Longrightarrow> region s \<subseteq> region (step s b)"
    and step_frame: "inv s \<Longrightarrow> ok s b \<Longrightarrow> a \<notin> region (step s b) \<Longrightarrow> mem (step s b) a = mem s a"
begin

lemma run_region: "inv s \<Longrightarrow> run_ok step ok s bs \<Longrightarrow> region s \<subseteq> region (foldl step s bs)"
proof (induction bs arbitrary: s)
  case Nil
  then show ?case by simp
next
  case (Cons b bs)
  have "region s \<subseteq> region (step s b)" using Cons.prems by (intro step_region) auto
  also have "\<dots> \<subseteq> region (foldl step (step s b) bs)"
    using Cons.prems by (intro Cons.IH step_inv) auto
  finally show ?case by simp
qed

lemma run_frame:
  "inv s \<Longrightarrow> run_ok step ok s bs \<Longrightarrow> a \<notin> region (foldl step s bs) \<Longrightarrow>
    mem (foldl step s bs) a = mem s a"
proof (induction bs arbitrary: s)
  case Nil
  then show ?case by simp
next
  case (Cons b bs)
  have okb: "ok s b" and rest: "run_ok step ok (step s b) bs" using Cons.prems(2) by auto
  have inv': "inv (step s b)" using Cons.prems(1) okb by (rule step_inv)
  have "a \<notin> region (step s b)"
    using run_region [OF inv' rest] Cons.prems(3) by auto
  with Cons.prems(1) okb have "mem (step s b) a = mem s a" by (rule step_frame)
  moreover have "mem (foldl step (step s b) bs) a = mem (step s b) a"
    using Cons.IH [OF inv' rest] Cons.prems(3) by simp
  ultimately show ?case by simp
qed

end

text \<open>
  A machine that emits bytes as it runs (a protocol parser handing payload to its client).
\<close>

fun run_out :: "('s \<Rightarrow> 'b \<Rightarrow> 's \<times> 'o list) \<Rightarrow> 's \<Rightarrow> 'b list \<Rightarrow> 's \<times> 'o list" where
  "run_out f s [] = (s, [])"
| "run_out f s (b # bs) =
     (let (s1, o1) = f s b; (s2, o2) = run_out f s1 bs in (s2, o1 @ o2))"

lemma run_out_append:
  "run_out f s (xs @ ys) =
     (let (s1, o1) = run_out f s xs; (s2, o2) = run_out f s1 ys in (s2, o1 @ o2))"
  by (induction xs arbitrary: s) (simp_all add: Let_def split_beta)

lemma run_out_append_fst:
  "fst (run_out f s (xs @ ys)) = fst (run_out f (fst (run_out f s xs)) ys)"
  by (simp add: run_out_append Let_def split_beta)

lemma run_out_append_snd:
  "snd (run_out f s (xs @ ys)) = snd (run_out f s xs) @ snd (run_out f (fst (run_out f s xs)) ys)"
  by (simp add: run_out_append Let_def split_beta)

locale transducer =
  fixes tstep :: "'s \<Rightarrow> 'b \<Rightarrow> 's \<times> 'o list"
    and inv :: "'s \<Rightarrow> bool"
    and cap :: nat
  assumes tstep_inv: "inv s \<Longrightarrow> inv (fst (tstep s b))"
    and tstep_cap: "inv s \<Longrightarrow> length (snd (tstep s b)) \<le> cap"
begin

lemma run_inv: "inv s \<Longrightarrow> inv (fst (run_out tstep s bs))"
  by (induction bs arbitrary: s) (auto simp: Let_def split_beta intro: tstep_inv)

lemma run_cap: "inv s \<Longrightarrow> length (snd (run_out tstep s bs)) \<le> cap * length bs"
proof (induction bs arbitrary: s)
  case Nil
  then show ?case by simp
next
  case (Cons b bs)
  have "length (snd (tstep s b)) \<le> cap" using Cons.prems by (rule tstep_cap)
  moreover have "length (snd (run_out tstep (fst (tstep s b)) bs)) \<le> cap * length bs"
    using Cons.prems by (intro Cons.IH tstep_inv)
  ultimately show ?case by (simp add: Let_def split_beta)
qed

end

end
