(* ===== verification/VtTerm.thy ===== *)
theory VtTerm
  imports Prelude
begin

section \<open>The VT220 terminal core (vt\_term.c)\<close>

text \<open>
  The state \<open>VTTerm\<close> with every operation of src/src/vt\_term.c. The ring of rows is the
  flat buffer of the code, a function from the index of a cell to the cell, with the row
  arithmetic of \<open>row_ptr\<close> kept; \<open>vt_lines_capacity\<close> rows of it are allocated. The
  first \<open>csi_len\<close> bytes of \<open>csi_buf\<close> are a list (the code reads no others). C \<open>int\<close>
  results that can leave the 32-bit range are wrapped with \<open>wrap32\<close>. Allocation is the
  argument \<open>alloc\<close>: \<open>alloc n\<close> says whether a request for \<open>n\<close> bytes succeeds. The
  NULL checks on the terminal handle itself have no counterpart.
\<close>

subsection \<open>State\<close>

record vtcell =
  vc_ch :: byte
  vc_flags :: byte

datatype vtparse = VTP_NORMAL | VTP_ESC_SEEN | VTP_CSI_COLLECTING

record vtterm =
  vt_cols :: int
  vt_rows :: int
  vt_cursor_x :: int
  vt_cursor_y :: int
  vt_scrollback_max :: int
  vt_lines :: "int \<Rightarrow> vtcell"
  vt_lines_total :: int
  vt_lines_capacity :: int
  vt_scroll_offset :: int
  vt_pstate :: vtparse
  vt_csi_buf :: "byte list"
  vt_lf_to_crlf :: bool
  vt_stat_cr :: u32
  vt_stat_lf :: u32
  vt_sel_active :: bool
  vt_sel_anchor_row :: int
  vt_sel_anchor_col :: int
  vt_sel_lead_row :: int
  vt_sel_lead_col :: int

definition blank_cell :: vtcell where
  "blank_cell = \<lparr>vc_ch = 0x20, vc_flags = 0\<rparr>"

definition zero_cell :: vtcell where
  "zero_cell = \<lparr>vc_ch = 0, vc_flags = 0\<rparr>"

subsection \<open>Row storage\<close>

definition row_blank :: "(int \<Rightarrow> vtcell) \<Rightarrow> int \<Rightarrow> int \<Rightarrow> (int \<Rightarrow> vtcell)" where
  "row_blank m row cols = mem_fill m row (row + cols) blank_cell"

definition row_ptr :: "vtterm \<Rightarrow> int \<Rightarrow> int" where
  "row_ptr t row_index = row_index * vt_cols t"

definition total_cap :: "vtterm \<Rightarrow> int" where
  "total_cap t = vt_scrollback_max t + vt_rows t"

text \<open>The doubling loop of \<open>grow_to\<close>.\<close>

function grow_cap :: "nat \<Rightarrow> nat \<Rightarrow> nat" where
  "grow_cap cap n = (if cap < n then grow_cap (if cap = 0 then 32 else cap * 2) n else cap)"
  by pat_completeness auto
termination
  by (relation "measure (\<lambda>(cap, n). n - cap)") auto

declare grow_cap.simps [simp del]

definition grow_to :: "(int \<Rightarrow> bool) \<Rightarrow> vtterm \<Rightarrow> int \<Rightarrow> vtterm" where
  "grow_to alloc t new_capacity_rows =
     (if new_capacity_rows \<le> vt_lines_capacity t then t
      else
        let cap0 = int (grow_cap (nat (vt_lines_capacity t)) (nat new_capacity_rows));
            cap = (if cap0 > total_cap t then total_cap t else cap0)
        in if alloc (cap * vt_cols t * 2) then t\<lparr>vt_lines_capacity := cap\<rparr> else t)"

definition drop_oldest_if_full :: "vtterm \<Rightarrow> vtterm" where
  "drop_oldest_if_full t =
     (if vt_lines_total t < total_cap t then t
      else
        let t1 = t\<lparr>vt_lines := mem_move (vt_lines t) 0 (vt_cols t)
                                ((vt_lines_total t - 1) * vt_cols t),
                   vt_lines_total := vt_lines_total t - 1\<rparr>
        in if \<not> vt_sel_active t1 then t1
           else
             let ar = vt_sel_anchor_row t1 - 1; lr = vt_sel_lead_row t1 - 1
             in if ar < 0 \<or> lr < 0
                then t1\<lparr>vt_sel_active := False, vt_sel_anchor_row := 0, vt_sel_anchor_col := 0,
                        vt_sel_lead_row := 0, vt_sel_lead_col := 0\<rparr>
                else t1\<lparr>vt_sel_anchor_row := ar, vt_sel_lead_row := lr\<rparr>)"

text \<open>The index \<open>append_blank_row\<close> returns is used by none of its callers.\<close>

definition append_blank_row :: "(int \<Rightarrow> bool) \<Rightarrow> vtterm \<Rightarrow> vtterm" where
  "append_blank_row alloc t =
     (let t1 = drop_oldest_if_full t;
          t2 = grow_to alloc t1 (vt_lines_total t1 + 1);
          idx = vt_lines_total t2;
          t3 = t2\<lparr>vt_lines_total := idx + 1\<rparr>
      in t3\<lparr>vt_lines := row_blank (vt_lines t3) (row_ptr t3 idx) (vt_cols t3)\<rparr>)"

definition visible_top_index :: "vtterm \<Rightarrow> int" where
  "visible_top_index t = vt_lines_total t - vt_rows t"

subsection \<open>Init, free, clear\<close>

fun append_rows :: "(int \<Rightarrow> bool) \<Rightarrow> vtterm \<Rightarrow> nat \<Rightarrow> vtterm" where
  "append_rows alloc t 0 = t"
| "append_rows alloc t (Suc n) = append_rows alloc (append_blank_row alloc t) n"

text \<open>\<open>heap\<close> is what the block that the first \<open>realloc\<close> returns holds.\<close>

definition vt_term_init ::
  "(int \<Rightarrow> bool) \<Rightarrow> (int \<Rightarrow> vtcell) \<Rightarrow> int \<Rightarrow> int \<Rightarrow> int \<Rightarrow> vtterm" where
  "vt_term_init alloc heap cols0 rows0 scrollback0 =
     (let cols = (if cols0 < 1 then 80 else cols0);
          rows = (if rows0 < 1 then 24 else rows0);
          scrollback = (if scrollback0 < 0 then 0 else scrollback0);
          t = \<lparr>vt_cols = cols, vt_rows = rows, vt_cursor_x = 0, vt_cursor_y = 0,
               vt_scrollback_max = scrollback, vt_lines = heap, vt_lines_total = 0,
               vt_lines_capacity = 0, vt_scroll_offset = 0, vt_pstate = VTP_NORMAL,
               vt_csi_buf = [], vt_lf_to_crlf = False, vt_stat_cr = 0, vt_stat_lf = 0,
               vt_sel_active = False, vt_sel_anchor_row = 0, vt_sel_anchor_col = 0,
               vt_sel_lead_row = 0, vt_sel_lead_col = 0\<rparr>
      in append_rows alloc (grow_to alloc t rows) (nat rows))"

definition vt_term_free :: "vtterm \<Rightarrow> vtterm" where
  "vt_term_free t = t\<lparr>vt_lines_capacity := 0, vt_lines_total := 0\<rparr>"

text \<open>A run of rows is contiguous, so blanking rows \<open>lo\<close> to \<open>hi - 1\<close> is one fill.\<close>

definition blank_rows :: "vtterm \<Rightarrow> int \<Rightarrow> int \<Rightarrow> vtterm" where
  "blank_rows t lo hi =
     t\<lparr>vt_lines := mem_fill (vt_lines t) (row_ptr t lo) (row_ptr t hi) blank_cell\<rparr>"

text \<open>Columns \<open>lo\<close> to \<open>hi - 1\<close> of row \<open>r\<close>.\<close>

definition blank_cols :: "vtterm \<Rightarrow> int \<Rightarrow> int \<Rightarrow> int \<Rightarrow> vtterm" where
  "blank_cols t r lo hi =
     t\<lparr>vt_lines := mem_fill (vt_lines t) (row_ptr t r + lo) (row_ptr t r + hi) blank_cell\<rparr>"

definition vt_term_clear_visible :: "vtterm \<Rightarrow> vtterm" where
  "vt_term_clear_visible t =
     (blank_rows t (visible_top_index t) (vt_lines_total t))
       \<lparr>vt_cursor_x := 0, vt_cursor_y := 0, vt_scroll_offset := 0\<rparr>"

definition vt_term_set_lf_to_crlf :: "vtterm \<Rightarrow> bool \<Rightarrow> vtterm" where
  "vt_term_set_lf_to_crlf t enable = t\<lparr>vt_lf_to_crlf := enable\<rparr>"

definition vt_term_clear_all :: "vtterm \<Rightarrow> vtterm" where
  "vt_term_clear_all t =
     (let t1 = (if vt_lines_total t > vt_rows t then t\<lparr>vt_lines_total := vt_rows t\<rparr> else t)
      in (blank_rows t1 0 (vt_rows t1))
           \<lparr>vt_cursor_x := 0, vt_cursor_y := 0, vt_scroll_offset := 0\<rparr>)"

subsection \<open>Resize\<close>

definition row_is_blank :: "vtterm \<Rightarrow> int \<Rightarrow> bool" where
  "row_is_blank t r =
     list_all (\<lambda>c. vc_ch c = 0x20 \<or> vc_ch c = 0) (mem_slice (vt_lines t) (row_ptr t r) (vt_cols t))"

text \<open>The trim loop; the first argument is what is left of the \<open>t->rows - rows\<close> rounds.\<close>

fun resize_trim :: "nat \<Rightarrow> vtterm \<Rightarrow> int \<Rightarrow> int \<Rightarrow> int" where
  "resize_trim 0 t cur_abs src_total = src_total"
| "resize_trim (Suc k) t cur_abs src_total =
     (if src_total - 1 > cur_abs \<and> row_is_blank t (src_total - 1)
      then resize_trim k t cur_abs (src_total - 1)
      else src_total)"

text \<open>\<open>src_total\<close>: the rows that are left after blank rows below the cursor are trimmed.\<close>

definition resize_src :: "vtterm \<Rightarrow> int \<Rightarrow> int" where
  "resize_src t rows =
     (let cur_abs = (vt_lines_total t - vt_rows t) + vt_cursor_y t
      in if rows < vt_rows t
         then resize_trim (nat (vt_rows t - rows)) t cur_abs (vt_lines_total t)
         else vt_lines_total t)"

text \<open>
  The new buffer of \<open>new_cap\<close> rows of \<open>cols\<close> cells: zeroed by \<open>calloc\<close>, then rows
  \<open>0..new_total - 1\<close> copied (cut or padded to the new width), then \<open>pad\<close> blank rows.
\<close>

definition resize_buffer :: "vtterm \<Rightarrow> int \<Rightarrow> int \<Rightarrow> int \<Rightarrow> int \<Rightarrow> int \<Rightarrow> (int \<Rightarrow> vtcell)" where
  "resize_buffer t src_total new_total new_cap cols rows =
     (let copy_cols = (if cols < vt_cols t then cols else vt_cols t);
          zeroed = mem_fill (vt_lines t) 0 (new_cap * cols) zero_cell;
          copied = (\<lambda>a. if 0 \<le> a \<and> a < new_total * cols
                        then (if a mod cols < copy_cols
                              then vt_lines t (row_ptr t ((src_total - new_total) + a div cols) + a mod cols)
                              else blank_cell)
                        else zeroed a)
      in if new_total < rows
         then mem_fill copied (new_total * cols) (rows * cols) blank_cell
         else copied)"

text \<open>The new capacity, with the guard for a sum that wraps.\<close>

definition resize_cap :: "vtterm \<Rightarrow> int \<Rightarrow> int" where
  "resize_cap t rows =
     (let new_cap = wrap32 (vt_scrollback_max t + rows) in if new_cap < rows then rows else new_cap)"

definition vt_term_resize :: "(int \<Rightarrow> bool) \<Rightarrow> vtterm \<Rightarrow> int \<Rightarrow> int \<Rightarrow> vtterm" where
  "vt_term_resize alloc t cols rows =
     (if cols < 1 \<or> rows < 1 then t
      else if cols = vt_cols t \<and> rows = vt_rows t then t
      else
        let cur_abs = (vt_lines_total t - vt_rows t) + vt_cursor_y t;
            src_total = resize_src t rows;
            new_cap = resize_cap t rows
        in if \<not> alloc (new_cap * cols * 2) then t
           else
             let copied = (if src_total > new_cap then new_cap else src_total);
                 dropped = src_total - copied;
                 new_total = (if copied < rows then rows else copied);
                 cy0 = (cur_abs - dropped) - (new_total - rows);
                 cy1 = (if cy0 < 0 then 0 else cy0);
                 so1 = (if vt_scroll_offset t > new_total - rows then new_total - rows
                        else vt_scroll_offset t)
             in t\<lparr>vt_lines := resize_buffer t src_total copied new_cap cols rows,
                  vt_lines_capacity := new_cap,
                  vt_lines_total := new_total,
                  vt_cols := cols,
                  vt_rows := rows,
                  vt_cursor_x := (if vt_cursor_x t \<ge> cols then cols - 1 else vt_cursor_x t),
                  vt_cursor_y := (if cy1 \<ge> rows then rows - 1 else cy1),
                  vt_scroll_offset := (if so1 < 0 then 0 else so1)\<rparr>)"

subsection \<open>Cursor and writing\<close>

definition newline_with_scroll :: "(int \<Rightarrow> bool) \<Rightarrow> vtterm \<Rightarrow> vtterm" where
  "newline_with_scroll alloc t =
     (if vt_cursor_y t + 1 < vt_rows t then t\<lparr>vt_cursor_y := vt_cursor_y t + 1\<rparr>
      else append_blank_row alloc t)"

definition put_printable :: "(int \<Rightarrow> bool) \<Rightarrow> vtterm \<Rightarrow> byte \<Rightarrow> vtterm" where
  "put_printable alloc t b =
     (let t1 = (if vt_cursor_x t \<ge> vt_cols t
                then newline_with_scroll alloc (t\<lparr>vt_cursor_x := 0\<rparr>) else t);
          row = row_ptr t1 (visible_top_index t1 + vt_cursor_y t1)
      in t1\<lparr>vt_lines := (vt_lines t1)(row + vt_cursor_x t1 := \<lparr>vc_ch = b, vc_flags = 0\<rparr>),
            vt_cursor_x := vt_cursor_x t1 + 1\<rparr>)"

definition handle_c0 :: "(int \<Rightarrow> bool) \<Rightarrow> vtterm \<Rightarrow> byte \<Rightarrow> vtterm" where
  "handle_c0 alloc t b =
     (if b = 0x0A then
        let t1 = t\<lparr>vt_stat_lf := vt_stat_lf t + 1\<rparr>;
            t2 = (if vt_lf_to_crlf t1 then t1\<lparr>vt_cursor_x := 0\<rparr> else t1)
        in newline_with_scroll alloc t2
      else if b = 0x0D then t\<lparr>vt_stat_cr := vt_stat_cr t + 1, vt_cursor_x := 0\<rparr>
      else if b = 0x08 then
        (if vt_cursor_x t > 0 then t\<lparr>vt_cursor_x := vt_cursor_x t - 1\<rparr> else t)
      else if b = 0x09 then
        let nx = cdiv (vt_cursor_x t) 8 * 8 + 8
        in t\<lparr>vt_cursor_x := (if nx \<ge> vt_cols t then vt_cols t - 1 else nx)\<rparr>
      else t)"

subsection \<open>CSI dispatch\<close>

text \<open>The digit loop of \<open>parse_csi_params\<close>: value, whether a digit was seen, what is left.\<close>

fun scan_num :: "byte list \<Rightarrow> int \<Rightarrow> bool \<Rightarrow> int \<times> bool \<times> byte list" where
  "scan_num [] val seen = (val, seen, [])"
| "scan_num (b # bs) val seen =
     (if is_digit b then scan_num bs (wrap32 (val * 10 + (uint b - 48))) True
      else (val, seen, b # bs))"

fun parse_csi_params :: "byte list \<Rightarrow> nat \<Rightarrow> int list" where
  "parse_csi_params bs 0 = []"
| "parse_csi_params [] (Suc m) = []"
| "parse_csi_params (b # bs) (Suc m) =
     (case scan_num (b # bs) 0 False of
        (val, seen, rest) \<Rightarrow>
          (if seen then val else - 1) #
          (case rest of
             [] \<Rightarrow> []
           | c # cs \<Rightarrow> (if c = 0x3B then parse_csi_params cs m else [])))"

definition default_param :: "int list \<Rightarrow> nat \<Rightarrow> int \<Rightarrow> int" where
  "default_param params idx dflt =
     (if length params \<le> idx then dflt
      else if params ! idx < 0 then dflt
      else params ! idx)"

definition csi_erase_display :: "vtterm \<Rightarrow> int \<Rightarrow> vtterm" where
  "csi_erase_display t mode =
     (let top = visible_top_index t
      in if mode = 2 then blank_rows t top (top + vt_rows t)
         else if mode = 0 then
           blank_rows (blank_cols t (top + vt_cursor_y t) (vt_cursor_x t) (vt_cols t))
             (top + (vt_cursor_y t + 1)) (top + vt_rows t)
         else if mode = 1 then
           blank_cols (blank_rows t top (top + vt_cursor_y t)) (top + vt_cursor_y t) 0
             (min (vt_cursor_x t + 1) (vt_cols t))
         else t)"

definition csi_erase_line :: "vtterm \<Rightarrow> int \<Rightarrow> vtterm" where
  "csi_erase_line t mode =
     (let row = visible_top_index t + vt_cursor_y t
      in if mode = 0 then blank_cols t row (vt_cursor_x t) (vt_cols t)
         else if mode = 1 then blank_cols t row 0 (min (vt_cursor_x t + 1) (vt_cols t))
         else if mode = 2 then blank_cols t row 0 (vt_cols t)
         else t)"

definition at_least_1 :: "int \<Rightarrow> int" where
  "at_least_1 n = (if n < 1 then 1 else n)"

definition dispatch_csi :: "vtterm \<Rightarrow> byte \<Rightarrow> vtterm" where
  "dispatch_csi t final =
     (let params = parse_csi_params (vt_csi_buf t) 8;
          n = at_least_1 (default_param params 0 1)
      in if final = 0x4A then csi_erase_display t (default_param params 0 0)
         else if final = 0x48 \<or> final = 0x66 then
           let r = at_least_1 (default_param params 0 1);
               c = at_least_1 (default_param params 1 1);
               y = r - 1;
               x = c - 1
           in t\<lparr>vt_cursor_y := (if y \<ge> vt_rows t then vt_rows t - 1 else y),
                vt_cursor_x := (if x \<ge> vt_cols t then vt_cols t - 1 else x)\<rparr>
         else if final = 0x41 then
           let y = wrap32 (vt_cursor_y t - n) in t\<lparr>vt_cursor_y := (if y < 0 then 0 else y)\<rparr>
         else if final = 0x42 then
           let y = wrap32 (vt_cursor_y t + n)
           in t\<lparr>vt_cursor_y := (if y \<ge> vt_rows t then vt_rows t - 1 else y)\<rparr>
         else if final = 0x43 then
           let x = wrap32 (vt_cursor_x t + n)
           in t\<lparr>vt_cursor_x := (if x \<ge> vt_cols t then vt_cols t - 1 else x)\<rparr>
         else if final = 0x44 then
           let x = wrap32 (vt_cursor_x t - n) in t\<lparr>vt_cursor_x := (if x < 0 then 0 else x)\<rparr>
         else if final = 0x4B then csi_erase_line t (default_param params 0 0)
         else t)"

subsection \<open>The byte loop\<close>

definition vt_feed_byte :: "(int \<Rightarrow> bool) \<Rightarrow> vtterm \<Rightarrow> byte \<Rightarrow> vtterm" where
  "vt_feed_byte alloc t b =
     (case vt_pstate t of
        VTP_NORMAL \<Rightarrow>
          (if b = 0x1B then t\<lparr>vt_pstate := VTP_ESC_SEEN\<rparr>
           else if b < 0x20 then handle_c0 alloc t b
           else if b = 0x7F then t
           else put_printable alloc t b)
      | VTP_ESC_SEEN \<Rightarrow>
          (if b = 0x5B then t\<lparr>vt_pstate := VTP_CSI_COLLECTING, vt_csi_buf := []\<rparr>
           else t\<lparr>vt_pstate := VTP_NORMAL\<rparr>)
      | VTP_CSI_COLLECTING \<Rightarrow>
          (if 0x40 \<le> b \<and> b \<le> 0x7E
           then (dispatch_csi t b)\<lparr>vt_pstate := VTP_NORMAL, vt_csi_buf := []\<rparr>
           else if length (vt_csi_buf t) < 64 - 1 then t\<lparr>vt_csi_buf := vt_csi_buf t @ [b]\<rparr>
           else t\<lparr>vt_pstate := VTP_NORMAL, vt_csi_buf := []\<rparr>))"

definition vt_term_feed_bytes :: "(int \<Rightarrow> bool) \<Rightarrow> vtterm \<Rightarrow> byte list \<Rightarrow> vtterm" where
  "vt_term_feed_bytes alloc t buf =
     (if buf = [] then t
      else
        let t1 = (if vt_scroll_offset t \<noteq> 0 then t\<lparr>vt_scroll_offset := 0\<rparr> else t)
        in foldl (vt_feed_byte alloc) t1 buf)"

subsection \<open>Scrolling and view access\<close>

definition vt_term_scrollback_count :: "vtterm \<Rightarrow> int" where
  "vt_term_scrollback_count t = vt_lines_total t - vt_rows t"

definition vt_term_scroll_by :: "vtterm \<Rightarrow> int \<Rightarrow> vtterm" where
  "vt_term_scroll_by t lines =
     (let sb = vt_term_scrollback_count t;
          o1 = wrap32 (vt_scroll_offset t + lines);
          o2 = (if o1 > sb then sb else o1)
      in t\<lparr>vt_scroll_offset := (if o2 < 0 then 0 else o2)\<rparr>)"

definition vt_term_scroll_to_bottom :: "vtterm \<Rightarrow> vtterm" where
  "vt_term_scroll_to_bottom t = t\<lparr>vt_scroll_offset := 0\<rparr>"

text \<open>The row drawn at a screen row: the index of its first cell, or \<open>None\<close> for NULL.\<close>

definition vt_term_get_visible :: "vtterm \<Rightarrow> int \<Rightarrow> int option" where
  "vt_term_get_visible t row =
     (if row < 0 \<or> vt_rows t \<le> row then None
      else
        let top0 = visible_top_index t - vt_scroll_offset t;
            top = (if top0 < 0 then 0 else top0);
            actual_row = top + row
        in if actual_row < 0 \<or> vt_lines_total t \<le> actual_row then None
           else Some (row_ptr t actual_row))"

subsection \<open>Selection\<close>

definition vt_term_select_clear :: "vtterm \<Rightarrow> vtterm" where
  "vt_term_select_clear t =
     t\<lparr>vt_sel_active := False, vt_sel_anchor_row := 0, vt_sel_anchor_col := 0,
       vt_sel_lead_row := 0, vt_sel_lead_col := 0\<rparr>"

definition vt_term_select_set :: "vtterm \<Rightarrow> int \<Rightarrow> int \<Rightarrow> int \<Rightarrow> int \<Rightarrow> vtterm" where
  "vt_term_select_set t anchor_row anchor_col lead_row lead_col =
     t\<lparr>vt_sel_anchor_row := anchor_row, vt_sel_anchor_col := anchor_col,
       vt_sel_lead_row := lead_row, vt_sel_lead_col := lead_col, vt_sel_active := True\<rparr>"

definition vt_term_select_all :: "vtterm \<Rightarrow> vtterm" where
  "vt_term_select_all t =
     (if vt_lines_total t \<le> 0 then t
      else t\<lparr>vt_sel_anchor_row := 0, vt_sel_anchor_col := 0,
             vt_sel_lead_row := vt_lines_total t - 1, vt_sel_lead_col := vt_cols t,
             vt_sel_active := True\<rparr>)"

definition vt_term_visible_to_logical :: "vtterm \<Rightarrow> int \<Rightarrow> int" where
  "vt_term_visible_to_logical t visible_row =
     (vt_lines_total t - vt_rows t - vt_scroll_offset t) + visible_row"

definition vt_term_logical_to_visible :: "vtterm \<Rightarrow> int \<Rightarrow> int" where
  "vt_term_logical_to_visible t logical_row =
     (let vis = logical_row - (vt_lines_total t - vt_rows t - vt_scroll_offset t)
      in if vis < 0 \<or> vis \<ge> vt_rows t then - 1 else vis)"

definition sel_normalize :: "vtterm \<Rightarrow> int \<times> int \<times> int \<times> int" where
  "sel_normalize t =
     (let ar = vt_sel_anchor_row t; ac = vt_sel_anchor_col t;
          lr = vt_sel_lead_row t; lc = vt_sel_lead_col t
      in if ar < lr \<or> (ar = lr \<and> ac \<le> lc) then (ar, ac, lr, lc) else (lr, lc, ar, ac))"

definition vt_term_cell_selected :: "vtterm \<Rightarrow> int \<Rightarrow> int \<Rightarrow> bool" where
  "vt_term_cell_selected t logical_row col =
     (if \<not> vt_sel_active t then False
      else
        case sel_normalize t of
          (sr, sc, er, ec) \<Rightarrow>
            (if logical_row < sr \<or> er < logical_row then False
             else if sr = er then sc \<le> col \<and> col < ec
             else if logical_row = sr then sc \<le> col
             else if logical_row = er then col < ec
             else True))"

text \<open>
  The growing output of \<open>vt_term_select_extract\<close>: the bytes written so far and the size of
  the block. Before bytes are appended the block is doubled when \<open>used + 4 >= cap\<close>.
\<close>

definition ext_push :: "(int \<Rightarrow> bool) \<Rightarrow> byte list \<times> nat \<Rightarrow> byte list \<Rightarrow> (byte list \<times> nat) option" where
  "ext_push alloc st new =
     (let buf = fst st; cap = snd st
      in if length buf + 4 \<ge> cap
         then (if alloc (int (cap * 2)) then Some (buf @ new, cap * 2) else None)
         else Some (buf @ new, cap))"

fun ext_cells :: "(int \<Rightarrow> bool) \<Rightarrow> byte list \<times> nat \<Rightarrow> byte list \<Rightarrow> (byte list \<times> nat) option" where
  "ext_cells alloc st [] = Some st"
| "ext_cells alloc st (c # cs) =
     (case ext_push alloc st [c] of None \<Rightarrow> None | Some st' \<Rightarrow> ext_cells alloc st' cs)"

definition sel_char :: "byte \<Rightarrow> byte" where
  "sel_char raw = (if 0x20 \<le> raw \<and> raw < 0x7F then raw else 0x20)"

text \<open>The characters the loop over \<open>col_lo..col_hi - 1\<close> of a row copies.\<close>

definition sel_row_chars :: "vtterm \<Rightarrow> int \<Rightarrow> int \<Rightarrow> int \<Rightarrow> byte list" where
  "sel_row_chars t row col_lo col_hi =
     map (\<lambda>i. if row < 0 \<or> vt_lines_total t \<le> row then 0x20
              else sel_char (vc_ch (vt_lines t (row_ptr t row + i)))) [col_lo..col_hi - 1]"

text \<open>Trim: bytes past \<open>line_end\<close> that are spaces are taken back.\<close>

function trim_from :: "nat \<Rightarrow> byte list \<Rightarrow> byte list" where
  "trim_from line_end buf =
     (if line_end < length buf \<and> last buf = 0x20 then trim_from line_end (butlast buf) else buf)"
  by pat_completeness auto
termination
  by (relation "measure (\<lambda>(line_end, buf). length buf)") auto

declare trim_from.simps [simp del]

fun ext_rows ::
  "(int \<Rightarrow> bool) \<Rightarrow> vtterm \<Rightarrow> int \<times> int \<times> int \<times> int \<Rightarrow> byte list \<times> nat \<Rightarrow> int list \<Rightarrow> (byte list \<times> nat) option"
where
  "ext_rows alloc t (sr, sc, er, ec) st [] = Some st"
| "ext_rows alloc t (sr, sc, er, ec) st (row # rs) =
     (let col_lo0 = (if row = sr then sc else 0);
          col_hi0 = (if row = er then ec else vt_cols t);
          col_hi = (if col_hi0 > vt_cols t then vt_cols t else col_hi0);
          col_lo = (if col_lo0 < 0 then 0 else col_lo0);
          line_end = length (fst st)
      in case ext_cells alloc st (sel_row_chars t row col_lo col_hi) of
           None \<Rightarrow> None
         | Some (buf, cap) \<Rightarrow>
             let buf' = trim_from line_end buf
             in if row < er
                then (case ext_push alloc (buf', cap) [0x0D, 0x0A] of
                        None \<Rightarrow> None
                      | Some st' \<Rightarrow> ext_rows alloc t (sr, sc, er, ec) st' rs)
                else ext_rows alloc t (sr, sc, er, ec) (buf', cap) rs)"

text \<open>The result without its terminating NUL; \<open>None\<close> is the NULL return.\<close>

definition vt_term_select_extract :: "(int \<Rightarrow> bool) \<Rightarrow> vtterm \<Rightarrow> byte list option" where
  "vt_term_select_extract alloc t =
     (if \<not> vt_sel_active t then None
      else
        case sel_normalize t of
          (sr, sc, er, ec) \<Rightarrow>
            (if sr = er \<and> sc = ec then None
             else if \<not> alloc 256 then None
             else
               case ext_rows alloc t (sr, sc, er, ec) ([], 256) [sr..er] of
                 None \<Rightarrow> None
               | Some (buf, cap) \<Rightarrow>
                   (if length buf + 1 \<ge> cap \<and> \<not> alloc (int (length buf + 1)) then None
                    else Some buf)))"

subsection \<open>The invariant\<close>

text \<open>Memory is available: every allocation succeeds.\<close>

abbreviation mem_available :: "int \<Rightarrow> bool" where
  "mem_available \<equiv> \<lambda>_. True"

text \<open>Digit runs: at most nine digits in a row, and the run a buffer ends with.\<close>

fun short_nums :: "nat \<Rightarrow> byte list \<Rightarrow> bool" where
  "short_nums k [] = True"
| "short_nums k (b # bs) =
     (if is_digit b then k < 9 \<and> short_nums (Suc k) bs else short_nums 0 bs)"

fun run_end :: "nat \<Rightarrow> byte list \<Rightarrow> nat" where
  "run_end k [] = k"
| "run_end k (b # bs) = run_end (if is_digit b then Suc k else 0) bs"

definition vt_shape :: "vtterm \<Rightarrow> bool" where
  "vt_shape t \<longleftrightarrow>
     1 \<le> vt_cols t \<and> vt_cols t \<le> 1073741824 \<and> 1 \<le> vt_rows t \<and>
     0 \<le> vt_scrollback_max t \<and> total_cap t \<le> 1073741824 \<and>
     0 \<le> vt_lines_total t \<and> vt_lines_total t \<le> vt_lines_capacity t \<and>
     vt_lines_capacity t \<le> total_cap t"

definition vt_wf :: "vtterm \<Rightarrow> bool" where
  "vt_wf t \<longleftrightarrow>
     vt_shape t \<and> vt_rows t \<le> vt_lines_total t \<and>
     0 \<le> vt_cursor_x t \<and> vt_cursor_x t \<le> vt_cols t \<and>
     0 \<le> vt_cursor_y t \<and> vt_cursor_y t < vt_rows t \<and>
     0 \<le> vt_scroll_offset t \<and> vt_scroll_offset t \<le> vt_lines_total t - vt_rows t \<and>
     (vt_pstate t \<noteq> VTP_CSI_COLLECTING \<longrightarrow> vt_csi_buf t = []) \<and>
     length (vt_csi_buf t) \<le> 63 \<and> short_nums 0 (vt_csi_buf t)"

text \<open>The cells of the allocated rows.\<close>

definition vt_region :: "vtterm \<Rightarrow> int set" where
  "vt_region t = {a. 0 \<le> a \<and> a < vt_lines_capacity t * vt_cols t}"

definition vt_digit_ok :: "vtterm \<Rightarrow> byte \<Rightarrow> bool" where
  "vt_digit_ok t b \<longleftrightarrow>
     (vt_pstate t = VTP_CSI_COLLECTING \<and> length (vt_csi_buf t) < 63 \<and> is_digit b \<longrightarrow> run_end 0 (vt_csi_buf t) < 9)"

text \<open>
  The streams whose control sequences have no number of ten digits. Only the bytes that
  \<open>parse_csi_params\<close> gets count: text may have any digits, and so may a sequence that is dropped for
  its length. The arguments are where a reader of the stream is, how many bytes of a sequence it has
  seen, and how many digits they end with.
\<close>

fun csi_nums_ok :: "vtparse \<Rightarrow> nat \<Rightarrow> nat \<Rightarrow> byte list \<Rightarrow> bool" where
  "csi_nums_ok p n k [] = True"
| "csi_nums_ok VTP_NORMAL n k (b # bs) = csi_nums_ok (if b = 0x1B then VTP_ESC_SEEN else VTP_NORMAL) 0 0 bs"
| "csi_nums_ok VTP_ESC_SEEN n k (b # bs) = csi_nums_ok (if b = 0x5B then VTP_CSI_COLLECTING else VTP_NORMAL) 0 0 bs"
| "csi_nums_ok VTP_CSI_COLLECTING n k (b # bs) =
     (if 0x40 \<le> b \<and> b \<le> 0x7E \<or> 63 \<le> n then csi_nums_ok VTP_NORMAL 0 0 bs
      else (is_digit b \<longrightarrow> k < 9) \<and> csi_nums_ok VTP_CSI_COLLECTING (Suc n) (if is_digit b then Suc k else 0) bs)"

lemma short_nums_append:
  "short_nums k (xs @ ys) \<longleftrightarrow> short_nums k xs \<and> short_nums (run_end k xs) ys"
  by (induction k xs rule: short_nums.induct) auto

lemma short_nums_mono: "short_nums k bs \<Longrightarrow> j \<le> k \<Longrightarrow> short_nums j bs"
  by (induction k bs arbitrary: j rule: short_nums.induct) (auto split: if_splits)

lemma run_end_snoc: "run_end k (xs @ [b]) = (if is_digit b then Suc (run_end k xs) else 0)"
  by (induction k xs rule: run_end.induct) auto

subsection \<open>CSI parameters stay in range\<close>

lemma pow10_le: "k \<le> 9 \<Longrightarrow> (10::int) ^ k \<le> 1000000000"
  using power_increasing [of k 9 "10::int"] by simp

lemma scan_num_bound:
  assumes "short_nums k bs" "k \<le> 9" "0 \<le> val" "val < 10 ^ k" "scan_num bs val seen = (v, s, rest)"
  shows "0 \<le> v \<and> v < 1000000000 \<and> short_nums 0 rest"
  using assms
proof (induction bs val seen arbitrary: k v s rest rule: scan_num.induct)
  case (1 val seen)
  then show ?case using pow10_le [of k] by auto
next
  case (2 b bs val seen)
  show ?case
  proof (cases "is_digit b")
    case True
    let ?w = "val * 10 + (uint b - 48)"
    have k: "k < 9" and rest: "short_nums (Suc k) bs" using 2 True by auto
    have w: "0 \<le> ?w" "?w < 10 ^ Suc k" using 2 is_digit_bounds [OF True] by auto
    moreover have "(10::int) ^ Suc k \<le> 1000000000" using k by (intro pow10_le) simp
    ultimately have "wrap32 ?w = ?w" by (intro wrap32_id) linarith+
    with 2 True k rest w show ?thesis by (intro "2.IH" [OF True rest]) auto
  next
    case False
    with 2 show ?thesis using pow10_le [of k] by auto
  qed
qed

lemma parse_csi_params_bound:
  "short_nums 0 bs \<Longrightarrow> p \<in> set (parse_csi_params bs m) \<Longrightarrow> - 1 \<le> p \<and> p < 1000000000"
proof (induction bs m arbitrary: p rule: parse_csi_params.induct)
  case (3 b bs m)
  obtain v s rest where scan: "scan_num (b # bs) 0 False = (v, s, rest)"
    by (cases "scan_num (b # bs) 0 False")
  have bound: "0 \<le> v \<and> v < 1000000000 \<and> short_nums 0 rest"
    using scan_num_bound [OF "3.prems"(1) _ _ _ scan] by simp
  then have "short_nums 0 cs" if "rest = c # cs" for c cs
    using that short_nums_mono [of "Suc 0" cs 0] by (auto split: if_splits)
  with "3.prems"(2) "3.IH" [OF scan [symmetric]] scan bound show ?case
    by (auto split: list.splits if_splits)
qed simp_all

lemma default_param_bound:
  assumes "short_nums 0 bs" "0 \<le> d" "d \<le> 1"
  shows "0 \<le> default_param (parse_csi_params bs m) i d \<and>
         default_param (parse_csi_params bs m) i d < 1000000000"
  using assms parse_csi_params_bound [OF assms(1), of "parse_csi_params bs m ! i" m]
  by (auto simp: default_param_def)

subsection \<open>Row storage\<close>

lemma grow_cap_ge: "n \<le> grow_cap cap n" "cap \<le> grow_cap cap n"
proof (induction cap n rule: grow_cap.induct)
  case (1 cap n)
  { case 1 then show ?case using "1.IH"(1) by (subst grow_cap.simps) auto }
  { case 2 then show ?case using "1.IH"(2) by (subst grow_cap.simps) (auto split: if_splits) }
qed

lemma grow_to_unchanged [frame_simps]:
  "vt_lines (grow_to al t n) = vt_lines t" "vt_cols (grow_to al t n) = vt_cols t"
  "vt_rows (grow_to al t n) = vt_rows t" "vt_lines_total (grow_to al t n) = vt_lines_total t"
  "vt_cursor_x (grow_to al t n) = vt_cursor_x t" "vt_cursor_y (grow_to al t n) = vt_cursor_y t"
  "vt_scrollback_max (grow_to al t n) = vt_scrollback_max t"
  "vt_scroll_offset (grow_to al t n) = vt_scroll_offset t"
  "vt_pstate (grow_to al t n) = vt_pstate t" "vt_csi_buf (grow_to al t n) = vt_csi_buf t"
  "total_cap (grow_to al t n) = total_cap t"
  "vt_sel_active (grow_to al t n) = vt_sel_active t"
  "vt_sel_anchor_row (grow_to al t n) = vt_sel_anchor_row t"
  "vt_sel_lead_row (grow_to al t n) = vt_sel_lead_row t"
  "vt_sel_anchor_col (grow_to al t n) = vt_sel_anchor_col t"
  "vt_sel_lead_col (grow_to al t n) = vt_sel_lead_col t"
  by (simp_all add: grow_to_def Let_def total_cap_def)

lemma grow_to_capacity:
  assumes "vt_lines_capacity t \<le> total_cap t" "n \<le> total_cap t"
  shows "n \<le> vt_lines_capacity (grow_to mem_available t n)"
    and "vt_lines_capacity (grow_to mem_available t n) \<le> total_cap t"
    and "vt_lines_capacity t \<le> vt_lines_capacity (grow_to mem_available t n)"
proof -
  let ?g = "grow_cap (nat (vt_lines_capacity t)) (nat n)"
  have "n \<le> int ?g" "vt_lines_capacity t \<le> int ?g"
    using grow_cap_ge(1) [of "nat n" "nat (vt_lines_capacity t)"]
      grow_cap_ge(2) [of "nat (vt_lines_capacity t)" "nat n"] by linarith+
  with assms show "n \<le> vt_lines_capacity (grow_to mem_available t n)"
    and "vt_lines_capacity (grow_to mem_available t n) \<le> total_cap t"
    and "vt_lines_capacity t \<le> vt_lines_capacity (grow_to mem_available t n)"
    by (auto simp: grow_to_def Let_def)
qed

lemma drop_oldest_unchanged [frame_simps]:
  "vt_cols (drop_oldest_if_full t) = vt_cols t" "vt_rows (drop_oldest_if_full t) = vt_rows t"
  "vt_cursor_x (drop_oldest_if_full t) = vt_cursor_x t"
  "vt_cursor_y (drop_oldest_if_full t) = vt_cursor_y t"
  "vt_scrollback_max (drop_oldest_if_full t) = vt_scrollback_max t"
  "vt_scroll_offset (drop_oldest_if_full t) = vt_scroll_offset t"
  "vt_pstate (drop_oldest_if_full t) = vt_pstate t"
  "vt_csi_buf (drop_oldest_if_full t) = vt_csi_buf t"
  "vt_lines_capacity (drop_oldest_if_full t) = vt_lines_capacity t"
  "total_cap (drop_oldest_if_full t) = total_cap t"
  by (simp_all add: drop_oldest_if_full_def Let_def total_cap_def)

lemma drop_oldest_total [frame_simps]:
  "vt_lines_total (drop_oldest_if_full t) =
     (if vt_lines_total t < total_cap t then vt_lines_total t else vt_lines_total t - 1)"
  by (simp add: drop_oldest_if_full_def Let_def)

lemma drop_oldest_lines:
  "vt_lines (drop_oldest_if_full t) =
     (if vt_lines_total t < total_cap t then vt_lines t
      else mem_move (vt_lines t) 0 (vt_cols t) ((vt_lines_total t - 1) * vt_cols t))"
  by (simp add: drop_oldest_if_full_def Let_def)

lemma append_blank_row_unchanged [frame_simps]:
  "vt_cols (append_blank_row al t) = vt_cols t" "vt_rows (append_blank_row al t) = vt_rows t"
  "vt_cursor_x (append_blank_row al t) = vt_cursor_x t"
  "vt_cursor_y (append_blank_row al t) = vt_cursor_y t"
  "vt_scrollback_max (append_blank_row al t) = vt_scrollback_max t"
  "vt_scroll_offset (append_blank_row al t) = vt_scroll_offset t"
  "vt_pstate (append_blank_row al t) = vt_pstate t"
  "vt_csi_buf (append_blank_row al t) = vt_csi_buf t"
  "total_cap (append_blank_row al t) = total_cap t"
  by (simp_all add: append_blank_row_def Let_def frame_simps total_cap_def)

lemma append_blank_row_total [frame_simps]:
  "vt_lines_total (append_blank_row al t) =
     (if vt_lines_total t < total_cap t then vt_lines_total t + 1 else vt_lines_total t)"
  by (simp add: append_blank_row_def Let_def frame_simps)

lemma append_blank_row_capacity_eq:
  "vt_lines_capacity (append_blank_row al t) =
     vt_lines_capacity (grow_to al (drop_oldest_if_full t) (vt_lines_total (drop_oldest_if_full t) + 1))"
  by (simp add: append_blank_row_def Let_def)

lemma append_blank_row_capacity:
  assumes "vt_shape t"
  shows "vt_lines_total (append_blank_row mem_available t) \<le> vt_lines_capacity (append_blank_row mem_available t)"
    and "vt_lines_capacity (append_blank_row mem_available t) \<le> total_cap t"
    and "vt_lines_capacity t \<le> vt_lines_capacity (append_blank_row mem_available t)"
proof -
  let ?d = "drop_oldest_if_full t"
  have le: "vt_lines_capacity ?d \<le> total_cap ?d" "vt_lines_total ?d + 1 \<le> total_cap ?d"
    using assms by (auto simp: vt_shape_def frame_simps total_cap_def)
  from grow_to_capacity [OF le]
  show "vt_lines_total (append_blank_row mem_available t) \<le> vt_lines_capacity (append_blank_row mem_available t)"
    and "vt_lines_capacity (append_blank_row mem_available t) \<le> total_cap t"
    and "vt_lines_capacity t \<le> vt_lines_capacity (append_blank_row mem_available t)"
    by (auto simp: append_blank_row_capacity_eq frame_simps split: if_splits)
qed

lemma append_blank_row_shape: "vt_shape t \<Longrightarrow> vt_shape (append_blank_row mem_available t)"
  using append_blank_row_capacity [of t] by (simp add: vt_shape_def frame_simps)

lemma append_blank_row_wf [inv_intros]: "vt_wf t \<Longrightarrow> vt_wf (append_blank_row mem_available t)"
  using append_blank_row_shape [of t] by (auto simp: vt_wf_def frame_simps)

text \<open>What the appended buffer holds: the old rows, shifted when the ring was full, then a blank one.\<close>

lemma append_blank_row_lines:
  assumes "vt_shape t" "0 < vt_lines_total t \<or> vt_lines_total t < total_cap t"
  shows "vt_lines (append_blank_row al t) a =
     (let full = \<not> vt_lines_total t < total_cap t;
          n = (if full then vt_lines_total t - 1 else vt_lines_total t)
      in if n * vt_cols t \<le> a \<and> a < (n + 1) * vt_cols t then blank_cell
         else if full \<and> 0 \<le> a \<and> a < n * vt_cols t then vt_lines t (vt_cols t + a)
         else vt_lines t a)"
  by (auto simp: append_blank_row_def Let_def frame_simps row_blank_def row_ptr_def mem_fill_apply
      drop_oldest_lines mem_move_apply algebra_simps)

lemma append_blank_row_frame:
  assumes "vt_shape t" "a \<notin> vt_region (append_blank_row mem_available t)"
  shows "vt_lines (append_blank_row mem_available t) a = vt_lines t a"
proof -
  let ?t = "append_blank_row mem_available t"
  let ?n = "if vt_lines_total t < total_cap t then vt_lines_total t else vt_lines_total t - 1"
  have pos: "0 < vt_lines_total t \<or> vt_lines_total t < total_cap t"
    using assms(1) by (auto simp: vt_shape_def total_cap_def)
  then have n: "0 \<le> ?n" using assms(1) by (auto simp: vt_shape_def)
  have "?n + 1 \<le> vt_lines_capacity ?t"
    using append_blank_row_capacity(1) [OF assms(1)] by (auto simp: frame_simps split: if_splits)
  then have cell: "(?n + 1) * vt_cols t \<le> vt_lines_capacity ?t * vt_cols t"
    using assms(1) by (intro mult_right_mono) (auto simp: vt_shape_def)
  have "0 \<le> ?n * vt_cols t" using n assms(1) by (simp add: vt_shape_def)
  with cell have "a < 0 \<or> (?n + 1) * vt_cols t \<le> a"
    using assms(2) by (auto simp: vt_region_def frame_simps)
  then show ?thesis
  proof
    assume "a < 0"
    with \<open>0 \<le> ?n * vt_cols t\<close> show ?thesis
      by (auto simp: append_blank_row_lines [OF assms(1) pos] Let_def)
  next
    assume le: "(?n + 1) * vt_cols t \<le> a"
    have "?n * vt_cols t \<le> (?n + 1) * vt_cols t" using assms(1) by (intro mult_right_mono) (auto simp: vt_shape_def)
    with le show ?thesis
      by (auto simp: append_blank_row_lines [OF assms(1) pos] Let_def)
  qed
qed

subsection \<open>Every operation keeps the invariant and writes inside the buffer\<close>

text \<open>A step is \<^emph>\<open>sound\<close>: invariant kept, buffer not shrunk, nothing written outside it.\<close>

definition vt_sound :: "vtterm \<Rightarrow> vtterm \<Rightarrow> bool" where
  "vt_sound t t' \<longleftrightarrow>
     vt_wf t' \<and> vt_region t \<subseteq> vt_region t' \<and>
     (\<forall>a. a \<notin> vt_region t' \<longrightarrow> vt_lines t' a = vt_lines t a)"

lemma vt_sound_refl [inv_intros]: "vt_wf t \<Longrightarrow> vt_sound t t"
  by (simp add: vt_sound_def)

lemma vt_sound_trans: "vt_sound t u \<Longrightarrow> vt_sound u v \<Longrightarrow> vt_sound t v"
  by (auto simp: vt_sound_def)

lemma vt_sound_if:
  "vt_sound t a \<Longrightarrow> vt_sound t b \<Longrightarrow> vt_sound t (if c then a else b)"
  by simp

lemma vt_wf_bounds:
  assumes "vt_wf t"
  shows "1 \<le> vt_cols t" "1 \<le> vt_rows t" "vt_rows t \<le> vt_lines_total t"
    "vt_lines_total t \<le> vt_lines_capacity t" "0 \<le> vt_cursor_x t" "vt_cursor_x t \<le> vt_cols t"
    "0 \<le> vt_cursor_y t" "vt_cursor_y t < vt_rows t" "vt_cols t \<le> 1073741824"
    "vt_rows t \<le> 1073741824"
  using assms by (auto simp: vt_wf_def vt_shape_def total_cap_def)

lemma row_range_region:
  assumes "vt_wf t" "0 \<le> r" "r < vt_lines_total t" "0 \<le> x" "x < vt_cols t"
  shows "row_ptr t r + x \<in> vt_region t"
proof -
  have "r < vt_lines_capacity t" using assms vt_wf_bounds(4) [OF assms(1)] by linarith
  then show ?thesis
    using row_major_bounds [of r "vt_lines_capacity t" x "vt_cols t"] assms
    by (simp add: vt_region_def row_ptr_def)
qed

lemma row_ptr_le_capacity:
  assumes "vt_wf t" "r \<le> vt_lines_total t"
  shows "row_ptr t r \<le> vt_lines_capacity t * vt_cols t"
proof -
  have "r \<le> vt_lines_capacity t" "0 \<le> vt_cols t" using assms vt_wf_bounds [OF assms(1)] by linarith+
  then show ?thesis by (simp add: row_ptr_def mult_right_mono)
qed

lemma lines_update_sound:
  assumes "vt_wf t" "\<And>a. a \<notin> vt_region t \<Longrightarrow> m a = vt_lines t a"
  shows "vt_sound t (t\<lparr>vt_lines := m\<rparr>)"
  using assms by (simp add: vt_sound_def vt_wf_def vt_shape_def total_cap_def vt_region_def)

lemma blank_cols_sound [inv_intros]:
  assumes "vt_wf t" "0 \<le> r" "r < vt_lines_total t" "0 \<le> lo" "hi \<le> vt_cols t"
  shows "vt_sound t (blank_cols t r lo hi)"
  unfolding blank_cols_def
proof (rule lines_update_sound [OF assms(1)])
  fix a assume "a \<notin> vt_region t"
  then have "\<not> (row_ptr t r + lo \<le> a \<and> a < row_ptr t r + hi)"
    using row_range_region [OF assms(1-3), of "a - row_ptr t r"] assms(4,5) by auto
  then show "mem_fill (vt_lines t) (row_ptr t r + lo) (row_ptr t r + hi) blank_cell a = vt_lines t a"
    by (auto simp: mem_fill_apply)
qed

lemma blank_rows_sound [inv_intros]:
  assumes "vt_wf t" "0 \<le> lo" "hi \<le> vt_lines_total t"
  shows "vt_sound t (blank_rows t lo hi)"
  unfolding blank_rows_def
proof (rule lines_update_sound [OF assms(1)])
  fix a assume "a \<notin> vt_region t"
  moreover have "0 \<le> row_ptr t lo" using assms vt_wf_bounds(1) [OF assms(1)] by (simp add: row_ptr_def)
  ultimately have "\<not> (row_ptr t lo \<le> a \<and> a < row_ptr t hi)"
    using row_ptr_le_capacity [OF assms(1,3)] by (auto simp: vt_region_def)
  then show "mem_fill (vt_lines t) (row_ptr t lo) (row_ptr t hi) blank_cell a = vt_lines t a"
    by (auto simp: mem_fill_apply)
qed

lemma blank_simps [frame_simps]:
  "vt_rows (blank_cols t r lo hi) = vt_rows t" "vt_rows (blank_rows t a b) = vt_rows t"
  "vt_cols (blank_cols t r lo hi) = vt_cols t" "vt_cols (blank_rows t a b) = vt_cols t"
  "vt_lines_total (blank_cols t r lo hi) = vt_lines_total t"
  "vt_lines_total (blank_rows t a b) = vt_lines_total t"
  "vt_lines_capacity (blank_cols t r lo hi) = vt_lines_capacity t"
  "vt_lines_capacity (blank_rows t a b) = vt_lines_capacity t"
  "vt_cursor_x (blank_cols t r lo hi) = vt_cursor_x t" "vt_cursor_x (blank_rows t a b) = vt_cursor_x t"
  "vt_cursor_y (blank_cols t r lo hi) = vt_cursor_y t" "vt_cursor_y (blank_rows t a b) = vt_cursor_y t"
  "vt_scroll_offset (blank_cols t r lo hi) = vt_scroll_offset t"
  "vt_scroll_offset (blank_rows t a b) = vt_scroll_offset t"
  "vt_csi_buf (blank_cols t r lo hi) = vt_csi_buf t" "vt_csi_buf (blank_rows t a b) = vt_csi_buf t"
  by (simp_all add: blank_cols_def blank_rows_def)

text \<open>The cursor, the parser state and the counters can be set freely inside their ranges.\<close>

lemma cursor_update_sound:
  assumes "vt_wf t" "0 \<le> x" "x \<le> vt_cols t" "0 \<le> y" "y < vt_rows t"
  shows "vt_sound t (t\<lparr>vt_cursor_y := y, vt_cursor_x := x\<rparr>)"
  using assms by (simp add: vt_sound_def vt_wf_def vt_shape_def total_cap_def vt_region_def)

lemma cursor_x_sound:
  assumes "vt_wf t" "0 \<le> x" "x \<le> vt_cols t"
  shows "vt_sound t (t\<lparr>vt_cursor_x := x\<rparr>)"
  using assms by (simp add: vt_sound_def vt_wf_def vt_shape_def total_cap_def vt_region_def)

lemma cursor_y_sound:
  assumes "vt_wf t" "0 \<le> y" "y < vt_rows t"
  shows "vt_sound t (t\<lparr>vt_cursor_y := y\<rparr>)"
  using assms by (simp add: vt_sound_def vt_wf_def vt_shape_def total_cap_def vt_region_def)

lemma append_blank_row_sound [inv_intros]: "vt_wf t \<Longrightarrow> vt_sound t (append_blank_row mem_available t)"
proof -
  assume wf: "vt_wf t"
  then have shape: "vt_shape t" by (simp add: vt_wf_def)
  have "vt_lines_capacity t * vt_cols t \<le> vt_lines_capacity (append_blank_row mem_available t) * vt_cols t"
    using append_blank_row_capacity(3) [OF shape] shape by (intro mult_right_mono) (auto simp: vt_shape_def)
  then show ?thesis
    using append_blank_row_wf [OF wf] append_blank_row_frame [OF shape]
    by (auto simp: vt_sound_def vt_region_def frame_simps)
qed

lemma newline_sound [inv_intros]: "vt_wf t \<Longrightarrow> vt_sound t (newline_with_scroll mem_available t)"
  using vt_wf_bounds [of t]
  by (auto simp: newline_with_scroll_def intro: append_blank_row_sound cursor_y_sound)

lemma newline_simps [frame_simps]:
  "vt_cols (newline_with_scroll al t) = vt_cols t"
  "vt_cursor_x (newline_with_scroll al t) = vt_cursor_x t"
  "vt_scroll_offset (newline_with_scroll al t) = vt_scroll_offset t"
  "vt_csi_buf (newline_with_scroll al t) = vt_csi_buf t"
  "vt_pstate (newline_with_scroll al t) = vt_pstate t"
  by (simp_all add: newline_with_scroll_def frame_simps)

lemma visible_cell_region:
  assumes "vt_wf t" "vt_cursor_x t < vt_cols t"
  shows "row_ptr t (visible_top_index t + vt_cursor_y t) + vt_cursor_x t \<in> vt_region t"
  using assms vt_wf_bounds [OF assms(1)] by (intro row_range_region) (auto simp: visible_top_index_def)

lemma put_printable_sound [inv_intros]: "vt_wf t \<Longrightarrow> vt_sound t (put_printable mem_available t b)"
proof -
  assume wf: "vt_wf t"
  define t1 where "t1 = (if vt_cursor_x t \<ge> vt_cols t
    then newline_with_scroll mem_available (t\<lparr>vt_cursor_x := 0\<rparr>) else t)"
  have x0: "vt_sound t (t\<lparr>vt_cursor_x := 0\<rparr>)"
    using wf vt_wf_bounds [OF wf] by (intro cursor_x_sound) auto
  then have "vt_wf (t\<lparr>vt_cursor_x := 0\<rparr>)" by (simp add: vt_sound_def)
  from vt_sound_trans [OF x0 newline_sound [OF this]]
  have s1: "vt_sound t t1" using wf by (auto simp: t1_def intro: inv_intros)
  then have wf1: "vt_wf t1" by (simp add: vt_sound_def)
  have x1: "vt_cursor_x t1 < vt_cols t1"
    using vt_wf_bounds [OF wf] by (auto simp: t1_def frame_simps)
  let ?a = "row_ptr t1 (visible_top_index t1 + vt_cursor_y t1) + vt_cursor_x t1"
  let ?t2 = "t1\<lparr>vt_lines := (vt_lines t1)(?a := \<lparr>vc_ch = b, vc_flags = 0\<rparr>)\<rparr>"
  have s2: "vt_sound t1 ?t2"
    using visible_cell_region [OF wf1 x1] by (intro lines_update_sound [OF wf1]) auto
  then have wf2: "vt_wf ?t2" by (simp add: vt_sound_def)
  have "vt_sound ?t2 (?t2\<lparr>vt_cursor_x := vt_cursor_x t1 + 1\<rparr>)"
    using x1 vt_wf_bounds [OF wf1] by (intro cursor_x_sound [OF wf2]) auto
  then have "vt_sound t (?t2\<lparr>vt_cursor_x := vt_cursor_x t1 + 1\<rparr>)"
    using s1 s2 vt_sound_trans by blast
  then show ?thesis by (simp add: put_printable_def t1_def [symmetric] Let_def)
qed

lemma stat_sound:
  "vt_wf t \<Longrightarrow> vt_sound t (t\<lparr>vt_stat_lf := n\<rparr>)" "vt_wf t \<Longrightarrow> vt_sound t (t\<lparr>vt_stat_cr := n\<rparr>)"
  by (simp_all add: vt_sound_def vt_wf_def vt_shape_def total_cap_def vt_region_def)

lemma handle_c0_sound [inv_intros]: "vt_wf t \<Longrightarrow> vt_sound t (handle_c0 mem_available t b)"
proof -
  assume wf: "vt_wf t"
  note b = vt_wf_bounds [OF wf]
  let ?t1 = "t\<lparr>vt_stat_lf := vt_stat_lf t + 1\<rparr>"
  let ?t2 = "if vt_lf_to_crlf ?t1 then ?t1\<lparr>vt_cursor_x := 0\<rparr> else ?t1"
  have s1: "vt_sound t ?t1" by (rule stat_sound [OF wf])
  then have wf1: "vt_wf ?t1" by (simp add: vt_sound_def)
  have "vt_sound ?t1 ?t2"
    using wf1 b cursor_x_sound [OF wf1, of 0] by (auto intro: inv_intros)
  with s1 have s2: "vt_sound t ?t2" by (rule vt_sound_trans)
  then have "vt_sound ?t2 (newline_with_scroll mem_available ?t2)"
    by (intro newline_sound) (simp add: vt_sound_def)
  with s2 have lf: "vt_sound t (newline_with_scroll mem_available ?t2)" by (rule vt_sound_trans)
  have cr: "vt_sound t (t\<lparr>vt_stat_cr := vt_stat_cr t + 1, vt_cursor_x := 0\<rparr>)"
    using wf b by (simp add: vt_sound_def vt_wf_def vt_shape_def total_cap_def vt_region_def)
  let ?nx = "cdiv (vt_cursor_x t) 8 * 8 + 8"
  have "vt_sound t (t\<lparr>vt_cursor_x := (if ?nx \<ge> vt_cols t then vt_cols t - 1 else ?nx)\<rparr>)"
    using b by (intro cursor_x_sound [OF wf]) auto
  moreover have "vt_sound t (if vt_cursor_x t > 0 then t\<lparr>vt_cursor_x := vt_cursor_x t - 1\<rparr> else t)"
    using wf b by (auto intro: cursor_x_sound vt_sound_refl)
  ultimately show ?thesis
    using lf cr vt_sound_refl [OF wf] by (simp add: handle_c0_def Let_def)
qed

lemma csi_erase_display_sound [inv_intros]: "vt_wf t \<Longrightarrow> vt_sound t (csi_erase_display t m)"
proof -
  assume wf: "vt_wf t"
  note b = vt_wf_bounds [OF wf]
  let ?top = "visible_top_index t" and ?y = "vt_cursor_y t"
  have top: "0 \<le> ?top" "?top + vt_rows t \<le> vt_lines_total t" using b by (auto simp: visible_top_index_def)
  have c: "vt_sound t (blank_cols t (?top + ?y) (vt_cursor_x t) (vt_cols t))"
    using b top by (intro blank_cols_sound [OF wf]) auto
  have d: "vt_sound t (blank_rows t ?top (?top + ?y))"
    using b top by (intro blank_rows_sound [OF wf]) auto
  have "vt_sound t (blank_rows (blank_cols t (?top + ?y) (vt_cursor_x t) (vt_cols t)) (?top + (?y + 1)) (?top + vt_rows t))"
    using b top c by (intro vt_sound_trans [OF c] blank_rows_sound) (auto simp: vt_sound_def frame_simps)
  moreover have "vt_sound t (blank_cols (blank_rows t ?top (?top + ?y)) (?top + ?y) 0 (min (vt_cursor_x t + 1) (vt_cols t)))"
    using b top d by (intro vt_sound_trans [OF d] blank_cols_sound) (auto simp: vt_sound_def frame_simps)
  ultimately show ?thesis
    using wf top by (auto simp: csi_erase_display_def Let_def intro: inv_intros)
qed

lemma csi_erase_line_sound [inv_intros]: "vt_wf t \<Longrightarrow> vt_sound t (csi_erase_line t m)"
  using vt_wf_bounds [of t]
  by (auto simp: csi_erase_line_def Let_def visible_top_index_def intro!: blank_cols_sound vt_sound_refl)

lemma dispatch_csi_sound [inv_intros]:
  assumes wf: "vt_wf t"
  shows "vt_sound t (dispatch_csi t f)"
proof -
  note b = vt_wf_bounds [OF wf]
  have nums: "short_nums 0 (vt_csi_buf t)" using wf by (simp add: vt_wf_def)
  let ?n = "at_least_1 (default_param (parse_csi_params (vt_csi_buf t) 8) 0 1)"
  have n: "1 \<le> ?n \<and> ?n < 1000000000"
    using default_param_bound [OF nums, of 1 8 0] by (simp add: at_least_1_def)
  have w: "wrap32 (vt_cursor_y t - ?n) = vt_cursor_y t - ?n" "wrap32 (vt_cursor_y t + ?n) = vt_cursor_y t + ?n"
    "wrap32 (vt_cursor_x t - ?n) = vt_cursor_x t - ?n" "wrap32 (vt_cursor_x t + ?n) = vt_cursor_x t + ?n"
    using b n by (auto intro!: wrap32_id)
  let ?r = "at_least_1 (default_param (parse_csi_params (vt_csi_buf t) 8) 0 1) - 1"
  let ?c = "at_least_1 (default_param (parse_csi_params (vt_csi_buf t) 8) 1 1) - 1"
  have "vt_sound t (t\<lparr>vt_cursor_y := (if ?r \<ge> vt_rows t then vt_rows t - 1 else ?r),
                      vt_cursor_x := (if ?c \<ge> vt_cols t then vt_cols t - 1 else ?c)\<rparr>)"
    using b by (intro cursor_update_sound [OF wf]) (auto simp: at_least_1_def)
  moreover have "vt_sound t (t\<lparr>vt_cursor_y := (if vt_cursor_y t - ?n < 0 then 0 else vt_cursor_y t - ?n)\<rparr>)"
    and "vt_sound t (t\<lparr>vt_cursor_y := (if vt_cursor_y t + ?n \<ge> vt_rows t then vt_rows t - 1 else vt_cursor_y t + ?n)\<rparr>)"
    using b n by (intro cursor_y_sound [OF wf]; simp)+
  moreover have "vt_sound t (t\<lparr>vt_cursor_x := (if vt_cursor_x t + ?n \<ge> vt_cols t then vt_cols t - 1 else vt_cursor_x t + ?n)\<rparr>)"
    and "vt_sound t (t\<lparr>vt_cursor_x := (if vt_cursor_x t - ?n < 0 then 0 else vt_cursor_x t - ?n)\<rparr>)"
    using b n by (intro cursor_x_sound [OF wf]; simp)+
  moreover note csi_erase_display_sound [OF wf] csi_erase_line_sound [OF wf] vt_sound_refl [OF wf]
  ultimately show ?thesis
    unfolding dispatch_csi_def Let_def w by (intro vt_sound_if)
qed

lemma dispatch_csi_buf [frame_simps]: "vt_csi_buf (dispatch_csi t f) = vt_csi_buf t"
  by (simp add: dispatch_csi_def Let_def csi_erase_display_def csi_erase_line_def frame_simps)

lemma parser_update_sound:
  assumes "vt_wf t"
  shows "vt_sound t (t\<lparr>vt_pstate := p, vt_csi_buf := []\<rparr>)"
  using assms by (simp add: vt_sound_def vt_wf_def vt_shape_def total_cap_def vt_region_def)

lemma esc_sound:
  "vt_wf t \<Longrightarrow> vt_csi_buf t = [] \<Longrightarrow> vt_sound t (t\<lparr>vt_pstate := p\<rparr>)"
  by (simp add: vt_sound_def vt_wf_def vt_shape_def total_cap_def vt_region_def)

lemma collect_sound:
  assumes "vt_wf t" "vt_pstate t = VTP_CSI_COLLECTING" "length (vt_csi_buf t) < 63" "vt_digit_ok t b"
  shows "vt_sound t (t\<lparr>vt_csi_buf := vt_csi_buf t @ [b]\<rparr>)"
  using assms
  by (simp add: vt_sound_def vt_wf_def vt_shape_def total_cap_def vt_region_def short_nums_append vt_digit_ok_def)

lemma vt_feed_byte_sound:
  assumes wf: "vt_wf t" and ok: "vt_digit_ok t b"
  shows "vt_sound t (vt_feed_byte mem_available t b)"
proof (cases "vt_pstate t")
  case VTP_NORMAL
  then have "vt_csi_buf t = []" using wf by (simp add: vt_wf_def)
  with VTP_NORMAL wf show ?thesis by (auto simp: vt_feed_byte_def intro: inv_intros esc_sound)
next
  case VTP_ESC_SEEN
  then have "vt_csi_buf t = []" using wf by (simp add: vt_wf_def)
  with VTP_ESC_SEEN wf show ?thesis
    by (auto simp: vt_feed_byte_def intro: esc_sound parser_update_sound)
next
  case VTP_CSI_COLLECTING
  have d: "vt_sound t (dispatch_csi t b)" by (rule dispatch_csi_sound [OF wf])
  then have "vt_wf (dispatch_csi t b)" by (simp add: vt_sound_def)
  from vt_sound_trans [OF d parser_update_sound [OF this]] VTP_CSI_COLLECTING wf ok
  show ?thesis
    by (auto simp: vt_feed_byte_def intro: parser_update_sound collect_sound)
qed

interpretation vt: framed_machine "vt_feed_byte mem_available" vt_digit_ok vt_wf vt_lines vt_region
  using vt_feed_byte_sound by unfold_locales (auto simp: vt_sound_def)

subsection \<open>From the stream to the steps\<close>

lemma handle_c0_buf [frame_simps]: "vt_csi_buf (handle_c0 al t b) = vt_csi_buf t"
  by (simp add: handle_c0_def Let_def frame_simps)

lemma put_printable_buf [frame_simps]: "vt_csi_buf (put_printable al t b) = vt_csi_buf t"
  by (simp add: put_printable_def Let_def frame_simps)

lemma handle_c0_pstate [frame_simps]: "vt_pstate (handle_c0 al t b) = vt_pstate t"
  by (simp add: handle_c0_def Let_def frame_simps)

lemma put_printable_pstate [frame_simps]: "vt_pstate (put_printable al t b) = vt_pstate t"
  by (simp add: put_printable_def Let_def frame_simps)

text \<open>The reader of the stream is where the parser is.\<close>

abbreviation nums_ok_from :: "vtterm \<Rightarrow> byte list \<Rightarrow> bool" where
  "nums_ok_from t \<equiv> csi_nums_ok (vt_pstate t) (length (vt_csi_buf t)) (run_end 0 (vt_csi_buf t))"

lemma final_not_digit: "0x40 \<le> b \<Longrightarrow> \<not> is_digit b"
  by (auto simp: is_digit_def word_le_nat_alt)

lemma nums_ok_step:
  assumes "nums_ok_from t (b # bs)" "vt_pstate t \<noteq> VTP_CSI_COLLECTING \<longrightarrow> vt_csi_buf t = []"
  shows "vt_digit_ok t b" and "nums_ok_from (vt_feed_byte al t b) bs"
proof -
  have "vt_digit_ok t b \<and> nums_ok_from (vt_feed_byte al t b) bs"
  proof (cases "vt_pstate t")
    case VTP_NORMAL
    then show ?thesis using assms by (simp add: vt_digit_ok_def vt_feed_byte_def frame_simps split: if_splits)
  next
    case VTP_ESC_SEEN
    then show ?thesis using assms by (simp add: vt_digit_ok_def vt_feed_byte_def split: if_splits)
  next
    case VTP_CSI_COLLECTING
    then show ?thesis using assms
      by (cases "0x40 \<le> b \<and> b \<le> 0x7E"; cases "63 \<le> length (vt_csi_buf t)")
        (simp_all add: vt_digit_ok_def vt_feed_byte_def run_end_snoc final_not_digit)
  qed
  then show "vt_digit_ok t b" "nums_ok_from (vt_feed_byte al t b) bs" by simp_all
qed

lemma short_stream_ok:
  assumes "vt_wf t" "nums_ok_from t bs"
  shows "run_ok (vt_feed_byte mem_available) vt_digit_ok t bs"
  using assms
proof (induction bs arbitrary: t)
  case (Cons b bs)
  have "vt_pstate t \<noteq> VTP_CSI_COLLECTING \<longrightarrow> vt_csi_buf t = []" using Cons.prems(1) by (simp add: vt_wf_def)
  note step = nums_ok_step [OF Cons.prems(2) this]
  then have "vt_wf (vt_feed_byte mem_available t b)"
    using vt_feed_byte_sound [OF Cons.prems(1)] by (simp add: vt_sound_def)
  with step show ?case using Cons.IH by simp
qed simp

lemma feed_bytes_sound:
  assumes "vt_wf t" "nums_ok_from t bs"
  shows "vt_wf (vt_term_feed_bytes mem_available t bs)"
    and "a \<notin> vt_region (vt_term_feed_bytes mem_available t bs) \<Longrightarrow>
           vt_lines (vt_term_feed_bytes mem_available t bs) a = vt_lines t a"
proof -
  let ?t1 = "if vt_scroll_offset t \<noteq> 0 then t\<lparr>vt_scroll_offset := 0\<rparr> else t"
  have wf1: "vt_wf ?t1" using assms(1) by (simp add: vt_wf_def vt_shape_def total_cap_def)
  have "vt_csi_buf ?t1 = vt_csi_buf t" "vt_pstate ?t1 = vt_pstate t" by simp_all
  with short_stream_ok [OF wf1, of bs] assms(2)
  have ok: "run_ok (vt_feed_byte mem_available) vt_digit_ok ?t1 bs" by simp
  show "vt_wf (vt_term_feed_bytes mem_available t bs)"
    using vt.run_inv [OF wf1 ok] assms(1) by (simp add: vt_term_feed_bytes_def)
  show "vt_lines (vt_term_feed_bytes mem_available t bs) a = vt_lines t a"
    if "a \<notin> vt_region (vt_term_feed_bytes mem_available t bs)"
    using vt.run_frame [OF wf1 ok, of a] that by (auto simp: vt_term_feed_bytes_def split: if_splits)
qed

subsection \<open>Chunking\<close>

lemma blank_scroll [frame_simps]:
  "vt_scroll_offset (csi_erase_display t m) = vt_scroll_offset t"
  "vt_scroll_offset (csi_erase_line t m) = vt_scroll_offset t"
  by (simp_all add: csi_erase_display_def csi_erase_line_def Let_def frame_simps)

lemma feed_byte_scroll [frame_simps]: "vt_scroll_offset (vt_feed_byte al t b) = vt_scroll_offset t"
  by (simp add: vt_feed_byte_def handle_c0_def put_printable_def dispatch_csi_def Let_def frame_simps
      split: vtparse.splits)

lemma feed_run_scroll: "vt_scroll_offset (foldl (vt_feed_byte al) t bs) = vt_scroll_offset t"
  by (induction bs arbitrary: t) (simp_all add: frame_simps)

lemma feed_bytes_scroll: "bs \<noteq> [] \<Longrightarrow> vt_scroll_offset (vt_term_feed_bytes al t bs) = 0"
  by (auto simp: vt_term_feed_bytes_def feed_run_scroll)

lemma feed_bytes_append:
  "vt_term_feed_bytes al t (xs @ ys) = vt_term_feed_bytes al (vt_term_feed_bytes al t xs) ys"
proof (cases "xs = [] \<or> ys = []")
  case True
  then show ?thesis by (auto simp: vt_term_feed_bytes_def)
next
  case False
  then have "vt_scroll_offset (vt_term_feed_bytes al t xs) = 0" by (simp add: feed_bytes_scroll)
  with False show ?thesis by (simp add: vt_term_feed_bytes_def)
qed

subsection \<open>Init\<close>

lemma append_rows_shape:
  "vt_shape t \<Longrightarrow> vt_lines_total t + int n \<le> total_cap t \<Longrightarrow>
    vt_shape (append_rows mem_available t n) \<and>
    vt_lines_total (append_rows mem_available t n) = vt_lines_total t + int n \<and>
    vt_cols (append_rows mem_available t n) = vt_cols t \<and>
    vt_rows (append_rows mem_available t n) = vt_rows t \<and>
    vt_cursor_x (append_rows mem_available t n) = vt_cursor_x t \<and>
    vt_cursor_y (append_rows mem_available t n) = vt_cursor_y t \<and>
    vt_scroll_offset (append_rows mem_available t n) = vt_scroll_offset t \<and>
    vt_csi_buf (append_rows mem_available t n) = vt_csi_buf t \<and>
    vt_scrollback_max (append_rows mem_available t n) = vt_scrollback_max t"
proof (induction n arbitrary: t)
  case 0
  then show ?case by simp
next
  case (Suc n)
  let ?t = "append_blank_row mem_available t"
  have "vt_shape ?t" using Suc.prems(1) by (rule append_blank_row_shape)
  moreover have "vt_lines_total ?t + int n \<le> total_cap ?t" using Suc.prems by (simp add: frame_simps)
  ultimately show ?case using Suc.IH [of ?t] Suc.prems by (simp add: frame_simps)
qed

lemma init_wf:
  assumes "cols \<le> 1073741824" "1 \<le> rows" "0 \<le> scrollback" "rows + scrollback \<le> 1073741824"
  shows "vt_wf (vt_term_init mem_available heap cols rows scrollback)"
proof -
  define t where "t = \<lparr>vt_cols = (if cols < 1 then 80 else cols), vt_rows = rows, vt_cursor_x = 0, vt_cursor_y = 0,
               vt_scrollback_max = scrollback, vt_lines = heap, vt_lines_total = 0,
               vt_lines_capacity = 0, vt_scroll_offset = 0, vt_pstate = VTP_NORMAL,
               vt_csi_buf = [], vt_lf_to_crlf = False, vt_stat_cr = 0, vt_stat_lf = 0,
               vt_sel_active = False, vt_sel_anchor_row = 0, vt_sel_anchor_col = 0,
               vt_sel_lead_row = 0, vt_sel_lead_col = 0\<rparr>"
  let ?g = "grow_to mem_available t rows"
  have cap: "0 \<le> vt_lines_capacity ?g" "vt_lines_capacity ?g \<le> total_cap t"
    using grow_to_capacity [of t rows] assms by (auto simp: t_def total_cap_def)
  then have shape: "vt_shape ?g"
    using assms by (simp add: vt_shape_def frame_simps) (simp add: t_def total_cap_def)
  have "vt_lines_total ?g + int (nat rows) \<le> total_cap ?g"
    using assms by (simp add: frame_simps) (simp add: t_def total_cap_def)
  note r = append_rows_shape [OF shape this]
  have "vt_pstate (append_rows mem_available ?g n) = VTP_NORMAL" for n
  proof -
    have "vt_pstate (append_rows mem_available u n) = vt_pstate u" for u
      by (induction n arbitrary: u) (simp_all add: frame_simps)
    then show ?thesis by (simp add: frame_simps) (simp add: t_def)
  qed
  with r assms have "vt_wf (append_rows mem_available ?g (nat rows))"
    unfolding vt_wf_def by (simp add: frame_simps) (simp add: t_def)
  then show ?thesis using assms by (simp add: vt_term_init_def t_def Let_def)
qed

subsection \<open>Resize\<close>

lemma resize_trim_bounds:
  "src - int k \<le> resize_trim k t ca src \<and> resize_trim k t ca src \<le> src \<and>
   (ca < src \<longrightarrow> ca < resize_trim k t ca src)"
  by (induction k t ca src rule: resize_trim.induct) auto

text \<open>The content of buffer row \<open>r\<close>.\<close>

definition vt_row :: "vtterm \<Rightarrow> int \<Rightarrow> vtcell list" where
  "vt_row t r = mem_slice (vt_lines t) (row_ptr t r) (vt_cols t)"

lemma resize_src_bounds:
  assumes "vt_wf t"
  shows "vt_lines_total t - vt_rows t + vt_cursor_y t < resize_src t rows"
    and "resize_src t rows \<le> vt_lines_total t"
    and "1 \<le> rows \<Longrightarrow> vt_lines_total t - vt_rows t + rows \<le> resize_src t rows \<or> vt_rows t \<le> rows"
  using resize_trim_bounds [of "vt_lines_total t" "nat (vt_rows t - rows)" t
      "vt_lines_total t - vt_rows t + vt_cursor_y t"] vt_wf_bounds [OF assms]
  by (auto simp: resize_src_def Let_def)

text \<open>When the resize is carried out, these are the fields of the result.\<close>

definition resize_done :: "(int \<Rightarrow> bool) \<Rightarrow> vtterm \<Rightarrow> int \<Rightarrow> int \<Rightarrow> bool" where
  "resize_done alloc t cols rows \<longleftrightarrow>
     1 \<le> cols \<and> 1 \<le> rows \<and> \<not> (cols = vt_cols t \<and> rows = vt_rows t) \<and>
     alloc (resize_cap t rows * cols * 2)"

lemma resize_cap_ge: "rows \<le> resize_cap t rows"
  by (simp add: resize_cap_def Let_def)

lemma resize_cap_small:
  "0 \<le> vt_scrollback_max t \<Longrightarrow> 1 \<le> rows \<Longrightarrow> vt_scrollback_max t + rows \<le> 1073741824 \<Longrightarrow>
    resize_cap t rows = vt_scrollback_max t + rows"
  by (simp add: resize_cap_def)

lemma resize_not_done:
  assumes "\<not> resize_done alloc t cols rows"
  shows "vt_term_resize alloc t cols rows = t"
proof -
  consider "cols < 1 \<or> rows < 1" | "cols = vt_cols t \<and> rows = vt_rows t"
    | "\<not> alloc (resize_cap t rows * cols * 2)"
    using assms by (fastforce simp: resize_done_def)
  then show ?thesis
  proof cases
    case 1
    then show ?thesis unfolding vt_term_resize_def by simp
  next
    case 2
    then show ?thesis unfolding vt_term_resize_def by simp
  next
    case 3
    then show ?thesis unfolding vt_term_resize_def Let_def clamp_simps by (simp only: simp_thms if_True if_cancel)
  qed
qed

lemma resize_fields:
  assumes "resize_done alloc t cols rows"
  defines "cap \<equiv> resize_cap t rows"
  defines "copied \<equiv> min (resize_src t rows) cap"
  defines "tot \<equiv> max copied rows"
  defines "cy \<equiv> (vt_lines_total t - vt_rows t + vt_cursor_y t) - (resize_src t rows - copied) - (tot - rows)"
  shows "vt_term_resize alloc t cols rows =
    t\<lparr>vt_lines := resize_buffer t (resize_src t rows) copied cap cols rows,
      vt_lines_capacity := cap, vt_lines_total := tot, vt_cols := cols, vt_rows := rows,
      vt_cursor_x := min (vt_cursor_x t) (cols - 1),
      vt_cursor_y := min (max cy 0) (rows - 1),
      vt_scroll_offset := max (min (vt_scroll_offset t) (tot - rows)) 0\<rparr>"
proof -
  have dim: "\<not> (cols < 1 \<or> rows < 1)" "\<not> (cols = vt_cols t \<and> rows = vt_rows t)"
    and mem: "alloc (cap * cols * 2)"
    using assms(1) by (auto simp: resize_done_def cap_def)
  show ?thesis
    unfolding vt_term_resize_def Let_def if_not_P [OF dim(1)] if_not_P [OF dim(2)] clamp_simps
      cap_def [symmetric]
    using mem by (simp add: copied_def tot_def cy_def)
qed

lemma resize_wf:
  assumes wf: "vt_wf t" and cols: "cols \<le> 1073741824" and rows: "vt_scrollback_max t + rows \<le> 1073741824"
  shows "vt_wf (vt_term_resize alloc t cols rows)"
proof (cases "resize_done alloc t cols rows")
  case False
  then show ?thesis using resize_not_done wf by (simp add: vt_wf_def vt_shape_def)
next
  case True
  have sb: "0 \<le> vt_scrollback_max t" using wf by (simp add: vt_wf_def vt_shape_def)
  have dim: "1 \<le> cols" "1 \<le> rows" using True by (simp_all add: resize_done_def)
  have src: "0 < resize_src t rows" using resize_src_bounds(1) [OF wf, of rows] vt_wf_bounds [OF wf] by linarith
  have buf: "vt_pstate t \<noteq> VTP_CSI_COLLECTING \<longrightarrow> vt_csi_buf t = []" "length (vt_csi_buf t) \<le> 63"
    "short_nums 0 (vt_csi_buf t)" "0 \<le> vt_cursor_x t" using wf by (simp_all add: vt_wf_def)
  let ?cap = "vt_scrollback_max t + rows"
  have cap: "resize_cap t rows = ?cap" using sb dim rows by (intro resize_cap_small)
  define copied where "copied = min (resize_src t rows) ?cap"
  define tot where "tot = max copied rows"
  define cy where "cy = min (max ((vt_lines_total t - vt_rows t + vt_cursor_y t) -
    (resize_src t rows - copied) - (tot - rows)) 0) (rows - 1)"
  define so where "so = max (min (vt_scroll_offset t) (tot - rows)) 0"
  have "rows \<le> tot" "tot \<le> ?cap" using sb by (auto simp: tot_def copied_def)
  moreover have "0 \<le> cy" "cy < rows" using dim by (auto simp: cy_def)
  moreover have "0 \<le> so" "so \<le> tot - rows" using \<open>rows \<le> tot\<close> by (auto simp: so_def)
  ultimately show ?thesis
    unfolding resize_fields [OF True] cap copied_def [symmetric] tot_def [symmetric] cy_def [symmetric]
      so_def [symmetric]
    using buf dim sb cols rows by (simp add: vt_wf_def vt_shape_def total_cap_def)
qed

lemma resize_buffer_row:
  assumes "0 \<le> r" "r < new_total" "1 \<le> cols" "0 \<le> j" "j < cols"
  shows "resize_buffer t src new_total cap cols rows (r * cols + j) =
    (if j < vt_cols t then vt_lines t (row_ptr t (src - new_total + r) + j) else blank_cell)"
proof -
  have dm: "(r * cols + j) div cols = r" "(r * cols + j) mod cols = j"
    using assms by (simp_all add: div_pos_pos_trivial)
  have jm: "j mod cols = j" "j div cols = 0" using assms by (simp_all add: div_pos_pos_trivial)
  have "0 \<le> r * cols + j" "r * cols + j < new_total * cols"
    using row_major_bounds [of r new_total j cols] assms by auto
  then show ?thesis
    using assms(5) by (auto simp: resize_buffer_def Let_def mem_fill_apply dm jm)
qed

text \<open>A row cut or padded to a new width.\<close>

definition fit_row :: "int \<Rightarrow> vtcell list \<Rightarrow> vtcell list" where
  "fit_row cols row = take (nat cols) (row @ replicate (nat cols) blank_cell)"

lemma resize_row:
  assumes wf: "vt_wf t" and don: "resize_done alloc t cols rows"
    and r: "0 \<le> r" "r < min (resize_src t rows) (resize_cap t rows)"
  shows "vt_row (vt_term_resize alloc t cols rows) r =
    fit_row cols (vt_row t (resize_src t rows - min (resize_src t rows) (resize_cap t rows) + r))"
proof -
  have sb: "0 \<le> vt_scrollback_max t" using wf by (simp add: vt_wf_def vt_shape_def)
  have c: "1 \<le> cols" using don by (simp add: resize_done_def)
  let ?n = "min (resize_src t rows) (resize_cap t rows)"
  have row: "vt_row (vt_term_resize alloc t cols rows) r =
    mem_slice (resize_buffer t (resize_src t rows) ?n (resize_cap t rows) cols rows) (r * cols) cols"
    by (simp add: resize_fields [OF don] vt_row_def row_ptr_def)
  show ?thesis
    unfolding row
  proof (rule nth_equalityI)
    fix i assume "i < length (mem_slice (resize_buffer t (resize_src t rows) ?n (resize_cap t rows) cols rows) (r * cols) cols)"
    then have i: "i < nat cols" by simp
    then have "0 \<le> int i" "int i < cols" using c by auto
    note cell = resize_buffer_row [OF r c this, of t "resize_src t rows" "resize_cap t rows" rows]
    show "mem_slice (resize_buffer t (resize_src t rows) ?n (resize_cap t rows) cols rows) (r * cols) cols ! i =
      fit_row cols (vt_row t (resize_src t rows - ?n + r)) ! i"
      using i by (simp add: cell vt_row_def nth_mem_slice fit_row_def nth_append nat_less_iff)
  qed (simp add: vt_row_def fit_row_def)
qed

text \<open>When every row below the cursor is blank, the trim loop runs as far as the bounds allow.\<close>

lemma resize_trim_all_blank:
  assumes "\<And>r. ca < r \<Longrightarrow> r < src \<Longrightarrow> row_is_blank t r"
  shows "resize_trim k t ca src = (if ca < src then max (src - int k) (ca + 1) else src)"
  using assms
proof (induction k t ca src rule: resize_trim.induct)
  case (1 t ca src)
  then show ?case by auto
next
  case (2 k t ca src)
  then show ?case by (auto simp: max_def)
qed

text \<open>
  The cursor follows its text: after a resize the row under the cursor is the row that was
  under it, cut or padded to the new width.
\<close>

lemma resize_cursor_row:
  assumes wf: "vt_wf t" and don: "resize_done alloc t cols rows"
    and below: "vt_rows t \<le> rows \<or>
      (\<forall>r. vt_lines_total t - vt_rows t + vt_cursor_y t < r \<and> r < vt_lines_total t \<longrightarrow> row_is_blank t r)"
  defines "t' \<equiv> vt_term_resize alloc t cols rows"
  shows "vt_row t' (visible_top_index t' + vt_cursor_y t') =
    fit_row cols (vt_row t (visible_top_index t + vt_cursor_y t))"
proof -
  have sb: "0 \<le> vt_scrollback_max t" using wf by (simp add: vt_wf_def vt_shape_def)
  note b = vt_wf_bounds [OF wf]
  have rows: "1 \<le> rows" using don by (simp add: resize_done_def)
  let ?ca = "vt_lines_total t - vt_rows t + vt_cursor_y t"
  let ?src = "resize_src t rows"
  let ?n = "min ?src (resize_cap t rows)"
  let ?tot = "max ?n rows"
  have src: "?ca < ?src" "?src \<le> vt_lines_total t"
    using resize_src_bounds [OF wf] by auto
  have le: "vt_lines_total t \<le> vt_scrollback_max t + vt_rows t"
    using wf by (auto simp: vt_wf_def vt_shape_def total_cap_def)
  have srcv: "?src = (if rows < vt_rows t then max (vt_lines_total t - (vt_rows t - rows)) (?ca + 1) else vt_lines_total t)"
    using resize_trim_all_blank [of ?ca "vt_lines_total t" t "nat (vt_rows t - rows)"] below b
    by (auto simp: resize_src_def Let_def)
  have vis: "?tot - rows \<le> ?ca - (?src - ?n)"
    using srcv src b le rows resize_cap_ge [of rows t] by (auto simp: min_def max_def split: if_splits)
  let ?r = "?ca - (?src - ?n)"
  have r: "0 \<le> ?r" "?r < ?n" using vis src by auto
  define y where "y = ?r - (?tot - rows)"
  have "0 \<le> y" "y \<le> rows - 1" using vis r by (auto simp: y_def)
  then have "min (max y 0) (rows - 1) = y" by simp
  then have top: "visible_top_index t' + vt_cursor_y t' = ?r"
    by (simp add: t'_def resize_fields [OF don] visible_top_index_def y_def [symmetric]) (simp add: y_def)
  have old: "?src - ?n + ?r = visible_top_index t + vt_cursor_y t"
    by (simp add: visible_top_index_def)
  show ?thesis
    unfolding top using resize_row [OF wf don r] unfolding old t'_def .
qed

subsection \<open>Eviction carries the selection along\<close>

lemma append_blank_row_row:
  assumes wf: "vt_wf t" and r: "0 \<le> r" "r < vt_lines_total (append_blank_row mem_available t) - 1"
  shows "vt_row (append_blank_row mem_available t) r =
    vt_row t (if vt_lines_total t < total_cap t then r else r + 1)"
proof -
  have shape: "vt_shape t" and c: "1 \<le> vt_cols t" using wf vt_wf_bounds [OF wf] by (simp_all add: vt_wf_def)
  have pos: "0 < vt_lines_total t \<or> vt_lines_total t < total_cap t" using vt_wf_bounds [OF wf] by linarith
  let ?n = "if vt_lines_total t < total_cap t then vt_lines_total t else vt_lines_total t - 1"
  have rn: "r < ?n" using r(2) by (auto simp: frame_simps split: if_splits)
  have "vt_lines (append_blank_row mem_available t) (r * vt_cols t + i) =
    vt_lines t ((if vt_lines_total t < total_cap t then r else r + 1) * vt_cols t + i)"
    if "0 \<le> i" "i < vt_cols t" for i
    using row_major_bounds [OF r(1) rn that] that
    by (simp add: append_blank_row_lines [OF shape pos] Let_def algebra_simps split: if_splits)
  then show ?thesis
    by (auto simp: vt_row_def row_ptr_def frame_simps intro: mem_slice_cong)
qed

lemma append_blank_row_sel:
  "vt_sel_active (append_blank_row al t) = vt_sel_active (drop_oldest_if_full t)"
  "vt_sel_anchor_row (append_blank_row al t) = vt_sel_anchor_row (drop_oldest_if_full t)"
  "vt_sel_lead_row (append_blank_row al t) = vt_sel_lead_row (drop_oldest_if_full t)"
  by (simp_all add: append_blank_row_def Let_def frame_simps)

lemma append_blank_row_selection:
  assumes wf: "vt_wf t" and sel: "vt_sel_active (append_blank_row mem_available t)"
    and rows: "0 \<le> vt_sel_anchor_row t" "vt_sel_anchor_row t < vt_lines_total t"
      "0 \<le> vt_sel_lead_row t" "vt_sel_lead_row t < vt_lines_total t"
  defines "t' \<equiv> append_blank_row mem_available t"
  shows "vt_row t' (vt_sel_anchor_row t') = vt_row t (vt_sel_anchor_row t)"
    and "vt_row t' (vt_sel_lead_row t') = vt_row t (vt_sel_lead_row t)"
proof -
  have shift: "vt_sel_anchor_row t' = (if vt_lines_total t < total_cap t then vt_sel_anchor_row t else vt_sel_anchor_row t - 1)"
    "vt_sel_lead_row t' = (if vt_lines_total t < total_cap t then vt_sel_lead_row t else vt_sel_lead_row t - 1)"
    "0 \<le> vt_sel_anchor_row t'" "0 \<le> vt_sel_lead_row t'"
    using sel rows
    by (auto simp: t'_def append_blank_row_sel drop_oldest_if_full_def Let_def split: if_splits)
  have "vt_sel_anchor_row t' < vt_lines_total t' - 1" "vt_sel_lead_row t' < vt_lines_total t' - 1"
    using shift rows by (auto simp: t'_def frame_simps split: if_splits)
  with append_blank_row_row [OF wf, folded t'_def] shift
  show "vt_row t' (vt_sel_anchor_row t') = vt_row t (vt_sel_anchor_row t)"
    and "vt_row t' (vt_sel_lead_row t') = vt_row t (vt_sel_lead_row t)"
    by (auto split: if_splits)
qed

subsection \<open>Printing\<close>

lemma feed_text:
  assumes "vt_pstate t = VTP_NORMAL" "list_all (\<lambda>b. 0x20 \<le> b \<and> b \<noteq> 0x7F) bs"
    "0 \<le> vt_cursor_x t" "vt_cursor_x t + int (length bs) \<le> vt_cols t"
  shows "foldl (vt_feed_byte al) t bs =
    t\<lparr>vt_lines := mem_write (vt_lines t)
         (row_ptr t (visible_top_index t + vt_cursor_y t) + vt_cursor_x t)
         (map (\<lambda>b. \<lparr>vc_ch = b, vc_flags = 0\<rparr>) bs),
      vt_cursor_x := vt_cursor_x t + int (length bs)\<rparr>"
  using assms
proof (induction bs arbitrary: t)
  case Nil
  then show ?case by simp
next
  case (Cons b bs)
  let ?p = "row_ptr t (visible_top_index t + vt_cursor_y t) + vt_cursor_x t"
  let ?t = "t\<lparr>vt_lines := (vt_lines t)(?p := \<lparr>vc_ch = b, vc_flags = 0\<rparr>), vt_cursor_x := vt_cursor_x t + 1\<rparr>"
  have "\<not> b < 0x20" "b \<noteq> 0x1B" "b \<noteq> 0x7F" using Cons.prems(2) by (auto simp: not_less)
  moreover have "vt_cursor_x t < vt_cols t" using Cons.prems by simp
  ultimately have step: "vt_feed_byte al t b = ?t"
    using Cons.prems(1) by (simp add: vt_feed_byte_def put_printable_def Let_def)
  have pos: "row_ptr ?t (visible_top_index ?t + vt_cursor_y ?t) = row_ptr t (visible_top_index t + vt_cursor_y t)"
    by (simp add: row_ptr_def visible_top_index_def)
  have prems: "vt_pstate ?t = VTP_NORMAL" "list_all (\<lambda>b. 0x20 \<le> b \<and> b \<noteq> 0x7F) bs"
    "0 \<le> vt_cursor_x ?t" "vt_cursor_x ?t + int (length bs) \<le> vt_cols ?t" using Cons.prems by simp_all
  show ?case
    using Cons.IH [OF prems, unfolded pos] by (simp add: step mem_write_Cons fun_upd_def add.assoc add.commute [of 1])
qed

subsection \<open>Extracting the selection\<close>

lemma ext_push_available [simp]:
  "ext_push mem_available st new = Some (fst st @ new, if length (fst st) + 4 \<ge> snd st then snd st * 2 else snd st)"
  by (simp add: ext_push_def Let_def)

lemma ext_cells_available:
  "\<exists>cap. ext_cells mem_available st cs = Some (fst st @ cs, cap)"
proof (induction cs arbitrary: st)
  case Nil
  show ?case by (cases st) simp
next
  case (Cons c cs)
  show ?case
    using Cons.IH [of "(fst st @ [c], if length (fst st) + 4 \<ge> snd st then snd st * 2 else snd st)"] by simp
qed

definition rtrim :: "byte list \<Rightarrow> byte list" where
  "rtrim xs = rev (dropWhile (\<lambda>c. c = 0x20) (rev xs))"

lemma trim_from_append: "trim_from (length pre) (pre @ xs) = pre @ rtrim xs"
proof (induction xs rule: rev_induct)
  case Nil
  then show ?case by (subst trim_from.simps) (simp add: rtrim_def)
next
  case (snoc x xs)
  then show ?case
    by (subst trim_from.simps) (auto simp: rtrim_def butlast_append)
qed

text \<open>The text of one selected row: its selected cells without trailing spaces.\<close>

definition sel_line :: "vtterm \<Rightarrow> int \<times> int \<times> int \<times> int \<Rightarrow> int \<Rightarrow> byte list" where
  "sel_line t sel row =
     (case sel of (sr, sc, er, ec) \<Rightarrow>
        rtrim (sel_row_chars t row (max (if row = sr then sc else 0) 0)
                 (min (if row = er then ec else vt_cols t) (vt_cols t))))"

fun join_crlf :: "byte list list \<Rightarrow> byte list" where
  "join_crlf [] = []"
| "join_crlf [l] = l"
| "join_crlf (l # ls) = l @ [0x0D, 0x0A] @ join_crlf ls"

lemma ext_rows_available:
  assumes "sr \<le> er" "lo \<le> er"
  shows "\<exists>cap. ext_rows mem_available t (sr, sc, er, ec) st [lo..er] =
    Some (fst st @ join_crlf (map (sel_line t (sr, sc, er, ec)) [lo..er]), cap)"
  using assms(2)
proof (induction "nat (er - lo)" arbitrary: lo st)
  case 0
  then have lo: "lo = er" by simp
  obtain cap where "ext_cells mem_available st (sel_row_chars t er (max (if er = sr then sc else 0) 0) (min ec (vt_cols t))) =
    Some (fst st @ sel_row_chars t er (max (if er = sr then sc else 0) 0) (min ec (vt_cols t)), cap)"
    using ext_cells_available by blast
  then show ?case
    unfolding lo by (simp add: Let_def clamp_simps trim_from_append sel_line_def)
next
  case (Suc n)
  then have lo: "lo < er" by simp
  let ?l = "sel_row_chars t lo (max (if lo = sr then sc else 0) 0) (vt_cols t)"
  obtain cap where cells: "ext_cells mem_available st ?l = Some (fst st @ ?l, cap)"
    using ext_cells_available by blast
  have split: "[lo..er] = lo # [lo + 1..er]" using lo by (simp add: upto_rec1)
  have line: "sel_line t (sr, sc, er, ec) lo = rtrim ?l" using lo by (simp add: sel_line_def)
  define st' where "st' = (fst st @ rtrim ?l @ [0x0D, 0x0A],
    if length (fst st @ rtrim ?l) + 4 \<ge> cap then cap * 2 else cap)"
  have "\<exists>c. ext_rows mem_available t (sr, sc, er, ec) st' [lo + 1..er] =
      Some (fst st' @ join_crlf (map (sel_line t (sr, sc, er, ec)) [lo + 1..er]), c)"
    by (rule Suc.hyps(1)) (use Suc.hyps(2) lo in simp_all)
  then obtain cap' where rest: "ext_rows mem_available t (sr, sc, er, ec) st' [lo + 1..er] =
      Some (fst st' @ join_crlf (map (sel_line t (sr, sc, er, ec)) [lo + 1..er]), cap')" by blast
  have ne: "map (sel_line t (sr, sc, er, ec)) [lo + 1..er] \<noteq> []" using lo by simp
  then have join: "join_crlf (rtrim ?l # map (sel_line t (sr, sc, er, ec)) [lo + 1..er]) =
      rtrim ?l @ [0x0D, 0x0A] @ join_crlf (map (sel_line t (sr, sc, er, ec)) [lo + 1..er])"
    by (cases "map (sel_line t (sr, sc, er, ec)) [lo + 1..er]") auto
  have "ext_rows mem_available t (sr, sc, er, ec) st [lo..er] =
      ext_rows mem_available t (sr, sc, er, ec) st' [lo + 1..er]"
    using lo by (simp add: split Let_def clamp_simps cells trim_from_append st'_def del: upto.simps)
  then show ?case
    unfolding rest by (simp add: split line join st'_def del: upto.simps)
qed

lemma sel_normalize_ordered: "sel_normalize t = (sr, sc, er, ec) \<Longrightarrow> sr \<le> er"
  by (auto simp: sel_normalize_def Let_def split: if_splits)

lemma select_extract_text:
  assumes "vt_sel_active t" "sel_normalize t = (sr, sc, er, ec)" "\<not> (sr = er \<and> sc = ec)"
  shows "vt_term_select_extract mem_available t =
    Some (join_crlf (map (sel_line t (sr, sc, er, ec)) [sr..er]))"
proof -
  have "sr \<le> er" using assms(2) by (rule sel_normalize_ordered)
  from ext_rows_available [OF this this, of t sc ec "([], 256)"] assms
  show ?thesis by (auto simp: vt_term_select_extract_def)
qed

subsection \<open>Properties\<close>

lemma feed_bytes_Nil: "vt_term_feed_bytes al t [] = t"
  by (simp add: vt_term_feed_bytes_def)

lemma feed_chunks: "foldl (vt_term_feed_bytes al) t chunks = vt_term_feed_bytes al t (concat chunks)"
  by (induction chunks arbitrary: t) (simp_all add: feed_bytes_append feed_bytes_Nil)

lemma init_pstate: "vt_pstate (vt_term_init al heap cols rows sb) = VTP_NORMAL"
proof -
  have "vt_pstate (append_rows al u n) = vt_pstate u" for u n
    by (induction n arbitrary: u) (simp_all add: frame_simps)
  then show ?thesis by (simp add: vt_term_init_def Let_def frame_simps)
qed

text \<open>
  C1: Memory safety of the terminal. From \<open>vt_term_init\<close>, whatever bytes arrive in whatever
  buffers, the cursor stays on the screen, the ring never holds more than
  \<open>scrollback + rows\<close> rows, the CSI buffer never overflows and no cell outside the allocated
  rows is written, provided allocation succeeds, \<open>cols\<close> and \<open>rows + scrollback\<close> are at most 2^30, and no number
  in a control sequence has ten digits (digits of the text do not matter).
\<close>

theorem vt_stream_safe:
  fixes heap :: "int \<Rightarrow> vtcell"
  assumes "cols \<le> 1073741824" "1 \<le> rows" "0 \<le> scrollback" "rows + scrollback \<le> 1073741824"
    and "csi_nums_ok VTP_NORMAL 0 0 (concat chunks)"
  defines "t0 \<equiv> vt_term_init mem_available heap cols rows scrollback"
  defines "t \<equiv> foldl (vt_term_feed_bytes mem_available) t0 chunks"
  shows "vt_wf t \<and> (\<forall>a. a \<notin> vt_region t \<longrightarrow> vt_lines t a = vt_lines t0 a)"
proof -
  have wf: "vt_wf t0" unfolding t0_def by (rule init_wf [OF assms(1-4)])
  moreover have "vt_pstate t0 = VTP_NORMAL" "vt_csi_buf t0 = []"
    using wf init_pstate [of mem_available heap cols rows scrollback] by (simp_all add: t0_def vt_wf_def)
  ultimately show ?thesis
    using feed_bytes_sound [of t0 "concat chunks"] assms(5) by (auto simp: t_def feed_chunks)
qed

lemma vt_stream_safe_witness:
  "vt_wf (foldl (vt_term_feed_bytes mem_available) (vt_term_init mem_available (\<lambda>_. zero_cell) 80 24 1000)
     [asc ''(555) 01234567890'', [0x1B, 0x5B, 0x33], [0x41, 0x58, 0x0A]])"
proof -
  have "csi_nums_ok VTP_NORMAL 0 0 (concat [asc ''(555) 01234567890'', [0x1B, 0x5B, 0x33], [0x41, 0x58, 0x0A]])"
    by (simp add: is_digit_def)
  from vt_stream_safe [OF _ _ _ _ this, of 80 24 1000 "\<lambda>_. zero_cell"] show ?thesis by simp
qed

text \<open>
  the buffering of the network does not matter. Feeding a received stream in any
  division into buffers gives the same terminal.
\<close>

theorem vt_feed_chunking:
  "foldl (vt_term_feed_bytes alloc) t chunks = vt_term_feed_bytes alloc t (concat chunks)"
  by (rule feed_chunks)

lemma wrap32_over: "2147483648 \<le> x \<Longrightarrow> x < 6442450944 \<Longrightarrow> wrap32 x = x - 4294967296"
proof -
  assume x: "2147483648 \<le> x" "x < 6442450944"
  have "(x + 2147483648) mod 4294967296 = (x + 2147483648 - 4294967296) mod 4294967296"
    by (rule minus_mod_self2 [symmetric])
  also have "\<dots> = x + 2147483648 - 4294967296" using x by (intro mod_pos_pos_trivial) auto
  finally show ?thesis by (simp add: wrap32_def)
qed

definition esc_down_max :: "byte list" where
  "esc_down_max = [0x1B, 0x5B, 0x32, 0x31, 0x34, 0x37, 0x34, 0x38, 0x33, 0x36, 0x34, 0x37, 0x42]"

lemma params_down_max:
  "parse_csi_params [0x32, 0x31, 0x34, 0x37, 0x34, 0x38, 0x33, 0x36, 0x34, 0x37] 8 = [2147483647]"
  by code_simp

text \<open>
  C11: the ten-digit bound of C1 is needed. On a terminal whose cursor is below the first row,
  \<open>ESC [ 2147483647 B\<close> overflows \<open>cursor_y + n\<close>; only the lower edge of the screen is
  checked afterwards, so the cursor ends at a negative row, and the next printable byte is
  written in front of the buffer.
\<close>

theorem vt_cursor_down_overflow:
  fixes alloc :: "int \<Rightarrow> bool"
  assumes "vt_wf t" "vt_pstate t = VTP_NORMAL" "1 \<le> vt_cursor_y t" "vt_cursor_x t < vt_cols t"
  defines "t' \<equiv> foldl (vt_feed_byte alloc) t esc_down_max"
  shows "vt_cursor_y t' < 0 \<and>
    (\<exists>p < 0. vt_lines (vt_feed_byte alloc t' 0x58) = (vt_lines t)(p := \<lparr>vc_ch = 0x58, vc_flags = 0\<rparr>))"
proof -
  note b = vt_wf_bounds [OF assms(1)]
  have buf: "vt_csi_buf t = []" using assms(1,2) by (simp add: vt_wf_def)
  let ?y = "vt_cursor_y t + 2147483647 - 4294967296"
  have y: "wrap32 (vt_cursor_y t + 2147483647) = ?y"
    using assms(3) b by (intro wrap32_over) auto
  have t': "t' = t\<lparr>vt_cursor_y := ?y\<rparr>"
    using assms(2) buf b y
    by (simp add: t'_def esc_down_max_def vt_feed_byte_def dispatch_csi_def params_down_max
        default_param_def at_least_1_def Let_def)
  let ?r = "vt_lines_total t - vt_rows t + ?y"
  let ?p = "?r * vt_cols t + vt_cursor_x t"
  have "vt_lines_total t \<le> 1073741824" using assms(1) by (auto simp: vt_wf_def vt_shape_def)
  then have "?r \<le> - 1" using b by linarith
  then have "?r * vt_cols t \<le> - 1 * vt_cols t" using b by (intro mult_right_mono) auto
  then have p: "?p < 0" using assms(4) by linarith
  have "vt_lines (vt_feed_byte alloc t' 0x58) = (vt_lines t)(?p := \<lparr>vc_ch = 0x58, vc_flags = 0\<rparr>)"
    unfolding t' using assms(2,4)
    by (simp add: vt_feed_byte_def put_printable_def Let_def row_ptr_def visible_top_index_def)
  moreover have "vt_cursor_y t' < 0" unfolding t' using b by simp
  ultimately show ?thesis using p by blast
qed

definition two_row_term :: vtterm where
  "two_row_term = \<lparr>vt_cols = 4, vt_rows = 2, vt_cursor_x = 0, vt_cursor_y = 1, vt_scrollback_max = 0,
     vt_lines = (\<lambda>_. blank_cell), vt_lines_total = 2, vt_lines_capacity = 2, vt_scroll_offset = 0,
     vt_pstate = VTP_NORMAL, vt_csi_buf = [], vt_lf_to_crlf = False, vt_stat_cr = 0, vt_stat_lf = 0,
     vt_sel_active = True, vt_sel_anchor_row = 1, vt_sel_anchor_col = 0, vt_sel_lead_row = 1,
     vt_sel_lead_col = 2\<rparr>"

lemma two_row_term_wf: "vt_wf two_row_term"
  by (simp add: two_row_term_def vt_wf_def vt_shape_def total_cap_def)

lemma vt_cursor_down_overflow_witness:
  "vt_cursor_y (foldl (vt_feed_byte mem_available) two_row_term esc_down_max) < 0"
proof -
  have "vt_pstate two_row_term = VTP_NORMAL" "1 \<le> vt_cursor_y two_row_term"
    "vt_cursor_x two_row_term < vt_cols two_row_term" by (simp_all add: two_row_term_def)
  from vt_cursor_down_overflow [OF two_row_term_wf this] show ?thesis by blast
qed

text \<open>
  C9: after a resize the cursor is still on its text: the row under the cursor is the row that
  was under it, cut or padded to the new width, when the terminal grows and also when it
  shrinks with nothing but blank rows below the cursor.
\<close>

theorem vt_resize_cursor_follows:
  assumes "vt_wf t" "resize_done alloc t cols rows"
    and "vt_rows t \<le> rows \<or>
      (\<forall>r. vt_lines_total t - vt_rows t + vt_cursor_y t < r \<and> r < vt_lines_total t \<longrightarrow> row_is_blank t r)"
  defines "t' \<equiv> vt_term_resize alloc t cols rows"
  shows "vt_row t' (visible_top_index t' + vt_cursor_y t') =
    fit_row cols (vt_row t (visible_top_index t + vt_cursor_y t))"
  unfolding t'_def by (rule resize_cursor_row [OF assms(1-3)])

lemma vt_resize_cursor_follows_witness:
  "vt_row (vt_term_resize mem_available two_row_term 3 5)
     (visible_top_index (vt_term_resize mem_available two_row_term 3 5) +
      vt_cursor_y (vt_term_resize mem_available two_row_term 3 5)) = [blank_cell, blank_cell, blank_cell]"
proof -
  have "resize_done mem_available two_row_term 3 5" by (simp add: resize_done_def two_row_term_def)
  from vt_resize_cursor_follows [OF two_row_term_wf this] show ?thesis
    by (simp add: two_row_term_def vt_row_def mem_slice_def fit_row_def upt_rec numeral_eq_Suc)
qed

text \<open>
  a selection sticks to its content when the ring scrolls: a new row at the bottom, with or
  without the eviction of the oldest one, leaves the selection's two end rows on the same
  content, as long as the selection survives at all.
\<close>

theorem vt_selection_follows_scroll:
  assumes "vt_wf t" "vt_sel_active (append_blank_row mem_available t)"
    and "0 \<le> vt_sel_anchor_row t" "vt_sel_anchor_row t < vt_lines_total t"
    and "0 \<le> vt_sel_lead_row t" "vt_sel_lead_row t < vt_lines_total t"
  defines "t' \<equiv> append_blank_row mem_available t"
  shows "vt_row t' (vt_sel_anchor_row t') = vt_row t (vt_sel_anchor_row t) \<and>
    vt_row t' (vt_sel_lead_row t') = vt_row t (vt_sel_lead_row t)"
  unfolding t'_def using append_blank_row_selection [OF assms(1-6)] by blast

lemma vt_selection_follows_scroll_witness:
  "vt_sel_anchor_row (append_blank_row mem_available two_row_term) = 0 \<and>
   vt_row (append_blank_row mem_available two_row_term) 0 = vt_row two_row_term 1"
proof -
  have anchor: "vt_sel_anchor_row (append_blank_row mem_available two_row_term) = 0"
    by (simp add: append_blank_row_sel drop_oldest_if_full_def two_row_term_def total_cap_def Let_def)
  have "vt_sel_active (append_blank_row mem_available two_row_term)"
    by (simp add: append_blank_row_sel drop_oldest_if_full_def two_row_term_def total_cap_def Let_def)
  from vt_selection_follows_scroll [OF two_row_term_wf this] anchor show ?thesis
    by (simp add: two_row_term_def)
qed

text \<open>
  the extracted text of a selection is the selected rows in reading order, each without its
  trailing spaces, joined by CR LF.
\<close>

theorem vt_select_extract_rows:
  assumes "vt_sel_active t" "sel_normalize t = (sr, sc, er, ec)" "\<not> (sr = er \<and> sc = ec)"
  shows "vt_term_select_extract mem_available t =
    Some (join_crlf (map (sel_line t (sr, sc, er, ec)) [sr..er]))"
  by (rule select_extract_text [OF assms])

lemma vt_select_extract_rows_witness:
  "vt_term_select_extract mem_available (two_row_term\<lparr>vt_sel_lead_row := 0\<rparr>) = Some [0x0D, 0x0A]"
proof -
  have "vt_sel_active (two_row_term\<lparr>vt_sel_lead_row := 0\<rparr>)"
    "sel_normalize (two_row_term\<lparr>vt_sel_lead_row := 0\<rparr>) = (0, 2, 1, 0)" "\<not> (0 = (1::int) \<and> 2 = (0::int))"
    by (simp_all add: two_row_term_def sel_normalize_def)
  from vt_select_extract_rows [OF this] show ?thesis
    by (simp add: two_row_term_def sel_line_def sel_row_chars_def sel_char_def blank_cell_def rtrim_def upto_rec1)
qed

text \<open>
  printing. A run of printable bytes that fits in the cursor's row is stored in that row
  from the cursor on, advances the cursor by its length and changes nothing else.
\<close>

theorem vt_print_text:
  assumes "vt_pstate t = VTP_NORMAL" "list_all (\<lambda>b. 0x20 \<le> b \<and> b \<noteq> 0x7F) bs"
    and "0 \<le> vt_cursor_x t" "vt_cursor_x t + int (length bs) \<le> vt_cols t"
  shows "foldl (vt_feed_byte alloc) t bs =
    t\<lparr>vt_lines := mem_write (vt_lines t)
         (row_ptr t (visible_top_index t + vt_cursor_y t) + vt_cursor_x t)
         (map (\<lambda>b. \<lparr>vc_ch = b, vc_flags = 0\<rparr>) bs),
      vt_cursor_x := vt_cursor_x t + int (length bs)\<rparr>"
  by (rule feed_text [OF assms])

lemma vt_print_text_witness:
  "vt_cursor_x (foldl (vt_feed_byte mem_available) two_row_term [0x48, 0x69]) = 2"
proof -
  have "vt_pstate two_row_term = VTP_NORMAL" "list_all (\<lambda>b. 0x20 \<le> b \<and> b \<noteq> 0x7F) [0x48, 0x69 :: byte]"
    "0 \<le> vt_cursor_x two_row_term" "vt_cursor_x two_row_term + int (length [0x48, 0x69 :: byte]) \<le> vt_cols two_row_term"
    by (simp_all add: two_row_term_def)
  from vt_print_text [OF this] show ?thesis by (simp add: two_row_term_def)
qed

end
