(* ===== verification/TcpSession.thy ===== *)
theory TcpSession
  imports Prelude
begin

section \<open>Sockets, worker events and their contract\<close>

text \<open>
  What the three line protocols of the terminal tab (telnet\_proto.c, finger\_proto.c,
  qotd\_proto.c) share: the client side of a TCP socket, the loop over addresses of
  \<open>connect_to\<close>, the events a worker thread posts to its window, and the contract every
  worker keeps. The operating system is a parameter: \<open>sk_results n\<close> is what the \<open>n\<close>-th
  call of \<open>send\<close> answers (a count of bytes, cut to what was offered as \<open>send\<close>
  documents, or an error), and the results of \<open>recv\<close> are the script the worker runs on.
\<close>

subsection \<open>Sending\<close>

record tcp_sock =
  sk_open :: bool
  sk_results :: "nat \<Rightarrow> int"
  sk_calls :: nat
  sk_wire :: "byte list"

text \<open>One \<open>send\<close>: the result, and the bytes that reached the wire.\<close>

definition sock_send :: "tcp_sock \<Rightarrow> byte list \<Rightarrow> int \<times> tcp_sock" where
  "sock_send s buf =
     (let r = min (sk_results s (sk_calls s)) (int (length buf))
      in (r, s\<lparr>sk_calls := Suc (sk_calls s), sk_wire := sk_wire s @ take (nat r) buf\<rparr>))"

function send_all :: "tcp_sock \<Rightarrow> byte list \<Rightarrow> int \<times> tcp_sock" where
  "send_all s buf =
     (if buf = [] then (0, s)
      else
        let (n, s') = sock_send s buf
        in if n \<le> 0 then (- 1, s') else send_all s' (drop (nat n) buf))"
  by pat_completeness auto
termination
  by (relation "measure (\<lambda>(s, buf). length buf)") auto

declare send_all.simps [simp del]

lemma send_all_Nil [simp]: "send_all s [] = (0, s)"
  by (simp add: send_all.simps)

lemma send_all_error: "buf \<noteq> [] \<Longrightarrow> sock_send s buf = (n, s') \<Longrightarrow> n \<le> 0 \<Longrightarrow> send_all s buf = (- 1, s')"
  by (simp add: send_all.simps [of s buf])

lemma send_all_more:
  "buf \<noteq> [] \<Longrightarrow> sock_send s buf = (n, s') \<Longrightarrow> \<not> n \<le> 0 \<Longrightarrow>
    send_all s buf = send_all s' (drop (nat n) buf)"
  by (simp add: send_all.simps [of s buf])

lemma sock_send_open [simp]: "sk_open (snd (sock_send s buf)) = sk_open s"
  by (simp add: sock_send_def Let_def)

lemma sock_send_results [simp]: "sk_results (snd (sock_send s buf)) = sk_results s"
  by (simp add: sock_send_def Let_def)

lemma send_all_unchanged [simp]:
  "sk_open (snd (send_all s buf)) = sk_open s \<and> sk_results (snd (send_all s buf)) = sk_results s"
proof (induction s buf rule: send_all.induct)
  case (1 s buf)
  obtain n s' where snd: "sock_send s buf = (n, s')" by (cases "sock_send s buf")
  then have "sk_open s' = sk_open s" "sk_results s' = sk_results s"
    using sock_send_open [of s buf] sock_send_results [of s buf] by simp_all
  with 1 snd show ?case
    by (cases "buf = []"; cases "n \<le> 0") (simp_all add: send_all_error send_all_more)
qed

text \<open>
  \<open>send_all\<close> puts a prefix of the buffer on the wire, and the whole buffer exactly when it
  returns 0, however the system splits the transfer.
\<close>

lemma sock_send_wire:
  "sock_send s buf = (n, s') \<Longrightarrow> sk_wire s' = sk_wire s @ take (nat n) buf \<and> n \<le> int (length buf)"
  by (auto simp: sock_send_def Let_def)

lemma send_all_wire:
  "\<exists>k. sk_wire (snd (send_all s buf)) = sk_wire s @ take k buf \<and> k \<le> length buf \<and>
       fst (send_all s buf) = (if k = length buf then 0 else - 1)"
proof (induction s buf rule: send_all.induct)
  case (1 s buf)
  obtain n s' where snd: "sock_send s buf = (n, s')" by (cases "sock_send s buf")
  have wire: "sk_wire s' = sk_wire s @ take (nat n) buf" and n: "n \<le> int (length buf)"
    using sock_send_wire [OF snd] by auto
  consider "buf = []" | "buf \<noteq> []" "n \<le> 0" | "buf \<noteq> []" "\<not> n \<le> 0" by blast
  then show ?case
  proof cases
    case 1
    then show ?thesis by simp
  next
    case 2
    then show ?thesis using wire by (intro exI [of _ 0]) (simp add: send_all_error [OF _ snd])
  next
    case 3
    note eq = send_all_more [OF 3(1) snd 3(2)]
    obtain k where k: "sk_wire (snd (send_all s' (drop (nat n) buf))) = sk_wire s' @ take k (drop (nat n) buf)"
      "k \<le> length (drop (nat n) buf)"
      "fst (send_all s' (drop (nat n) buf)) = (if k = length (drop (nat n) buf) then 0 else - 1)"
      using "1.IH" [OF 3(1) snd [symmetric] refl 3(2)] by blast
    have "sk_wire (snd (send_all s buf)) = sk_wire s @ take (nat n + k) buf"
      unfolding eq k(1) wire by (simp add: take_add)
    moreover have "nat n + k \<le> length buf" "nat n + k = length buf \<longleftrightarrow> k = length (drop (nat n) buf)"
      using k(2) n 3(2) by auto
    ultimately show ?thesis unfolding eq k(3) by metis
  qed
qed

text \<open>A system that accepts at least one byte per call.\<close>

definition reliable :: "tcp_sock \<Rightarrow> bool" where
  "reliable s \<longleftrightarrow> sk_open s \<and> (\<forall>n. 0 < sk_results s n)"

lemma send_all_reliable:
  "reliable s \<Longrightarrow> fst (send_all s buf) = 0 \<and> sk_wire (snd (send_all s buf)) = sk_wire s @ buf"
proof (induction s buf rule: send_all.induct)
  case (1 s buf)
  show ?case
  proof (cases "buf = []")
    case True
    then show ?thesis by simp
  next
    case False
    obtain n s' where snd: "sock_send s buf = (n, s')" by (cases "sock_send s buf")
    have wire: "sk_wire s' = sk_wire s @ take (nat n) buf"
      using sock_send_wire [OF snd] by auto
    have pos: "\<not> n \<le> 0"
      using 1(2) False snd by (auto simp: reliable_def sock_send_def Let_def not_le)
    have "reliable s'"
      using 1(2) snd sock_send_open [of s buf] sock_send_results [of s buf] by (simp add: reliable_def)
    then show ?thesis
      using "1.IH" [OF False snd [symmetric] refl pos]
      by (simp add: send_all_more [OF False snd pos] wire)
  qed
qed

lemma send_all_keeps_reliable [simp]: "reliable (snd (send_all s buf)) = reliable s"
  by (simp add: reliable_def)

subsection \<open>Connecting\<close>

text \<open>
  \<open>getaddrinfo\<close> gives nothing (\<open>None\<close>) or a list of addresses; each address says
  whether \<open>socket\<close> and then \<open>connect\<close> succeed. The result is the position of the
  address that was connected.
\<close>

fun first_connect :: "nat \<Rightarrow> (bool \<times> bool) list \<Rightarrow> nat option" where
  "first_connect i [] = None"
| "first_connect i ((sock_ok, conn_ok) # ais) =
     (if \<not> sock_ok then first_connect (Suc i) ais
      else if conn_ok then Some i
      else first_connect (Suc i) ais)"

lemma first_connect_Some:
  "first_connect i ais = Some k \<Longrightarrow> i \<le> k \<and> k - i < length ais \<and> ais ! (k - i) = (True, True)"
proof (induction i ais rule: first_connect.induct)
  case (2 i so co ais)
  have "k - Suc i = n" if "k - i = Suc n" for n using that by simp
  with 2 show ?case
    by (cases "k - i") (auto split: if_splits simp: Suc_diff_le nth_Cons split: nat.splits)
qed simp

subsection \<open>Worker events\<close>

datatype evt =
    EVT_CONNECTED
  | EVT_DATA "byte list"
  | EVT_CLOSED int
  | EVT_ERROR string

text \<open>What one round of a receive loop meets.\<close>

datatype recv_result = RData "byte list" | RClosed | RError

record rx_round =
  rr_stop :: bool
  rr_recv :: recv_result
  rr_stop_after :: bool
  rr_chunk_ok :: bool
  rr_data_ok :: bool

text \<open>A round in which a chunk arrives and everything succeeds.\<close>

definition good_round :: "byte list \<Rightarrow> rx_round" where
  "good_round d = \<lparr>rr_stop = False, rr_recv = RData d, rr_stop_after = False, rr_chunk_ok = True, rr_data_ok = True\<rparr>"

fun evt_data :: "evt list \<Rightarrow> byte list" where
  "evt_data [] = []"
| "evt_data (EVT_DATA d # es) = d @ evt_data es"
| "evt_data (_ # es) = evt_data es"

definition is_data :: "evt \<Rightarrow> bool" where
  "is_data e \<longleftrightarrow> (\<exists>d. e = EVT_DATA d)"

definition is_closed :: "evt \<Rightarrow> bool" where
  "is_closed e \<longleftrightarrow> (\<exists>c. e = EVT_CLOSED c)"

lemma is_data_simps [simp]:
  "is_data (EVT_DATA d)" "\<not> is_data EVT_CONNECTED" "\<not> is_data (EVT_CLOSED c)" "\<not> is_data (EVT_ERROR m)"
  by (simp_all add: is_data_def)

lemma is_closed_simps [simp]:
  "is_closed (EVT_CLOSED c)" "\<not> is_closed EVT_CONNECTED" "\<not> is_closed (EVT_DATA d)" "\<not> is_closed (EVT_ERROR m)"
  by (simp_all add: is_closed_def)

text \<open>
  The contract of a worker towards its window: a failed connection posts one error and then
  CLOSED; a successful one posts CONNECTED, then data, then CLOSED.
\<close>

definition session_trace :: "evt list \<Rightarrow> bool" where
  "session_trace es \<longleftrightarrow>
     (\<exists>m c. es = [EVT_ERROR m, EVT_CLOSED c]) \<or>
     (\<exists>ds c. es = EVT_CONNECTED # ds @ [EVT_CLOSED c] \<and> list_all is_data ds)"

locale session_worker =
  fixes trace :: "'w \<Rightarrow> evt list"
  assumes trace_shape: "session_trace (trace w)"
begin

lemma closed_last: "trace w \<noteq> [] \<and> is_closed (last (trace w))"
  using trace_shape [of w] by (auto simp: session_trace_def)

lemma closed_once: "length (filter is_closed (trace w)) = 1"
proof -
  have no: "filter is_closed ds = []" if "list_all is_data ds" for ds
    using that by (induction ds) (auto simp: is_data_def)
  show ?thesis using trace_shape [of w] no by (auto simp: session_trace_def)
qed

lemma data_after_connected:
  "trace w = pre @ EVT_DATA d # post \<Longrightarrow> EVT_CONNECTED \<in> set pre"
proof -
  assume split: "trace w = pre @ EVT_DATA d # post"
  from trace_shape [of w] show ?thesis
    unfolding session_trace_def split
    by (cases pre) (auto simp: Cons_eq_append_conv append_eq_Cons_conv)
qed

end

text \<open>The receive loop of the raw protocols: every chunk is handed on as it came.\<close>

fun raw_rx_loop :: "rx_round list \<Rightarrow> evt list" where
  "raw_rx_loop [] = []"
| "raw_rx_loop (r # rs) =
     (if rr_stop r then []
      else case rr_recv r of
        RClosed \<Rightarrow> []
      | RError \<Rightarrow> []
      | RData d \<Rightarrow>
          (if \<not> rr_chunk_ok r then raw_rx_loop rs
           else if \<not> rr_data_ok r then raw_rx_loop rs
           else EVT_DATA d # raw_rx_loop rs))"

lemma raw_rx_loop_data: "list_all is_data (raw_rx_loop rs)"
  by (induction rs) (auto split: recv_result.splits)

end
