(* ===== verification/Telnet.thy ===== *)
theory Telnet
  imports TcpSession
begin

section \<open>The Telnet client (telnet\_proto.c)\<close>

text \<open>
  The IAC parser with its option replies (\<open>parse_chunk\<close>), the escaping sender
  (\<open>telnet_proto_send\<close>) and the receiving worker (\<open>rx_thread_proc\<close>). The first
  \<open>sb_len\<close> bytes of \<open>sb_buf\<close> are a list. The Windows handles (thread, window, critical
  section) have no counterpart: the parser runs on one thread, and the send lock makes each
  reply a single \<open>send_all\<close>.
\<close>

subsection \<open>State\<close>

definition IAC :: byte where "IAC = 0xFF"
definition DONT :: byte where "DONT = 0xFE"
definition DO :: byte where "DO = 0xFD"
definition WONT :: byte where "WONT = 0xFC"
definition WILL :: byte where "WILL = 0xFB"
definition SB :: byte where "SB = 0xFA"
definition SE :: byte where "SE = 0xF0"
definition OPT_ECHO :: byte where "OPT_ECHO = 1"
definition OPT_SGA :: byte where "OPT_SGA = 3"
definition OPT_TTYPE :: byte where "OPT_TTYPE = 24"
definition OPT_NAWS :: byte where "OPT_NAWS = 31"

lemmas telnet_codes = IAC_def DONT_def DO_def WONT_def WILL_def SB_def SE_def
  OPT_ECHO_def OPT_SGA_def OPT_TTYPE_def OPT_NAWS_def

datatype iac_state = IS_NORMAL | IS_IAC | IS_VERB | IS_SB | IS_SB_IAC

record telnet_proto =
  tn_sock :: tcp_sock
  tn_is_state :: iac_state
  tn_verb :: byte
  tn_sb_buf :: "byte list"
  tn_server_echo :: bool

subsection \<open>Replies\<close>

definition send_if_open :: "telnet_proto \<Rightarrow> byte list \<Rightarrow> telnet_proto" where
  "send_if_open t buf =
     (if sk_open (tn_sock t) then t\<lparr>tn_sock := snd (send_all (tn_sock t) buf)\<rparr> else t)"

definition send_iac_2 :: "telnet_proto \<Rightarrow> byte \<Rightarrow> byte \<Rightarrow> telnet_proto" where
  "send_iac_2 t b1 b2 = send_if_open t [IAC, b1, b2]"

definition send_iac_ttype_is_vt220 :: "telnet_proto \<Rightarrow> telnet_proto" where
  "send_iac_ttype_is_vt220 t =
     send_if_open (send_if_open (send_if_open t
       [IAC, SB, OPT_TTYPE, 0])
       [0x76, 0x74, 0x32, 0x32, 0x30])
       [IAC, SE]"

definition send_iac_naws_80x24 :: "telnet_proto \<Rightarrow> telnet_proto" where
  "send_iac_naws_80x24 t = send_if_open t [IAC, SB, OPT_NAWS, 0, 80, 0, 24, IAC, SE]"

subsection \<open>The IAC parser\<close>

definition handle_verb :: "telnet_proto \<Rightarrow> byte \<Rightarrow> telnet_proto" where
  "handle_verb t opt =
     (if tn_verb t = WILL then
        (if opt = OPT_ECHO then (send_iac_2 t DO OPT_ECHO)\<lparr>tn_server_echo := True\<rparr>
         else if opt = OPT_SGA then send_iac_2 t DO OPT_SGA
         else send_iac_2 t DONT opt)
      else if tn_verb t = DO then
        (if opt = OPT_TTYPE then send_iac_2 t WILL OPT_TTYPE
         else if opt = OPT_NAWS then send_iac_naws_80x24 (send_iac_2 t WILL OPT_NAWS)
         else if opt = OPT_SGA then send_iac_2 t WILL OPT_SGA
         else send_iac_2 t WONT opt)
      else if tn_verb t = WONT then
        send_iac_2 (if opt = OPT_ECHO then t\<lparr>tn_server_echo := False\<rparr> else t) DONT opt
      else if tn_verb t = DONT then send_iac_2 t WONT opt
      else t)"

definition sb_append :: "telnet_proto \<Rightarrow> byte \<Rightarrow> telnet_proto" where
  "sb_append t b = (if length (tn_sb_buf t) < 256 then t\<lparr>tn_sb_buf := tn_sb_buf t @ [b]\<rparr> else t)"

definition sb_dispatch :: "telnet_proto \<Rightarrow> telnet_proto" where
  "sb_dispatch t =
     (if 2 \<le> length (tn_sb_buf t) \<and> tn_sb_buf t ! 0 = OPT_TTYPE \<and> tn_sb_buf t ! 1 = 1
      then send_iac_ttype_is_vt220 t else t)"

definition parse_byte :: "telnet_proto \<Rightarrow> byte \<Rightarrow> telnet_proto \<times> byte list" where
  "parse_byte t b =
     (case tn_is_state t of
        IS_NORMAL \<Rightarrow>
          (if b = IAC then (t\<lparr>tn_is_state := IS_IAC\<rparr>, []) else (t, [b]))
      | IS_IAC \<Rightarrow>
          (if b = IAC then (t\<lparr>tn_is_state := IS_NORMAL\<rparr>, [IAC])
           else if b = WILL \<or> b = WONT \<or> b = DO \<or> b = DONT
           then (t\<lparr>tn_verb := b, tn_is_state := IS_VERB\<rparr>, [])
           else if b = SB then (t\<lparr>tn_sb_buf := [], tn_is_state := IS_SB\<rparr>, [])
           else (t\<lparr>tn_is_state := IS_NORMAL\<rparr>, []))
      | IS_VERB \<Rightarrow> ((handle_verb t b)\<lparr>tn_is_state := IS_NORMAL\<rparr>, [])
      | IS_SB \<Rightarrow>
          (if b = IAC then (t\<lparr>tn_is_state := IS_SB_IAC\<rparr>, []) else (sb_append t b, []))
      | IS_SB_IAC \<Rightarrow>
          (if b = SE then ((sb_dispatch t)\<lparr>tn_sb_buf := [], tn_is_state := IS_NORMAL\<rparr>, [])
           else if b = IAC then ((sb_append t IAC)\<lparr>tn_is_state := IS_SB\<rparr>, [])
           else (t\<lparr>tn_sb_buf := [], tn_is_state := IS_NORMAL\<rparr>, [])))"

definition parse_chunk :: "telnet_proto \<Rightarrow> byte list \<Rightarrow> telnet_proto \<times> byte list" where
  "parse_chunk t inp = run_out parse_byte t inp"

subsection \<open>Sending user data\<close>

fun escape_iac :: "byte list \<Rightarrow> byte list" where
  "escape_iac [] = []"
| "escape_iac (b # bs) = (if b = 0xFF then 0xFF # 0xFF # escape_iac bs else b # escape_iac bs)"

text \<open>\<open>alloc_ok\<close>: the \<open>malloc\<close> of twice the length succeeds. The result code is the C one.\<close>

definition telnet_proto_send :: "bool \<Rightarrow> telnet_proto \<Rightarrow> byte list \<Rightarrow> int \<times> telnet_proto" where
  "telnet_proto_send alloc_ok t buf =
     (if buf = [] then (1, t)
      else if \<not> alloc_ok then (2, t)
      else
        let esc = escape_iac buf
        in if \<not> sk_open (tn_sock t) then (3, t)
           else case send_all (tn_sock t) esc of
                  (r, s') \<Rightarrow> ((if r \<noteq> 0 then 4 else 0), t\<lparr>tn_sock := s'\<rparr>))"

definition telnet_proto_server_echo :: "telnet_proto \<Rightarrow> bool" where
  "telnet_proto_server_echo t = tn_server_echo t"

subsection \<open>Opening, the worker, closing\<close>

definition tn_init :: "(nat \<Rightarrow> int) \<Rightarrow> telnet_proto" where
  "tn_init results =
     \<lparr>tn_sock = \<lparr>sk_open = False, sk_results = results, sk_calls = 0, sk_wire = []\<rparr>,
      tn_is_state = IS_NORMAL, tn_verb = 0, tn_sb_buf = [], tn_server_echo = False\<rparr>"

definition connect_to :: "(bool \<times> bool) list option \<Rightarrow> nat option \<times> string" where
  "connect_to res =
     (case res of
        None \<Rightarrow> (None, ''Host not found'')
      | Some [] \<Rightarrow> (None, ''Host not found'')
      | Some ais \<Rightarrow>
          (case first_connect 0 ais of
             None \<Rightarrow> (None, ''Connection refused'')
           | Some i \<Rightarrow> (Some i, '''')))"

text \<open>
  The receive loop; the second component is \<open>closed_normally\<close>. The list of rounds ends
  where \<open>telnet_proto_close\<close> has set the stop flag.
\<close>

fun tn_rx_loop :: "telnet_proto \<Rightarrow> rx_round list \<Rightarrow> telnet_proto \<times> bool \<times> evt list" where
  "tn_rx_loop t [] = (t, True, [])"
| "tn_rx_loop t (r # rs) =
     (if rr_stop r then (t, True, [])
      else case rr_recv r of
        RClosed \<Rightarrow> (t, True, [])
      | RError \<Rightarrow> (t, rr_stop_after r, [])
      | RData d \<Rightarrow>
          (case parse_chunk t d of
             (t1, payload) \<Rightarrow>
               (if payload = [] then tn_rx_loop t1 rs
                else if \<not> rr_chunk_ok r then tn_rx_loop t1 rs
                else if \<not> rr_data_ok r then tn_rx_loop t1 rs
                else case tn_rx_loop t1 rs of
                       (t2, ok, es) \<Rightarrow> (t2, ok, EVT_DATA payload # es))))"

definition tn_rx_thread ::
  "telnet_proto \<Rightarrow> (bool \<times> bool) list option \<Rightarrow> rx_round list \<Rightarrow> telnet_proto \<times> evt list" where
  "tn_rx_thread t res rounds =
     (case connect_to res of
        (None, errmsg) \<Rightarrow> (t, [EVT_ERROR errmsg, EVT_CLOSED 0])
      | (Some _, _) \<Rightarrow>
          (case tn_rx_loop (t\<lparr>tn_sock := (tn_sock t)\<lparr>sk_open := True\<rparr>\<rparr>) rounds of
             (t1, closed_normally, es) \<Rightarrow>
               (t1\<lparr>tn_sock := (tn_sock t1)\<lparr>sk_open := False\<rparr>\<rparr>,
                EVT_CONNECTED # es @ [EVT_CLOSED (if closed_normally then 0 else 1)])))"

text \<open>\<open>telnet_proto_close\<close> as far as the protocol state goes: the socket is closed.\<close>

definition telnet_proto_close :: "telnet_proto \<Rightarrow> telnet_proto" where
  "telnet_proto_close t = t\<lparr>tn_sock := (tn_sock t)\<lparr>sk_open := False\<rparr>\<rparr>"

subsection \<open>Bounds\<close>

definition tn_inv :: "telnet_proto \<Rightarrow> bool" where
  "tn_inv t \<longleftrightarrow> length (tn_sb_buf t) \<le> 256"

lemma send_if_open_simps [simp]:
  "tn_is_state (send_if_open t buf) = tn_is_state t" "tn_verb (send_if_open t buf) = tn_verb t"
  "tn_sb_buf (send_if_open t buf) = tn_sb_buf t" "tn_server_echo (send_if_open t buf) = tn_server_echo t"
  "sk_open (tn_sock (send_if_open t buf)) = sk_open (tn_sock t)"
  by (simp_all add: send_if_open_def)

lemma handle_verb_sb [simp]: "tn_sb_buf (handle_verb t b) = tn_sb_buf t"
  by (simp add: handle_verb_def send_iac_2_def send_iac_naws_80x24_def)

lemma sb_append_inv: "tn_inv t \<Longrightarrow> tn_inv (sb_append t b)"
  by (auto simp: tn_inv_def sb_append_def)

lemma parse_byte_inv: "tn_inv t \<Longrightarrow> tn_inv (fst (parse_byte t b))"
  using sb_append_inv [of t]
  by (auto simp: parse_byte_def tn_inv_def sb_append_def split: iac_state.splits)

lemma parse_byte_cap: "length (snd (parse_byte t b)) \<le> 1"
  by (auto simp: parse_byte_def split: iac_state.splits)

interpretation iac: transducer parse_byte tn_inv 1
  using parse_byte_cap by unfold_locales (simp_all add: parse_byte_inv)

subsection \<open>The worker keeps the session contract\<close>

lemma tn_rx_loop_data: "tn_rx_loop t rs = (t', ok, es) \<Longrightarrow> list_all is_data es"
  by (induction t rs arbitrary: t' ok es rule: tn_rx_loop.induct)
    (auto split: if_splits recv_result.splits prod.splits)

lemma tn_rx_thread_trace: "session_trace (snd (tn_rx_thread t res rounds))"
  by (auto simp: tn_rx_thread_def session_trace_def tn_rx_loop_data split: prod.splits option.splits)

interpretation tn_worker: session_worker "\<lambda>(t, res, rounds). snd (tn_rx_thread t res rounds)"
  by unfold_locales (auto simp: tn_rx_thread_trace)

subsection \<open>The stream as a sequence of items\<close>

text \<open>What a server means to say, how RFC 854 puts it on the wire, and the answers to it.\<close>

datatype tn_item =
    Data byte
  | Neg byte byte
  | Sub "byte list"

fun encode_item :: "tn_item \<Rightarrow> byte list" where
  "encode_item (Data b) = (if b = IAC then [IAC, IAC] else [b])"
| "encode_item (Neg v opt) = [IAC, v, opt]"
| "encode_item (Sub body) = [IAC, SB] @ escape_iac body @ [IAC, SE]"

fun item_data :: "tn_item \<Rightarrow> byte list" where
  "item_data (Data b) = [b]"
| "item_data _ = []"

fun item_ok :: "tn_item \<Rightarrow> bool" where
  "item_ok (Neg v opt) = (v \<in> {WILL, WONT, DO, DONT})"
| "item_ok _ = True"

definition reply_neg :: "byte \<Rightarrow> byte \<Rightarrow> byte list" where
  "reply_neg v opt =
     (if v = WILL then (if opt = OPT_ECHO \<or> opt = OPT_SGA then [IAC, DO, opt] else [IAC, DONT, opt])
      else if v = DO then
        (if opt = OPT_NAWS then [IAC, WILL, opt, IAC, SB, OPT_NAWS, 0, 80, 0, 24, IAC, SE]
         else if opt = OPT_TTYPE \<or> opt = OPT_SGA then [IAC, WILL, opt]
         else [IAC, WONT, opt])
      else if v = WONT then [IAC, DONT, opt]
      else [IAC, WONT, opt])"

fun item_reply :: "tn_item \<Rightarrow> byte list" where
  "item_reply (Data b) = []"
| "item_reply (Neg v opt) = reply_neg v opt"
| "item_reply (Sub body) =
     (if take 2 body = [OPT_TTYPE, 1]
      then [IAC, SB, OPT_TTYPE, 0, 0x76, 0x74, 0x32, 0x32, 0x30, IAC, SE] else [])"

fun item_echo :: "bool \<Rightarrow> tn_item \<Rightarrow> bool" where
  "item_echo e (Neg v opt) =
     (if v = WILL \<and> opt = OPT_ECHO then True
      else if v = WONT \<and> opt = OPT_ECHO then False else e)"
| "item_echo e _ = e"

text \<open>A parser between items, on a connection that delivers.\<close>

definition tn_ready :: "telnet_proto \<Rightarrow> bool" where
  "tn_ready t \<longleftrightarrow> tn_is_state t = IS_NORMAL \<and> reliable (tn_sock t)"

lemma send_if_open_reliable:
  assumes "reliable (tn_sock t)"
  shows "reliable (tn_sock (send_if_open t buf))"
    and "sk_wire (tn_sock (send_if_open t buf)) = sk_wire (tn_sock t) @ buf"
proof -
  have "sk_open (tn_sock t)" using assms by (simp add: reliable_def)
  then show "reliable (tn_sock (send_if_open t buf))"
    and "sk_wire (tn_sock (send_if_open t buf)) = sk_wire (tn_sock t) @ buf"
    using assms send_all_reliable [OF assms, of buf] by (simp_all add: send_if_open_def)
qed

lemma handle_verb_reply:
  assumes "reliable (tn_sock t)" "tn_verb t \<in> {WILL, WONT, DO, DONT}"
  shows "reliable (tn_sock (handle_verb t opt)) \<and>
    sk_wire (tn_sock (handle_verb t opt)) = sk_wire (tn_sock t) @ reply_neg (tn_verb t) opt \<and>
    tn_server_echo (handle_verb t opt) = item_echo (tn_server_echo t) (Neg (tn_verb t) opt)"
  using assms
  by (auto simp: handle_verb_def reply_neg_def send_iac_2_def send_iac_naws_80x24_def
      send_if_open_reliable telnet_codes)

text \<open>Inside a subnegotiation the unescaped body is collected, up to the size of \<open>sb_buf\<close>.\<close>

lemma run_sb_body:
  assumes "tn_is_state t = IS_SB" "length (tn_sb_buf t) \<le> 256"
  shows "run_out parse_byte t (escape_iac body) =
    (t\<lparr>tn_sb_buf := take 256 (tn_sb_buf t @ body)\<rparr>, [])"
  using assms
proof (induction body arbitrary: t)
  case Nil
  then show ?case by simp
next
  case (Cons b body)
  let ?t = "t\<lparr>tn_sb_buf := take 256 (tn_sb_buf t @ [b])\<rparr>"
  have app: "sb_append t b = ?t"
    using Cons.prems(2) by (cases "length (tn_sb_buf t) = 256") (auto simp: sb_append_def)
  have one: "run_out parse_byte t (escape_iac (b # body)) = run_out parse_byte ?t (escape_iac body)"
  proof (cases "b = IAC")
    case True
    have "sb_append (t\<lparr>tn_is_state := IS_SB_IAC\<rparr>) IAC = (sb_append t b)\<lparr>tn_is_state := IS_SB_IAC\<rparr>"
      using True by (simp add: sb_append_def)
    with True Cons.prems(1) app show ?thesis
      by (cases t) (simp add: parse_byte_def telnet_codes Let_def split_beta)
  next
    case False
    then show ?thesis using Cons.prems(1) app by (simp add: parse_byte_def IAC_def Let_def split_beta)
  qed
  have "take 256 (take 256 (tn_sb_buf t @ [b]) @ body) = take 256 (tn_sb_buf t @ b # body)"
    using Cons.prems(2) by (cases "length (tn_sb_buf t) = 256") auto
  then show ?case
    unfolding one using Cons.IH [of ?t] Cons.prems by simp
qed

lemma run_item:
  assumes "tn_ready t" "item_ok it"
  defines "t' \<equiv> fst (run_out parse_byte t (encode_item it))"
  shows "tn_ready t'" "snd (run_out parse_byte t (encode_item it)) = item_data it"
    "sk_wire (tn_sock t') = sk_wire (tn_sock t) @ item_reply it"
    "tn_server_echo t' = item_echo (tn_server_echo t) it"
proof -
  have st: "tn_is_state t = IS_NORMAL" and rel: "reliable (tn_sock t)" using assms(1) by (simp_all add: tn_ready_def)
  have "tn_ready t' \<and> snd (run_out parse_byte t (encode_item it)) = item_data it \<and>
    sk_wire (tn_sock t') = sk_wire (tn_sock t) @ item_reply it \<and>
    tn_server_echo t' = item_echo (tn_server_echo t) it"
  proof (cases it)
    case (Data b)
    then show ?thesis using st rel by (auto simp: t'_def parse_byte_def tn_ready_def)
  next
    case (Neg v opt)
    let ?u = "t\<lparr>tn_verb := v, tn_is_state := IS_VERB\<rparr>"
    have v: "v \<in> {WILL, WONT, DO, DONT}" "v \<noteq> IAC" using assms(2) Neg by (auto simp: telnet_codes)
    have run: "run_out parse_byte t (encode_item it) = ((handle_verb ?u opt)\<lparr>tn_is_state := IS_NORMAL\<rparr>, [])"
      using st v Neg by (auto simp: parse_byte_def Let_def split_beta)
    show ?thesis
      unfolding t'_def run using handle_verb_reply [of ?u opt] rel v(1) Neg by (simp add: tn_ready_def)
  next
    case (Sub body)
    let ?u = "t\<lparr>tn_sb_buf := [], tn_is_state := IS_SB\<rparr>"
    let ?w = "?u\<lparr>tn_sb_buf := take 256 body\<rparr>"
    have SBs: "SB \<noteq> IAC" "SB \<noteq> WILL" "SB \<noteq> WONT" "SB \<noteq> DO" "SB \<noteq> DONT" "SE \<noteq> IAC" by (simp_all add: telnet_codes)
    have open_run: "run_out parse_byte t [IAC, SB] = (?u, [])"
      using st SBs by (simp add: parse_byte_def Let_def)
    have body_run: "run_out parse_byte ?u (escape_iac body) = (?w, [])"
      by (subst run_sb_body) simp_all
    have close_run: "run_out parse_byte ?w [IAC, SE] =
        ((sb_dispatch (?w\<lparr>tn_is_state := IS_SB_IAC\<rparr>))\<lparr>tn_sb_buf := [], tn_is_state := IS_NORMAL\<rparr>, [])"
      using SBs by (simp add: parse_byte_def Let_def)
    have run: "run_out parse_byte t (encode_item it) =
        ((sb_dispatch (?w\<lparr>tn_is_state := IS_SB_IAC\<rparr>))\<lparr>tn_sb_buf := [], tn_is_state := IS_NORMAL\<rparr>, [])"
      unfolding Sub encode_item.simps run_out_append open_run
      by (simp only: body_run close_run run_out_append Let_def prod.case append_Nil)
    have send: "2 \<le> length (take 256 body) \<and> take 256 body ! 0 = OPT_TTYPE \<and> take 256 body ! 1 = 1 \<longleftrightarrow>
        take 2 body = [OPT_TTYPE, 1]"
      by (cases body; cases "tl body") auto
    show ?thesis
      unfolding t'_def run using rel send Sub
      by (auto simp: tn_ready_def sb_dispatch_def send_iac_ttype_is_vt220_def send_if_open_reliable)
  qed
  then show "tn_ready t'" "snd (run_out parse_byte t (encode_item it)) = item_data it"
    "sk_wire (tn_sock t') = sk_wire (tn_sock t) @ item_reply it"
    "tn_server_echo t' = item_echo (tn_server_echo t) it" by auto
qed

lemma run_items:
  assumes "tn_ready t" "list_all item_ok its"
  shows "tn_ready (fst (run_out parse_byte t (concat (map encode_item its)))) \<and>
    snd (run_out parse_byte t (concat (map encode_item its))) = concat (map item_data its) \<and>
    sk_wire (tn_sock (fst (run_out parse_byte t (concat (map encode_item its))))) =
      sk_wire (tn_sock t) @ concat (map item_reply its) \<and>
    tn_server_echo (fst (run_out parse_byte t (concat (map encode_item its)))) =
      foldl item_echo (tn_server_echo t) its"
  using assms
proof (induction its arbitrary: t)
  case Nil
  then show ?case by simp
next
  case (Cons it its)
  have ok: "item_ok it" using Cons.prems(2) by simp
  note one = run_item [OF Cons.prems(1) ok]
  have "list_all item_ok its" using Cons.prems(2) by simp
  from Cons.IH [OF one(1) this] one show ?case
    by (simp add: run_out_append_fst run_out_append_snd)
qed

lemma escape_as_items: "escape_iac bs = concat (map encode_item (map Data bs))"
  by (induction bs) (auto simp: IAC_def)

subsection \<open>Properties\<close>

text \<open>
  C15: the parser implements the protocol. A stream of data bytes, option requests and
  subnegotiations, encoded as RFC 854 says, gives the client exactly the data bytes, puts on the
  wire exactly one answer per request from the table in the file's header (and the terminal
  type for a TTYPE SEND), and leaves the echo flag as the last ECHO negotiation set it.
\<close>

theorem telnet_parse_items:
  assumes "tn_ready t" "list_all item_ok its"
  shows "snd (parse_chunk t (concat (map encode_item its))) = concat (map item_data its) \<and>
    sk_wire (tn_sock (fst (parse_chunk t (concat (map encode_item its))))) =
      sk_wire (tn_sock t) @ concat (map item_reply its) \<and>
    telnet_proto_server_echo (fst (parse_chunk t (concat (map encode_item its)))) =
      foldl item_echo (tn_server_echo t) its"
  unfolding parse_chunk_def telnet_proto_server_echo_def using run_items [OF assms] by blast

definition tn_open :: telnet_proto where
  "tn_open = (tn_init (\<lambda>_. 3))\<lparr>tn_sock := \<lparr>sk_open = True, sk_results = (\<lambda>_. 3), sk_calls = 0, sk_wire = []\<rparr>\<rparr>"

lemma tn_open_ready: "tn_ready tn_open"
  by (simp add: tn_open_def tn_ready_def reliable_def tn_init_def)

lemma telnet_parse_items_witness:
  "snd (parse_chunk tn_open (concat (map encode_item [Data 0x41, Neg WILL OPT_ECHO, Data 0xFF]))) = [0x41, 0xFF]"
proof -
  have "list_all item_ok [Data 0x41, Neg WILL OPT_ECHO, Data 0xFF]" by simp
  from telnet_parse_items [OF tn_open_ready this] show ?thesis by simp
qed

text \<open>
  C27: what \<open>telnet_proto_send\<close> puts on the wire for user bytes is read back by an RFC 854
  parser as the same bytes, with no option byte seen, and the call returns 0; this holds
  whatever pieces the system splits the transfer into.
\<close>

theorem telnet_send_roundtrip:
  assumes "reliable (tn_sock t)" "buf \<noteq> []" "tn_ready peer"
  shows "fst (telnet_proto_send True t buf) = 0 \<and>
    (\<exists>sent. sk_wire (tn_sock (snd (telnet_proto_send True t buf))) = sk_wire (tn_sock t) @ sent \<and>
       snd (parse_chunk peer sent) = buf \<and>
       sk_wire (tn_sock (fst (parse_chunk peer sent))) = sk_wire (tn_sock peer))"
proof -
  have items: "list_all item_ok (map Data buf)" by (induction buf) simp_all
  have "concat (map item_data (map Data buf)) = buf" "concat (map item_reply (map Data buf)) = []"
    by (induction buf) simp_all
  then have "snd (parse_chunk peer (escape_iac buf)) = buf"
    "sk_wire (tn_sock (fst (parse_chunk peer (escape_iac buf)))) = sk_wire (tn_sock peer)"
    using run_items [OF assms(3) items] by (simp_all add: parse_chunk_def escape_as_items)
  moreover have "sk_open (tn_sock t)" using assms(1) by (simp add: reliable_def)
  then have "fst (telnet_proto_send True t buf) = 0"
    "sk_wire (tn_sock (snd (telnet_proto_send True t buf))) = sk_wire (tn_sock t) @ escape_iac buf"
    using send_all_reliable [OF assms(1), of "escape_iac buf"] assms(2)
    by (simp_all add: telnet_proto_send_def Let_def split_beta)
  ultimately show ?thesis by blast
qed

lemma telnet_send_roundtrip_witness:
  "fst (telnet_proto_send True tn_open [0xFF, 0x0D]) = 0"
proof -
  have "reliable (tn_sock tn_open)" using tn_open_ready by (simp add: tn_ready_def)
  moreover have "[0xFF, 0x0D :: byte] \<noteq> []" by simp
  ultimately show ?thesis using telnet_send_roundtrip [OF _ _ tn_open_ready] by blast
qed

text \<open>
  the parser's buffers are large enough. For any input the payload is no longer than the
  chunk (so \<open>outbuf\<close> of the size of the receive buffer holds it), the subnegotiation buffer
  keeps within its 256 bytes, and the division of the stream into chunks does not matter.
\<close>

theorem telnet_chunk_safe:
  assumes "length (tn_sb_buf t) \<le> 256"
  shows "length (snd (parse_chunk t xs)) \<le> length xs \<and>
    length (tn_sb_buf (fst (parse_chunk t xs))) \<le> 256 \<and>
    fst (parse_chunk t (xs @ ys)) = fst (parse_chunk (fst (parse_chunk t xs)) ys) \<and>
    snd (parse_chunk t (xs @ ys)) = snd (parse_chunk t xs) @ snd (parse_chunk (fst (parse_chunk t xs)) ys)"
proof -
  have inv: "tn_inv t" using assms by (simp add: tn_inv_def)
  show ?thesis
    using iac.run_cap [OF inv, of xs] iac.run_inv [OF inv, of xs]
    by (simp add: parse_chunk_def tn_inv_def run_out_append_fst run_out_append_snd)
qed

lemma telnet_chunk_safe_witness:
  "length (snd (parse_chunk tn_open [0xFF, 0xFF, 0x41])) \<le> length [0xFF, 0xFF, 0x41 :: byte]"
proof -
  have "length (tn_sb_buf tn_open) \<le> 256" by (simp add: tn_open_def tn_init_def)
  from telnet_chunk_safe [OF this, of "[0xFF, 0xFF, 0x41]" "[]"] show ?thesis by blast
qed

end
