(* ===== verification/LineProtos.thy ===== *)
theory LineProtos
  imports TcpSession
begin

section \<open>Finger and Quote of the Day (finger\_proto.c, qotd\_proto.c)\<close>

text \<open>
  The two one-shot clients: connect, (for Finger) send one query line, hand every received
  chunk on as it came, close. The worker threads are functions of what the operating system
  answers; the events are the messages they post.
\<close>

text \<open>\<open>strncpy\<close> into an array of 256 bytes cleared by \<open>calloc\<close>: what \<open>%s\<close> reads back.\<close>

definition arg_copy :: "byte list \<Rightarrow> byte list" where
  "arg_copy s = take 255 (takeWhile (\<lambda>b. b \<noteq> 0) s)"

definition finger_qline :: "byte list \<Rightarrow> byte list" where
  "finger_qline query = arg_copy query @ [0x0D, 0x0A]"

definition conn_try :: "(bool \<times> bool) list option \<Rightarrow> nat option" where
  "conn_try res = (case res of None \<Rightarrow> None | Some ais \<Rightarrow> first_connect 0 ais)"

definition finger_rx_thread ::
  "tcp_sock \<Rightarrow> (bool \<times> bool) list option \<Rightarrow> byte list \<Rightarrow> rx_round list \<Rightarrow> tcp_sock \<times> evt list" where
  "finger_rx_thread s res query rounds =
     (case conn_try res of
        None \<Rightarrow> (s, [EVT_ERROR ''Connection failed'', EVT_CLOSED 0])
      | Some _ \<Rightarrow>
          (let s1 = snd (sock_send (s\<lparr>sk_open := True\<rparr>) (finger_qline query))
           in (s1\<lparr>sk_open := False\<rparr>, EVT_CONNECTED # raw_rx_loop rounds @ [EVT_CLOSED 0])))"

definition qotd_rx_thread ::
  "tcp_sock \<Rightarrow> (bool \<times> bool) list option \<Rightarrow> rx_round list \<Rightarrow> tcp_sock \<times> evt list" where
  "qotd_rx_thread s res rounds =
     (case conn_try res of
        None \<Rightarrow> (s, [EVT_ERROR ''Connection failed'', EVT_CLOSED 0])
      | Some _ \<Rightarrow> (s\<lparr>sk_open := False\<rparr>, EVT_CONNECTED # raw_rx_loop rounds @ [EVT_CLOSED 0]))"

text \<open>\<open>sprintf\<close> into \<open>qline\<close>: with the terminator, at most 258 of its 300 bytes.\<close>

lemma finger_qline_fits: "length (finger_qline q) + 1 \<le> 258"
  by (simp add: finger_qline_def arg_copy_def)

interpretation finger_worker: session_worker "\<lambda>(s, res, q, rounds). snd (finger_rx_thread s res q rounds)"
  by unfold_locales (auto simp: finger_rx_thread_def session_trace_def Let_def raw_rx_loop_data
      split: option.splits)

interpretation qotd_worker: session_worker "\<lambda>(s, res, rounds). snd (qotd_rx_thread s res rounds)"
  by unfold_locales (auto simp: qotd_rx_thread_def session_trace_def raw_rx_loop_data
      split: option.splits)

text \<open>
  whatever the network does, each of the two workers tells its window exactly one CLOSED,
  as the last message, and no data before CONNECTED; and Finger's query line, built by an
  unchecked \<open>sprintf\<close>, fits its 300 byte buffer for every query.
\<close>

theorem finger_qotd_session:
  shows "is_closed (last (snd (finger_rx_thread s res q rounds))) \<and>
    length (filter is_closed (snd (finger_rx_thread s res q rounds))) = 1 \<and>
    is_closed (last (snd (qotd_rx_thread s res rounds))) \<and>
    length (filter is_closed (snd (qotd_rx_thread s res rounds))) = 1 \<and>
    length (finger_qline q) < 300"
  using finger_worker.closed_last [of "(s, res, q, rounds)"] finger_worker.closed_once [of "(s, res, q, rounds)"]
    qotd_worker.closed_last [of "(s, res, rounds)"] qotd_worker.closed_once [of "(s, res, rounds)"]
    finger_qline_fits [of q] by simp

end
