(* ===== verification/CText.thy ===== *)
theory CText
  imports Prelude
begin

section \<open>Text functions of the C library\<close>

text \<open>
  What several parsers use of the C library: number conversion, comparison with a prefix, and decimal output, with
  the lemmas on a number that is printed and read back.
\<close>

subsection \<open>The library's number conversion\<close>

definition is_space :: "byte \<Rightarrow> bool" where
  "is_space c \<longleftrightarrow> c = 0x20 \<or> (9 \<le> c \<and> c \<le> 13)"

text \<open>
  \<open>atoi\<close>: white space, a sign, digits. The standard leaves a number that does not fit open; the run-time
  library of the build accumulates in a register.
\<close>

fun atoi_digits :: "int \<Rightarrow> byte list \<Rightarrow> int" where
  "atoi_digits v [] = v"
| "atoi_digits v (c # cs) = (if is_digit c then atoi_digits (wrap32 (v * 10 + (uint c - 48))) cs else v)"

definition atoi :: "byte list \<Rightarrow> int" where
  "atoi s =
     (let s1 = dropWhile is_space s in
      if s1 \<noteq> [] \<and> hd s1 = 0x2D then wrap32 (- atoi_digits 0 (tl s1))
      else if s1 \<noteq> [] \<and> hd s1 = 0x2B then atoi_digits 0 (tl s1)
      else atoi_digits 0 s1)"

subsection \<open>Fields of a text\<close>

text \<open>\<open>%d\<close> of \<open>sscanf\<close>.\<close>

definition scan_d :: "byte list \<Rightarrow> (int \<times> byte list) option" where
  "scan_d s =
     (let s1 = dropWhile is_space s;
          neg = (s1 \<noteq> [] \<and> hd s1 = 0x2D);
          s2 = (if s1 \<noteq> [] \<and> (hd s1 = 0x2D \<or> hd s1 = 0x2B) then tl s1 else s1);
          ds = takeWhile is_digit s2
      in if ds = [] then None
         else Some (if neg then wrap32 (- atoi_digits 0 ds) else atoi_digits 0 ds, dropWhile is_digit s2))"

fun scan_fields :: "byte list \<Rightarrow> byte list \<Rightarrow> int list option" where
  "scan_fields [] s = (case scan_d s of None \<Rightarrow> None | Some (v, _) \<Rightarrow> Some [v])"
| "scan_fields (sep # seps) s =
     (case scan_d s of
        None \<Rightarrow> None
      | Some (v, r) \<Rightarrow>
          if r \<noteq> [] \<and> hd r = sep then map_option (Cons v) (scan_fields seps (tl r)) else None)"

record systime =
  st_year :: u16
  st_month :: u16
  st_day :: u16
  st_hour :: u16
  st_minute :: u16
  st_second :: u16
  st_ms :: u16

subsection \<open>Prefixes\<close>

definition starts_with :: "byte list \<Rightarrow> string \<Rightarrow> bool" where
  "starts_with s p \<longleftrightarrow> take (length p) s = asc p"

lemma starts_with_append [simp]: "starts_with (asc p @ s) p"
  by (simp add: starts_with_def)

subsection \<open>Decimal digits\<close>

lemma digit_byte: "d < 10 \<Longrightarrow> is_digit (48 + word_of_nat d) \<and> uint (48 + word_of_nat d :: byte) = 48 + int d"
proof -
  assume "d < 10"
  then have "d \<in> {0, 1, 2, 3, 4, 5, 6, 7, 8, 9}" by auto
  then show ?thesis by (elim insertE) (simp_all add: is_digit_def)
qed

lemma dec_digits_all: "list_all is_digit (dec_digits f n)"
  by (induction f n rule: dec_digits.induct) (auto simp: digit_byte)

lemma dec_digits_length: "n < 10 ^ k \<Longrightarrow> 0 < k \<Longrightarrow> length (dec_digits f n) \<le> k"
proof (induction k arbitrary: f n)
  case (Suc k)
  show ?case
  proof (cases f)
    case (Suc g)
    have "length (dec_digits g (n div 10)) \<le> k" if "\<not> n < 10"
      using Suc.prems that by (intro Suc.IH) (auto simp: less_mult_imp_div_less mult.commute intro: gr0I)
    then show ?thesis using Suc by simp
  qed simp
qed simp

lemma atoi_digits_append: "list_all is_digit xs \<Longrightarrow> atoi_digits v (xs @ ys) = atoi_digits (atoi_digits v xs) ys"
  by (induction xs arbitrary: v) auto

lemma atoi_dec_digits: "n < f \<Longrightarrow> n \<le> 2147483647 \<Longrightarrow> atoi_digits 0 (dec_digits f n) = int n"
proof (induction f arbitrary: n)
  case (Suc f)
  show ?case
  proof (cases "n < 10")
    case True
    then show ?thesis using digit_byte [of n] by simp
  next
    case False
    have IH: "atoi_digits 0 (dec_digits f (n div 10)) = int (n div 10)"
      using Suc.prems False by (intro Suc.IH) auto
    have "int (n div 10) * 10 + int (n mod 10) = int n" by presburger
    then show ?thesis
      using False Suc.prems IH digit_byte [of "n mod 10"] dec_digits_all [of f "n div 10"]
      by (simp add: atoi_digits_append)
  qed
qed simp

lemma dec_bytes_all: "list_all is_digit (dec_bytes n)"
  by (simp only: dec_bytes_def dec_digits_all)

lemma dec_bytes_not_Nil: "dec_bytes n \<noteq> []"
  by (simp add: dec_bytes_def)

lemma is_digit_not: "is_digit c \<Longrightarrow> \<not> is_space c \<and> c \<noteq> 0x2D \<and> c \<noteq> 0x2B \<and> c \<noteq> 0 \<and> c \<noteq> 9 \<and> c \<noteq> 0x0A \<and> c \<noteq> 0x0D"
  by (auto simp: is_digit_def is_space_def word_le_nat_alt)

lemma atoi_plain: "list_all is_digit ds \<Longrightarrow> ds \<noteq> [] \<Longrightarrow> atoi ds = atoi_digits 0 ds"
  using is_digit_not [of "hd ds"] by (cases ds) (simp_all add: atoi_def Let_def)

lemma atoi_dec_bytes: "n \<le> 2147483647 \<Longrightarrow> atoi (dec_bytes n) = int n"
  using atoi_plain [OF dec_bytes_all dec_bytes_not_Nil] atoi_dec_digits [of n "Suc n"] by (simp only: dec_bytes_def lessI)

lemma cstr_id: "0 \<notin> set s \<Longrightarrow> cstr s = s"
  by (auto simp: cstr_def takeWhile_eq_all_conv)

end
