(* ===== verification/TelnetTab.thy ===== *)
theory TelnetTab
  imports LineProtos Telnet VtTerm CText
begin

section \<open>The terminal tab\<close>

text \<open>
  \<open>telnet_module.c\<close>: the local shell with its line editor, the commands, the connections it opens, the keyboard, the
  clipboard, the selection, and the events of the workers. One window message is a \<open>tab_msg\<close>, and \<open>tab_step\<close> is the window
  procedure. The screen is the terminal of \<open>VtTerm\<close>, the connection the session of \<open>Telnet\<close>, which
  the tab shares with the worker.

  The status line is not shown any more (\<open>g_hStatus\<close> is NULL) and is left out, as are the fonts, the painting and the
  repaint requests. What the clipboard holds, which cell the mouse is over and how an \<open>open\<close> call ends come with the message.
\<close>

subsection \<open>State\<close>

datatype f6_mode = F6_SHELL | F6_TELNET_CONNECTING | F6_TELNET_ACTIVE | F6_FINGER_READING | F6_QOTD_READING

datatype tab_request =
    Req_telnet "byte list" int
  | Req_finger "byte list" int "byte list"
  | Req_qotd "byte list" int

text \<open>\<open>tt_input\<close> is \<open>g_shell_input\<close> up to \<open>g_shell_input_len\<close>; its array has 1024 bytes. The finger and QOTD sessions are opaque.\<close>

record tel_tab =
  tt_term :: vtterm
  tt_mode :: f6_mode
  tt_telnet :: "telnet_proto option"
  tt_finger :: bool
  tt_qotd :: bool
  tt_host :: "byte list"
  tt_port :: int
  tt_input :: "byte list"
  tt_pos :: nat
  tt_macro :: bool
  tt_buttons :: bool
  tt_swallow :: bool
  tt_dragging :: bool
  tt_drag_row :: int
  tt_drag_col :: int
  tt_scroll_dir :: int
  tt_requests :: "tab_request list"
  tt_clip :: "byte list option"

text \<open>How an \<open>open\<close> call ends: none, or the session it makes.\<close>

type_synonym open_result = "telnet_proto option"

definition term_write :: "byte list \<Rightarrow> tel_tab \<Rightarrow> tel_tab" where
  "term_write b s =
     (if b = [] then s
      else s\<lparr>tt_term := vt_term_scroll_to_bottom (vt_term_feed_bytes mem_available (tt_term s) b)\<rparr>)"

definition term_puts :: "string \<Rightarrow> tel_tab \<Rightarrow> tel_tab" where
  "term_puts t s = term_write (asc t) s"

definition crlf :: "byte list" where "crlf = [0x0D, 0x0A]"

definition emit_boot_banner :: "tel_tab \<Rightarrow> tel_tab" where
  "emit_boot_banner s =
     foldl (\<lambda>s b. term_write b s) s
       [asc ''The Montreal Greek Times Unicorn Suite Terminal'' @ crlf,
        asc ''Type 'help' to list available commands,'' @ crlf,
        asc ''or select one of the shortcut buttons above:'' @ crlf,
        asc ''Telnet News, Finger News, Finger Weather, QOTD, or Archie.'' @ crlf,
        asc ''(c) 2026 Dimitri Papadopoulos, The Montreal Greek Times'' @ crlf,
        crlf,
        asc ''$ '']"

definition enter_shell_mode :: "bool \<Rightarrow> tel_tab \<Rightarrow> tel_tab" where
  "enter_shell_mode write_prompt s =
     (let s1 = s\<lparr>tt_mode := F6_SHELL, tt_input := [], tt_pos := 0\<rparr>;
          s2 = (if write_prompt then term_write (asc ''$ '') s1 else s1)
      in s2\<lparr>tt_buttons := True\<rparr>)"

definition cancel_macro_timer :: "tel_tab \<Rightarrow> tel_tab" where
  "cancel_macro_timer s = s\<lparr>tt_macro := False\<rparr>"

subsection \<open>Connections\<close>

definition parse_host_port :: "byte list \<Rightarrow> nat \<Rightarrow> int \<Rightarrow> (byte list \<times> int) option" where
  "parse_host_port spec host_cap default_port =
     (if spec = [] then None
      else
        let h = takeWhile (\<lambda>c. c \<noteq> 0x3A) spec;
            rest = dropWhile (\<lambda>c. c \<noteq> 0x3A) spec;
            host = take (host_cap - 1) h;
            port = (if rest = [] then default_port
                    else let p = atoi (tl rest) in if p \<le> 0 \<or> p > 65535 then default_port else p)
        in if host = [] then None else Some (host, port))"

definition open_telnet :: "open_result \<Rightarrow> byte list \<Rightarrow> tel_tab \<Rightarrow> tel_tab" where
  "open_telnet res spec s =
     (case parse_host_port spec 256 23 of
        None \<Rightarrow> enter_shell_mode True (term_write (asc ''telnet: missing host'' @ crlf) s)
      | Some (host, port) \<Rightarrow>
          let s1 = s\<lparr>tt_host := host, tt_port := port\<rparr>;
              s2 = term_write (asc ''Connecting to '' @ host @ asc '':'' @ dec_bytes (nat port) @ asc ''...'' @ crlf) s1;
              s3 = s2\<lparr>tt_requests := tt_requests s2 @ [Req_telnet host port], tt_telnet := res\<rparr>
          in if res = None
             then enter_shell_mode True (term_write (asc ''Failed to start Telnet connection.'' @ crlf) s3)
             else s3\<lparr>tt_mode := F6_TELNET_CONNECTING, tt_buttons := False\<rparr>)"

definition open_finger :: "open_result \<Rightarrow> byte list \<Rightarrow> tel_tab \<Rightarrow> tel_tab" where
  "open_finger res target s =
     (if target = [] then enter_shell_mode True (term_write (asc ''finger: missing user@host'' @ crlf) s)
      else if 0x40 \<notin> set target then enter_shell_mode True (term_write (asc ''finger: expected user@host'' @ crlf) s)
      else
        let user = take 127 (takeWhile (\<lambda>c. c \<noteq> 0x40) target);
            host = take 255 (tl (dropWhile (\<lambda>c. c \<noteq> 0x40) target))
        in if host = [] then enter_shell_mode True (term_write (asc ''finger: missing host'' @ crlf) s)
           else
             let s1 = s\<lparr>tt_host := host, tt_port := 79, tt_requests := tt_requests s @ [Req_finger host 79 user],
                        tt_finger := (res \<noteq> None)\<rparr>
             in if res = None
                then enter_shell_mode True (term_write (asc ''Failed to start Finger query.'' @ crlf) s1)
                else s1\<lparr>tt_mode := F6_FINGER_READING, tt_buttons := False\<rparr>)"

definition open_qotd_raw :: "open_result \<Rightarrow> byte list \<Rightarrow> int \<Rightarrow> tel_tab \<Rightarrow> tel_tab" where
  "open_qotd_raw res host port s =
     (let s1 = s\<lparr>tt_host := take 255 host, tt_port := port, tt_requests := tt_requests s @ [Req_qotd host port],
                 tt_qotd := (res \<noteq> None)\<rparr>
      in if res = None
         then enter_shell_mode True (term_write (asc ''Failed to open raw TCP connection.'' @ crlf) s1)
         else s1\<lparr>tt_mode := F6_QOTD_READING, tt_buttons := False\<rparr>)"

definition close_sessions :: "tel_tab \<Rightarrow> tel_tab" where
  "close_sessions s = s\<lparr>tt_telnet := None, tt_finger := False, tt_qotd := False\<rparr>"

definition close_active_session :: "bool \<Rightarrow> tel_tab \<Rightarrow> tel_tab" where
  "close_active_session announce s =
     (let s1 = close_sessions s;
          s2 = (if announce then term_write (asc ''Connection closed.'' @ crlf) s1 else s1)
      in enter_shell_mode True s2)"

subsection \<open>Commands\<close>

definition is_blank :: "byte \<Rightarrow> bool" where
  "is_blank c \<longleftrightarrow> c = 0x20 \<or> c = 0x09"

definition rtrim_line :: "byte list \<Rightarrow> byte list" where
  "rtrim_line l = rev (dropWhile (\<lambda>c. c = 0x20 \<or> c = 0x09 \<or> c = 0x0D) (rev l))"

definition skip_ws :: "byte list \<Rightarrow> byte list" where
  "skip_ws p = dropWhile is_blank p"

text \<open>The token and what is left of the line.\<close>

definition copy_token :: "nat \<Rightarrow> byte list \<Rightarrow> byte list \<times> byte list" where
  "copy_token cap p =
     (let p1 = skip_ws p;
          tok = take (cap - 1) (takeWhile (\<lambda>c. \<not> is_blank c) p1)
      in (tok, drop (length tok) p1))"

definition help_text :: "byte list list" where
  "help_text =
     map (\<lambda>l. asc l @ crlf)
      [''Available commands:'',
       ''  telnet <host>[:port]      open a Telnet connection'',
       ''  finger <user>@<host>      query a Finger service'',
       ''  nc <host> <port>          raw TCP read'',
       ''  clear                     clear the terminal'',
       ''  help                      show this help'',
       ''  exit / quit               close active connection'',
       ''Archie interactive: telnet archie.greektimes.ca:2323'',
       ''  (then: find <term>, exact <term>, prog, help, quit)'',
       ''(Use the buttons above for quick access.)'']"

definition shell_dispatch :: "open_result \<Rightarrow> byte list \<Rightarrow> tel_tab \<Rightarrow> tel_tab" where
  "shell_dispatch res cmd s =
     (let line = rtrim_line (take 1023 cmd); p = skip_ws line in
      if p = [] then s
      else
        let (verb, p1) = copy_token 32 p; p2 = skip_ws p1;
            prompt = term_write (asc ''$ '')
        in if verb = asc ''help'' then prompt (foldl (\<lambda>s b. term_write b s) s help_text)
           else if verb = asc ''clear'' then prompt (s\<lparr>tt_term := vt_term_clear_all (tt_term s)\<rparr>)
           else if verb = asc ''exit'' \<or> verb = asc ''quit'' then
             (if tt_telnet s \<noteq> None \<or> tt_finger s \<or> tt_qotd s then close_active_session True s
              else prompt (term_write (asc ''No active connection.'' @ crlf) s))
           else if verb = asc ''telnet'' then
             let (host_spec, _) = copy_token 300 p2 in
             if host_spec = [] then prompt (term_write (asc ''usage: telnet <host>[:port]'' @ crlf) s)
             else open_telnet res host_spec s
           else if verb = asc ''finger'' then
             let (target, _) = copy_token 300 p2 in
             if target = [] then prompt (term_write (asc ''usage: finger <user>@<host>'' @ crlf) s)
             else open_finger res target s
           else if verb = asc ''nc'' then
             let (host, p3) = copy_token 256 p2; (portstr, _) = copy_token 16 p3 in
             if host = [] \<or> portstr = [] then prompt (term_write (asc ''usage: nc <host> <port>'' @ crlf) s)
             else
               let port = atoi portstr in
               if port \<le> 0 \<or> port > 65535 then prompt (term_write (asc ''nc: invalid port'' @ crlf) s)
               else open_qotd_raw res host port s
           else prompt (term_write (verb @ asc '': command not found'' @ crlf) s))"

subsection \<open>The line editor\<close>

definition BS :: byte where "BS = 0x08"

definition rubout :: "byte list" where "rubout = [0x08, 0x20, 0x08]"

text \<open>\<open>term_write\<close> once per character, as the loops do.\<close>

definition write_each :: "byte list list \<Rightarrow> tel_tab \<Rightarrow> tel_tab" where
  "write_each bss s = foldl (\<lambda>s b. term_write b s) s bss"

definition macro_inject :: "byte list \<Rightarrow> tel_tab \<Rightarrow> tel_tab" where
  "macro_inject text s =
     (if tt_mode s \<noteq> F6_SHELL then s
      else
        let s1 = write_each (map (\<lambda>c. [c]) (drop (tt_pos s) (tt_input s))) s;
            s2 = write_each (replicate (length (tt_input s)) rubout) s1;
            inp = take 1023 text;
            s3 = term_write inp (s2\<lparr>tt_input := inp, tt_pos := length inp\<rparr>)
        in (cancel_macro_timer s3)\<lparr>tt_macro := True\<rparr>)"

definition shell_commit_enter :: "open_result \<Rightarrow> tel_tab \<Rightarrow> tel_tab" where
  "shell_commit_enter res s =
     (let s1 = term_write crlf (cancel_macro_timer s)
      in shell_dispatch res (take 1023 (tt_input s1)) (s1\<lparr>tt_input := [], tt_pos := 0\<rparr>))"

definition shell_render_edit :: "nat \<Rightarrow> nat \<Rightarrow> tel_tab \<Rightarrow> tel_tab" where
  "shell_render_edit prev_cursor_off prev_len s =
     (let s1 = write_each (replicate prev_cursor_off [BS]) s;
          s2 = term_write (tt_input s1) s1;
          extra = prev_len - length (tt_input s2);
          s3 = write_each (replicate extra [0x20]) s2;
          s4 = write_each (replicate extra [BS]) s3
      in write_each (replicate (length (tt_input s4) - tt_pos s4) [BS]) s4)"

definition edit_backspace :: "tel_tab \<Rightarrow> tel_tab" where
  "edit_backspace s =
     (if tt_pos s > 0 then
        let prev_pos = tt_pos s; prev_len = length (tt_input s) in
        if prev_pos = prev_len
        then term_write rubout (s\<lparr>tt_input := take (prev_len - 1) (tt_input s), tt_pos := prev_pos - 1\<rparr>)
        else shell_render_edit prev_pos prev_len
               (s\<lparr>tt_input := take (prev_pos - 1) (tt_input s) @ drop prev_pos (tt_input s), tt_pos := prev_pos - 1\<rparr>)
      else s)"

definition edit_insert :: "byte \<Rightarrow> tel_tab \<Rightarrow> tel_tab" where
  "edit_insert c s =
     (if length (tt_input s) < 1023 then
        let prev_pos = tt_pos s; prev_len = length (tt_input s) in
        if prev_pos = prev_len
        then term_write [c] (s\<lparr>tt_input := tt_input s @ [c], tt_pos := prev_pos + 1\<rparr>)
        else shell_render_edit prev_pos prev_len
               (s\<lparr>tt_input := take prev_pos (tt_input s) @ c # drop prev_pos (tt_input s), tt_pos := prev_pos + 1\<rparr>)
      else s)"

definition handle_char_shell :: "open_result \<Rightarrow> int \<Rightarrow> tel_tab \<Rightarrow> tel_tab" where
  "handle_char_shell res ch s0 =
     (let s = (if tt_macro s0 then cancel_macro_timer s0 else s0) in
      if ch = 0x0D then shell_commit_enter res s
      else if ch = 0x08 \<or> ch = 0x7F then edit_backspace s
      else if ch = 0x0C then
        let s1 = term_write (asc ''$ '') (s\<lparr>tt_term := vt_term_clear_all (tt_term s)\<rparr>);
            s2 = term_write (tt_input s1) s1
        in write_each (replicate (length (tt_input s2) - tt_pos s2) [BS]) s2
      else if ch = 0x03 then (term_write (asc ''^C'' @ crlf @ asc ''$ '') s)\<lparr>tt_input := [], tt_pos := 0\<rparr>
      else if 0x20 \<le> ch \<and> ch < 0x7F then edit_insert (word_of_int ch) s
      else s)"

subsection \<open>Keys of a connection\<close>

definition send_to_server_bytes :: "byte list \<Rightarrow> tel_tab \<Rightarrow> tel_tab" where
  "send_to_server_bytes b s =
     (case tt_telnet s of
        None \<Rightarrow> s
      | Some t \<Rightarrow> if tt_mode s = F6_TELNET_ACTIVE then s\<lparr>tt_telnet := Some (snd (telnet_proto_send True t b))\<rparr> else s)"

definition handle_char_telnet :: "int \<Rightarrow> tel_tab \<Rightarrow> tel_tab" where
  "handle_char_telnet ch s =
     (let echo = (case tt_telnet s of None \<Rightarrow> False | Some t \<Rightarrow> \<not> telnet_proto_server_echo t) in
      if ch = 0x0D then
        let s1 = send_to_server_bytes crlf s in if echo then term_write crlf s1 else s1
      else if ch = 0x08 \<or> ch = 0x7F then
        let s1 = send_to_server_bytes [0x7F] s in if echo then term_write rubout s1 else s1
      else if 0x20 \<le> ch \<and> ch < 0x7F then
        let s1 = send_to_server_bytes [word_of_int ch] s in if echo then term_write [word_of_int ch] s1 else s1
      else if 0 < ch \<and> ch < 0x20 then send_to_server_bytes [word_of_int ch] s
      else s)"

datatype vkey = VK_UP | VK_DOWN | VK_RIGHT | VK_LEFT | VK_HOME | VK_END | VK_PRIOR | VK_NEXT | VK_code int

definition esc_seq :: "string \<Rightarrow> byte list" where
  "esc_seq t = 0x1B # asc t"

fun vk_seq :: "vkey \<Rightarrow> byte list option" where
  "vk_seq VK_UP = Some (esc_seq ''[A'')"
| "vk_seq VK_DOWN = Some (esc_seq ''[B'')"
| "vk_seq VK_RIGHT = Some (esc_seq ''[C'')"
| "vk_seq VK_LEFT = Some (esc_seq ''[D'')"
| "vk_seq VK_HOME = Some (esc_seq ''[H'')"
| "vk_seq VK_END = Some (esc_seq ''[F'')"
| "vk_seq VK_PRIOR = Some (esc_seq ''[5~'')"
| "vk_seq VK_NEXT = Some (esc_seq ''[6~'')"
| "vk_seq (VK_code _) = None"

definition scroll_term :: "int \<Rightarrow> tel_tab \<Rightarrow> tel_tab" where
  "scroll_term n s = s\<lparr>tt_term := vt_term_scroll_by (tt_term s) n\<rparr>"

fun shell_arrow :: "vkey \<Rightarrow> tel_tab \<Rightarrow> tel_tab" where
  "shell_arrow VK_LEFT s = (if tt_pos s > 0 then term_write [BS] (s\<lparr>tt_pos := tt_pos s - 1\<rparr>) else s)"
| "shell_arrow VK_RIGHT s =
     (if tt_pos s < length (tt_input s) then term_write [tt_input s ! tt_pos s] (s\<lparr>tt_pos := tt_pos s + 1\<rparr>) else s)"
| "shell_arrow VK_HOME s = write_each (replicate (tt_pos s) [BS]) (s\<lparr>tt_pos := 0\<rparr>)"
| "shell_arrow VK_END s =
     write_each (map (\<lambda>c. [c]) (drop (tt_pos s) (tt_input s))) (s\<lparr>tt_pos := length (tt_input s)\<rparr>)"
| "shell_arrow VK_PRIOR s = scroll_term (vt_rows (tt_term s)) s"
| "shell_arrow VK_NEXT s = scroll_term (- vt_rows (tt_term s)) s"
| "shell_arrow _ s = s"

definition handle_vk_arrow :: "vkey \<Rightarrow> tel_tab \<Rightarrow> tel_tab" where
  "handle_vk_arrow vk s =
     (if tt_mode s = F6_TELNET_ACTIVE then
        (case vk_seq vk of Some q \<Rightarrow> send_to_server_bytes q s | None \<Rightarrow> s)
      else if tt_mode s = F6_SHELL then shell_arrow vk s
      else if vk = VK_PRIOR then scroll_term (vt_rows (tt_term s)) s
      else if vk = VK_NEXT then scroll_term (- vt_rows (tt_term s)) s
      else s)"

definition handle_wheel :: "int \<Rightarrow> tel_tab \<Rightarrow> tel_tab" where
  "handle_wheel notches s =
     (if tt_mode s = F6_TELNET_ACTIVE then
        (let q = (if notches > 0 then esc_seq ''[A'' else esc_seq ''[B'')
         in ((send_to_server_bytes (q @ q @ q)) ^^ nat \<bar>notches\<bar>) s)
      else scroll_term (notches * 3) s)"

subsection \<open>Clipboard and selection\<close>

definition copy_selection :: "tel_tab \<Rightarrow> tel_tab" where
  "copy_selection s =
     (if \<not> vt_sel_active (tt_term s) then s
      else case vt_term_select_extract mem_available (tt_term s) of
        None \<Rightarrow> s
      | Some t \<Rightarrow> s\<lparr>tt_clip := Some t\<rparr>)"

text \<open>The loop over the clipboard's text; every line end may open a connection, so the results come as a list.\<close>

fun paste_loop :: "open_result list \<Rightarrow> bool \<Rightarrow> byte list \<Rightarrow> tel_tab \<Rightarrow> tel_tab" where
  "paste_loop res skip_lf [] s = s"
| "paste_loop res skip_lf (c # cs) s =
     (if skip_lf \<and> c = 0x0A then paste_loop res False cs s
      else if c = 0x0D \<or> c = 0x0A then
        (let r = (case res of [] \<Rightarrow> None | r # _ \<Rightarrow> r);
             s1 = (if tt_mode s = F6_SHELL then handle_char_shell r 0x0D s
                   else if tt_mode s = F6_TELNET_ACTIVE then send_to_server_bytes [0x0D] s
                   else s)
         in paste_loop (drop 1 res) (c = 0x0D) cs s1)
      else if 0x20 \<le> c \<and> c < 0x7F then
        paste_loop res False cs
          (if tt_mode s = F6_SHELL then handle_char_shell None (uint c) s
           else if tt_mode s = F6_TELNET_ACTIVE then send_to_server_bytes [c] s
           else s)
      else paste_loop res False cs s)"

definition telnet_module_paste :: "open_result list \<Rightarrow> byte list option \<Rightarrow> tel_tab \<Rightarrow> tel_tab" where
  "telnet_module_paste res clip s = (case clip of None \<Rightarrow> s | Some t \<Rightarrow> paste_loop res False (cstr t) s)"

definition select_to :: "int \<Rightarrow> int \<Rightarrow> tel_tab \<Rightarrow> tel_tab" where
  "select_to vis col s =
     s\<lparr>tt_term := vt_term_select_set (tt_term s) (tt_drag_row s) (tt_drag_col s)
                    (vt_term_visible_to_logical (tt_term s) vis) col\<rparr>"

definition on_lbutton_down :: "int \<Rightarrow> int \<Rightarrow> tel_tab \<Rightarrow> tel_tab" where
  "on_lbutton_down vis col s =
     select_to vis col
       (s\<lparr>tt_drag_row := vt_term_visible_to_logical (tt_term s) vis, tt_drag_col := col, tt_dragging := True\<rparr>)"

definition on_mouse_move :: "int \<Rightarrow> int \<Rightarrow> int \<Rightarrow> tel_tab \<Rightarrow> tel_tab" where
  "on_mouse_move dir vis col s =
     (if \<not> tt_dragging s then s else select_to vis col (s\<lparr>tt_scroll_dir := dir\<rparr>))"

definition on_lbutton_up :: "tel_tab \<Rightarrow> tel_tab" where
  "on_lbutton_up s =
     (if \<not> tt_dragging s then s
      else
        let s1 = s\<lparr>tt_dragging := False, tt_scroll_dir := 0\<rparr>; t = tt_term s1 in
        if vt_sel_anchor_row t = vt_sel_lead_row t \<and> vt_sel_anchor_col t = vt_sel_lead_col t
        then s1\<lparr>tt_term := vt_term_select_clear t\<rparr> else s1)"

definition on_sel_timer :: "int \<Rightarrow> int \<Rightarrow> tel_tab \<Rightarrow> tel_tab" where
  "on_sel_timer vis col s =
     (if \<not> tt_dragging s then s\<lparr>tt_scroll_dir := 0\<rparr>
      else
        select_to vis col
          (if tt_scroll_dir s > 0 then scroll_term 1 s
           else if tt_scroll_dir s < 0 then scroll_term (- 1) s
           else s))"

subsection \<open>Events of the workers\<close>

definition on_event :: "evt \<Rightarrow> tel_tab \<Rightarrow> tel_tab" where
  "on_event e s =
     (case e of
        EVT_CONNECTED \<Rightarrow> if tt_mode s = F6_TELNET_CONNECTING then s\<lparr>tt_mode := F6_TELNET_ACTIVE\<rparr> else s
      | EVT_DATA d \<Rightarrow>
          if d \<noteq> [] then s\<lparr>tt_term := vt_term_scroll_to_bottom (vt_term_feed_bytes mem_available (tt_term s) d)\<rparr> else s
      | EVT_CLOSED _ \<Rightarrow> enter_shell_mode True (term_write (crlf @ asc ''Connection closed.'' @ crlf) (close_sessions s))
      | EVT_ERROR m \<Rightarrow> term_write (asc ''Error: '' @ asc m @ crlf) s)"

subsection \<open>Shortcuts and the window procedure\<close>

datatype shortcut = Btn_telnet | Btn_finger_news | Btn_finger_weather | Btn_qotd | Btn_archie

fun shortcut_cmd :: "shortcut \<Rightarrow> string" where
  "shortcut_cmd Btn_telnet = ''telnet telnet.greektimes.ca''"
| "shortcut_cmd Btn_finger_news = ''finger news@finger.greektimes.ca''"
| "shortcut_cmd Btn_finger_weather = ''finger weather@finger.greektimes.ca''"
| "shortcut_cmd Btn_qotd = ''nc qotd.greektimes.ca 17''"
| "shortcut_cmd Btn_archie = ''telnet archie.greektimes.ca:2323''"

definition trigger_shortcut :: "shortcut \<Rightarrow> tel_tab \<Rightarrow> tel_tab" where
  "trigger_shortcut b s = macro_inject (asc (shortcut_cmd b)) (s\<lparr>tt_buttons := False\<rparr>)"

text \<open>The character of a key in the shell, from its code and the modifiers; 0 for none.\<close>

definition vk_char :: "int \<Rightarrow> bool \<Rightarrow> bool \<Rightarrow> int" where
  "vk_char vk shift caps =
     (if 0x41 \<le> vk \<and> vk \<le> 0x5A then (if shift \<noteq> caps then vk else vk + 32)
      else if 0x30 \<le> vk \<and> vk \<le> 0x39 then (if \<not> shift then vk else 0)
      else if vk = 0x20 then 0x20
      else 0)"

definition on_keydown :: "open_result list \<Rightarrow> byte list option \<Rightarrow> vkey \<Rightarrow> bool \<Rightarrow> bool \<Rightarrow> bool \<Rightarrow> tel_tab \<Rightarrow> tel_tab" where
  "on_keydown res clip vk ctrl shift caps s =
     (if ctrl \<and> vk = VK_code 0x41 then s\<lparr>tt_term := vt_term_select_all (tt_term s)\<rparr>
      else if ctrl \<and> vk = VK_code 0x43 then
        (if vt_sel_active (tt_term s) then
           (let s1 = copy_selection s in s1\<lparr>tt_term := vt_term_select_clear (tt_term s1)\<rparr>)
         else if tt_mode s = F6_TELNET_ACTIVE then send_to_server_bytes [0x03] s
         else if tt_mode s = F6_SHELL then handle_char_shell None 0x03 s
         else s)
      else if ctrl \<and> vk = VK_code 0x56 then telnet_module_paste res clip s
      else case vk of
        VK_code k \<Rightarrow>
          (if tt_mode s = F6_SHELL \<and> vk_char k shift caps \<noteq> 0
           then (handle_char_shell None (vk_char k shift caps) s)\<lparr>tt_swallow := True\<rparr>
           else s)
      | _ \<Rightarrow> handle_vk_arrow vk s)"

definition on_char :: "open_result \<Rightarrow> int \<Rightarrow> tel_tab \<Rightarrow> tel_tab" where
  "on_char res ch s =
     (if tt_swallow s then s\<lparr>tt_swallow := False\<rparr>
      else if tt_mode s = F6_SHELL then handle_char_shell res ch s
      else if tt_mode s = F6_TELNET_ACTIVE then handle_char_telnet ch s
      else s)"

datatype tab_msg =
    M_keydown "open_result list" "byte list option" vkey bool bool bool
  | M_char open_result int
  | M_wheel int
  | M_button shortcut
  | M_macro_timer open_result
  | M_lbutton_down int int
  | M_mouse_move int int int
  | M_lbutton_up
  | M_sel_timer int int
  | M_copy
  | M_paste "open_result list" "byte list option"
  | M_select_all
  | M_resize int int
  | M_notify evt
  | M_session telnet_proto

text \<open>
  The session is an object that the tab shares with its worker: \<open>M_session t\<close> is not a window message but the worker having
  run and left the session as \<open>t\<close> (a parsed chunk, replies sent, the server's echo switched) before the next one.
\<close>

fun tab_step :: "tel_tab \<Rightarrow> tab_msg \<Rightarrow> tel_tab" where
  "tab_step s (M_keydown res clip vk ctrl shift caps) = on_keydown res clip vk ctrl shift caps s"
| "tab_step s (M_char res ch) = on_char res ch s"
| "tab_step s (M_wheel delta) =
     (let notches = cdiv delta 120 in
      handle_wheel (if notches = 0 then (if delta > 0 then 1 else - 1) else notches) s)"
| "tab_step s (M_button b) = trigger_shortcut b s"
| "tab_step s (M_macro_timer res) =
     (let s1 = s\<lparr>tt_macro := False\<rparr> in if tt_mode s1 = F6_SHELL then shell_commit_enter res s1 else s1)"
| "tab_step s (M_lbutton_down vis col) = on_lbutton_down vis col s"
| "tab_step s (M_mouse_move dir vis col) = on_mouse_move dir vis col s"
| "tab_step s M_lbutton_up = on_lbutton_up s"
| "tab_step s (M_sel_timer vis col) = on_sel_timer vis col s"
| "tab_step s M_copy = copy_selection s"
| "tab_step s (M_paste res clip) = telnet_module_paste res clip s"
| "tab_step s M_select_all = s\<lparr>tt_term := vt_term_select_all (tt_term s)\<rparr>"
| "tab_step s (M_resize cols rows) =
     (if cols \<noteq> vt_cols (tt_term s) \<or> rows \<noteq> vt_rows (tt_term s)
      then s\<lparr>tt_term := vt_term_resize mem_available (tt_term s) cols rows\<rparr> else s)"
| "tab_step s (M_notify e) = on_event e s"
| "tab_step s (M_session t) = (if tt_telnet s = None then s else s\<lparr>tt_telnet := Some t\<rparr>)"

text \<open>The tab when its window is made and shown for the first time.\<close>

definition tab_init :: "(int \<Rightarrow> vtcell) \<Rightarrow> tel_tab" where
  "tab_init heap =
     emit_boot_banner
       \<lparr>tt_term = vt_term_set_lf_to_crlf (vt_term_init mem_available heap 80 24 1000) True, tt_mode = F6_SHELL,
        tt_telnet = None, tt_finger = False, tt_qotd = False, tt_host = [], tt_port = 0, tt_input = [], tt_pos = 0,
        tt_macro = False, tt_buttons = True, tt_swallow = False, tt_dragging = False, tt_drag_row = 0, tt_drag_col = 0,
        tt_scroll_dir = 0, tt_requests = [], tt_clip = None\<rparr>"

end
