(* ===== verification/TelnetScreen.thy ===== *)
theory TelnetScreen
  imports TelnetTab
begin

section \<open>What the terminal tab shows\<close>

text \<open>
  The tab, the telnet worker and the terminal together: the line editor against a plain text editor and the screen, the state
  the messages keep, a whole session from the wire to the screen, and keys that are handled twice.
\<close>

subsection \<open>Writing is feeding\<close>

lemma term_write_feed: "term_write b s = s\<lparr>tt_term := vt_term_feed_bytes mem_available (tt_term s) b\<rparr>"
  using feed_bytes_scroll [of b mem_available "tt_term s"]
  by (auto simp: term_write_def vt_term_scroll_to_bottom_def feed_bytes_Nil)

lemma write_each_feed: "write_each bss s = s\<lparr>tt_term := vt_term_feed_bytes mem_available (tt_term s) (concat bss)\<rparr>"
proof (induction bss arbitrary: s)
  case (Cons b bss)
  then show ?case by (simp add: write_each_def term_write_feed feed_bytes_append)
qed (simp add: write_each_def feed_bytes_Nil)

lemma on_event_data: "on_event (EVT_DATA d) s = s\<lparr>tt_term := vt_term_feed_bytes mem_available (tt_term s) d\<rparr>"
  using feed_bytes_scroll [of d mem_available "tt_term s"]
  by (auto simp: on_event_def vt_term_scroll_to_bottom_def feed_bytes_Nil)

lemma concat_replicate_single [simp]: "concat (replicate n [x]) = replicate n x"
  by (induction n) simp_all

lemmas tab_output = term_write_feed write_each_feed feed_bytes_append [symmetric]

subsection \<open>The row of the cursor\<close>

definition row_base :: "vtterm \<Rightarrow> int" where
  "row_base t = row_ptr t (visible_top_index t + vt_cursor_y t)"

definition cell_ch :: "vtterm \<Rightarrow> int \<Rightarrow> byte" where
  "cell_ch t x = vc_ch (vt_lines t (row_base t + x))"

definition printable :: "byte \<Rightarrow> bool" where
  "printable b \<longleftrightarrow> 0x20 \<le> b \<and> b < 0x7F"

text \<open>What a run of text and a run of backspaces do to that row.\<close>

definition row_moves :: "vtterm \<Rightarrow> vtterm \<Rightarrow> bool" where
  "row_moves t t' \<longleftrightarrow> vt_pstate t' = vt_pstate t \<and> vt_cols t' = vt_cols t \<and> row_base t' = row_base t"

lemma feed_unfold:
  "vt_term_feed_bytes al t bs = (if bs = [] then t else foldl (vt_feed_byte al) (t\<lparr>vt_scroll_offset := 0\<rparr>) bs)"
  by (cases t) (auto simp: vt_term_feed_bytes_def Let_def)

lemma row_base_off [simp]: "row_base (t\<lparr>vt_scroll_offset := 0\<rparr>) = row_base t"
  by (simp add: row_base_def row_ptr_def visible_top_index_def)

lemma feed_text_row:
  assumes "vt_pstate t = VTP_NORMAL" "list_all printable bs" "0 \<le> vt_cursor_x t" "vt_cursor_x t + int (length bs) \<le> vt_cols t"
  shows "row_moves t (vt_term_feed_bytes al t bs) \<and>
    vt_cursor_x (vt_term_feed_bytes al t bs) = vt_cursor_x t + int (length bs) \<and>
    cell_ch (vt_term_feed_bytes al t bs) x =
      (if vt_cursor_x t \<le> x \<and> x < vt_cursor_x t + int (length bs) then bs ! nat (x - vt_cursor_x t) else cell_ch t x)"
proof (cases "bs = []")
  case False
  let ?t = "t\<lparr>vt_scroll_offset := 0\<rparr>"
  have "list_all (\<lambda>b. 0x20 \<le> b \<and> b \<noteq> 0x7F) bs" using assms(2) by (induction bs) (auto simp: printable_def)
  then have f: "vt_term_feed_bytes al t bs = ?t
      \<lparr>vt_lines := mem_write (vt_lines ?t) (row_base t + vt_cursor_x t) (map (\<lambda>b. \<lparr>vc_ch = b, vc_flags = 0\<rparr>) bs),
       vt_cursor_x := vt_cursor_x t + int (length bs)\<rparr>"
    using feed_text [of ?t bs al] assms False by (simp add: feed_unfold row_base_def row_ptr_def visible_top_index_def)
  have "row_base (vt_term_feed_bytes al t bs) = row_base t" by (simp add: f row_base_def row_ptr_def visible_top_index_def)
  then show ?thesis
    using assms by (auto simp: row_moves_def cell_ch_def f mem_write_def)
qed (auto simp: feed_bytes_Nil row_moves_def)

lemma feed_bs_run:
  "vt_pstate t = VTP_NORMAL \<Longrightarrow> int n \<le> vt_cursor_x t \<Longrightarrow>
    foldl (vt_feed_byte al) t (replicate n 0x08) = t\<lparr>vt_cursor_x := vt_cursor_x t - int n\<rparr>"
proof (induction n arbitrary: t)
  case (Suc n)
  have "vt_feed_byte al t 0x08 = t\<lparr>vt_cursor_x := vt_cursor_x t - 1\<rparr>"
    using Suc.prems by (simp add: vt_feed_byte_def handle_c0_def)
  then show ?case using Suc.IH [of "t\<lparr>vt_cursor_x := vt_cursor_x t - 1\<rparr>"] Suc.prems by simp
qed simp

lemma feed_bs_row:
  assumes "vt_pstate t = VTP_NORMAL" "int n \<le> vt_cursor_x t"
  shows "row_moves t (vt_term_feed_bytes al t (replicate n 0x08)) \<and>
    vt_cursor_x (vt_term_feed_bytes al t (replicate n 0x08)) = vt_cursor_x t - int n \<and>
    cell_ch (vt_term_feed_bytes al t (replicate n 0x08)) x = cell_ch t x"
proof (cases "n = 0")
  case False
  have f: "vt_term_feed_bytes al t (replicate n 0x08) = t\<lparr>vt_scroll_offset := 0, vt_cursor_x := vt_cursor_x t - int n\<rparr>"
    using feed_bs_run [of "t\<lparr>vt_scroll_offset := 0\<rparr>" n al] assms False by (simp add: feed_unfold)
  then have "row_base (vt_term_feed_bytes al t (replicate n 0x08)) = row_base t"
    by (simp add: f row_base_def row_ptr_def visible_top_index_def)
  then show ?thesis by (simp add: row_moves_def cell_ch_def f)
qed (simp add: feed_bytes_Nil row_moves_def)

subsection \<open>A line and its cursor on the screen\<close>

text \<open>From column \<open>x0\<close> on the row shows the line and then blanks, and the cursor is \<open>pos\<close> characters into it.\<close>

definition shown :: "int \<Rightarrow> byte list \<Rightarrow> nat \<Rightarrow> vtterm \<Rightarrow> bool" where
  "shown x0 line pos t \<longleftrightarrow>
     vt_pstate t = VTP_NORMAL \<and> 0 \<le> x0 \<and> x0 + int (length line) \<le> vt_cols t \<and> pos \<le> length line \<and>
     vt_cursor_x t = x0 + int pos \<and>
     (\<forall>x. x0 \<le> x \<and> x < vt_cols t \<longrightarrow> cell_ch t x = (if x < x0 + int (length line) then line ! nat (x - x0) else 0x20))"

lemma shown_cell:
  "shown x0 line pos t \<Longrightarrow> x0 \<le> x \<Longrightarrow> x < vt_cols t \<Longrightarrow>
    cell_ch t x = (if x < x0 + int (length line) then line ! nat (x - x0) else 0x20)"
  by (simp add: shown_def)

text \<open>Backspaces move the cursor; text overwrites from the cursor on, and may make the line longer.\<close>

lemma shown_left:
  assumes "shown x0 line pos t" "n \<le> pos"
  shows "shown x0 line (pos - n) (vt_term_feed_bytes al t (replicate n 0x08))"
proof -
  have p: "vt_pstate t = VTP_NORMAL" "int n \<le> vt_cursor_x t" using assms by (auto simp: shown_def)
  from feed_bs_row [OF p, of al] assms show ?thesis by (auto simp: shown_def row_moves_def)
qed

definition overwrite :: "byte list \<Rightarrow> nat \<Rightarrow> byte list \<Rightarrow> byte list" where
  "overwrite line pos bs = take pos line @ bs @ drop (pos + length bs) line"

lemma nth_overwrite:
  "pos \<le> length line \<Longrightarrow> i < length (overwrite line pos bs) \<Longrightarrow>
    overwrite line pos bs ! i = (if pos \<le> i \<and> i < pos + length bs then bs ! (i - pos) else line ! i)"
  by (auto simp: overwrite_def nth_append min_def)

lemma length_overwrite: "pos \<le> length line \<Longrightarrow> length (overwrite line pos bs) = max (length line) (pos + length bs)"
  by (simp add: overwrite_def)

lemma shown_text:
  assumes s: "shown x0 line pos t" and p: "list_all printable bs" and w: "x0 + int (pos + length bs) \<le> vt_cols t"
  shows "shown x0 (overwrite line pos bs) (pos + length bs) (vt_term_feed_bytes al t bs)"
proof -
  note d = s [unfolded shown_def]
  have pos: "pos \<le> length line" using d by simp
  note f = feed_text_row [of t bs al] 
  have mv: "row_moves t (vt_term_feed_bytes al t bs)"
    "vt_cursor_x (vt_term_feed_bytes al t bs) = x0 + int (pos + length bs)"
    and cell: "\<And>x. cell_ch (vt_term_feed_bytes al t bs) x =
      (if x0 + int pos \<le> x \<and> x < x0 + int (pos + length bs) then bs ! nat (x - (x0 + int pos)) else cell_ch t x)"
    using f d p w by auto
  have "cell_ch (vt_term_feed_bytes al t bs) x =
      (if x < x0 + int (length (overwrite line pos bs)) then overwrite line pos bs ! nat (x - x0) else 0x20)"
    if x: "x0 \<le> x" "x < vt_cols t" for x
  proof -
    define i where "i = nat (x - x0)"
    have xi: "x = x0 + int i" using x by (simp add: i_def)
    have old: "cell_ch t x = (if i < length line then line ! i else 0x20)" using shown_cell [OF s x] by (simp add: xi)
    have "cell_ch (vt_term_feed_bytes al t bs) x = (if pos \<le> i \<and> i < pos + length bs then bs ! (i - pos) else cell_ch t x)"
      using cell [of x] by (auto simp: xi nat_diff_distrib' algebra_simps)
    then show ?thesis using nth_overwrite [OF pos, of i bs] old pos by (auto simp: xi length_overwrite [OF pos])
  qed
  then show ?thesis
    using mv d w by (auto simp: shown_def row_moves_def length_overwrite [OF pos])
qed

text \<open>Trailing blanks of the line are the blanks of the screen.\<close>

lemma shown_blanks:
  assumes "shown x0 (line @ replicate n 0x20) pos t" "pos \<le> length line"
  shows "shown x0 line pos t"
  using assms by (auto simp: shown_def nth_append)

subsection \<open>The abstract editor\<close>

datatype ed_key = Ed_ins byte | Ed_bksp | Ed_left | Ed_right | Ed_home | Ed_end

fun ed_step :: "byte list \<times> nat \<Rightarrow> ed_key \<Rightarrow> byte list \<times> nat" where
  "ed_step (l, p) (Ed_ins c) = (take p l @ c # drop p l, Suc p)"
| "ed_step (l, p) Ed_bksp = (if p = 0 then (l, p) else (take (p - 1) l @ drop p l, p - 1))"
| "ed_step (l, p) Ed_left = (l, p - 1)"
| "ed_step (l, p) Ed_right = (l, min (Suc p) (length l))"
| "ed_step (l, p) Ed_home = (l, 0)"
| "ed_step (l, p) Ed_end = (l, length l)"

fun ed_msg :: "ed_key \<Rightarrow> tab_msg" where
  "ed_msg (Ed_ins c) = M_char None (uint c)"
| "ed_msg Ed_bksp = M_char None 0x08"
| "ed_msg Ed_left = M_keydown [] None VK_LEFT False False False"
| "ed_msg Ed_right = M_keydown [] None VK_RIGHT False False False"
| "ed_msg Ed_home = M_keydown [] None VK_HOME False False False"
| "ed_msg Ed_end = M_keydown [] None VK_END False False False"

fun ed_ok :: "ed_key \<Rightarrow> bool" where
  "ed_ok (Ed_ins c) = printable c"
| "ed_ok _ = True"

definition ins_count :: "ed_key list \<Rightarrow> nat" where
  "ins_count ks = length (filter (\<lambda>k. \<exists>c. k = Ed_ins c) ks)"

text \<open>The tab in the shell, with the line on the screen from column \<open>x0\<close> on.\<close>

definition editing :: "int \<Rightarrow> byte list \<times> nat \<Rightarrow> tel_tab \<Rightarrow> bool" where
  "editing x0 lp s \<longleftrightarrow>
     tt_mode s = F6_SHELL \<and> \<not> tt_swallow s \<and> tt_input s = fst lp \<and> tt_pos s = snd lp \<and> list_all printable (fst lp) \<and>
     shown x0 (fst lp) (snd lp) (tt_term s)"

lemma editing_pos: "editing x0 (l, p) s \<Longrightarrow> p \<le> length l"
  by (simp add: editing_def shown_def)

lemma blank_cols_cols:
  "vt_cols (csi_erase_display t m) = vt_cols t" "vt_cols (csi_erase_line t m) = vt_cols t"
  by (simp_all add: csi_erase_display_def csi_erase_line_def Let_def frame_simps)

lemma feed_byte_cols: "vt_cols (vt_feed_byte al t b) = vt_cols t"
  by (simp add: vt_feed_byte_def handle_c0_def put_printable_def dispatch_csi_def Let_def frame_simps blank_cols_cols
      split: vtparse.splits)

lemma feed_run_cols: "vt_cols (foldl (vt_feed_byte al) t bs) = vt_cols t"
  by (induction bs arbitrary: t) (simp_all add: feed_byte_cols)

lemma feed_cols: "vt_cols (vt_term_feed_bytes al t bs) = vt_cols t"
  by (simp add: feed_unfold feed_run_cols)

lemma shown_insert:
  assumes s: "shown x0 l p t" and l: "list_all printable l" "printable c" and w: "x0 + int (length l) + 1 \<le> vt_cols t"
  defines "l' \<equiv> take p l @ c # drop p l"
  shows "shown x0 l' (Suc p) (vt_term_feed_bytes al t (replicate p 0x08 @ l' @ replicate (length l - p) 0x08))"
proof -
  have p: "p \<le> length l" using s by (simp add: shown_def)
  have l': "length l' = Suc (length l)" "list_all printable l'" using p l by (auto simp: l'_def dest: in_set_takeD in_set_dropD simp: list_all_iff)
  have "shown x0 (overwrite l 0 l') (0 + length l') (vt_term_feed_bytes al (vt_term_feed_bytes al t (replicate p 0x08)) l')"
    using shown_left [OF s le_refl, of al] w l' by (intro shown_text) (simp_all add: feed_cols)
  moreover have "overwrite l 0 l' = l'" using l' by (simp add: overwrite_def)
  ultimately have "shown x0 l' (length l') (vt_term_feed_bytes al t (replicate p 0x08 @ l'))"
    by (simp add: feed_bytes_append)
  from shown_left [OF this, of "length l - p" al] p show ?thesis
    by (simp add: feed_bytes_append [symmetric] l' Suc_diff_le)
qed

lemma shown_delete:
  assumes s: "shown x0 l p t" and l: "list_all printable l" and p: "0 < p" "p < length l"
  defines "l' \<equiv> take (p - 1) l @ drop p l"
  shows "shown x0 l' (p - 1) (vt_term_feed_bytes al t (replicate p 0x08 @ l' @ [0x20] @ [0x08] @ replicate (length l - p) 0x08))"
proof -
  have l': "length l' = length l - 1" "list_all printable l'" using p l by (auto simp: l'_def dest: in_set_takeD in_set_dropD simp: list_all_iff)
  have w: "x0 + int (length l) \<le> vt_cols t" using s by (simp add: shown_def)
  have ne: "Suc (length l') = length l" using p l' by simp
  have "shown x0 (overwrite l 0 l') (0 + length l') (vt_term_feed_bytes al (vt_term_feed_bytes al t (replicate p 0x08)) l')"
    using shown_left [OF s le_refl, of al] w l' by (intro shown_text) (simp_all add: feed_cols)
  moreover have "overwrite l 0 l' = l' @ drop (length l') l" by (simp add: overwrite_def)
  ultimately have 1: "shown x0 (l' @ drop (length l') l) (length l') (vt_term_feed_bytes al t (replicate p 0x08 @ l'))"
    by (simp add: feed_bytes_append)
  have "shown x0 (overwrite (l' @ drop (length l') l) (length l') [0x20]) (length l' + length [0x20 :: byte])
      (vt_term_feed_bytes al (vt_term_feed_bytes al t (replicate p 0x08 @ l')) [0x20])"
    using w ne by (intro shown_text [OF 1]) (simp_all add: feed_cols printable_def)
  moreover have "overwrite (l' @ drop (length l') l) (length l') [0x20] = l' @ replicate 1 0x20"
    using ne by (simp add: overwrite_def)
  ultimately have 2: "shown x0 (l' @ replicate 1 0x20) (length l' + 1) (vt_term_feed_bytes al t (replicate p 0x08 @ l' @ [0x20]))"
    by (simp only: feed_bytes_append append_assoc list.size add_0 One_nat_def)
  have "shown x0 (l' @ replicate 1 0x20) (length l' + 1 - (1 + (length l - p)))
      (vt_term_feed_bytes al (vt_term_feed_bytes al t (replicate p 0x08 @ l' @ [0x20])) (replicate (1 + (length l - p)) 0x08))"
    using p ne by (intro shown_left [OF 2]) simp
  moreover have "length l' + 1 - (1 + (length l - p)) = p - 1" using p ne by simp
  ultimately have "shown x0 (l' @ replicate 1 0x20) (p - 1)
      (vt_term_feed_bytes al t (replicate p 0x08 @ l' @ [0x20] @ [0x08] @ replicate (length l - p) 0x08))"
    by (simp only: feed_bytes_append [symmetric] append_assoc replicate_add replicate_Suc replicate_0 One_nat_def append_Cons append_Nil)
  then show ?thesis by (rule shown_blanks) (use p ne in simp)
qed

lemma shown_rubout:
  assumes s: "shown x0 l (length l) t" and l: "l \<noteq> []"
  shows "shown x0 (butlast l) (length l - 1) (vt_term_feed_bytes al t rubout)"
proof -
  have w: "x0 + int (length l) \<le> vt_cols t" using s by (simp add: shown_def)
  have len: "Suc (length (butlast l)) = length l" using l by simp
  have 1: "shown x0 l (length l - 1) (vt_term_feed_bytes al t [0x08])"
    using shown_left [OF s, of 1 al] l by (simp add: Suc_le_eq)
  have "shown x0 (overwrite l (length l - 1) [0x20]) (length l - 1 + length [0x20 :: byte]) (vt_term_feed_bytes al (vt_term_feed_bytes al t [0x08]) [0x20])"
    using w l by (intro shown_text [OF 1]) (simp_all add: feed_cols printable_def Suc_le_eq)
  moreover have "overwrite l (length l - 1) [0x20] = butlast l @ replicate 1 0x20" using l by (simp add: overwrite_def butlast_conv_take)
  ultimately have 2: "shown x0 (butlast l @ replicate 1 0x20) (length l) (vt_term_feed_bytes al t [0x08, 0x20])"
    using l by (simp add: feed_bytes_append [symmetric] Suc_le_eq)
  have "shown x0 (butlast l @ replicate 1 0x20) (length l - 1) (vt_term_feed_bytes al t rubout)"
    using shown_left [OF 2, of 1 al] l by (simp add: feed_bytes_append [symmetric] rubout_def Suc_le_eq)
  then show ?thesis by (rule shown_blanks) simp
qed

lemma editing_update:
  assumes "editing x0 (l, p) s" "shown x0 l' p' (vt_term_feed_bytes mem_available (tt_term s) out)" "list_all printable l'"
  shows "editing x0 (l', p') (s\<lparr>tt_macro := m, tt_input := l', tt_pos := p', tt_term := vt_term_feed_bytes mem_available (tt_term s) out\<rparr>)"
  using assms by (simp add: editing_def)

lemma printable_uint: "printable c \<Longrightarrow> 0x20 \<le> uint c \<and> uint c < 0x7F"
  by (simp add: printable_def word_le_def word_less_def)

lemma macro_off: "(if tt_macro s then cancel_macro_timer s else s) = s\<lparr>tt_macro := False\<rparr>"
  by (cases s) (simp add: cancel_macro_timer_def)

lemma char_shell_ins:
  "printable c \<Longrightarrow> handle_char_shell r (uint c) s = edit_insert c (s\<lparr>tt_macro := False\<rparr>)"
  using printable_uint [of c] by (simp only: handle_char_shell_def macro_off Let_def) simp

lemma char_shell_bksp: "handle_char_shell r 8 s = edit_backspace (s\<lparr>tt_macro := False\<rparr>)"
  by (simp only: handle_char_shell_def macro_off Let_def) simp

lemma step_ins:
  assumes e: "editing x0 (l, p) s" and c: "printable c" and w: "x0 + int (length l) + 1 \<le> vt_cols (tt_term s)" "length l < 1023"
  shows "editing x0 (ed_step (l, p) (Ed_ins c)) (tab_step s (ed_msg (Ed_ins c)))"
proof -
  note d = e [unfolded editing_def fst_conv snd_conv]
  have p: "p \<le> length l" by (rule editing_pos [OF e])
  have step: "tab_step s (ed_msg (Ed_ins c)) = edit_insert c (s\<lparr>tt_macro := False\<rparr>)"
    using d c by (simp add: on_char_def char_shell_ins)
  have l': "list_all printable (take p l @ c # drop p l)"
    using d c by (auto simp: list_all_iff dest: in_set_takeD in_set_dropD)
  show ?thesis
  proof (cases "p = length l")
    case True
    have "shown x0 (overwrite l p [c]) (p + length [c]) (vt_term_feed_bytes mem_available (tt_term s) [c])"
      using d c w True by (intro shown_text) auto
    then have "shown x0 (take p l @ c # drop p l) (Suc p) (vt_term_feed_bytes mem_available (tt_term s) [c])"
      using True by (simp add: overwrite_def)
    then show ?thesis
      using editing_update [OF e _ l', of "Suc p" "[c]" False] d w True
      unfolding step by (simp add: edit_insert_def term_write_feed)
  next
    case False
    have "shown x0 (take p l @ c # drop p l) (Suc p) (vt_term_feed_bytes mem_available (tt_term s)
        (replicate p 0x08 @ (take p l @ c # drop p l) @ replicate (length l - p) 0x08))"
      using d c w by (intro shown_insert) auto
    from editing_update [OF e this l', of False] show ?thesis
      unfolding step using d w False p by (simp add: edit_insert_def Let_def shell_render_edit_def tab_output BS_def Suc_diff_le)
  qed
qed

lemma step_bksp:
  assumes e: "editing x0 (l, p) s"
  shows "editing x0 (ed_step (l, p) Ed_bksp) (tab_step s (ed_msg Ed_bksp))"
proof -
  note d = e [unfolded editing_def fst_conv snd_conv]
  have p: "p \<le> length l" by (rule editing_pos [OF e])
  have step: "tab_step s (ed_msg Ed_bksp) = edit_backspace (s\<lparr>tt_macro := False\<rparr>)"
    using d by (simp add: on_char_def char_shell_bksp)
  have l': "list_all printable (take (p - 1) l @ drop p l)"
    using d by (auto simp: list_all_iff dest: in_set_takeD in_set_dropD)
  consider "p = 0" | "0 < p" "p = length l" | "0 < p" "p < length l" using p by linarith
  then show ?thesis
  proof cases
    case 1
    then show ?thesis using d unfolding step by (simp add: edit_backspace_def editing_def)
  next
    case 2
    have "shown x0 (butlast l) (length l - 1) (vt_term_feed_bytes mem_available (tt_term s) rubout)"
      using d 2 by (intro shown_rubout) auto
    then have "shown x0 (take (p - 1) l @ drop p l) (p - 1) (vt_term_feed_bytes mem_available (tt_term s) rubout)"
      using 2 by (simp add: butlast_conv_take)
    from editing_update [OF e this l', of False] show ?thesis
      unfolding step using d 2 by (simp add: edit_backspace_def Let_def term_write_feed)
  next
    case 3
    have "shown x0 (take (p - 1) l @ drop p l) (p - 1) (vt_term_feed_bytes mem_available (tt_term s)
        (replicate p 0x08 @ (take (p - 1) l @ drop p l) @ [0x20] @ [0x08] @ replicate (length l - p) 0x08))"
      using d 3 by (intro shown_delete) auto
    from editing_update [OF e this l', of False] show ?thesis
      unfolding step using d 3 by (simp add: edit_backspace_def Let_def shell_render_edit_def tab_output BS_def min_absorb2 not_le)
  qed
qed

lemma step_move:
  assumes e: "editing x0 (l, p) s" and k: "k \<in> {Ed_left, Ed_right, Ed_home, Ed_end}"
  shows "editing x0 (ed_step (l, p) k) (tab_step s (ed_msg k))"
proof -
  note d = e [unfolded editing_def fst_conv snd_conv]
  have p: "p \<le> length l" by (rule editing_pos [OF e])
  have w: "x0 + int (length l) \<le> vt_cols (tt_term s)" and sh: "shown x0 l p (tt_term s)" using d by (auto simp: shown_def)
  have l: "list_all printable l" using d by simp
  show ?thesis
  proof (cases k)
    case Ed_left
    have "shown x0 l (p - 1) (vt_term_feed_bytes mem_available (tt_term s) (replicate 1 0x08))" if "0 < p"
      using sh that by (intro shown_left) auto
    then show ?thesis
      using d Ed_left by (cases "p = 0") (simp_all add: on_keydown_def handle_vk_arrow_def term_write_feed BS_def editing_def)
  next
    case Ed_home
    have "shown x0 l (p - p) (vt_term_feed_bytes mem_available (tt_term s) (replicate p 0x08))"
      using sh by (intro shown_left) auto
    then show ?thesis
      using d Ed_home by (simp add: on_keydown_def handle_vk_arrow_def write_each_feed BS_def editing_def)
  next
    case Ed_right
    have "shown x0 (overwrite l p [l ! p]) (p + length [l ! p]) (vt_term_feed_bytes mem_available (tt_term s) [l ! p])" if "p < length l"
      using sh that l w by (intro shown_text) (auto simp: list_all_length)
    moreover have "overwrite l p [l ! p] = l" if "p < length l" using that by (simp add: overwrite_def id_take_nth_drop [symmetric])
    ultimately show ?thesis
      using d p Ed_right by (cases "p = length l") (simp_all add: on_keydown_def handle_vk_arrow_def term_write_feed editing_def min_def)
  next
    case Ed_end
    have "shown x0 (overwrite l p (drop p l)) (p + length (drop p l)) (vt_term_feed_bytes mem_available (tt_term s) (drop p l))"
      using sh l w p by (intro shown_text) (auto simp: list_all_iff dest: in_set_dropD)
    moreover have "overwrite l p (drop p l) = l" using p by (simp add: overwrite_def)
    moreover have "concat (map (\<lambda>c. [c]) (drop p l)) = drop p l" by (simp add: concat_map_singleton)
    ultimately show ?thesis
      using d p Ed_end by (simp add: on_keydown_def handle_vk_arrow_def write_each_feed editing_def)
  qed (use k in simp_all)
qed


lemma ed_step_length: "snd lp \<le> length (fst lp) \<Longrightarrow> length (fst (ed_step lp k)) \<le> length (fst lp) + (if \<exists>c. k = Ed_ins c then 1 else 0)"
  by (cases "(lp, k)" rule: ed_step.cases) auto

lemma tab_step_cols:
  assumes "editing x0 lp s" "ed_ok k"
  shows "vt_cols (tt_term (tab_step s (ed_msg k))) = vt_cols (tt_term s)"
proof -
  have d: "tt_mode s = F6_SHELL" "\<not> tt_swallow s" using assms(1) by (simp_all add: editing_def)
  have e: "vt_cols (tt_term (edit_insert c s)) = vt_cols (tt_term s)" "vt_cols (tt_term (edit_backspace s)) = vt_cols (tt_term s)" for c s
    by (simp_all add: edit_insert_def edit_backspace_def shell_render_edit_def tab_output Let_def feed_cols)
  show ?thesis
  proof (cases k)
    case (Ed_ins c)
    then show ?thesis using d e assms(2) by (simp add: on_char_def char_shell_ins)
  qed (use d e in \<open>simp_all add: on_char_def char_shell_bksp on_keydown_def handle_vk_arrow_def tab_output feed_cols\<close>)
qed


lemma editing_step:
  assumes "editing x0 lp s" "ed_ok k" "x0 + int (length (fst lp) + ins_count [k]) \<le> vt_cols (tt_term s)"
    and "length (fst lp) + ins_count [k] \<le> 1023"
  shows "editing x0 (ed_step lp k) (tab_step s (ed_msg k))"
proof (cases lp)
  case (Pair l p)
  show ?thesis
  proof (cases k)
    case (Ed_ins c)
    then show ?thesis using assms step_ins [of x0 l p s c] by (simp only: Pair ed_ok.simps ins_count_def) simp
  next
    case Ed_bksp
    then show ?thesis using assms(1) step_bksp [of x0 l p s] by (simp only: Pair)
  qed (use assms(1) step_move [of x0 l p s k] Pair in simp_all)
qed

lemma editing_run:
  assumes "editing x0 lp s" "list_all ed_ok ks" "x0 + int (length (fst lp) + ins_count ks) \<le> vt_cols (tt_term s)"
    and "length (fst lp) + ins_count ks \<le> 1023"
  shows "editing x0 (foldl ed_step lp ks) (foldl tab_step s (map ed_msg ks))"
  using assms
proof (induction ks arbitrary: lp s)
  case (Cons k ks)
  have n: "ins_count (k # ks) = ins_count [k] + ins_count ks" by (simp add: ins_count_def)
  have len: "length (fst (ed_step lp k)) \<le> length (fst lp) + ins_count [k]"
    using ed_step_length [of lp k] Cons.prems(1) by (cases lp) (auto simp: ins_count_def editing_def shown_def)
  have ok: "ed_ok k" "list_all ed_ok ks" using Cons.prems(2) by simp_all
  have "editing x0 (ed_step lp k) (tab_step s (ed_msg k))"
    using Cons.prems n ok by (intro editing_step) auto
  then have "editing x0 (foldl ed_step (ed_step lp k) ks) (foldl tab_step (tab_step s (ed_msg k)) (map ed_msg ks))"
    using Cons.prems n ok len tab_step_cols [OF Cons.prems(1) ok(1)] by (intro Cons.IH) auto
  then show ?case by simp
qed simp

text \<open>
  The messages that the loop of the window delivers for one key. A key whose code gives a character in the shell arrives as its key code, and
  its character, whatever the keyboard layout made of it, follows and is dropped. Any other printable character follows the code
  of its key, or comes alone (an input method); Backspace likewise; the arrows, Home and End have no character.
\<close>

inductive key_messages :: "ed_key \<Rightarrow> tab_msg list \<Rightarrow> bool" where
  by_code: "printable c \<Longrightarrow> vk_char vk shift caps = uint c \<Longrightarrow>
    key_messages (Ed_ins c) [M_keydown rs clip (VK_code vk) False shift caps, M_char r ch]"
| by_char: "printable c \<Longrightarrow> vk_char vk shift caps = 0 \<Longrightarrow>
    key_messages (Ed_ins c) [M_keydown rs clip (VK_code vk) False shift caps, M_char r (uint c)]"
| char_alone: "printable c \<Longrightarrow> key_messages (Ed_ins c) [M_char r (uint c)]"
| bksp: "key_messages Ed_bksp [M_keydown rs clip (VK_code 8) False shift caps, M_char r 8]"
| left: "key_messages Ed_left [M_keydown rs clip VK_LEFT False shift caps]"
| right: "key_messages Ed_right [M_keydown rs clip VK_RIGHT False shift caps]"
| home: "key_messages Ed_home [M_keydown rs clip VK_HOME False shift caps]"
| end_key: "key_messages Ed_end [M_keydown rs clip VK_END False shift caps]"

lemma edit_insert_swallow: "tt_swallow (edit_insert c s) = tt_swallow s"
  by (simp add: edit_insert_def shell_render_edit_def tab_output Let_def)

lemma key_messages_step:
  assumes "key_messages k ms" "tt_mode s = F6_SHELL" "\<not> tt_swallow s"
  shows "ed_ok k \<and> foldl tab_step s ms = tab_step s (ed_msg k)"
  using assms
proof (cases rule: key_messages.cases)
  case (by_code c vk shift caps rs clip r ch)
  have "vk_char vk shift caps \<noteq> 0" using printable_uint [OF by_code(3)] by_code(4) by simp
  moreover have "(edit_insert c (s\<lparr>tt_macro := False\<rparr>))\<lparr>tt_swallow := False\<rparr> = edit_insert c (s\<lparr>tt_macro := False\<rparr>)"
    using assms(3) edit_insert_swallow [of c "s\<lparr>tt_macro := False\<rparr>"] by simp
  ultimately show ?thesis
    using assms(2,3) by_code by (simp add: on_keydown_def on_char_def char_shell_ins)
next
  case (bksp rs clip shift caps r)
  then show ?thesis using assms(2,3) by (simp add: on_keydown_def on_char_def vk_char_def char_shell_bksp)
qed (simp_all add: on_keydown_def on_char_def char_shell_ins assms(2,3))

lemma keys_typed:
  assumes "list_all2 key_messages ks mss" "editing x0 lp s" "x0 + int (length (fst lp) + ins_count ks) \<le> vt_cols (tt_term s)"
    and "length (fst lp) + ins_count ks \<le> 1023"
  shows "list_all ed_ok ks \<and> foldl tab_step s (concat mss) = foldl tab_step s (map ed_msg ks)"
  using assms
proof (induction arbitrary: lp s rule: list_all2_induct)
  case (Cons k ks ms mss)
  have n: "ins_count (k # ks) = ins_count [k] + ins_count ks" by (simp add: ins_count_def)
  have len: "length (fst (ed_step lp k)) \<le> length (fst lp) + ins_count [k]"
    using ed_step_length [of lp k] Cons.prems(1) by (cases lp) (auto simp: ins_count_def editing_def shown_def)
  have k: "ed_ok k" "foldl tab_step s ms = tab_step s (ed_msg k)"
    using key_messages_step [OF Cons.hyps(1)] Cons.prems(1) by (auto simp: editing_def)
  have "editing x0 (ed_step lp k) (tab_step s (ed_msg k))"
    using Cons.prems n k(1) by (intro editing_step) auto
  then have "list_all ed_ok ks \<and> foldl tab_step (tab_step s (ed_msg k)) (concat mss) = foldl tab_step (tab_step s (ed_msg k)) (map ed_msg ks)"
    using Cons.prems n k(1) len tab_step_cols [OF Cons.prems(1) k(1)] by (intro Cons.IH) auto
  then show ?case using k by simp
qed simp

text \<open>
  C14: What is typed is what is on the screen. From a prompt in the shell, any sequence of printable keys, Backspace, Left, Right,
  Home and End, each as the messages the window gets for it (key code and character), leaves in the input line, and at its
  cursor, what a plain text editor has there, and the terminal's row shows exactly that
  line, followed by blanks, with the terminal's cursor at the editor's. This holds as long as the characters typed fit the rest of the
  terminal's row behind the prompt and the array of 1024 bytes: the code's editor does not handle a line that wraps.
\<close>

theorem tab_line_edited:
  assumes "editing x0 lp s" "list_all2 key_messages ks mss" "x0 + int (length (fst lp) + ins_count ks) \<le> vt_cols (tt_term s)"
    and "length (fst lp) + ins_count ks \<le> 1023"
  shows "editing x0 (foldl ed_step lp ks) (foldl tab_step s (concat mss))"
  using keys_typed [OF assms(2,1,3,4)] editing_run [OF assms(1) _ assms(3,4)] by simp

definition demo_tab :: tel_tab where
  "demo_tab =
     \<lparr>tt_term = two_row_term\<lparr>vt_cols := 12, vt_sel_active := False\<rparr>, tt_mode = F6_SHELL,
      tt_telnet = None, tt_finger = False, tt_qotd = False, tt_host = [], tt_port = 0, tt_input = [], tt_pos = 0,
      tt_macro = False, tt_buttons = True, tt_swallow = False, tt_dragging = False, tt_drag_row = 0, tt_drag_col = 0,
      tt_scroll_dir = 0, tt_requests = [], tt_clip = None\<rparr>"

lemma prompt_editing:
  assumes "tt_mode s = F6_SHELL" "\<not> tt_swallow s" "vt_pstate (tt_term s) = VTP_NORMAL" "vt_cursor_x (tt_term s) = 0"
    "2 \<le> vt_cols (tt_term s)" "\<forall>x. 0 \<le> x \<and> x < vt_cols (tt_term s) \<longrightarrow> cell_ch (tt_term s) x = 0x20"
  shows "editing 2 ([], 0) (enter_shell_mode True s)"
proof -
  note f = feed_text_row [of "tt_term s" "asc ''$ ''" mem_available]
  have "list_all printable (asc ''$ '')" by (simp add: printable_def)
  then show ?thesis
    using f assms by (auto simp: editing_def shown_def enter_shell_mode_def term_write_feed row_moves_def Let_def)
qed

theorem tab_line_edited_witness:
  "tt_input (foldl tab_step (enter_shell_mode True demo_tab)
     [M_keydown [] None (VK_code 0x41) False False False, M_char None 0xE1, M_char None 0x63,
      M_keydown [] None VK_LEFT False False False,
      M_keydown [] None (VK_code 0xBF) False True False, M_char None 0x3F]) = [0x61, 0x3F, 0x63]"
proof -
  have e: "editing 2 ([], 0) (enter_shell_mode True demo_tab)"
    by (rule prompt_editing) (simp_all add: demo_tab_def two_row_term_def cell_ch_def blank_cell_def)
  have c: "vt_cols (tt_term (enter_shell_mode True demo_tab)) = 12"
    by (simp add: enter_shell_mode_def term_write_feed feed_cols demo_tab_def two_row_term_def)
  have "key_messages (Ed_ins 0x61) [M_keydown [] None (VK_code 0x41) False False False, M_char None 0xE1]"
    "key_messages (Ed_ins 0x63) [M_char None (uint (0x63 :: byte))]" "key_messages Ed_left [M_keydown [] None VK_LEFT False False False]"
    "key_messages (Ed_ins 0x3F) [M_keydown [] None (VK_code 0xBF) False True False, M_char None (uint (0x3F :: byte))]"
    by (rule key_messages.intros; simp add: printable_def vk_char_def)+
  then have m: "list_all2 key_messages [Ed_ins 0x61, Ed_ins 0x63, Ed_left, Ed_ins 0x3F]
     [[M_keydown [] None (VK_code 0x41) False False False, M_char None 0xE1], [M_char None 0x63],
      [M_keydown [] None VK_LEFT False False False], [M_keydown [] None (VK_code 0xBF) False True False, M_char None 0x3F]]"
    by simp
  from tab_line_edited [OF e m] c show ?thesis by (simp add: ins_count_def editing_def)
qed

subsection \<open>Modes and sessions match\<close>

fun mode_ok :: "f6_mode \<Rightarrow> bool \<Rightarrow> bool \<Rightarrow> bool \<Rightarrow> bool" where
  "mode_ok F6_SHELL t f q = (\<not> t \<and> \<not> f \<and> \<not> q)"
| "mode_ok F6_TELNET_CONNECTING t f q = (t \<and> \<not> f \<and> \<not> q)"
| "mode_ok F6_TELNET_ACTIVE t f q = (t \<and> \<not> f \<and> \<not> q)"
| "mode_ok F6_FINGER_READING t f q = (\<not> t \<and> f \<and> \<not> q)"
| "mode_ok F6_QOTD_READING t f q = (\<not> t \<and> \<not> f \<and> q)"

text \<open>
  The state is well-formed: the line and its cursor fit the array, a mode has exactly its own session, the timer of a shortcut
  runs only in the shell, and outside the shell the shortcuts are off.
\<close>

definition tab_ok :: "tel_tab \<Rightarrow> bool" where
  "tab_ok s \<longleftrightarrow>
     length (tt_input s) \<le> 1023 \<and> tt_pos s \<le> length (tt_input s) \<and> list_all printable (tt_input s) \<and>
     mode_ok (tt_mode s) (tt_telnet s \<noteq> None) (tt_finger s) (tt_qotd s) \<and>
     (tt_macro s \<longrightarrow> tt_mode s = F6_SHELL) \<and> (tt_buttons s \<longrightarrow> tt_mode s = F6_SHELL)"

named_theorems tab_ok_intros

lemma tab_ok_term [simp]:
  "tab_ok (s\<lparr>tt_term := t\<rparr>) = tab_ok s" "tab_ok (s\<lparr>tt_clip := c\<rparr>) = tab_ok s" "tab_ok (s\<lparr>tt_swallow := b\<rparr>) = tab_ok s"
  "tab_ok (s\<lparr>tt_scroll_dir := d\<rparr>) = tab_ok s" "tab_ok (s\<lparr>tt_dragging := b\<rparr>) = tab_ok s" "tab_ok (s\<lparr>tt_drag_row := r, tt_drag_col := c', tt_dragging := b\<rparr>) = tab_ok s"
  by (simp_all add: tab_ok_def)

lemma tab_ok_enter [tab_ok_intros]:
  "tt_telnet s = None \<Longrightarrow> \<not> tt_finger s \<Longrightarrow> \<not> tt_qotd s \<Longrightarrow> tab_ok (enter_shell_mode p s)"
  by (simp add: enter_shell_mode_def tab_ok_def term_write_feed Let_def)

lemma shell_no_session: "tab_ok s \<Longrightarrow> tt_mode s = F6_SHELL \<Longrightarrow> tt_telnet s = None \<and> \<not> tt_finger s \<and> \<not> tt_qotd s"
  by (simp add: tab_ok_def)

lemma open_ok:
  assumes "tab_ok s" "tt_mode s = F6_SHELL" "\<not> tt_macro s"
  shows "tab_ok (open_telnet r x s)" "tab_ok (open_finger r x s)" "tab_ok (open_qotd_raw r x p s)"
proof -
  note n = shell_no_session [OF assms(1,2)]
  show "tab_ok (open_telnet r x s)"
    using assms n by (auto simp: open_telnet_def Let_def tab_ok_def enter_shell_mode_def term_write_feed split: option.split)
  show "tab_ok (open_finger r x s)"
    using assms n by (auto simp: open_finger_def Let_def Let_def tab_ok_def enter_shell_mode_def term_write_feed)
  show "tab_ok (open_qotd_raw r x p s)"
    using assms n by (auto simp: open_qotd_raw_def Let_def Let_def tab_ok_def enter_shell_mode_def term_write_feed)
qed

lemma tab_ok_write [simp]: "tab_ok (term_write b s) = tab_ok s" "tab_ok (foldl (\<lambda>s b. term_write b s) s bss) = tab_ok s"
  using write_each_feed [of bss s] by (simp_all add: term_write_feed write_each_def)

lemma close_active_ok: "tab_ok (close_active_session True s)"
  by (simp add: close_active_session_def close_sessions_def Let_def term_write_feed tab_ok_enter)

lemma dispatch_ok:
  assumes "tab_ok s" "tt_mode s = F6_SHELL" "\<not> tt_macro s"
  shows "tab_ok (shell_dispatch r c s)"
  using assms open_ok [OF assms] close_active_ok shell_no_session [OF assms(1,2)]
  by (simp add: shell_dispatch_def Let_def split_beta)

lemma tab_ok_macro_off: "tab_ok s \<Longrightarrow> tab_ok (s\<lparr>tt_macro := False\<rparr>)"
  by (simp add: tab_ok_def)

lemma commit_ok [tab_ok_intros]: "tab_ok s \<Longrightarrow> tt_mode s = F6_SHELL \<Longrightarrow> tab_ok (shell_commit_enter r s)"
  unfolding shell_commit_enter_def Let_def by (rule dispatch_ok) (simp_all add: tab_ok_def term_write_feed cancel_macro_timer_def)

lemma edit_ok:
  "tab_ok s \<Longrightarrow> tab_ok (edit_backspace s)" "tab_ok s \<Longrightarrow> printable c \<Longrightarrow> tab_ok (edit_insert c s)"
  by (auto simp: edit_backspace_def edit_insert_def shell_render_edit_def Let_def tab_output tab_ok_def list_all_iff
      dest: in_set_takeD in_set_dropD)

lemma printable_of_int: "0x20 \<le> ch \<Longrightarrow> ch < 0x7F \<Longrightarrow> printable (word_of_int ch)"
  by (simp add: printable_def word_le_def word_less_def uint_word_of_int)

lemma char_shell_ok [tab_ok_intros]: "tab_ok s \<Longrightarrow> tt_mode s = F6_SHELL \<Longrightarrow> tab_ok (handle_char_shell r ch s)"
proof -
  assume s: "tab_ok s" "tt_mode s = F6_SHELL"
  let ?s = "s\<lparr>tt_macro := False\<rparr>"
  have o: "tab_ok ?s" using s by (simp add: tab_ok_macro_off)
  have l: "tab_ok (?s\<lparr>tt_input := [], tt_pos := 0\<rparr>)" using o by (simp add: tab_ok_def)
  have c: "tab_ok (shell_commit_enter r ?s)" using commit_ok [OF o] s by simp
  show ?thesis
    unfolding handle_char_shell_def macro_off Let_def
    using o c edit_ok [OF o] printable_of_int [of ch] l
    by (simp add: tab_output) (simp add: tab_ok_def)
qed

lemma send_ok [tab_ok_intros]: "tab_ok s \<Longrightarrow> tab_ok (send_to_server_bytes b s)"
  by (auto simp: send_to_server_bytes_def tab_ok_def split: option.split)

lemma char_telnet_ok [tab_ok_intros]: "tab_ok s \<Longrightarrow> tab_ok (handle_char_telnet ch s)"
  using send_ok [of s] by (simp add: handle_char_telnet_def Let_def term_write_feed)

lemma arrow_ok [tab_ok_intros]: "tab_ok s \<Longrightarrow> tab_ok (handle_vk_arrow k s)"
proof -
  assume s: "tab_ok s"
  then have p: "tab_ok (s\<lparr>tt_pos := q\<rparr>)" if "q \<le> length (tt_input s)" for q using that by (simp add: tab_ok_def)
  have "tt_pos s \<le> length (tt_input s)" using s by (simp add: tab_ok_def)
  then have "tab_ok (shell_arrow k s)"
    using s p by (cases k) (simp_all add: tab_output scroll_term_def)
  then show ?thesis using s send_ok [OF s] by (auto simp: handle_vk_arrow_def scroll_term_def split: option.split)
qed

lemma wheel_ok [tab_ok_intros]: "tab_ok s \<Longrightarrow> tab_ok (handle_wheel n s)"
proof -
  assume s: "tab_ok s"
  have "tab_ok (((send_to_server_bytes b) ^^ k) s)" for b k using s by (induction k) (simp_all add: send_ok)
  then show ?thesis using s by (simp add: handle_wheel_def Let_def scroll_term_def)
qed

lemma paste_loop_ok: "tab_ok s \<Longrightarrow> tab_ok (paste_loop res sk cs s)"
proof (induction res sk cs s rule: paste_loop.induct)
  case (2 res sk c cs s)
  have a: "tab_ok (handle_char_shell r ch s)" if "tt_mode s = F6_SHELL" for r ch using 2(5) that by (rule char_shell_ok)
  have b: "tab_ok (send_to_server_bytes x s)" for x using 2(5) by (rule send_ok)
  show ?case
    using 2 a b by (simp add: Let_def del: option.case_distrib)
qed simp

lemma paste_ok [tab_ok_intros]: "tab_ok s \<Longrightarrow> tab_ok (telnet_module_paste res clip s)"
  by (simp add: telnet_module_paste_def paste_loop_ok split: option.split)

lemma copy_ok [tab_ok_intros]: "tab_ok s \<Longrightarrow> tab_ok (copy_selection s)"
  by (simp add: copy_selection_def split: option.split)

lemma select_to_ok [tab_ok_intros]: "tab_ok s \<Longrightarrow> tab_ok (select_to v c s)"
  by (simp add: select_to_def)

lemma macro_inject_ok:
  "tab_ok s \<Longrightarrow> list_all printable text \<Longrightarrow> tab_ok (macro_inject text s)"
  by (auto simp: macro_inject_def Let_def tab_output cancel_macro_timer_def tab_ok_def list_all_iff dest: in_set_takeD)

lemma shortcut_printable: "list_all printable (asc (shortcut_cmd b))"
  by (cases b) (simp_all add: printable_def)

lemma event_ok [tab_ok_intros]: "tab_ok s \<Longrightarrow> tab_ok (on_event e s)"
proof (cases e)
  case (EVT_CLOSED c)
  then show ?thesis
    unfolding on_event_def by (simp, intro tab_ok_enter) (simp_all add: term_write_feed close_sessions_def)
next
  case EVT_CONNECTED
  assume "tab_ok s"
  then show ?thesis using EVT_CONNECTED by (auto simp: on_event_def tab_ok_def)
qed (simp_all add: on_event_def term_write_feed)

lemma tab_step_ok: "tab_ok s \<Longrightarrow> tab_ok (tab_step s m)"
proof (cases m)
  case (M_keydown res clip vk ctrl shift caps)
  assume s: "tab_ok s"
  then have "tab_ok (on_keydown res clip vk ctrl shift caps s)"
    by (auto simp: on_keydown_def Let_def intro: tab_ok_intros split: vkey.split)
  then show ?thesis using M_keydown by simp
next
  case (M_button b)
  assume "tab_ok s"
  then have "tab_ok (s\<lparr>tt_buttons := False\<rparr>)" by (simp add: tab_ok_def)
  then show ?thesis using M_button macro_inject_ok shortcut_printable by (simp add: trigger_shortcut_def)
next
  case (M_macro_timer r)
  assume "tab_ok s"
  then show ?thesis using M_macro_timer by (simp add: Let_def tab_ok_macro_off commit_ok)
next
  case (M_lbutton_down a b)
  assume "tab_ok s"
  then have "tab_ok (s\<lparr>tt_drag_row := r, tt_drag_col := c, tt_dragging := True\<rparr>)" for r c by (simp add: tab_ok_def)
  then show ?thesis using M_lbutton_down by (simp add: on_lbutton_down_def select_to_ok)
next
  case M_lbutton_up
  assume "tab_ok s"
  then have "tab_ok (s\<lparr>tt_dragging := False, tt_scroll_dir := 0\<rparr>)" by (simp add: tab_ok_def)
  then show ?thesis using M_lbutton_up \<open>tab_ok s\<close> by (simp add: on_lbutton_up_def Let_def)
next
  case (M_session t)
  assume "tab_ok s"
  then show ?thesis using M_session by (auto simp: tab_ok_def)
qed (simp_all add: on_char_def on_mouse_move_def on_sel_timer_def scroll_term_def Let_def tab_ok_intros)

interpretation tab: stream_machine tab_step "\<lambda>_ _. True" tab_ok
  by unfold_locales (rule tab_step_ok)

text \<open>
  C18: Whatever messages arrive in whatever order (keys, pastes, shortcuts, timers, the mouse, and events of the workers, late ones
  included), the tab's state stays well-formed: the input line fits its array and holds printable characters, the cursor is in the
  line, a mode has exactly the session that belongs to it and never two, and the shortcut timer and the shortcut buttons are on in the shell only.
\<close>

theorem tab_states_match:
  assumes "tab_ok s"
  shows "tab_ok (foldl tab_step s msgs)"
  by (rule tab.run_inv [OF assms run_ok_True])

theorem tab_states_match_witness:
  "tab_ok (foldl tab_step demo_tab [M_button Btn_qotd, M_macro_timer (Some tn_open), M_notify EVT_CONNECTED, M_notify (EVT_CLOSED 0)])"
  by (rule tab_states_match) (simp add: tab_ok_def demo_tab_def)

lemma tab_init_ok: "tab_ok (tab_init heap)"
  unfolding tab_init_def emit_boot_banner_def tab_ok_write by (simp add: tab_ok_def)

subsection \<open>A whole session on the screen\<close>

text \<open>
  Local echo. The worker parses the server's stream and leaves what it learned in the session; a printable key typed then is echoed by the
  tab exactly when the last word of the server on echoing was not that it does so itself.
\<close>

lemma tab_local_echo:
  assumes "tt_telnet s = Some t" "tt_mode s = F6_TELNET_ACTIVE" "\<not> tt_swallow s" "printable c"
    and "tn_ready t" "list_all item_ok its"
  shows "tt_term (foldl tab_step s [M_session (fst (parse_chunk t (concat (map encode_item its)))), M_char None (uint c)]) =
    (if foldl item_echo (tn_server_echo t) its then tt_term s else vt_term_feed_bytes mem_available (tt_term s) [c])"
  using assms printable_uint [OF assms(4)] run_items [OF assms(5,6)]
  by (simp add: on_char_def handle_char_telnet_def telnet_proto_server_echo_def parse_chunk_def Let_def
      send_to_server_bytes_def term_write_feed)

definition end_round :: "recv_result \<Rightarrow> rx_round" where
  "end_round r = \<lparr>rr_stop = False, rr_recv = r, rr_stop_after = False, rr_chunk_ok = True, rr_data_ok = True\<rparr>"

lemma rx_loop_data:
  assumes "r = RClosed \<or> r = RError"
  shows "evt_data (snd (snd (tn_rx_loop t (map good_round chunks @ [end_round r])))) = snd (parse_chunk t (concat chunks))"
proof (induction chunks arbitrary: t)
  case Nil
  then show ?case using assms by (auto simp: end_round_def parse_chunk_def)
next
  case (Cons d chunks)
  have "snd (parse_chunk t (d @ concat chunks)) = snd (parse_chunk t d) @ snd (parse_chunk (fst (parse_chunk t d)) (concat chunks))"
    by (simp add: parse_chunk_def run_out_append_snd)
  then show ?case using Cons by (simp add: good_round_def split_beta)
qed

text \<open>The events of a worker, from its first to its last, at the tab.\<close>

lemma data_events:
  "list_all is_data es \<Longrightarrow> foldl tab_step s (map M_notify es) = s\<lparr>tt_term := vt_term_feed_bytes mem_available (tt_term s) (evt_data es)\<rparr>"
proof (induction es arbitrary: s)
  case (Cons e es)
  then obtain d where "e = EVT_DATA d" by (auto simp: is_data_def)
  then show ?case using Cons by (simp add: on_event_data feed_bytes_append)
qed (simp add: feed_bytes_Nil)

definition closing_text :: "byte list" where
  "closing_text = crlf @ asc ''Connection closed.'' @ crlf @ asc ''$ ''"

lemma closed_event:
  "tab_step s (M_notify (EVT_CLOSED c)) = (close_sessions s)
    \<lparr>tt_term := vt_term_feed_bytes mem_available (tt_term s) closing_text, tt_mode := F6_SHELL, tt_input := [], tt_pos := 0, tt_buttons := True\<rparr>"
  by (simp add: on_event_def enter_shell_mode_def close_sessions_def Let_def tab_output closing_text_def)

lemma trace_shown:
  assumes "es = EVT_CONNECTED # ds @ [EVT_CLOSED c]" "list_all is_data ds"
  shows "foldl tab_step s (map M_notify es) = (close_sessions s)
    \<lparr>tt_term := vt_term_feed_bytes mem_available (tt_term s) (evt_data ds @ closing_text),
     tt_mode := F6_SHELL, tt_input := [], tt_pos := 0, tt_buttons := True\<rparr>"
proof -
  let ?s = "tab_step s (M_notify EVT_CONNECTED)"
  have c: "tt_term ?s = tt_term s" by (simp add: on_event_def)
  have "foldl tab_step s (map M_notify es) = tab_step (?s\<lparr>tt_term := vt_term_feed_bytes mem_available (tt_term s) (evt_data ds)\<rparr>) (M_notify (EVT_CLOSED c))"
    using data_events [OF assms(2), of ?s] by (simp only: assms(1) list.map map_append foldl.simps foldl_append c)
  also have "\<dots> = (close_sessions s)
    \<lparr>tt_term := vt_term_feed_bytes mem_available (tt_term s) (evt_data ds @ closing_text),
     tt_mode := F6_SHELL, tt_input := [], tt_pos := 0, tt_buttons := True\<rparr>"
    by (simp only: closed_event) (simp add: on_event_def close_sessions_def feed_bytes_append)
  finally show ?thesis .
qed

text \<open>
  C7: From the wire to the screen. When the server's stream of data, option requests and subnegotiations arrives, in whatever pieces, and
  the connection then ends, the tab shows exactly the data bytes, in order, followed by the closing line and the prompt, on the
  terminal as it stood; it is back in the shell, without a session, with an empty line and the shortcuts on.
\<close>

theorem tab_shows_session:
  assumes "connect_to res = (Some i, m)" "r = RClosed \<or> r = RError"
    and "tn_ready (t\<lparr>tn_sock := (tn_sock t)\<lparr>sk_open := True\<rparr>\<rparr>)" "list_all item_ok its"
    and "concat chunks = concat (map encode_item its)"
  shows "let s' = foldl tab_step s (map M_notify (snd (tn_rx_thread t res (map good_round chunks @ [end_round r])))) in
    tt_term s' = vt_term_feed_bytes mem_available (tt_term s) (concat (map item_data its) @ closing_text) \<and>
    tt_mode s' = F6_SHELL \<and> tt_telnet s' = None \<and> tt_input s' = [] \<and> tt_buttons s'"
proof -
  let ?t = "t\<lparr>tn_sock := (tn_sock t)\<lparr>sk_open := True\<rparr>\<rparr>"
  obtain t1 ok es where l: "tn_rx_loop ?t (map good_round chunks @ [end_round r]) = (t1, ok, es)" by (cases "tn_rx_loop ?t (map good_round chunks @ [end_round r])")
  have es: "snd (tn_rx_thread t res (map good_round chunks @ [end_round r])) = EVT_CONNECTED # es @ [EVT_CLOSED (if ok then 0 else 1)]"
    using assms(1) l by (simp add: tn_rx_thread_def)
  have "evt_data es = concat (map item_data its)"
    using rx_loop_data [OF assms(2), of ?t chunks] l run_items [OF assms(3,4)] assms(5) by (simp add: parse_chunk_def)
  then show ?thesis
    using trace_shown [OF es tn_rx_loop_data [OF l], of s] by (simp add: Let_def close_sessions_def)
qed

theorem tab_shows_session_witness:
  "tt_term (foldl tab_step demo_tab (map M_notify (snd (tn_rx_thread (tn_init (\<lambda>_. 3)) (Some [(True, True)])
      (map good_round [[0x48, 0xFF], [0xFB, 0x01, 0x69]] @ [end_round RClosed]))))) =
    vt_term_feed_bytes mem_available (tt_term demo_tab) ([0x48, 0x69] @ closing_text)"
proof -
  have c: "connect_to (Some [(True, True)]) = (Some 0, '''')" by (simp add: connect_to_def)
  have r: "tn_ready ((tn_init (\<lambda>_. 3))\<lparr>tn_sock := (tn_sock (tn_init (\<lambda>_. 3)))\<lparr>sk_open := True\<rparr>\<rparr>)"
    by (simp add: tn_init_def tn_ready_def reliable_def)
  have i: "list_all item_ok [Data 0x48, Neg WILL OPT_ECHO, Data 0x69]" by simp
  have e: "concat [[0x48, 0xFF], [0xFB, 0x01, 0x69]] = concat (map encode_item [Data 0x48, Neg WILL OPT_ECHO, Data 0x69])"
    by (simp add: telnet_codes)
  show ?thesis using tab_shows_session [OF c disjI1 [OF refl] r i e, of demo_tab] by (simp add: Let_def)
qed

subsection \<open>Keys that come twice\<close>

text \<open>
  The message loop calls \<open>TranslateMessage\<close> for every key, so a control key that \<open>WM_KEYDOWN\<close> has handled comes back as a character. Copying the
  selection with Ctrl-C on a connection therefore also sends the interrupt character to the server.
\<close>

theorem tab_copy_interrupts:
  assumes "tt_mode s = F6_TELNET_ACTIVE" "tt_telnet s = Some t" "reliable (tn_sock t)" "\<not> tt_swallow s"
    and "vt_sel_active (tt_term s)" "vt_term_select_extract mem_available (tt_term s) = Some tx"
  shows "\<exists>t'. tt_telnet (foldl tab_step s [M_keydown [] None (VK_code 0x43) True False False, M_char None 0x03]) = Some t' \<and>
    sk_wire (tn_sock t') = sk_wire (tn_sock t) @ [0x03] \<and>
    tt_clip (foldl tab_step s [M_keydown [] None (VK_code 0x43) True False False, M_char None 0x03]) = Some tx"
proof -
  have "sk_open (tn_sock t)" using assms(3) by (simp add: reliable_def)
  then have "sk_wire (tn_sock (snd (telnet_proto_send True t [3]))) = sk_wire (tn_sock t) @ [3]"
    using send_all_reliable [OF assms(3), of "[3]"] by (simp add: telnet_proto_send_def Let_def split_beta)
  then show ?thesis
    using assms by (simp add: on_keydown_def copy_selection_def Let_def on_char_def handle_char_telnet_def send_to_server_bytes_def)
qed

theorem tab_copy_interrupts_witness:
  "\<exists>t'. tt_telnet (foldl tab_step (demo_tab\<lparr>tt_mode := F6_TELNET_ACTIVE, tt_telnet := Some tn_open, tt_term := two_row_term\<lparr>vt_sel_lead_row := 0\<rparr>\<rparr>)
      [M_keydown [] None (VK_code 0x43) True False False, M_char None 0x03]) = Some t' \<and> sk_wire (tn_sock t') = [0x03]"
proof -
  let ?s = "demo_tab\<lparr>tt_mode := F6_TELNET_ACTIVE, tt_telnet := Some tn_open, tt_term := two_row_term\<lparr>vt_sel_lead_row := 0\<rparr>\<rparr>"
  have r: "reliable (tn_sock tn_open)" using tn_open_ready by (simp add: tn_ready_def)
  have w: "sk_wire (tn_sock tn_open) = []" by (simp add: tn_open_def)
  have "\<exists>tx. vt_term_select_extract mem_available (tt_term ?s) = Some tx"
    using vt_select_extract_rows_witness by simp
  then obtain tx where "vt_term_select_extract mem_available (tt_term ?s) = Some tx" by blast
  moreover have "\<not> tt_swallow ?s" "vt_sel_active (tt_term ?s)" by (simp_all add: demo_tab_def two_row_term_def)
  ultimately show ?thesis using tab_copy_interrupts [where s = "?s" and t = tn_open and tx = tx] r w by auto
qed

text \<open>Ctrl-L in the shell types an l: the key code gives the letter, and the character that would clear the screen is swallowed.\<close>

lemma tab_ctrl_l_types:
  assumes "tt_mode s = F6_SHELL" "\<not> tt_swallow s"
  shows "foldl tab_step s [M_keydown [] None (VK_code 0x4C) True False False, M_char None 0x0C] =
    (edit_insert 0x6C (s\<lparr>tt_macro := False\<rparr>))\<lparr>tt_swallow := False\<rparr>"
proof -
  have "handle_char_shell None 0x6C s = edit_insert 0x6C (s\<lparr>tt_macro := False\<rparr>)"
    using char_shell_ins [where c = "0x6C" and s = s] by (simp add: printable_def)
  then show ?thesis using assms by (simp add: on_keydown_def vk_char_def on_char_def)
qed

text \<open>A shortcut that is abandoned by a key leaves the shortcuts off, in the shell, with no timer to come.\<close>

lemma tab_shortcuts_stuck:
  assumes "tt_mode s = F6_SHELL" "\<not> tt_swallow s"
  shows "let s' = foldl tab_step s [M_button b, M_char None 0x03] in tt_mode s' = F6_SHELL \<and> \<not> tt_buttons s' \<and> \<not> tt_macro s'"
  using assms by (simp add: trigger_shortcut_def macro_inject_def Let_def tab_output cancel_macro_timer_def on_char_def handle_char_shell_def)

end
