(* ===== verification/Minitel.thy ===== *)
theory Minitel
  imports Prelude
begin

section \<open>The Minitel decoder (minitel\_decode.c)\<close>

text \<open>
  The videotex decoder and its page memory: the record of \<open>struct minitel_decoder\<close>, one
  definition per function, the states of \<open>feed_byte\<close> as one definition each. The page memory
  is a function of row and column, so a write outside \<open>mem[25][42]\<close> would be visible in it.
  The reply callback is the list of messages handed to it. The fields \<open>csi_have\<close> and
  \<open>iso_first\<close>, which the code sets and never reads, are left out.
\<close>

unbundle bit_operations_syntax

subsection \<open>Data\<close>

datatype cell_kind = MT_KIND_ALPHA | MT_KIND_MOSAIC | MT_KIND_DELIM

record minitel_cell =
  mc_kind :: cell_kind
  mc_glyph :: byte
  mc_fg :: byte
  mc_bg :: byte
  mc_flags :: byte
  mc_size :: byte

definition MT_F_FLASH :: byte where "MT_F_FLASH = 0x01"
definition MT_F_INVERT :: byte where "MT_F_INVERT = 0x02"
definition MT_F_SEPARATED :: byte where "MT_F_SEPARATED = 0x04"
definition MT_F_ZMASK :: byte where "MT_F_ZMASK = 0x08"
definition MT_F_ZUNDER :: byte where "MT_F_ZUNDER = 0x10"
definition MT_S_DW :: byte where "MT_S_DW = 0x01"
definition MT_S_DH :: byte where "MT_S_DH = 0x02"
definition MT_S_RIGHT :: byte where "MT_S_RIGHT = 0x04"
definition MT_S_TOP :: byte where "MT_S_TOP = 0x08"

lemmas mt_size_bits = MT_S_DW_def MT_S_DH_def MT_S_RIGHT_def MT_S_TOP_def

definition MT_BLACK :: byte where "MT_BLACK = 0"
definition MT_WHITE :: byte where "MT_WHITE = 7"

definition MT_G_FULLBLOCK :: byte where "MT_G_FULLBLOCK = 0x80"
definition MT_G_LOWBAR :: byte where "MT_G_LOWBAR = 0x81"
definition MT_G_END :: byte where "MT_G_END = 0xA0"

record attr =
  at_fg :: byte
  at_flash :: bool
  at_invert :: bool
  at_size :: byte
  at_separated :: bool
  at_g1 :: bool
  at_s_bg :: byte
  at_s_mask :: bool
  at_s_ul :: bool
  at_s_pending :: bool
  at_s_pending_other :: bool

datatype mt_state =
    ST_GROUND | ST_ESC | ST_ISO | ST_CSI | ST_US1 | ST_US2 | ST_REP | ST_SS2 | ST_SS2_ACC
  | ST_SKIP1 | ST_PRO | ST_TRANSP | ST_TRANSP_ESC | ST_TRANSP_ESC25 | ST_TRANSP_ESC2F

datatype last_kind = LAST_NONE | LAST_G0 | LAST_G1 | LAST_GLYPH

record minitel_stats =
  ms_bytes_in :: u32
  ms_chars :: u32
  ms_filtered :: u32
  ms_resync :: u32
  ms_errors :: u32
  ms_row0 :: u32
  ms_protocol :: u32
  ms_unrepresent :: u32
  ms_bit8 :: u32
  ms_bells :: u32
  ms_us_ignored :: u32

record minitel_decoder =
  mt_mem :: "int \<Rightarrow> int \<Rightarrow> minitel_cell"
  mt_row :: int
  mt_col :: int
  mt_a :: attr
  mt_in_row0 :: bool
  mt_sv_row :: int
  mt_sv_col :: int
  mt_sv_a :: attr
  mt_cursor_on :: bool
  mt_screen_mask :: bool
  mt_scroll :: bool
  mt_insert :: bool
  mt_st :: mt_state
  mt_us_r :: byte
  mt_acc :: byte
  mt_iso_n :: int
  mt_iso :: "byte list"
  mt_csi_p :: "int list"
  mt_csi_np :: int
  mt_csi_bad :: bool
  mt_csi_priv :: bool
  mt_pro_left :: int
  mt_pro_n :: int
  mt_pro :: "byte list"
  mt_last_kind :: last_kind
  mt_last_code :: byte
  mt_status_letter :: byte
  mt_ever :: bool
  mt_reply :: bool
  mt_sent :: "byte list list"
  mt_stats :: minitel_stats

text \<open>The counters, as the code increments them.\<close>

abbreviation stat_filtered :: "minitel_decoder \<Rightarrow> minitel_decoder" where
  "stat_filtered \<equiv> mt_stats_update (\<lambda>s. s\<lparr>ms_filtered := ms_filtered s + 1\<rparr>)"

abbreviation stat_unrepresent :: "minitel_decoder \<Rightarrow> minitel_decoder" where
  "stat_unrepresent \<equiv> mt_stats_update (\<lambda>s. s\<lparr>ms_unrepresent := ms_unrepresent s + 1\<rparr>)"

abbreviation stat_protocol :: "minitel_decoder \<Rightarrow> minitel_decoder" where
  "stat_protocol \<equiv> mt_stats_update (\<lambda>s. s\<lparr>ms_protocol := ms_protocol s + 1\<rparr>)"

abbreviation stat_us_ignored :: "minitel_decoder \<Rightarrow> minitel_decoder" where
  "stat_us_ignored \<equiv> mt_stats_update (\<lambda>s. s\<lparr>ms_us_ignored := ms_us_ignored s + 1\<rparr>)"

subsection \<open>Page memory\<close>

definition attr_default :: attr where
  "attr_default =
     \<lparr>at_fg = MT_WHITE, at_flash = False, at_invert = False, at_size = 0, at_separated = False,
      at_g1 = False, at_s_bg = MT_BLACK, at_s_mask = False, at_s_ul = False,
      at_s_pending = False, at_s_pending_other = False\<rparr>"

definition black_mosaic :: minitel_cell where
  "black_mosaic = \<lparr>mc_kind = MT_KIND_MOSAIC, mc_glyph = 0, mc_fg = MT_BLACK, mc_bg = MT_BLACK,
     mc_flags = 0, mc_size = 0\<rparr>"

type_synonym page = "int \<Rightarrow> int \<Rightarrow> minitel_cell"

definition set_cell :: "page \<Rightarrow> int \<Rightarrow> int \<Rightarrow> minitel_cell \<Rightarrow> page" where
  "set_cell m r c v = m(r := (m r)(c := v))"

definition clear_row :: "page \<Rightarrow> int \<Rightarrow> int \<Rightarrow> int \<Rightarrow> page" where
  "clear_row m r c0 c1 =
     (let c0 = (if c0 < 1 then 1 else c0); c1 = (if c1 > 40 then 40 else c1)
      in m(r := mem_fill (m r) c0 (c1 + 1) black_mosaic))"

definition clear_rows :: "page \<Rightarrow> int \<Rightarrow> int \<Rightarrow> page" where
  "clear_rows m r0 r1 = foldl (\<lambda>m r. clear_row m r 1 40) m [r0..r1]"

text \<open>\<open>memcpy\<close> of one row of 42 cells over another.\<close>

definition copy_row :: "page \<Rightarrow> int \<Rightarrow> int \<Rightarrow> page" where
  "copy_row m dst src = m(dst := (\<lambda>c. if 0 \<le> c \<and> c < 42 then m src c else m dst c))"

fun scroll_up :: "page \<Rightarrow> int \<Rightarrow> int \<Rightarrow> nat \<Rightarrow> page" where
  "scroll_up m top_row bottom 0 = m"
| "scroll_up m top_row bottom (Suc n) =
     scroll_up (clear_row (foldl (\<lambda>m r. copy_row m r (r + 1)) m [top_row..bottom - 1]) bottom 1 40)
       top_row bottom n"

fun scroll_down :: "page \<Rightarrow> int \<Rightarrow> int \<Rightarrow> nat \<Rightarrow> page" where
  "scroll_down m top_row bottom 0 = m"
| "scroll_down m top_row bottom (Suc n) =
     scroll_down (clear_row (foldl (\<lambda>m r. copy_row m r (r - 1)) m (rev [top_row + 1..bottom])) top_row 1 40)
       top_row bottom n"

definition send_reply :: "minitel_decoder \<Rightarrow> byte list \<Rightarrow> minitel_decoder" where
  "send_reply d b = (if mt_reply d then d\<lparr>mt_sent := mt_sent d @ [b]\<rparr> else d)"

definition separator_reset :: "minitel_decoder \<Rightarrow> minitel_decoder" where
  "separator_reset d = d\<lparr>mt_a := attr_default\<rparr>"

definition leave_row0 :: "minitel_decoder \<Rightarrow> minitel_decoder" where
  "leave_row0 d = d\<lparr>mt_in_row0 := False\<rparr>"

definition settle_col :: "minitel_decoder \<Rightarrow> minitel_decoder" where
  "settle_col d = (if mt_col d > 40 then d\<lparr>mt_col := 40\<rparr> else d)"

subsection \<open>Moves\<close>

definition do_lf :: "minitel_decoder \<Rightarrow> minitel_decoder" where
  "do_lf d0 =
     (let d = settle_col d0 in
      if mt_in_row0 d then
        d\<lparr>mt_row := mt_sv_row d, mt_col := mt_sv_col d, mt_a := mt_sv_a d, mt_in_row0 := False\<rparr>
      else if mt_row d \<ge> 24 then
        (if mt_scroll d then d\<lparr>mt_mem := scroll_up (mt_mem d) 1 24 1\<rparr> else d\<lparr>mt_row := 1\<rparr>)
      else d\<lparr>mt_row := mt_row d + 1\<rparr>)"

definition do_vt :: "minitel_decoder \<Rightarrow> minitel_decoder" where
  "do_vt d0 =
     (let d = settle_col d0 in
      if mt_in_row0 d then d
      else if mt_row d \<le> 1 then
        (if mt_scroll d then d\<lparr>mt_mem := scroll_down (mt_mem d) 1 24 1\<rparr> else d\<lparr>mt_row := 24\<rparr>)
      else d\<lparr>mt_row := mt_row d - 1\<rparr>)"

definition do_bs :: "minitel_decoder \<Rightarrow> minitel_decoder" where
  "do_bs d =
     (if mt_col d > 40 then d\<lparr>mt_col := 40\<rparr>
      else if mt_col d > 1 then d\<lparr>mt_col := mt_col d - 1\<rparr>
      else if mt_in_row0 d then d
      else if mt_row d > 1 then d\<lparr>mt_row := mt_row d - 1, mt_col := 40\<rparr>
      else d\<lparr>mt_row := 24, mt_col := 40\<rparr>)"

definition do_ht :: "minitel_decoder \<Rightarrow> minitel_decoder" where
  "do_ht d0 =
     (let d = settle_col d0 in
      if mt_col d < 40 then d\<lparr>mt_col := mt_col d + 1\<rparr>
      else if mt_in_row0 d then d
      else if mt_row d < 24 then d\<lparr>mt_col := 1, mt_row := mt_row d + 1\<rparr>
      else d\<lparr>mt_col := 1, mt_row := 1\<rparr>)"

subsection \<open>Writing a character\<close>

text \<open>The four parts of \<open>put_cell\<close>: row 00, the deferred wrap, the insertion, the cells.\<close>

definition put_row0 :: "minitel_decoder \<Rightarrow> minitel_cell \<Rightarrow> minitel_decoder" where
  "put_row0 d c =
     (let col = (if mt_col d > 40 then 40 else mt_col d)
      in d\<lparr>mt_mem := set_cell (mt_mem d) 0 col (c\<lparr>mc_size := 0\<rparr>),
           mt_stats := (mt_stats d)\<lparr>ms_row0 := ms_row0 (mt_stats d) + 1,
             ms_chars := ms_chars (mt_stats d) + 1\<rparr>,
           mt_col := (if col < 40 then col + 1 else col)\<rparr>)"

definition put_wrap :: "minitel_decoder \<Rightarrow> bool \<Rightarrow> minitel_decoder" where
  "put_wrap d dh =
     (if mt_col d > 40 then
        let row = mt_row d + (if dh then 2 else 1) in
        if row > 24 then
          (if mt_scroll d
           then d\<lparr>mt_col := 1, mt_mem := scroll_up (mt_mem d) 1 24 (nat (row - 24)), mt_row := 24\<rparr>
           else d\<lparr>mt_col := 1, mt_row := (if dh then 2 else 1)\<rparr>)
        else d\<lparr>mt_col := 1, mt_row := row\<rparr>
      else d)"

definition put_insert :: "minitel_decoder \<Rightarrow> minitel_decoder" where
  "put_insert d =
     d\<lparr>mt_mem := (mt_mem d)(mt_row d :=
       mem_move (mt_mem d (mt_row d)) (mt_col d + 1) (mt_col d) (40 - mt_col d))\<rparr>"

definition quarter :: "minitel_cell \<Rightarrow> byte \<Rightarrow> bool \<Rightarrow> bool \<Rightarrow> minitel_cell" where
  "quarter c sz upper right =
     c\<lparr>mc_size := (sz AND (MT_S_DW OR MT_S_DH)) OR (if right then MT_S_RIGHT else 0)
        OR (if upper then MT_S_TOP else 0)\<rparr>"

definition put_block :: "page \<Rightarrow> int \<Rightarrow> int \<Rightarrow> minitel_cell \<Rightarrow> byte \<Rightarrow> bool \<Rightarrow> bool \<Rightarrow> page" where
  "put_block m row col c sz dw dh =
     (let m1 = set_cell m row col (quarter c sz False False);
          m2 = (if dw then set_cell m1 row (col + 1) (quarter c sz False True) else m1);
          m3 = (if dh then set_cell m2 (row - 1) col (quarter c sz True False) else m2)
      in if dh \<and> dw then set_cell m3 (row - 1) (col + 1) (quarter c sz True True) else m3)"

definition put_cell :: "minitel_decoder \<Rightarrow> minitel_cell \<Rightarrow> minitel_decoder" where
  "put_cell d0 c =
     (let d = d0\<lparr>mt_ever := True\<rparr> in
      if mt_in_row0 d then put_row0 d c
      else
        let dh0 = (mc_size c AND MT_S_DH \<noteq> 0);
            dw0 = (mc_size c AND MT_S_DW \<noteq> 0);
            d1 = put_wrap d dh0;
            drop_dh = (dh0 \<and> mt_row d1 < 2);
            size1 = (if drop_dh then mc_size c AND NOT MT_S_DH else mc_size c);
            dh = (dh0 \<and> \<not> drop_dh);
            drop_dw = (dw0 \<and> mt_col d1 = 40);
            size2 = (if drop_dw then size1 AND NOT MT_S_DW else size1);
            dw = (dw0 \<and> \<not> drop_dw);
            d2 = (if mt_insert d1 \<and> \<not> dw then put_insert d1 else d1)
        in d2\<lparr>mt_mem := put_block (mt_mem d2) (mt_row d2) (mt_col d2) c size2 dw dh,
              mt_stats := (mt_stats d2)\<lparr>ms_chars := ms_chars (mt_stats d2) + 1\<rparr>,
              mt_col := mt_col d2 + (if dw then 2 else 1)\<rparr>)"

definition alpha_cell :: "minitel_decoder \<Rightarrow> byte \<Rightarrow> minitel_cell" where
  "alpha_cell d glyph =
     \<lparr>mc_kind = MT_KIND_ALPHA, mc_glyph = glyph, mc_fg = at_fg (mt_a d), mc_bg = MT_BLACK,
      mc_flags = (if at_flash (mt_a d) then MT_F_FLASH else 0)
        OR (if at_invert (mt_a d) then MT_F_INVERT else 0),
      mc_size = at_size (mt_a d)\<rparr>"

definition mosaic_cell :: "minitel_decoder \<Rightarrow> byte \<Rightarrow> minitel_decoder \<times> minitel_cell" where
  "mosaic_cell d bits =
     (if \<not> at_s_pending_other (mt_a d) then mt_a_update (\<lambda>a. a\<lparr>at_s_pending := False\<rparr>) d else d,
      \<lparr>mc_kind = MT_KIND_MOSAIC, mc_glyph = bits AND 0x3F, mc_fg = at_fg (mt_a d),
       mc_bg = at_s_bg (mt_a d),
       mc_flags = (if at_flash (mt_a d) then MT_F_FLASH else 0)
         OR (if at_separated (mt_a d) then MT_F_SEPARATED else 0),
       mc_size = 0\<rparr>)"

definition put_g1 :: "minitel_decoder \<Rightarrow> byte \<Rightarrow> minitel_decoder" where
  "put_g1 d b =
     (let hole = (0x40 \<le> b \<and> b \<le> 0x5E);
          bits = (if b = 0x5F then 0x3F else if hole then 0
                  else (b AND 0x1F) OR drop_bit 1 (b AND 0x40));
          (d1, c) = mosaic_cell (if hole then stat_unrepresent d else d) bits
      in (put_cell d1 c)\<lparr>mt_last_kind := LAST_G1, mt_last_code := b\<rparr>)"

definition put_space :: "minitel_decoder \<Rightarrow> minitel_decoder" where
  "put_space d =
     (let a = mt_a d;
          d' =
            (if at_g1 a then case mosaic_cell d 0 of (d1, c) \<Rightarrow> put_cell d1 c
             else if at_s_pending a then
               put_cell (d\<lparr>mt_a := a\<lparr>at_s_pending := False, at_s_pending_other := False\<rparr>\<rparr>)
                 ((alpha_cell d 0x20)\<lparr>mc_kind := MT_KIND_DELIM, mc_bg := at_s_bg a,
                    mc_flags := (if at_invert a then MT_F_INVERT else 0)
                      OR (if at_s_mask a then MT_F_ZMASK else 0)
                      OR (if at_s_ul a then MT_F_ZUNDER else 0)\<rparr>)
             else
               let c = alpha_cell d 0x20
               in put_cell d (c\<lparr>mc_flags := mc_flags c AND NOT MT_F_FLASH\<rparr>))
      in d'\<lparr>mt_last_kind := LAST_G0, mt_last_code := 0x20\<rparr>)"

definition put_glyph :: "minitel_decoder \<Rightarrow> byte \<Rightarrow> minitel_decoder" where
  "put_glyph d glyph =
     (put_cell d (alpha_cell d glyph))\<lparr>mt_last_kind := LAST_GLYPH, mt_last_code := glyph\<rparr>"

definition put_g0 :: "minitel_decoder \<Rightarrow> byte \<Rightarrow> minitel_decoder" where
  "put_g0 d b =
     (if b = 0x20 then put_space d
      else (put_cell d (alpha_cell d b))\<lparr>mt_last_kind := LAST_G0, mt_last_code := b\<rparr>)"

definition put_del :: "minitel_decoder \<Rightarrow> minitel_decoder" where
  "put_del d =
     (if at_g1 (mt_a d) then put_g1 d 0x5F
      else (put_cell d (alpha_cell d MT_G_FULLBLOCK))\<lparr>mt_last_kind := LAST_GLYPH, mt_last_code := MT_G_FULLBLOCK\<rparr>)"

definition put_printable :: "minitel_decoder \<Rightarrow> byte \<Rightarrow> minitel_decoder" where
  "put_printable d b =
     (if b = 0x7F then put_del d
      else if b = 0x20 then put_space d
      else if at_g1 (mt_a d) then put_g1 d b else put_g0 d b)"

subsection \<open>The G2 set\<close>

definition g2_table :: "(byte \<times> byte) list" where
  "g2_table =
     [(0x23, 0x82), (0x24, 0x24), (0x26, 0x23), (0x27, 0x83), (0x2C, 0x84), (0x2D, 0x85),
      (0x2E, 0x86), (0x2F, 0x87), (0x30, 0x88), (0x31, 0x89), (0x38, 0x8A), (0x3C, 0x8B),
      (0x3D, 0x8C), (0x3E, 0x8D), (0x6A, 0x8E), (0x7A, 0x8F), (0x7B, 0x90)]"

definition g2_glyph :: "byte \<Rightarrow> byte option" where
  "g2_glyph b = map_of g2_table b"

definition is_accent :: "byte \<Rightarrow> bool" where
  "is_accent b \<longleftrightarrow> b = 0x41 \<or> b = 0x42 \<or> b = 0x43 \<or> b = 0x48 \<or> b = 0x4B"

definition compose_table :: "((byte \<times> byte) \<times> byte) list" where
  "compose_table =
     [((0x41, 0x61), 0x91), ((0x41, 0x65), 0x92), ((0x41, 0x75), 0x93),
      ((0x42, 0x65), 0x94),
      ((0x43, 0x61), 0x95), ((0x43, 0x65), 0x96), ((0x43, 0x69), 0x97), ((0x43, 0x6F), 0x98),
      ((0x43, 0x75), 0x99),
      ((0x48, 0x61), 0x9A), ((0x48, 0x65), 0x9B), ((0x48, 0x69), 0x9C), ((0x48, 0x6F), 0x9D),
      ((0x48, 0x75), 0x9E),
      ((0x4B, 0x63), 0x9F)]"

definition compose :: "byte \<Rightarrow> byte \<Rightarrow> byte option" where
  "compose acc letter = map_of compose_table (acc, letter)"

subsection \<open>Attributes\<close>

definition serial_def :: "minitel_decoder \<Rightarrow> bool \<Rightarrow> minitel_decoder" where
  "serial_def d oth =
     mt_a_update (\<lambda>a. a\<lparr>at_s_pending := True,
       at_s_pending_other := (if oth then True else at_s_pending_other a)\<rparr>) d"

definition do_attribute :: "minitel_decoder \<Rightarrow> byte \<Rightarrow> minitel_decoder" where
  "do_attribute d x =
     (let g1 = at_g1 (mt_a d) in
      if 0x40 \<le> x \<and> x \<le> 0x47 then mt_a_update (\<lambda>a. a\<lparr>at_fg := x - 0x40\<rparr>) d
      else if 0x50 \<le> x \<and> x \<le> 0x57 then
        serial_def (mt_a_update (\<lambda>a. a\<lparr>at_s_bg := x - 0x50\<rparr>) d) False
      else if x = 0x48 then mt_a_update (\<lambda>a. a\<lparr>at_flash := True\<rparr>) d
      else if x = 0x49 then mt_a_update (\<lambda>a. a\<lparr>at_flash := False\<rparr>) d
      else if x = 0x4C then (if \<not> g1 then mt_a_update (\<lambda>a. a\<lparr>at_size := 0\<rparr>) d else d)
      else if x = 0x4D then
        (if g1 \<or> mt_in_row0 d \<or> mt_row d < 2 then stat_filtered d
         else mt_a_update (\<lambda>a. a\<lparr>at_size := MT_S_DH\<rparr>) d)
      else if x = 0x4E then
        (if g1 \<or> mt_in_row0 d then stat_filtered d
         else mt_a_update (\<lambda>a. a\<lparr>at_size := MT_S_DW\<rparr>) d)
      else if x = 0x4F then
        (if g1 \<or> mt_in_row0 d \<or> mt_row d < 2 then stat_filtered d
         else mt_a_update (\<lambda>a. a\<lparr>at_size := MT_S_DW OR MT_S_DH\<rparr>) d)
      else if x = 0x58 then serial_def (mt_a_update (\<lambda>a. a\<lparr>at_s_mask := True\<rparr>) d) True
      else if x = 0x5F then serial_def (mt_a_update (\<lambda>a. a\<lparr>at_s_mask := False\<rparr>) d) True
      else if x = 0x59 then
        (if g1 then mt_a_update (\<lambda>a. a\<lparr>at_separated := False\<rparr>) d
         else serial_def (mt_a_update (\<lambda>a. a\<lparr>at_s_ul := False\<rparr>) d) True)
      else if x = 0x5A then
        (if g1 then mt_a_update (\<lambda>a. a\<lparr>at_separated := True\<rparr>) d
         else serial_def (mt_a_update (\<lambda>a. a\<lparr>at_s_ul := True\<rparr>) d) True)
      else if x = 0x5C then (if \<not> g1 then mt_a_update (\<lambda>a. a\<lparr>at_invert := False\<rparr>) d else d)
      else if x = 0x5D then
        (if g1 then stat_filtered d else mt_a_update (\<lambda>a. a\<lparr>at_invert := True\<rparr>) d)
      else stat_filtered d)"

subsection \<open>C0\<close>

text \<open>CAN: the rest of the row becomes spaces of the current set.\<close>

definition do_can :: "minitel_decoder \<Rightarrow> minitel_decoder" where
  "do_can d =
     (let col = (if mt_col d > 40 then 40 else mt_col d);
          r = (if mt_in_row0 d then 0 else mt_row d);
          a = mt_a d;
          c = alpha_cell d 0x20;
          t = (if at_g1 a then
                 \<lparr>mc_kind = MT_KIND_MOSAIC, mc_glyph = 0, mc_fg = at_fg a, mc_bg = at_s_bg a,
                  mc_flags = (if at_separated a then MT_F_SEPARATED else 0), mc_size = 0\<rparr>
               else c\<lparr>mc_size := 0, mc_flags := mc_flags c AND NOT MT_F_FLASH\<rparr>)
      in d\<lparr>mt_mem := (mt_mem d)(r := mem_fill (mt_mem d r) col 41 t), mt_ever := True\<rparr>)"

definition do_c0 :: "minitel_decoder \<Rightarrow> byte \<Rightarrow> minitel_decoder" where
  "do_c0 d b =
     (if b = 0x07 then mt_stats_update (\<lambda>s. s\<lparr>ms_bells := ms_bells s + 1\<rparr>) d
      else if b = 0x08 then do_bs d
      else if b = 0x09 then do_ht d
      else if b = 0x0A then do_lf d
      else if b = 0x0B then do_vt d
      else if b = 0x0C then
        (separator_reset ((leave_row0 (d\<lparr>mt_mem := clear_rows (mt_mem d) 1 24\<rparr>))
           \<lparr>mt_row := 1, mt_col := 1\<rparr>))\<lparr>mt_ever := True\<rparr>
      else if b = 0x0D then (settle_col d)\<lparr>mt_col := 1\<rparr>
      else if b = 0x0E then
        mt_a_update (\<lambda>a. a\<lparr>at_g1 := True, at_size := 0, at_invert := False, at_s_ul := False\<rparr>) d
      else if b = 0x0F then mt_a_update (\<lambda>a. a\<lparr>at_g1 := False, at_separated := False\<rparr>) d
      else if b = 0x11 then d\<lparr>mt_cursor_on := True\<rparr>
      else if b = 0x12 then d\<lparr>mt_st := ST_REP\<rparr>
      else if b = 0x13 then d\<lparr>mt_st := ST_SKIP1\<rparr>
      else if b = 0x14 then d\<lparr>mt_cursor_on := False\<rparr>
      else if b = 0x18 then do_can d
      else if b = 0x19 then (if at_g1 (mt_a d) then d else d\<lparr>mt_st := ST_SS2\<rparr>)
      else if b = 0x1A then
        (let d1 = mt_stats_update (\<lambda>s. s\<lparr>ms_errors := ms_errors s + 1\<rparr>) d
         in if at_g1 (mt_a d) then put_g1 d1 0x5F else put_glyph d1 MT_G_FULLBLOCK)
      else if b = 0x1B then d\<lparr>mt_st := ST_ESC\<rparr>
      else if b = 0x1D then d\<lparr>mt_st := ST_SKIP1\<rparr>
      else if b = 0x1E then separator_reset ((leave_row0 d)\<lparr>mt_row := 1, mt_col := 1\<rparr>)
      else if b = 0x1F then d\<lparr>mt_st := ST_US1\<rparr>
      else d)"

definition do_us :: "minitel_decoder \<Rightarrow> byte \<Rightarrow> byte \<Rightarrow> minitel_decoder" where
  "do_us d r c =
     (if r < 0x40 \<or> c < 0x40 then stat_us_ignored d
      else
        let row = uint r - 0x40; col = uint c - 0x40 in
        if row > 24 \<or> col < 1 \<or> col > 40 then stat_us_ignored d
        else
          let d1 =
            (if row = 0 then
               (if \<not> mt_in_row0 d
                then d\<lparr>mt_sv_row := mt_row d,
                       mt_sv_col := (if mt_col d > 40 then 40 else mt_col d),
                       mt_sv_a := mt_a d\<rparr>
                else d)\<lparr>mt_in_row0 := True\<rparr>
             else leave_row0 d)
          in separator_reset (d1\<lparr>mt_row := row, mt_col := col\<rparr>))"

subsection \<open>CSI\<close>

definition csi_arg :: "minitel_decoder \<Rightarrow> int \<Rightarrow> int \<Rightarrow> int" where
  "csi_arg d i dflt =
     (if i \<ge> mt_csi_np d \<or> mt_csi_p d ! nat i < 0 then dflt else mt_csi_p d ! nat i)"

definition erase_display :: "minitel_decoder \<Rightarrow> int \<Rightarrow> minitel_decoder" where
  "erase_display d p0 =
     (let m = mt_mem d; row = mt_row d; col = mt_col d in
      (if p0 = 0 then
         (let m1 = clear_row m row col 40
          in d\<lparr>mt_mem := (if row < 24 then clear_rows m1 (row + 1) 24 else m1)\<rparr>)
       else if p0 = 1 then
         d\<lparr>mt_mem := clear_row (if row > 1 then clear_rows m 1 (row - 1) else m) row 1 col\<rparr>
       else if p0 = 2 then d\<lparr>mt_mem := clear_rows m 1 24\<rparr>
       else stat_filtered d)\<lparr>mt_ever := True\<rparr>)"

definition erase_line :: "minitel_decoder \<Rightarrow> int \<Rightarrow> minitel_decoder" where
  "erase_line d p0 =
     (let m = mt_mem d; row = mt_row d; col = mt_col d in
      (if p0 = 0 then d\<lparr>mt_mem := clear_row m row col 40\<rparr>
       else if p0 = 1 then d\<lparr>mt_mem := clear_row m row 1 col\<rparr>
       else if p0 = 2 then d\<lparr>mt_mem := clear_row m row 1 40\<rparr>
       else stat_filtered d)\<lparr>mt_ever := True\<rparr>)"

definition delete_chars :: "minitel_decoder \<Rightarrow> int \<Rightarrow> minitel_decoder" where
  "delete_chars d n0 =
     (let row = mt_row d; col = mt_col d;
          n = (if n0 > 40 - col + 1 then 40 - col + 1 else n0);
          m = (mt_mem d)(row := mem_move (mt_mem d row) col (col + n) (40 - col + 1 - n))
      in d\<lparr>mt_mem := clear_row m row (40 - n + 1) 40\<rparr>)"

definition insert_chars :: "minitel_decoder \<Rightarrow> int \<Rightarrow> minitel_decoder" where
  "insert_chars d n0 =
     (let row = mt_row d; col = mt_col d;
          n = (if n0 > 40 - col + 1 then 40 - col + 1 else n0);
          m = (mt_mem d)(row := mem_move (mt_mem d row) (col + n) col (40 - col + 1 - n))
      in d\<lparr>mt_mem := clear_row m row col (col + n - 1)\<rparr>)"

definition do_csi :: "minitel_decoder \<Rightarrow> byte \<Rightarrow> minitel_decoder" where
  "do_csi d0 fin =
     (if mt_in_row0 d0 \<or> mt_csi_bad d0 \<or> mt_csi_priv d0 then stat_filtered d0
      else
        let d = settle_col d0;
            n = (if csi_arg d 0 1 < 1 then 1 else csi_arg d 0 1);
            p0 = csi_arg d 0 0;
            row = mt_row d; col = mt_col d
        in if fin = 0x41 then d\<lparr>mt_row := (if row - n < 1 then 1 else row - n)\<rparr>
           else if fin = 0x42 then d\<lparr>mt_row := (if row + n > 24 then 24 else row + n)\<rparr>
           else if fin = 0x43 then d\<lparr>mt_col := (if col + n > 40 then 40 else col + n)\<rparr>
           else if fin = 0x44 then d\<lparr>mt_col := (if col - n < 1 then 1 else col - n)\<rparr>
           else if fin = 0x48 then
             (let r = csi_arg d 0 1; c = csi_arg d 1 1
              in if r < 1 \<or> r > 24 \<or> c < 1 \<or> c > 40 then stat_filtered d
                 else d\<lparr>mt_row := r, mt_col := c\<rparr>)
           else if fin = 0x4A then erase_display d p0
           else if fin = 0x4B then erase_line d p0
           else if fin = 0x50 then delete_chars d n
           else if fin = 0x40 then insert_chars d n
           else if fin = 0x4D then
             d\<lparr>mt_mem := scroll_up (mt_mem d) row 24 (nat (if n > 25 - row then 25 - row else n))\<rparr>
           else if fin = 0x4C then
             d\<lparr>mt_mem := scroll_down (mt_mem d) row 24 (nat (if n > 25 - row then 25 - row else n))\<rparr>
           else if fin = 0x68 then (if p0 = 4 then d\<lparr>mt_insert := True\<rparr> else stat_filtered d)
           else if fin = 0x6C then (if p0 = 4 then d\<lparr>mt_insert := False\<rparr> else stat_filtered d)
           else stat_filtered d)"

definition do_pro :: "minitel_decoder \<Rightarrow> minitel_decoder" where
  "do_pro d0 =
     (let d = stat_protocol d0 in
      if mt_pro_n d = 1 then
        (if mt_pro d ! 0 = 0x7B then send_reply d [0x01, 0x4D, 0x47, 0x53, 0x04]
         else if mt_pro d ! 0 = 0x7F then
           d\<lparr>mt_a := attr_default, mt_cursor_on := False, mt_scroll := False, mt_insert := False\<rparr>
         else d)
      else if mt_pro_n d = 2 \<and> mt_pro d ! 1 = 0x43 then
        (if mt_pro d ! 0 = 0x69 then d\<lparr>mt_scroll := True\<rparr>
         else if mt_pro d ! 0 = 0x6A then d\<lparr>mt_scroll := False\<rparr>
         else d)
      else d)"

subsection \<open>The byte loop, one definition per state\<close>

definition enter_transparency :: "minitel_decoder \<Rightarrow> minitel_decoder" where
  "enter_transparency d = d\<lparr>mt_st := ST_TRANSP\<rparr>"

definition is_transp :: "mt_state \<Rightarrow> bool" where
  "is_transp s \<longleftrightarrow> s \<in> {ST_TRANSP, ST_TRANSP_ESC, ST_TRANSP_ESC25, ST_TRANSP_ESC2F}"

definition feed_transp :: "minitel_decoder \<Rightarrow> byte \<Rightarrow> minitel_decoder" where
  "feed_transp d b =
     (if mt_st d = ST_TRANSP then
        stat_filtered (if b = 0x1B then d\<lparr>mt_st := ST_TRANSP_ESC\<rparr> else d)
      else if mt_st d = ST_TRANSP_ESC then
        (if b = 0x25 then d\<lparr>mt_st := ST_TRANSP_ESC25\<rparr>
         else if b = 0x2F then d\<lparr>mt_st := ST_TRANSP_ESC2F\<rparr>
         else if b \<noteq> 0x1B then d\<lparr>mt_st := ST_TRANSP\<rparr>
         else d)
      else if mt_st d = ST_TRANSP_ESC25 then
        (if b = 0x40 then d\<lparr>mt_st := ST_GROUND\<rparr>
         else d\<lparr>mt_st := (if b = 0x1B then ST_TRANSP_ESC else ST_TRANSP)\<rparr>)
      else
        (if b = 0x3F then d\<lparr>mt_st := ST_GROUND\<rparr>
         else d\<lparr>mt_st := (if b = 0x1B then ST_TRANSP_ESC else ST_TRANSP)\<rparr>))"

text \<open>The states below are entered with \<open>st\<close> already back at ground where the code does that.\<close>

definition feed_esc :: "minitel_decoder \<Rightarrow> byte \<Rightarrow> minitel_decoder" where
  "feed_esc d0 b =
     (let d = d0\<lparr>mt_st := ST_GROUND\<rparr> in
      if 0x40 \<le> b \<and> b \<le> 0x5F \<and> b \<noteq> 0x5B then do_attribute d b
      else if b = 0x5B then
        d\<lparr>mt_st := ST_CSI, mt_csi_np := 0, mt_csi_bad := False, mt_csi_priv := False,
          mt_csi_p := [- 1, - 1, - 1, - 1]\<rparr>
      else if b = 0x25 then enter_transparency d
      else if 0x20 \<le> b \<and> b \<le> 0x2F then
        d\<lparr>mt_st := ST_ISO, mt_iso_n := 1, mt_iso := (mt_iso d)[0 := b]\<rparr>
      else if b = 0x35 \<or> b = 0x36 \<or> b = 0x37 then d\<lparr>mt_st := ST_SKIP1\<rparr>
      else if b = 0x39 \<or> b = 0x3A \<or> b = 0x3B then
        d\<lparr>mt_st := ST_PRO, mt_pro_n := 0, mt_pro_left := uint b - 0x38\<rparr>
      else if b = 0x61 then
        stat_protocol (send_reply d
          [0x1F, word_of_int (0x40 + (if mt_in_row0 d then 0 else mt_row d)),
           word_of_int (0x40 + (if mt_col d > 40 then 40 else mt_col d))])
      else stat_filtered d)"

definition feed_iso :: "minitel_decoder \<Rightarrow> byte \<Rightarrow> minitel_decoder" where
  "feed_iso d b =
     (if 0x20 \<le> b \<and> b \<le> 0x2F then
        d\<lparr>mt_iso := (if mt_iso_n d < 4 then (mt_iso d)[nat (mt_iso_n d) := b] else mt_iso d),
          mt_iso_n := wrap32 (mt_iso_n d + 1)\<rparr>
      else
        let d = d\<lparr>mt_st := ST_GROUND\<rparr>;
            full = (mt_iso_n d = 2 \<and> mt_iso d ! 0 = 0x23 \<and> mt_iso d ! 1 = 0x20)
        in if full \<and> b = 0x58 then d\<lparr>mt_screen_mask := True\<rparr>
           else if full \<and> b = 0x5F then d\<lparr>mt_screen_mask := False\<rparr>
           else stat_filtered d)"

definition feed_csi :: "minitel_decoder \<Rightarrow> byte \<Rightarrow> minitel_decoder" where
  "feed_csi d b =
     (if 0x30 \<le> b \<and> b \<le> 0x39 then
        let np = (if mt_csi_np d = 0 then 1 else mt_csi_np d);
            v = mt_csi_p d ! nat (np - 1);
            v1 = (if v < 0 then 0 else v);
            v2 = (if v1 < 1000 then v1 * 10 + (uint b - 0x30) else v1)
        in d\<lparr>mt_csi_np := np, mt_csi_p := (mt_csi_p d)[nat (np - 1) := v2]\<rparr>
      else if b = 0x3B then
        let np = (if mt_csi_np d = 0 then 1 else mt_csi_np d)
        in if np < 4 then d\<lparr>mt_csi_np := np + 1\<rparr> else d\<lparr>mt_csi_np := np, mt_csi_bad := True\<rparr>
      else if 0x3C \<le> b \<and> b \<le> 0x3F then d\<lparr>mt_csi_priv := True\<rparr>
      else if b = 0x3A then d\<lparr>mt_csi_bad := True\<rparr>
      else if 0x20 \<le> b \<and> b \<le> 0x2F then d\<lparr>mt_csi_bad := True\<rparr>
      else do_csi (d\<lparr>mt_st := ST_GROUND\<rparr>) b)"

definition rep_once :: "minitel_decoder \<Rightarrow> minitel_decoder" where
  "rep_once d =
     (case mt_last_kind d of
        LAST_G0 \<Rightarrow>
          (if mt_last_code d = 0x20 then put_space d else put_cell d (alpha_cell d (mt_last_code d)))
      | LAST_G1 \<Rightarrow> put_g1 d (mt_last_code d)
      | LAST_GLYPH \<Rightarrow> put_glyph d (mt_last_code d)
      | LAST_NONE \<Rightarrow> d)"

fun rep_loop :: "nat \<Rightarrow> minitel_decoder \<Rightarrow> minitel_decoder" where
  "rep_loop 0 d = d"
| "rep_loop (Suc n) d = rep_loop n (rep_once d)"

definition feed_rep :: "minitel_decoder \<Rightarrow> byte \<Rightarrow> minitel_decoder" where
  "feed_rep d0 b =
     (let d = d0\<lparr>mt_st := ST_GROUND\<rparr>
      in if b < 0x40 then stat_filtered d else rep_loop (unat (b AND 0x3F)) d)"

definition feed_ss2 :: "minitel_decoder \<Rightarrow> byte \<Rightarrow> minitel_decoder" where
  "feed_ss2 d0 b =
     (let d = d0\<lparr>mt_st := ST_GROUND\<rparr>
      in if is_accent b then d\<lparr>mt_acc := b, mt_st := ST_SS2_ACC\<rparr>
         else case g2_glyph b of
                Some g \<Rightarrow> put_glyph d g
              | None \<Rightarrow> put_glyph (stat_unrepresent d) MT_G_LOWBAR)"

definition feed_ss2_acc :: "minitel_decoder \<Rightarrow> byte \<Rightarrow> minitel_decoder" where
  "feed_ss2_acc d0 b =
     (let d = d0\<lparr>mt_st := ST_GROUND\<rparr>
      in case compose (mt_acc d) b of
           Some g \<Rightarrow> put_glyph d g
         | None \<Rightarrow> put_printable d b)"

definition feed_pro :: "minitel_decoder \<Rightarrow> byte \<Rightarrow> minitel_decoder" where
  "feed_pro d b =
     (let d1 = d\<lparr>mt_pro := (if mt_pro_n d < 4 then (mt_pro d)[nat (mt_pro_n d) := b] else mt_pro d),
                 mt_pro_n := mt_pro_n d + 1, mt_pro_left := mt_pro_left d - 1\<rparr>
      in if mt_pro_left d1 \<le> 0 then do_pro (d1\<lparr>mt_st := ST_GROUND\<rparr>) else d1)"

definition feed_state :: "minitel_decoder \<Rightarrow> byte \<Rightarrow> minitel_decoder" where
  "feed_state d b =
     (case mt_st d of
        ST_GROUND \<Rightarrow> if b < 0x20 then do_c0 d b else put_printable d b
      | ST_ESC \<Rightarrow> feed_esc d b
      | ST_ISO \<Rightarrow> feed_iso d b
      | ST_CSI \<Rightarrow> feed_csi d b
      | ST_US1 \<Rightarrow> d\<lparr>mt_us_r := b, mt_st := ST_US2\<rparr>
      | ST_US2 \<Rightarrow> do_us (d\<lparr>mt_st := ST_GROUND\<rparr>) (mt_us_r d) b
      | ST_REP \<Rightarrow> feed_rep d b
      | ST_SS2 \<Rightarrow> feed_ss2 d b
      | ST_SS2_ACC \<Rightarrow> feed_ss2_acc d b
      | ST_SKIP1 \<Rightarrow> stat_filtered (d\<lparr>mt_st := ST_GROUND\<rparr>)
      | ST_PRO \<Rightarrow> feed_pro d b
      | _ \<Rightarrow> d\<lparr>mt_st := ST_GROUND\<rparr>)"

definition resync :: "minitel_decoder \<Rightarrow> byte \<Rightarrow> minitel_decoder" where
  "resync d b =
     (if b < 0x20 \<and> mt_st d \<noteq> ST_GROUND
      then mt_stats_update (\<lambda>s. s\<lparr>ms_resync := ms_resync s + 1\<rparr>) (d\<lparr>mt_st := ST_GROUND\<rparr>)
      else d)"

definition feed_byte :: "minitel_decoder \<Rightarrow> byte \<Rightarrow> minitel_decoder" where
  "feed_byte d b =
     (if is_transp (mt_st d) then feed_transp d b
      else if b = 0 then d
      else feed_state (resync d b) b)"

subsection \<open>Interface\<close>

definition minitel_calloc :: minitel_decoder where
  "minitel_calloc =
     (let a = \<lparr>at_fg = 0, at_flash = False, at_invert = False, at_size = 0, at_separated = False,
               at_g1 = False, at_s_bg = 0, at_s_mask = False, at_s_ul = False,
               at_s_pending = False, at_s_pending_other = False\<rparr>;
          c = \<lparr>mc_kind = MT_KIND_ALPHA, mc_glyph = 0, mc_fg = 0, mc_bg = 0, mc_flags = 0, mc_size = 0\<rparr>
      in \<lparr>mt_mem = (\<lambda>_ _. c), mt_row = 0, mt_col = 0, mt_a = a, mt_in_row0 = False,
          mt_sv_row = 0, mt_sv_col = 0, mt_sv_a = a, mt_cursor_on = False, mt_screen_mask = False,
          mt_scroll = False, mt_insert = False, mt_st = ST_GROUND, mt_us_r = 0, mt_acc = 0,
          mt_iso_n = 0, mt_iso = [0, 0, 0, 0], mt_csi_p = [0, 0, 0, 0], mt_csi_np = 0,
          mt_csi_bad = False, mt_csi_priv = False, mt_pro_left = 0, mt_pro_n = 0,
          mt_pro = [0, 0, 0, 0], mt_last_kind = LAST_NONE, mt_last_code = 0,
          mt_status_letter = 0, mt_ever = False, mt_reply = False, mt_sent = [],
          mt_stats = \<lparr>ms_bytes_in = 0, ms_chars = 0, ms_filtered = 0, ms_resync = 0, ms_errors = 0,
            ms_row0 = 0, ms_protocol = 0, ms_unrepresent = 0, ms_bit8 = 0, ms_bells = 0,
            ms_us_ignored = 0\<rparr>\<rparr>)"

definition minitel_reset :: "minitel_decoder \<Rightarrow> minitel_decoder" where
  "minitel_reset d0 =
     (let d = minitel_calloc\<lparr>mt_reply := mt_reply d0, mt_status_letter := mt_status_letter d0,
                mt_sent := mt_sent d0,
                mt_mem := (\<lambda>r c. if 0 \<le> r \<and> r < 25 \<and> 0 \<le> c \<and> c < 42
                            then mt_mem minitel_calloc r c else mt_mem d0 r c)\<rparr>
      in d\<lparr>mt_mem := clear_rows (mt_mem d) 0 24, mt_a := attr_default, mt_row := 1, mt_col := 1,
           mt_cursor_on := False, mt_screen_mask := True, mt_scroll := False, mt_st := ST_GROUND\<rparr>)"

definition minitel_create :: minitel_decoder where
  "minitel_create = minitel_reset minitel_calloc"

definition minitel_feed_byte :: "minitel_decoder \<Rightarrow> byte \<Rightarrow> minitel_decoder" where
  "minitel_feed_byte d0 b =
     (let d = mt_stats_update (\<lambda>s. s\<lparr>ms_bytes_in := ms_bytes_in s + 1\<rparr>) d0
      in if b AND 0x80 \<noteq> 0
         then feed_byte (mt_stats_update (\<lambda>s. s\<lparr>ms_bit8 := ms_bit8 s + 1\<rparr>) d) (b AND 0x7F)
         else feed_byte d b)"

definition minitel_feed :: "minitel_decoder \<Rightarrow> byte list \<Rightarrow> minitel_decoder" where
  "minitel_feed d buf = foldl minitel_feed_byte d buf"

definition minitel_set_reply :: "minitel_decoder \<Rightarrow> bool \<Rightarrow> minitel_decoder" where
  "minitel_set_reply d fn = d\<lparr>mt_reply := fn\<rparr>"

definition minitel_set_status_letter :: "minitel_decoder \<Rightarrow> byte \<Rightarrow> minitel_decoder" where
  "minitel_set_status_letter d letter = d\<lparr>mt_status_letter := letter\<rparr>"

definition minitel_cell_at :: "minitel_decoder \<Rightarrow> int \<Rightarrow> int \<Rightarrow> minitel_cell" where
  "minitel_cell_at d row col =
     (let row = (if row < 0 then 0 else row); row = (if row > 24 then 24 else row);
          col = (if col < 1 then 1 else col); col = (if col > 40 then 40 else col)
      in mt_mem d row col)"

definition minitel_cursor_row :: "minitel_decoder \<Rightarrow> int" where
  "minitel_cursor_row d = (if mt_in_row0 d then 0 else mt_row d)"

definition minitel_cursor_col :: "minitel_decoder \<Rightarrow> int" where
  "minitel_cursor_col d = (if mt_col d > 40 then 40 else mt_col d)"

end
