(* ===== verification/MinitelInv.thy ===== *)
theory MinitelInv
  imports Minitel
begin

section \<open>Minitel: the invariant\<close>

text \<open>
  The invariant of the decoder and the frame of its page memory: one lemma per operation, and
  the interpretation of the stream machine on \<open>minitel_feed\<close>'s step.
\<close>

subsection \<open>The invariant and the frame\<close>

text \<open>
  \<open>mt_ok m0 d\<close>: the cursor is on the page, the counters that index the parser's arrays are
  inside them, every cell of the page is one the renderer knows, and the memory outside
  \<open>mem[25][42]\<close> is still \<open>m0\<close>.
\<close>

definition in_page :: "int \<Rightarrow> int \<Rightarrow> bool" where
  "in_page r c \<longleftrightarrow> 0 \<le> r \<and> r \<le> 24 \<and> 0 \<le> c \<and> c \<le> 41"

definition glyph_ok :: "byte \<Rightarrow> bool" where
  "glyph_ok g \<longleftrightarrow> (0x20 \<le> g \<and> g \<le> 0x7E) \<or> (0x80 \<le> g \<and> g < MT_G_END)"

definition cell_ok :: "minitel_cell \<Rightarrow> bool" where
  "cell_ok c \<longleftrightarrow> mc_fg c \<le> 7 \<and> mc_bg c \<le> 7 \<and> mc_size c \<le> 15 \<and>
     (if mc_kind c = MT_KIND_MOSAIC then mc_glyph c \<le> 0x3F else glyph_ok (mc_glyph c))"

definition mem_ok :: "page \<Rightarrow> page \<Rightarrow> bool" where
  "mem_ok m0 m \<longleftrightarrow>
     (\<forall>r c. (0 \<le> r \<and> r \<le> 24 \<and> 1 \<le> c \<and> c \<le> 40 \<longrightarrow> cell_ok (m r c)) \<and>
            (\<not> in_page r c \<longrightarrow> m r c = m0 r c))"

definition attr_ok :: "attr \<Rightarrow> bool" where
  "attr_ok a \<longleftrightarrow> at_fg a \<le> 7 \<and> at_s_bg a \<le> 7 \<and> at_size a \<le> 3"

definition pos_ok :: "minitel_decoder \<Rightarrow> bool" where
  "pos_ok d \<longleftrightarrow>
     (if mt_in_row0 d
      then mt_row d = 0 \<and> 1 \<le> mt_col d \<and> mt_col d \<le> 40 \<and>
           1 \<le> mt_sv_row d \<and> mt_sv_row d \<le> 24 \<and> 1 \<le> mt_sv_col d \<and> mt_sv_col d \<le> 40
      else 1 \<le> mt_row d \<and> mt_row d \<le> 24 \<and> 1 \<le> mt_col d \<and> mt_col d \<le> 41)"

definition last_ok :: "minitel_decoder \<Rightarrow> bool" where
  "last_ok d \<longleftrightarrow>
     (mt_last_kind d = LAST_G0 \<longrightarrow> 0x20 \<le> mt_last_code d \<and> mt_last_code d \<le> 0x7E) \<and>
     (mt_last_kind d = LAST_GLYPH \<longrightarrow> glyph_ok (mt_last_code d))"

definition parse_ok :: "minitel_decoder \<Rightarrow> bool" where
  "parse_ok d \<longleftrightarrow>
     0 \<le> mt_iso_n d \<and> length (mt_iso d) = 4 \<and>
     0 \<le> mt_csi_np d \<and> mt_csi_np d \<le> 4 \<and> length (mt_csi_p d) = 4 \<and>
     (\<forall>p\<in>set (mt_csi_p d). p \<le> 9999) \<and>
     length (mt_pro d) = 4 \<and> 0 \<le> mt_pro_n d \<and> mt_pro_n d \<le> 3 \<and>
     (mt_st d = ST_PRO \<longrightarrow> 1 \<le> mt_pro_left d \<and> mt_pro_n d + mt_pro_left d \<le> 3)"

definition mt_ok :: "page \<Rightarrow> minitel_decoder \<Rightarrow> bool" where
  "mt_ok m0 d \<longleftrightarrow> mem_ok m0 (mt_mem d) \<and> attr_ok (mt_a d) \<and> attr_ok (mt_sv_a d) \<and>
     pos_ok d \<and> last_ok d \<and> parse_ok d"

lemmas mt_ok_defs = mt_ok_def pos_ok_def last_ok_def parse_ok_def

named_theorems mt_intros \<open>an operation keeps \<open>mt_ok\<close>\<close>

text \<open>Memory operations.\<close>

lemma mem_ok_set:
  "mem_ok m0 m \<Longrightarrow> 0 \<le> r \<Longrightarrow> r \<le> 24 \<Longrightarrow> 1 \<le> c \<Longrightarrow> c \<le> 40 \<Longrightarrow> cell_ok v \<Longrightarrow>
    mem_ok m0 (set_cell m r c v)"
  by (auto simp: mem_ok_def set_cell_def in_page_def)

lemma mem_ok_fill:
  "mem_ok m0 m \<Longrightarrow> 0 \<le> r \<Longrightarrow> r \<le> 24 \<Longrightarrow> 0 \<le> lo \<Longrightarrow> hi \<le> 42 \<Longrightarrow> cell_ok v \<Longrightarrow>
    mem_ok m0 (m(r := mem_fill (m r) lo hi v))"
  by (auto simp: mem_ok_def mem_fill_def in_page_def)

lemma mem_ok_copy:
  "mem_ok m0 m \<Longrightarrow> 0 \<le> r \<Longrightarrow> r \<le> 24 \<Longrightarrow> 0 \<le> s \<Longrightarrow> s \<le> 24 \<Longrightarrow> mem_ok m0 (copy_row m r s)"
  by (auto simp: mem_ok_def copy_row_def in_page_def)

lemma mem_ok_move:
  "mem_ok m0 m \<Longrightarrow> 0 \<le> r \<Longrightarrow> r \<le> 24 \<Longrightarrow> 1 \<le> dst \<Longrightarrow> dst + n \<le> 41 \<Longrightarrow> 1 \<le> src \<Longrightarrow>
    src + n \<le> 41 \<Longrightarrow> mem_ok m0 (m(r := mem_move (m r) dst src n))"
  by (auto simp: mem_ok_def mem_move_def in_page_def)

lemma cell_ok_black: "cell_ok black_mosaic"
  by (simp add: cell_ok_def black_mosaic_def MT_BLACK_def)

lemma mem_ok_clear_row:
  "mem_ok m0 m \<Longrightarrow> 0 \<le> r \<Longrightarrow> r \<le> 24 \<Longrightarrow> mem_ok m0 (clear_row m r c0 c1)"
  by (simp add: clear_row_def Let_def mem_ok_fill cell_ok_black)

lemma mem_ok_foldl:
  "mem_ok m0 m \<Longrightarrow> (\<And>m r. mem_ok m0 m \<Longrightarrow> r \<in> set rs \<Longrightarrow> mem_ok m0 (f m r)) \<Longrightarrow>
    mem_ok m0 (foldl f m rs)"
  by (induction rs arbitrary: m) auto

lemma mem_ok_clear_rows:
  "mem_ok m0 m \<Longrightarrow> 0 \<le> r0 \<Longrightarrow> r1 \<le> 24 \<Longrightarrow> mem_ok m0 (clear_rows m r0 r1)"
  unfolding clear_rows_def by (rule mem_ok_foldl) (auto intro: mem_ok_clear_row)

lemma mem_ok_scroll_up:
  "mem_ok m0 m \<Longrightarrow> 0 \<le> a \<Longrightarrow> 0 \<le> b \<Longrightarrow> b \<le> 24 \<Longrightarrow> mem_ok m0 (scroll_up m a b n)"
proof (induction n arbitrary: m)
  case (Suc n)
  have "mem_ok m0 (foldl (\<lambda>m r. copy_row m r (r + 1)) m [a..b - 1])"
    using Suc.prems by (intro mem_ok_foldl mem_ok_copy) auto
  then show ?case using Suc by (simp add: mem_ok_clear_row)
qed simp

lemma mem_ok_scroll_down:
  "mem_ok m0 m \<Longrightarrow> 0 \<le> a \<Longrightarrow> a \<le> 24 \<Longrightarrow> b \<le> 24 \<Longrightarrow> mem_ok m0 (scroll_down m a b n)"
proof (induction n arbitrary: m)
  case (Suc n)
  have "mem_ok m0 (foldl (\<lambda>m r. copy_row m r (r - 1)) m (rev [a + 1..b]))"
    using Suc.prems by (intro mem_ok_foldl mem_ok_copy) auto
  then show ?case using Suc by (simp add: mem_ok_clear_row)
qed simp

text \<open>Attributes and cell templates.\<close>

lemma attr_ok_default [simp]: "attr_ok attr_default"
  by (simp add: attr_ok_def attr_default_def MT_WHITE_def MT_BLACK_def)

lemma byte_le3_cases:
  assumes "(x::byte) \<le> 3"
  shows "x = 0 \<or> x = 1 \<or> x = 2 \<or> x = 3"
proof -
  have "unat x = 0 \<or> unat x = 1 \<or> unat x = 2 \<or> unat x = 3"
    using assms by (auto simp: word_le_nat_alt)
  moreover have "x = word_of_nat (unat x)" by simp
  ultimately show ?thesis by (elim disjE) (simp_all add: word_unat_eq_iff)
qed

lemma cell_ok_quarter: "cell_ok c \<Longrightarrow> cell_ok (quarter c sz u rt)"
proof -
  assume c: "cell_ok c"
  have "sz AND 3 \<le> (3::byte)" by (rule word_and_le1)
  then have "(sz AND (MT_S_DW OR MT_S_DH)) OR (if rt then MT_S_RIGHT else 0) OR (if u then MT_S_TOP else 0) \<le> 15"
    using byte_le3_cases [of "sz AND 3"] by (auto simp: mt_size_bits)
  with c show ?thesis by (simp add: cell_ok_def quarter_def)
qed

lemma cell_ok_alpha: "attr_ok (mt_a d) \<Longrightarrow> glyph_ok g \<Longrightarrow> cell_ok (alpha_cell d g)"
  by (auto simp: cell_ok_def alpha_cell_def attr_ok_def MT_BLACK_def intro: order_trans)

lemma cell_ok_mosaic: "attr_ok (mt_a d) \<Longrightarrow> cell_ok (snd (mosaic_cell d bits))"
  by (simp add: cell_ok_def mosaic_cell_def attr_ok_def word_and_le1)

lemma glyph_ok_consts [simp]: "glyph_ok MT_G_FULLBLOCK" "glyph_ok MT_G_LOWBAR" "glyph_ok 0x20"
  by (simp_all add: glyph_ok_def MT_G_FULLBLOCK_def MT_G_LOWBAR_def MT_G_END_def)


subsection \<open>Every operation keeps the invariant\<close>

lemma settle_ok [mt_intros]: "mt_ok m0 d \<Longrightarrow> mt_ok m0 (settle_col d)"
  by (auto simp: mt_ok_defs settle_col_def)

lemma settle_le [simp]: "mt_col (settle_col d) \<le> 40"
  by (simp add: settle_col_def)

lemma settle_simps [simp]:
  "mt_row (settle_col d) = mt_row d" "mt_in_row0 (settle_col d) = mt_in_row0 d"
  "mt_mem (settle_col d) = mt_mem d" "mt_a (settle_col d) = mt_a d"
  "mt_csi_p (settle_col d) = mt_csi_p d" "mt_csi_np (settle_col d) = mt_csi_np d"
  "mt_st (settle_col d) = mt_st d" "mt_iso_n (settle_col d) = mt_iso_n d"
  by (simp_all add: settle_col_def)

lemma do_lf_ok [mt_intros]: "mt_ok m0 d \<Longrightarrow> mt_ok m0 (do_lf d)"
proof -
  assume ok: "mt_ok m0 d"
  note s = settle_ok [OF ok] settle_le [of d]
  have "mem_ok m0 (scroll_up (mt_mem d) 1 24 1)"
    using ok by (intro mem_ok_scroll_up) (simp_all add: mt_ok_def)
  then show ?thesis using s by (auto simp: do_lf_def Let_def mt_ok_defs)
qed

lemma do_vt_ok [mt_intros]: "mt_ok m0 d \<Longrightarrow> mt_ok m0 (do_vt d)"
proof -
  assume ok: "mt_ok m0 d"
  note s = settle_ok [OF ok] settle_le [of d]
  have "mem_ok m0 (scroll_down (mt_mem d) 1 24 1)"
    using ok by (intro mem_ok_scroll_down) (simp_all add: mt_ok_def)
  then show ?thesis using s by (auto simp: do_vt_def Let_def mt_ok_defs)
qed

lemma do_bs_ok [mt_intros]: "mt_ok m0 d \<Longrightarrow> mt_ok m0 (do_bs d)"
  by (auto simp: do_bs_def mt_ok_defs)

lemma do_ht_ok [mt_intros]: "mt_ok m0 d \<Longrightarrow> mt_ok m0 (do_ht d)"
proof -
  assume ok: "mt_ok m0 d"
  show ?thesis using settle_ok [OF ok] settle_le [of d] by (auto simp: do_ht_def Let_def mt_ok_defs)
qed

text \<open>\<open>put_cell\<close>, part by part.\<close>

lemma put_row0_ok:
  assumes ok: "mt_ok m0 d" and r0: "mt_in_row0 d" and c: "cell_ok c"
  shows "mt_ok m0 (put_row0 d c)"
proof -
  have p: "1 \<le> mt_col d" "mt_col d \<le> 40" using ok r0 by (simp_all add: mt_ok_defs)
  have "cell_ok (c\<lparr>mc_size := 0\<rparr>)" using c by (simp add: cell_ok_def)
  then have "mem_ok m0 (set_cell (mt_mem d) 0 (mt_col d) (c\<lparr>mc_size := 0\<rparr>))"
    using ok p by (intro mem_ok_set) (simp_all add: mt_ok_def)
  with ok r0 p show ?thesis by (auto simp: put_row0_def Let_def mt_ok_defs)
qed

lemma put_wrap_ok:
  assumes ok: "mt_ok m0 d" and r0: "\<not> mt_in_row0 d"
  shows "mt_ok m0 (put_wrap d dh)" "\<not> mt_in_row0 (put_wrap d dh)" "mt_col (put_wrap d dh) \<le> 40"
proof -
  have "mem_ok m0 (scroll_up (mt_mem d) 1 24 n)" for n
    using ok by (intro mem_ok_scroll_up) (simp_all add: mt_ok_def)
  then show "mt_ok m0 (put_wrap d dh)" using ok r0 by (auto simp: put_wrap_def Let_def mt_ok_defs)
qed (use r0 in \<open>auto simp: put_wrap_def Let_def\<close>)

lemma put_insert_ok:
  assumes ok: "mt_ok m0 d" and r0: "\<not> mt_in_row0 d" and le: "mt_col d \<le> 40"
  shows "mt_ok m0 (put_insert d)"
proof -
  have p: "1 \<le> mt_col d" "1 \<le> mt_row d" "mt_row d \<le> 24" using ok r0 by (simp_all add: mt_ok_defs)
  have "mem_ok m0 ((mt_mem d)(mt_row d := mem_move (mt_mem d (mt_row d)) (mt_col d + 1) (mt_col d) (40 - mt_col d)))"
    using ok p le by (intro mem_ok_move) (simp_all add: mt_ok_def)
  with ok r0 show ?thesis by (auto simp: put_insert_def mt_ok_defs)
qed

lemma mem_ok_block:
  assumes "mem_ok m0 m" "cell_ok c" "0 \<le> r" "r \<le> 24" "1 \<le> k" "k \<le> 40"
    "dh \<Longrightarrow> 1 \<le> r" "dw \<Longrightarrow> k \<le> 39"
  shows "mem_ok m0 (put_block m r k c sz dw dh)"
  unfolding put_block_def Let_def
  using assms cell_ok_quarter [OF assms(2), of sz]
  by (auto intro!: mem_ok_set)

lemma put_cell_ok [mt_intros]:
  assumes ok: "mt_ok m0 d0" and c: "cell_ok c"
  shows "mt_ok m0 (put_cell d0 c)"
proof (cases "mt_in_row0 d0")
  case True
  then have "mt_ok m0 (d0\<lparr>mt_ever := True\<rparr>)" using ok by (simp add: mt_ok_defs)
  from put_row0_ok [OF this _ c] True show ?thesis by (simp add: put_cell_def)
next
  case False
  have nr: "\<not> mt_in_row0 (d0\<lparr>mt_ever := True\<rparr>)" using False by simp
  define dh0 where "dh0 = (mc_size c AND MT_S_DH \<noteq> 0)"
  define d1 where "d1 = put_wrap (d0\<lparr>mt_ever := True\<rparr>) dh0"
  define dw0 where "dw0 = (mc_size c AND MT_S_DW \<noteq> 0)"
  define dh where "dh = (dh0 \<and> \<not> (dh0 \<and> mt_row d1 < 2))"
  define dw where "dw = (dw0 \<and> \<not> (dw0 \<and> mt_col d1 = 40))"
  define sz1 where "sz1 = (if dh0 \<and> mt_row d1 < 2 then mc_size c AND NOT MT_S_DH else mc_size c)"
  define sz where "sz = (if dw0 \<and> mt_col d1 = 40 then sz1 AND NOT MT_S_DW else sz1)"
  define d2 where "d2 = (if mt_insert d1 \<and> \<not> dw then put_insert d1 else d1)"
  have "mt_ok m0 (d0\<lparr>mt_ever := True\<rparr>)" using ok by (simp add: mt_ok_defs)
  from put_wrap_ok [OF this, of dh0] False
  have d1: "mt_ok m0 d1" "\<not> mt_in_row0 d1" "mt_col d1 \<le> 40" by (simp_all add: d1_def)
  have d2: "mt_ok m0 d2" "\<not> mt_in_row0 d2" "mt_row d2 = mt_row d1" "mt_col d2 = mt_col d1"
    using d1 put_insert_ok [OF d1] by (simp_all add: d2_def put_insert_def)
  have p: "1 \<le> mt_row d2" "mt_row d2 \<le> 24" "1 \<le> mt_col d2" using d2(1,2) by (simp_all add: mt_ok_defs)
  have blk: "mem_ok m0 (put_block (mt_mem d2) (mt_row d2) (mt_col d2) c sz dw dh)"
    using d2 p d1(3) by (intro mem_ok_block c) (auto simp: mt_ok_def dh_def dw_def)
  have eq: "put_cell d0 c =
      d2\<lparr>mt_mem := put_block (mt_mem d2) (mt_row d2) (mt_col d2) c sz dw dh,
         mt_stats := (mt_stats d2)\<lparr>ms_chars := ms_chars (mt_stats d2) + 1\<rparr>,
         mt_col := mt_col d2 + (if dw then 2 else 1)\<rparr>"
    unfolding put_cell_def Let_def if_not_P [OF nr] d2_def dh_def dw_def sz_def sz1_def d1_def dh0_def dw0_def
    by (rule refl)
  have "dw \<Longrightarrow> mt_col d2 \<le> 39" using d2(4) d1(3) by (auto simp: dw_def)
  with eq blk d2 d1(3) p show ?thesis by (auto simp: mt_ok_defs)
qed

lemma mt_ok_irrelevant [simp]:
  "mt_ok m0 (mt_stats_update f d) = mt_ok m0 d" "mt_ok m0 (d\<lparr>mt_ever := e\<rparr>) = mt_ok m0 d"
  "mt_ok m0 (d\<lparr>mt_sent := s\<rparr>) = mt_ok m0 d" "mt_ok m0 (d\<lparr>mt_cursor_on := c\<rparr>) = mt_ok m0 d"
  "mt_ok m0 (d\<lparr>mt_screen_mask := c\<rparr>) = mt_ok m0 d" "mt_ok m0 (d\<lparr>mt_scroll := c\<rparr>) = mt_ok m0 d"
  "mt_ok m0 (d\<lparr>mt_insert := c\<rparr>) = mt_ok m0 d" "mt_ok m0 (d\<lparr>mt_acc := b\<rparr>) = mt_ok m0 d"
  "mt_ok m0 (d\<lparr>mt_us_r := b\<rparr>) = mt_ok m0 d" "mt_ok m0 (d\<lparr>mt_csi_bad := c\<rparr>) = mt_ok m0 d"
  "mt_ok m0 (d\<lparr>mt_csi_priv := c\<rparr>) = mt_ok m0 d"
  by (simp_all add: mt_ok_defs)

lemma mt_ok_st: "mt_ok m0 d \<Longrightarrow> st \<noteq> ST_PRO \<Longrightarrow> mt_ok m0 (d\<lparr>mt_st := st\<rparr>)"
  by (simp add: mt_ok_defs)

lemma mt_ok_a: "mt_ok m0 d \<Longrightarrow> attr_ok (f (mt_a d)) \<Longrightarrow> mt_ok m0 (mt_a_update f d)"
  by (simp add: mt_ok_defs)

lemma mt_ok_mem: "mt_ok m0 d \<Longrightarrow> mem_ok m0 m \<Longrightarrow> mt_ok m0 (d\<lparr>mt_mem := m\<rparr>)"
  by (simp add: mt_ok_defs)

lemma mt_ok_last:
  "mt_ok m0 d \<Longrightarrow> (k = LAST_G0 \<Longrightarrow> 0x20 \<le> b \<and> b \<le> 0x7E) \<Longrightarrow> (k = LAST_GLYPH \<Longrightarrow> glyph_ok b) \<Longrightarrow>
    mt_ok m0 (d\<lparr>mt_last_kind := k, mt_last_code := b\<rparr>)"
  by (simp add: mt_ok_defs)

lemma mt_ok_attr: "mt_ok m0 d \<Longrightarrow> attr_ok (mt_a d)"
  by (simp add: mt_ok_def)

lemma mt_ok_pos:
  "mt_ok m0 d \<Longrightarrow> \<not> mt_in_row0 d \<Longrightarrow> 1 \<le> mt_row d \<and> mt_row d \<le> 24 \<and> 1 \<le> mt_col d \<and> mt_col d \<le> 41"
  by (simp add: mt_ok_defs)

lemma glyph_ok_ascii: "0x20 \<le> b \<Longrightarrow> b \<le> 0x7E \<Longrightarrow> glyph_ok b"
  by (simp add: glyph_ok_def)

lemma mosaic_cell_ok:
  assumes ok: "mt_ok m0 d"
  shows "mt_ok m0 (fst (mosaic_cell d b))" "cell_ok (snd (mosaic_cell d b))"
proof -
  show "mt_ok m0 (fst (mosaic_cell d b))"
    using ok by (simp add: mosaic_cell_def mt_ok_a attr_ok_def mt_ok_def [of _ d])
  show "cell_ok (snd (mosaic_cell d b))" using ok by (intro cell_ok_mosaic mt_ok_attr)
qed

lemma put_g1_ok [mt_intros]: "mt_ok m0 d \<Longrightarrow> mt_ok m0 (put_g1 d b)"
  unfolding put_g1_def Let_def split_beta
  by (intro mt_ok_last put_cell_ok mosaic_cell_ok(1) mosaic_cell_ok(2) [of m0]) simp_all

lemma put_glyph_ok [mt_intros]: "mt_ok m0 d \<Longrightarrow> glyph_ok g \<Longrightarrow> mt_ok m0 (put_glyph d g)"
  unfolding put_glyph_def
  by (intro mt_ok_last put_cell_ok cell_ok_alpha mt_ok_attr) simp_all

lemma put_space_ok [mt_intros]:
  assumes ok: "mt_ok m0 d"
  shows "mt_ok m0 (put_space d)"
proof -
  have a: "attr_ok (mt_a d)" using ok by (rule mt_ok_attr)
  have c: "cell_ok (alpha_cell d 0x20)" by (rule cell_ok_alpha [OF a]) simp
  have del: "cell_ok ((alpha_cell d 0x20)\<lparr>mc_kind := MT_KIND_DELIM, mc_bg := at_s_bg (mt_a d), mc_flags := f\<rparr>)"
    and spc: "cell_ok ((alpha_cell d 0x20)\<lparr>mc_flags := f\<rparr>)" for f
    using c a by (simp_all add: cell_ok_def attr_ok_def alpha_cell_def split: if_splits)
  have pend: "mt_ok m0 (d\<lparr>mt_a := (mt_a d)\<lparr>at_s_pending := False, at_s_pending_other := False\<rparr>\<rparr>)"
    using ok a by (simp add: mt_ok_defs attr_ok_def)
  have g1: "mt_ok m0 (put_cell (fst (mosaic_cell d 0)) (snd (mosaic_cell d 0)))"
    using mosaic_cell_ok [OF ok] by (rule put_cell_ok)
  show ?thesis
    unfolding put_space_def Let_def split_beta
    using g1 put_cell_ok [OF pend del] put_cell_ok [OF ok spc] by (intro mt_ok_last) simp_all
qed

lemma put_printable_ok [mt_intros]:
  assumes ok: "mt_ok m0 d" and b: "0x20 \<le> b" "b \<le> 0x7F"
  shows "mt_ok m0 (put_printable d b)"
proof -
  have "mt_ok m0 (put_del d)"
    using put_glyph_ok [OF ok, of MT_G_FULLBLOCK] put_g1_ok [OF ok] by (simp add: put_del_def put_glyph_def)
  moreover have "mt_ok m0 (put_g0 d b)" if "b \<noteq> 0x7F"
  proof -
    have "b \<le> 0x7E" using b that by (auto simp: word_le_nat_alt word_unat_eq_iff)
    then have "glyph_ok b" using b by (intro glyph_ok_ascii)
    then show ?thesis unfolding put_g0_def
      using \<open>b \<le> 0x7E\<close> b put_space_ok [OF ok] put_cell_ok [OF ok cell_ok_alpha [OF mt_ok_attr [OF ok]]]
      by (auto intro!: mt_ok_last)
  qed
  ultimately show ?thesis
    using ok by (simp add: put_printable_def put_space_ok put_g1_ok)
qed

lemma do_attribute_ok [mt_intros]:
  assumes ok: "mt_ok m0 d"
  shows "mt_ok m0 (do_attribute d x)"
proof -
  have a: "attr_ok (mt_a d)" using ok by (rule mt_ok_attr)
  have fg: "x - 0x40 \<le> 7" if "0x40 \<le> x" "x \<le> 0x47" using that by uint_arith
  have bg: "x - 0x50 \<le> 7" if "0x50 \<le> x" "x \<le> 0x57" using that by uint_arith
  have upd: "mt_ok m0 (mt_a_update f d)" if "attr_ok (f (mt_a d))" for f
    using ok that by (rule mt_ok_a)
  have ser: "mt_ok m0 (serial_def (mt_a_update f d) oth)" if "attr_ok (f (mt_a d))" for f oth
    using that ok by (auto simp: serial_def_def mt_ok_defs attr_ok_def)
  show ?thesis
    unfolding do_attribute_def Let_def
    using ok a fg bg by (simp add: upd ser attr_ok_def mt_size_bits)
qed

lemma attr_ok_upd [simp]:
  "attr_ok (a\<lparr>at_g1 := x\<rparr>) = attr_ok a" "attr_ok (a\<lparr>at_invert := x\<rparr>) = attr_ok a"
  "attr_ok (a\<lparr>at_s_ul := x\<rparr>) = attr_ok a" "attr_ok (a\<lparr>at_separated := x\<rparr>) = attr_ok a"
  by (simp_all add: attr_ok_def)

lemma clear_rows_ok: "mt_ok m0 d \<Longrightarrow> 0 \<le> r0 \<Longrightarrow> r1 \<le> 24 \<Longrightarrow> mem_ok m0 (clear_rows (mt_mem d) r0 r1)"
  by (simp add: mt_ok_def mem_ok_clear_rows)

lemma do_can_ok [mt_intros]:
  assumes ok: "mt_ok m0 d"
  shows "mt_ok m0 (do_can d)"
proof -
  have a: "attr_ok (mt_a d)" using ok by (rule mt_ok_attr)
  have c: "cell_ok (alpha_cell d 0x20)" by (rule cell_ok_alpha [OF a]) simp
  have mos: "cell_ok \<lparr>mc_kind = MT_KIND_MOSAIC, mc_glyph = 0, mc_fg = at_fg (mt_a d), mc_bg = at_s_bg (mt_a d),
      mc_flags = f, mc_size = 0\<rparr>"
    and spc: "cell_ok ((alpha_cell d 0x20)\<lparr>mc_size := 0, mc_flags := f\<rparr>)" for f
    using a c by (simp_all add: cell_ok_def attr_ok_def)
  define r where "r = (if mt_in_row0 d then 0 else mt_row d)"
  define k where "k = (if mt_col d > 40 then 40 else mt_col d)"
  have rk: "0 \<le> r" "r \<le> 24" "1 \<le> k"
    using ok by (auto simp: r_def k_def mt_ok_defs split: if_splits)
  have "mem_ok m0 ((mt_mem d)(r := mem_fill (mt_mem d r) k 41 v))" if "cell_ok v" for v
    using ok rk that by (intro mem_ok_fill) (simp_all add: mt_ok_def)
  then show ?thesis
    unfolding do_can_def Let_def r_def [symmetric] k_def [symmetric]
    using ok mos spc by (simp add: mt_ok_mem)
qed

lemma mt_ok_home:
  "mt_ok m0 d \<Longrightarrow> 1 \<le> r \<Longrightarrow> r \<le> 24 \<Longrightarrow> 1 \<le> c \<Longrightarrow> c \<le> 41 \<Longrightarrow>
    mt_ok m0 (d\<lparr>mt_in_row0 := False, mt_row := r, mt_col := c, mt_a := attr_default\<rparr>)"
  by (simp add: mt_ok_defs)

lemma do_c0_ok [mt_intros]:
  assumes ok: "mt_ok m0 d"
  shows "mt_ok m0 (do_c0 d b)"
proof -
  have st: "mt_ok m0 (d\<lparr>mt_st := s\<rparr>)" if "s \<noteq> ST_PRO" for s using ok that by (rule mt_ok_st)
  have home: "mt_ok m0 (separator_reset ((leave_row0 d)\<lparr>mt_row := 1, mt_col := 1\<rparr>))"
    using ok by (simp add: mt_ok_defs leave_row0_def separator_reset_def)
  have ff: "mt_ok m0 (separator_reset ((leave_row0 (d\<lparr>mt_mem := clear_rows (mt_mem d) 1 24\<rparr>))
           \<lparr>mt_row := 1, mt_col := 1\<rparr>))"
    using ok clear_rows_ok [OF ok, of 1 24] by (simp add: mt_ok_defs leave_row0_def separator_reset_def)
  have cr: "mt_ok m0 ((settle_col d)\<lparr>mt_col := 1\<rparr>)"
    using ok by (auto simp: mt_ok_defs settle_col_def)
  have so: "mt_ok m0 (mt_a_update (\<lambda>a. a\<lparr>at_g1 := True, at_size := 0, at_invert := False, at_s_ul := False\<rparr>) d)"
    using ok by (intro mt_ok_a) (simp_all add: mt_ok_def attr_ok_def)
  have si: "mt_ok m0 (mt_a_update (\<lambda>a. a\<lparr>at_g1 := False, at_separated := False\<rparr>) d)"
    using ok by (intro mt_ok_a) (simp_all add: mt_ok_def attr_ok_def)
  show ?thesis
    unfolding do_c0_def Let_def
    using ok st home ff cr so si
    by (simp add: do_bs_ok do_ht_ok do_lf_ok do_vt_ok do_can_ok put_g1_ok put_glyph_ok)
qed

lemma do_us_ok [mt_intros]:
  assumes ok: "mt_ok m0 d"
  shows "mt_ok m0 (do_us d r c)"
  using ok by (auto simp: do_us_def Let_def mt_ok_defs separator_reset_def leave_row0_def word_less_def)

lemma csi_arg_le:
  assumes ok: "mt_ok m0 d" and k: "k < 4" "dflt \<le> 9999"
  shows "csi_arg d (int k) dflt \<le> 9999"
proof -
  have "mt_csi_p d ! k \<in> set (mt_csi_p d)" using ok k by (intro nth_mem) (simp add: mt_ok_defs)
  then show ?thesis using ok k by (auto simp: csi_arg_def mt_ok_defs)
qed

lemma erase_ok:
  assumes ok: "mt_ok m0 d" and r0: "\<not> mt_in_row0 d"
  shows "mt_ok m0 (erase_display d p)" "mt_ok m0 (erase_line d p)"
proof -
  have m: "mem_ok m0 (mt_mem d)" using ok by (simp add: mt_ok_def)
  have row: "1 \<le> mt_row d" "mt_row d \<le> 24" using mt_ok_pos [OF ok r0] by auto
  show "mt_ok m0 (erase_display d p)"
    using ok m row by (simp add: erase_display_def Let_def mt_ok_mem mem_ok_clear_row mem_ok_clear_rows)
  show "mt_ok m0 (erase_line d p)"
    using ok m row by (simp add: erase_line_def Let_def mt_ok_mem mem_ok_clear_row)
qed

lemma delins_ok:
  assumes ok: "mt_ok m0 d" and r0: "\<not> mt_in_row0 d" and col: "mt_col d \<le> 40" and n: "1 \<le> n"
  shows "mt_ok m0 (delete_chars d n)" "mt_ok m0 (insert_chars d n)"
proof -
  have m: "mem_ok m0 (mt_mem d)" using ok by (simp add: mt_ok_def)
  have row: "1 \<le> mt_row d" "mt_row d \<le> 24" "1 \<le> mt_col d" using mt_ok_pos [OF ok r0] by auto
  show "mt_ok m0 (delete_chars d n)"
    unfolding delete_chars_def Let_def using row col n
    by (intro mt_ok_mem ok mem_ok_clear_row mem_ok_move m) auto
  show "mt_ok m0 (insert_chars d n)"
    unfolding insert_chars_def Let_def using row col n
    by (intro mt_ok_mem ok mem_ok_clear_row mem_ok_move m) auto
qed

lemma mt_ok_cursor:
  "mt_ok m0 d \<Longrightarrow> \<not> mt_in_row0 d \<Longrightarrow> 1 \<le> r \<Longrightarrow> r \<le> 24 \<Longrightarrow> mt_ok m0 (d\<lparr>mt_row := r\<rparr>)"
  "mt_ok m0 d \<Longrightarrow> \<not> mt_in_row0 d \<Longrightarrow> 1 \<le> c \<Longrightarrow> c \<le> 41 \<Longrightarrow> mt_ok m0 (d\<lparr>mt_col := c\<rparr>)"
  "mt_ok m0 d \<Longrightarrow> \<not> mt_in_row0 d \<Longrightarrow> 1 \<le> r \<Longrightarrow> r \<le> 24 \<Longrightarrow> 1 \<le> c \<Longrightarrow> c \<le> 41 \<Longrightarrow>
    mt_ok m0 (d\<lparr>mt_row := r, mt_col := c\<rparr>)"
  by (simp_all add: mt_ok_defs)

lemma do_csi_ok [mt_intros]:
  assumes ok: "mt_ok m0 d0"
  shows "mt_ok m0 (do_csi d0 fin)"
proof (cases "mt_in_row0 d0 \<or> mt_csi_bad d0 \<or> mt_csi_priv d0")
  case True
  then show ?thesis using ok by (simp add: do_csi_def)
next
  case False
  define d where "d = settle_col d0"
  define n where "n = (if csi_arg d 0 1 < 1 then 1 else csi_arg d 0 1)"
  have dok: "mt_ok m0 d" and r0: "\<not> mt_in_row0 d" and col: "mt_col d \<le> 40"
    using settle_ok [OF ok] False by (simp_all add: d_def)
  have pos: "1 \<le> mt_row d" "mt_row d \<le> 24" "1 \<le> mt_col d" using mt_ok_pos [OF dok r0] by auto
  have n1: "1 \<le> n" by (simp add: n_def)
  have m: "mem_ok m0 (mt_mem d)" using dok by (simp add: mt_ok_def)
  have up: "mem_ok m0 (scroll_up (mt_mem d) (mt_row d) 24 k)"
    and down: "mem_ok m0 (scroll_down (mt_mem d) (mt_row d) 24 k)" for k
    using m pos by (auto intro: mem_ok_scroll_up mem_ok_scroll_down)
  show ?thesis
    using False
    unfolding do_csi_def Let_def d_def [symmetric] n_def [symmetric]
    using dok r0 col pos n1 erase_ok [OF dok r0] delins_ok [OF dok r0 col n1]
      mt_ok_cursor [OF dok r0] mt_ok_mem [OF dok up] mt_ok_mem [OF dok down]
    by simp
qed

lemma do_pro_ok [mt_intros]: "mt_ok m0 d \<Longrightarrow> mt_ok m0 (do_pro d)"
  by (auto simp: do_pro_def Let_def mt_ok_defs send_reply_def)

lemma send_reply_ok [mt_intros]: "mt_ok m0 d \<Longrightarrow> mt_ok m0 (send_reply d b)"
  by (auto simp: mt_ok_defs send_reply_def)

lemma feed_transp_ok [mt_intros]: "mt_ok m0 d \<Longrightarrow> mt_ok m0 (feed_transp d b)"
  by (simp add: feed_transp_def mt_ok_st)

lemma feed_esc_ok [mt_intros]:
  assumes ok: "mt_ok m0 d0"
  shows "mt_ok m0 (feed_esc d0 b)"
proof -
  define d where "d = d0\<lparr>mt_st := ST_GROUND\<rparr>"
  have dok: "mt_ok m0 d" unfolding d_def using ok by (rule mt_ok_st) simp
  have csi: "mt_ok m0 (d\<lparr>mt_st := ST_CSI, mt_csi_np := 0, mt_csi_bad := False, mt_csi_priv := False,
      mt_csi_p := [- 1, - 1, - 1, - 1]\<rparr>)"
    and iso: "mt_ok m0 (d\<lparr>mt_st := ST_ISO, mt_iso_n := 1, mt_iso := (mt_iso d)[0 := b]\<rparr>)"
    and tr: "mt_ok m0 (enter_transparency d)"
    and skip: "mt_ok m0 (d\<lparr>mt_st := ST_SKIP1\<rparr>)"
    using dok by (simp_all add: mt_ok_defs enter_transparency_def)
  have pro: "mt_ok m0 (d\<lparr>mt_st := ST_PRO, mt_pro_n := 0, mt_pro_left := uint b - 0x38\<rparr>)"
    if "b = 0x39 \<or> b = 0x3A \<or> b = 0x3B"
    using dok that by (auto simp: mt_ok_defs)
  show ?thesis
    unfolding feed_esc_def Let_def d_def [symmetric]
    using dok csi iso tr skip pro by (simp add: do_attribute_ok send_reply_ok)
qed

lemma feed_iso_ok [mt_intros]:
  assumes ok: "mt_ok m0 d" and n: "mt_iso_n d < 2147483647"
  shows "mt_ok m0 (feed_iso d b)"
proof -
  have "mt_ok m0 (d\<lparr>mt_st := ST_GROUND\<rparr>)" using ok by (rule mt_ok_st) simp
  then show ?thesis using ok n by (auto simp: feed_iso_def Let_def) (simp_all add: mt_ok_defs)
qed

lemma feed_csi_ok [mt_intros]:
  assumes ok: "mt_ok m0 d"
  shows "mt_ok m0 (feed_csi d b)"
proof -
  define np where "np = (if mt_csi_np d = 0 then 1 else mt_csi_np d)"
  have np: "1 \<le> np" "np \<le> 4" using ok by (auto simp: np_def mt_ok_defs)
  define v where "v = mt_csi_p d ! nat (np - 1)"
  define v2 where "v2 = (if (if v < 0 then 0 else v) < 1000
      then (if v < 0 then 0 else v) * 10 + (uint b - 0x30) else (if v < 0 then 0 else v))"
  have "mt_csi_p d ! nat (np - 1) \<in> set (mt_csi_p d)"
    using ok np by (intro nth_mem) (auto simp: mt_ok_defs)
  then have v: "v \<le> 9999" using ok by (auto simp: v_def mt_ok_defs)
  have v2: "v2 \<le> 9999" if "b \<le> 0x39"
  proof -
    have "uint b \<le> 0x39" using that by (simp add: word_le_def)
    then show ?thesis using v by (auto simp: v2_def)
  qed
  have dig: "mt_ok m0 (d\<lparr>mt_csi_np := np, mt_csi_p := (mt_csi_p d)[nat (np - 1) := v2]\<rparr>)" if "b \<le> 0x39"
    using ok np v2 [OF that] by (auto simp: mt_ok_defs dest!: subsetD [OF set_update_subset_insert])
  have sep: "mt_ok m0 (d\<lparr>mt_csi_np := np + 1\<rparr>)" if "np < 4"
    using ok np that by (auto simp: mt_ok_defs)
  have sep2: "mt_ok m0 (d\<lparr>mt_csi_np := np, mt_csi_bad := True\<rparr>)"
    using ok np by (auto simp: mt_ok_defs)
  have g: "mt_ok m0 (d\<lparr>mt_st := ST_GROUND\<rparr>)" using ok by (rule mt_ok_st) simp
  show ?thesis
    unfolding feed_csi_def Let_def np_def [symmetric] v_def [symmetric] v2_def [symmetric]
    using ok dig sep sep2 do_csi_ok [OF g] by simp
qed


lemma rep_once_ok:
  assumes ok: "mt_ok m0 d"
  shows "mt_ok m0 (rep_once d)"
proof -
  have last: "mt_last_kind d = LAST_G0 \<Longrightarrow> glyph_ok (mt_last_code d)"
    "mt_last_kind d = LAST_GLYPH \<Longrightarrow> glyph_ok (mt_last_code d)"
    using ok by (simp_all add: mt_ok_def last_ok_def glyph_ok_ascii)
  then show ?thesis
    using ok by (auto simp: rep_once_def split: last_kind.split
        intro: put_space_ok put_g1_ok put_glyph_ok put_cell_ok cell_ok_alpha mt_ok_attr)
qed

lemma rep_loop_ok [mt_intros]: "mt_ok m0 d \<Longrightarrow> mt_ok m0 (rep_loop n d)"
  by (induction n d rule: rep_loop.induct) (auto intro: rep_once_ok)

lemma g2_glyph_ok: "g2_glyph b = Some g \<Longrightarrow> glyph_ok g"
  by (auto simp: g2_glyph_def g2_table_def glyph_ok_def MT_G_END_def split: if_splits)

lemma compose_ok: "compose a b = Some g \<Longrightarrow> glyph_ok g"
  by (auto simp: compose_def compose_table_def glyph_ok_def MT_G_END_def split: if_splits)

lemma feed_pro_ok [mt_intros]:
  assumes ok: "mt_ok m0 d" and st: "mt_st d = ST_PRO"
  shows "mt_ok m0 (feed_pro d b)"
proof -
  define d1 where "d1 = d\<lparr>mt_pro := (if mt_pro_n d < 4 then (mt_pro d)[nat (mt_pro_n d) := b] else mt_pro d),
                 mt_pro_n := mt_pro_n d + 1, mt_pro_left := mt_pro_left d - 1\<rparr>"
  have done_ok: "mt_ok m0 (d1\<lparr>mt_st := ST_GROUND\<rparr>)" using ok st by (auto simp: mt_ok_defs d1_def)
  have "mt_ok m0 d1" if "\<not> mt_pro_left d1 \<le> 0" using ok st that by (auto simp: mt_ok_defs d1_def)
  with do_pro_ok [OF done_ok] show ?thesis
    unfolding feed_pro_def Let_def d1_def [symmetric] by simp
qed

lemma feed_state_ok:
  assumes ok: "mt_ok m0 d" and n: "mt_iso_n d < 2147483647"
    and b: "b \<le> 0x7F" "mt_st d \<noteq> ST_GROUND \<Longrightarrow> 0x20 \<le> b"
  shows "mt_ok m0 (feed_state d b)"
proof -
  have g: "mt_ok m0 (d\<lparr>mt_st := ST_GROUND\<rparr>)" using ok by (rule mt_ok_st) simp
  have us: "mt_ok m0 (d\<lparr>mt_us_r := b, mt_st := ST_US2\<rparr>)" using ok by (simp add: mt_ok_defs)
  show ?thesis
  proof (cases "mt_st d")
    case ST_GROUND
    then show ?thesis using ok b by (simp add: feed_state_def do_c0_ok put_printable_ok not_less)
  next
    case ST_SS2
    moreover have "mt_ok m0 (d\<lparr>mt_acc := b, mt_st := ST_SS2_ACC\<rparr>)" using ok by (simp add: mt_ok_defs)
    ultimately show ?thesis using g
      by (auto simp: feed_state_def feed_ss2_def Let_def split: option.split
          intro: put_glyph_ok g2_glyph_ok)
  next
    case ST_SS2_ACC
    with b have "0x20 \<le> b" by simp
    then show ?thesis using ok g b(1) ST_SS2_ACC
      by (auto simp: feed_state_def feed_ss2_acc_def Let_def split: option.split
          intro!: put_glyph_ok put_printable_ok compose_ok)
  qed (use ok g us n in \<open>simp_all add: Let_def feed_state_def feed_esc_ok feed_iso_ok feed_csi_ok do_us_ok
      feed_rep_def rep_loop_ok feed_pro_ok\<close>)
qed

lemma feed_byte_ok:
  assumes ok: "mt_ok m0 d" and n: "mt_iso_n d < 2147483647" and b: "b \<le> 0x7F"
  shows "mt_ok m0 (feed_byte d b)"
proof -
  have r: "mt_ok m0 (resync d b)" using ok by (simp add: resync_def mt_ok_st)
  have "0x20 \<le> b" if "mt_st (resync d b) \<noteq> ST_GROUND"
    using that by (auto simp: resync_def not_less split: if_splits)
  moreover have "mt_iso_n (resync d b) = mt_iso_n d" by (simp add: resync_def)
  ultimately show ?thesis
    using feed_state_ok [OF r _ b] ok n by (simp add: feed_byte_def feed_transp_ok)
qed

lemma minitel_feed_byte_ok:
  assumes ok: "mt_ok m0 d" and n: "mt_iso_n d < 2147483647"
  shows "mt_ok m0 (minitel_feed_byte d b)"
proof -
  have ff: "(0xFF::byte) = - 1" by simp
  have "b AND 0xFF = b" unfolding ff by simp
  moreover have "b AND 0xFF = (b AND 0x80) OR (b AND 0x7F)"
    by (simp add: bit.conj_disj_distrib [symmetric])
  ultimately have "b \<le> 0x7F" if "b AND 0x80 = 0"
    using that word_and_le1 [of b "0x7F"] by simp
  moreover have "b AND 0x7F \<le> 0x7F" by (rule word_and_le1)
  ultimately show ?thesis
    using ok n by (simp add: minitel_feed_byte_def Let_def feed_byte_ok)
qed

subsection \<open>What the operations leave alone\<close>

lemma put_parts_keep [simp]:
  "mt_iso_n (put_row0 d c) = mt_iso_n d" "mt_st (put_row0 d c) = mt_st d"
  "mt_iso_n (put_wrap d dh) = mt_iso_n d" "mt_st (put_wrap d dh) = mt_st d"
  "mt_iso_n (put_insert d) = mt_iso_n d" "mt_st (put_insert d) = mt_st d"
  by (simp_all add: put_row0_def put_wrap_def put_insert_def Let_def)

lemma put_cell_keep [simp]: "mt_iso_n (put_cell d c) = mt_iso_n d" "mt_st (put_cell d c) = mt_st d"
  by (simp_all add: put_cell_def Let_def)

lemma mosaic_keep [simp]:
  "mt_iso_n (fst (mosaic_cell d b)) = mt_iso_n d" "mt_st (fst (mosaic_cell d b)) = mt_st d"
  by (simp_all add: mosaic_cell_def)

lemma put_chars_keep [simp]:
  "mt_iso_n (put_g1 d b) = mt_iso_n d" "mt_st (put_g1 d b) = mt_st d"
  "mt_iso_n (put_space d) = mt_iso_n d" "mt_st (put_space d) = mt_st d"
  "mt_iso_n (put_glyph d b) = mt_iso_n d" "mt_st (put_glyph d b) = mt_st d"
  by (simp_all add: put_g1_def put_space_def put_glyph_def Let_def split_beta)

lemma put_printable_keep [simp]:
  "mt_iso_n (put_printable d b) = mt_iso_n d" "mt_st (put_printable d b) = mt_st d"
  by (simp_all add: put_printable_def put_del_def put_g0_def)

lemma moves_keep [simp]:
  "mt_iso_n (do_lf d) = mt_iso_n d" "mt_iso_n (do_vt d) = mt_iso_n d" "mt_iso_n (do_bs d) = mt_iso_n d"
  "mt_iso_n (do_ht d) = mt_iso_n d" "mt_iso_n (do_can d) = mt_iso_n d"
  "mt_iso_n (leave_row0 d) = mt_iso_n d" "mt_iso_n (separator_reset d) = mt_iso_n d"
  by (simp_all add: do_lf_def do_vt_def do_bs_def do_ht_def do_can_def leave_row0_def
      separator_reset_def Let_def)

lemma do_c0_iso [simp]: "mt_iso_n (do_c0 d b) = mt_iso_n d"
  by (simp add: do_c0_def Let_def)

lemma do_attribute_iso [simp]: "mt_iso_n (do_attribute d b) = mt_iso_n d"
  by (simp add: do_attribute_def serial_def_def Let_def)

lemma do_us_iso [simp]: "mt_iso_n (do_us d r c) = mt_iso_n d"
  by (simp add: do_us_def Let_def)

lemma do_csi_iso [simp]: "mt_iso_n (do_csi d b) = mt_iso_n d"
  by (simp add: do_csi_def Let_def erase_display_def erase_line_def delete_chars_def insert_chars_def)

lemma do_pro_iso [simp]: "mt_iso_n (do_pro d) = mt_iso_n d"
  by (simp add: do_pro_def send_reply_def Let_def)

lemma rep_loop_iso [simp]: "mt_iso_n (rep_loop n d) = mt_iso_n d"
  by (induction n d rule: rep_loop.induct) (simp_all add: rep_once_def split: last_kind.split)

lemma feed_state_iso:
  "mt_iso_n d < 2147483647 \<Longrightarrow> 0 \<le> mt_iso_n d \<Longrightarrow> mt_iso_n (feed_state d b) \<le> mt_iso_n d + 1"
  by (cases "mt_st d")
    (simp_all add: feed_state_def feed_esc_def feed_iso_def feed_csi_def feed_rep_def feed_ss2_def
      feed_ss2_acc_def feed_pro_def Let_def send_reply_def enter_transparency_def split: option.split)

lemma feed_transp_iso [simp]: "mt_iso_n (feed_transp d b) = mt_iso_n d"
  by (simp add: feed_transp_def)

lemma resync_iso [simp]: "mt_iso_n (resync d b) = mt_iso_n d"
  by (simp add: resync_def)

lemma feed_byte_iso:
  "mt_iso_n d < 2147483647 \<Longrightarrow> 0 \<le> mt_iso_n d \<Longrightarrow> mt_iso_n (feed_byte d b) \<le> mt_iso_n d + 1"
  using feed_state_iso [of "resync d b" b] by (simp add: feed_byte_def)

lemma minitel_feed_byte_iso:
  "mt_iso_n d < 2147483647 \<Longrightarrow> 0 \<le> mt_iso_n d \<Longrightarrow>
    mt_iso_n (minitel_feed_byte d b) \<le> mt_iso_n d + 1"
  unfolding minitel_feed_byte_def Let_def
  by (simp add: feed_byte_iso [THEN order_trans])

subsection \<open>The decoder as a machine with a memory\<close>

definition mt_inv :: "minitel_decoder \<Rightarrow> bool" where
  "mt_inv d \<longleftrightarrow> mt_ok (mt_mem d) d"

lemma mt_ok_inv: "mt_ok m0 d \<Longrightarrow> mt_inv d"
  by (simp add: mt_inv_def mt_ok_def mem_ok_def)

interpretation minitel: framed_machine minitel_feed_byte "\<lambda>d _. mt_iso_n d < 2147483647" mt_inv
  "\<lambda>d (r, c). mt_mem d r c" "\<lambda>_. {(r, c). in_page r c}"
proof unfold_locales
  fix d b and a :: "int \<times> int"
  assume inv: "mt_inv d" and n: "mt_iso_n d < 2147483647"
  then have ok: "mt_ok (mt_mem d) (minitel_feed_byte d b)"
    unfolding mt_inv_def by (rule minitel_feed_byte_ok)
  then show "mt_inv (minitel_feed_byte d b)" by (rule mt_ok_inv)
  show "{(r, c). in_page r c} \<subseteq> {(r, c). in_page r c}" ..
  assume "a \<notin> {(r, c). in_page r c}"
  then show "(\<lambda>(r, c). mt_mem (minitel_feed_byte d b) r c) a = (\<lambda>(r, c). mt_mem d r c) a"
    using ok by (cases a) (simp add: mt_ok_def mem_ok_def)
qed

lemma minitel_run_ok:
  "mt_inv d \<Longrightarrow> mt_iso_n d + int (length bs) < 2147483648 \<Longrightarrow>
    run_ok minitel_feed_byte (\<lambda>d _. mt_iso_n d < 2147483647) d bs"
proof (induction bs arbitrary: d)
  case (Cons b bs)
  have n: "mt_iso_n d < 2147483647" "0 \<le> mt_iso_n d"
    using Cons.prems by (simp_all add: mt_inv_def mt_ok_defs)
  have "mt_inv (minitel_feed_byte d b)" using Cons.prems(1) n(1) by (rule minitel.step_inv)
  moreover have "mt_iso_n (minitel_feed_byte d b) + int (length bs) < 2147483648"
    using minitel_feed_byte_iso [OF n, of b] Cons.prems(2) by simp
  ultimately show ?case using Cons.IH n by simp
qed simp

lemma clear_rows_cells:
  "clear_rows m a b = (\<lambda>r c. if a \<le> r \<and> r \<le> b \<and> 1 \<le> c \<and> c \<le> 40 then black_mosaic else m r c)"
proof -
  have "foldl (\<lambda>m r. clear_row m r 1 40) m rs =
      (\<lambda>r c. if r \<in> set rs \<and> 1 \<le> c \<and> c \<le> 40 then black_mosaic else m r c)" for rs
    by (induction rs arbitrary: m) (auto simp: clear_row_def mem_fill_def Let_def fun_eq_iff)
  then show ?thesis by (auto simp: clear_rows_def fun_eq_iff)
qed

lemma minitel_reset_inv: "mt_inv (minitel_reset d)" "mt_iso_n (minitel_reset d) = 0"
proof -
  define m where "m = (\<lambda>r c. if 0 \<le> r \<and> r < 25 \<and> 0 \<le> c \<and> c < 42
                            then mt_mem minitel_calloc r c else mt_mem d r c)"
  show "mt_iso_n (minitel_reset d) = 0" by (simp add: minitel_reset_def minitel_calloc_def Let_def)
  have "mem_ok (clear_rows m 0 24) (clear_rows m 0 24)"
    by (simp add: clear_rows_cells mem_ok_def cell_ok_black)
  then show "mt_inv (minitel_reset d)"
    unfolding mt_inv_def minitel_reset_def Let_def
    by (simp add: mt_ok_defs minitel_calloc_def Let_def attr_ok_def attr_default_def MT_WHITE_def
        MT_BLACK_def flip: m_def)
qed

end
