(* ===== verification/MinitelPage.thy ===== *)
theory MinitelPage
  imports MinitelInv "HOL-Library.Sublist"
begin

section \<open>Minitel: what a page shows\<close>

text \<open>
  Plain text across the page, the service row, scrolling, transparency and the answers of the
  decoder, and the properties of the component.
\<close>

subsection \<open>Plain characters\<close>

lemma quarter_plain: "mc_size c = 0 \<Longrightarrow> quarter c 0 False False = c"
  by (cases c) (simp add: quarter_def)

lemma put_cell_plain:
  assumes "\<not> mt_in_row0 d" "\<not> mt_insert d" "mc_size c = 0" "mt_col d \<le> 40"
  shows "put_cell d c =
    d\<lparr>mt_ever := True, mt_mem := set_cell (mt_mem d) (mt_row d) (mt_col d) c,
      mt_stats := (mt_stats d)\<lparr>ms_chars := ms_chars (mt_stats d) + 1\<rparr>, mt_col := mt_col d + 1\<rparr>"
  using assms by (simp add: put_cell_def Let_def put_wrap_def put_block_def quarter_plain)

lemma put_cell_wrap_page:
  assumes "\<not> mt_in_row0 d" "\<not> mt_insert d" "mc_size c = 0" "\<not> mt_col d \<le> 40" "\<not> mt_scroll d"
  shows "put_cell d c =
    (let row = (if mt_row d + 1 > 24 then 1 else mt_row d + 1)
     in d\<lparr>mt_ever := True, mt_row := row, mt_mem := set_cell (mt_mem d) row 1 c,
          mt_stats := (mt_stats d)\<lparr>ms_chars := ms_chars (mt_stats d) + 1\<rparr>, mt_col := 2\<rparr>)"
  using assms by (simp add: put_cell_def Let_def put_wrap_def put_block_def quarter_plain)

text \<open>A byte of a 7-bit line.\<close>

lemma seven_bit: "b \<le> 0x7F \<Longrightarrow> b AND 0x80 = (0::byte)"
proof -
  assume "b \<le> 0x7F"
  then have "uint b \<le> 127" by (simp add: word_le_def)
  then have "\<not> bit (uint b) 7" by (simp add: bit_iff_odd)
  then have "\<not> bit b 7" by (simp add: bit_uint_iff)
  then show ?thesis using and_exp_eq_0_iff_not_bit [of b 7] by simp
qed

lemma feed_byte_7bit:
  "b \<le> 0x7F \<Longrightarrow>
    minitel_feed_byte d b = feed_byte (mt_stats_update (\<lambda>s. s\<lparr>ms_bytes_in := ms_bytes_in s + 1\<rparr>) d) b"
  by (simp add: minitel_feed_byte_def seven_bit)

lemma feed_printable:
  assumes "mt_st d = ST_GROUND" "0x20 \<le> b" "b \<le> 0x7F"
  shows "minitel_feed_byte d b =
    put_printable (mt_stats_update (\<lambda>s. s\<lparr>ms_bytes_in := ms_bytes_in s + 1\<rparr>) d) b"
proof -
  have "b \<noteq> 0" using assms(2) by auto
  then show ?thesis using assms
    by (simp add: feed_byte_7bit feed_byte_def feed_state_def resync_def is_transp_def not_less [symmetric])
qed

text \<open>The attributes in which a printable byte is one plain alphabetic cell.\<close>

definition plain_attr :: "attr \<Rightarrow> bool" where
  "plain_attr a \<longleftrightarrow> \<not> at_g1 a \<and> at_size a = 0 \<and> \<not> at_s_pending a \<and> \<not> at_flash a \<and> \<not> at_invert a"

definition plain_cell :: "attr \<Rightarrow> byte \<Rightarrow> minitel_cell" where
  "plain_cell a b = \<lparr>mc_kind = MT_KIND_ALPHA, mc_glyph = b, mc_fg = at_fg a, mc_bg = MT_BLACK,
     mc_flags = 0, mc_size = 0\<rparr>"

lemma plain_default: "plain_attr attr_default"
  by (simp add: plain_attr_def attr_default_def)

lemma put_printable_plain:
  assumes "plain_attr (mt_a d)" "0x20 \<le> b" "b \<le> 0x7E"
  shows "put_printable d b = (put_cell d (plain_cell (mt_a d) b))\<lparr>mt_last_kind := LAST_G0, mt_last_code := b\<rparr>"
proof -
  have "b \<noteq> 0x7F" using assms(3) by auto
  then show ?thesis using assms
    by (auto simp: put_printable_def put_g0_def put_space_def plain_attr_def plain_cell_def alpha_cell_def
        Let_def)
qed

subsection \<open>Text across the page\<close>

text \<open>Where the \<open>n\<close>-th character of a text that started at home goes.\<close>

definition text_row :: "nat \<Rightarrow> int" where
  "text_row n = int ((n div 40) mod 24) + 1"

definition text_col :: "nat \<Rightarrow> int" where
  "text_col n = int (n mod 40) + 1"

definition text_ready :: "nat \<Rightarrow> minitel_decoder \<Rightarrow> bool" where
  "text_ready n d \<longleftrightarrow> \<not> mt_in_row0 d \<and> \<not> mt_insert d \<and> \<not> mt_scroll d \<and> mt_st d = ST_GROUND \<and>
     mt_a d = attr_default \<and>
     (if n = 0 then mt_row d = 1 \<and> mt_col d = 1
      else mt_row d = text_row (n - 1) \<and> mt_col d = text_col (n - 1) + 1)"

lemma text_step:
  assumes rdy: "text_ready n d" and b: "0x20 \<le> b" "b \<le> 0x7E"
  shows "text_ready (Suc n) (minitel_feed_byte d b) \<and>
    mt_mem (minitel_feed_byte d b) = set_cell (mt_mem d) (text_row n) (text_col n) (plain_cell attr_default b)"
proof -
  let ?d = "mt_stats_update (\<lambda>s. s\<lparr>ms_bytes_in := ms_bytes_in s + 1\<rparr>) d"
  have "b \<le> 0x7F" using b(2) by (rule order_trans) simp
  then have fb: "minitel_feed_byte d b =
      (put_cell ?d (plain_cell attr_default b))\<lparr>mt_last_kind := LAST_G0, mt_last_code := b\<rparr>"
    using rdy b plain_default
    by (simp add: feed_printable text_ready_def put_printable_plain)
  have size: "mc_size (plain_cell attr_default b) = 0" by (simp add: plain_cell_def)
  show ?thesis
  proof (cases "mt_col d \<le> 40")
    case True
    have pos: "mt_row d = text_row n \<and> mt_col d = text_col n"
    proof (cases n)
      case 0
      then show ?thesis
        using rdy by (simp_all add: text_ready_def text_row_def text_col_def)
    next
      case (Suc k)
      then have m: "k mod 40 < 39" using rdy True by (simp add: text_ready_def text_col_def)
      then have "Suc k mod 40 = Suc (k mod 40)" "Suc k div 40 = k div 40"
        by (simp_all add: mod_Suc div_Suc)
      with rdy Suc show ?thesis
        by (simp_all add: text_ready_def text_row_def text_col_def)
    qed
    show ?thesis unfolding fb
      using rdy True size by (simp add: put_cell_plain text_ready_def pos)
  next
    case False
    then obtain k where n: "n = Suc k" using rdy by (cases n) (auto simp: text_ready_def)
    have m: "k mod 40 = 39" using rdy False n by (simp add: text_ready_def text_col_def)
    then have dm: "Suc k mod 40 = 0" "Suc k div 40 = Suc (k div 40)" by (simp_all add: mod_Suc div_Suc)
    have col: "text_col n = 1" using dm by (simp add: n text_col_def)
    have row: "(if mt_row d + 1 > 24 then 1 else mt_row d + 1) = text_row n"
      using rdy dm by (auto simp: n text_ready_def text_row_def mod_Suc)
    show ?thesis unfolding fb
      using rdy False size row col
      by (simp add: put_cell_wrap_page text_ready_def Let_def split: if_splits)
  qed
qed

lemma text_run:
  assumes "text_ready 0 d" "list_all (\<lambda>b. 0x20 \<le> b \<and> b \<le> 0x7E) xs"
  shows "text_ready (length xs) (minitel_feed d xs) \<and>
    (\<forall>k<length xs. length xs \<le> k + 960 \<longrightarrow>
       mt_mem (minitel_feed d xs) (text_row k) (text_col k) = plain_cell attr_default (xs ! k))"
  using assms(2)
proof (induction xs rule: rev_induct)
  case Nil
  then show ?case using assms(1) by (simp add: minitel_feed_def)
next
  case (snoc b xs)
  let ?d = "minitel_feed d xs"
  have IH: "text_ready (length xs) ?d"
    "\<And>k. k < length xs \<Longrightarrow> length xs \<le> k + 960 \<Longrightarrow>
      mt_mem ?d (text_row k) (text_col k) = plain_cell attr_default (xs ! k)"
    using snoc by auto
  have b: "0x20 \<le> b" "b \<le> 0x7E" using snoc.prems by auto
  have step: "text_ready (Suc (length xs)) (minitel_feed_byte ?d b)"
    "mt_mem (minitel_feed_byte ?d b) =
      set_cell (mt_mem ?d) (text_row (length xs)) (text_col (length xs)) (plain_cell attr_default b)"
    using text_step [OF IH(1) b] by auto
  have feed: "minitel_feed d (xs @ [b]) = minitel_feed_byte ?d b" by (simp add: minitel_feed_def)
  have diff: "text_row k \<noteq> text_row (length xs) \<or> text_col k \<noteq> text_col (length xs)"
    if "k < length xs" "length xs < k + 960" for k
  proof (rule ccontr)
    assume "\<not> ?thesis"
    then have e: "(k div 40) mod 24 = (length xs div 40) mod 24" "k mod 40 = length xs mod 40"
      by (simp_all add: text_row_def text_col_def)
    have "k mod 960 = 40 * ((k div 40) mod 24) + k mod 40" for k :: nat
      using mod_mult2_eq [of k 40 24] by simp
    then have "k mod 960 = length xs mod 960" using e by simp
    then have "960 dvd length xs - k" using that(1) mod_eq_dvd_iff_nat [of k "length xs" 960] by simp
    with that show False by (auto dest: dvd_imp_le)
  qed
  have "mt_mem (minitel_feed_byte ?d b) (text_row k) (text_col k) = plain_cell attr_default ((xs @ [b]) ! k)"
    if k: "k < Suc (length xs)" "Suc (length xs) \<le> k + 960" for k
  proof (cases "k = length xs")
    case True
    then show ?thesis by (simp add: step(2) set_cell_def)
  next
    case False
    then have "k < length xs" using k(1) by simp
    with IH(2) [of k] diff [of k] k(2) show ?thesis
      by (cases "text_row k = text_row (length xs)") (simp_all add: step(2) set_cell_def nth_append)
  qed
  with step(1) show ?case unfolding feed by simp
qed

subsection \<open>Row 00\<close>

text \<open>During an excursion that started in \<open>d0\<close>.\<close>

definition excursion :: "minitel_decoder \<Rightarrow> minitel_decoder \<Rightarrow> bool" where
  "excursion d0 d \<longleftrightarrow> mt_in_row0 d \<and> mt_st d = ST_GROUND \<and> mt_sv_row d = mt_row d0 \<and>
     mt_sv_col d = minitel_cursor_col d0 \<and> mt_sv_a d = mt_a d0 \<and>
     (\<forall>r. r \<noteq> 0 \<longrightarrow> mt_mem d r = mt_mem d0 r)"

lemma excursion_stats [simp]:
  "excursion d0 (mt_stats_update f d) = excursion d0 d"
  "excursion d0 (mt_a_update g d) = excursion d0 d"
  "excursion d0 (d\<lparr>mt_last_kind := k, mt_last_code := b\<rparr>) = excursion d0 d"
  by (simp_all add: excursion_def)

lemma excursion_put_cell [simp]: "excursion d0 d \<Longrightarrow> excursion d0 (put_cell d c)"
  by (auto simp: excursion_def put_cell_def put_row0_def set_cell_def Let_def)

lemma excursion_mosaic [simp]: "excursion d0 d \<Longrightarrow> excursion d0 (fst (mosaic_cell d b))"
  by (simp add: mosaic_cell_def)

lemma excursion_printable: "excursion d0 d \<Longrightarrow> excursion d0 (put_printable d b)"
  by (simp add: put_printable_def put_del_def put_space_def put_g1_def put_g0_def
      Let_def split_beta)

lemma excursion_text:
  "excursion d0 d \<Longrightarrow> list_all (\<lambda>b. 0x20 \<le> b \<and> b \<le> 0x7F) xs \<Longrightarrow> excursion d0 (minitel_feed d xs)"
proof (induction xs arbitrary: d)
  case Nil
  then show ?case by (simp add: minitel_feed_def)
next
  case (Cons b xs)
  have "mt_st d = ST_GROUND" using Cons.prems(1) by (simp add: excursion_def)
  then have "excursion d0 (minitel_feed_byte d b)"
    using Cons.prems by (simp add: feed_printable excursion_printable)
  with Cons show ?case by (simp add: minitel_feed_def)
qed

subsection \<open>Scrolling\<close>

lemma foldl_copy_up:
  "a \<le> b \<Longrightarrow> foldl (\<lambda>m r. copy_row m r (r + 1)) m [a..b - 1] =
    (\<lambda>r c. if a \<le> r \<and> r < b \<and> 0 \<le> c \<and> c < 42 then m (r + 1) c else m r c)"
proof (induction "nat (b - a)" arbitrary: a m)
  case 0
  then show ?case by (auto simp: fun_eq_iff)
next
  case (Suc n)
  then have ab: "a < b" by simp
  have list: "[a..b - 1] = a # [a + 1..b - 1]" using ab by (simp add: upto_rec1)
  have IH: "foldl (\<lambda>m r. copy_row m r (r + 1)) (copy_row m a (a + 1)) [a + 1..b - 1] =
      (\<lambda>r c. if a + 1 \<le> r \<and> r < b \<and> 0 \<le> c \<and> c < 42 then copy_row m a (a + 1) (r + 1) c
        else copy_row m a (a + 1) r c)"
    using Suc ab by (intro Suc.hyps(1)) auto
  show ?case unfolding list foldl.simps IH using ab by (auto simp: copy_row_def fun_eq_iff)
qed

lemma foldl_copy_down:
  "a \<le> b \<Longrightarrow> foldl (\<lambda>m r. copy_row m r (r - 1)) m (rev [a + 1..b]) =
    (\<lambda>r c. if a < r \<and> r \<le> b \<and> 0 \<le> c \<and> c < 42 then m (r - 1) c else m r c)"
proof (induction "nat (b - a)" arbitrary: b m)
  case 0
  then show ?case by (auto simp: fun_eq_iff)
next
  case (Suc n)
  then have ab: "a < b" by simp
  have list: "rev [a + 1..b] = b # rev [a + 1..b - 1]" using ab by (simp add: upto_rec2)
  have IH: "foldl (\<lambda>m r. copy_row m r (r - 1)) (copy_row m b (b - 1)) (rev [a + 1..b - 1]) =
      (\<lambda>r c. if a < r \<and> r \<le> b - 1 \<and> 0 \<le> c \<and> c < 42 then copy_row m b (b - 1) (r - 1) c
        else copy_row m b (b - 1) r c)"
    using Suc ab by (intro Suc.hyps(1)) auto
  show ?case unfolding list foldl.simps IH using ab by (auto simp: copy_row_def fun_eq_iff)
qed

definition on_page :: "int \<Rightarrow> bool" where
  "on_page c \<longleftrightarrow> 1 \<le> c \<and> c \<le> 40"

lemma scroll_up_once:
  "a \<le> b \<Longrightarrow> on_page c \<Longrightarrow> scroll_up m a b (Suc 0) r c =
    (if a \<le> r \<and> r < b then m (r + 1) c else if r = b then black_mosaic else m r c)"
  by (auto simp: foldl_copy_up clear_row_def mem_fill_def Let_def on_page_def)

lemma scroll_down_once:
  "a \<le> b \<Longrightarrow> on_page c \<Longrightarrow> scroll_down m a b (Suc 0) r c =
    (if a < r \<and> r \<le> b then m (r - 1) c else if r = a then black_mosaic else m r c)"
  by (auto simp: foldl_copy_down clear_row_def mem_fill_def Let_def on_page_def)

lemma scroll_up_cells:
  "a \<le> b \<Longrightarrow> on_page c \<Longrightarrow> scroll_up m a b n r c =
    (if a \<le> r \<and> r \<le> b then if r + int n \<le> b then m (r + int n) c else black_mosaic else m r c)"
proof (induction n arbitrary: m)
  case (Suc n)
  have "scroll_up m a b (Suc n) r c = scroll_up (scroll_up m a b (Suc 0)) a b n r c" by simp
  with Suc.prems show ?case
    unfolding Suc.IH [OF Suc.prems] scroll_up_once [OF Suc.prems] by (auto simp: algebra_simps)
qed simp

lemma scroll_down_cells:
  "a \<le> b \<Longrightarrow> on_page c \<Longrightarrow> scroll_down m a b n r c =
    (if a \<le> r \<and> r \<le> b then if a \<le> r - int n then m (r - int n) c else black_mosaic else m r c)"
proof (induction n arbitrary: m)
  case (Suc n)
  have "scroll_down m a b (Suc n) r c = scroll_down (scroll_down m a b (Suc 0)) a b n r c" by simp
  with Suc.prems show ?case
    unfolding Suc.IH [OF Suc.prems] scroll_down_once [OF Suc.prems] by (auto simp: algebra_simps)
qed simp

subsection \<open>Transparency\<close>

lemma sublist3_Cons:
  "\<not> sublist [x, y, z] (b # bs) \<Longrightarrow> \<not> sublist [x, y, z] bs"
  by (metis sublist_Cons_right)

text \<open>Two decoders that differ at most in the parser's state and the counters.\<close>

definition same_page :: "minitel_decoder \<Rightarrow> minitel_decoder \<Rightarrow> bool" where
  "same_page d d' \<longleftrightarrow>
     d'\<lparr>mt_st := mt_st d, mt_stats := mt_stats d\<rparr> = d"

lemma same_page_refl: "same_page d d"
  by (simp add: same_page_def)

lemma same_page_trans:
  assumes ab: "same_page a b" and bc: "same_page b c"
  shows "same_page a c"
proof -
  have "c\<lparr>mt_st := mt_st a, mt_stats := mt_stats a\<rparr> =
      c\<lparr>mt_st := mt_st b, mt_stats := mt_stats b\<rparr>\<lparr>mt_st := mt_st a, mt_stats := mt_stats a\<rparr>" by simp
  also have "\<dots> = a" using ab bc by (simp only: same_page_def)
  finally show ?thesis by (simp only: same_page_def)
qed

text \<open>The automaton alone.\<close>

fun transp_next :: "mt_state \<Rightarrow> byte \<Rightarrow> mt_state" where
  "transp_next ST_TRANSP b = (if b = 0x1B then ST_TRANSP_ESC else ST_TRANSP)"
| "transp_next ST_TRANSP_ESC b =
     (if b = 0x25 then ST_TRANSP_ESC25 else if b = 0x2F then ST_TRANSP_ESC2F
      else if b = 0x1B then ST_TRANSP_ESC else ST_TRANSP)"
| "transp_next ST_TRANSP_ESC25 b =
     (if b = 0x40 then ST_GROUND else if b = 0x1B then ST_TRANSP_ESC else ST_TRANSP)"
| "transp_next ST_TRANSP_ESC2F b =
     (if b = 0x3F then ST_GROUND else if b = 0x1B then ST_TRANSP_ESC else ST_TRANSP)"
| "transp_next s b = s"

lemma transp_step:
  assumes "is_transp (mt_st d)" "b \<le> 0x7F"
  shows "mt_st (minitel_feed_byte d b) = transp_next (mt_st d) b \<and> same_page d (minitel_feed_byte d b)"
proof -
  let ?d = "mt_stats_update (\<lambda>s. s\<lparr>ms_bytes_in := ms_bytes_in s + 1\<rparr>) d"
  have fb: "minitel_feed_byte d b = feed_transp ?d b"
    using assms by (simp add: feed_byte_7bit feed_byte_def)
  have "mt_st (feed_transp ?d b) = transp_next (mt_st d) b"
    using assms(1) by (cases "mt_st d") (simp_all add: is_transp_def feed_transp_def)
  moreover have "same_page d (feed_transp ?d b)"
    by (simp add: feed_transp_def same_page_def)
  ultimately show ?thesis unfolding fb ..
qed

text \<open>What is still awaited of an introducer in each state.\<close>

fun transp_prefix :: "mt_state \<Rightarrow> byte list" where
  "transp_prefix ST_TRANSP_ESC = [0x1B]"
| "transp_prefix ST_TRANSP_ESC25 = [0x1B, 0x25]"
| "transp_prefix ST_TRANSP_ESC2F = [0x1B, 0x2F]"
| "transp_prefix _ = []"

definition no_intro :: "byte list \<Rightarrow> bool" where
  "no_intro xs \<longleftrightarrow> \<not> sublist [0x1B, 0x25, 0x40] xs \<and> \<not> sublist [0x1B, 0x2F, 0x3F] xs"

lemma no_intro_drop: "no_intro (b # bs) \<Longrightarrow> no_intro bs"
  unfolding no_intro_def by (blast dest: sublist3_Cons)

lemma no_intro_next:
  assumes s: "is_transp s" and n: "no_intro (transp_prefix s @ b # bs)"
  shows "is_transp (transp_next s b) \<and> no_intro (transp_prefix (transp_next s b) @ bs)"
proof -
  have drop: "no_intro (b # bs)"
    using n s no_intro_drop by (cases s) (auto simp: is_transp_def)
  have tl: "no_intro bs" using drop by (rule no_intro_drop)
  have not1: "no_intro ([0x1B, 0x25] @ 0x40 # bs) \<Longrightarrow> False"
    and not2: "no_intro ([0x1B, 0x2F] @ 0x3F # bs) \<Longrightarrow> False"
    by (auto simp: no_intro_def)
  show ?thesis
    using s n drop tl not1 not2 by (cases s) (auto simp: is_transp_def)
qed

lemma transp_run:
  "is_transp (mt_st d) \<Longrightarrow> no_intro (transp_prefix (mt_st d) @ xs) \<Longrightarrow> list_all (\<lambda>b. b \<le> 0x7F) xs \<Longrightarrow>
    is_transp (mt_st (minitel_feed d xs)) \<and> same_page d (minitel_feed d xs) \<and>
    no_intro (transp_prefix (mt_st (minitel_feed d xs)))"
proof (induction xs arbitrary: d)
  case Nil
  then show ?case by (simp add: minitel_feed_def same_page_refl)
next
  case (Cons b xs)
  have b: "b \<le> 0x7F" "list_all (\<lambda>b. b \<le> 0x7F) xs" using Cons.prems by auto
  let ?d = "minitel_feed_byte d b"
  note st = transp_step [OF Cons.prems(1) b(1)]
  note nx = no_intro_next [OF Cons.prems(1,2)]
  have "is_transp (mt_st (minitel_feed ?d xs)) \<and> same_page ?d (minitel_feed ?d xs) \<and>
    no_intro (transp_prefix (mt_st (minitel_feed ?d xs)))"
    using st nx b by (intro Cons.IH) auto
  then show ?case using st by (auto simp: minitel_feed_def intro: same_page_trans)
qed

lemma transp_leave:
  assumes "is_transp (mt_st d)"
  shows "mt_st (minitel_feed d [0x1B, 0x25, 0x40]) = ST_GROUND \<and> same_page d (minitel_feed d [0x1B, 0x25, 0x40])"
    "mt_st (minitel_feed d [0x1B, 0x2F, 0x3F]) = ST_GROUND \<and> same_page d (minitel_feed d [0x1B, 0x2F, 0x3F])"
proof -
  have esc: "transp_next s 0x1B = ST_TRANSP_ESC" if "is_transp s" for s
    using that by (auto simp: is_transp_def)
  let ?e = "minitel_feed_byte d 0x1B"
  have e: "mt_st ?e = ST_TRANSP_ESC" "same_page d ?e"
    using transp_step [OF assms, of "0x1B"] esc assms by auto
  have t: "is_transp ST_TRANSP_ESC" "is_transp ST_TRANSP_ESC25" "is_transp ST_TRANSP_ESC2F"
    by (simp_all add: is_transp_def)
  let ?f = "minitel_feed_byte ?e 0x25" and ?g = "minitel_feed_byte ?e 0x2F"
  have f: "mt_st ?f = ST_TRANSP_ESC25" "same_page d ?f" and g: "mt_st ?g = ST_TRANSP_ESC2F" "same_page d ?g"
    using transp_step [of ?e "0x25"] transp_step [of ?e "0x2F"] e t by (auto intro: same_page_trans)
  show "mt_st (minitel_feed d [0x1B, 0x25, 0x40]) = ST_GROUND \<and> same_page d (minitel_feed d [0x1B, 0x25, 0x40])"
    "mt_st (minitel_feed d [0x1B, 0x2F, 0x3F]) = ST_GROUND \<and> same_page d (minitel_feed d [0x1B, 0x2F, 0x3F])"
    using transp_step [of ?f "0x40"] transp_step [of ?g "0x3F"] f g t
    by (auto simp: minitel_feed_def intro: same_page_trans)
qed

subsection \<open>Properties\<close>

lemma us_byte: "0 \<le> k \<Longrightarrow> k \<le> 40 \<Longrightarrow> uint (word_of_int (0x40 + k) :: byte) = 0x40 + k"
  by (subst uint_word_of_int) simp

lemma feed_bufs: "foldl minitel_feed d bufs = foldl minitel_feed_byte d (concat bufs)"
  by (induction bufs arbitrary: d) (simp_all add: minitel_feed_def)

text \<open>
  C2: no stream of bytes, in whatever buffers it comes, takes a decoder that was reset off its
  page: the cursor stays on rows 0 to 24 and columns 1 to 40, every cell of the page holds a
  glyph, colours and a size that exist, and nothing outside \<open>mem[25][42]\<close> is written. (The
  bound is on the 32-bit counter of intermediate bytes.)
\<close>

theorem minitel_stream_safe:
  fixes d0 :: minitel_decoder and bufs :: "byte list list"
  assumes len: "length (concat bufs) < 2147483648"
  defines "d \<equiv> foldl minitel_feed (minitel_reset d0) bufs"
  shows "0 \<le> minitel_cursor_row d \<and> minitel_cursor_row d \<le> 24 \<and>
    1 \<le> minitel_cursor_col d \<and> minitel_cursor_col d \<le> 40 \<and>
    (\<forall>r c. cell_ok (minitel_cell_at d r c)) \<and>
    (\<forall>r c. \<not> in_page r c \<longrightarrow> mt_mem d r c = mt_mem d0 r c)"
proof -
  note inv0 = minitel_reset_inv [of d0]
  have run: "run_ok minitel_feed_byte (\<lambda>d _. mt_iso_n d < 2147483647) (minitel_reset d0) (concat bufs)"
    using inv0 len by (intro minitel_run_ok) auto
  have d: "d = foldl minitel_feed_byte (minitel_reset d0) (concat bufs)"
    by (simp add: d_def feed_bufs)
  have inv: "mt_inv d" unfolding d by (rule minitel.run_inv [OF inv0(1) run])
  have frame: "mt_mem d r c = mt_mem (minitel_reset d0) r c" if "\<not> in_page r c" for r c
    using minitel.run_frame [OF inv0(1) run, of "(r, c)"] that by (simp add: d)
  have "mem_ok (mt_mem d0) (mt_mem (minitel_reset d0))"
    by (simp add: minitel_reset_def Let_def clear_rows_cells mem_ok_def in_page_def cell_ok_black)
  with frame have out: "\<not> in_page r c \<Longrightarrow> mt_mem d r c = mt_mem d0 r c" for r c
    by (simp add: mem_ok_def)
  have "0 \<le> minitel_cursor_row d \<and> minitel_cursor_row d \<le> 24 \<and>
    1 \<le> minitel_cursor_col d \<and> minitel_cursor_col d \<le> 40"
    using inv by (auto simp: mt_inv_def mt_ok_defs minitel_cursor_row_def minitel_cursor_col_def split: if_splits)
  moreover have "cell_ok (minitel_cell_at d r c)" for r c
    using inv by (simp add: mt_inv_def mt_ok_def mem_ok_def minitel_cell_at_def Let_def)
  ultimately show ?thesis using out by blast
qed

lemma minitel_stream_safe_witness:
  "0 \<le> minitel_cursor_row (foldl minitel_feed (minitel_reset minitel_calloc) [[0x1F, 0x41], [0x41, 0x42]])"
proof -
  have "length (concat [[0x1F, 0x41], [0x41, 0x42 :: byte]]) < 2147483648" by simp
  from minitel_stream_safe [OF this, of minitel_calloc] show ?thesis by blast
qed

text \<open>
  C13: US addresses row first. In the ground state, outside insertion, \<open>US row col\<close> and a
  character put that character at that row and column in the default attributes, leave every
  other cell as it was, and leave the cursor behind it, whatever the state was before.
\<close>

theorem minitel_us_row_first:
  assumes "mt_st d = ST_GROUND" "\<not> mt_insert d" "1 \<le> row" "row \<le> 24" "1 \<le> col" "col \<le> 40"
    "0x20 \<le> b" "b \<le> 0x7E"
  shows "mt_mem (minitel_feed d [0x1F, word_of_int (0x40 + row), word_of_int (0x40 + col), b]) =
      set_cell (mt_mem d) row col (plain_cell attr_default b) \<and>
    mt_row (minitel_feed d [0x1F, word_of_int (0x40 + row), word_of_int (0x40 + col), b]) = row \<and>
    mt_col (minitel_feed d [0x1F, word_of_int (0x40 + row), word_of_int (0x40 + col), b]) = col + 1"
proof -
  define r c where "r = (word_of_int (0x40 + row) :: byte)" and "c = (word_of_int (0x40 + col) :: byte)"
  have ur: "uint r = 0x40 + row" and uc: "uint c = 0x40 + col"
    unfolding r_def c_def using assms(3-6) by (intro us_byte; simp)+
  have rc: "0x40 \<le> r" "r \<le> 0x7F" "0x40 \<le> c" "c \<le> 0x7F" "\<not> r < 0x20" "\<not> c < 0x20" "r \<noteq> 0" "c \<noteq> 0"
    "\<not> r < 0x40" "\<not> c < 0x40"
    using ur uc assms(3-6) by (auto simp: word_le_def word_less_def)
  define e where "e = minitel_feed d [0x1F, r, c]"
  have us: "mt_st e = ST_GROUND" "\<not> mt_in_row0 e" "mt_row e = row" "mt_col e = col"
    "mt_a e = attr_default" "\<not> mt_insert e" "mt_mem e = mt_mem d"
    using assms rc ur uc
    by (simp_all add: e_def minitel_feed_def feed_byte_7bit feed_byte_def is_transp_def resync_def
        feed_state_def do_c0_def do_us_def separator_reset_def leave_row0_def Let_def)
  have split: "minitel_feed d [0x1F, r, c, b] = minitel_feed_byte e b"
    by (simp add: minitel_feed_def e_def)
  have "b \<le> 0x7F" using assms(8) by (rule order_trans) simp
  then show ?thesis
    unfolding r_def [symmetric] c_def [symmetric] split
    using assms us by (simp add: feed_printable put_printable_plain plain_default put_cell_plain plain_cell_def)
qed

lemma minitel_us_row_first_witness:
  "mt_mem (minitel_feed minitel_create [0x1F, word_of_int (0x40 + 5), word_of_int (0x40 + 25), 0x41]) =
    set_cell (mt_mem minitel_create) 5 25 (plain_cell attr_default 0x41)"
proof -
  have "mt_st minitel_create = ST_GROUND" "\<not> mt_insert minitel_create"
    by (simp_all add: minitel_create_def minitel_reset_def minitel_calloc_def Let_def)
  from minitel_us_row_first [OF this, of 5 25 "0x41"] show ?thesis by simp
qed

text \<open>
  C17: text in page mode runs across and down and, after the 960th character, starts again at row
  01. After any printable text from the reset state, each of its last 960 characters stands
  where its number says, in the default attributes.
\<close>

theorem minitel_text_layout:
  assumes "list_all (\<lambda>b. 0x20 \<le> b \<and> b \<le> 0x7E) xs" "k < length xs" "length xs \<le> k + 960"
  shows "minitel_cell_at (minitel_feed (minitel_reset d0) xs) (int (k div 40 mod 24) + 1) (int (k mod 40) + 1) =
    plain_cell attr_default (xs ! k)"
proof -
  have "text_ready 0 (minitel_reset d0)"
    by (simp add: text_ready_def minitel_reset_def minitel_calloc_def Let_def)
  from text_run [OF this assms(1)] assms(2,3)
  have "mt_mem (minitel_feed (minitel_reset d0) xs) (text_row k) (text_col k) = plain_cell attr_default (xs ! k)"
    by blast
  moreover have "0 \<le> text_row k" "text_row k \<le> 24" "1 \<le> text_col k" "text_col k \<le> 40"
    by (simp_all add: text_row_def text_col_def)
  ultimately show ?thesis
    by (simp add: minitel_cell_at_def text_row_def text_col_def Let_def)
qed

lemma minitel_text_layout_witness:
  "minitel_cell_at (minitel_feed (minitel_reset minitel_calloc) [0x41, 0x42]) 1 2 = plain_cell attr_default 0x42"
proof -
  have "list_all (\<lambda>b. 0x20 \<le> b \<and> b \<le> 0x7E) [0x41, 0x42 :: byte]" by simp
  from minitel_text_layout [OF this, of 1 minitel_calloc] show ?thesis by simp
qed

text \<open>
  C21: the service row is an excursion. \<open>US 0x40 col\<close>, any printable text however long, and LF
  bring the cursor and the attributes back to where they were, and leave rows 01 to 24 as they
  were.
\<close>

theorem minitel_row0_excursion:
  assumes "mt_st d = ST_GROUND" "\<not> mt_in_row0 d" "1 \<le> col" "col \<le> 40"
    "list_all (\<lambda>b. 0x20 \<le> b \<and> b \<le> 0x7F) xs"
  defines "d' \<equiv> minitel_feed d ([0x1F, 0x40, word_of_int (0x40 + col)] @ xs @ [0x0A])"
  shows "mt_row d' = mt_row d \<and> mt_col d' = minitel_cursor_col d \<and> mt_a d' = mt_a d \<and>
    \<not> mt_in_row0 d' \<and> mt_st d' = ST_GROUND \<and> (\<forall>r. r \<noteq> 0 \<longrightarrow> mt_mem d' r = mt_mem d r)"
proof -
  define c where "c = (word_of_int (0x40 + col) :: byte)"
  have uc: "uint c = 0x40 + col" unfolding c_def using assms(3,4) by (intro us_byte) simp_all
  have cc: "c \<le> 0x7F" "\<not> c < 0x20" "c \<noteq> 0" "\<not> c < 0x40"
    using uc assms(3,4) by (auto simp: word_le_def word_less_def)
  have "excursion d (minitel_feed d [0x1F, 0x40, c])"
    using assms(1-4) cc uc
    by (simp add: minitel_feed_def feed_byte_7bit feed_byte_def is_transp_def resync_def feed_state_def
        do_c0_def do_us_def separator_reset_def leave_row0_def Let_def excursion_def minitel_cursor_col_def)
  from excursion_text [OF this assms(5)]
  have e: "excursion d (minitel_feed d ([0x1F, 0x40, c] @ xs))" by (simp add: minitel_feed_def)
  have d': "d' = minitel_feed_byte (minitel_feed d ([0x1F, 0x40, c] @ xs)) 0x0A"
    by (simp add: d'_def c_def minitel_feed_def)
  show ?thesis
    unfolding d' using e
    by (simp add: excursion_def feed_byte_7bit feed_byte_def is_transp_def resync_def feed_state_def
        do_c0_def do_lf_def Let_def settle_col_def)
qed

lemma minitel_row0_excursion_witness:
  "mt_row (minitel_feed minitel_create ([0x1F, 0x40, word_of_int (0x40 + 3)] @ [0x48, 0x69] @ [0x0A])) = mt_row minitel_create"
proof -
  have "mt_st minitel_create = ST_GROUND" "\<not> mt_in_row0 minitel_create"
    by (simp_all add: minitel_create_def minitel_reset_def minitel_calloc_def Let_def)
  moreover have "list_all (\<lambda>b. 0x20 \<le> b \<and> b \<le> 0x7F) [0x48, 0x69 :: byte]" by simp
  ultimately show ?thesis using minitel_row0_excursion [of minitel_create 3 "[0x48, 0x69]"] by simp
qed

text \<open>
  resynchronisation. A C0 code other than NUL that arrives inside an unfinished sequence (not
  in screen transparency) does exactly what it does in the ground state, and is counted.
\<close>

theorem minitel_c0_resync:
  assumes "\<not> is_transp (mt_st d)" "mt_st d \<noteq> ST_GROUND" "0 < b" "b < 0x20"
  defines "d1 \<equiv> mt_stats_update (\<lambda>s. s\<lparr>ms_resync := ms_resync s + 1\<rparr>) (d\<lparr>mt_st := ST_GROUND\<rparr>)"
  shows "feed_byte d b = feed_byte d1 b \<and> feed_byte d b = do_c0 d1 b"
  using assms by (auto simp: feed_byte_def resync_def is_transp_def feed_state_def)

lemma minitel_c0_resync_witness:
  "mt_col (feed_byte (minitel_create\<lparr>mt_st := ST_CSI, mt_col := 9\<rparr>) 0x0D) = 1"
proof -
  let ?d = "minitel_create\<lparr>mt_st := ST_CSI, mt_col := 9\<rparr>"
  have st: "\<not> is_transp (mt_st ?d)" "mt_st ?d \<noteq> ST_GROUND" by (simp_all add: is_transp_def)
  have b: "(0::byte) < 0x0D" "(0x0D::byte) < 0x20" by simp_all
  show ?thesis
    unfolding conjunct2 [OF minitel_c0_resync [OF st b]] by (simp add: do_c0_def settle_col_def)
qed

text \<open>
  screen transparency. While neither introducer \<open>ESC 25 40\<close> nor \<open>ESC 2F 3F\<close> occurs, a
  transparent decoder changes nothing but its automaton and its counters, and when one comes it
  is back in the ground state with the page untouched.
\<close>

theorem minitel_transparency:
  assumes "mt_st d = ST_TRANSP" "list_all (\<lambda>b. b \<le> 0x7F) xs"
    "\<not> sublist [0x1B, 0x25, 0x40] xs" "\<not> sublist [0x1B, 0x2F, 0x3F] xs"
  shows "is_transp (mt_st (minitel_feed d xs)) \<and> same_page d (minitel_feed d xs) \<and>
    (\<forall>fin\<in>{[0x1B, 0x25, 0x40], [0x1B, 0x2F, 0x3F]}.
       mt_st (minitel_feed d (xs @ fin)) = ST_GROUND \<and> same_page d (minitel_feed d (xs @ fin)))"
proof -
  have "is_transp (mt_st d)" "no_intro (transp_prefix (mt_st d) @ xs)"
    using assms by (simp_all add: is_transp_def no_intro_def)
  from transp_run [OF this assms(2)]
  have x: "is_transp (mt_st (minitel_feed d xs))" "same_page d (minitel_feed d xs)" by auto
  have app: "minitel_feed d (xs @ ys) = minitel_feed (minitel_feed d xs) ys" for ys
    by (simp add: minitel_feed_def)
  show ?thesis
    using x transp_leave [OF x(1)] by (auto simp: app intro: same_page_trans)
qed

lemma minitel_transparency_witness:
  "is_transp (mt_st (minitel_feed (minitel_create\<lparr>mt_st := ST_TRANSP\<rparr>) [0x41, 0x1B, 0x25, 0x1B]))"
proof -
  have "\<not> sublist [0x1B, 0x25, 0x40] [0x41, 0x1B, 0x25, 0x1B :: byte]"
    "\<not> sublist [0x1B, 0x2F, 0x3F] [0x41, 0x1B, 0x25, 0x1B :: byte]"
    by (simp_all add: sublist_Cons_right)
  moreover have "list_all (\<lambda>b. b \<le> 0x7F) [0x41, 0x1B, 0x25, 0x1B :: byte]" by simp
  moreover have "mt_st (minitel_create\<lparr>mt_st := ST_TRANSP\<rparr>) = ST_TRANSP" by simp
  ultimately show ?thesis using minitel_transparency by blast
qed

text \<open>
  the cursor position request \<open>ESC 61\<close> answers with a US sequence, and that sequence, sent to
  a decoder in the ground state, puts its cursor where this one's is.
\<close>

theorem minitel_cursor_report:
  assumes "mt_ok m0 d" "mt_st d = ST_GROUND" "mt_reply d" "mt_st e = ST_GROUND"
  shows "\<exists>r. mt_sent (minitel_feed d [0x1B, 0x61]) = mt_sent d @ [r] \<and>
    minitel_cursor_row (minitel_feed e r) = minitel_cursor_row d \<and>
    minitel_cursor_col (minitel_feed e r) = minitel_cursor_col d"
proof -
  define row col where "row = minitel_cursor_row d" and "col = minitel_cursor_col d"
  have rc: "0 \<le> row" "row \<le> 24" "1 \<le> col" "col \<le> 40"
    using assms(1) by (auto simp: mt_ok_defs row_def col_def minitel_cursor_row_def minitel_cursor_col_def split: if_splits)
  define r c where "r = (word_of_int (0x40 + row) :: byte)" and "c = (word_of_int (0x40 + col) :: byte)"
  have ur: "uint r = 0x40 + row" and uc: "uint c = 0x40 + col"
    unfolding r_def c_def using rc by (intro us_byte; simp)+
  have w: "r \<le> 0x7F" "c \<le> 0x7F" "\<not> r < 0x20" "\<not> c < 0x20" "r \<noteq> 0" "c \<noteq> 0" "\<not> r < 0x40" "\<not> c < 0x40"
    using ur uc rc by (auto simp: word_le_def word_less_def)
  have sent: "mt_sent (minitel_feed d [0x1B, 0x61]) = mt_sent d @ [[0x1F, r, c]]"
    using assms(2,3)
    by (simp add: minitel_feed_def feed_byte_7bit feed_byte_def is_transp_def resync_def feed_state_def
        do_c0_def feed_esc_def send_reply_def Let_def r_def c_def row_def col_def
        minitel_cursor_row_def minitel_cursor_col_def)
  have "minitel_cursor_row (minitel_feed e [0x1F, r, c]) = row \<and> minitel_cursor_col (minitel_feed e [0x1F, r, c]) = col"
    using assms(4) w ur uc rc
    by (auto simp: minitel_feed_def feed_byte_7bit feed_byte_def is_transp_def resync_def feed_state_def
        do_c0_def do_us_def separator_reset_def leave_row0_def Let_def minitel_cursor_row_def minitel_cursor_col_def)
  with sent show ?thesis by (auto simp: row_def col_def)
qed

lemma minitel_cursor_report_witness:
  "\<exists>r. mt_sent (minitel_feed (minitel_create\<lparr>mt_reply := True\<rparr>) [0x1B, 0x61]) = [r] \<and>
     minitel_cursor_row (minitel_feed minitel_create r) = 1"
proof -
  let ?d = "minitel_create\<lparr>mt_reply := True\<rparr>"
  have "mt_ok (mt_mem minitel_create) minitel_create"
    using minitel_reset_inv by (simp add: minitel_create_def mt_inv_def)
  then have ok: "mt_ok (mt_mem minitel_create) ?d" by (simp add: mt_ok_defs)
  have st: "mt_st ?d = ST_GROUND" "mt_reply ?d" "mt_st minitel_create = ST_GROUND" "mt_sent ?d = []"
    "minitel_cursor_row ?d = 1"
    by (simp_all add: minitel_create_def minitel_reset_def minitel_calloc_def Let_def minitel_cursor_row_def)
  from minitel_cursor_report [OF ok st(1-3)] show ?thesis unfolding st(4,5) by auto
qed

text \<open>
  insert and delete line move whole rows. \<open>CSI n M\<close> on row \<open>r\<close> brings each row below up by
  \<open>n\<close> and \<open>CSI n L\<close> pushes each down by \<open>n\<close>; the rows freed are black mosaics, and rows above
  the cursor stay.
\<close>

theorem minitel_line_ops:
  assumes "mt_ok m0 d" "\<not> mt_in_row0 d" "\<not> mt_csi_bad d" "\<not> mt_csi_priv d"
    "csi_arg d 0 1 = n" "1 \<le> n" "1 \<le> c" "c \<le> 40" "1 \<le> r" "r \<le> 24"
  shows "mt_mem (do_csi d 0x4D) r c =
      (if r < mt_row d then mt_mem d r c
       else if r + n \<le> 24 then mt_mem d (r + n) c else black_mosaic) \<and>
    mt_mem (do_csi d 0x4C) r c =
      (if r < mt_row d then mt_mem d r c
       else if mt_row d \<le> r - n then mt_mem d (r - n) c else black_mosaic)"
proof -
  define k where "k = (if n > 25 - mt_row d then 25 - mt_row d else n)"
  have row: "1 \<le> mt_row d" "mt_row d \<le> 24" using mt_ok_pos [OF assms(1,2)] by auto
  have k: "int (nat k) = k" "1 \<le> k" "k \<le> n" "k = n \<or> (n > 25 - mt_row d \<and> k = 25 - mt_row d)"
    using row assms(6) by (auto simp: k_def)
  have "csi_arg (settle_col d) = csi_arg d" by (simp add: csi_arg_def fun_eq_iff)
  then have arg: "csi_arg (settle_col d) 0 1 = n" using assms(5) by simp
  have on: "on_page c" using assms(7,8) by (simp add: on_page_def)
  have "mt_mem (do_csi d 0x4D) = scroll_up (mt_mem d) (mt_row d) 24 (nat k)"
    and "mt_mem (do_csi d 0x4C) = scroll_down (mt_mem d) (mt_row d) 24 (nat k)"
    using assms(2-4,6) arg by (simp_all add: do_csi_def Let_def k_def)
  then show ?thesis
    using row k assms(9,10)
    by (auto simp: scroll_up_cells [OF row(2) on] scroll_down_cells [OF row(2) on])
qed

lemma minitel_line_ops_witness:
  "mt_mem (do_csi (minitel_create\<lparr>mt_csi_p := [2, - 1, - 1, - 1], mt_csi_np := 1\<rparr>) 0x4D) 24 7 = black_mosaic"
proof -
  let ?d = "minitel_create\<lparr>mt_csi_p := [2, - 1, - 1, - 1], mt_csi_np := 1\<rparr>"
  have "mt_ok (mt_mem minitel_create) minitel_create"
    using minitel_reset_inv by (simp add: minitel_create_def mt_inv_def)
  then have ok: "mt_ok (mt_mem minitel_create) ?d" by (simp add: mt_ok_defs)
  have st: "\<not> mt_in_row0 ?d" "\<not> mt_csi_bad ?d" "\<not> mt_csi_priv ?d" "csi_arg ?d 0 1 = 2" "mt_row ?d = 1"
    by (simp_all add: minitel_create_def minitel_reset_def minitel_calloc_def Let_def csi_arg_def)
  from minitel_line_ops [OF ok st(1-4), of 7 24] st(5) show ?thesis by simp
qed

end
