(* ===== verification/ZmodemName.thy ===== *)
theory ZmodemName
  imports Prelude
begin

section \<open>Zmodem: names, sizes and paths (zmodem\_recv.c)\<close>

text \<open>
  What the receiver makes of the text a sender chooses: the reduction of a file name to a bare
  local one (\<open>zmodem_recv_sanitize_name\<close>), the parsing of the ZFILE payload and the choice
  of a path that is free. C strings are their bytes without the terminator.
\<close>

definition is_sep :: "byte \<Rightarrow> bool" where
  "is_sep c \<longleftrightarrow> c = 0x2F \<or> c = 0x5C \<or> c = 0x3A"

definition is_illegal :: "byte \<Rightarrow> bool" where
  "is_illegal c \<longleftrightarrow> c < 0x20 \<or> c = 0x7F \<or>
     c \<in> set [0x3C, 0x3E, 0x3A, 0x22, 0x2F, 0x5C, 0x7C, 0x3F, 0x2A]"

definition is_dot_space :: "byte \<Rightarrow> bool" where
  "is_dot_space c \<longleftrightarrow> c = 0x2E \<or> c = 0x20"

definition up_char :: "byte \<Rightarrow> byte" where
  "up_char c = (if 0x61 \<le> c \<and> c \<le> 0x7A then c - 32 else c)"

definition name_is_reserved :: "byte list \<Rightarrow> bool" where
  "name_is_reserved stem =
     (let n = length stem; up = map up_char stem in
      if n = 0 \<or> n \<ge> 16 then False
      else if up \<in> set (map asc [''CON'', ''PRN'', ''AUX'', ''NUL'']) then True
      else n = 4 \<and> 0x31 \<le> up ! 3 \<and> up ! 3 \<le> 0x39 \<and>
           (take 3 up = asc ''COM'' \<or> take 3 up = asc ''LPT''))"

text \<open>The scan that moves \<open>base\<close> behind each separator.\<close>

fun base_of :: "byte list \<Rightarrow> byte list \<Rightarrow> byte list" where
  "base_of base [] = base"
| "base_of base (c # cs) = base_of (if is_sep c then cs else base) cs"

definition trim_tail :: "byte list \<Rightarrow> byte list" where
  "trim_tail s = rev (dropWhile is_dot_space (rev s))"

definition stem_of :: "byte list \<Rightarrow> byte list" where
  "stem_of s = takeWhile (\<lambda>c. c \<noteq> 0x2E) s"

definition fallback_name :: "nat \<Rightarrow> byte list" where
  "fallback_name cap = (if cap > 12 then asc ''download.bin'' else asc ''f'')"

text \<open>\<open>None\<close> is the NULL name; the result is the return code and the string left in \<open>out\<close>.\<close>

definition sanitize_name :: "byte list option \<Rightarrow> nat \<Rightarrow> bool \<times> byte list" where
  "sanitize_name raw cap =
     (let bad = (False, fallback_name cap) in
      case raw of
        None \<Rightarrow> bad
      | Some s \<Rightarrow>
          (let base = base_of s s; n = length base in
           if n = 0 \<or> n \<ge> 256 then bad
           else if list_ex is_illegal base then bad
           else
             let work = trim_tail base in
             if work = [] then bad
             else if work = asc ''.'' \<or> work = asc ''..'' then bad
             else if length (stem_of work) < 16 \<and> name_is_reserved (stem_of work) then bad
             else if length work \<ge> cap then
               (let cut = trim_tail (take (cap - 1) work)
                in if cut = [] then bad else (True, cut))
             else (True, work)))"

subsection \<open>The ZFILE payload\<close>

definition zmr_block_buf :: nat where "zmr_block_buf = 33 * 1024"

fun scan_digits :: "byte list \<Rightarrow> nat \<Rightarrow> 64 word \<Rightarrow> nat \<times> 64 word" where
  "scan_digits [] k v = (k, v)"
| "scan_digits (c # cs) k v =
     (if is_digit c \<and> k < 19 then scan_digits cs (Suc k) (v * 10 + (ucast c - 48)) else (k, v))"

definition parse_zfile :: "byte list \<Rightarrow> nat \<Rightarrow> byte list \<times> 64 word" where
  "parse_zfile buf name_cap =
     (if buf = [] then ([], 0)
      else
        let tmp = take (zmr_block_buf - 1) buf;
            name = takeWhile (\<lambda>c. c \<noteq> 0) tmp;
            info = dropWhile (\<lambda>c. c = 0x20) (drop (length name + 1) tmp);
            (digits, v) = scan_digits info 0 0
        in (snd (sanitize_name (Some name) name_cap), if digits > 0 then v else 0))"

subsection \<open>A path that is free\<close>

text \<open>\<open>_snprintf\<close> with \<open>cap - 1\<close> and the terminator forced at \<open>cap - 1\<close>.\<close>

definition snprintf_cut :: "nat \<Rightarrow> byte list \<Rightarrow> byte list" where
  "snprintf_cut cap s = take (cap - 1) s"

definition split_ext :: "byte list \<Rightarrow> byte list \<times> byte list" where
  "split_ext name =
     (let ext_rev = takeWhile (\<lambda>c. c \<noteq> 0x2E) (rev name);
          pos = length name - length ext_rev - 1
      in if 0x2E \<in> set name \<and> pos \<noteq> 0 \<and> length name - pos < 64
         then (take 259 (take pos name), drop pos name)
         else (take 259 name, []))"

definition numbered_path :: "byte list \<Rightarrow> byte list \<Rightarrow> nat \<Rightarrow> nat \<Rightarrow> byte list" where
  "numbered_path dir name cap n =
     (case split_ext name of
        (stem, ext) \<Rightarrow>
          snprintf_cut cap (dir @ asc [CHR 0x5C] @ stem @ asc '' ('' @ dec_bytes n @ asc '')'' @ ext))"

definition plain_path :: "byte list \<Rightarrow> byte list \<Rightarrow> nat \<Rightarrow> byte list" where
  "plain_path dir name cap = snprintf_cut cap (dir @ asc [CHR 0x5C] @ name)"

text \<open>The result is the return code and what is left in \<open>out\<close>, on failure the last candidate.\<close>

fun try_numbered :: "(byte list \<Rightarrow> bool) \<Rightarrow> (nat \<Rightarrow> byte list) \<Rightarrow> nat \<Rightarrow> nat \<Rightarrow> bool \<times> byte list" where
  "try_numbered exists_file cand n 0 = (False, cand (n - 1))"
| "try_numbered exists_file cand n (Suc k) =
     (if \<not> exists_file (cand n) then (True, cand n) else try_numbered exists_file cand (Suc n) k)"

definition build_unique_path ::
  "(byte list \<Rightarrow> bool) \<Rightarrow> byte list \<Rightarrow> byte list \<Rightarrow> nat \<Rightarrow> bool \<times> byte list" where
  "build_unique_path exists_file dir name cap =
     (if \<not> exists_file (plain_path dir name cap) then (True, plain_path dir name cap)
      else try_numbered exists_file (numbered_path dir name cap) 1 999)"

subsection \<open>Names\<close>

lemma base_of_eq:
  "base_of base s =
    (if \<exists>c\<in>set s. is_sep c then rev (takeWhile (\<lambda>c. \<not> is_sep c) (rev s)) else base)"
proof (induction base s rule: base_of.induct)
  case (1 base)
  then show ?case by simp
next
  case (2 base c cs)
  show ?case
  proof (cases "\<exists>x\<in>set cs. is_sep x")
    case True
    then obtain x where "x \<in> set (rev cs)" "\<not> \<not> is_sep x" by auto
    then have "takeWhile (\<lambda>c. \<not> is_sep c) (rev cs @ [c]) = takeWhile (\<lambda>c. \<not> is_sep c) (rev cs)"
      by (rule takeWhile_append1)
    with True 2 show ?thesis by simp
  next
    case False
    then have "takeWhile (\<lambda>c. \<not> is_sep c) (rev cs @ [c]) = rev cs @ takeWhile (\<lambda>c. \<not> is_sep c) [c]"
      by (intro takeWhile_append2) simp
    with False 2 show ?thesis by auto
  qed
qed

text \<open>The base name is what follows the last separator.\<close>

lemma base_of_last: "\<exists>pre. s = pre @ base_of s s \<and> (\<forall>c\<in>set (base_of s s). \<not> is_sep c) \<and>
    (pre = [] \<or> is_sep (last pre))"
proof (cases "\<exists>c\<in>set s. is_sep c")
  case True
  define p where "p = rev (dropWhile (\<lambda>c. \<not> is_sep c) (rev s))"
  have ne: "dropWhile (\<lambda>c. \<not> is_sep c) (rev s) \<noteq> []" using True by (auto simp: dropWhile_eq_Nil_conv)
  have "rev (takeWhile (\<lambda>c. \<not> is_sep c) (rev s) @ dropWhile (\<lambda>c. \<not> is_sep c) (rev s)) = s"
    by (simp only: takeWhile_dropWhile_id rev_rev_ident)
  then have "rev (dropWhile (\<lambda>c. \<not> is_sep c) (rev s)) @ rev (takeWhile (\<lambda>c. \<not> is_sep c) (rev s)) = s"
    by (simp only: rev_append)
  then have "s = p @ base_of s s" using True by (simp add: base_of_eq p_def)
  moreover have "is_sep (last p)" using hd_dropWhile [OF ne] ne by (simp add: p_def last_rev)
  moreover have "\<forall>c\<in>set (base_of s s). \<not> is_sep c"
    using True by (auto simp: base_of_eq dest: set_takeWhileD)
  ultimately show ?thesis by blast
next
  case False
  then show ?thesis by (intro exI [of _ "[]"]) (simp add: base_of_eq)
qed

lemma trim_tail_prefix: "\<exists>t. s = trim_tail s @ t \<and> (\<forall>c\<in>set t. is_dot_space c)"
proof -
  have "rev (takeWhile is_dot_space (rev s) @ dropWhile is_dot_space (rev s)) = s" by simp
  then have "s = trim_tail s @ rev (takeWhile is_dot_space (rev s))"
    unfolding trim_tail_def by (metis rev_append)
  then show ?thesis
    by (intro exI [of _ "rev (takeWhile is_dot_space (rev s))"]) (auto dest: set_takeWhileD)
qed

lemma trim_tail_set: "set (trim_tail s) \<subseteq> set s"
  by (auto simp: trim_tail_def dest: set_dropWhileD)

lemma trim_tail_length: "length (trim_tail s) \<le> length s"
  using length_dropWhile_le [of is_dot_space "rev s"] by (simp add: trim_tail_def)

lemma trim_tail_last: "trim_tail s \<noteq> [] \<Longrightarrow> \<not> is_dot_space (last (trim_tail s))"
  by (simp add: trim_tail_def last_rev hd_dropWhile)

text \<open>
  What makes a name safe to join to a directory, as the documentation of Windows puts it: the characters that a name may not contain, and the names of the
  devices, in any case and with or without an extension.
\<close>

definition unsafe_chars :: "byte set" where
  "unsafe_chars = {c. c < 0x20} \<union> {0x7F, 0x22, 0x2A, 0x2F, 0x3A, 0x3C, 0x3E, 0x3F, 0x5C, 0x7C}"

definition safe_name :: "byte list \<Rightarrow> bool" where
  "safe_name s \<longleftrightarrow> s \<noteq> [] \<and> set s \<inter> unsafe_chars = {} \<and> last s \<noteq> 0x2E \<and> last s \<noteq> 0x20"

definition windows_devices :: "string list" where
  "windows_devices =
     [''CON'', ''PRN'', ''AUX'', ''NUL'', ''COM1'', ''COM2'', ''COM3'', ''COM4'', ''COM5'', ''COM6'', ''COM7'', ''COM8'', ''COM9'',
      ''LPT1'', ''LPT2'', ''LPT3'', ''LPT4'', ''LPT5'', ''LPT6'', ''LPT7'', ''LPT8'', ''LPT9'']"

definition same_letter :: "byte \<Rightarrow> byte \<Rightarrow> bool" where
  "same_letter c d \<longleftrightarrow> c = d \<or> 0x41 \<le> d \<and> d \<le> 0x5A \<and> c = d + 0x20"

definition device_name :: "byte list \<Rightarrow> bool" where
  "device_name s \<longleftrightarrow>
     (\<exists>d\<in>set windows_devices. \<exists>stem ext. s = stem @ ext \<and> list_all2 same_letter stem (asc d) \<and> (ext = [] \<or> hd ext = 0x2E))"

lemma illegal_unsafe: "is_illegal c \<longleftrightarrow> c \<in> unsafe_chars"
  by (auto simp: is_illegal_def unsafe_chars_def)

lemma safe_nameI: "s \<noteq> [] \<Longrightarrow> \<forall>c\<in>set s. \<not> is_illegal c \<Longrightarrow> \<not> is_dot_space (last s) \<Longrightarrow> safe_name s"
  by (auto simp: safe_name_def illegal_unsafe is_dot_space_def)

lemma device_chars: "d \<in> set windows_devices \<Longrightarrow> c \<in> set (asc d) \<Longrightarrow> 0x41 \<le> c \<and> c \<le> 0x5A \<or> 0x31 \<le> c \<and> c \<le> 0x39"
  by (auto simp: windows_devices_def)

lemma same_letter_up: "same_letter c d \<Longrightarrow> 0x41 \<le> d \<and> d \<le> 0x5A \<or> 0x31 \<le> d \<and> d \<le> 0x39 \<Longrightarrow> up_char c = d \<and> c \<noteq> 0x2E"
proof -
  assume c: "same_letter c d" and d: "0x41 \<le> d \<and> d \<le> 0x5A \<or> 0x31 \<le> d \<and> d \<le> 0x39"
  have n: "65 \<le> unat d \<and> unat d \<le> 90 \<or> 49 \<le> unat d \<and> unat d \<le> 57" using d by (simp add: word_le_nat_alt)
  then have dd: "up_char d = d" "d \<noteq> 0x2E" by (auto simp: up_char_def word_le_nat_alt)
  have "up_char (d + 0x20) = d \<and> d + 0x20 \<noteq> 0x2E" if "0x41 \<le> d" "d \<le> 0x5A"
  proof -
    have "65 \<le> unat d" "unat d \<le> 90" using that by (simp_all add: word_le_nat_alt)
    then have "unat (d + 0x20) = unat d + 32" by (simp add: unat_plus_if')
    then show ?thesis using \<open>65 \<le> unat d\<close> \<open>unat d \<le> 90\<close> by (auto simp: up_char_def word_le_nat_alt)
  qed
  then show ?thesis using c dd by (auto simp: same_letter_def)
qed

lemma same_letters_up:
  "list_all2 same_letter stem ds \<Longrightarrow> \<forall>d\<in>set ds. 0x41 \<le> d \<and> d \<le> 0x5A \<or> 0x31 \<le> d \<and> d \<le> 0x39 \<Longrightarrow> map up_char stem = ds \<and> 0x2E \<notin> set stem"
  by (induction rule: list_all2_induct) (auto dest: same_letter_up)

lemma device_reserved:
  assumes "device_name s"
  shows "name_is_reserved (stem_of s)"
proof -
  obtain d stem ext where d: "d \<in> set windows_devices" "s = stem @ ext" "list_all2 same_letter stem (asc d)" "ext = [] \<or> hd ext = 0x2E"
    using assms by (auto simp: device_name_def)
  then have up: "map up_char stem = asc d" "0x2E \<notin> set stem" using same_letters_up device_chars by blast+
  then have "stem_of s = stem" using d(2,4) by (cases ext) (auto simp: stem_of_def takeWhile_append)
  moreover have "length stem = length (asc d)" using up(1) by (metis length_map)
  moreover have "name_is_reserved stem" if "map up_char stem = asc d" "length stem = length (asc d)" "d \<in> set windows_devices" for d
    using that(3) unfolding windows_devices_def by (auto simp: name_is_reserved_def that(1,2))
  ultimately show ?thesis using up(1) d(1) by simp
qed

lemma fallback_safe: "safe_name (fallback_name cap)" "\<not> device_name (fallback_name cap)"
proof -
  show "safe_name (fallback_name cap)" by (rule safe_nameI) (simp_all add: fallback_name_def is_illegal_def is_dot_space_def)
  have "\<not> name_is_reserved (stem_of (fallback_name cap))" by (simp add: fallback_name_def stem_of_def name_is_reserved_def)
  then show "\<not> device_name (fallback_name cap)" using device_reserved by blast
qed

lemma fallback_length: "2 \<le> cap \<Longrightarrow> length (fallback_name cap) < cap"
  by (simp add: fallback_name_def)

lemma reserved_short: "name_is_reserved s \<Longrightarrow> length s < 16"
  by (auto simp: name_is_reserved_def Let_def split: if_splits)

lemma sanitize_cases:
  obtains (bad) "sanitize_name raw cap = (False, fallback_name cap)"
  | (kept) s work where "raw = Some s" "work = trim_tail (base_of s s)" "work \<noteq> []" "length work < 256"
      "\<not> list_ex is_illegal (base_of s s)" "\<not> device_name work" "length work < cap"
      "sanitize_name raw cap = (True, work)"
  | (cut) s work where "raw = Some s" "work = trim_tail (base_of s s)" "work \<noteq> []" "length work < 256"
      "\<not> list_ex is_illegal (base_of s s)" "cap \<le> length work" "trim_tail (take (cap - 1) work) \<noteq> []"
      "sanitize_name raw cap = (True, trim_tail (take (cap - 1) work))"
proof (cases raw)
  case None
  then show ?thesis using bad by (simp add: sanitize_name_def)
next
  case (Some s)
  define base where "base = base_of s s"
  define work where "work = trim_tail base"
  have len: "length work \<le> length base" by (simp add: work_def trim_tail_length)
  show ?thesis
  proof (cases "length base = 0 \<or> length base \<ge> 256 \<or> list_ex is_illegal base \<or> work = [] \<or>
      (work = asc ''.'' \<or> work = asc ''..'') \<or> (length (stem_of work) < 16 \<and> name_is_reserved (stem_of work))")
    case True
    then have "sanitize_name raw cap = (False, fallback_name cap)"
      by (simp only: Some sanitize_name_def Let_def option.case base_def [symmetric] work_def [symmetric])
        (auto simp del: asc_simps)
    then show ?thesis by (rule bad)
  next
    case False
    then have dev: "\<not> device_name work" using reserved_short device_reserved by blast
    have eq: "sanitize_name raw cap =
        (if length work \<ge> cap then
           (let cut = trim_tail (take (cap - 1) work) in if cut = [] then (False, fallback_name cap) else (True, cut))
         else (True, work))"
      using False
      by (simp only: Some sanitize_name_def Let_def option.case base_def [symmetric] work_def [symmetric])
        (auto simp del: asc_simps)
    have w: "work = trim_tail (base_of s s)" "work \<noteq> []" "length work < 256" "\<not> list_ex is_illegal (base_of s s)"
      using False len by (auto simp: work_def base_def)
    show ?thesis
    proof (cases "length work < cap")
      case True
      with eq show ?thesis using kept [OF Some w dev] by simp
    next
      case False
      show ?thesis
      proof (cases "trim_tail (take (cap - 1) work) = []")
        case True
        with eq False show ?thesis using bad by (simp add: Let_def)
      next
        case False
        with eq \<open>\<not> length work < cap\<close> show ?thesis using cut [OF Some w] by (simp add: Let_def)
      qed
    qed
  qed
qed


subsection \<open>Sizes\<close>

text \<open>The decimal value of digits.\<close>

definition dec_value :: "byte list \<Rightarrow> nat" where
  "dec_value ds = foldl (\<lambda>v c. v * 10 + (unat c - 48)) 0 ds"

lemma scan_digits_exact:
  assumes "unat v = foldl (\<lambda>v c. v * 10 + (unat c - 48)) 0 pre" "length pre = k" "unat v < 10 ^ k"
    "list_all is_digit ds" "length ds + k \<le> 19" "\<not> is_digit c"
  shows "scan_digits (ds @ c # rest) k v = (k + length ds, word_of_nat (dec_value (pre @ ds)))"
  using assms
proof (induction ds arbitrary: pre k v)
  case Nil
  then have "dec_value pre = unat v" by (simp add: dec_value_def)
  then have "word_of_nat (dec_value pre) = v" by simp
  with Nil show ?case by simp
next
  case (Cons d ds)
  have d: "is_digit d" "48 \<le> unat d" "unat d \<le> 57"
    using Cons.prems(4) by (auto simp: is_digit_def word_le_nat_alt)
  have "(10::nat) ^ k \<le> 10 ^ 18" using Cons.prems(5) by (intro power_increasing) auto
  then have small: "unat v * 10 + (unat d - 48) < 2 ^ 64" using Cons.prems(3) d by simp
  have "unat v * 10 + (unat d - 48) < 10 ^ Suc k"
  proof -
    have "unat v * 10 + (unat d - 48) < (unat v + 1) * 10" using d by simp
    also have "\<dots> \<le> 10 ^ k * 10" using Cons.prems(3) by (intro mult_right_mono) auto
    finally show ?thesis by simp
  qed
  moreover have ud: "unat (ucast d - 48 :: 64 word) = unat d - 48"
  proof -
    have "unat (ucast d :: 64 word) = unat d"
      using d(3) by (simp add: unsigned_ucast_eq take_bit_nat_eq_self)
    then show ?thesis using d(2) by (simp add: unat_sub word_le_nat_alt)
  qed
  have "unat (v * 10 + (ucast d - 48)) = unat v * 10 + (unat d - 48)"
    using small ud by (simp add: unat_word_ariths)
  ultimately have "scan_digits (ds @ c # rest) (Suc k) (v * 10 + (ucast d - 48)) =
      (Suc k + length ds, word_of_nat (dec_value ((pre @ [d]) @ ds)))"
    using Cons.prems by (intro Cons.IH) (simp_all add: foldl_append)
  then show ?case using Cons.prems(5) d(1) by simp
qed


subsection \<open>Properties\<close>

lemma sanitize_name_parts:
  assumes "2 \<le> cap"
  shows "safe_name (snd (sanitize_name raw cap)) \<and> length (snd (sanitize_name raw cap)) < cap \<and>
    (256 \<le> cap \<longrightarrow> \<not> device_name (snd (sanitize_name raw cap))) \<and>
    (fst (sanitize_name raw cap) \<longrightarrow>
      (\<exists>pre post s. raw = Some s \<and> s = pre @ snd (sanitize_name raw cap) @ post \<and>
         (pre = [] \<or> is_sep (last pre)) \<and> (\<forall>c\<in>set post. \<not> is_sep c)))"
proof -
  have piece: "\<exists>pre post. s = pre @ w @ post \<and> (pre = [] \<or> is_sep (last pre)) \<and> (\<forall>c\<in>set post. \<not> is_sep c)"
    if w: "base_of s s = w @ t" for s w t
  proof -
    obtain pre where pre: "s = pre @ base_of s s" "\<forall>c\<in>set (base_of s s). \<not> is_sep c"
      "pre = [] \<or> is_sep (last pre)" using base_of_last by blast
    then have "s = pre @ w @ t" "\<forall>c\<in>set t. \<not> is_sep c" using w by auto
    with pre(3) show ?thesis by blast
  qed
  show ?thesis
  proof (rule sanitize_cases [of raw cap])
    assume "sanitize_name raw cap = (False, fallback_name cap)"
    then show ?thesis using fallback_safe fallback_length [OF assms] by simp
  next
    fix s work
    assume w: "raw = Some s" "work = trim_tail (base_of s s)" "work \<noteq> []" "length work < 256"
      "\<not> list_ex is_illegal (base_of s s)" "\<not> device_name work" "length work < cap"
      "sanitize_name raw cap = (True, work)"
    obtain t where "base_of s s = work @ t" using trim_tail_prefix [of "base_of s s"] w(2) by auto
    with piece have "\<exists>pre post. s = pre @ work @ post \<and> (pre = [] \<or> is_sep (last pre)) \<and> (\<forall>c\<in>set post. \<not> is_sep c)"
      by blast
    moreover have "safe_name work"
      using w(3,5) trim_tail_set [of "base_of s s"] trim_tail_last [of "base_of s s"]
      by (intro safe_nameI) (auto simp: w(2) list_ex_iff)
    ultimately show ?thesis using w by auto
  next
    fix s work
    assume w: "raw = Some s" "work = trim_tail (base_of s s)" "work \<noteq> []" "length work < 256"
      "\<not> list_ex is_illegal (base_of s s)" "cap \<le> length work" "trim_tail (take (cap - 1) work) \<noteq> []"
      "sanitize_name raw cap = (True, trim_tail (take (cap - 1) work))"
    define cut where "cut = trim_tail (take (cap - 1) work)"
    obtain t where t: "base_of s s = work @ t" using trim_tail_prefix [of "base_of s s"] w(2) by auto
    obtain u where "take (cap - 1) work = cut @ u" using trim_tail_prefix [of "take (cap - 1) work"] by (auto simp: cut_def)
    then have "base_of s s = cut @ (u @ drop (cap - 1) work @ t)"
      using t by (metis append.assoc append_take_drop_id)
    with piece have "\<exists>pre post. s = pre @ cut @ post \<and> (pre = [] \<or> is_sep (last pre)) \<and> (\<forall>c\<in>set post. \<not> is_sep c)"
      by blast
    moreover have sub: "set cut \<subseteq> set (base_of s s)"
      using trim_tail_set [of "take (cap - 1) work"] t by (auto simp: cut_def dest: in_set_takeD)
    then have "safe_name cut"
      using w(5,7) trim_tail_last [of "take (cap - 1) work"] by (intro safe_nameI) (auto simp: cut_def list_ex_iff)
    moreover have "length cut < cap"
      using trim_tail_length [of "take (cap - 1) work"] assms by (simp add: cut_def) linarith
    moreover have "sanitize_name raw cap = (True, cut)" using w(8) by (simp only: cut_def)
    moreover have "\<not> 256 \<le> cap" using w(4,6) by simp
    ultimately show ?thesis using w(1) by simp
  qed
qed

text \<open>
  C28: The name a sender chooses never decides where the file lands. For every received name and
  buffer of at least two bytes, what comes out is not empty, fits with its terminator, has no
  path separator, drive colon, wildcard, quote or control byte, and does not end in a dot or a space
  (so it is neither \<open>.\<close> nor \<open>..\<close>); with the 256 bytes and more that the program passes, it is none of
  the 22 device names that Windows documents, in whatever case and with whatever extension, and an accepted name is a piece of what follows the
  last slash, backslash or colon.
\<close>

theorem sanitize_name_safe:
  assumes "2 \<le> cap"
  shows "safe_name (snd (sanitize_name raw cap)) \<and> length (snd (sanitize_name raw cap)) < cap \<and>
    (256 \<le> cap \<longrightarrow> \<not> device_name (snd (sanitize_name raw cap))) \<and>
    (fst (sanitize_name raw cap) \<longrightarrow>
      (\<exists>pre post s. raw = Some s \<and> s = pre @ snd (sanitize_name raw cap) @ post \<and>
         (pre = [] \<or> last pre \<in> {0x2F, 0x5C, 0x3A}) \<and> set post \<inter> {0x2F, 0x5C, 0x3A} = {}))"
proof -
  have sep: "is_sep c \<longleftrightarrow> c \<in> {0x2F, 0x5C, 0x3A}" for c by (simp add: is_sep_def)
  have dj: "(\<forall>c\<in>set post. c \<notin> A) \<longleftrightarrow> set post \<inter> A = {}" for post and A :: "byte set" by blast
  show ?thesis using sanitize_name_parts [OF assms, of raw] unfolding sep dj .
qed

lemma sanitize_name_safe_witness:
  "safe_name (snd (sanitize_name (Some (asc ''C:/x/../a.txt. '')) 260)) \<and> \<not> device_name (snd (sanitize_name (Some (asc ''C:/x/../lpt9.txt'')) 260))"
proof -
  have "(2::nat) \<le> 260" by simp
  then show ?thesis using sanitize_name_safe [of 260] by (simp del: asc_simps)
qed

text \<open>
  The check for device names comes before the cut to the caller's buffer, so a short buffer
  can be given a device name: \<open>CONFIG\<close> for a buffer of four bytes becomes the accepted name
  \<open>CON\<close>. (The program passes 260 bytes, for which \<open>sanitize_name_safe\<close> excludes this.)
\<close>

lemma sanitize_name_cut_device:
  shows "sanitize_name (Some (asc ''CONFIG'')) 4 = (True, asc ''CON'') \<and> device_name (asc ''CON'')"
proof
  show "sanitize_name (Some (asc ''CONFIG'')) 4 = (True, asc ''CON'')"
    by (simp add: sanitize_name_def Let_def is_sep_def is_illegal_def trim_tail_def is_dot_space_def
        stem_of_def name_is_reserved_def up_char_def)
  have "''CON'' \<in> set windows_devices" by (simp add: windows_devices_def)
  moreover have "list_all2 same_letter (asc ''CON'') (asc ''CON'')" by (rule list_all2_refl) (simp add: same_letter_def)
  moreover have "asc ''CON'' = asc ''CON'' @ []" by simp
  ultimately show "device_name (asc ''CON'')" unfolding device_name_def by blast
qed

text \<open>
  a ZFILE payload \<open>name NUL size ...\<close> of at most 19 digits gives the sanitised name and
  exactly the decimal value of the size, the 64-bit sum never wrapping.
\<close>

theorem parse_zfile_size:
  assumes "0 \<notin> set name" "list_all is_digit ds" "ds \<noteq> []" "length ds \<le> 19" "\<not> is_digit c"
    "length name + length ds + length rest + 2 < zmr_block_buf"
  shows "parse_zfile (name @ [0] @ ds @ c # rest) cap =
    (snd (sanitize_name (Some name) cap), word_of_nat (dec_value ds)) \<and>
    unat (word_of_nat (dec_value ds) :: 64 word) = dec_value ds"
proof -
  have tmp: "take (zmr_block_buf - 1) (name @ [0] @ ds @ c # rest) = name @ [0] @ ds @ c # rest"
    using assms(6) by simp
  have nm: "takeWhile (\<lambda>c. c \<noteq> 0) (name @ [0] @ ds @ c # rest) = name"
    using assms(1) by (induction name) auto
  have "hd ds \<noteq> 0x20" using assms(2,3) by (cases ds) (auto simp: is_digit_def)
  then have info: "dropWhile (\<lambda>c. c = 0x20) (drop (length name + 1) (name @ [0] @ ds @ c # rest)) = ds @ c # rest"
    using assms(3) by (cases ds) auto
  have scan: "scan_digits (ds @ c # rest) 0 0 = (length ds, word_of_nat (dec_value ds))"
    using scan_digits_exact [of 0 "[]" 0 ds c rest] assms(2,4,5) by simp
  have "dec_value ds < 10 ^ length ds" using assms(2)
  proof (induction ds rule: rev_induct)
    case Nil
    then show ?case by (simp add: dec_value_def)
  next
    case (snoc d ds)
    have "unat d - 48 < 10" using snoc.prems by (auto simp: is_digit_def word_le_nat_alt)
    moreover have "dec_value (ds @ [d]) = dec_value ds * 10 + (unat d - 48)" by (simp add: dec_value_def)
    ultimately show ?case using snoc by simp
  qed
  also have "(10::nat) ^ length ds \<le> 10 ^ 19" using assms(4) by (intro power_increasing) auto
  finally have small: "dec_value ds < 2 ^ 64" by simp
  show ?thesis
    unfolding parse_zfile_def Let_def tmp nm info scan
    using small assms(3) by (simp add: unsigned_of_nat take_bit_nat_eq_self)
qed

lemma parse_zfile_size_witness:
  "parse_zfile (asc ''a'' @ [0] @ [0x31, 0x32] @ 0x20 # []) 260 =
    (snd (sanitize_name (Some (asc ''a'')) 260), word_of_nat (dec_value [0x31, 0x32]))"
proof -
  have "(0::byte) \<notin> set (asc ''a'')" "list_all is_digit [0x31, 0x32]" "[0x31, 0x32 :: byte] \<noteq> []"
    "length [0x31, 0x32 :: byte] \<le> 19" "\<not> is_digit 0x20"
    "length (asc ''a'') + length [0x31, 0x32 :: byte] + length ([] :: byte list) + 2 < zmr_block_buf"
    by (simp_all add: is_digit_def zmr_block_buf_def)
  from parse_zfile_size [OF this] show ?thesis by blast
qed

end
