(* ===== verification/ZmodemRecv.thy ===== *)
theory ZmodemRecv
  imports ZmodemName
begin

section \<open>Zmodem: the receiving session (zmodem\_recv.c)\<close>

text \<open>
  The worker \<open>zmr_thread\<close> as a function of what the vendored core, the user and the disk answer:
  one \<open>hround\<close> per header awaited, one \<open>dround\<close> per data block read. The file system is a map
  from paths to contents; the frames sent back are a list. A script that ends is a sender that
  stays silent: \<open>ring_pop\<close> gives up after its idle time and the core returns CLOSED. Progress
  messages are not modelled, nor the numbers the messages of \<open>detail\<close> are formatted with.
\<close>

subsection \<open>Data\<close>

datatype ztype =
    ZRQINIT | ZRINIT | ZSINIT | ZACK | ZFILE | ZSKIP | ZNAK | ZABORT | ZFIN | ZRPOS | ZDATA | ZEOF
  | ZERR | ZCRC | ZCHALLENGE | ZCOMPL | ZCAN | ZFREECOUNT | ZCOMMAND | ZSTDERR | ZUNKNOWN byte

datatype zmr_status =
    ZMR_OK | ZMR_CANCELLED | ZMR_REFUSED | ZMR_TOO_BIG | ZMR_BAD_NAME | ZMR_IO_ERROR
  | ZMR_PROTOCOL_ERROR | ZMR_TIMEOUT | ZMR_ABORTED

datatype zframe = POS_HDR ztype u32 | FLAGS_HDR ztype byte | CANCEL_SEQ

text \<open>What \<open>zm_read_data_block\<close> returns; the payload is without the frame-end byte.\<close>

datatype frame_end = GOT_CRCE | GOT_CRCG | GOT_CRCQ | GOT_CRCW | GOT_OTHER

datatype dres = DCancelled | DClosed | DBad | DData frame_end "byte list"

text \<open>What \<open>zm_await_header\<close> returns: a code, or a header of a type with a position.\<close>

datatype hres = HCancelled | HClosed | HBad | HOk ztype u32

record dround =
  dr_cancel :: bool
  dr_res :: dres
  dr_cancel2 :: bool
  dr_short :: "nat option"

record hround =
  hr_cancel :: bool
  hr_res :: hres
  hr_cancel2 :: bool
  hr_block :: dround
  hr_blocks :: "dround list"
  hr_fopen_ok :: bool
  hr_fflush_ok :: bool

record zmodem =
  z_dir :: "byte list"
  z_files :: "byte list \<Rightarrow> byte list option"
  z_isdir :: "byte list \<Rightarrow> bool"
  z_send_ok :: "nat \<Rightarrow> bool"
  z_sends :: nat
  z_sent :: "zframe list"
  z_send_failed :: bool
  z_status :: zmr_status
  z_received :: nat
  z_total :: nat
  z_name :: "byte list"
  z_path :: "byte list"
  z_detail :: string
  z_open :: bool
  z_errors :: nat
  z_running :: bool
  z_saw_file :: bool

definition zmr_max_bytes :: nat where "zmr_max_bytes = 256 * 1024 * 1024"
definition zmr_max_errors :: nat where "zmr_max_errors = 32"
definition zmr_caps :: byte where "zmr_caps = 0x23"
definition max_path :: nat where "max_path = 260"

subsection \<open>Replies\<close>

definition zsend_frame :: "zmodem \<Rightarrow> zframe \<Rightarrow> zmodem" where
  "zsend_frame z f =
     z\<lparr>z_sent := z_sent z @ [f], z_sends := Suc (z_sends z),
       z_send_failed := (z_send_failed z \<or> \<not> z_send_ok z (z_sends z))\<rparr>"

definition zsend_pos :: "zmodem \<Rightarrow> ztype \<Rightarrow> u32 \<Rightarrow> zmodem" where
  "zsend_pos z t pos = zsend_frame z (POS_HDR t pos)"

definition zsend_flags :: "zmodem \<Rightarrow> ztype \<Rightarrow> byte \<Rightarrow> zmodem" where
  "zsend_flags z t f0 = zsend_frame z (FLAGS_HDR t f0)"

definition zsend_cancel :: "zmodem \<Rightarrow> zmodem" where
  "zsend_cancel z = z\<lparr>z_sent := z_sent z @ [CANCEL_SEQ], z_sends := Suc (z_sends z)\<rparr>"

definition zstop :: "zmodem \<Rightarrow> zmr_status \<Rightarrow> string \<Rightarrow> zmodem" where
  "zstop z st msg = z\<lparr>z_status := st, z_detail := msg, z_running := False\<rparr>"

text \<open>\<open>zmr_own_cancel\<close> and the attribution to the far end that follows it.\<close>

definition zmr_own_cancel :: "zmodem \<Rightarrow> bool \<Rightarrow> bool \<times> zmodem" where
  "zmr_own_cancel z cancel =
     (if \<not> cancel then (False, z)
      else (True, (zsend_cancel z)\<lparr>z_status := ZMR_CANCELLED, z_detail := ''Cancelled.''\<rparr>))"

definition far_stop :: "zmodem \<Rightarrow> bool \<Rightarrow> zmr_status \<Rightarrow> string \<Rightarrow> zmodem" where
  "far_stop z cancel st msg =
     (case zmr_own_cancel z cancel of
        (True, z1) \<Rightarrow> z1\<lparr>z_running := False\<rparr>
      | (False, z1) \<Rightarrow> zstop z1 st msg)"

subsection \<open>The file\<close>

definition out_close :: "zmodem \<Rightarrow> zmodem" where
  "out_close z = z\<lparr>z_open := False\<rparr>"

definition append_file :: "zmodem \<Rightarrow> byte list \<Rightarrow> zmodem" where
  "append_file z bs =
     z\<lparr>z_files := (z_files z)(z_path z :=
       Some ((case z_files z (z_path z) of None \<Rightarrow> [] | Some c \<Rightarrow> c) @ bs))\<rparr>"

definition no_free_name :: string where
  "no_free_name = ''Could not find a free name in the download folder.''"

definition handle_zfile :: "zmodem \<Rightarrow> dround \<Rightarrow> bool \<Rightarrow> zmodem" where
  "handle_zfile z blk fopen_ok =
     (case dr_res blk of
        DCancelled \<Rightarrow> far_stop z (dr_cancel2 blk) ZMR_ABORTED ''The sender cancelled the transfer.''
      | DClosed \<Rightarrow>
          (let z1 = z\<lparr>z_errors := z_errors z + 1\<rparr>
           in if z_errors z1 > zmr_max_errors
              then zstop z1 ZMR_PROTOCOL_ERROR ''The file header would not decode.''
              else zsend_pos z1 ZNAK 0)
      | DBad \<Rightarrow>
          (let z1 = z\<lparr>z_errors := z_errors z + 1\<rparr>
           in if z_errors z1 > zmr_max_errors
              then zstop z1 ZMR_PROTOCOL_ERROR ''The file header would not decode.''
              else zsend_pos z1 ZNAK 0)
      | DData _ payload \<Rightarrow>
          (case parse_zfile payload 260 of
             (name, advertised) \<Rightarrow>
               if unat advertised > zmr_max_bytes then
                 zstop (zsend_cancel z) ZMR_TOO_BIG ''The sender offered more bytes than the limit.''
               else
                 let z1 = (out_close z)\<lparr>z_name := take 259 name, z_total := unat advertised, z_received := 0\<rparr>
                 in case build_unique_path (\<lambda>p. z_files z1 p \<noteq> None \<or> z_isdir z1 p) (z_dir z1) (z_name z1) max_path of
                      (False, p) \<Rightarrow>
                        zstop (zsend_cancel (z1\<lparr>z_path := p\<rparr>)) ZMR_IO_ERROR no_free_name
                    | (True, p) \<Rightarrow>
                        let z2 = z1\<lparr>z_path := p\<rparr>
                        in if \<not> fopen_ok then
                             zstop (zsend_cancel z2) ZMR_IO_ERROR
                               ''Could not create the file in the download folder.''
                           else
                             zsend_pos (z2\<lparr>z_files := (z_files z2)(p := Some []), z_open := True,
                                          z_saw_file := True\<rparr>) ZRPOS 0))"

fun zdata_loop :: "zmodem \<Rightarrow> dround list \<Rightarrow> zmodem" where
  "zdata_loop z [] = zstop z ZMR_TIMEOUT ''The sender stopped responding.''"
| "zdata_loop z (r # rs) =
     (if dr_cancel r then zstop (zsend_cancel z) ZMR_CANCELLED ''Cancelled.''
      else case dr_res r of
        DCancelled \<Rightarrow> far_stop z (dr_cancel2 r) ZMR_ABORTED ''The sender cancelled the transfer.''
      | DClosed \<Rightarrow> far_stop z (dr_cancel2 r) ZMR_TIMEOUT ''The sender stopped responding.''
      | DBad \<Rightarrow>
          (let z1 = z\<lparr>z_errors := z_errors z + 1\<rparr>
           in if z_errors z1 > zmr_max_errors
              then zstop z1 ZMR_PROTOCOL_ERROR ''Too many bad blocks; gave up.''
              else zsend_pos z1 ZRPOS (word_of_nat (z_received z1)))
      | DData fin payload \<Rightarrow>
          (let z1 = z\<lparr>z_errors := 0\<rparr>
           in if z_received z1 + length payload > zmr_max_bytes then
                zstop (zsend_cancel z1) ZMR_TOO_BIG
                  ''The transfer ran past the size limit and was stopped.''
              else if payload \<noteq> [] \<and> dr_short r \<noteq> None then
                zstop (zsend_cancel (append_file z1 (take (the (dr_short r)) payload))) ZMR_IO_ERROR
                  ''Writing to the download folder failed.''
              else
                let z2 = (if payload \<noteq> []
                          then (append_file z1 payload)\<lparr>z_received := z_received z1 + length payload\<rparr>
                          else z1)
                in case fin of
                     GOT_CRCE \<Rightarrow> z2
                   | GOT_CRCG \<Rightarrow> zdata_loop z2 rs
                   | GOT_CRCQ \<Rightarrow> zdata_loop (zsend_pos z2 ZACK (word_of_nat (z_received z2))) rs
                   | GOT_CRCW \<Rightarrow> zsend_pos z2 ZACK (word_of_nat (z_received z2))
                   | GOT_OTHER \<Rightarrow> zstop z2 ZMR_PROTOCOL_ERROR ''Unexpected end of data block.''))"

definition handle_zdata :: "zmodem \<Rightarrow> u32 \<Rightarrow> dround list \<Rightarrow> zmodem" where
  "handle_zdata z hpos blocks =
     (if \<not> z_open z then zsend_pos z ZRPOS 0
      else if unat hpos \<noteq> z_received z then zsend_pos z ZRPOS (word_of_nat (z_received z))
      else zdata_loop z blocks)"

definition handle_zfin :: "zmodem \<Rightarrow> zmodem" where
  "handle_zfin z0 =
     (let z = zsend_flags z0 ZFIN 0;
          z1 = (if z_saw_file z \<and> z_open z then z\<lparr>z_status := ZMR_OK, z_detail := ''Received''\<rparr>
                else if \<not> z_saw_file z
                then z\<lparr>z_status := ZMR_PROTOCOL_ERROR,
                       z_detail := ''The sender finished without offering a file.''\<rparr>
                else z)
      in z1\<lparr>z_running := False\<rparr>)"

subsection \<open>One header\<close>

definition handle_header :: "zmodem \<Rightarrow> ztype \<Rightarrow> u32 \<Rightarrow> hround \<Rightarrow> zmodem" where
  "handle_header z t pos r =
     (case t of
        ZCOMMAND \<Rightarrow> zstop (zsend_cancel z) ZMR_REFUSED ''The sender asked to run a command. Refused.''
      | ZCOMPL \<Rightarrow> zstop (zsend_cancel z) ZMR_REFUSED ''The sender asked to run a command. Refused.''
      | ZRQINIT \<Rightarrow> zsend_flags z ZRINIT zmr_caps
      | ZSINIT \<Rightarrow>
          (if dr_res (hr_block r) = DCancelled
           then far_stop z (dr_cancel2 (hr_block r)) ZMR_ABORTED ''The sender cancelled the transfer.''
           else zsend_flags z ZACK 0)
      | ZCHALLENGE \<Rightarrow> zsend_pos z ZACK pos
      | ZFREECOUNT \<Rightarrow> zsend_pos z ZACK (word_of_nat zmr_max_bytes)
      | ZFILE \<Rightarrow> handle_zfile z (hr_block r) (hr_fopen_ok r)
      | ZDATA \<Rightarrow> handle_zdata z pos (hr_blocks r)
      | ZEOF \<Rightarrow>
          (if z_open z \<and> \<not> hr_fflush_ok r
           then zstop z ZMR_IO_ERROR ''Writing to the download folder failed.''
           else zsend_flags z ZRINIT zmr_caps)
      | ZFIN \<Rightarrow> handle_zfin z
      | ZSKIP \<Rightarrow> zstop z ZMR_ABORTED ''The sender abandoned the transfer.''
      | ZABORT \<Rightarrow> zstop z ZMR_ABORTED ''The sender abandoned the transfer.''
      | ZERR \<Rightarrow> zstop z ZMR_ABORTED ''The sender abandoned the transfer.''
      | ZCAN \<Rightarrow> zstop z ZMR_ABORTED ''The sender abandoned the transfer.''
      | _ \<Rightarrow>
          (let z1 = z\<lparr>z_errors := z_errors z + 1\<rparr>
           in if z_errors z1 > zmr_max_errors
              then zstop z1 ZMR_PROTOCOL_ERROR ''The sender kept sending frames we do not know.''
              else zsend_pos z1 ZNAK 0))"

definition zmr_round :: "zmodem \<Rightarrow> hround \<Rightarrow> zmodem" where
  "zmr_round z r =
     (if hr_cancel r then zstop (zsend_cancel z) ZMR_CANCELLED ''Cancelled.''
      else if z_send_failed z
      then zstop z ZMR_ABORTED ''The connection dropped during the transfer.''
      else case hr_res r of
        HCancelled \<Rightarrow> far_stop z (hr_cancel2 r) ZMR_ABORTED ''The sender cancelled the transfer.''
      | HClosed \<Rightarrow> far_stop z (hr_cancel2 r) ZMR_TIMEOUT ''The sender stopped responding.''
      | HBad \<Rightarrow>
          (let z1 = z\<lparr>z_errors := z_errors z + 1\<rparr>
           in if z_errors z1 > zmr_max_errors
              then zstop z1 ZMR_PROTOCOL_ERROR ''Too many protocol errors; gave up.''
              else if z_open z1 then zsend_pos z1 ZRPOS (word_of_nat (z_received z1))
              else zsend_pos z1 ZNAK 0)
      | HOk t pos \<Rightarrow> handle_header (z\<lparr>z_errors := 0\<rparr>) t pos r)"

fun zmr_loop :: "zmodem \<Rightarrow> hround list \<Rightarrow> zmodem" where
  "zmr_loop z [] = (if z_running z then zstop z ZMR_TIMEOUT ''The sender stopped responding.'' else z)"
| "zmr_loop z (r # rs) = (if z_running z then zmr_loop (zmr_round z r) rs else z)"

definition zmr_begin :: "zmodem \<Rightarrow> zmodem" where
  "zmr_begin z =
     zsend_flags (z\<lparr>z_open := False, z_errors := 0, z_running := True, z_saw_file := False,
                    z_status := ZMR_PROTOCOL_ERROR, z_detail := ''The transfer did not start.''\<rparr>)
       ZRINIT zmr_caps"

definition zmr_end :: "zmodem \<Rightarrow> zmodem" where
  "zmr_end z0 =
     (let z = out_close z0 in
      if z_status z \<noteq> ZMR_OK \<and> z_path z \<noteq> []
      then z\<lparr>z_files := (z_files z)(z_path z := None), z_path := []\<rparr>
      else z)"

definition zmr_thread :: "zmodem \<Rightarrow> hround list \<Rightarrow> zmodem" where
  "zmr_thread z rounds = zmr_end (zmr_loop (zmr_begin z) rounds)"

text \<open>\<open>zmodem_recv_start\<close> on a directory and the files that are there.\<close>

definition zmodem_recv_start ::
  "byte list \<Rightarrow> (byte list \<Rightarrow> byte list option) \<Rightarrow> (byte list \<Rightarrow> bool) \<Rightarrow> (nat \<Rightarrow> bool) \<Rightarrow> zmodem" where
  "zmodem_recv_start dir files isdir send_ok =
     \<lparr>z_dir = dir, z_files = files, z_isdir = isdir, z_send_ok = send_ok, z_sends = 0, z_sent = [],
      z_send_failed = False, z_status = ZMR_PROTOCOL_ERROR, z_received = 0, z_total = 0,
      z_name = [], z_path = [], z_detail = [], z_open = False, z_errors = 0, z_running = False,
      z_saw_file = False\<rparr>"

end
