(* ===== verification/ZmodemSafe.thy ===== *)
theory ZmodemSafe
  imports ZmodemRecv
begin

section \<open>Zmodem: what a session does to the disk\<close>

text \<open>
  The invariant \<open>zgood\<close> of the session of \<open>ZmodemRecv\<close> relates the files on the disk to the ones
  that were there at the start, and \<open>file_rounds_run\<close> follows a sender that keeps to the protocol.
  The properties are what a user relies on: nothing of theirs is overwritten, a file that is sent
  correctly arrives, a command is never run.
\<close>

subsection \<open>What the session does to the disk\<close>

text \<open>
  \<open>zgood F0 z\<close>, for the files \<open>F0\<close> that were there: none of them has changed, every new file is
  under the ceiling, the current path is a new file, and an open one holds what was received.
\<close>

definition old_kept :: "(byte list \<Rightarrow> byte list option) \<Rightarrow> zmodem \<Rightarrow> bool" where
  "old_kept F0 z \<longleftrightarrow> (\<forall>p. F0 p \<noteq> None \<longrightarrow> z_files z p = F0 p) \<and>
     (\<forall>p c. F0 p = None \<longrightarrow> z_files z p = Some c \<longrightarrow> length c \<le> zmr_max_bytes)"

definition zgood :: "(byte list \<Rightarrow> byte list option) \<Rightarrow> zmodem \<Rightarrow> bool" where
  "zgood F0 z \<longleftrightarrow> old_kept F0 z \<and> (z_path z \<noteq> [] \<longrightarrow> F0 (z_path z) = None) \<and>
     (z_open z \<longrightarrow> F0 (z_path z) = None \<and>
        (\<exists>c. z_files z (z_path z) = Some c \<and> (z_running z \<longrightarrow> length c = z_received z)))"

definition znoname :: "(byte list \<Rightarrow> byte list option) \<Rightarrow> zmodem \<Rightarrow> bool" where
  "znoname F0 z \<longleftrightarrow> old_kept F0 z \<and> \<not> z_running z \<and> z_detail z = no_free_name"

lemmas zgood_defs = zgood_def old_kept_def

lemma zsend_frame_good [simp]: "zgood F0 (zsend_frame z f) = zgood F0 z"
  by (simp add: zsend_frame_def zgood_defs)

lemma zsend_good [simp]:
  "zgood F0 (zsend_pos z t pos) = zgood F0 z" "zgood F0 (zsend_flags z t b) = zgood F0 z"
  "zgood F0 (zsend_cancel z) = zgood F0 z"
  by (simp_all add: zsend_pos_def zsend_flags_def) (simp add: zsend_cancel_def zgood_defs)

lemma zsend_running [simp]:
  "z_running (zsend_pos z t pos) = z_running z" "z_running (zsend_flags z t b) = z_running z"
  "z_running (zsend_cancel z) = z_running z"
  by (simp_all add: zsend_pos_def zsend_flags_def zsend_frame_def zsend_cancel_def)

lemma zgood_irrelevant [simp]:
  "zgood F0 (z\<lparr>z_errors := e\<rparr>) = zgood F0 z" "zgood F0 (z\<lparr>z_status := s\<rparr>) = zgood F0 z"
  "zgood F0 (z\<lparr>z_detail := d\<rparr>) = zgood F0 z"
  by (simp_all add: zgood_defs)

lemma zgood_stop: "zgood F0 z \<Longrightarrow> zgood F0 (z\<lparr>z_running := False\<rparr>)"
  by (auto simp: zgood_defs)

lemma zstop_good [simp]: "zgood F0 z \<Longrightarrow> zgood F0 (zstop z st msg)"
  by (auto simp: zstop_def zgood_defs)

lemma far_stop_good [simp]: "zgood F0 z \<Longrightarrow> zgood F0 (far_stop z c st msg)"
  by (auto simp: far_stop_def zmr_own_cancel_def zsend_cancel_def zstop_def zgood_defs)

lemma zgood_append:
  assumes "zgood F0 z" "z_open z" "z_running z" "z_received z + length bs \<le> zmr_max_bytes"
  shows "zgood F0 ((append_file z bs)\<lparr>z_received := z_received z + length bs\<rparr>)"
    and "length bs' \<le> length bs \<Longrightarrow> zgood F0 ((append_file z bs')\<lparr>z_running := False\<rparr>)"
  using assms by (auto simp: zgood_defs append_file_def)

lemma zdata_loop_good:
  "zgood F0 z \<Longrightarrow> z_open z \<Longrightarrow> z_running z \<Longrightarrow> zgood F0 (zdata_loop z rs)"
proof (induction rs arbitrary: z)
  case Nil
  then show ?case by simp
next
  case (Cons r rs)
  show ?case
  proof (cases "dr_res r")
    case (DData fin payload)
    define z1 where "z1 = z\<lparr>z_errors := 0\<rparr>"
    define z2 where "z2 = (if payload \<noteq> []
        then (append_file z1 payload)\<lparr>z_received := z_received z1 + length payload\<rparr> else z1)"
    have z1: "zgood F0 z1" "z_open z1" "z_running z1" using Cons.prems by (simp_all add: z1_def)
    show ?thesis
    proof (cases "dr_cancel r \<or> z_received z1 + length payload > zmr_max_bytes")
      case True
      then show ?thesis using Cons.prems z1 DData by (auto simp: z1_def Let_def)
    next
      case fits: False
      show ?thesis
      proof (cases "payload \<noteq> [] \<and> dr_short r \<noteq> None")
        case True
        have "length (take (the (dr_short r)) payload) \<le> length payload" by simp
        then have "zgood F0 ((append_file z1 (take (the (dr_short r)) payload))\<lparr>z_running := False\<rparr>)"
          using zgood_append(2) [OF z1, of payload] fits by simp
        then have "zgood F0 (zstop (zsend_cancel (append_file z1 (take (the (dr_short r)) payload))) st msg)" for st msg
          by (simp add: zstop_def zsend_cancel_def zgood_defs)
        then show ?thesis using DData fits True by (simp add: z1_def [symmetric] Let_def)
      next
        case False
        have z2: "zgood F0 z2" "z_open z2" "z_running z2"
          using zgood_append(1) [OF z1, of payload] z1 fits by (simp_all add: z2_def append_file_def)
        have eq: "zdata_loop z (r # rs) = (case fin of
              GOT_CRCE \<Rightarrow> z2 | GOT_CRCG \<Rightarrow> zdata_loop z2 rs
            | GOT_CRCQ \<Rightarrow> zdata_loop (zsend_pos z2 ZACK (word_of_nat (z_received z2))) rs
            | GOT_CRCW \<Rightarrow> zsend_pos z2 ZACK (word_of_nat (z_received z2))
            | GOT_OTHER \<Rightarrow> zstop z2 ZMR_PROTOCOL_ERROR ''Unexpected end of data block.'')"
          using DData fits False
          by (simp only: zdata_loop.simps Let_def z1_def [symmetric] z2_def [symmetric] dres.case) simp
        have send: "z_open (zsend_pos z2 t p) = z_open z2" for t p
          by (simp add: zsend_pos_def zsend_frame_def)
        show ?thesis
          unfolding eq
          using z2 by (cases fin) (auto simp: send intro!: Cons.IH)
      qed
    qed
  qed (use Cons.prems in \<open>auto simp: Let_def\<close>)
qed

lemma try_numbered_True: "try_numbered ex cand n k = (True, p) \<Longrightarrow> \<not> ex p"
  by (induction ex cand n k rule: try_numbered.induct) (auto split: if_splits)

lemma build_unique_True: "build_unique_path ex dir name cap = (True, p) \<Longrightarrow> \<not> ex p"
  by (auto simp: build_unique_path_def dest: try_numbered_True split: if_splits)

lemma handle_zfile_good:
  assumes good: "zgood F0 z" and run: "z_running z"
  shows "zgood F0 (handle_zfile z blk ok) \<or> znoname F0 (handle_zfile z blk ok)"
proof (cases "dr_res blk")
  case (DData fin payload)
  obtain name adv where p: "parse_zfile payload 260 = (name, adv)" by (cases "parse_zfile payload 260")
  define z1 where "z1 = (out_close z)\<lparr>z_name := take 259 name, z_total := unat adv, z_received := 0\<rparr>"
  obtain found path where u: "build_unique_path (\<lambda>p. z_files z1 p \<noteq> None \<or> z_isdir z1 p) (z_dir z1) (z_name z1) max_path = (found, path)"
    by (cases "build_unique_path (\<lambda>p. z_files z1 p \<noteq> None \<or> z_isdir z1 p) (z_dir z1) (z_name z1) max_path")
  have z1: "zgood F0 z1" "old_kept F0 z1" using good by (simp_all add: z1_def out_close_def zgood_defs)
  show ?thesis
  proof (cases "unat adv > zmr_max_bytes")
    case True
    then show ?thesis using good DData p by (simp add: handle_zfile_def)
  next
    case small: False
    show ?thesis
    proof (cases found)
      case False
      have "znoname F0 (zstop (zsend_cancel (z1\<lparr>z_path := path\<rparr>)) ZMR_IO_ERROR no_free_name)"
        using z1(2) by (simp add: znoname_def zstop_def zsend_cancel_def old_kept_def)
      then show ?thesis using DData p small u False
        by (simp add: handle_zfile_def z1_def [symmetric] Let_def)
    next
      case True
      have "\<not> (z_files z1 path \<noteq> None \<or> z_isdir z1 path)"
        using build_unique_True [OF u [unfolded eqTrueI [OF True]]] .
      then have "z_files z1 path = None" by simp
      then have new: "F0 path = None" using z1(2) by (auto simp: old_kept_def)
      have closed: "\<not> z_open z1" by (simp add: z1_def out_close_def)
      have "zgood F0 (z1\<lparr>z_path := path\<rparr>)" using z1 new closed by (auto simp: zgood_defs)
      moreover have "zgood F0 (z1\<lparr>z_path := path, z_files := (z_files z1)(path := Some []), z_open := True,
          z_saw_file := True\<rparr>)"
      proof -
        have "old_kept F0 (z1\<lparr>z_path := path, z_files := (z_files z1)(path := Some []), z_open := True,
            z_saw_file := True\<rparr>)"
          using z1(2) new by (simp add: old_kept_def)
        moreover have "z_received z1 = 0" by (simp add: z1_def)
        ultimately show ?thesis using new by (simp add: zgood_def)
      qed
      ultimately show ?thesis using DData p small u True
        by (simp add: handle_zfile_def z1_def [symmetric] Let_def)
    qed
  qed
qed (use good in \<open>simp_all add: handle_zfile_def Let_def\<close>)

lemma handle_zfin_good: "zgood F0 z \<Longrightarrow> zgood F0 (handle_zfin z)"
  using zgood_stop [of F0 "zsend_flags z ZFIN 0"]
  by (simp add: handle_zfin_def Let_def zgood_defs zsend_flags_def zsend_frame_def)

lemma handle_header_good:
  assumes "zgood F0 z" "z_running z"
  shows "zgood F0 (handle_header z t pos r) \<or> znoname F0 (handle_header z t pos r)"
proof (cases t)
  case ZFILE
  then show ?thesis using handle_zfile_good [OF assms] by (simp add: handle_header_def)
next
  case ZDATA
  then show ?thesis using assms zdata_loop_good [of F0 z]
    by (simp add: handle_header_def handle_zdata_def)
qed (use assms in \<open>simp_all add: handle_header_def handle_zfin_good Let_def\<close>)

lemma zmr_round_good:
  assumes "zgood F0 z" "z_running z"
  shows "zgood F0 (zmr_round z r) \<or> znoname F0 (zmr_round z r)"
  using assms handle_header_good [of F0 "z\<lparr>z_errors := 0\<rparr>"]
  by (simp add: zmr_round_def Let_def split: hres.split)

lemma zmr_loop_good: "zgood F0 z \<Longrightarrow> zgood F0 (zmr_loop z rs) \<or> znoname F0 (zmr_loop z rs)"
proof (induction rs arbitrary: z)
  case Nil
  then show ?case by simp
next
  case (Cons r rs)
  show ?case
  proof (cases "z_running z")
    case True
    have noname: "zmr_loop z' rs = z'" if "\<not> z_running z'" for z' using that by (cases rs) simp_all
    from zmr_round_good [OF Cons.prems True, of r] show ?thesis
      using True Cons.IH [of "zmr_round z r"] noname [of "zmr_round z r"] by (auto simp: znoname_def)
  next
    case False
    then show ?thesis using Cons.prems by simp
  qed
qed

lemma zmr_begin_good: "old_kept F0 z \<Longrightarrow> z_path z = [] \<Longrightarrow> zgood F0 (zmr_begin z)"
  by (simp only: zmr_begin_def zsend_good) (simp add: zgood_defs)

subsection \<open>A sender that follows the protocol\<close>

definition zblock :: "frame_end \<Rightarrow> byte list \<Rightarrow> dround" where
  "zblock e c = \<lparr>dr_cancel = False, dr_res = DData e c, dr_cancel2 = False, dr_short = None\<rparr>"

definition zheader :: "ztype \<Rightarrow> u32 \<Rightarrow> dround \<Rightarrow> dround list \<Rightarrow> hround" where
  "zheader t pos b bs =
     \<lparr>hr_cancel = False, hr_res = HOk t pos, hr_cancel2 = False, hr_block = b, hr_blocks = bs,
      hr_fopen_ok = True, hr_fflush_ok = True\<rparr>"

text \<open>ZFILE, one ZDATA frame with the chunks in it, ZEOF.\<close>

definition file_rounds :: "byte list \<Rightarrow> byte list list \<Rightarrow> byte list \<Rightarrow> hround list" where
  "file_rounds info cs c =
     [zheader ZFILE 0 (zblock GOT_CRCW info) [],
      zheader ZDATA 0 (zblock GOT_CRCE []) (map (zblock GOT_CRCG) cs @ [zblock GOT_CRCE c]),
      zheader ZEOF (word_of_nat (length (concat cs @ c))) (zblock GOT_CRCE []) []]"

definition fin_round :: hround where
  "fin_round = zheader ZFIN 0 (zblock GOT_CRCE []) []"

lemma append_file_twice: "append_file (append_file z a) b = append_file z (a @ b)"
  by (simp add: append_file_def)

lemma zdata_loop_stream:
  assumes "z_files z (z_path z) = Some old" "z_received z + length (concat cs @ c) \<le> zmr_max_bytes"
  shows "zdata_loop z (map (zblock GOT_CRCG) cs @ [zblock GOT_CRCE c]) =
    z\<lparr>z_errors := 0, z_files := (z_files z)(z_path z := Some (old @ concat cs @ c)),
      z_received := z_received z + length (concat cs @ c)\<rparr>"
  using assms
proof (induction cs arbitrary: z old)
  case Nil
  show ?case
  proof (cases "c = []")
    case True
    have "(z_files z)(z_path z := Some old) = z_files z" using Nil.prems(1) by (rule fun_upd_idem)
    then show ?thesis using True Nil.prems(2) by (cases z) (simp add: zblock_def Let_def)
  next
    case False
    then show ?thesis using Nil.prems
      by (cases z) (simp add: zblock_def Let_def append_file_def fun_upd_def)
  qed
next
  case (Cons b cs)
  define z2 where "z2 = (if b \<noteq> [] then (append_file (z\<lparr>z_errors := 0\<rparr>) b)\<lparr>z_received := z_received z + length b\<rparr>
      else z\<lparr>z_errors := 0\<rparr>)"
  have upd: "(z_files z)(z_path z := Some old) = z_files z" using Cons.prems(1) by (rule fun_upd_idem)
  have z2: "z2 = z\<lparr>z_errors := 0, z_files := (z_files z)(z_path z := Some (old @ b)), z_received := z_received z + length b\<rparr>"
    using Cons.prems(1) upd by (cases z) (simp add: z2_def append_file_def)
  have step: "zdata_loop z (map (zblock GOT_CRCG) (b # cs) @ [zblock GOT_CRCE c]) =
      zdata_loop z2 (map (zblock GOT_CRCG) cs @ [zblock GOT_CRCE c])"
    using Cons.prems(2) by (simp add: zblock_def Let_def z2_def)
  have "zdata_loop z2 (map (zblock GOT_CRCG) cs @ [zblock GOT_CRCE c]) =
      z2\<lparr>z_errors := 0, z_files := (z_files z2)(z_path z2 := Some ((old @ b) @ concat cs @ c)),
        z_received := z_received z2 + length (concat cs @ c)\<rparr>"
    using Cons.prems(2) by (intro Cons.IH) (simp_all add: z2)
  then show ?case unfolding step by (simp add: z2 add.assoc) (simp add: fun_upd_def)
qed

text \<open>A session between files: sending works and the names parse as given.\<close>

definition zready :: "zmodem \<Rightarrow> bool" where
  "zready z \<longleftrightarrow> z_running z \<and> \<not> z_send_failed z \<and> (\<forall>n. z_send_ok z n)"

lemma zsend_frame_ready: "zready z \<Longrightarrow> zready (zsend_frame z f)"
  by (simp add: zready_def zsend_frame_def)

text \<open>One file by a sender that follows the protocol.\<close>

lemma file_rounds_run:
  assumes rdy: "zready z" and info: "parse_zfile info 260 = (name, adv)" "unat adv \<le> zmr_max_bytes"
    and free: "build_unique_path (\<lambda>p. z_files z p \<noteq> None \<or> z_isdir z p) (z_dir z) (take 259 name) max_path = (True, path)"
    and fits: "length (concat cs @ c) \<le> zmr_max_bytes"
  shows "\<exists>z'. zmr_loop z (file_rounds info cs c @ rest) = zmr_loop z' rest \<and> zready z' \<and>
    z_files z' = (z_files z)(path := Some (concat cs @ c)) \<and> z_received z' = length (concat cs @ c) \<and>
    z_path z' = path \<and> z_open z' \<and> z_saw_file z' \<and> z_dir z' = z_dir z \<and> z_isdir z' = z_isdir z"
proof -
  let ?h1 = "zheader ZFILE 0 (zblock GOT_CRCW info) []"
  let ?h2 = "zheader ZDATA 0 (zblock GOT_CRCE []) (map (zblock GOT_CRCG) cs @ [zblock GOT_CRCE c])"
  let ?h3 = "zheader ZEOF (word_of_nat (length (concat cs @ c))) (zblock GOT_CRCE []) []"
  define z1 where "z1 = zmr_round z ?h1"
  have z1: "z1 = zsend_pos (z\<lparr>z_errors := 0, z_name := take 259 name, z_total := unat adv, z_received := 0,
      z_path := path, z_files := (z_files z)(path := Some []), z_open := True, z_saw_file := True\<rparr>) ZRPOS 0"
    using rdy info free
    by (cases z) (simp add: z1_def zmr_round_def zheader_def zready_def handle_header_def handle_zfile_def zblock_def
        out_close_def Let_def)
  have r1: "zready z1" "z_files z1 = (z_files z)(path := Some [])" "z_path z1 = path" "z_received z1 = 0"
    "z_open z1" "z_saw_file z1" "z_dir z1 = z_dir z" "z_isdir z1 = z_isdir z"
    using rdy by (simp_all add: z1 zsend_pos_def zready_def zsend_frame_def)
  define z2 where "z2 = zmr_round z1 ?h2"
  have z2: "z2 = z1\<lparr>z_errors := 0, z_files := (z_files z1)(path := Some (concat cs @ c)), z_received := length (concat cs @ c)\<rparr>"
    using r1 fits zdata_loop_stream [of "z1\<lparr>z_errors := 0\<rparr>" "[]" cs c]
    by (simp add: z2_def zmr_round_def zheader_def zready_def handle_header_def handle_zdata_def)
  define z3 where "z3 = zmr_round z2 ?h3"
  have z3: "z3 = zsend_flags (z2\<lparr>z_errors := 0\<rparr>) ZRINIT zmr_caps"
    using r1 by (simp add: z3_def z2 zmr_round_def zheader_def zready_def handle_header_def)
  have run: "z_running z" "z_running z1" "z_running z2" using rdy r1 by (simp_all add: zready_def z2)
  have "zmr_loop z (file_rounds info cs c @ rest) = zmr_loop z3 rest"
    by (simp only: file_rounds_def append_Cons append_Nil zmr_loop.simps run if_True
        z1_def [symmetric] z2_def [symmetric] z3_def [symmetric])
  moreover have "zready z3" "z_files z3 = (z_files z)(path := Some (concat cs @ c))" "z_path z3 = path"
    "z_received z3 = length (concat cs @ c)" "z_open z3" "z_saw_file z3" "z_dir z3 = z_dir z" "z_isdir z3 = z_isdir z"
    using r1 by (simp_all add: z3 z2 zsend_flags_def zready_def zsend_frame_def)
  ultimately show ?thesis by blast
qed

lemma fin_run:
  assumes "zready z" "z_open z" "z_saw_file z"
  shows "z_files (zmr_end (zmr_loop z (fin_round # rest))) = z_files z \<and>
    z_status (zmr_end (zmr_loop z (fin_round # rest))) = ZMR_OK \<and>
    z_received (zmr_end (zmr_loop z (fin_round # rest))) = z_received z \<and>
    z_path (zmr_end (zmr_loop z (fin_round # rest))) = z_path z"
proof -
  define z1 where "z1 = zmr_round z fin_round"
  have z1: "z1 = handle_zfin (z\<lparr>z_errors := 0\<rparr>)"
    using assms by (simp add: z1_def fin_round_def zheader_def zmr_round_def zready_def handle_header_def)
  have st: "\<not> z_running z1" "z_status z1 = ZMR_OK" "z_files z1 = z_files z" "z_received z1 = z_received z" "z_path z1 = z_path z"
    using assms by (simp_all add: z1 handle_zfin_def zsend_flags_def zsend_frame_def Let_def)
  have "zmr_loop z (fin_round # rest) = z1"
    using assms(1) st(1) by (cases rest) (simp_all add: zready_def z1_def)
  then show ?thesis using st by (simp add: zmr_end_def out_close_def Let_def)
qed

subsection \<open>Any sender that follows the protocol\<close>

text \<open>
  What one ZDATA frame brings: subpackets of every kind, and perhaps a damaged one, after which the receiver asks for the
  rest again.
\<close>

definition zbad_block :: dround where
  "zbad_block = \<lparr>dr_cancel = False, dr_res = DBad, dr_cancel2 = False, dr_short = None\<rparr>"

inductive frame_brings :: "dround list \<Rightarrow> byte list \<Rightarrow> bool" where
  Last: "e = GOT_CRCE \<or> e = GOT_CRCW \<Longrightarrow> frame_brings (zblock e c # bs) c"
| Next: "e = GOT_CRCG \<or> e = GOT_CRCQ \<Longrightarrow> frame_brings bs d \<Longrightarrow> frame_brings (zblock e c # bs) (c @ d)"
| Damaged: "frame_brings (zbad_block # bs) []"

text \<open>Headers that do not concern the file, and headers that arrive damaged.\<close>

definition zchatter :: "hround \<Rightarrow> bool" where
  "zchatter r \<longleftrightarrow> \<not> hr_cancel r \<and> dr_res (hr_block r) \<noteq> DCancelled \<and>
     (\<exists>t pos. hr_res r = HOk t pos \<and> t \<in> {ZRQINIT, ZSINIT, ZCHALLENGE, ZFREECOUNT})"

definition zgarbled :: "hround \<Rightarrow> bool" where
  "zgarbled r \<longleftrightarrow> \<not> hr_cancel r \<and> hr_res r = HBad"

text \<open>
  A sender with some content left from a position on: it sends frames from where the receiver is, or by mistake or after a loss
  from elsewhere, the end of the file as often as it likes, and ZFIN. The first argument counts damaged
  headers in a row.
\<close>

inductive sends_data :: "nat \<Rightarrow> nat \<Rightarrow> byte list \<Rightarrow> hround list \<Rightarrow> bool" where
  Fin: "sends_data k pos [] (fin_round # rs)"
| Eof: "sends_data 0 pos [] rs \<Longrightarrow> sends_data k pos [] (zheader ZEOF p b bs # rs)"
| Chatter: "zchatter r \<Longrightarrow> sends_data 0 pos left rs \<Longrightarrow> sends_data k pos left (r # rs)"
| Garbled: "k < zmr_max_errors \<Longrightarrow> zgarbled r \<Longrightarrow> sends_data (Suc k) pos left rs \<Longrightarrow> sends_data k pos left (r # rs)"
| Astray: "unat p \<noteq> pos \<Longrightarrow> sends_data 0 pos left rs \<Longrightarrow> sends_data k pos left (zheader ZDATA p b bs # rs)"
| Frame: "frame_brings bs piece \<Longrightarrow> sends_data 1 (pos + length piece) left rs \<Longrightarrow>
    sends_data k pos (piece @ left) (zheader ZDATA (word_of_nat pos) b bs # rs)"

inductive sends_file :: "nat \<Rightarrow> byte list \<Rightarrow> byte list \<Rightarrow> hround list \<Rightarrow> bool" where
  Chatter: "zchatter r \<Longrightarrow> sends_file 0 info content rs \<Longrightarrow> sends_file k info content (r # rs)"
| Garbled: "k < zmr_max_errors \<Longrightarrow> zgarbled r \<Longrightarrow> sends_file (Suc k) info content rs \<Longrightarrow> sends_file k info content (r # rs)"
| Damaged: "sends_file 1 info content rs \<Longrightarrow> sends_file k info content (zheader ZFILE p zbad_block bs # rs)"
| Offer: "sends_data 0 0 content rs \<Longrightarrow> sends_file k info content (zheader ZFILE p (zblock e info) bs # rs)"

definition zreceiving :: "(byte list \<Rightarrow> byte list option) \<Rightarrow> byte list \<Rightarrow> byte list \<Rightarrow> nat \<Rightarrow> zmodem \<Rightarrow> bool" where
  "zreceiving F path got k z \<longleftrightarrow>
     zready z \<and> z_open z \<and> z_saw_file z \<and> z_path z = path \<and> z_files z = F(path \<mapsto> got) \<and> z_received z = length got \<and> z_errors z \<le> k"

named_theorems zrun_defs \<open>what unfolds a round of a sender\<close>
declare zmr_round_def [zrun_defs] handle_header_def [zrun_defs] zsend_flags_def [zrun_defs] zsend_pos_def [zrun_defs]
  zsend_frame_def [zrun_defs] zready_def [zrun_defs] zheader_def [zrun_defs] zchatter_def [zrun_defs] zgarbled_def [zrun_defs]

lemma frame_received:
  assumes "frame_brings bs piece" "zreceiving F path got 0 z" "length (got @ piece) \<le> zmr_max_bytes"
  shows "zreceiving F path (got @ piece) 1 (zdata_loop z bs)"
  using assms
proof (induction arbitrary: z got rule: frame_brings.induct)
  case (Last e c bs)
  then show ?case
    by (cases "c = []") (auto simp: zblock_def zreceiving_def append_file_def Let_def zrun_defs)
next
  case (Next e bs d c)
  define z2 where "z2 = (if c \<noteq> [] then (append_file (z\<lparr>z_errors := 0\<rparr>) c)\<lparr>z_received := z_received z + length c\<rparr> else z\<lparr>z_errors := 0\<rparr>)"
  define z3 where "z3 = (if e = GOT_CRCQ then zsend_pos z2 ZACK (word_of_nat (z_received z2)) else z2)"
  have "zdata_loop z (zblock e c # bs) = zdata_loop z3 bs"
    using Next.hyps(1) Next.prems by (auto simp: zblock_def zreceiving_def Let_def z3_def z2_def)
  moreover have "zreceiving F path (got @ c) 0 z3"
    using Next.prems(1) by (auto simp: z3_def z2_def zreceiving_def append_file_def zrun_defs)
  ultimately show ?case using Next.IH [of "got @ c" z3] Next.prems(2) by simp
next
  case (Damaged bs)
  then show ?case by (simp add: zbad_block_def zreceiving_def zmr_max_errors_def Let_def zrun_defs)
qed

lemma data_received:
  assumes "sends_data k pos left rs" "zreceiving F path got k z" "length got = pos" "length (got @ left) \<le> zmr_max_bytes" "k \<le> zmr_max_errors"
  shows "z_status (zmr_end (zmr_loop z rs)) = ZMR_OK \<and> z_path (zmr_end (zmr_loop z rs)) = path \<and>
    z_files (zmr_end (zmr_loop z rs)) = F(path \<mapsto> got @ left) \<and> z_received (zmr_end (zmr_loop z rs)) = length (got @ left)"
  using assms
proof (induction arbitrary: z got rule: sends_data.induct)
  case (Fin k pos rs)
  then show ?case using fin_run [of z rs] by (simp add: zreceiving_def)
next
  case (Eof pos rs k p b bs)
  have "zreceiving F path got 0 (zmr_round z (zheader ZEOF p b bs))" using Eof.prems(1) by (simp add: zreceiving_def zrun_defs)
  from Eof.IH [OF this] Eof.prems show ?case by (simp add: zreceiving_def zready_def)
next
  case (Chatter r pos left rs k)
  have "zreceiving F path got 0 (zmr_round z r)" using Chatter.prems(1) Chatter.hyps(1) by (auto simp: zreceiving_def zrun_defs)
  from Chatter.IH [OF this] Chatter.prems show ?case by (simp add: zreceiving_def zready_def)
next
  case (Garbled k r pos left rs)
  have "zreceiving F path got (Suc k) (zmr_round z r)"
    using Garbled.prems(1) Garbled.hyps(1,2) by (auto simp: zreceiving_def zmr_max_errors_def Let_def zrun_defs)
  from Garbled.IH [OF this] Garbled.prems Garbled.hyps(1) show ?case by (simp add: zreceiving_def zready_def)
next
  case (Astray p pos left rs k b bs)
  have "zreceiving F path got 0 (zmr_round z (zheader ZDATA p b bs))"
    using Astray.prems(1,2) Astray.hyps(1) by (simp add: zreceiving_def handle_zdata_def zrun_defs)
  from Astray.IH [OF this] Astray.prems show ?case by (simp add: zreceiving_def zready_def)
next
  case (Frame bs piece pos left rs k b)
  have "pos < 2 ^ 32" using Frame.prems(2,3) by (simp add: zmr_max_bytes_def)
  then have "zmr_round z (zheader ZDATA (word_of_nat pos) b bs) = zdata_loop (z\<lparr>z_errors := 0\<rparr>) bs"
    using Frame.prems(1,2) by (simp add: zreceiving_def handle_zdata_def zrun_defs unsigned_of_nat take_bit_nat_eq_self)
  moreover have "zreceiving F path (got @ piece) 1 (zdata_loop (z\<lparr>z_errors := 0\<rparr>) bs)"
    using Frame.prems(1,3) by (intro frame_received [OF Frame.hyps(1)]) (simp_all add: zreceiving_def zready_def)
  ultimately have "zreceiving F path (got @ piece) 1 (zmr_round z (zheader ZDATA (word_of_nat pos) b bs))" by simp
  from Frame.IH [OF this] Frame.prems show ?case by (simp add: zreceiving_def zready_def zmr_max_errors_def)
qed

definition zawaiting :: "(byte list \<Rightarrow> byte list option) \<Rightarrow> (byte list \<Rightarrow> bool) \<Rightarrow> byte list \<Rightarrow> nat \<Rightarrow> zmodem \<Rightarrow> bool" where
  "zawaiting F isdir dir k z \<longleftrightarrow> zready z \<and> \<not> z_open z \<and> z_files z = F \<and> z_isdir z = isdir \<and> z_dir z = dir \<and> z_errors z \<le> k"

lemma file_received:
  assumes "sends_file k info content rs" "zawaiting F isdir dir k z" "k \<le> zmr_max_errors"
    and "parse_zfile info 260 = (name, adv)" "unat adv \<le> zmr_max_bytes"
    and "build_unique_path (\<lambda>p. F p \<noteq> None \<or> isdir p) dir (take 259 name) max_path = (True, path)"
    and "length content \<le> zmr_max_bytes"
  shows "z_status (zmr_end (zmr_loop z rs)) = ZMR_OK \<and> z_path (zmr_end (zmr_loop z rs)) = path \<and>
    z_files (zmr_end (zmr_loop z rs)) = F(path \<mapsto> content) \<and> z_received (zmr_end (zmr_loop z rs)) = length content"
  using assms
proof (induction arbitrary: z rule: sends_file.induct)
  case (Chatter r info content rs k)
  have "zawaiting F isdir dir 0 (zmr_round z r)" using Chatter.prems(1) Chatter.hyps(1) by (auto simp: zawaiting_def zrun_defs)
  from Chatter.IH [OF this _ Chatter.prems(3-6)] Chatter.prems(1) show ?case by (simp add: zawaiting_def zready_def)
next
  case (Garbled k r info content rs)
  have "zawaiting F isdir dir (Suc k) (zmr_round z r)"
    using Garbled.prems(1) Garbled.hyps(1,2) by (auto simp: zawaiting_def zmr_max_errors_def Let_def zrun_defs)
  from Garbled.IH [OF this _ Garbled.prems(3-6)] Garbled.prems(1) Garbled.hyps(1) show ?case by (simp add: zawaiting_def zready_def)
next
  case (Damaged info content rs k p bs)
  have "zawaiting F isdir dir 1 (zmr_round z (zheader ZFILE p zbad_block bs))"
    using Damaged.prems(1) by (simp add: zawaiting_def handle_zfile_def zbad_block_def zmr_max_errors_def Let_def zrun_defs)
  from Damaged.IH [OF this _ Damaged.prems(3-6)] Damaged.prems(1) show ?case by (simp add: zawaiting_def zready_def zmr_max_errors_def)
next
  case (Offer content rs k info p e bs)
  have "zreceiving F path [] 0 (zmr_round z (zheader ZFILE p (zblock e info) bs))"
    using Offer.prems by (simp add: zawaiting_def zreceiving_def handle_zfile_def zblock_def out_close_def Let_def zrun_defs)
  from data_received [OF Offer.hyps(1) this] Offer.prems(1,6) show ?case by (simp add: zawaiting_def zready_def)
qed

lemma zmr_begin_ready:
  "(\<And>n. send_ok n) \<Longrightarrow> zready (zmr_begin (zmodem_recv_start dir files isdir send_ok)) \<and>
    z_files (zmr_begin (zmodem_recv_start dir files isdir send_ok)) = files \<and>
    z_isdir (zmr_begin (zmodem_recv_start dir files isdir send_ok)) = isdir \<and>
    z_dir (zmr_begin (zmodem_recv_start dir files isdir send_ok)) = dir"
  by (simp add: zmr_begin_def zready_def zsend_flags_def zsend_frame_def zmodem_recv_start_def)

subsection \<open>Properties\<close>

lemma zmr_loop_start_good:
  "zgood F0 (zmr_loop (zmr_begin (zmodem_recv_start dir F0 isdir send_ok)) rounds) \<or>
   znoname F0 (zmr_loop (zmr_begin (zmodem_recv_start dir F0 isdir send_ok)) rounds)"
  by (intro zmr_loop_good zmr_begin_good) (simp_all add: zmodem_recv_start_def old_kept_def)

lemma zmr_end_good:
  "zgood F0 z \<Longrightarrow> old_kept F0 (zmr_end z) \<and> (z_status (zmr_end z) \<noteq> ZMR_OK \<longrightarrow> z_path (zmr_end z) = [])"
  by (auto simp: zmr_end_def out_close_def zgood_defs Let_def)

lemma zmr_end_detail [simp]: "z_detail (zmr_end z) = z_detail z"
  by (simp add: zmr_end_def out_close_def Let_def)

text \<open>
  C22: whatever the sender, the connection and the disk answer, a session changes no file that was
  there when it began and leaves no new file over the ceiling, unless it ends with the message
  that no free name was found.
\<close>

theorem zmr_no_clobber:
  assumes "z_detail (zmr_thread (zmodem_recv_start dir files isdir send_ok) rounds) \<noteq> no_free_name"
    and "files p \<noteq> None \<or> z_files (zmr_thread (zmodem_recv_start dir files isdir send_ok) rounds) p = Some c"
  shows "if files p \<noteq> None
    then z_files (zmr_thread (zmodem_recv_start dir files isdir send_ok) rounds) p = files p
    else length c \<le> zmr_max_bytes"
proof -
  let ?z = "zmr_loop (zmr_begin (zmodem_recv_start dir files isdir send_ok)) rounds"
  have "\<not> znoname files ?z" using assms(1) by (simp add: zmr_thread_def znoname_def)
  then have "zgood files ?z" using zmr_loop_start_good by blast
  from zmr_end_good [OF this] have "old_kept files (zmr_end ?z)" by blast
  with assms(2) show ?thesis by (auto simp: zmr_thread_def old_kept_def)
qed

definition one_old_file :: "byte list \<Rightarrow> byte list option" where
  "one_old_file = (\<lambda>p. if p = plain_path [] (asc ''a'') 260 then Some [7] else None)"

lemma zmr_no_clobber_witness:
  "z_files (zmr_thread (zmodem_recv_start [] one_old_file (\<lambda>_. False) (\<lambda>_. True)) [fin_round])
     (plain_path [] (asc ''a'') 260) = Some [7]"
proof -
  have "z_detail (zmr_thread (zmodem_recv_start [] one_old_file (\<lambda>_. False) (\<lambda>_. True)) [fin_round]) \<noteq> no_free_name"
    by (simp add: zmr_thread_def zmodem_recv_start_def zmr_begin_def fin_round_def zheader_def
        zmr_round_def handle_header_def handle_zfin_def zsend_flags_def zsend_frame_def no_free_name_def Let_def)
  from zmr_no_clobber [OF this, of "plain_path [] (asc ''a'') 260" "[]"] show ?thesis
    by (simp add: one_old_file_def)
qed

text \<open>
  C25: A sender that keeps to the protocol gets its file stored. It opens with any ZRQINIT, ZSINIT, ZCHALLENGE and ZFREECOUNT, offers one file, sends its bytes in any number of ZDATA frames of any subpackets, the end of the
  file and ZFIN; headers, subpackets and the offer itself may arrive damaged (at most 32 damaged headers in a row) and frames from a wrong position, as long as what is missing is sent again from where the receiver is. While the
  replies can be sent, the disk works and the user does not cancel, the session then ends in \<open>ZMR_OK\<close>, the path is the
  first free one for the sanitised name, the file holds exactly the bytes in order and no other
  path is touched. (The announced size and the content are within the limit of 256 MB.)
\<close>

theorem zmr_transfer_ok:
  assumes "\<And>n. send_ok n" and "parse_zfile info 260 = (name, adv)" "unat adv \<le> zmr_max_bytes"
    and "build_unique_path (\<lambda>p. files p \<noteq> None \<or> isdir p) dir (take 259 name) max_path = (True, path)"
    and "sends_file 0 info content rounds" "length content \<le> zmr_max_bytes"
  shows "let z = zmr_thread (zmodem_recv_start dir files isdir send_ok) rounds
    in z_status z = ZMR_OK \<and> z_path z = path \<and> z_files z = files(path \<mapsto> content) \<and> z_received z = length content"
proof -
  let ?z0 = "zmr_begin (zmodem_recv_start dir files isdir send_ok)"
  have "zawaiting files isdir dir 0 ?z0"
    using assms(1) by (simp add: zawaiting_def zmr_begin_def zmodem_recv_start_def zrun_defs)
  from file_received [OF assms(5) this _ assms(2-4,6)] show ?thesis by (simp add: zmr_thread_def Let_def)
qed

text \<open>A transfer with a damaged subpacket, a frame from the wrong position and a damaged header.\<close>

definition demo_rounds :: "hround list" where
  "demo_rounds =
     [zheader ZRQINIT 0 (zblock GOT_CRCE []) [], zheader ZFILE 0 (zblock GOT_CRCW (asc ''a'' @ [0])) [],
      zheader ZDATA (word_of_nat 0) (zblock GOT_CRCE []) [zblock GOT_CRCG [1], zbad_block],
      zheader ZDATA 2 (zblock GOT_CRCE []) [], (zheader ZDATA 0 (zblock GOT_CRCE []) [])\<lparr>hr_res := HBad\<rparr>,
      zheader ZDATA (word_of_nat (0 + length [1 :: byte])) (zblock GOT_CRCE []) [zblock GOT_CRCQ [2], zblock GOT_CRCE [3]],
      zheader ZEOF 3 (zblock GOT_CRCE []) [], fin_round]"

lemma demo_rounds_sent: "sends_file 0 (asc ''a'' @ [0]) ([1] @ [2, 3] @ []) demo_rounds"
proof -
  have "frame_brings [zblock GOT_CRCG [1], zbad_block] ([1] @ [])" "frame_brings [zblock GOT_CRCQ [2], zblock GOT_CRCE [3]] ([2] @ [3])"
    by (intro frame_brings.intros; simp)+
  then have f1: "frame_brings [zblock GOT_CRCG [1], zbad_block] [1]" and f2: "frame_brings [zblock GOT_CRCQ [2], zblock GOT_CRCE [3]] [2, 3]" by simp_all
  show ?thesis unfolding demo_rounds_def
    by (intro sends_file.Chatter sends_file.Offer sends_data.Frame [OF f1] sends_data.Astray sends_data.Garbled sends_data.Frame [OF f2] sends_data.Eof sends_data.Fin)
      (simp_all add: zchatter_def zgarbled_def zheader_def zblock_def zmr_max_errors_def)
qed

lemma zmr_transfer_ok_witness:
  "z_files (zmr_thread (zmodem_recv_start [] Map.empty (\<lambda>_. False) (\<lambda>_. True)) demo_rounds) (plain_path [] (asc ''a'') 260) = Some [1, 2, 3]"
proof -
  have p: "parse_zfile (asc ''a'' @ [0]) 260 = (asc ''a'', 0)"
    by (simp add: parse_zfile_def sanitize_name_def Let_def is_sep_def is_illegal_def trim_tail_def
        is_dot_space_def stem_of_def name_is_reserved_def up_char_def zmr_block_buf_def)
  have u: "build_unique_path (\<lambda>p. Map.empty p \<noteq> None \<or> False) [] (take 259 (asc ''a'')) max_path
      = (True, plain_path [] (asc ''a'') 260)"
    by (simp add: build_unique_path_def max_path_def)
  have s: "unat (0 :: 64 word) \<le> zmr_max_bytes" by simp
  from zmr_transfer_ok [OF TrueI p s u demo_rounds_sent] show ?thesis by (simp add: Let_def zmr_max_bytes_def)
qed

text \<open>
  a sender never gets a command run: ZCOMMAND and ZCOMPL end the session at once as refused,
  with the cancel sequence sent and the disk as it was; every later frame is ignored.
\<close>

theorem zmr_command_refused:
  assumes "t = ZCOMMAND \<or> t = ZCOMPL" and "z_running z" "\<not> z_send_failed z"
    and "hr_cancel r = False" "hr_res r = HOk t pos"
  shows "z_status (zmr_loop z (r # rs)) = ZMR_REFUSED \<and> z_files (zmr_loop z (r # rs)) = z_files z \<and>
    z_sent (zmr_loop z (r # rs)) = z_sent z @ [CANCEL_SEQ] \<and> \<not> z_running (zmr_loop z (r # rs))"
proof -
  have "zmr_round z r = zstop (zsend_cancel (z\<lparr>z_errors := 0\<rparr>)) ZMR_REFUSED
      ''The sender asked to run a command. Refused.''"
    using assms by (auto simp: zmr_round_def handle_header_def)
  moreover have "zmr_loop z' rs = z'" if "\<not> z_running z'" for z' using that by (cases rs) simp_all
  ultimately show ?thesis using assms(2) by (simp add: zstop_def zsend_cancel_def)
qed

lemma zmr_command_refused_witness:
  "z_status (zmr_loop (zmr_begin (zmodem_recv_start [] Map.empty (\<lambda>_. False) (\<lambda>_. True)))
     [zheader ZCOMMAND 0 (zblock GOT_CRCE []) [], fin_round]) = ZMR_REFUSED"
proof -
  let ?z = "zmr_begin (zmodem_recv_start [] Map.empty (\<lambda>_. False) (\<lambda>_. True))"
  have "z_running ?z" "\<not> z_send_failed ?z"
    using zmr_begin_ready [of "\<lambda>_. True" "[]" Map.empty "\<lambda>_. False"] by (simp_all add: zready_def)
  from zmr_command_refused [OF disjI1 [OF refl] this, of "zheader ZCOMMAND 0 (zblock GOT_CRCE []) []" 0 "[fin_round]"]
  show ?thesis by (simp add: zheader_def)
qed

text \<open>
  data out of step is never written: a ZDATA frame whose position is not the number of bytes
  received leaves every file alone and answers with ZRPOS at that number, which is what makes the
  sender go back.
\<close>

theorem zmr_out_of_step:
  assumes "z_open z" "unat pos \<noteq> z_received z" "z_received z < 2 ^ 32"
  shows "z_files (handle_zdata z pos blocks) = z_files z \<and>
    z_received (handle_zdata z pos blocks) = z_received z \<and>
    (\<exists>p. last (z_sent (handle_zdata z pos blocks)) = POS_HDR ZRPOS p \<and> unat p = z_received z)"
  using assms by (simp add: handle_zdata_def zsend_pos_def zsend_frame_def unsigned_of_nat take_bit_nat_eq_self)

lemma zmr_out_of_step_witness:
  "z_files (handle_zdata ((zmodem_recv_start [] Map.empty (\<lambda>_. False) (\<lambda>_. True))\<lparr>z_open := True\<rparr>) 5
     [zblock GOT_CRCE [1]]) = Map.empty"
  using zmr_out_of_step [of "(zmodem_recv_start [] Map.empty (\<lambda>_. False) (\<lambda>_. True))\<lparr>z_open := True\<rparr>" 5
      "[zblock GOT_CRCE [1]]"]
  by (simp add: zmodem_recv_start_def)

text \<open>
  when the name and all its 999 numbered variants are taken, the path is left at the last
  variant, and the end of the session deletes that path as if it were the partial download: a
  file of the user's that the session never opened is gone.
\<close>

theorem zmr_deletes_user_file:
  assumes "\<And>n. send_ok n" and "parse_zfile info 260 = (name, adv)" "unat adv \<le> zmr_max_bytes"
    and "files (plain_path dir (take 259 name) 260) \<noteq> None"
    and "\<And>n. files (numbered_path dir (take 259 name) 260 n) \<noteq> None"
    and "numbered_path dir (take 259 name) 260 999 \<noteq> []"
  shows "let z = zmr_thread (zmodem_recv_start dir files isdir send_ok) (zheader ZFILE 0 (zblock GOT_CRCW info) [] # rest)
    in z_detail z = no_free_name \<and> z_files z (numbered_path dir (take 259 name) 260 999) = None"
proof -
  let ?z0 = "zmr_begin (zmodem_recv_start dir files isdir send_ok)"
  let ?h = "zheader ZFILE 0 (zblock GOT_CRCW info) []"
  let ?p = "numbered_path dir (take 259 name) 260 999"
  have b: "zready ?z0" "z_files ?z0 = files" "z_isdir ?z0 = isdir" "z_dir ?z0 = dir"
    using zmr_begin_ready [of send_ok dir files isdir] assms(1) by blast+
  have all: "try_numbered (\<lambda>p. files p \<noteq> None \<or> isdir p) (numbered_path dir (take 259 name) 260) n k
      = (False, numbered_path dir (take 259 name) 260 (n + k - 1))" for n k
  proof (induction k arbitrary: n)
    case (Suc k)
    then show ?case using assms(5) by simp
  qed simp
  have u: "build_unique_path (\<lambda>p. files p \<noteq> None \<or> isdir p) dir (take 259 name) 260 = (False, ?p)"
    using assms(4) all [of 1 999] by (simp add: build_unique_path_def)
  define z1 where "z1 = zmr_round ?z0 ?h"
  have z1: "z_detail z1 = no_free_name" "\<not> z_running z1" "z_path z1 = ?p" "z_status z1 = ZMR_IO_ERROR"
    using b assms(2,3) u
    by (simp_all add: z1_def zmr_round_def zheader_def zready_def handle_header_def handle_zfile_def zblock_def
        out_close_def max_path_def zstop_def zsend_cancel_def Let_def del: One_nat_def)
  have "zmr_loop ?z0 (?h # rest) = z1"
    using b(1) z1(2) by (cases rest) (simp_all add: zready_def z1_def)
  then show ?thesis
    using z1 assms(6) by (simp add: zmr_thread_def zmr_end_def out_close_def Let_def)
qed

lemma zmr_deletes_user_file_witness:
  "z_files (zmr_thread (zmodem_recv_start [] (\<lambda>_. Some [1]) (\<lambda>_. False) (\<lambda>_. True))
     [zheader ZFILE 0 (zblock GOT_CRCW (asc ''a'' @ [0])) []]) (numbered_path [] (asc ''a'') 260 999) = None"
proof -
  have p: "parse_zfile (asc ''a'' @ [0]) 260 = (asc ''a'', 0)"
    by (simp add: parse_zfile_def sanitize_name_def Let_def is_sep_def is_illegal_def trim_tail_def
        is_dot_space_def stem_of_def name_is_reserved_def up_char_def zmr_block_buf_def)
  have s: "unat (0 :: 64 word) \<le> zmr_max_bytes" by simp
  have n: "numbered_path [] (take 259 (asc ''a'')) 260 999 \<noteq> []"
    by (simp add: numbered_path_def snprintf_cut_def split: prod.split)
  from zmr_deletes_user_file [of "\<lambda>_. True" "asc ''a'' @ [0]" "asc ''a''" 0 "\<lambda>_. Some [1]" "[]" "\<lambda>_. False" "[]",
      OF TrueI p s option.distinct(2) option.distinct(2) n]
  show ?thesis by (simp add: Let_def)
qed

text \<open>The size a ZFILE header announces is not compared with what arrives: ZFIN right after it is a success.\<close>

lemma zmr_truncated_ok:
  assumes "\<And>n. send_ok n" and "parse_zfile info 260 = (name, adv)" "unat adv \<le> zmr_max_bytes"
    and "build_unique_path (\<lambda>p. files p \<noteq> None \<or> isdir p) dir (take 259 name) max_path = (True, path)"
  shows "let z = zmr_thread (zmodem_recv_start dir files isdir send_ok)
      [zheader ZFILE 0 (zblock GOT_CRCW info) [], fin_round]
    in z_status z = ZMR_OK \<and> z_files z = files(path \<mapsto> []) \<and> z_received z = 0 \<and> z_total z = unat adv"
proof -
  have "send_ok = (\<lambda>_. True)" using assms(1) by auto
  then show ?thesis using assms(2-4)
    by (simp add: zmr_thread_def zmodem_recv_start_def zmr_begin_def fin_round_def zheader_def zblock_def
        zmr_round_def handle_header_def handle_zfile_def handle_zfin_def zsend_flags_def zsend_pos_def
        zsend_frame_def zmr_end_def out_close_def Let_def)
qed

text \<open>The ceiling is on each file: two files that both fit are both kept, whatever their sum.\<close>

lemma zmr_two_files_ok:
  assumes "\<And>n. send_ok n" and "parse_zfile info1 260 = (name1, adv1)" "unat adv1 \<le> zmr_max_bytes"
    and "parse_zfile info2 260 = (name2, adv2)" "unat adv2 \<le> zmr_max_bytes"
    and "build_unique_path (\<lambda>p. files p \<noteq> None \<or> isdir p) dir (take 259 name1) max_path = (True, path1)"
    and "build_unique_path (\<lambda>p. (files(path1 \<mapsto> c1)) p \<noteq> None \<or> isdir p) dir (take 259 name2) max_path = (True, path2)"
    and "length c1 \<le> zmr_max_bytes" "length c2 \<le> zmr_max_bytes"
  shows "let z = zmr_thread (zmodem_recv_start dir files isdir send_ok)
      (file_rounds info1 [] c1 @ file_rounds info2 [] c2 @ [fin_round])
    in z_status z = ZMR_OK \<and> z_files z = files(path1 \<mapsto> c1, path2 \<mapsto> c2)"
proof -
  let ?z0 = "zmr_begin (zmodem_recv_start dir files isdir send_ok)"
  have b: "zready ?z0" "z_files ?z0 = files" "z_isdir ?z0 = isdir" "z_dir ?z0 = dir"
    using zmr_begin_ready [of send_ok dir files isdir] assms(1) by blast+
  obtain z1 where z1: "zmr_loop ?z0 (file_rounds info1 [] c1 @ file_rounds info2 [] c2 @ [fin_round])
      = zmr_loop z1 (file_rounds info2 [] c2 @ [fin_round])"
    "zready z1" "z_files z1 = files(path1 \<mapsto> c1)" "z_dir z1 = dir" "z_isdir z1 = isdir"
    using file_rounds_run [OF b(1) assms(2,3), of path1 "[]" c1 "file_rounds info2 [] c2 @ [fin_round]"] assms(6,8) b(2-4)
    by auto
  obtain z2 where z2: "zmr_loop z1 (file_rounds info2 [] c2 @ [fin_round]) = zmr_loop z2 [fin_round]"
    "zready z2" "z_files z2 = files(path1 \<mapsto> c1, path2 \<mapsto> c2)" "z_open z2" "z_saw_file z2"
    using file_rounds_run [OF z1(2) assms(4,5), of path2 "[]" c2 "[fin_round]"] assms(7,9) z1(3-5)
    by auto
  show ?thesis using fin_run [OF z2(2,4,5), of "[]"] z1(1) z2(1,3) by (simp add: zmr_thread_def Let_def)
qed

text \<open>A file that arrived whole is deleted again when the sender falls silent instead of sending ZFIN.\<close>

lemma zmr_finished_file_lost:
  assumes "\<And>n. send_ok n" and "parse_zfile info 260 = (name, adv)" "unat adv \<le> zmr_max_bytes"
    and "build_unique_path (\<lambda>p. files p \<noteq> None \<or> isdir p) dir (take 259 name) max_path = (True, path)"
    and "length (concat cs @ c) \<le> zmr_max_bytes" "path \<noteq> []"
  shows "let z = zmr_thread (zmodem_recv_start dir files isdir send_ok) (file_rounds info cs c)
    in z_status z = ZMR_TIMEOUT \<and> z_files z path = None"
proof -
  let ?z0 = "zmr_begin (zmodem_recv_start dir files isdir send_ok)"
  have b: "zready ?z0" "z_files ?z0 = files" "z_isdir ?z0 = isdir" "z_dir ?z0 = dir"
    using zmr_begin_ready [of send_ok dir files isdir] assms(1) by blast+
  obtain z1 where z1: "zmr_loop ?z0 (file_rounds info cs c @ []) = zmr_loop z1 []" "zready z1" "z_path z1 = path"
    using file_rounds_run [OF b(1) assms(2,3), of path cs c "[]"] assms(4,5) b(2-4) by auto
  show ?thesis using z1 assms(6)
    by (simp add: zmr_thread_def zmr_end_def out_close_def zready_def zstop_def Let_def)
qed

end
