(* ===== verification/ZmodemRing.thy ===== *)
theory ZmodemRing
  imports Prelude
begin

section \<open>Zmodem: the ring between transport and worker (zmodem\_recv.c)\<close>

text \<open>
  The megabyte between the thread that receives and the worker that decodes. Each definition is
  what happens under the lock; a run is any interleaving of the two threads' sections. The
  ring refines a bounded queue, stated as a locale.
\<close>

definition zmr_ring_bytes :: int where "zmr_ring_bytes = 1024 * 1024"

record ring =
  rg_mem :: "int \<Rightarrow> byte"
  rg_head :: int
  rg_tail :: int
  rg_count :: int

text \<open>The locked section of \<open>ring_pop\<close>; \<open>None\<close> is \<open>b = -1\<close>.\<close>

definition ring_take :: "ring \<Rightarrow> byte option \<times> ring" where
  "ring_take z =
     (if rg_count z > 0 then
        (Some (rg_mem z (rg_tail z)),
         z\<lparr>rg_tail := (rg_tail z + 1) mod zmr_ring_bytes, rg_count := rg_count z - 1\<rparr>)
      else (None, z))"

fun write_loop :: "ring \<Rightarrow> byte list \<Rightarrow> ring" where
  "write_loop z [] = z"
| "write_loop z (b # bs) =
     write_loop (z\<lparr>rg_mem := (rg_mem z)(rg_head z := b),
                  rg_head := (rg_head z + 1) mod zmr_ring_bytes\<rparr>) bs"

text \<open>One locked section of \<open>zmodem_recv_push\<close>: what did not fit, and the ring.\<close>

definition push_section :: "ring \<Rightarrow> byte list \<Rightarrow> byte list \<times> ring" where
  "push_section z data =
     (let room = zmr_ring_bytes - rg_count z;
          take_n = (if int (length data) > room then room else int (length data));
          z1 = write_loop z (take (nat take_n) data)
      in (drop (nat take_n) data, z1\<lparr>rg_count := rg_count z1 + take_n\<rparr>))"

fun pop_n :: "nat \<Rightarrow> ring \<Rightarrow> byte list \<times> ring" where
  "pop_n 0 z = ([], z)"
| "pop_n (Suc k) z =
     (case ring_take z of
        (None, z1) \<Rightarrow> ([], z1)
      | (Some b, z1) \<Rightarrow> (case pop_n k z1 of (bs, z2) \<Rightarrow> (b # bs, z2)))"

text \<open>
  \<open>zmodem_recv_push\<close>: \<open>waits\<close> says how many bytes the worker takes in each wait of 50 ms; the
  loop gives up when it has waited 2000 ms in all. The result is what the worker took
  meanwhile, what was dropped, and the ring.
\<close>

fun push_loop :: "nat \<Rightarrow> ring \<Rightarrow> byte list \<Rightarrow> (nat \<Rightarrow> nat) \<Rightarrow> byte list \<times> byte list \<times> ring" where
  "push_loop n z data waits =
     (case push_section z data of
        (rest, z1) \<Rightarrow>
          (if rest = [] then ([], [], z1)
           else case n of
                  0 \<Rightarrow> ([], rest, z1)
                | Suc m \<Rightarrow>
                    (case pop_n (waits m) z1 of
                       (got, z2) \<Rightarrow>
                         (case push_loop m z2 rest waits of
                            (got2, dropped, z3) \<Rightarrow> (got @ got2, dropped, z3)))))"

declare push_loop.simps [simp del]

definition zmodem_recv_push :: "ring \<Rightarrow> byte list \<Rightarrow> (nat \<Rightarrow> nat) \<Rightarrow> byte list \<times> byte list \<times> ring" where
  "zmodem_recv_push z data waits =
     (if data = [] then ([], [], z) else push_loop (2000 div 50) z data waits)"

text \<open>
  \<open>ring_pop\<close>: \<open>arrive\<close> is what the other thread pushes during each wait of 100 ms, \<open>stop\<close>
  whether the stop flag is set by then; it gives up after 30000 ms.
\<close>

fun ring_pop_wait :: "nat \<Rightarrow> ring \<Rightarrow> (nat \<Rightarrow> bool) \<Rightarrow> (nat \<Rightarrow> byte list) \<Rightarrow> byte option \<times> ring" where
  "ring_pop_wait n z stop arrive =
     (case ring_take z of
        (Some b, z1) \<Rightarrow> (Some b, z1)
      | (None, z1) \<Rightarrow>
          (if stop n then (None, z1)
           else case n of
                  0 \<Rightarrow> (None, z1)
                | Suc m \<Rightarrow> ring_pop_wait m (snd (push_section z1 (arrive m))) stop arrive))"

declare ring_pop_wait.simps [simp del]

definition ring_pop :: "ring \<Rightarrow> (nat \<Rightarrow> bool) \<Rightarrow> (nat \<Rightarrow> byte list) \<Rightarrow> byte option \<times> ring" where
  "ring_pop z stop arrive = ring_pop_wait (30000 div 100) z stop arrive"

definition ring_drain :: "ring \<Rightarrow> byte list \<times> ring" where
  "ring_drain z =
     (if rg_count z > 0 then
        (map (\<lambda>i. rg_mem z ((rg_tail z + int i) mod zmr_ring_bytes)) [0..<nat (rg_count z)],
         z\<lparr>rg_count := 0, rg_tail := rg_head z\<rparr>)
      else ([], z))"

definition ring_init :: "(int \<Rightarrow> byte) \<Rightarrow> ring" where
  "ring_init m = \<lparr>rg_mem = m, rg_head = 0, rg_tail = 0, rg_count = 0\<rparr>"

subsection \<open>The queue it promises\<close>

definition ring_inv :: "ring \<Rightarrow> bool" where
  "ring_inv z \<longleftrightarrow> 0 \<le> rg_tail z \<and> rg_tail z < zmr_ring_bytes \<and> 0 \<le> rg_count z \<and>
     rg_count z \<le> zmr_ring_bytes \<and> rg_head z = (rg_tail z + rg_count z) mod zmr_ring_bytes"

definition ring_list :: "ring \<Rightarrow> byte list" where
  "ring_list z = map (\<lambda>i. rg_mem z ((rg_tail z + int i) mod zmr_ring_bytes)) [0..<nat (rg_count z)]"

text \<open>A run of the two threads: the producer's sections (\<open>Some data\<close>) and the consumer's
  (\<open>None\<close>), in any order. The result is what was taken, what did not fit of each push, and the
  queue.\<close>

fun queue_run :: "('q \<Rightarrow> 'b list \<Rightarrow> 'b list \<times> 'q) \<Rightarrow> ('q \<Rightarrow> 'b option \<times> 'q) \<Rightarrow> 'q \<Rightarrow>
    'b list option list \<Rightarrow> 'b list \<times> 'b list list \<times> 'q" where
  "queue_run put get q [] = ([], [], q)"
| "queue_run put get q (Some xs # ops) =
     (let (rest, q1) = put q xs; (out, lost, q2) = queue_run put get q1 ops
      in (out, rest # lost, q2))"
| "queue_run put get q (None # ops) =
     (let (x, q1) = get q; (out, lost, q2) = queue_run put get q1 ops
      in (case x of None \<Rightarrow> out | Some b \<Rightarrow> b # out, lost, q2))"

text \<open>The part of each push that fitted.\<close>

fun accepted :: "'b list option list \<Rightarrow> 'b list list \<Rightarrow> 'b list" where
  "accepted (Some xs # ops) (l # ls) = take (length xs - length l) xs @ accepted ops ls"
| "accepted (None # ops) ls = accepted ops ls"
| "accepted _ _ = []"

text \<open>A bounded queue between one producer and one consumer.\<close>

locale bounded_queue =
  fixes qinv :: "'q \<Rightarrow> bool"
    and items :: "'q \<Rightarrow> 'b list"
    and cap :: nat
    and put :: "'q \<Rightarrow> 'b list \<Rightarrow> 'b list \<times> 'q"
    and get :: "'q \<Rightarrow> 'b option \<times> 'q"
  assumes put_inv: "qinv q \<Longrightarrow> qinv (snd (put q xs))"
    and put_items: "qinv q \<Longrightarrow> k = cap - length (items q) \<Longrightarrow>
      items (snd (put q xs)) = items q @ take k xs \<and> fst (put q xs) = drop k xs"
    and get_inv: "qinv q \<Longrightarrow> qinv (snd (get q))"
    and get_None: "qinv q \<Longrightarrow> items q = [] \<Longrightarrow> fst (get q) = None \<and> items (snd (get q)) = []"
    and get_Some: "qinv q \<Longrightarrow> items q = x # xs \<Longrightarrow> fst (get q) = Some x \<and> items (snd (get q)) = xs"
begin

lemma run_fifo:
  "qinv q \<Longrightarrow> queue_run put get q ops = (out, lost, q') \<Longrightarrow>
    qinv q' \<and> out @ items q' = items q @ accepted ops lost"
proof (induction ops arbitrary: q out lost q')
  case Nil
  then show ?case by simp
next
  case (Cons op ops)
  show ?case
  proof (cases op)
  case (Some xs)
  obtain rest q1 where p: "put q xs = (rest, q1)" by (cases "put q xs")
  obtain out1 lost1 q2 where r: "queue_run put get q1 ops = (out1, lost1, q2)" by (cases "queue_run put get q1 ops")
  have res: "out = out1" "lost = rest # lost1" "q' = q2" using Cons.prems(2) Some p r by auto
  have q1: "qinv q1" "items q1 = items q @ take (cap - length (items q)) xs" "rest = drop (cap - length (items q)) xs"
    using put_inv [OF Cons.prems(1), of xs] put_items [OF Cons.prems(1) refl, of xs] p by simp_all
  have "take (length xs - length rest) xs = take (cap - length (items q)) xs"
    unfolding q1(3)
    by (cases "cap - length (items q) \<le> length xs") simp_all
  then show ?thesis using Cons.IH [OF q1(1) r] q1(2) res Some by simp
next
  case None
  obtain x q1 where g: "get q = (x, q1)" by (cases "get q")
  obtain out1 lost1 q2 where r: "queue_run put get q1 ops = (out1, lost1, q2)" by (cases "queue_run put get q1 ops")
  have res: "out = (case x of None \<Rightarrow> out1 | Some b \<Rightarrow> b # out1)" "lost = lost1" "q' = q2" using Cons.prems(2) None g r by auto
  have q1: "qinv q1" using get_inv [OF Cons.prems(1)] g by simp
  note IH = Cons.IH [OF q1 r]
  show ?thesis
  proof (cases "items q")
    case Nil
    then show ?thesis using get_None [OF Cons.prems(1) Nil] g IH res None by simp
  next
    case (Cons b bs)
    then show ?thesis using get_Some [OF \<open>qinv q\<close> Cons] g IH res None by simp
  qed
  qed
qed

lemma items_bound: "qinv q \<Longrightarrow> length (items q) \<le> cap \<Longrightarrow> length (items (snd (put q xs))) \<le> cap"
  using put_items [OF _ refl, of q xs] by simp

end

subsection \<open>The ring is such a queue\<close>

lemma ring_bytes_pos: "0 < zmr_ring_bytes"
  by (simp add: zmr_ring_bytes_def)

lemma ring_slots_distinct:
  assumes "0 \<le> i" "i < zmr_ring_bytes" "0 \<le> j" "j < zmr_ring_bytes" "i \<noteq> j"
  shows "(t + i) mod zmr_ring_bytes \<noteq> (t + j) mod zmr_ring_bytes"
proof
  assume "(t + i) mod zmr_ring_bytes = (t + j) mod zmr_ring_bytes"
  then have "zmr_ring_bytes dvd (t + i) - (t + j)" by (simp add: mod_eq_dvd_iff)
  then have "zmr_ring_bytes dvd i - j" by simp
  then have "\<bar>zmr_ring_bytes\<bar> \<le> \<bar>i - j\<bar>" using assms(5) by (intro dvd_imp_le_int) auto
  then show False using assms by simp
qed

lemma write_loop_one:
  fixes z :: ring and b :: byte
  assumes inv: "ring_inv z" and room: "rg_count z < zmr_ring_bytes"
  defines "z1 \<equiv> z\<lparr>rg_mem := (rg_mem z)(rg_head z := b), rg_head := (rg_head z + 1) mod zmr_ring_bytes\<rparr>"
  shows "ring_inv (z1\<lparr>rg_count := rg_count z + 1\<rparr>)"
    and "ring_list (z1\<lparr>rg_count := rg_count z + 1\<rparr>) = ring_list z @ [b]"
proof -
  show "ring_inv (z1\<lparr>rg_count := rg_count z + 1\<rparr>)"
    using inv room by (auto simp: ring_inv_def z1_def mod_simps algebra_simps)
  have c: "nat (rg_count z + 1) = Suc (nat (rg_count z))" using inv by (simp add: ring_inv_def Suc_nat_eq_nat_zadd1)
  have old: "(rg_tail z + int i) mod zmr_ring_bytes \<noteq> rg_head z" if "i < nat (rg_count z)" for i
    using inv room that ring_slots_distinct [of "int i" "rg_count z" "rg_tail z"] by (auto simp: ring_inv_def)
  have new: "(rg_tail z + rg_count z) mod zmr_ring_bytes = rg_head z" "int (nat (rg_count z)) = rg_count z"
    using inv by (simp_all add: ring_inv_def)
  have "map (\<lambda>i. ((rg_mem z)(rg_head z := b)) ((rg_tail z + int i) mod zmr_ring_bytes)) [0..<nat (rg_count z)] = ring_list z"
    using old by (auto simp: ring_list_def)
  then show "ring_list (z1\<lparr>rg_count := rg_count z + 1\<rparr>) = ring_list z @ [b]"
    using new by (simp add: ring_list_def z1_def c)
qed

lemma write_loop_count [simp]: "rg_count (write_loop z bs) = rg_count z"
  by (induction z bs rule: write_loop.induct) simp_all

lemma write_loop_count_update:
  "write_loop (z\<lparr>rg_count := c\<rparr>) bs = (write_loop z bs)\<lparr>rg_count := c\<rparr>"
proof (induction z bs rule: write_loop.induct)
  case (2 z b bs)
  then show ?case by (cases z) simp
qed simp

lemma write_loop_list:
  assumes "ring_inv z" "rg_count z + int (length bs) \<le> zmr_ring_bytes"
  defines "z1 \<equiv> (write_loop z bs)\<lparr>rg_count := rg_count z + int (length bs)\<rparr>"
  shows "ring_inv z1 \<and> ring_list z1 = ring_list z @ bs"
  using assms(1,2) unfolding z1_def
proof (induction bs arbitrary: z)
  case Nil
  then show ?case by (simp add: ring_list_def)
next
  case (Cons b bs)
  let ?z = "z\<lparr>rg_mem := (rg_mem z)(rg_head z := b), rg_head := (rg_head z + 1) mod zmr_ring_bytes\<rparr>"
  let ?z1 = "?z\<lparr>rg_count := rg_count z + 1\<rparr>"
  have room: "rg_count z < zmr_ring_bytes" using Cons.prems(2) by simp
  note one = write_loop_one [OF Cons.prems(1) room, of b]
  have "rg_count ?z1 + int (length bs) \<le> zmr_ring_bytes" using Cons.prems(2) by simp
  from Cons.IH [OF one(1) this] one(2)
  show ?case by (simp add: write_loop_count_update algebra_simps)
qed

lemma length_ring_list: "ring_inv z \<Longrightarrow> int (length (ring_list z)) = rg_count z"
  by (simp add: ring_list_def ring_inv_def)

lemma push_section_queue:
  assumes inv: "ring_inv z"
  shows "ring_inv (snd (push_section z xs))"
    and "k = nat zmr_ring_bytes - length (ring_list z) \<Longrightarrow>
      ring_list (snd (push_section z xs)) = ring_list z @ take k xs \<and> fst (push_section z xs) = drop k xs"
proof -
  define n where "n = (if int (length xs) > zmr_ring_bytes - rg_count z then zmr_ring_bytes - rg_count z else int (length xs))"
  have n: "0 \<le> n" "n \<le> int (length xs)" "rg_count z + n \<le> zmr_ring_bytes" using inv by (auto simp: n_def ring_inv_def)
  have len: "int (length (take (nat n) xs)) = n" using n by simp
  have sec: "push_section z xs = (drop (nat n) xs, (write_loop z (take (nat n) xs))\<lparr>rg_count := rg_count z + n\<rparr>)"
    by (simp add: push_section_def Let_def n_def)
  have w: "ring_inv ((write_loop z (take (nat n) xs))\<lparr>rg_count := rg_count z + n\<rparr>) \<and>
      ring_list ((write_loop z (take (nat n) xs))\<lparr>rg_count := rg_count z + n\<rparr>) = ring_list z @ take (nat n) xs"
    using write_loop_list [OF inv, of "take (nat n) xs"] n by (simp add: len)
  then show "ring_inv (snd (push_section z xs))" by (simp add: sec)
  assume k: "k = nat zmr_ring_bytes - length (ring_list z)"
  have "int k = zmr_ring_bytes - rg_count z"
    using inv length_ring_list [OF inv] by (auto simp: k ring_inv_def)
  then have "k = nat (zmr_ring_bytes - rg_count z)" by simp
  then have "take (nat n) xs = take k xs \<and> drop (nat n) xs = drop k xs"
    by (auto simp: n_def)
  with w show "ring_list (snd (push_section z xs)) = ring_list z @ take k xs \<and> fst (push_section z xs) = drop k xs"
    by (simp add: sec)
qed

lemma ring_take_queue:
  assumes inv: "ring_inv z"
  shows "ring_inv (snd (ring_take z))"
    and "ring_list z = [] \<Longrightarrow> fst (ring_take z) = None \<and> ring_list (snd (ring_take z)) = []"
    and "ring_list z = x # xs \<Longrightarrow> fst (ring_take z) = Some x \<and> ring_list (snd (ring_take z)) = xs"
proof -
  show "ring_inv (snd (ring_take z))"
  proof -
    have "((rg_tail z + 1) mod zmr_ring_bytes + (rg_count z - 1)) mod zmr_ring_bytes =
        (rg_tail z + rg_count z) mod zmr_ring_bytes"
      by (simp add: mod_add_left_eq)
    then show ?thesis using inv ring_bytes_pos by (auto simp: ring_take_def ring_inv_def)
  qed
  have c: "rg_count z = int (length (ring_list z))" using length_ring_list [OF inv] by simp
  show "ring_list z = [] \<Longrightarrow> fst (ring_take z) = None \<and> ring_list (snd (ring_take z)) = []"
    using c by (simp add: ring_take_def)
  assume l: "ring_list z = x # xs"
  define k where "k = length xs"
  have k: "nat (rg_count z) = Suc k" using c l by (simp add: k_def)
  have "ring_list z = rg_mem z (rg_tail z mod zmr_ring_bytes) #
      map (\<lambda>i. rg_mem z ((rg_tail z + 1 + int i) mod zmr_ring_bytes)) [0..<k]"
    by (simp add: ring_list_def k map_upt_Suc algebra_simps del: upt_Suc)
  moreover have t: "rg_tail z mod zmr_ring_bytes = rg_tail z" using inv by (simp add: ring_inv_def)
  ultimately have x: "x = rg_mem z (rg_tail z)"
    and xs: "xs = map (\<lambda>i. rg_mem z ((rg_tail z + 1 + int i) mod zmr_ring_bytes)) [0..<k]"
    using l by simp_all
  have pos: "0 < rg_count z" and kk: "nat (rg_count z - 1) = k" using k by simp_all
  have "ring_list (snd (ring_take z)) =
      map (\<lambda>i. rg_mem z (((rg_tail z + 1) mod zmr_ring_bytes + int i) mod zmr_ring_bytes)) [0..<k]"
    using pos by (simp add: ring_take_def ring_list_def kk)
  also have "\<dots> = xs" unfolding xs by (simp only: mod_add_left_eq)
  finally show "fst (ring_take z) = Some x \<and> ring_list (snd (ring_take z)) = xs"
    using pos x by (simp add: ring_take_def)
qed

interpretation zq: bounded_queue ring_inv ring_list "nat zmr_ring_bytes" push_section ring_take
  using push_section_queue ring_take_queue by unfold_locales auto

subsection \<open>Properties\<close>

lemma ring_init_inv: "ring_inv (ring_init m)" "ring_list (ring_init m) = []"
  by (simp_all add: ring_inv_def ring_init_def ring_list_def zmr_ring_bytes_def)

text \<open>
  C31: the ring is a first-in first-out queue. For any interleaving of pushes and pops from the
  start, what the worker took followed by what is drained at the end is, byte for byte and in
  order, what the pushes accepted.
\<close>

theorem ring_is_fifo:
  assumes "queue_run push_section ring_take (ring_init m) ops = (out, lost, z)"
  shows "out @ fst (ring_drain z) = accepted ops lost \<and> rg_count z \<le> zmr_ring_bytes"
proof -
  have inv: "ring_inv z" and eq: "out @ ring_list z = accepted ops lost"
    using zq.run_fifo [OF ring_init_inv(1) assms] by (simp_all add: ring_init_inv(2))
  have "fst (ring_drain z) = ring_list z"
    using inv by (auto simp: ring_drain_def ring_list_def ring_inv_def)
  with inv eq show ?thesis by (simp add: ring_inv_def)
qed

lemma ring_is_fifo_witness:
  "case queue_run push_section ring_take (ring_init (\<lambda>_. 0)) [Some [1, 2], None, Some [3]] of
     (out, lost, z) \<Rightarrow> out @ fst (ring_drain z) = [1, 2, 3 :: byte]"
proof -
  obtain out lost z where r: "queue_run push_section ring_take (ring_init (\<lambda>_. 0)) [Some [1, 2], None, Some [3]] = (out, lost, z)"
    by (cases "queue_run push_section ring_take (ring_init (\<lambda>_. 0)) [Some [1, 2], None, Some [3]]") auto
  then have "lost = [[], []]"
    by (auto simp: push_section_def ring_init_def ring_take_def zmr_ring_bytes_def Let_def split: prod.splits)
  then show ?thesis using ring_is_fifo [OF r] r by simp
qed

end
