(* ===== verification/ArchieParse.thy ===== *)
theory ArchieParse
  imports Prelude
begin

section \<open>Archie: the reply parser (archie\_ardp.c)\<close>

text \<open>
  The text of a reply: the field tokenizer with its quoting, the attribute and LINK lines, and
  \<open>parse_body\<close>, which fills the array of hits. Every fixed buffer of the code shows as the cut it
  makes. Allocation is an argument: \<open>mem_ok k\<close> says whether the \<open>k\<close>-th allocation succeeds.
\<close>

subsection \<open>Fields\<close>

text \<open>\<open>if (oi < outsz - 1) out[oi++] = c\<close>.\<close>

definition putc :: "nat \<Rightarrow> byte list \<Rightarrow> byte \<Rightarrow> byte list" where
  "putc outsz acc c = (if length acc < outsz - 1 then acc @ [c] else acc)"

definition is_blank :: "byte \<Rightarrow> bool" where
  "is_blank c \<longleftrightarrow> c = 0x20 \<or> c = 0x09"

fun quoted_field :: "nat \<Rightarrow> byte list \<Rightarrow> byte list \<Rightarrow> byte list \<times> byte list" where
  "quoted_field outsz acc [] = (acc, [])"
| "quoted_field outsz acc (c # p) =
     (if c = 0x27 then
        (case p of
           [] \<Rightarrow> (acc, [])
         | d # p2 \<Rightarrow> if d = 0x27 then quoted_field outsz (putc outsz acc 0x27) p2 else (acc, p))
      else quoted_field outsz (putc outsz acc c) p)"

fun plain_field :: "nat \<Rightarrow> byte list \<Rightarrow> byte list \<Rightarrow> byte list \<times> byte list" where
  "plain_field outsz acc [] = (acc, [])"
| "plain_field outsz acc (c # p) =
     (if is_blank c then (acc, c # p) else plain_field outsz (putc outsz acc c) p)"

text \<open>\<open>None\<close> is the return code 0; otherwise the field and what is left of the line.\<close>

definition next_field :: "nat \<Rightarrow> byte list \<Rightarrow> (byte list \<times> byte list) option" where
  "next_field outsz s =
     (case dropWhile is_blank s of
        [] \<Rightarrow> None
      | c # p \<Rightarrow> Some (if c = 0x27 then quoted_field outsz [] p else plain_field outsz [] (c # p)))"

definition denull :: "byte list \<Rightarrow> byte list" where
  "denull s = (if s = asc ''NULL'' then [] else s)"

definition copy_bounded :: "nat \<Rightarrow> byte list \<Rightarrow> byte list" where
  "copy_bounded dsz src = take (dsz - 1) src"

definition split_path :: "nat \<Rightarrow> nat \<Rightarrow> byte list \<Rightarrow> byte list \<times> byte list" where
  "split_path dsz fsz hsoname =
     (if 0x2F \<in> set hsoname then
        let tail = rev (takeWhile (\<lambda>c. c \<noteq> 0x2F) (rev hsoname));
            dl = length hsoname - length tail - 1
        in (if dl = 0 then copy_bounded dsz [0x2F] else take (if dl > dsz - 1 then dsz - 1 else dl) hsoname,
            copy_bounded fsz tail)
      else ([], copy_bounded fsz hsoname))"

definition size_value :: "nat \<Rightarrow> byte list \<Rightarrow> byte list" where
  "size_value outsz val =
     (let out = take (outsz - 1) (takeWhile is_digit (dropWhile (\<lambda>c. c = 0x20) val))
      in if out = [] then copy_bounded outsz val else out)"

subsection \<open>Hits\<close>

record archie_hit =
  h_name :: "byte list"
  h_host :: "byte list"
  h_hsoname :: "byte list"
  h_dir :: "byte list"
  h_filename :: "byte list"
  h_size :: "byte list"
  h_mode :: "byte list"
  h_date :: "byte list"

definition archie_store_attr :: "archie_hit \<Rightarrow> byte list \<Rightarrow> byte list \<Rightarrow> archie_hit" where
  "archie_store_attr h aname value =
     (if aname = asc ''SIZE'' then h\<lparr>h_size := size_value 64 value\<rparr>
      else if aname = asc ''UNIX-MODES'' then
        (case next_field 48 value of
           None \<Rightarrow> h
         | Some (m, _) \<Rightarrow> h\<lparr>h_mode := copy_bounded 48 m\<rparr>)
      else if aname = asc ''LAST-MODIFIED'' then h\<lparr>h_date := copy_bounded 96 value\<rparr>
      else h)"

text \<open>The locals of \<open>parse_body\<close> and the fields of \<open>out\<close> it sets on the way.\<close>

record pstate =
  ps_hits :: "archie_hit list"
  ps_cap :: nat
  ps_allocs :: nat
  ps_cur :: "nat option"
  ps_saw_error :: bool
  ps_err_line :: "byte list"
  ps_none_found :: bool
  ps_warning :: "byte list"

fun read_fields :: "nat \<Rightarrow> byte list \<Rightarrow> byte list list" where
  "read_fields 0 s = []"
| "read_fields (Suc k) s =
     (case next_field 512 s of None \<Rightarrow> [] | Some (f, rest) \<Rightarrow> f # read_fields k rest)"

text \<open>The fields before the value of an attribute line, each with the size of its buffer.\<close>

fun skip_fields :: "nat list \<Rightarrow> byte list \<Rightarrow> (byte list list \<times> byte list) option" where
  "skip_fields [] s = Some ([], s)"
| "skip_fields (sz # szs) s =
     (case next_field sz s of
        None \<Rightarrow> None
      | Some (f, rest) \<Rightarrow>
          (case skip_fields szs rest of None \<Rightarrow> None | Some (fs, r) \<Rightarrow> Some (f # fs, r)))"

definition attr_line :: "pstate \<Rightarrow> nat list \<Rightarrow> nat \<Rightarrow> byte list \<Rightarrow> pstate" where
  "attr_line ps szs k q =
     (case ps_cur ps of
        None \<Rightarrow> ps
      | Some cur \<Rightarrow>
          (case skip_fields szs q of
             None \<Rightarrow> ps
           | Some (fs, r) \<Rightarrow>
               ps\<lparr>ps_hits := (ps_hits ps)[cur :=
                 archie_store_attr (ps_hits ps ! cur) (fs ! k) (dropWhile (\<lambda>c. c = 0x20) r)]\<rparr>))"

definition new_hit :: "byte list list \<Rightarrow> archie_hit" where
  "new_hit f =
     (case split_path 512 256 (denull (f ! 7)) of
        (dir, file) \<Rightarrow>
          \<lparr>h_name = copy_bounded 256 (denull (f ! 3)), h_host = copy_bounded 256 (denull (f ! 5)),
           h_hsoname = copy_bounded 512 (denull (f ! 7)), h_dir = dir, h_filename = file,
           h_size = [], h_mode = [], h_date = []\<rparr>)"

text \<open>\<open>Inl\<close>: the array could not grow, and \<open>parse_body\<close> returns \<open>ARCHIE_ERR_NOMEM\<close>.\<close>

definition link_line :: "(nat \<Rightarrow> bool) \<Rightarrow> pstate \<Rightarrow> byte list \<Rightarrow> pstate + pstate" where
  "link_line mem_ok ps line =
     (let f = read_fields 10 line in
      if length f < 8 then Inr ps
      else if f ! 1 \<noteq> asc ''L'' then Inr ps
      else if denull (f ! 2) \<noteq> asc ''EXTERNAL'' then Inr ps
      else if denull (f ! 7) = [] then Inr ps
      else
        let full = (length (ps_hits ps) = ps_cap ps) in
        if full \<and> \<not> mem_ok (ps_allocs ps) then Inl ps
        else
          let ps1 = (if full then ps\<lparr>ps_cap := (if ps_cap ps = 0 then 32 else ps_cap ps * 2),
                                     ps_allocs := Suc (ps_allocs ps)\<rparr> else ps)
          in Inr (ps1\<lparr>ps_hits := ps_hits ps1 @ [new_hit f], ps_cur := Some (length (ps_hits ps1))\<rparr>))"

definition starts :: "string \<Rightarrow> byte list \<Rightarrow> bool" where
  "starts w line \<longleftrightarrow> take (length w) line = asc w"

definition parse_line :: "(nat \<Rightarrow> bool) \<Rightarrow> pstate \<Rightarrow> byte list \<Rightarrow> pstate + pstate" where
  "parse_line mem_ok ps line =
     (if starts ''ATTRIBUTE '' line then Inr (attr_line ps [64, 64, 64, 16] 2 (drop 10 line))
      else if starts ''LINK-INFO '' line then Inr (attr_line ps [64, 64, 16] 1 (drop 10 line))
      else if starts ''LINK '' line then link_line mem_ok ps line
      else if starts ''NONE-FOUND'' line then Inr (ps\<lparr>ps_none_found := True\<rparr>)
      else if starts ''ERROR'' line \<or> starts ''FAILURE'' line \<or> starts ''VERSION-NOT-SUPPORTED'' line then
        Inr (if \<not> ps_saw_error ps then ps\<lparr>ps_err_line := copy_bounded 256 line, ps_saw_error := True\<rparr> else ps)
      else if starts ''WARNING '' line then
        Inr (if ps_warning ps = [] then ps\<lparr>ps_warning := copy_bounded 256 (drop 8 line)\<rparr> else ps)
      else Inr ps)"

subsection \<open>The body\<close>

text \<open>The local \<open>line[1400]\<close>: the cut, then the trailing returns and blanks; read as a C string.\<close>

definition line_of :: "byte list \<Rightarrow> byte list" where
  "line_of raw = rev (dropWhile (\<lambda>c. c = 0x0D \<or> c = 0x20) (rev (take 1399 raw)))"

function parse_loop :: "(nat \<Rightarrow> bool) \<Rightarrow> pstate \<Rightarrow> byte list \<Rightarrow> pstate + pstate" where
  "parse_loop mem_ok ps p =
     (if p = [] then Inr ps
      else
        let raw = takeWhile (\<lambda>c. c \<noteq> 0x0A) p; rest = drop (Suc (length raw)) p; line = line_of raw
        in if line = [] then parse_loop mem_ok ps rest
           else case parse_line mem_ok ps (cstr line) of
                  Inl ps1 \<Rightarrow> Inl ps1
                | Inr ps1 \<Rightarrow> parse_loop mem_ok ps1 rest)"
  by auto
termination by (relation "measure (\<lambda>(m, ps, p). length p)") auto

declare parse_loop.simps [simp del]

datatype archie_status =
    ARCHIE_OK | ARCHIE_ERR_DNS | ARCHIE_ERR_SOCKET | ARCHIE_ERR_TIMEOUT | ARCHIE_ERR_SERVER
  | ARCHIE_ERR_NOMEM | ARCHIE_ERR_PROTOCOL

text \<open>\<open>r_message\<close> is what was written: 256 bytes and no terminator when it does not fit.\<close>

record archie_result =
  r_status :: archie_status
  r_message :: "byte list"
  r_hits :: "archie_hit list"
  r_none_found :: bool
  r_warning :: "byte list"

definition ps_start :: pstate where
  "ps_start = \<lparr>ps_hits = [], ps_cap = 0, ps_allocs = 0, ps_cur = None, ps_saw_error = False,
     ps_err_line = [], ps_none_found = False, ps_warning = []\<rparr>"

definition found_message :: "nat \<Rightarrow> byte list" where
  "found_message n = dec_bytes n @ asc (if n = 1 then '' file found.'' else '' files found.'')"

definition parse_body :: "(nat \<Rightarrow> bool) \<Rightarrow> byte list \<Rightarrow> archie_result \<Rightarrow> archie_status \<times> archie_result" where
  "parse_body mem_ok body out =
     (case parse_loop mem_ok (ps_start\<lparr>ps_none_found := r_none_found out, ps_warning := r_warning out\<rparr>) body of
        Inl ps \<Rightarrow> (ARCHIE_ERR_NOMEM, out\<lparr>r_none_found := ps_none_found ps, r_warning := ps_warning ps\<rparr>)
      | Inr ps \<Rightarrow>
          let o1 = out\<lparr>r_hits := ps_hits ps, r_none_found := ps_none_found ps, r_warning := ps_warning ps\<rparr>
          in if ps_hits ps \<noteq> [] then
               (ARCHIE_OK, o1\<lparr>r_message := take 256 (found_message (length (ps_hits ps)))\<rparr>)
             else if ps_saw_error ps then
               (ARCHIE_ERR_SERVER, o1\<lparr>r_message := copy_bounded 256 (ps_err_line ps)\<rparr>)
             else (ARCHIE_OK, o1\<lparr>r_message := copy_bounded 256 (asc ''No matches.'')\<rparr>))"

subsection \<open>Fields that are read back\<close>

definition quote_body :: "byte list \<Rightarrow> byte list" where
  "quote_body s = concat (map (\<lambda>c. if c = 0x27 then [0x27, 0x27] else [c]) s)"

definition quote_field :: "byte list \<Rightarrow> byte list" where
  "quote_field s = [0x27] @ quote_body s @ [0x27]"

lemma putc_append: "length acc \<le> sz - 1 \<Longrightarrow> take (sz - 1) (putc sz acc c @ s) = take (sz - 1) (acc @ c # s)"
  by (cases "length acc < sz - 1") (simp_all add: putc_def del: take_append, simp)

lemma quoted_field_body:
  assumes "rest = [] \<or> hd rest \<noteq> 0x27"
  shows "length acc \<le> sz - 1 \<Longrightarrow>
    quoted_field sz acc (quote_body s @ 0x27 # rest) = (take (sz - 1) (acc @ s), rest)"
proof (induction s arbitrary: acc)
  case Nil
  then show ?case using assms by (cases rest) (simp_all add: quote_body_def)
next
  case (Cons c s)
  have "quoted_field sz acc (quote_body (c # s) @ 0x27 # rest) =
      quoted_field sz (putc sz acc c) (quote_body s @ 0x27 # rest)"
    by (simp add: quote_body_def)
  also have "\<dots> = (take (sz - 1) (putc sz acc c @ s), rest)"
    using Cons.prems by (intro Cons.IH) (simp add: putc_def)
  also have "take (sz - 1) (putc sz acc c @ s) = take (sz - 1) (acc @ c # s)"
    using Cons.prems by (rule putc_append)
  finally show ?case .
qed

lemma plain_field_word:
  assumes "\<forall>c\<in>set w. \<not> is_blank c" "rest = [] \<or> is_blank (hd rest)"
  shows "length acc \<le> sz - 1 \<Longrightarrow> plain_field sz acc (w @ rest) = (take (sz - 1) (acc @ w), rest)"
  using assms(1)
proof (induction w arbitrary: acc)
  case Nil
  then show ?case using assms(2) by (cases rest) simp_all
next
  case (Cons c w)
  have "plain_field sz (putc sz acc c) (w @ rest) = (take (sz - 1) (putc sz acc c @ w), rest)"
    using Cons.prems by (intro Cons.IH) (simp_all add: putc_def)
  moreover have "take (sz - 1) (putc sz acc c @ w) = take (sz - 1) (acc @ c # w)"
    using Cons.prems(1) by (rule putc_append)
  ultimately show ?case using Cons.prems(2) by simp
qed

lemma next_field_blank [simp]: "next_field sz (0x20 # s) = next_field sz s"
  by (simp add: next_field_def is_blank_def)

lemma next_field_quoted:
  "rest = [] \<or> is_blank (hd rest) \<Longrightarrow> next_field sz (quote_field s @ rest) = Some (take (sz - 1) s, rest)"
  using quoted_field_body [of rest "[]" sz s]
  by (auto simp: next_field_def quote_field_def is_blank_def)

lemma next_field_plain:
  assumes "w \<noteq> []" "\<forall>c\<in>set w. \<not> is_blank c" "hd w \<noteq> 0x27" "rest = [] \<or> is_blank (hd rest)"
  shows "next_field sz (w @ rest) = Some (take (sz - 1) w, rest)"
proof -
  obtain c p where w: "w = c # p" using assms(1) by (cases w) auto
  have "dropWhile is_blank (w @ rest) = w @ rest" using assms(2) w by simp
  then show ?thesis
    using plain_field_word [OF assms(2,4), of "[]" sz] assms(3) w by (simp add: next_field_def del: plain_field.simps)
qed

text \<open>A word of the protocol followed by more of the line.\<close>

definition is_word :: "string \<Rightarrow> bool" where
  "is_word w \<longleftrightarrow> w \<noteq> [] \<and> list_all (\<lambda>c. \<not> is_blank (of_char c)) w \<and> of_char (hd w) \<noteq> (0x27 :: byte)"

lemma next_field_word:
  "is_word w \<Longrightarrow> rest = [] \<or> is_blank (hd rest) \<Longrightarrow> length w < sz \<Longrightarrow>
    next_field sz (asc w @ rest) = Some (asc w, rest)"
  using next_field_plain [of "asc w" rest sz]
  by (cases w) (auto simp: is_word_def asc_def list_all_iff)

subsection \<open>A reply as a server writes it\<close>

record entry =
  e_name :: "byte list"
  e_host :: "byte list"
  e_path :: "byte list"
  e_size :: "byte list"

definition sp :: "byte list" where "sp = [0x20]"

definition link_text :: "entry \<Rightarrow> byte list" where
  "link_text e =
     asc ''LINK'' @ sp @ asc ''L'' @ sp @ asc ''EXTERNAL'' @ sp @ quote_field (e_name e) @ sp @
     asc ''INTERNET-D'' @ sp @ quote_field (e_host e) @ sp @ asc ''ASCII'' @ sp @ quote_field (e_path e) @ sp @
     asc ''0'' @ sp @ asc ''0''"

definition size_text :: "entry \<Rightarrow> byte list" where
  "size_text e =
     asc ''ATTRIBUTE '' @ asc ''CACHED'' @ sp @ asc ''FIELD'' @ sp @ asc ''SIZE'' @ sp @ asc ''SEQUENCE'' @ sp @
     e_size e @ sp @ asc ''bytes''"

definition reply_text :: "entry list \<Rightarrow> byte list" where
  "reply_text es = concat (map (\<lambda>e. link_text e @ [0x0A] @ size_text e @ [0x0A]) es)"

definition plain_text :: "byte list \<Rightarrow> bool" where
  "plain_text s \<longleftrightarrow> s \<noteq> [] \<and> s \<noteq> asc ''NULL'' \<and> 0 \<notin> set s \<and> 0x0A \<notin> set s"

definition entry_ok :: "entry \<Rightarrow> bool" where
  "entry_ok e \<longleftrightarrow> plain_text (e_name e) \<and> plain_text (e_host e) \<and> plain_text (e_path e) \<and>
     length (e_name e) < 256 \<and> length (e_host e) < 256 \<and> length (e_path e) < 512 \<and>
     e_size e \<noteq> [] \<and> list_all is_digit (e_size e) \<and> length (e_size e) < 64 \<and>
     length (link_text e) < 1400"

definition hit_of :: "entry \<Rightarrow> archie_hit" where
  "hit_of e = \<lparr>h_name = e_name e, h_host = e_host e, h_hsoname = e_path e,
     h_dir = fst (split_path 512 256 (e_path e)), h_filename = snd (split_path 512 256 (e_path e)),
     h_size = e_size e, h_mode = [], h_date = []\<rparr>"

lemma read_fields_link:
  assumes "entry_ok e"
  shows "read_fields 10 (link_text e) =
    [asc ''LINK'', asc ''L'', asc ''EXTERNAL'', e_name e, asc ''INTERNET-D'', e_host e, asc ''ASCII'',
     e_path e, asc ''0'', asc ''0'']"
proof -
  have b: "is_blank (hd (sp @ r))" "sp @ r = 0x20 # r" for r by (simp_all add: sp_def is_blank_def)
  let ?word = "\<lambda>w. is_word w \<and> length w < 512"
  have w: "?word ''LINK''" "?word ''L''" "?word ''EXTERNAL''" "?word ''INTERNET-D''" "?word ''ASCII''" "?word ''0''"
    by (simp_all add: is_word_def is_blank_def)
  have wd: "next_field 512 (asc w @ sp @ r) = Some (asc w, sp @ r)" if "?word w" for w r
    using next_field_word [of w "sp @ r" 512] b that by blast
  have we: "next_field 512 (asc ''0'') = Some (asc ''0'', [])"
    using next_field_word [of "''0''" "[]" 512] w(6) by simp
  have q: "next_field 512 (quote_field s @ sp @ r) = Some (take 511 s, sp @ r)" for s r
    using next_field_quoted [of "sp @ r" 512 s] b(1) [of r] by simp
  have s: "next_field 512 (sp @ r) = next_field 512 r" for r by (simp add: sp_def)
  have sz: "take 511 (e_name e) = e_name e" "take 511 (e_host e) = e_host e" "take 511 (e_path e) = e_path e"
    using assms by (simp_all add: entry_ok_def)
  have ten: "(10::nat) = Suc (Suc (Suc (Suc (Suc (Suc (Suc (Suc (Suc (Suc 0)))))))))" by simp
  show ?thesis
    unfolding link_text_def ten
    by (simp only: read_fields.simps s wd [OF w(1)] wd [OF w(2)] wd [OF w(3)] wd [OF w(4)] wd [OF w(5)] wd [OF w(6)]
        we q sz option.case prod.case)
qed

lemma size_value_digits:
  assumes "ds \<noteq> []" "list_all is_digit ds" "length ds < 64"
  shows "size_value 64 (ds @ sp @ asc ''bytes'') = ds"
proof -
  have "hd ds \<noteq> 0x20" using assms(1,2) by (cases ds) (auto simp: is_digit_def)
  then have "dropWhile (\<lambda>c. c = 0x20) (ds @ sp @ asc ''bytes'') = ds @ sp @ asc ''bytes''"
    using assms(1) by (cases ds) auto
  moreover have "takeWhile is_digit (ds @ sp @ asc ''bytes'') = ds"
    using assms(2) by (induction ds) (auto simp: sp_def is_digit_def)
  ultimately show ?thesis using assms by (simp add: size_value_def)
qed

lemma skip_fields_size:
  "skip_fields [64, 64, 64, 16] (asc ''CACHED'' @ sp @ asc ''FIELD'' @ sp @ asc ''SIZE'' @ sp @ asc ''SEQUENCE'' @ sp @ v) =
    Some ([asc ''CACHED'', asc ''FIELD'', asc ''SIZE'', asc ''SEQUENCE''], sp @ v)"
proof -
  have b: "is_blank (hd (sp @ r))" for r by (simp add: sp_def is_blank_def)
  have w: "is_word ''CACHED''" "is_word ''FIELD''" "is_word ''SIZE''" "is_word ''SEQUENCE''"
    by (simp_all add: is_word_def is_blank_def)
  have wd: "next_field sz (asc w @ sp @ r) = Some (asc w, sp @ r)" if "is_word w \<and> length w < sz" for sz w r
    using next_field_word [of w "sp @ r" sz] b that by blast
  have s: "next_field sz (sp @ r) = next_field sz r" for sz r by (simp add: sp_def)
  have x: "next_field 64 (asc ''CACHED'' @ sp @ r) = Some (asc ''CACHED'', sp @ r)"
    "next_field 64 (asc ''FIELD'' @ sp @ r) = Some (asc ''FIELD'', sp @ r)"
    "next_field 64 (asc ''SIZE'' @ sp @ r) = Some (asc ''SIZE'', sp @ r)"
    "next_field 16 (asc ''SEQUENCE'' @ sp @ r) = Some (asc ''SEQUENCE'', sp @ r)" for r
    by (rule wd; simp add: w)+
  show ?thesis by (simp only: skip_fields.simps s x option.case prod.case)
qed

lemma is_digit_plain: "is_digit c \<Longrightarrow> c \<noteq> 0 \<and> c \<noteq> 0x0A \<and> c \<noteq> 0x20 \<and> c \<noteq> 0x0D"
  by (auto simp: is_digit_def)

text \<open>A line without returns and NULs goes to \<open>parse_line\<close> as it is.\<close>

lemma parse_loop_line:
  assumes "line \<noteq> []" "0 \<notin> set line" "0x0A \<notin> set line" "length line < 1400" "last line \<noteq> 0x0D" "last line \<noteq> 0x20"
  shows "parse_loop mem_ok ps (line @ 0x0A # rest) =
    (case parse_line mem_ok ps line of Inl ps1 \<Rightarrow> Inl ps1 | Inr ps1 \<Rightarrow> parse_loop mem_ok ps1 rest)"
proof -
  have raw: "takeWhile (\<lambda>c. c \<noteq> 0x0A) (line @ 0x0A # rest) = line"
    using assms(3) by (induction line) auto
  have "dropWhile (\<lambda>c. c = 0x0D \<or> c = 0x20) (rev line) = rev line"
    using assms(1,5,6) by (cases line rule: rev_cases) auto
  then have line: "line_of line = line" using assms(4) by (simp add: line_of_def)
  have "cstr line = line" unfolding cstr_def using assms(2) by (induction line) auto
  moreover have "drop (Suc (length line)) (line @ 0x0A # rest) = rest" by (induction line) auto
  ultimately show ?thesis
    by (subst parse_loop.simps) (simp add: raw line assms(1) Let_def del: drop_append split: sum.split)
qed

lemma parse_link_text:
  assumes "entry_ok e" "mem_ok (ps_allocs ps)"
  shows "\<exists>ps'. parse_line mem_ok ps (link_text e) = Inr ps' \<and>
    ps_hits ps' = ps_hits ps @ [(hit_of e)\<lparr>h_size := []\<rparr>] \<and> ps_cur ps' = Some (length (ps_hits ps)) \<and>
    ps_none_found ps' = ps_none_found ps \<and> ps_warning ps' = ps_warning ps"
proof -
  define f where "f = [asc ''LINK'', asc ''L'', asc ''EXTERNAL'', e_name e, asc ''INTERNET-D'', e_host e, asc ''ASCII'',
     e_path e, asc ''0'', asc ''0'']"
  have f: "read_fields 10 (link_text e) = f" using read_fields_link [OF assms(1)] by (simp only: f_def)
  have fs: "length f = 10" "f ! 1 = asc ''L''" "f ! 2 = asc ''EXTERNAL''" "f ! 3 = e_name e" "f ! 5 = e_host e" "f ! 7 = e_path e"
    by (simp_all add: f_def)
  have ok: "plain_text (e_name e)" "plain_text (e_host e)" "plain_text (e_path e)"
    "length (e_name e) < 256" "length (e_host e) < 256" "length (e_path e) < 512"
    using assms(1) by (simp_all add: entry_ok_def)
  have dn: "denull (e_name e) = e_name e" "denull (e_host e) = e_host e" "denull (e_path e) = e_path e" "e_path e \<noteq> []"
    using ok by (simp_all add: denull_def plain_text_def)
  have hit: "new_hit f = (hit_of e)\<lparr>h_size := []\<rparr>"
    using fs dn ok by (simp add: new_hit_def hit_of_def copy_bounded_def split: prod.split)
  have st: "\<not> starts ''ATTRIBUTE '' (link_text e)" "\<not> starts ''LINK-INFO '' (link_text e)" "starts ''LINK '' (link_text e)"
    by (simp_all add: starts_def link_text_def sp_def)
  have ext: "denull (asc ''EXTERNAL'') = asc ''EXTERNAL''" by (simp add: denull_def)
  have "parse_line mem_ok ps (link_text e) = link_line mem_ok ps (link_text e)"
    using st by (simp add: parse_line_def)
  moreover have "\<exists>ps'. link_line mem_ok ps (link_text e) = Inr ps' \<and>
    ps_hits ps' = ps_hits ps @ [(hit_of e)\<lparr>h_size := []\<rparr>] \<and> ps_cur ps' = Some (length (ps_hits ps)) \<and>
    ps_none_found ps' = ps_none_found ps \<and> ps_warning ps' = ps_warning ps"
    using assms(2) by (simp add: link_line_def f fs dn ext hit Let_def del: asc_simps One_nat_def)
  ultimately show ?thesis by simp
qed

lemma parse_size_text:
  assumes "entry_ok e" "ps_cur ps = Some (length hs)" "ps_hits ps = hs @ [h]"
  shows "parse_line mem_ok ps (size_text e) = Inr (ps\<lparr>ps_hits := hs @ [h\<lparr>h_size := e_size e\<rparr>]\<rparr>)"
proof -
  let ?v = "e_size e @ sp @ asc ''bytes''"
  have ds: "e_size e \<noteq> []" "list_all is_digit (e_size e)" "length (e_size e) < 64"
    using assms(1) by (simp_all add: entry_ok_def)
  have "hd (e_size e) \<noteq> 0x20" using ds(1,2) by (cases "e_size e") (auto simp: is_digit_def)
  then have v: "dropWhile (\<lambda>c. c = 0x20) (sp @ ?v) = ?v" using ds(1) by (cases "e_size e") (auto simp: sp_def)
  have drop: "drop 10 (size_text e) = asc ''CACHED'' @ sp @ asc ''FIELD'' @ sp @ asc ''SIZE'' @ sp @ asc ''SEQUENCE'' @ sp @ ?v"
    by (simp add: size_text_def)
  have fs: "[asc ''CACHED'', asc ''FIELD'', asc ''SIZE'', asc ''SEQUENCE''] ! 2 = asc ''SIZE''" by simp
  have "starts ''ATTRIBUTE '' (size_text e)" by (simp add: starts_def size_text_def)
  then have "parse_line mem_ok ps (size_text e) = Inr (attr_line ps [64, 64, 64, 16] 2 (drop 10 (size_text e)))"
    by (simp add: parse_line_def)
  also have "attr_line ps [64, 64, 64, 16] 2 (drop 10 (size_text e)) =
      ps\<lparr>ps_hits := (hs @ [h])[length hs := archie_store_attr h (asc ''SIZE'') ?v]\<rparr>"
    by (simp only: attr_line_def drop skip_fields_size assms(2,3) option.case prod.case v fs) simp
  also have "archie_store_attr h (asc ''SIZE'') ?v = h\<lparr>h_size := e_size e\<rparr>"
    using size_value_digits [OF ds] by (simp add: archie_store_attr_def)
  finally show ?thesis by simp
qed

lemma text_lines:
  assumes "entry_ok e"
  shows "link_text e \<noteq> []" "0 \<notin> set (link_text e)" "0x0A \<notin> set (link_text e)" "length (link_text e) < 1400"
    "last (link_text e) = 0x30"
    "size_text e \<noteq> []" "0 \<notin> set (size_text e)" "0x0A \<notin> set (size_text e)" "length (size_text e) < 1400"
    "last (size_text e) = 0x73"
proof -
  have q: "set (quote_field s) \<subseteq> insert 0x27 (set s)" for s
    by (auto simp: quote_field_def quote_body_def split: if_splits)
  have p: "0 \<notin> set (quote_field s) \<and> 0x0A \<notin> set (quote_field s)" if "plain_text s" for s
    using q [of s] that by (auto simp: plain_text_def)
  have pt: "plain_text (e_name e)" "plain_text (e_host e)" "plain_text (e_path e)"
    using assms by (simp_all add: entry_ok_def)
  have ds: "0 \<notin> set (e_size e)" "0x0A \<notin> set (e_size e)" "length (e_size e) < 64"
    using assms is_digit_plain by (auto simp: entry_ok_def list_all_iff)
  show "link_text e \<noteq> []" "0 \<notin> set (link_text e)" "0x0A \<notin> set (link_text e)" "last (link_text e) = 0x30"
    using p [OF pt(1)] p [OF pt(2)] p [OF pt(3)] by (simp_all add: link_text_def sp_def)
  show "length (link_text e) < 1400" using assms by (simp add: entry_ok_def)
  show "size_text e \<noteq> []" "0 \<notin> set (size_text e)" "0x0A \<notin> set (size_text e)" "length (size_text e) < 1400"
    "last (size_text e) = 0x73"
    using ds by (simp_all add: size_text_def sp_def)
qed

lemma parse_loop_entries:
  assumes "list_all entry_ok es" "\<And>k. mem_ok k"
  shows "\<exists>ps'. parse_loop mem_ok ps (reply_text es) = Inr ps' \<and> ps_hits ps' = ps_hits ps @ map hit_of es \<and>
    ps_none_found ps' = ps_none_found ps \<and> ps_warning ps' = ps_warning ps"
  using assms(1)
proof (induction es arbitrary: ps)
  case Nil
  then show ?case by (simp add: reply_text_def parse_loop.simps)
next
  case (Cons e es)
  have ok: "entry_ok e" "list_all entry_ok es" using Cons.prems by simp_all
  note tl = text_lines [OF ok(1)]
  obtain ps1 where ps1: "parse_line mem_ok ps (link_text e) = Inr ps1"
    "ps_hits ps1 = ps_hits ps @ [(hit_of e)\<lparr>h_size := []\<rparr>]" "ps_cur ps1 = Some (length (ps_hits ps))"
    "ps_none_found ps1 = ps_none_found ps" "ps_warning ps1 = ps_warning ps"
    using parse_link_text [of e mem_ok ps, OF ok(1) assms(2)] by blast
  have size: "parse_line mem_ok ps1 (size_text e) = Inr (ps1\<lparr>ps_hits := ps_hits ps @ [hit_of e]\<rparr>)"
    using parse_size_text [OF ok(1) ps1(3,2), of mem_ok] by (simp add: hit_of_def)
  have "parse_loop mem_ok ps (reply_text (e # es)) =
      parse_loop mem_ok ps (link_text e @ 0x0A # (size_text e @ 0x0A # reply_text es))"
    by (simp add: reply_text_def)
  also have "\<dots> = parse_loop mem_ok ps1 (size_text e @ 0x0A # reply_text es)"
    using parse_loop_line [OF tl(1-4)] tl(5) ps1(1) by simp
  also have "\<dots> = parse_loop mem_ok (ps1\<lparr>ps_hits := ps_hits ps @ [hit_of e]\<rparr>) (reply_text es)"
    using parse_loop_line [OF tl(6-9)] tl(10) size by simp
  finally show ?case
    using Cons.IH [OF ok(2), of "ps1\<lparr>ps_hits := ps_hits ps @ [hit_of e]\<rparr>"] ps1(4,5) by simp
qed

subsection \<open>Every field fits its array\<close>

definition hit_fits :: "archie_hit \<Rightarrow> bool" where
  "hit_fits h \<longleftrightarrow> length (h_name h) < 256 \<and> length (h_host h) < 256 \<and> length (h_hsoname h) < 512 \<and>
     length (h_dir h) < 512 \<and> length (h_filename h) < 256 \<and> length (h_size h) < 64 \<and>
     length (h_mode h) < 48 \<and> length (h_date h) < 96"

lemma copy_bounded_length: "0 < n \<Longrightarrow> length (copy_bounded n s) < n"
  by (simp add: copy_bounded_def)

lemma split_path_length:
  "0 < n \<Longrightarrow> 0 < m \<Longrightarrow> length (fst (split_path n m s)) < n \<and> length (snd (split_path n m s)) < m"
  by (auto simp: split_path_def copy_bounded_def Let_def)

lemma size_value_length: "0 < n \<Longrightarrow> length (size_value n v) < n"
  by (auto simp: size_value_def copy_bounded_def Let_def)

lemma new_hit_fits: "hit_fits (new_hit f)"
  using split_path_length [of 512 256 "denull (f ! 7)"]
  by (auto simp: new_hit_def hit_fits_def copy_bounded_length split: prod.split)

lemma store_attr_fits: "hit_fits h \<Longrightarrow> hit_fits (archie_store_attr h a v)"
  by (auto simp: archie_store_attr_def hit_fits_def copy_bounded_length size_value_length split: option.split)

lemma attr_line_fits: "list_all hit_fits (ps_hits ps) \<Longrightarrow> list_all hit_fits (ps_hits (attr_line ps szs k q))"
proof -
  assume a: "list_all hit_fits (ps_hits ps)"
  have "list_all hit_fits ((ps_hits ps)[c := archie_store_attr (ps_hits ps ! c) x y])" for c x y
  proof (cases "c < length (ps_hits ps)")
    case True
    then have "hit_fits (ps_hits ps ! c)" using a by (simp add: list_all_length)
    then have "hit_fits (archie_store_attr (ps_hits ps ! c) x y)" by (rule store_attr_fits)
    then show ?thesis using a set_update_subset_insert by (fastforce simp: list_all_iff)
  next
    case False
    then show ?thesis using a by (simp add: list_update_beyond)
  qed
  then show ?thesis using a by (simp add: attr_line_def split: option.split)
qed

lemma parse_line_fits:
  "list_all hit_fits (ps_hits ps) \<Longrightarrow>
    (case parse_line m ps line of Inl _ \<Rightarrow> True | Inr p \<Rightarrow> list_all hit_fits (ps_hits p))"
  by (auto simp: parse_line_def link_line_def attr_line_fits new_hit_fits Let_def)

lemma parse_loop_fits:
  "list_all hit_fits (ps_hits ps) \<Longrightarrow>
    (case parse_loop m ps body of Inl _ \<Rightarrow> True | Inr p \<Rightarrow> list_all hit_fits (ps_hits p))"
proof (induction m ps body rule: parse_loop.induct)
  case (1 m ps p)
  show ?case
  proof (cases "p = []")
    case True
    then show ?thesis using 1 by (simp add: parse_loop.simps)
  next
    case False
    define raw where "raw = takeWhile (\<lambda>c. c \<noteq> 0x0A) p"
    define rest where "rest = drop (Suc (length raw)) p"
    have eq: "parse_loop m ps p = (if line_of raw = [] then parse_loop m ps rest
        else case parse_line m ps (cstr (line_of raw)) of Inl q \<Rightarrow> Inl q | Inr q \<Rightarrow> parse_loop m q rest)"
      using False by (subst parse_loop.simps) (simp only: raw_def rest_def Let_def if_False)
    show ?thesis
    proof (cases "line_of raw = []")
      case True
      then show ?thesis using 1(1) [OF False raw_def rest_def refl True 1(3)] eq True by simp
    next
      case line: False
      show ?thesis
      proof (cases "parse_line m ps (cstr (line_of raw))")
        case (Inl q)
        then show ?thesis using line by (simp add: eq)
      next
        case (Inr q)
        then have "list_all hit_fits (ps_hits q)"
          using parse_line_fits [OF 1(3), of m "cstr (line_of raw)"] by simp
        then show ?thesis using 1(2) [OF False raw_def rest_def refl line Inr] line Inr by (simp only: eq if_False sum.case)
      qed
    qed
  qed
qed

subsection \<open>Properties\<close>

text \<open>
  whatever a server sends, every string of every hit fits the array the structure has for it,
  terminator included.
\<close>

theorem archie_hits_fit:
  "list_all hit_fits (r_hits (snd (parse_body mem_ok body
     \<lparr>r_status = ARCHIE_OK, r_message = [], r_hits = [], r_none_found = False, r_warning = []\<rparr>)))"
  using parse_loop_fits [of "ps_start\<lparr>ps_none_found := False, ps_warning := []\<rparr>" mem_ok body]
  by (cases "parse_loop mem_ok (ps_start\<lparr>ps_none_found := False, ps_warning := []\<rparr>) body")
    (simp_all add: parse_body_def ps_start_def Let_def)

text \<open>
  what a version 5 server writes is what the user sees: for any matches, in LINK lines with
  quoted fields (quotes doubled, blanks kept) and SIZE attribute lines, the hits are the matches
  in order, with name, host, path, its directory and file part, and the digits of the size.
\<close>

theorem archie_reply_roundtrip:
  assumes "list_all entry_ok es" "es \<noteq> []" "\<And>k. mem_ok k"
  shows "parse_body mem_ok (reply_text es) out =
    (ARCHIE_OK, out\<lparr>r_hits := map hit_of es, r_message := take 256 (found_message (length es))\<rparr>)"
proof -
  obtain ps where "parse_loop mem_ok (ps_start\<lparr>ps_none_found := r_none_found out, ps_warning := r_warning out\<rparr>)
      (reply_text es) = Inr ps" "ps_hits ps = map hit_of es" "ps_none_found ps = r_none_found out" "ps_warning ps = r_warning out"
    using parse_loop_entries [of es mem_ok "ps_start\<lparr>ps_none_found := r_none_found out, ps_warning := r_warning out\<rparr>"] assms(1,3)
    by (auto simp: ps_start_def)
  then show ?thesis using assms(2) by (simp add: parse_body_def Let_def)
qed

definition sample_entry :: entry where
  "sample_entry = \<lparr>e_name = asc ''it'' @ [0x27] @ asc ''s me'', e_host = asc ''ftp.x'', e_path = asc ''/pub/a'', e_size = asc ''68''\<rparr>"

lemma sample_entry_ok: "entry_ok sample_entry"
proof -
  have "is_digit 54" "is_digit 56" by (simp_all add: is_digit_def)
  then show ?thesis
    by (simp add: entry_ok_def sample_entry_def plain_text_def link_text_def quote_field_def quote_body_def sp_def)
qed

lemma archie_reply_roundtrip_witness:
  "map h_filename (r_hits (snd (parse_body (\<lambda>_. True) (reply_text [sample_entry])
     \<lparr>r_status = ARCHIE_OK, r_message = [], r_hits = [], r_none_found = False, r_warning = []\<rparr>))) = [asc ''a'']"
proof -
  have "list_all entry_ok [sample_entry]" using sample_entry_ok by simp
  from archie_reply_roundtrip [OF this, of "\<lambda>_. True"] show ?thesis
    by (simp add: hit_of_def sample_entry_def split_path_def copy_bounded_def)
qed

end
