(* ===== verification/Archie.thy ===== *)
theory Archie
  imports ArchieParse
begin

unbundle bit_operations_syntax

section \<open>Archie: request, reassembly, query (archie\_ardp.c)\<close>

text \<open>
  The query over UDP: the connection identifiers, the request datagram, the collection of the
  reply's packets with up to three retransmissions, and \<open>archie_query\<close>. What the socket layer
  answers is an argument: name resolution, \<open>socket\<close>, \<open>connect\<close> and each \<open>send\<close> as truth values, the
  results of the calls of \<open>recv\<close> as a list (\<open>None\<close> is a timeout or an error; after the end every
  call times out).
\<close>

subsection \<open>Identifiers and numbers\<close>

text \<open>The static counter before and after, and the identifier.\<close>

definition archie_next_cid :: "u32 \<Rightarrow> u32 \<Rightarrow> u32 \<times> u16" where
  "archie_next_cid counter tick =
     (let c1 = (if counter = 0 then (tick AND 0x7FFF) + 1 else counter);
          c2 = c1 + 1;
          v = c2 AND 0xFFFF
      in (c2, ucast (if v = 0 then 1 else v)))"

definition put16 :: "u32 \<Rightarrow> byte list" where
  "put16 v = [ucast (drop_bit 8 v AND 0xFF), ucast (v AND 0xFF)]"

definition get16 :: "byte list \<Rightarrow> u32" where
  "get16 b = push_bit 8 (ucast (b ! 0)) OR ucast (b ! 1)"

subsection \<open>The request\<close>

datatype archie_search_type = ARCHIE_SUBSTR_CI | ARCHIE_SUBSTR_CS | ARCHIE_EXACT | ARCHIE_REGEX

definition archie_typec :: "archie_search_type \<Rightarrow> bool \<Rightarrow> byte" where
  "archie_typec t exact_first =
     (case t of
        ARCHIE_EXACT \<Rightarrow> 0x3D
      | ARCHIE_SUBSTR_CS \<Rightarrow> if exact_first then 0x63 else 0x43
      | ARCHIE_REGEX \<Rightarrow> if exact_first then 0x72 else 0x52
      | ARCHIE_SUBSTR_CI \<Rightarrow> if exact_first then 0x73 else 0x53)"

definition clamp_maxhits :: "int \<Rightarrow> int" where
  "clamp_maxhits m = (let m1 = (if m < 1 then 1 else m) in if m1 > 2500 then 2500 else m1)"

definition nl :: "byte list" where "nl = [0x0A]"

definition payload_text :: "byte list \<Rightarrow> archie_search_type \<Rightarrow> bool \<Rightarrow> int \<Rightarrow> byte list" where
  "payload_text term t exact_first maxhits =
     asc ''VERSION 5 MGT-Unicorn-Archie/1.0'' @ nl @
     asc ''AUTHENTICATE '' @ [0x27, 0x27] @ asc '' UNAUTHENTICATED '' @ [0x27, 0x27] @ nl @
     asc ''DIRECTORY ASCII ARCHIE/MATCH('' @ dec_bytes (nat (clamp_maxhits maxhits)) @ asc '',0,'' @
     [archie_typec t exact_first] @ asc '')/'' @ term @ nl @
     asc ''LIST ATTRIBUTES COMPONENTS '' @ nl"

text \<open>The length \<open>_snprintf\<close> returns, -1 when the text is longer than the buffer, and what it writes.\<close>

definition build_payload ::
  "nat \<Rightarrow> byte list \<Rightarrow> archie_search_type \<Rightarrow> bool \<Rightarrow> int \<Rightarrow> int \<times> byte list" where
  "build_payload bufsz term t exact_first maxhits =
     (let s = payload_text term t exact_first maxhits
      in if length s > bufsz then (-1, take bufsz s) else (int (length s), s))"

definition request_datagram :: "u16 \<Rightarrow> byte list \<Rightarrow> byte list" where
  "request_datagram cid payload =
     [9] @ put16 (ucast cid) @ put16 1 @ put16 1 @ put16 0 @ payload"

subsection \<open>Reassembly\<close>

definition archie_max_pkts :: nat where "archie_max_pkts = 1024"

record reasm =
  ra_total :: nat
  ra_got :: nat
  ra_pkt :: "nat \<Rightarrow> byte list option"

definition reasm_start :: reasm where
  "reasm_start = \<lparr>ra_total = 0, ra_got = 0, ra_pkt = (\<lambda>_. None)\<rparr>"

text \<open>Sequence number, total and offset of the text in a datagram; \<open>None\<close> where the code continues.\<close>

definition pkt_frame :: "byte list \<Rightarrow> (nat \<times> nat \<times> nat) option" where
  "pkt_frame buf =
     (let o1 = buf ! 0;
          fr = (if o1 = 1 \<or> o1 = 3 then Some (1, 1, unat o1)
                else if o1 = 7 then
                  (if length buf < 7 then None else Some (unat (get16 (drop 3 buf)), unat (get16 (drop 5 buf)), 7))
                else None)
      in case fr of
           None \<Rightarrow> None
         | Some (sq, tot, off) \<Rightarrow>
             if tot < 1 \<or> tot > archie_max_pkts then None
             else if sq < 1 \<or> sq > tot then None
             else Some (sq, tot, off))"

text \<open>A packet into its slot; \<open>None\<close> when there is no memory for it.\<close>

definition store_pkt :: "(nat \<Rightarrow> bool) \<Rightarrow> reasm \<Rightarrow> nat \<times> nat \<times> nat \<Rightarrow> byte list \<Rightarrow> reasm option" where
  "store_pkt mem_ok ra frame buf =
     (case frame of
        (sq, tot, off) \<Rightarrow>
          let r1 = (if ra_total ra = 0 then ra\<lparr>ra_total := tot\<rparr> else ra) in
          if ra_pkt r1 (sq - 1) \<noteq> None then Some r1
          else if \<not> mem_ok (ra_got r1) then None
          else Some (r1\<lparr>ra_pkt := (ra_pkt r1)(sq - 1 := Some (drop off buf)), ra_got := ra_got r1 + 1\<rparr>))"

datatype recv_end = Complete | Again | NoMem

fun recv_loop :: "(nat \<Rightarrow> bool) \<Rightarrow> byte list option list \<Rightarrow> reasm \<Rightarrow> recv_end \<times> reasm \<times> byte list option list" where
  "recv_loop mem_ok [] ra = (Again, ra, [])"
| "recv_loop mem_ok (None # rs) ra = (Again, ra, rs)"
| "recv_loop mem_ok (Some buf # rs) ra =
     (if buf = [] \<or> length buf > 2048 then (Again, ra, rs)
      else case pkt_frame buf of
        None \<Rightarrow> recv_loop mem_ok rs ra
      | Some fr \<Rightarrow>
          (case store_pkt mem_ok ra fr buf of
             None \<Rightarrow> (NoMem, ra, rs)
           | Some r1 \<Rightarrow>
               if ra_total r1 > 0 \<and> ra_got r1 \<ge> ra_total r1 then (Complete, r1, rs)
               else recv_loop mem_ok rs r1))"

text \<open>The attempts: how many are left, and which one this is.\<close>

fun query_attempts ::
  "nat \<Rightarrow> nat \<Rightarrow> (nat \<Rightarrow> bool) \<Rightarrow> (nat \<Rightarrow> bool) \<Rightarrow> byte list option list \<Rightarrow> reasm \<Rightarrow> recv_end \<times> reasm" where
  "query_attempts 0 i send_ok mem_ok rs ra = (Again, ra)"
| "query_attempts (Suc k) i send_ok mem_ok rs ra =
     (if \<not> send_ok i then query_attempts k (Suc i) send_ok mem_ok rs ra
      else case recv_loop mem_ok rs ra of
             (Again, r1, rs1) \<Rightarrow> query_attempts k (Suc i) send_ok mem_ok rs1 r1
           | (e, r1, _) \<Rightarrow> (e, r1))"

definition reply_body :: "reasm \<Rightarrow> byte list" where
  "reply_body ra =
     concat (map (\<lambda>i. case ra_pkt ra i of None \<Rightarrow> [] | Some d \<Rightarrow> d) [0..<ra_total ra])"

subsection \<open>The query\<close>

record archie_net =
  n_resolves :: bool
  n_socket_ok :: bool
  n_connect_ok :: bool
  n_send_ok :: "nat \<Rightarrow> bool"
  n_recv :: "byte list option list"
  n_mem_ok :: "nat \<Rightarrow> bool"

definition result_zero :: archie_result where
  "result_zero = \<lparr>r_status = ARCHIE_OK, r_message = [], r_hits = [], r_none_found = False, r_warning = []\<rparr>"

text \<open>The result, the counter after, and the datagram every attempt sends (if it got that far).\<close>

definition archie_query ::
  "archie_net \<Rightarrow> u32 \<Rightarrow> u32 \<Rightarrow> byte list \<Rightarrow> int \<Rightarrow> byte list \<Rightarrow> archie_search_type \<Rightarrow> bool \<Rightarrow> int \<Rightarrow>
     (archie_status \<times> archie_result) \<times> u32 \<times> byte list option" where
  "archie_query net counter tick server port0 term t exact_first maxhits =
     (if server = [] \<or> term = [] then
        ((ARCHIE_ERR_PROTOCOL, result_zero\<lparr>r_message := asc ''Enter a search term.''\<rparr>), counter, None)
      else
        let port = (if port0 \<le> 0 \<or> port0 > 65535 then 1525 else port0) in
        if \<not> n_resolves net then
          ((ARCHIE_ERR_DNS,
            result_zero\<lparr>r_message := take 256 (asc ''Cannot resolve '' @ server @ asc ''.'')\<rparr>), counter, None)
        else
          let (paylen, text) = build_payload 1591 term t exact_first maxhits in
          if paylen < 0 \<or> paylen \<ge> 1591 then
            ((ARCHIE_ERR_PROTOCOL, result_zero\<lparr>r_message := asc ''Search term is too long.''\<rparr>), counter, None)
          else
            let (counter1, cid) = archie_next_cid counter tick;
                req = request_datagram cid text
            in
            if \<not> n_socket_ok net then
              ((ARCHIE_ERR_SOCKET, result_zero\<lparr>r_message := asc ''Cannot create UDP socket.''\<rparr>), counter1, Some req)
            else if \<not> n_connect_ok net then
              ((ARCHIE_ERR_SOCKET, result_zero\<lparr>r_message := asc ''Cannot reach the Archie server.''\<rparr>), counter1, Some req)
            else
              (case query_attempts 4 0 (n_send_ok net) (n_mem_ok net) (n_recv net) reasm_start of
                 (NoMem, ra) \<Rightarrow>
                   ((ARCHIE_ERR_NOMEM, result_zero\<lparr>r_status := ARCHIE_ERR_NOMEM\<rparr>), counter1, Some req)
               | (Again, ra) \<Rightarrow>
                   ((ARCHIE_ERR_TIMEOUT,
                     result_zero\<lparr>r_status := ARCHIE_ERR_TIMEOUT,
                       r_message := take 256 (asc ''No response from '' @ server @ asc '' (Archie/UDP '' @
                         dec_bytes (nat port) @ asc '').'')\<rparr>), counter1, Some req)
               | (Complete, ra) \<Rightarrow>
                   if \<not> n_mem_ok net (ra_got ra) then
                     ((ARCHIE_ERR_NOMEM, result_zero\<lparr>r_status := ARCHIE_ERR_NOMEM\<rparr>), counter1, Some req)
                   else
                     (case parse_body (\<lambda>k. n_mem_ok net (ra_got ra + 1 + k)) (reply_body ra) result_zero of
                        (rc, out) \<Rightarrow> ((rc, out\<lparr>r_status := rc\<rparr>), counter1, Some req))))"

subsection \<open>What the tab shows (archie\_module.c)\<close>

text \<open>The status line that \<open>archie_query_timer_proc\<close> sets from the result the worker left.\<close>

definition archie_status_line :: "archie_result \<Rightarrow> byte list" where
  "archie_status_line r =
     (if r_status r = ARCHIE_OK then
        if r_warning r \<noteq> [] then
          take 511 (take 512 (if r_hits r \<noteq> []
            then r_message r @ asc ''  [server warning: '' @ r_warning r @ asc '']''
            else asc ''No matches.  [server warning: '' @ r_warning r @ asc '']''))
        else if r_hits r \<noteq> [] then r_message r
        else asc ''No matches.''
      else if r_message r \<noteq> [] then r_message r
      else asc ''Archie query failed.'')"

end
