(* ===== verification/ArchieSafe.thy ===== *)
theory ArchieSafe
  imports Archie
begin

section \<open>Archie: the query against a server and a network\<close>

text \<open>
  The server's packets of one reply and a network that loses, reorders and repeats them.
  \<open>collected\<close> is the invariant of the reassembly: which packets are in, and that the slots hold
  their text. The properties say that reassembly is never wrong and that a reply that arrives is
  delivered; the last ones concern the identifiers and the early failures.
\<close>

subsection \<open>Numbers on the wire\<close>

lemma get16_put16: "v < 65536 \<Longrightarrow> unat (get16 (put16 (word_of_nat v) @ r)) = v"
proof -
  assume v: "v < 65536"
  have m: "(0xFF :: u32) = mask 8" by (simp add: mask_eq_exp_minus_1)
  have "get16 (put16 x @ r) = x AND mask 16" for x :: u32
    unfolding get16_def put16_def m by (rule bit_word_eqI) (auto simp: bit_simps)
  then have "get16 (put16 (word_of_nat v) @ r) = (word_of_nat v :: u32) AND mask 16" .
  then have "unat (get16 (put16 (word_of_nat v) @ r)) = unat (take_bit 16 (word_of_nat v :: u32))"
    by (simp add: take_bit_eq_mask)
  then show ?thesis using v by (simp add: unsigned_take_bit_eq unsigned_of_nat take_bit_nat_eq_self)
qed

subsection \<open>A server's packets\<close>

text \<open>Packet \<open>k\<close> of the reply whose pieces of text are \<open>ps\<close>.\<close>

definition reply_packet :: "u16 \<Rightarrow> byte list list \<Rightarrow> nat \<Rightarrow> byte list" where
  "reply_packet cid ps k =
     [7] @ put16 (ucast cid) @ put16 (word_of_nat (Suc k)) @ put16 (word_of_nat (length ps)) @ ps ! k"

definition pieces_ok :: "byte list list \<Rightarrow> bool" where
  "pieces_ok ps \<longleftrightarrow> ps \<noteq> [] \<and> length ps \<le> archie_max_pkts \<and> list_all (\<lambda>p. length p \<le> 2041) ps"

lemma length_put16 [simp]: "length (put16 v) = 2"
  by (simp add: put16_def)

lemma reply_packet_frame:
  assumes "pieces_ok ps" "k < length ps"
  shows "pkt_frame (reply_packet cid ps k) = Some (Suc k, length ps, 7)"
    "drop 7 (reply_packet cid ps k) = ps ! k"
    "reply_packet cid ps k \<noteq> []" "length (reply_packet cid ps k) \<le> 2048"
proof -
  have n: "length ps \<le> 1024" using assms(1) by (simp add: pieces_ok_def archie_max_pkts_def)
  have d3: "drop 3 (reply_packet cid ps k) = put16 (word_of_nat (Suc k)) @ put16 (word_of_nat (length ps)) @ ps ! k"
    by (simp add: reply_packet_def put16_def)
  have d5: "drop 5 (reply_packet cid ps k) = put16 (word_of_nat (length ps)) @ ps ! k"
    by (simp add: reply_packet_def put16_def)
  have "Suc k < 65536" "length ps < 65536" using n assms(2) by simp_all
  note g = get16_put16 [OF this(1)] get16_put16 [OF this(2)]
  have h: "reply_packet cid ps k ! 0 = 7" "\<not> length (reply_packet cid ps k) < 7"
    by (simp_all add: reply_packet_def)
  show "pkt_frame (reply_packet cid ps k) = Some (Suc k, length ps, 7)"
    using n assms(2) assms(1) [unfolded pieces_ok_def] unfolding pkt_frame_def Let_def d3 d5 g h by (simp add: archie_max_pkts_def h)
  show "drop 7 (reply_packet cid ps k) = ps ! k" by (simp add: reply_packet_def put16_def)
  show "reply_packet cid ps k \<noteq> []" by (simp add: reply_packet_def)
  have "length (ps ! k) \<le> 2041" using assms by (simp add: pieces_ok_def list_all_length)
  then show "length (reply_packet cid ps k) \<le> 2048" by (simp add: reply_packet_def)
qed

text \<open>What the network may deliver: a packet of the reply, something the code ignores, or nothing.\<close>

definition from_server :: "u16 \<Rightarrow> byte list list \<Rightarrow> byte list option \<Rightarrow> bool" where
  "from_server cid ps r = (case r of
      None \<Rightarrow> True
    | Some buf \<Rightarrow> list_ex (\<lambda>k. buf = reply_packet cid ps k) [0..<length ps] \<or> buf = [] \<or> length buf > 2048 \<or> pkt_frame buf = None)"

text \<open>The state after the packets of \<open>S\<close>.\<close>

definition collected :: "byte list list \<Rightarrow> nat set \<Rightarrow> reasm \<Rightarrow> bool" where
  "collected ps S ra \<longleftrightarrow> S \<subseteq> {..<length ps} \<and> ra_total ra = (if S = {} then 0 else length ps) \<and>
     ra_got ra = card S \<and> ra_pkt ra = (\<lambda>k. if k \<in> S then Some (ps ! k) else None)"

lemma collected_start: "collected ps {} reasm_start"
  by (simp add: collected_def reasm_start_def)

lemma store_collected:
  assumes "pieces_ok ps" "collected ps S ra" "k < length ps" "\<And>n. mem_ok n"
  shows "\<exists>r1. store_pkt mem_ok ra (Suc k, length ps, 7) (reply_packet cid ps k) = Some r1 \<and>
    collected ps (insert k S) r1"
proof -
  note f = reply_packet_frame [OF assms(1,3)]
  have fin: "finite S" using assms(2) finite_subset by (auto simp: collected_def)
  show ?thesis
    using assms(2-4) fin f(2)
    by (auto simp: store_pkt_def collected_def Let_def card_insert_if insert_absorb fun_eq_iff)
qed

lemma collected_done:
  assumes "pieces_ok ps" "collected ps S ra" "S \<noteq> {}"
  shows "(ra_total ra > 0 \<and> ra_got ra \<ge> ra_total ra) \<longleftrightarrow> S = {..<length ps}"
proof -
  have sub: "S \<subseteq> {..<length ps}" "finite {..<length ps}" using assms(2) by (simp_all add: collected_def)
  then have "card S = length ps \<longleftrightarrow> S = {..<length ps}" "card S \<le> length ps"
    using card_subset_eq [OF sub(2,1)] card_mono [OF sub(2,1)] by auto
  then show ?thesis using assms by (auto simp: collected_def pieces_ok_def)
qed

lemma collected_body:
  assumes "pieces_ok ps" "collected ps {..<length ps} ra"
  shows "reply_body ra = concat ps"
proof -
  have "length ps > 0" using assms(1) by (simp add: pieces_ok_def)
  then have "ra_total ra = length ps" "ra_pkt ra = (\<lambda>k. if k < length ps then Some (ps ! k) else None)"
    using assms(2) by (auto simp: collected_def)
  moreover have "map (\<lambda>i. case (if i < length ps then Some (ps ! i) else None) of None \<Rightarrow> [] | Some d \<Rightarrow> d) [0..<length ps]
      = map (\<lambda>i. ps ! i) [0..<length ps]" by (intro map_cong) auto
  ultimately show ?thesis by (simp add: reply_body_def map_nth)
qed

lemma recv_loop_collects:
  assumes "pieces_ok ps" "\<And>n. mem_ok n" "list_all (from_server cid ps) rs"
    and "collected ps S ra" "S \<noteq> {..<length ps}"
  shows "\<exists>S' r1 rs1. recv_loop mem_ok rs ra = (if S' = {..<length ps} then Complete else Again, r1, rs1) \<and>
    collected ps S' r1 \<and> list_all (from_server cid ps) rs1"
  using assms(3-5)
proof (induction rs arbitrary: S ra)
  case Nil
  then show ?case by (intro exI [of _ S]) simp
next
  case (Cons r rs)
  show ?case
  proof (cases r)
    case None
    then show ?thesis using Cons.prems by (intro exI [of _ S]) simp
  next
    case (Some buf)
    show ?thesis
    proof (cases "buf = [] \<or> length buf > 2048 \<or> pkt_frame buf = None")
      case True
      then show ?thesis
      proof (cases "buf = [] \<or> length buf > 2048")
        case True
        then show ?thesis using Cons.prems Some by (intro exI [of _ S]) auto
      next
        case False
        then have "recv_loop mem_ok (r # rs) ra = recv_loop mem_ok rs ra" using True Some by auto
        then show ?thesis using Cons.IH [OF _ Cons.prems(2,3)] Cons.prems(1) by simp
      qed
    next
      case False
      then obtain k where k: "k < length ps" "buf = reply_packet cid ps k"
        using Cons.prems(1) Some by (auto simp: from_server_def list_ex_iff)
      obtain r1 where r1: "store_pkt mem_ok ra (Suc k, length ps, 7) buf = Some r1" "collected ps (insert k S) r1"
        using store_collected [OF assms(1) Cons.prems(2) k(1), of mem_ok cid] assms(2) k(2) by auto
      have fr: "pkt_frame buf = Some (Suc k, length ps, 7)" using reply_packet_frame(1) [OF assms(1) k(1)] k(2) by simp
      have step: "recv_loop mem_ok (r # rs) ra =
          (if insert k S = {..<length ps} then (Complete, r1, rs) else recv_loop mem_ok rs r1)"
        using False Some fr r1(1) collected_done [OF assms(1) r1(2)] by simp
      show ?thesis
      proof (cases "insert k S = {..<length ps}")
        case True
        then show ?thesis using step r1(2) Cons.prems(1) by (intro exI [of _ "insert k S"]) simp
      next
        case False
        then show ?thesis using step Cons.IH [OF _ r1(2) False] Cons.prems(1) by simp
      qed
    qed
  qed
qed

lemma query_attempts_collects:
  assumes "pieces_ok ps" "\<And>n. mem_ok n"
  shows "list_all (from_server cid ps) rs \<Longrightarrow> collected ps S ra \<Longrightarrow> S \<noteq> {..<length ps} \<Longrightarrow>
    \<exists>S' r1. query_attempts n i send_ok mem_ok rs ra = (if S' = {..<length ps} then Complete else Again, r1) \<and>
      collected ps S' r1"
proof (induction n arbitrary: i rs S ra)
  case 0
  then show ?case by (intro exI [of _ S]) simp
next
  case (Suc n)
  show ?case
  proof (cases "send_ok i")
    case False
    then show ?thesis using Suc by simp
  next
    case True
    obtain S' r1 rs1 where r: "recv_loop mem_ok rs ra = (if S' = {..<length ps} then Complete else Again, r1, rs1)"
      "collected ps S' r1" "list_all (from_server cid ps) rs1"
      using recv_loop_collects [of ps mem_ok, OF assms Suc.prems] by blast
    show ?thesis
    proof (cases "S' = {..<length ps}")
      case full: True
      then show ?thesis using True r(1,2) by (intro exI [of _ S']) simp
    next
      case False
      then show ?thesis using True r(1) Suc.IH [OF r(3,2) False, of "Suc i"] by simp
    qed
  qed
qed

text \<open>When every packet is among the datagrams before the first timeout, the first wait completes.\<close>

definition arrives :: "u16 \<Rightarrow> byte list list \<Rightarrow> byte list \<Rightarrow> bool" where
  "arrives cid ps d \<longleftrightarrow> list_ex (\<lambda>k. d = reply_packet cid ps k) [0..<length ps]"

lemma recv_loop_completes:
  assumes "pieces_ok ps" "\<And>n. mem_ok n"
  shows "list_all (arrives cid ps) ds \<Longrightarrow> collected ps S ra \<Longrightarrow> S \<noteq> {..<length ps} \<Longrightarrow>
    {..<length ps} \<subseteq> S \<union> {k. k < length ps \<and> reply_packet cid ps k \<in> set ds} \<Longrightarrow>
    \<exists>r1 rs1. recv_loop mem_ok (map Some ds @ rest) ra = (Complete, r1, rs1) \<and> collected ps {..<length ps} r1"
proof (induction ds arbitrary: S ra)
  case Nil
  then show ?case by (auto simp: collected_def)
next
  case (Cons d ds)
  from Cons.prems(1) obtain k where k: "k < length ps" "d = reply_packet cid ps k"
    by (auto simp: arrives_def list_ex_iff)
  note f = reply_packet_frame [OF assms(1) k(1), of cid]
  obtain r1 where r1: "store_pkt mem_ok ra (Suc k, length ps, 7) d = Some r1" "collected ps (insert k S) r1"
    using store_collected [OF assms(1) Cons.prems(2) k(1), of mem_ok cid] assms(2) k(2) by auto
  have step: "recv_loop mem_ok (map Some (d # ds) @ rest) ra =
      (if insert k S = {..<length ps} then (Complete, r1, map Some ds @ rest) else recv_loop mem_ok (map Some ds @ rest) r1)"
    using f(1,3,4) r1(1) collected_done [OF assms(1) r1(2) insert_not_empty] unfolding k(2) by (simp del: One_nat_def)
  show ?case
  proof (cases "insert k S = {..<length ps}")
    case True
    then show ?thesis using step r1(2) by simp
  next
    case False
    have inj: "j = k" if "j < length ps" "reply_packet cid ps j = reply_packet cid ps k" for j
    proof -
      have "pkt_frame (reply_packet cid ps j) = pkt_frame (reply_packet cid ps k)" using that(2) by (rule arg_cong)
      then show ?thesis unfolding reply_packet_frame(1) [OF assms(1) that(1)] reply_packet_frame(1) [OF assms(1) k(1)] by simp
    qed
    have "{..<length ps} \<subseteq> insert k S \<union> {j. j < length ps \<and> reply_packet cid ps j \<in> set ds}"
      using Cons.prems(4) inj k(2) by auto
    moreover have "list_all (arrives cid ps) ds" using Cons.prems(1) by simp
    ultimately have "\<exists>r2 rs2. recv_loop mem_ok (map Some ds @ rest) r1 = (Complete, r2, rs2) \<and> collected ps {..<length ps} r2"
      using False r1(2) by (intro Cons.IH)
    then show ?thesis unfolding step if_not_P [OF False] .
  qed
qed

lemma length_dec_bytes: "length (dec_bytes n) \<le> Suc n"
proof -
  have "length (dec_digits f n) \<le> f" for f n by (induction f n rule: dec_digits.induct) auto
  then show ?thesis by (simp only: dec_bytes_def)
qed

subsection \<open>Properties\<close>

text \<open>Everything before the socket is in order.\<close>

definition can_ask :: "archie_net \<Rightarrow> byte list \<Rightarrow> byte list \<Rightarrow> archie_search_type \<Rightarrow> bool \<Rightarrow> int \<Rightarrow> bool" where
  "can_ask net server term t exact_first maxhits \<longleftrightarrow>
     server \<noteq> [] \<and> term \<noteq> [] \<and> n_resolves net \<and> n_socket_ok net \<and> n_connect_ok net \<and>
     n_mem_ok net = (\<lambda>_. True) \<and> length (payload_text term t exact_first maxhits) < 1591"

lemma archie_query_cases:
  assumes "can_ask net server term t exact_first maxhits"
    "query_attempts 4 0 (n_send_ok net) (\<lambda>_. True) (n_recv net) reasm_start = (e, ra)"
  shows "e = Complete \<Longrightarrow> fst (archie_query net counter tick server port term t exact_first maxhits) =
      (case parse_body (\<lambda>_. True) (reply_body ra) result_zero of (rc, out) \<Rightarrow> (rc, out\<lparr>r_status := rc\<rparr>))"
    and "e = Again \<Longrightarrow>
      fst (fst (archie_query net counter tick server port term t exact_first maxhits)) = ARCHIE_ERR_TIMEOUT"
proof -
  let ?c = "archie_next_cid counter tick"
  have b: "build_payload 1591 term t exact_first maxhits =
      (int (length (payload_text term t exact_first maxhits)), payload_text term t exact_first maxhits)"
    using assms(1) by (simp add: build_payload_def can_ask_def Let_def)
  have n: "length (payload_text term t exact_first maxhits) < 1591" "server \<noteq> []" "term \<noteq> []"
    "n_resolves net" "n_socket_ok net" "n_connect_ok net" "n_mem_ok net = (\<lambda>_. True)"
    using assms(1) by (simp_all add: can_ask_def)
  obtain c1 cid where c: "?c = (c1, cid)" by (cases ?c)
  show "fst (archie_query net counter tick server port term t exact_first maxhits) =
      (case parse_body (\<lambda>_. True) (reply_body ra) result_zero of (rc, out) \<Rightarrow> (rc, out\<lparr>r_status := rc\<rparr>))" if "e = Complete"
    using n assms(2) b c that by (simp add: archie_query_def Let_def split: prod.split)
  show "fst (fst (archie_query net counter tick server port term t exact_first maxhits)) = ARCHIE_ERR_TIMEOUT" if "e = Again"
    using n assms(2) b c that by (simp add: archie_query_def Let_def)
qed

lemma not_full_at_start: "pieces_ok ps \<Longrightarrow> {} \<noteq> {..<length ps}"
  by (auto simp: pieces_ok_def lessThan_empty_iff)

text \<open>
  C37: reassembly is never wrong. Whatever the network does with the packets of one reply (loss,
  any order, duplicates, retransmitted replies, stray datagrams, timeouts), a query either reports
  a timeout or its result is that of parsing the pieces of text joined in their order.
\<close>

theorem archie_reassembly_safe:
  assumes "can_ask net server term t exact_first maxhits" "pieces_ok ps" "list_all (from_server cid ps) (n_recv net)"
  shows "fst (fst (archie_query net counter tick server port term t exact_first maxhits)) = ARCHIE_ERR_TIMEOUT \<or>
    fst (archie_query net counter tick server port term t exact_first maxhits) =
      (case parse_body (\<lambda>_. True) (concat ps) result_zero of (rc, out) \<Rightarrow> (rc, out\<lparr>r_status := rc\<rparr>))"
proof -
  obtain S ra where q: "query_attempts 4 0 (n_send_ok net) (\<lambda>_. True) (n_recv net) reasm_start =
      (if S = {..<length ps} then Complete else Again, ra)" "collected ps S ra"
    using query_attempts_collects [of ps "\<lambda>_. True", OF assms(2) TrueI assms(3) collected_start not_full_at_start [OF assms(2)]] by blast
  show ?thesis
  proof (cases "S = {..<length ps}")
    case True
    then show ?thesis
      using archie_query_cases(1) [OF assms(1) q(1)] collected_body [OF assms(2)] q(2) by simp
  next
    case False
    then show ?thesis using archie_query_cases(2) [OF assms(1) q(1)] by simp
  qed
qed

definition quiet_net :: "byte list option list \<Rightarrow> archie_net" where
  "quiet_net rs = \<lparr>n_resolves = True, n_socket_ok = True, n_connect_ok = True, n_send_ok = (\<lambda>_. True),
     n_recv = rs, n_mem_ok = (\<lambda>_. True)\<rparr>"

lemma quiet_can_ask: "can_ask (quiet_net rs) (asc ''h'') (asc ''x'') ARCHIE_EXACT False 100"
  using length_dec_bytes [of 100] by (simp add: can_ask_def quiet_net_def payload_text_def nl_def clamp_maxhits_def)

lemma archie_reassembly_safe_witness:
  "fst (archie_query (quiet_net [Some (reply_packet 7 [asc ''NONE'', asc ''-FOUND''] 1), None,
      Some (reply_packet 7 [asc ''NONE'', asc ''-FOUND''] 0)]) 5 0 (asc ''h'') 0 (asc ''x'') ARCHIE_EXACT False 100) =
    (case parse_body (\<lambda>_. True) (asc ''NONE-FOUND'') result_zero of (rc, out) \<Rightarrow> (rc, out\<lparr>r_status := rc\<rparr>)) \<or>
   fst (fst (archie_query (quiet_net [Some (reply_packet 7 [asc ''NONE'', asc ''-FOUND''] 1), None,
      Some (reply_packet 7 [asc ''NONE'', asc ''-FOUND''] 0)]) 5 0 (asc ''h'') 0 (asc ''x'') ARCHIE_EXACT False 100)) =
    ARCHIE_ERR_TIMEOUT"
proof -
  let ?ps = "[asc ''NONE'', asc ''-FOUND'']"
  have p: "pieces_ok ?ps" by (simp add: pieces_ok_def archie_max_pkts_def)
  have l: "list_all (from_server 7 ?ps) (n_recv (quiet_net [Some (reply_packet 7 ?ps 1), None, Some (reply_packet 7 ?ps 0)]))"
    by (simp add: quiet_net_def from_server_def list_ex_iff)
  from archie_reassembly_safe [OF quiet_can_ask p l, of 5 0 0] show ?thesis by auto
qed

text \<open>
  a search finds what the server has. If every packet of a reply that lists the matches
  \<open>es\<close> arrives after the first request, in any order and any number of times, the query ends in
  \<open>ARCHIE_OK\<close> with exactly the matches, in order.
\<close>

theorem archie_search_delivers:
  assumes "can_ask net server term t exact_first maxhits" "n_send_ok net 0"
    and "pieces_ok ps" "concat ps = reply_text es" "list_all entry_ok es" "es \<noteq> []"
    and "n_recv net = map Some ds @ rest" "list_all (arrives cid ps) ds"
    and "\<And>k. k < length ps \<Longrightarrow> reply_packet cid ps k \<in> set ds"
  shows "let (rc, out) = fst (archie_query net counter tick server port term t exact_first maxhits)
    in rc = ARCHIE_OK \<and> r_hits out = map hit_of es"
proof -
  obtain r1 rs1 where r: "recv_loop (\<lambda>_. True) (map Some ds @ rest) reasm_start = (Complete, r1, rs1)"
    "collected ps {..<length ps} r1"
    using recv_loop_completes [of ps "\<lambda>_. True", OF assms(3) TrueI assms(8) collected_start not_full_at_start [OF assms(3)], of rest] assms(9)
    by auto
  have "query_attempts 4 0 (n_send_ok net) (\<lambda>_. True) (n_recv net) reasm_start = (Complete, r1)"
    using assms(2,7) r(1) by (simp add: numeral_eq_Suc)
  then have q: "fst (archie_query net counter tick server port term t exact_first maxhits) =
      (case parse_body (\<lambda>_. True) (reply_body r1) result_zero of (rc, out) \<Rightarrow> (rc, out\<lparr>r_status := rc\<rparr>))"
    using archie_query_cases(1) [OF assms(1)] by blast
  obtain ps1 where "parse_loop (\<lambda>_. True) (ps_start\<lparr>ps_none_found := False, ps_warning := []\<rparr>) (reply_text es) = Inr ps1"
      "ps_hits ps1 = map hit_of es"
    using parse_loop_entries [of es "\<lambda>_. True" "ps_start\<lparr>ps_none_found := False, ps_warning := []\<rparr>"] assms(5)
    by (auto simp: ps_start_def)
  then have "parse_body (\<lambda>_. True) (reply_text es) result_zero =
      (ARCHIE_OK, result_zero\<lparr>r_hits := map hit_of es, r_none_found := ps_none_found ps1, r_warning := ps_warning ps1,
         r_message := take 256 (found_message (length es))\<rparr>)"
    using assms(6) by (simp add: parse_body_def result_zero_def Let_def)
  then show ?thesis using q collected_body [OF assms(3) r(2)] assms(4) by simp
qed

lemma archie_search_delivers_witness:
  "r_hits (snd (fst (archie_query (quiet_net [Some (reply_packet 9 [reply_text [sample_entry]] 0)]) 5 0
     (asc ''h'') 0 (asc ''x'') ARCHIE_EXACT False 100))) = [hit_of sample_entry]"
proof -
  let ?ps = "[reply_text [sample_entry]]" and ?net = "quiet_net [Some (reply_packet 9 [reply_text [sample_entry]] 0)]"
  have p: "pieces_ok ?ps"
    by (simp add: pieces_ok_def archie_max_pkts_def reply_text_def link_text_def size_text_def sample_entry_def
        quote_field_def quote_body_def sp_def)
  have h: "n_send_ok ?net 0" "concat ?ps = reply_text [sample_entry]" "list_all entry_ok [sample_entry]"
    "n_recv ?net = map Some [reply_packet 9 ?ps 0] @ []" "list_all (arrives 9 ?ps) [reply_packet 9 ?ps 0]"
    using sample_entry_ok by (simp_all add: quiet_net_def arrives_def)
  have all: "\<And>k. k < length ?ps \<Longrightarrow> reply_packet 9 ?ps k \<in> set [reply_packet 9 ?ps 0]" by simp
  from archie_search_delivers [OF quiet_can_ask h(1) p h(2,3) list.distinct(2) h(4,5) all, of 5 0 0]
  show ?thesis by (simp add: Let_def split_beta)
qed

text \<open>
  connection identifiers. The identifier is never 0, and two queries in a row get different
  ones, except where the low half of the counter passes 0: there both get 1.
\<close>

theorem archie_cid_fresh:
  assumes "archie_next_cid c tick = (c1, a)" "archie_next_cid c1 tick1 = (c2, b)" "c1 \<noteq> 0"
  shows "a \<noteq> 0 \<and> b \<noteq> 0 \<and> (a = b \<longleftrightarrow> c1 AND 0xFFFF = 0)"
proof -
  define lo :: "u32 \<Rightarrow> u16" where "lo x = ucast x" for x
  have m: "(0xFFFF :: u32) = mask 16" by (simp add: mask_eq_exp_minus_1)
  have cast: "(ucast (if x AND 0xFFFF = 0 then 1 else x AND 0xFFFF) :: u16) = (if lo x = 0 then 1 else lo x)"
    and zero: "(x AND 0xFFFF = 0) = (lo x = 0)" for x :: u32
  proof -
    have e: "x AND 0xFFFF = ucast (lo x)"
      unfolding m lo_def by (rule bit_word_eqI) (auto simp: bit_simps)
    have l: "ucast (x AND 0xFFFF) = lo x" unfolding m lo_def by (rule bit_word_eqI) (auto simp: bit_simps)
    show z: "(x AND 0xFFFF = 0) = (lo x = 0)" using e l by (metis ucast_0)
    show "(ucast (if x AND 0xFFFF = 0 then 1 else x AND 0xFFFF) :: u16) = (if lo x = 0 then 1 else lo x)"
      using z l by simp
  qed
  have a: "a = (if lo c1 = 0 then 1 else lo c1)" and b: "c2 = c1 + 1" "b = (if lo c2 = 0 then 1 else lo c2)"
    using assms unfolding archie_next_cid_def Let_def cast by auto
  have "uint (lo (c1 + 1)) = uint (lo c1 + 1)"
    by (simp add: lo_def unsigned_ucast_eq uint_word_ariths take_bit_eq_mod mod_mod_cancel mod_simps)
  then have inc: "lo c2 = lo c1 + 1" unfolding b(1) by (rule word_uint_eqI)
  show ?thesis using a b(2) inc zero [of c1] by auto
qed

lemma archie_cid_fresh_witness:
  "archie_next_cid 0xFFFF 0 = (0x10000, 1) \<and> archie_next_cid 0x10000 0 = (0x10001, 1) \<and>
    (1::u16) \<noteq> 0 \<and> ((1::u16) = 1 \<longleftrightarrow> (0x10000::u32) AND 0xFFFF = 0)"
proof -
  have e: "archie_next_cid 0xFFFF 0 = (0x10000, 1)" "archie_next_cid 0x10000 0 = (0x10001, 1)"
    by (simp_all add: archie_next_cid_def)
  from archie_cid_fresh [OF e] e show ?thesis by simp
qed

text \<open>
  a query that fails before the socket is used returns the error but leaves the status of the
  result at \<open>ARCHIE_OK\<close>, and the tab looks at the latter: an unknown server is shown as a search
  without matches.
\<close>

theorem archie_dns_failure_shown:
  assumes "server \<noteq> []" "term \<noteq> []" "\<not> n_resolves net"
  shows "fst (fst (archie_query net counter tick server port term t exact_first maxhits)) = ARCHIE_ERR_DNS \<and>
    archie_status_line (snd (fst (archie_query net counter tick server port term t exact_first maxhits))) = asc ''No matches.''"
  using assms by (simp add: archie_query_def archie_status_line_def result_zero_def Let_def)

lemma archie_dns_failure_shown_witness:
  "archie_status_line (snd (fst (archie_query ((quiet_net [])\<lparr>n_resolves := False\<rparr>) 5 0 (asc ''h'') 0 (asc ''x'')
    ARCHIE_EXACT False 100))) = asc ''No matches.''"
proof -
  have h: "asc ''h'' \<noteq> []" "asc ''x'' \<noteq> []" "\<not> n_resolves ((quiet_net [])\<lparr>n_resolves := False\<rparr>)" by simp_all
  from archie_dns_failure_shown [OF h, of 5 0 0 ARCHIE_EXACT False 100] show ?thesis by simp
qed

text \<open>
  The total of the first packet decides when a reply is complete, but a later packet with a larger
  total is stored and counted: a reply can be complete with a piece missing.
\<close>

lemma archie_mixed_totals:
  assumes "length a \<le> 2041" "length b \<le> 2041"
  shows "\<exists>ra. recv_loop (\<lambda>_. True)
      [Some ([7] @ put16 c @ put16 1 @ put16 2 @ a), Some ([7] @ put16 c @ put16 3 @ put16 3 @ b)] reasm_start =
      (Complete, ra, []) \<and> ra_pkt ra 1 = None \<and> reply_body ra = a"
proof -
  define d1 where "d1 = [7] @ put16 c @ put16 1 @ put16 2 @ a"
  define d2 where "d2 = [7] @ put16 c @ put16 3 @ put16 3 @ b"
  have f: "pkt_frame d1 = Some (1, 2, 7)" "pkt_frame d2 = Some (3, 3, 7)"
    by (simp_all add: d1_def d2_def pkt_frame_def put16_def get16_def archie_max_pkts_def)
  have d: "drop 7 d1 = a" "d1 \<noteq> []" "\<not> length d1 > 2048" "d2 \<noteq> []" "\<not> length d2 > 2048"
    using assms by (simp_all add: d1_def d2_def put16_def)
  have "\<exists>ra. recv_loop (\<lambda>_. True) [Some d1, Some d2] reasm_start = (Complete, ra, []) \<and>
      ra_pkt ra 1 = None \<and> reply_body ra = a"
    using d f by (simp add: store_pkt_def reasm_start_def reply_body_def Let_def upt_rec)
  then show ?thesis by (simp only: d1_def d2_def)
qed

text \<open>The messages that name the server are cut at the buffer's size without a terminator.\<close>

lemma archie_message_unterminated:
  assumes "300 \<le> length server" "term \<noteq> []" "\<not> n_resolves net"
  shows "length (r_message (snd (fst (archie_query net counter tick server port term t exact_first maxhits)))) = 256"
  using assms by (auto simp: archie_query_def result_zero_def Let_def)

end
