(* ===== verification/RipEga.thy ===== *)
theory RipEga
  imports Prelude
begin

unbundle bit_operations_syntax

section \<open>RIPscrip: the EGA surface (rip\_ega.c)\<close>

text \<open>
  The 640 by 350 surface of palette indices and its raster operations. The pixels are a function
  of the address in \<open>pix\<close>, so that a write outside the array would show. The two places where the
  code uses the mathematical library, the samples of an arc and the half width of an ellipse, are
  arguments (\<open>curves\<close>); nothing is assumed of them. \<open>mem_ok n\<close> says whether room for \<open>n\<close>
  integers can be had.
\<close>

definition rip_ega_w :: int where "rip_ega_w = 640"
definition rip_ega_h :: int where "rip_ega_h = 350"

record rip_ega =
  eg_pix :: "int \<Rightarrow> byte"
  eg_pal16 :: "byte list"
  eg_vx0 :: int
  eg_vy0 :: int
  eg_vx1 :: int
  eg_vy1 :: int
  eg_disabled :: bool
  eg_xor :: bool

definition rip_default_pal16 :: "byte list" where
  "rip_default_pal16 = [0, 1, 2, 3, 4, 5, 20, 7, 56, 57, 58, 59, 60, 61, 62, 63]"

subsection \<open>State\<close>

definition rip_ega_reset :: "rip_ega \<Rightarrow> rip_ega" where
  "rip_ega_reset s =
     s\<lparr>eg_pal16 := rip_default_pal16, eg_vx0 := 0, eg_vy0 := 0, eg_vx1 := rip_ega_w - 1,
       eg_vy1 := rip_ega_h - 1, eg_disabled := False, eg_xor := False,
       eg_pix := mem_fill (eg_pix s) 0 (rip_ega_w * rip_ega_h) 0\<rparr>"

text \<open>The count of a \<open>memset\<close> is a \<open>size_t\<close>: a negative \<open>int\<close> becomes a huge one.\<close>

definition size_t_of :: "int \<Rightarrow> int" where
  "size_t_of n = n mod 2 ^ 64"

definition erase_row :: "rip_ega \<Rightarrow> int \<Rightarrow> rip_ega" where
  "erase_row s y =
     (if y < 0 \<or> y \<ge> rip_ega_h then s
      else let a = y * rip_ega_w + eg_vx0 s
           in s\<lparr>eg_pix := mem_fill (eg_pix s) a (a + size_t_of (eg_vx1 s - eg_vx0 s + 1)) 0\<rparr>)"

definition rip_ega_erase_view :: "rip_ega \<Rightarrow> rip_ega" where
  "rip_ega_erase_view s = (if eg_disabled s then s else foldl erase_row s [eg_vy0 s..eg_vy1 s])"

definition rip_ega_set_palette16 :: "rip_ega \<Rightarrow> byte list \<Rightarrow> rip_ega" where
  "rip_ega_set_palette16 s master =
     s\<lparr>eg_pal16 := map2 (\<lambda>old m. if m \<le> 63 then m else old) (eg_pal16 s) master\<rparr>"

definition rip_ega_set_one_palette :: "rip_ega \<Rightarrow> int \<Rightarrow> int \<Rightarrow> rip_ega" where
  "rip_ega_set_one_palette s color master =
     (if color < 0 \<or> color > 15 then s
      else if master < 0 \<or> master > 63 then s
      else s\<lparr>eg_pal16 := (eg_pal16 s)[nat color := word_of_int master]\<rparr>)"

definition rip_ega_set_viewport :: "rip_ega \<Rightarrow> int \<Rightarrow> int \<Rightarrow> int \<Rightarrow> int \<Rightarrow> rip_ega" where
  "rip_ega_set_viewport s ax0 ay0 ax1 ay1 =
     (if ax0 = 0 \<and> ay0 = 0 \<and> ax1 = 0 \<and> ay1 = 0 then
        s\<lparr>eg_disabled := True, eg_vx0 := 0, eg_vy0 := 0, eg_vx1 := 0, eg_vy1 := 0\<rparr>
      else
        let (x0, x1) = (if ax0 > ax1 then (ax1, ax0) else (ax0, ax1));
            (y0, y1) = (if ay0 > ay1 then (ay1, ay0) else (ay0, ay1));
            x0 = (if x0 < 0 then 0 else x0);
            y0 = (if y0 < 0 then 0 else y0);
            x1 = (if x1 > rip_ega_w - 1 then rip_ega_w - 1 else x1);
            y1 = (if y1 > rip_ega_h - 1 then rip_ega_h - 1 else y1)
        in s\<lparr>eg_vx0 := x0, eg_vy0 := y0, eg_vx1 := x1, eg_vy1 := y1, eg_disabled := False\<rparr>)"

subsection \<open>Pixels and lines\<close>

definition color_index :: "int \<Rightarrow> byte" where
  "color_index color = word_of_int color AND 0x0F"

definition rip_ega_pixel :: "int \<Rightarrow> rip_ega \<Rightarrow> int \<times> int \<Rightarrow> rip_ega" where
  "rip_ega_pixel color s p =
     (case p of (x, y) \<Rightarrow>
        if eg_disabled s then s
        else if x < eg_vx0 s \<or> x > eg_vx1 s \<or> y < eg_vy0 s \<or> y > eg_vy1 s then s
        else if x < 0 \<or> x \<ge> rip_ega_w \<or> y < 0 \<or> y \<ge> rip_ega_h then s
        else
          let a = y * rip_ega_w + x in
          s\<lparr>eg_pix := (eg_pix s)(a :=
            (if eg_xor s then (eg_pix s a XOR word_of_int color) AND 0x0F else color_index color))\<rparr>)"

text \<open>
  The loop of \<open>ega_line_1px\<close>, in 32-bit arithmetic; \<open>None\<close> is a loop that never ends. It ends when the two ends are
  within 2 to the 29 of each other (\<open>rip_line_ends\<close>). For ends further apart, which only the accumulating text
  position can produce, the differences overflow and the loop need not meet its end; what it draws until then are still single
  pixels, each clipped, and in the model the surface stays as it was.
\<close>

partial_function (option) line_loop ::
  "int \<Rightarrow> int \<Rightarrow> int \<Rightarrow> int \<Rightarrow> int \<Rightarrow> int \<Rightarrow> int \<Rightarrow> rip_ega \<Rightarrow> int \<Rightarrow> int \<Rightarrow> int \<Rightarrow> rip_ega option" where
  "line_loop x1 y1 dx dy sx sy color s x0 y0 err =
     (let s1 = rip_ega_pixel color s (x0, y0) in
      if x0 = x1 \<and> y0 = y1 then Some s1
      else
        let e2 = wrap32 (2 * err);
            (err1, x2) = (if e2 \<ge> dy then (wrap32 (err + dy), wrap32 (x0 + sx)) else (err, x0));
            (err2, y2) = (if e2 \<le> dx then (wrap32 (err1 + dx), wrap32 (y0 + sy)) else (err1, y0))
        in line_loop x1 y1 dx dy sx sy color s1 x2 y2 err2)"

definition abs32 :: "int \<Rightarrow> int" where
  "abs32 v = wrap32 \<bar>v\<bar>"

definition ega_line_run :: "rip_ega \<Rightarrow> int \<Rightarrow> int \<Rightarrow> int \<Rightarrow> int \<Rightarrow> int \<Rightarrow> rip_ega option" where
  "ega_line_run s x0 y0 x1 y1 color =
     (let dx = abs32 (wrap32 (x1 - x0)); sx = (if x0 < x1 then 1 else -1);
          dy = wrap32 (- abs32 (wrap32 (y1 - y0))); sy = (if y0 < y1 then 1 else -1)
      in line_loop x1 y1 dx dy sx sy color s x0 y0 (wrap32 (dx + dy)))"

definition ega_line_1px :: "rip_ega \<Rightarrow> int \<Rightarrow> int \<Rightarrow> int \<Rightarrow> int \<Rightarrow> int \<Rightarrow> rip_ega" where
  "ega_line_1px s x0 y0 x1 y1 color =
     (case ega_line_run s x0 y0 x1 y1 color of Some s1 \<Rightarrow> s1 | None \<Rightarrow> s)"

definition rip_ega_line :: "rip_ega \<Rightarrow> int \<Rightarrow> int \<Rightarrow> int \<Rightarrow> int \<Rightarrow> int \<Rightarrow> int \<Rightarrow> rip_ega" where
  "rip_ega_line s x0 y0 x1 y1 color thickness =
     (if thickness = 3 then
        if abs32 (wrap32 (x1 - x0)) \<ge> abs32 (wrap32 (y1 - y0)) then
          let s1 = ega_line_1px s x0 (wrap32 (y0 - 1)) x1 (wrap32 (y1 - 1)) color;
              s2 = ega_line_1px s1 x0 y0 x1 y1 color
          in ega_line_1px s2 x0 (wrap32 (y0 + 1)) x1 (wrap32 (y1 + 1)) color
        else
          let s1 = ega_line_1px s (wrap32 (x0 - 1)) y0 (wrap32 (x1 - 1)) y1 color;
              s2 = ega_line_1px s1 x0 y0 x1 y1 color
          in ega_line_1px s2 (wrap32 (x0 + 1)) y0 (wrap32 (x1 + 1)) y1 color
      else ega_line_1px s x0 y0 x1 y1 color)"

definition rip_ega_rect :: "rip_ega \<Rightarrow> int \<Rightarrow> int \<Rightarrow> int \<Rightarrow> int \<Rightarrow> int \<Rightarrow> int \<Rightarrow> rip_ega" where
  "rip_ega_rect s x0 y0 x1 y1 color thickness =
     (let s1 = rip_ega_line s x0 y0 x1 y0 color thickness;
          s2 = rip_ega_line s1 x1 y0 x1 y1 color thickness;
          s3 = rip_ega_line s2 x1 y1 x0 y1 color thickness
      in rip_ega_line s3 x0 y1 x0 y0 color thickness)"

subsection \<open>Fills\<close>

definition ega_fill_span :: "int \<Rightarrow> rip_ega \<Rightarrow> int \<Rightarrow> int \<Rightarrow> int \<Rightarrow> rip_ega" where
  "ega_fill_span color s y a b =
     (if eg_disabled s then s
      else if y < eg_vy0 s \<or> y > eg_vy1 s then s
      else if y < 0 \<or> y \<ge> rip_ega_h then s
      else
        let (xa, xb) = (if a > b then (b, a) else (a, b));
            xa = (if xa < eg_vx0 s then eg_vx0 s else xa);
            xb = (if xb > eg_vx1 s then eg_vx1 s else xb);
            xa = (if xa < 0 then 0 else xa);
            xb = (if xb > rip_ega_w - 1 then rip_ega_w - 1 else xb)
        in if xa > xb then s
           else s\<lparr>eg_pix := mem_fill (eg_pix s) (y * rip_ega_w + xa) (y * rip_ega_w + xb + 1) (color_index color)\<rparr>)"

definition ega_fill_index :: "int \<Rightarrow> int \<Rightarrow> int" where
  "ega_fill_index pattern fill_color = (if pattern = 0 then 0 else fill_color)"

definition rip_ega_bar :: "rip_ega \<Rightarrow> int \<Rightarrow> int \<Rightarrow> int \<Rightarrow> int \<Rightarrow> int \<Rightarrow> int \<Rightarrow> rip_ega" where
  "rip_ega_bar s x0 y0 x1 y1 pattern fill_color =
     (if eg_disabled s then s
      else
        let (ya, yb) = (if y0 > y1 then (y1, y0) else (y0, y1));
            c = ega_fill_index pattern fill_color
        in foldl (\<lambda>s y. ega_fill_span c s y x0 x1) s [ya..yb])"

text \<open>The point after point \<open>i\<close> of a closed figure is the point \<open>(i + 1) % npoints\<close>.\<close>

definition edges :: "(int \<times> int) list \<Rightarrow> ((int \<times> int) \<times> (int \<times> int)) list" where
  "edges pts = map (\<lambda>i. (pts ! i, pts ! ((i + 1) mod length pts))) [0..<length pts]"

text \<open>The crossings of row \<open>y\<close>. The quotient of the doubles, truncated, is that of the integers.\<close>

definition crossings :: "(int \<times> int) list \<Rightarrow> int \<Rightarrow> int list" where
  "crossings pts y =
     concat (map (\<lambda>((x0, y0), (x1, y1)).
       if y0 = y1 then []
       else if (y \<ge> y0 \<and> y < y1) \<or> (y \<ge> y1 \<and> y < y0)
       then [x0 + cdiv ((y - y0) * (x1 - x0)) (y1 - y0)]
       else []) (edges pts))"

text \<open>The insertion sort, on the prefix that is sorted already, from its end.\<close>

fun shift_in :: "int \<Rightarrow> int list \<Rightarrow> int list" where
  "shift_in v [] = [v]"
| "shift_in v (x # rev_prefix) = (if x > v then x # shift_in v rev_prefix else v # x # rev_prefix)"

definition insertion_sort :: "int list \<Rightarrow> int list" where
  "insertion_sort xs = rev (foldl (\<lambda>acc v. shift_in v acc) [] xs)"

fun fill_pairs :: "int \<Rightarrow> int \<Rightarrow> rip_ega \<Rightarrow> int list \<Rightarrow> rip_ega" where
  "fill_pairs c y s (a # b # xs) = fill_pairs c y (ega_fill_span c s y a b) xs"
| "fill_pairs c y s _ = s"

definition rip_ega_fill_polygon :: "(nat \<Rightarrow> bool) \<Rightarrow> rip_ega \<Rightarrow> (int \<times> int) list \<Rightarrow> int \<Rightarrow> int \<Rightarrow> rip_ega" where
  "rip_ega_fill_polygon mem_ok s pts pattern fill_color =
     (if length pts < 2 \<or> eg_disabled s then s
      else
        let c = ega_fill_index pattern fill_color;
            ymin = Min (snd ` set pts); ymax = Max (snd ` set pts);
            ymin = (if ymin < eg_vy0 s then eg_vy0 s else ymin);
            ymax = (if ymax > eg_vy1 s then eg_vy1 s else ymax)
        in if ymin > ymax then s
           else if \<not> mem_ok (length pts) then s
           else foldl (\<lambda>s y. fill_pairs c y s (insertion_sort (crossings pts y))) s [ymin..ymax])"

definition draw_edges :: "int \<Rightarrow> int \<Rightarrow> rip_ega \<Rightarrow> ((int \<times> int) \<times> (int \<times> int)) list \<Rightarrow> rip_ega" where
  "draw_edges color thickness s es =
     foldl (\<lambda>s ((xa, ya), (xb, yb)). rip_ega_line s xa ya xb yb color thickness) s es"

definition rip_ega_polygon :: "rip_ega \<Rightarrow> (int \<times> int) list \<Rightarrow> int \<Rightarrow> int \<Rightarrow> rip_ega" where
  "rip_ega_polygon s pts color thickness =
     (if length pts < 2 then s else draw_edges color thickness s (edges pts))"

definition rip_ega_polyline :: "rip_ega \<Rightarrow> (int \<times> int) list \<Rightarrow> int \<Rightarrow> int \<Rightarrow> rip_ega" where
  "rip_ega_polyline s pts color thickness =
     (if length pts < 2 then s else draw_edges color thickness s (zip pts (tl pts)))"

subsection \<open>Curves\<close>

text \<open>
  What the floating point code computes, for a sweep that starts at \<open>a\<close> and spans \<open>sp\<close> degrees:
  \<open>(int)(sweep * rmax / 2)\<close>; the rounded \<open>r * cos t\<close> and \<open>r * sin t\<close> at sample \<open>i\<close> of \<open>n\<close>; and
  the rounded half width of an ellipse \<open>dy\<close> rows from its centre.
\<close>

record curves =
  cv_segments :: "int \<Rightarrow> int \<Rightarrow> int"
  cv_cos :: "int \<Rightarrow> int \<Rightarrow> int \<Rightarrow> int \<Rightarrow> int \<Rightarrow> int"
  cv_sin :: "int \<Rightarrow> int \<Rightarrow> int \<Rightarrow> int \<Rightarrow> int \<Rightarrow> int"
  cv_half :: "int \<Rightarrow> int \<Rightarrow> int \<Rightarrow> int"

definition rip_ega_aspect_y :: "int \<Rightarrow> int" where
  "rip_ega_aspect_y r = (if r \<le> 0 then 0 else (r * 1400 + 960) div 1920)"

text \<open>\<open>arc_range\<close> in degrees: the start and the span, from 1 to 360.\<close>

definition arc_range :: "int \<Rightarrow> int \<Rightarrow> int \<times> int" where
  "arc_range start_ang end_ang =
     (let s = start_ang mod 360; e = end_ang mod 360; span = e - s
      in (s, if span \<le> 0 then span + 360 else span))"

definition arc_steps :: "curves \<Rightarrow> int \<Rightarrow> int \<Rightarrow> int \<Rightarrow> int" where
  "arc_steps cv rx ry span =
     (let rmax = (if rx > ry then rx else ry);
          rmax = (if rmax < 1 then 1 else rmax);
          n = cv_segments cv span rmax + 4;
          n = (if n < 6 then 6 else n)
      in if n > 720 then 720 else n)"

definition arc_points :: "curves \<Rightarrow> int \<Rightarrow> int \<Rightarrow> int \<Rightarrow> int \<Rightarrow> int \<Rightarrow> int \<Rightarrow> (int \<times> int) list" where
  "arc_points cv cx cy start_ang end_ang rx ry =
     (let (a, span) = arc_range start_ang end_ang;
          n = arc_steps cv rx ry span
      in map (\<lambda>i. (cx + cv_cos cv rx a span i n, cy - cv_sin cv ry a span i n)) [0..n])"

definition rip_ega_arc ::
  "curves \<Rightarrow> rip_ega \<Rightarrow> int \<Rightarrow> int \<Rightarrow> int \<Rightarrow> int \<Rightarrow> int \<Rightarrow> int \<Rightarrow> int \<Rightarrow> int \<Rightarrow> rip_ega" where
  "rip_ega_arc cv s cx cy start_ang end_ang rx ry color thickness =
     (if eg_disabled s then s
      else if rx \<le> 0 \<and> ry \<le> 0 then s
      else if start_ang = end_ang then s
      else
        let pts = arc_points cv cx cy start_ang end_ang rx ry
        in draw_edges color thickness s (zip pts (tl pts)))"

definition rip_ega_ellipse :: "curves \<Rightarrow> rip_ega \<Rightarrow> int \<Rightarrow> int \<Rightarrow> int \<Rightarrow> int \<Rightarrow> int \<Rightarrow> int \<Rightarrow> rip_ega" where
  "rip_ega_ellipse cv s cx cy rx ry color thickness = rip_ega_arc cv s cx cy 0 360 rx ry color thickness"

definition rip_ega_circle :: "curves \<Rightarrow> rip_ega \<Rightarrow> int \<Rightarrow> int \<Rightarrow> int \<Rightarrow> int \<Rightarrow> int \<Rightarrow> rip_ega" where
  "rip_ega_circle cv s cx cy radius color thickness =
     rip_ega_arc cv s cx cy 0 360 radius (rip_ega_aspect_y radius) color thickness"

definition rip_ega_fill_ellipse :: "curves \<Rightarrow> rip_ega \<Rightarrow> int \<Rightarrow> int \<Rightarrow> int \<Rightarrow> int \<Rightarrow> int \<Rightarrow> int \<Rightarrow> rip_ega" where
  "rip_ega_fill_ellipse cv s cx cy rx ry pattern fill_color =
     (if eg_disabled s then s
      else if rx \<le> 0 \<or> ry \<le> 0 then s
      else
        let c = ega_fill_index pattern fill_color
        in foldl (\<lambda>s dy. ega_fill_span c s (cy + dy) (cx - cv_half cv rx ry dy) (cx + cv_half cv rx ry dy)) s [-ry..ry])"

definition rip_ega_pie ::
  "curves \<Rightarrow> (nat \<Rightarrow> bool) \<Rightarrow> rip_ega \<Rightarrow> int \<Rightarrow> int \<Rightarrow> int \<Rightarrow> int \<Rightarrow> int \<Rightarrow> int \<Rightarrow> int \<Rightarrow> int \<Rightarrow> int \<Rightarrow> int \<Rightarrow> rip_ega" where
  "rip_ega_pie cv mem_ok s cx cy start_ang end_ang rx ry pattern fill_color color thickness =
     (if eg_disabled s then s
      else if rx \<le> 0 \<and> ry \<le> 0 then s
      else if start_ang = end_ang then s
      else if \<not> mem_ok (2 * (nat (arc_steps cv rx ry (snd (arc_range start_ang end_ang))) + 2)) then s
      else
        let arc = arc_points cv cx cy start_ang end_ang rx ry;
            s1 = rip_ega_fill_polygon mem_ok s ((cx, cy) # arc) pattern fill_color;
            s2 = rip_ega_arc cv s1 cx cy start_ang end_ang rx ry color thickness;
            s3 = rip_ega_line s2 cx cy (fst (hd arc)) (snd (hd arc)) color thickness
        in rip_ega_line s3 cx cy (fst (last arc)) (snd (last arc)) color thickness)"

subsection \<open>Other operations\<close>

definition invert_row :: "int \<Rightarrow> int \<Rightarrow> rip_ega \<Rightarrow> int \<Rightarrow> rip_ega" where
  "invert_row x0 x1 s y =
     s\<lparr>eg_pix := (\<lambda>a. if y * rip_ega_w + x0 \<le> a \<and> a \<le> y * rip_ega_w + x1
                      then (NOT (eg_pix s a)) AND 0x0F else eg_pix s a)\<rparr>"

definition rip_ega_invert_rect :: "rip_ega \<Rightarrow> int \<Rightarrow> int \<Rightarrow> int \<Rightarrow> int \<Rightarrow> rip_ega" where
  "rip_ega_invert_rect s ax0 ay0 ax1 ay1 =
     (let (x0, x1) = (if ax0 > ax1 then (ax1, ax0) else (ax0, ax1));
          (y0, y1) = (if ay0 > ay1 then (ay1, ay0) else (ay0, ay1));
          x0 = (if x0 < 0 then 0 else x0);
          y0 = (if y0 < 0 then 0 else y0);
          x1 = (if x1 > rip_ega_w - 1 then rip_ega_w - 1 else x1);
          y1 = (if y1 > rip_ega_h - 1 then rip_ega_h - 1 else y1)
      in if x0 > x1 \<or> y0 > y1 then s
         else foldl (invert_row x0 x1) s [y0..y1])"

text \<open>Red, green and blue of a master palette entry.\<close>

definition rip_ega_master_rgb :: "int \<Rightarrow> byte \<times> byte \<times> byte" where
  "rip_ega_master_rgb m =
     (let m1 = (if m < 0 then 0 else m);
          m2 = (if m1 > 63 then 63 else m1);
          lo = (m2 div 8) mod 8; hi = m2 mod 8;
          level = (\<lambda>k. word_of_int ((hi div 2 ^ k mod 2 * 2 + lo div 2 ^ k mod 2) * 85))
      in (level 2, level 1, level 0))"

text \<open>The four bytes of pixel \<open>n\<close> in the expanded picture.\<close>

definition bgra_at :: "rip_ega \<Rightarrow> nat \<Rightarrow> byte list" where
  "bgra_at s n =
     (case rip_ega_master_rgb (uint (eg_pal16 s ! unat (eg_pix s (int n) AND 0x0F))) of
        (r, g, b) \<Rightarrow> [b, g, r, 0xFF])"

definition rip_ega_to_bgra :: "rip_ega \<Rightarrow> byte list" where
  "rip_ega_to_bgra s = concat (map (bgra_at s) [0..<nat (rip_ega_w * rip_ega_h)])"

end
