(* ===== verification/RipText.thy ===== *)
theory RipText
  imports RipEga
begin

section \<open>RIPscrip: text and buttons (rip\_text.c, rip\_button.c)\<close>

text \<open>
  The two text renderers over the surface, with the metric tables of the source, and the buttons
  that use them. The glyph tables (\<open>rip_font8x8\<close>, \<open>rip_hershey_faces\<close>) are arguments. Sums
  of coordinates are 32-bit \<open>int\<close>s, as the text position of the parser accumulates over commands.
\<close>

subsection \<open>Metrics\<close>

definition rip_metrics :: "(int \<times> int) list list" where
  "rip_metrics = [
      [(0, 6), (0, 13), (0, 20), (0, 27), (0, 34), (0, 41), (0, 48), (0, 55), (0, 62), (0, 69)],
      [(6, 18), (6, 20), (8, 23), (10, 31), (13, 41), (16, 51), (20, 62), (25, 77), (30, 93), (40, 124)],
      [(2, 5), (2, 6), (2, 6), (3, 9), (4, 12), (5, 15), (6, 13), (7, 22), (9, 27), (12, 36)],
      [(7, 19), (7, 21), (9, 24), (11, 32), (14, 42), (18, 53), (22, 64), (28, 80), (33, 96), (74, 158)],
      [(7, 19), (7, 21), (9, 24), (11, 32), (14, 42), (18, 53), (22, 64), (28, 80), (33, 96), (44, 128)],
      [(10, 22), (10, 24), (12, 27), (16, 37), (21, 49), (26, 61), (32, 74), (40, 92), (48, 111), (63, 147)],
      [(9, 21), (9, 23), (11, 26), (14, 35), (18, 46), (23, 58), (28, 70), (35, 87), (42, 105), (56, 140)],
      [(5, 17), (5, 19), (7, 22), (9, 30), (12, 40), (15, 50), (19, 61), (24, 77), (29, 92), (39, 123)],
      [(8, 20), (8, 22), (10, 25), (13, 34), (17, 45), (22, 57), (27, 69), (34, 86), (41, 104), (54, 139)],
      [(7, 32), (7, 35), (9, 40), (12, 54), (16, 72), (20, 96), (25, 109), (31, 136), (38, 164), (51, 219)],
      [(11, 35), (13, 39), (14, 44), (19, 59), (19, 59), (19, 59), (19, 59), (19, 59), (19, 59), (19, 59)]]"

definition rip_drop :: "int list list" where
  "rip_drop = [
      [7, 15, 23, 31, 39, 47, 55, 63, 71, 79],
      [22, 24, 28, 38, 50, 62, 76, 94, 114, 152],
      [6, 7, 7, 11, 14, 18, 22, 27, 33, 44],
      [23, 25, 29, 39, 51, 64, 78, 97, 117, 186],
      [23, 25, 29, 39, 51, 64, 78, 97, 117, 156],
      [29, 32, 36, 49, 65, 80, 98, 122, 147, 195],
      [25, 27, 31, 42, 56, 69, 84, 104, 126, 168],
      [21, 23, 27, 37, 49, 61, 75, 93, 113, 151],
      [24, 26, 30, 41, 54, 68, 83, 103, 125, 167],
      [38, 41, 47, 64, 85, 106, 129, 161, 194, 259],
      [39, 43, 49, 66, 66, 66, 66, 66, 66, 66]]"

definition clampfs :: "int \<Rightarrow> int \<Rightarrow> int \<times> int" where
  "clampfs font size1 =
     (let f = (if font < 0 \<or> font > 10 then 0 else font);
          z = (if size1 < 1 then 1 else size1)
      in (f, if z > 10 then 10 else z))"

definition metric_top :: "int \<Rightarrow> int \<Rightarrow> int" where
  "metric_top font size1 = fst (rip_metrics ! nat font ! nat (size1 - 1))"

definition metric_base :: "int \<Rightarrow> int \<Rightarrow> int" where
  "metric_base font size1 = snd (rip_metrics ! nat font ! nat (size1 - 1))"

definition rip_text_cell_height :: "int \<Rightarrow> int \<Rightarrow> int" where
  "rip_text_cell_height font0 size0 =
     (case clampfs font0 size0 of (font, sz) \<Rightarrow>
        if font = 0 then 8 * sz
        else metric_base font sz + cdiv (metric_base font sz - metric_top font sz) 4 + 1)"

definition rip_text_underline_offset :: "int \<Rightarrow> int \<Rightarrow> int" where
  "rip_text_underline_offset font0 size0 =
     (case clampfs font0 size0 of (font, sz) \<Rightarrow> rip_drop ! nat font ! nat (sz - 1) + 2)"

subsection \<open>Glyphs\<close>

text \<open>Row \<open>r\<close> of bitmap glyph \<open>c\<close>; left, right and points of a stroked glyph, pen-up markers included.\<close>

record glyphs =
  gl_bitmap :: "int \<Rightarrow> int \<Rightarrow> byte"
  gl_left :: "int \<Rightarrow> int \<Rightarrow> int"
  gl_right :: "int \<Rightarrow> int \<Rightarrow> int"
  gl_points :: "int \<Rightarrow> int \<Rightarrow> (int \<times> int) list"

text \<open>The pixels of one bitmap character; \<open>vert\<close> is \<open>RIP_DIR_VERT\<close>.\<close>

definition bitmap_pixels :: "glyphs \<Rightarrow> bool \<Rightarrow> int \<Rightarrow> int \<Rightarrow> int \<Rightarrow> int \<Rightarrow> int \<Rightarrow> (int \<times> int) list" where
  "bitmap_pixels gl vert sz x y adv c =
     concat (map (\<lambda>row. concat (map (\<lambda>col.
       if bit (gl_bitmap gl c row) (nat col) then
         concat (map (\<lambda>dy. map (\<lambda>dx.
           if vert then (wrap32 (x + row * sz + dx), wrap32 (y - adv - col * sz - dy))
           else (wrap32 (x + adv + col * sz + dx), wrap32 (y + row * sz + dy))) [0..sz - 1]) [0..sz - 1])
       else []) [0..7])) [0..7])"

definition bitmap_code :: "byte \<Rightarrow> int" where
  "bitmap_code b = (if uint b > 127 then 0x3F else uint b)"

fun bitmap_draw :: "glyphs \<Rightarrow> bool \<Rightarrow> int \<Rightarrow> int \<Rightarrow> int \<Rightarrow> int \<Rightarrow> bool \<Rightarrow> rip_ega \<Rightarrow> int \<Rightarrow> byte list \<Rightarrow> rip_ega \<times> int" where
  "bitmap_draw gl vert sz x y color draw s adv [] = (s, adv)"
| "bitmap_draw gl vert sz x y color draw s adv (b # bs) =
     (let s1 = (if draw then foldl (rip_ega_pixel color) s (bitmap_pixels gl vert sz x y adv (bitmap_code b)) else s)
      in bitmap_draw gl vert sz x y color draw s1 (wrap32 (adv + 8 * sz)) bs)"

definition scaled :: "int \<Rightarrow> int \<Rightarrow> int \<Rightarrow> int" where
  "scaled v num den =
     (if v \<ge> 0 then (v * num + den div 2) div den else - (((- v) * num + den div 2) div den))"

text \<open>
  The tracking table as \<open>rip_text_metrics_init\<close> leaves it: 0.969 for font 4, no advance table. The
  natural advance is a difference of two signed bytes, for which rounding the double product is
  rounding the exact one.
\<close>

definition advance_for :: "int \<Rightarrow> int \<Rightarrow> int \<Rightarrow> int" where
  "advance_for font nat1 num = scaled (if font = 4 then cdiv (nat1 * 969 + 500) 1000 else nat1) num 21"

definition stroke_code :: "byte \<Rightarrow> int" where
  "stroke_code b = (if b < 0x20 \<or> b > 0x7E then 0x3F else uint b)"

definition stroke_num :: "int \<Rightarrow> int \<Rightarrow> int" where
  "stroke_num font sz = (let n = metric_base font sz - metric_top font sz in if n \<le> 0 then 1 else n)"

text \<open>The loop over the points of a glyph; the option is \<open>have_prev\<close> with the previous point.\<close>

fun stroke_points ::
  "bool \<Rightarrow> int \<Rightarrow> int \<Rightarrow> int \<Rightarrow> int \<Rightarrow> int \<Rightarrow> int \<Rightarrow> int \<Rightarrow> (int \<times> int) option \<Rightarrow> rip_ega \<Rightarrow> (int \<times> int) list \<Rightarrow> rip_ega" where
  "stroke_points vert left num base x y adv color prev s [] = s"
| "stroke_points vert left num base x y adv color prev s ((hx, hy) # pts) =
     (if hx = -128 then stroke_points vert left num base x y adv color None s pts
      else
        let ox = scaled (hx - left) num 21;
            oy = scaled (hy - 9) num 21;
            p = (if vert then (wrap32 (x + base + oy), wrap32 (y - adv - ox)) else (wrap32 (x + adv + ox), wrap32 (y + base + oy)));
            s1 = (case prev of
                    Some q \<Rightarrow> rip_ega_line s (fst q) (snd q) (fst p) (snd p) color 1
                  | None \<Rightarrow> rip_ega_pixel color s p)
        in stroke_points vert left num base x y adv color (Some p) s1 pts)"

fun stroke_draw ::
  "glyphs \<Rightarrow> int \<Rightarrow> bool \<Rightarrow> int \<Rightarrow> int \<Rightarrow> int \<Rightarrow> int \<Rightarrow> bool \<Rightarrow> rip_ega \<Rightarrow> int \<Rightarrow> byte list \<Rightarrow> rip_ega \<times> int" where
  "stroke_draw gl font vert sz x y color draw s adv [] = (s, adv)"
| "stroke_draw gl font vert sz x y color draw s adv (b # bs) =
     (let c = stroke_code b; num = stroke_num font sz;
          s1 = (if draw then
                  stroke_points vert (gl_left gl font c) num (metric_base font sz) x y adv color None s (gl_points gl font c)
                else s)
      in stroke_draw gl font vert sz x y color draw s1
           (wrap32 (adv + advance_for font (gl_right gl font c - gl_left gl font c) num)) bs)"

text \<open>The surface and the advance.\<close>

definition rip_text_draw ::
  "glyphs \<Rightarrow> rip_ega \<Rightarrow> int \<Rightarrow> bool \<Rightarrow> int \<Rightarrow> int \<Rightarrow> int \<Rightarrow> byte list \<Rightarrow> int \<Rightarrow> rip_ega \<times> int" where
  "rip_text_draw gl s font0 vert size0 x y txt color =
     (if txt = [] then (s, 0)
      else case clampfs font0 size0 of (font, sz) \<Rightarrow>
        if font = 0 then bitmap_draw gl vert sz x y color True s 0 txt
        else stroke_draw gl font vert sz x y color True s 0 txt)"

definition rip_text_width :: "glyphs \<Rightarrow> int \<Rightarrow> int \<Rightarrow> byte list \<Rightarrow> rip_ega \<Rightarrow> int" where
  "rip_text_width gl font0 size0 txt s =
     (if txt = [] then 0
      else case clampfs font0 size0 of (font, sz) \<Rightarrow>
        if font = 0 then snd (bitmap_draw gl False sz 0 0 0 False s 0 txt)
        else snd (stroke_draw gl font False sz 0 0 0 False s 0 txt))"

subsection \<open>Button styles\<close>

record rip_button_style =
  bs_wid :: int
  bs_hgt :: int
  bs_orient :: int
  bs_flags :: int
  bs_bevsize :: int
  bs_dfore :: int
  bs_dback :: int
  bs_bright :: int
  bs_dark :: int
  bs_surface :: int
  bs_grp_no :: int
  bs_flags2 :: int
  bs_uline_col :: int
  bs_corner_col :: int

definition rip_button_style_default :: rip_button_style where
  "rip_button_style_default =
     \<lparr>bs_wid = 0, bs_hgt = 0, bs_orient = 2, bs_flags = 0, bs_bevsize = 0, bs_dfore = 0, bs_dback = 15,
      bs_bright = 15, bs_dark = 8, bs_surface = 7, bs_grp_no = 0, bs_flags2 = 0, bs_uline_col = 4, bs_corner_col = 0\<rparr>"

text \<open>The flag with bit \<open>k\<close>: 1 invertable, 3 chisel, 4 recessed, 5 dropshadow, 7 icon, 8 plain, 9 bevel, 10 mouse, 11 underline.\<close>

definition has_flag :: "rip_button_style \<Rightarrow> nat \<Rightarrow> bool" where
  "has_flag st k = bit (bs_flags st) k"

definition has_flag2 :: "rip_button_style \<Rightarrow> nat \<Rightarrow> bool" where
  "has_flag2 st k = bit (bs_flags2 st) k"

definition rip_button_style_drawable :: "rip_button_style \<Rightarrow> bool" where
  "rip_button_style_drawable st = (if has_flag st 7 \<or> has_flag st 0 then False else has_flag st 8)"

type_synonym rect = "int \<times> int \<times> int \<times> int"

definition base_rect :: "rip_button_style \<Rightarrow> rect \<Rightarrow> rect" where
  "base_rect st r =
     (case r of (ax0, ay0, ax1, ay1) \<Rightarrow>
        let (x0, x1) = (if ax0 > ax1 then (ax1, ax0) else (ax0, ax1));
            (y0, y1) = (if ay0 > ay1 then (ay1, ay0) else (ay0, ay1))
        in if bs_wid st > 0 \<and> bs_hgt st > 0 then (x0, y0, x0 + bs_wid st - 1, y0 + bs_hgt st - 1)
           else (x0, y0, x1, y1))"

definition grow_rect :: "int \<Rightarrow> rect \<Rightarrow> rect" where
  "grow_rect g r = (case r of (x0, y0, x1, y1) \<Rightarrow> (x0 - g, y0 - g, x1 + g, y1 + g))"

definition rip_button_image_rect :: "rip_button_style \<Rightarrow> rect \<Rightarrow> rect" where
  "rip_button_image_rect st r = grow_rect (if has_flag st 9 then bs_bevsize st else 0) (base_rect st r)"

definition rip_button_outer_rect :: "rip_button_style \<Rightarrow> rect \<Rightarrow> rect" where
  "rip_button_outer_rect st r =
     grow_rect ((if has_flag st 9 then bs_bevsize st else 0) + (if has_flag st 4 then 2 else 0)) (base_rect st r)"

subsection \<open>Drawing a button\<close>

definition bevel_ring :: "rip_ega \<Rightarrow> rect \<Rightarrow> int \<Rightarrow> int \<Rightarrow> int \<Rightarrow> rip_ega" where
  "bevel_ring s r bright dark corner =
     (case r of (x0, y0, x1, y1) \<Rightarrow>
        let s1 = foldl (\<lambda>s x. rip_ega_pixel dark (rip_ega_pixel bright s (x, y0)) (x, y1)) s [x0..x1];
            s2 = foldl (\<lambda>s y. rip_ega_pixel dark (rip_ega_pixel bright s (x0, y)) (x1, y)) s1 [y0..y1]
        in rip_ega_pixel corner (rip_ega_pixel corner s2 (x1, y0)) (x0, y1))"

definition lower_up :: "int \<Rightarrow> int" where
  "lower_up c = (if c \<ge> 0x61 \<and> c \<le> 0x7A then c - 32 else c)"

fun hotkey_find :: "int \<Rightarrow> nat \<Rightarrow> byte list \<Rightarrow> nat option" where
  "hotkey_find hk i [] = None"
| "hotkey_find hk i (b # bs) = (if lower_up (uint b) = hk then Some i else hotkey_find hk (Suc i) bs)"

definition hotkey_index :: "byte list \<Rightarrow> int \<Rightarrow> nat option" where
  "hotkey_index label hotkey = (if hotkey \<le> 0 then None else hotkey_find (lower_up hotkey) 0 label)"

definition label_pos :: "rip_button_style \<Rightarrow> rect \<Rightarrow> int \<Rightarrow> int \<Rightarrow> int \<times> int" where
  "label_pos st r tw ch =
     (case r of (x0, y0, x1, y1) \<Rightarrow>
        let w = x1 - x0 + 1; h = y1 - y0 + 1;
            (tx, ty) =
              (if bs_orient st = 0 then (x0 + cdiv (w - tw) 2, y0 - ch)
               else if bs_orient st = 4 then (x0 + cdiv (w - tw) 2, y1 + 1)
               else if bs_orient st = 1 then (x0 - tw - 1, y0 + cdiv (h - ch) 2)
               else if bs_orient st = 3 then (x1 + 2, y0 + cdiv (h - ch) 2)
               else (x0 + cdiv (w - tw) 2, y0 + cdiv (h - ch + 1) 2));
            indent = (if has_flag st 3 then 20 else 10);
            moves = (bs_orient st = 0 \<or> bs_orient st = 2 \<or> bs_orient st = 4);
            tx1 = (if moves \<and> has_flag2 st 3 then x0 + indent else tx);
            tx2 = (if moves \<and> has_flag2 st 4 then x1 - indent - tw else tx1)
        in (tx2, ty))"

definition draw_hotkey ::
  "glyphs \<Rightarrow> rip_button_style \<Rightarrow> int \<Rightarrow> int \<Rightarrow> int \<Rightarrow> int \<Rightarrow> byte list \<Rightarrow> rip_ega \<Rightarrow> nat \<Rightarrow> rip_ega" where
  "draw_hotkey gl st font sz tx ty label s hk0 =
     (let hk = (if hk0 > 255 then 255 else hk0);
          off = rip_text_width gl font sz (take hk label) s;
          one = [label ! hk];
          cw = rip_text_width gl font sz one s;
          s1 = (if has_flag2 st 1
                then fst (rip_text_draw gl s font False sz (tx + off) ty one (bs_uline_col st)) else s);
          uy = ty + rip_text_underline_offset font sz
      in if has_flag st 11
         then foldl (\<lambda>s ux. rip_ega_pixel (bs_uline_col st) s (ux, uy)) s1 [tx + off..tx + off + cw - 1]
         else s1)"

definition draw_label ::
  "glyphs \<Rightarrow> rip_button_style \<Rightarrow> rect \<Rightarrow> byte list \<Rightarrow> int \<Rightarrow> int \<Rightarrow> int \<Rightarrow> rip_ega \<Rightarrow> rip_ega" where
  "draw_label gl st r label hotkey font sz s =
     (if label = [] then s
      else
        let tw = rip_text_width gl font sz label s;
            ch = rip_text_cell_height font sz;
            (tx, ty) = label_pos st r tw ch;
            s1 = (if has_flag st 5
                  then fst (rip_text_draw gl s font False sz (tx + 1) (ty + 1) label (bs_dback st)) else s);
            s2 = fst (rip_text_draw gl s1 font False sz tx ty label (bs_dfore st))
        in case hotkey_index label hotkey of
             None \<Rightarrow> s2
           | Some hk \<Rightarrow> draw_hotkey gl st font sz tx ty label s2 hk)"

definition draw_bevel :: "rip_button_style \<Rightarrow> rect \<Rightarrow> rip_ega \<Rightarrow> rip_ega" where
  "draw_bevel st r s =
     (if has_flag st 9 \<and> bs_bevsize st > 0 then
        foldl (\<lambda>s i. bevel_ring s (grow_rect i r) (bs_bright st) (bs_dark st) (bs_corner_col st)) s
          (rev [1..bs_bevsize st])
      else s)"

definition rip_button_draw ::
  "glyphs \<Rightarrow> rip_ega \<Rightarrow> rip_button_style \<Rightarrow> rect \<Rightarrow> byte list \<Rightarrow> int \<Rightarrow> int \<Rightarrow> int \<Rightarrow> bool \<times> rip_ega" where
  "rip_button_draw gl s st r0 label hotkey font sz =
     (if \<not> rip_button_style_drawable st then (False, s)
      else
        case base_rect st r0 of (x0, y0, x1, y1) \<Rightarrow>
          let s1 = rip_ega_bar s x0 y0 x1 y1 1 (bs_surface st);
              s2 = draw_bevel st (x0, y0, x1, y1) s1
          in (True, draw_label gl st (x0, y0, x1, y1) label hotkey font sz s2))"

end
