(* ===== verification/RipParser.thy ===== *)
theory RipParser
  imports RipText
begin

section \<open>RIPscrip: the wire parser (rip\_parser.c)\<close>

text \<open>
  Lines from the wire, the commands on a line, and their execution on the surface. The loop of
  \<open>rip_run_line\<close> reads nothing of the parser while it takes a command apart, so it is modelled as
  \<open>parse_line\<close>, which gives the commands in order, and \<open>run_action\<close>, which carries each out.
  Font tables, the mathematical library and the allocator are the argument \<open>rip_env\<close>.
\<close>

record rip_env =
  rv_curves :: curves
  rv_glyphs :: glyphs
  rv_mem :: "nat \<Rightarrow> bool"

subsection \<open>Numbers\<close>

definition megadigit :: "byte \<Rightarrow> int option" where
  "megadigit c =
     (if 0x30 \<le> c \<and> c \<le> 0x39 then Some (uint c - 48)
      else if 0x41 \<le> c \<and> c \<le> 0x5A then Some (uint c - 65 + 10)
      else if 0x61 \<le> c \<and> c \<le> 0x7A then Some (uint c - 97 + 10)
      else None)"

fun meganum_loop :: "int \<Rightarrow> byte list \<Rightarrow> int" where
  "meganum_loop v [] = v"
| "meganum_loop v (c # cs) =
     (case megadigit c of None \<Rightarrow> -1 | Some d \<Rightarrow> meganum_loop (wrap32 (v * 36 + d)) cs)"

text \<open>The caller has checked that \<open>width\<close> characters are there.\<close>

definition rip_meganum :: "byte list \<Rightarrow> nat \<Rightarrow> int" where
  "rip_meganum s width = (if width = 0 then -1 else meganum_loop 0 (take width s))"

subsection \<open>The commands\<close>

definition rip_cmds :: "(string \<times> byte \<times> string) list" where
  "rip_cmds =
    [('''', 0x77, ''222211''), ('''', 0x76, ''2222''), ('''', 0x2A, ''''), ('''', 0x65, ''''),
     ('''', 0x45, ''''), ('''', 0x67, ''22''), ('''', 0x48, ''''), ('''', 0x3E, ''''),
     ('''', 0x63, ''2''), ('''', 0x51, ''2222222222222222''), ('''', 0x61, ''22''), ('''', 0x57, ''2''),
     ('''', 0x6D, ''22''), ('''', 0x54, ''T''), ('''', 0x40, ''22T''), ('''', 0x59, ''2222''),
     ('''', 0x58, ''22''), ('''', 0x4C, ''2222''), ('''', 0x52, ''2222''), ('''', 0x42, ''2222''),
     ('''', 0x43, ''222''), ('''', 0x4F, ''222222''), ('''', 0x6F, ''2222''), ('''', 0x41, ''22222''),
     ('''', 0x56, ''222222''), ('''', 0x49, ''22222''), ('''', 0x69, ''222222''), ('''', 0x5A, ''222222222''),
     ('''', 0x50, ''V''), ('''', 0x70, ''V''), ('''', 0x6C, ''V''), ('''', 0x46, ''222''),
     ('''', 0x3D, ''242''), ('''', 0x53, ''22''), ('''', 0x73, ''222222222''), ('''', 0x23, ''''),
     (''1'', 0x4D, ''22222115T''), (''1'', 0x4B, ''''), (''1'', 0x54, ''22222''), (''1'', 0x74, ''1T''),
     (''1'', 0x45, ''''), (''1'', 0x43, ''22221''), (''1'', 0x50, ''2221''), (''1'', 0x57, ''1T''),
     (''1'', 0x49, ''22212T''), (''1'', 0x42, ''222422222222226''), (''1'', 0x55, ''2222211T''), (''1'', 0x44, ''32T''),
     (''1'', 0x47, ''222222''), (''1'', 0x52, ''8T''), (''1'', 0x46, ''24T''), (''1'', 0x1B, ''13T''),
     (''9'', 0x1B, ''1124'')]"

definition rip_find_cmd :: "byte list \<Rightarrow> byte \<Rightarrow> string option" where
  "rip_find_cmd level cmd =
     (case find (\<lambda>(l, c, g). c = cmd \<and> asc l = level) rip_cmds of
        None \<Rightarrow> None | Some (l, c, g) \<Rightarrow> Some g)"

definition rip_line_max :: nat where "rip_line_max = 8192"

subsection \<open>Taking a line apart\<close>

definition is_escaped :: "byte \<Rightarrow> bool" where
  "is_escaped n \<longleftrightarrow> n = 0x7C \<or> n = 0x21 \<or> n = 0x5C"

definition text_put :: "nat \<Rightarrow> byte list \<Rightarrow> byte \<Rightarrow> byte list" where
  "text_put outsz acc c = (if length acc < outsz - 1 then acc @ [c] else acc)"

fun rip_take_text :: "nat \<Rightarrow> byte list \<Rightarrow> byte list \<Rightarrow> byte list \<times> byte list" where
  "rip_take_text outsz acc [] = (acc, [])"
| "rip_take_text outsz acc [c] = (if c = 0x7C then (acc, [c]) else (text_put outsz acc c, []))"
| "rip_take_text outsz acc (c # n # s) =
     (if c = 0x5C \<and> is_escaped n then rip_take_text outsz (text_put outsz acc n) s
      else if c = 0x7C then (acc, c # n # s)
      else rip_take_text outsz (text_put outsz acc c) (n # s))"

fun rip_skip_unknown :: "byte list \<Rightarrow> byte list" where
  "rip_skip_unknown [] = []"
| "rip_skip_unknown [c] = (if c = 0x7C then [c] else [])"
| "rip_skip_unknown (c # n # s) =
     (if c = 0x5C then rip_skip_unknown s
      else if c = 0x7C then c # n # s
      else rip_skip_unknown (n # s))"

text \<open>The points of a \<open>V\<close> argument: \<open>None\<close> where the code sets \<open>bad\<close>; and what is left of the line.\<close>

fun take_coords :: "nat \<Rightarrow> byte list \<Rightarrow> int list option \<times> byte list" where
  "take_coords 0 s = (Some [], s)"
| "take_coords (Suc k) s =
     (let v = rip_meganum s 2 in
      if v < 0 then (None, s)
      else case take_coords k (drop 2 s) of
             (None, r) \<Rightarrow> (None, r)
           | (Some vs, r) \<Rightarrow> (Some (v # vs), r))"

fun pair_up :: "int list \<Rightarrow> (int \<times> int) list" where
  "pair_up (x # y # vs) = (x, y) # pair_up vs"
| "pair_up _ = []"

definition take_points :: "(nat \<Rightarrow> bool) \<Rightarrow> byte list \<Rightarrow> (int \<times> int) list option \<times> byte list" where
  "take_points mem_ok s =
     (let n0 = (if length s \<ge> 2 then rip_meganum s 2 else -1) in
      if n0 < 0 then (None, s)
      else
        let s1 = drop 2 s; n = nat (if n0 > 512 then 512 else n0) in
        if length s1 < n * 4 then (None, s1)
        else if \<not> mem_ok (n * 2) then (None, s1)
        else case take_coords (n * 2) s1 of
               (None, r) \<Rightarrow> (None, r)
             | (Some vs, r) \<Rightarrow> (Some (pair_up vs), r))"

text \<open>Whether the command is bad, its numbers, points and text, and what is left of the line.\<close>

fun take_args ::
  "(nat \<Rightarrow> bool) \<Rightarrow> string \<Rightarrow> byte list \<Rightarrow> int list \<Rightarrow> bool \<times> int list \<times> (int \<times> int) list \<times> byte list \<times> byte list" where
  "take_args mem_ok [] s a = (False, a, [], [], s)"
| "take_args mem_ok (g # gs) s a =
     (if g = CHR ''T'' then (case rip_take_text rip_line_max [] s of (t, r) \<Rightarrow> (False, a, [], cstr t, r))
      else if g = CHR ''V'' then
        (case take_points mem_ok s of
           (None, r) \<Rightarrow> (True, a, [], [], r)
         | (Some pts, r) \<Rightarrow> (False, a, pts, [], r))
      else
        let width = of_char g - (48 :: int) in
        if width < 1 \<or> width > 9 then (True, a, [], [], s)
        else if length s < nat width then (True, a, [], [], s)
        else
          let v = rip_meganum s (nat width) in
          if v < 0 then (True, a, [], [], s)
          else take_args mem_ok gs (drop (nat width) s) (if length a < 32 then a @ [v] else a))"

datatype rip_action =
    NoCommand
  | Unknown
  | Malformed
  | Exec "byte list" byte "int list" "(int \<times> int) list" "byte list"

lemma rip_take_text_length: "length (snd (rip_take_text n acc s)) \<le> length s"
  by (induction n acc s rule: rip_take_text.induct) auto

lemma rip_skip_length: "length (rip_skip_unknown s) \<le> length s"
  by (induction s rule: rip_skip_unknown.induct) auto

lemma take_coords_length: "length (snd (take_coords k s)) \<le> length s"
proof (induction k arbitrary: s)
  case (Suc k)
  from Suc [of "drop 2 s"] show ?case by (auto simp: Let_def split: prod.split option.split)
qed simp

lemma take_points_length: "length (snd (take_points m s)) \<le> length s"
  using take_coords_length [of "nat (if rip_meganum s 2 > 512 then 512 else rip_meganum s 2) * 2" "drop 2 s"]
  by (auto simp: take_points_def Let_def split: prod.splits option.splits)

lemma take_args_length: "length (snd (snd (snd (snd (take_args m gs s a))))) \<le> length s"
proof (induction gs arbitrary: s a)
  case (Cons g gs)
  have IH: "length (snd (snd (snd (snd (take_args m gs (drop k s) b))))) \<le> length s" for k b
    using Cons [of "drop k s" b] by simp
  show ?case
    using rip_take_text_length [of rip_line_max "[]" s] take_points_length [of m s] IH
    by (auto simp: Let_def split: prod.splits option.splits)
qed simp

function parse_line :: "(nat \<Rightarrow> bool) \<Rightarrow> byte list \<Rightarrow> rip_action list" where
  "parse_line mem_ok [] = []"
| "parse_line mem_ok (c # s) =
     (if c \<noteq> 0x7C then parse_line mem_ok s
      else if s = [] then []
      else
        let level = (if 0x31 \<le> hd s \<and> hd s \<le> 0x39 then takeWhile is_digit (take 9 s) else []);
            s1 = drop (length level) s
        in if s1 = [] then [NoCommand]
           else
             let cmd = hd s1; s2 = tl s1 in
             case rip_find_cmd level cmd of
               None \<Rightarrow> Unknown # parse_line mem_ok (rip_skip_unknown s2)
             | Some args \<Rightarrow>
                 (case take_args mem_ok args s2 [] of
                    (bad, a, pts, tx, r) \<Rightarrow>
                      if bad then Malformed # parse_line mem_ok (rip_skip_unknown (rip_skip_unknown r))
                      else Exec level cmd a pts tx # parse_line mem_ok (rip_skip_unknown r)))"
  by pat_completeness auto

lemma skip_twice_length: "length (rip_skip_unknown (rip_skip_unknown s)) \<le> length s"
  using rip_skip_length [of s] rip_skip_length [of "rip_skip_unknown s"] by linarith

lemma tl_drop_length: "length (tl (drop k s)) \<le> length s"
  by simp

lemma take_args_rest: "(bad, a, pts, t, r) = take_args m g (tl (drop k s)) [] \<Longrightarrow> length r \<le> length s"
proof -
  assume e: "(bad, a, pts, t, r) = take_args m g (tl (drop k s)) []"
  have "length r \<le> length (tl (drop k s))"
    using take_args_length [of m g "tl (drop k s)" "[]"] unfolding e [symmetric] by (simp only: snd_conv)
  then show ?thesis using tl_drop_length [of k s] by (rule le_trans)
qed

termination parse_line
proof (relation "measure (\<lambda>(m, s). length s)", goal_cases)
  case (3 m c s level s1 cmd s2)
  then show ?case
    using order_trans [OF rip_skip_length tl_drop_length, of "length level" s] by (simp only: in_measure prod.case list.size)
next
  case (4 m c s level s1 cmd s2 args bad y a z pts u tx r)
  then have "length r \<le> length s" by (intro take_args_rest [of bad a pts tx r m args "length level" s]) simp
  then show ?case using skip_twice_length [of r] by simp
next
  case (5 m c s level s1 cmd s2 args bad y a z pts u tx r)
  then have "length r \<le> length s" by (intro take_args_rest [of bad a pts tx r m args "length level" s]) simp
  then show ?case using rip_skip_length [of r] by simp
qed simp_all

declare parse_line.simps [simp del]

end
