(* ===== verification/RipExec.thy ===== *)
theory RipExec
  imports RipParser
begin

section \<open>RIPscrip: execution of commands, regions, line assembly (rip\_parser.c)\<close>

text \<open>
  The state of the parser, what each command does to it, the table of clickable regions, and the
  feed of bytes that assembles lines. \<open>rip_exec\<close> is divided by the groups of its switch. A command
  gives whether it changed pixels, and the parser.
\<close>

subsection \<open>State\<close>

record rip_button =
  rb_rect :: rect
  rb_image :: rect
  rb_hotkey :: int
  rb_flags :: int
  rb_invert :: bool
  rb_label :: "byte list"
  rb_command :: "byte list"

record rip_stats =
  st_commands :: u32
  st_drawn :: u32
  st_text_cmds :: u32
  st_font_cmds :: u32
  st_arc_cmds :: u32
  st_bezier_cmds :: u32
  st_flood_cmds :: u32
  st_level1_cmds :: u32
  st_region_cmds :: u32
  st_button_cmds :: u32
  st_button_undrawn :: u32
  st_download_blocked :: u32
  st_tty_cmds :: u32
  st_unknown_cmds :: u32
  st_raw_text_lines :: u32
  st_unsup_fill_pat :: u32
  st_unsup_line_style :: u32
  st_malformed :: u32

record rip_parser =
  rp_surf :: rip_ega
  rp_draw_color :: int
  rp_fill_pattern :: int
  rp_fill_color :: int
  rp_line_style :: int
  rp_line_thick :: int
  rp_font :: int
  rp_vert :: bool
  rp_font_size :: int
  rp_cur_x :: int
  rp_cur_y :: int
  rp_line :: "byte list"
  rp_at_line_start :: bool
  rp_continued :: bool
  rp_last_was_cr :: bool
  rp_buttons :: "rip_button list"
  rp_btn_style :: rip_button_style
  rp_stats :: rip_stats

definition count :: "(rip_stats \<Rightarrow> rip_stats) \<Rightarrow> rip_parser \<Rightarrow> rip_parser" where
  "count f p = p\<lparr>rp_stats := f (rp_stats p)\<rparr>"

definition malformed :: "rip_parser \<Rightarrow> bool \<times> rip_parser" where
  "malformed p = (False, count (st_malformed_update (\<lambda>n. n + 1)) p)"

definition rip_parser_reset :: "rip_parser \<Rightarrow> rip_parser" where
  "rip_parser_reset p =
     p\<lparr>rp_draw_color := 15, rp_fill_pattern := 1, rp_fill_color := 15, rp_line_style := 0, rp_line_thick := 1,
       rp_font := 0, rp_vert := False, rp_font_size := 1, rp_cur_x := 0, rp_cur_y := 0, rp_buttons := [],
       rp_btn_style := rip_button_style_default, rp_surf := rip_ega_reset (rp_surf p)\<rparr>"

definition rip_stats_deferred :: "rip_stats \<Rightarrow> u32" where
  "rip_stats_deferred st =
     st_level1_cmds st + st_bezier_cmds st + st_flood_cmds st + st_tty_cmds st + st_button_undrawn st +
     st_download_blocked st"

definition rip_stats_zero :: rip_stats where
  "rip_stats_zero =
     \<lparr>st_commands = 0, st_drawn = 0, st_text_cmds = 0, st_font_cmds = 0, st_arc_cmds = 0, st_bezier_cmds = 0,
      st_flood_cmds = 0, st_level1_cmds = 0, st_region_cmds = 0, st_button_cmds = 0, st_button_undrawn = 0,
      st_download_blocked = 0, st_tty_cmds = 0, st_unknown_cmds = 0, st_raw_text_lines = 0, st_unsup_fill_pat = 0,
      st_unsup_line_style = 0, st_malformed = 0\<rparr>"

definition rip_parser_init :: "rip_ega \<Rightarrow> rip_parser" where
  "rip_parser_init surf =
     rip_parser_reset
       \<lparr>rp_surf = surf, rp_draw_color = 0, rp_fill_pattern = 0, rp_fill_color = 0, rp_line_style = 0,
        rp_line_thick = 0, rp_font = 0, rp_vert = False, rp_font_size = 0, rp_cur_x = 0, rp_cur_y = 0,
        rp_line = [], rp_at_line_start = True, rp_continued = False, rp_last_was_cr = False, rp_buttons = [],
        rp_btn_style = rip_button_style_default, rp_stats = rip_stats_zero\<rparr>"

subsection \<open>Regions\<close>

definition rip_command_is_download :: "byte list \<Rightarrow> bool" where
  "rip_command_is_download cmd \<longleftrightarrow> take 4 cmd = asc ''RGET''"

fun rip_expand_caret :: "nat \<Rightarrow> byte list \<Rightarrow> byte list \<Rightarrow> byte list" where
  "rip_expand_caret cap acc [] = acc"
| "rip_expand_caret cap acc [c] = (if length acc + 1 < cap then acc @ [c] else acc)"
| "rip_expand_caret cap acc (c # n # s) =
     (if \<not> length acc + 1 < cap then acc
      else if c = 0x5E then
        (if n = 0x5E then rip_expand_caret cap (acc @ [0x5E]) s
         else rip_expand_caret cap (acc @ [(if 0x61 \<le> n \<and> n \<le> 0x7A then n - 32 else n) AND 0x1F]) s)
      else rip_expand_caret cap (acc @ [c]) (n # s))"

definition rip_copy_field :: "nat \<Rightarrow> byte list \<Rightarrow> byte list" where
  "rip_copy_field cap src = take (cap - 1) src"

text \<open>Up to the first \<open><>\<close>, and what follows it.\<close>

fun cut_field :: "byte list \<Rightarrow> byte list \<times> byte list option" where
  "cut_field (c # n # s) =
     (if c = 0x3C \<and> n = 0x3E then ([], Some s)
      else case cut_field (n # s) of (a, r) \<Rightarrow> (c # a, r))"
| "cut_field s = (s, None)"

definition rip_split3 :: "byte list \<Rightarrow> byte list \<times> byte list \<times> byte list" where
  "rip_split3 s =
     (case cut_field s of
        (a, None) \<Rightarrow> (a, [], [])
      | (a, Some r) \<Rightarrow> (case cut_field r of
          (b, None) \<Rightarrow> (a, b, [])
        | (b, Some c) \<Rightarrow> (a, b, c)))"

definition norm_rect :: "rect \<Rightarrow> rect" where
  "norm_rect r =
     (case r of (ax0, ay0, ax1, ay1) \<Rightarrow>
        let (x0, x1) = (if ax1 < ax0 then (ax1, ax0) else (ax0, ax1));
            (y0, y1) = (if ay1 < ay0 then (ay1, ay0) else (ay0, ay1))
        in (x0, y0, x1, y1))"

definition rip_add_region :: "rip_parser \<Rightarrow> rip_button \<Rightarrow> rip_parser" where
  "rip_add_region p b =
     (if length (rp_buttons p) \<ge> 64 then p
      else if rb_command b = [] then p
      else p\<lparr>rp_buttons := rp_buttons p @ [b\<lparr>rb_rect := norm_rect (rb_rect b), rb_image := norm_rect (rb_image b)\<rparr>]\<rparr>)"

definition in_rect :: "rect \<Rightarrow> int \<Rightarrow> int \<Rightarrow> bool" where
  "in_rect r x y = (case r of (x0, y0, x1, y1) \<Rightarrow> x \<ge> x0 \<and> x \<le> x1 \<and> y \<ge> y0 \<and> y \<le> y1)"

text \<open>The loop down from region \<open>i - 1\<close>.\<close>

fun button_at_loop :: "rip_button list \<Rightarrow> int \<Rightarrow> int \<Rightarrow> nat \<Rightarrow> int" where
  "button_at_loop bs x y 0 = -1"
| "button_at_loop bs x y (Suc i) =
     (if in_rect (rb_rect (bs ! i)) x y then int i else button_at_loop bs x y i)"

definition rip_button_at :: "rip_parser \<Rightarrow> int \<Rightarrow> int \<Rightarrow> int" where
  "rip_button_at p x y = button_at_loop (rp_buttons p) x y (length (rp_buttons p))"

fun hotkey_loop :: "rip_button list \<Rightarrow> int \<Rightarrow> nat \<Rightarrow> int" where
  "hotkey_loop [] ascii i = -1"
| "hotkey_loop (b # bs) ascii i =
     (if rb_hotkey b \<noteq> 0 \<and> lower_up (rb_hotkey b) = lower_up ascii then int i else hotkey_loop bs ascii (Suc i))"

definition rip_button_by_hotkey :: "rip_parser \<Rightarrow> int \<Rightarrow> int" where
  "rip_button_by_hotkey p ascii = (if ascii = 0 then -1 else hotkey_loop (rp_buttons p) ascii 0)"

subsection \<open>Level 1\<close>

definition exec_button_style :: "rip_parser \<Rightarrow> int list \<Rightarrow> bool \<times> rip_parser" where
  "exec_button_style p a =
     (if length a < 14 then malformed p
      else (False, p\<lparr>rp_btn_style :=
        \<lparr>bs_wid = a ! 0, bs_hgt = a ! 1, bs_orient = a ! 2, bs_flags = a ! 3, bs_bevsize = a ! 4,
         bs_dfore = a ! 5 AND 0x0F, bs_dback = a ! 6 AND 0x0F, bs_bright = a ! 7 AND 0x0F,
         bs_dark = a ! 8 AND 0x0F, bs_surface = a ! 9 AND 0x0F, bs_grp_no = a ! 10, bs_flags2 = a ! 11,
         bs_uline_col = a ! 12 AND 0x0F, bs_corner_col = a ! 13 AND 0x0F\<rparr>\<rparr>))"

definition exec_button :: "rip_env \<Rightarrow> rip_parser \<Rightarrow> int list \<Rightarrow> byte list \<Rightarrow> bool \<times> rip_parser" where
  "exec_button ev p a tx =
     (if length a < 7 then malformed p
      else
        let r = (a ! 0, a ! 1, a ! 2, a ! 3);
            st = rp_btn_style p;
            (icon, label1, raw1) = rip_split3 tx;
            label = rip_copy_field 48 label1;
            raw = rip_copy_field 48 raw1;
            (drew, s) = rip_button_draw (rv_glyphs ev) (rp_surf p) st r label (a ! 4) (rp_font p) (rp_font_size p);
            b = \<lparr>rb_rect = rip_button_outer_rect st r, rb_image = rip_button_image_rect st r, rb_hotkey = a ! 4,
                 rb_flags = a ! 5, rb_invert = (has_flag st 1 \<and> has_flag st 10), rb_label = label,
                 rb_command = cstr (rip_expand_caret 48 [] raw)\<rparr>;
            p1 = rip_add_region (p\<lparr>rp_surf := s\<rparr>) b
        in (drew,
            if drew then count (st_button_cmds_update (\<lambda>n. n + 1)) p1
            else count (st_button_undrawn_update (\<lambda>n. n + 1)) p1))"

definition exec_mouse :: "rip_parser \<Rightarrow> int list \<Rightarrow> byte list \<Rightarrow> bool \<times> rip_parser" where
  "exec_mouse p a tx =
     (if length a < 7 then malformed p
      else
        let r = (a ! 1, a ! 2, a ! 3, a ! 4);
            b = \<lparr>rb_rect = r, rb_image = r, rb_hotkey = 0, rb_flags = 0, rb_invert = (a ! 5 \<noteq> 0), rb_label = [],
                 rb_command = cstr (rip_expand_caret 48 [] tx)\<rparr>
        in (False, count (st_region_cmds_update (\<lambda>n. n + 1)) (rip_add_region p b)))"

definition ch :: "char \<Rightarrow> byte" where "ch c = of_char c"

definition rip_exec_level1 :: "rip_env \<Rightarrow> rip_parser \<Rightarrow> byte \<Rightarrow> int list \<Rightarrow> byte list \<Rightarrow> bool \<times> rip_parser" where
  "rip_exec_level1 ev p cmd a tx =
     (if cmd = ch CHR ''B'' then exec_button_style p a
      else if cmd = ch CHR ''U'' then exec_button ev p a tx
      else if cmd = ch CHR ''M'' then exec_mouse p a tx
      else if cmd = ch CHR ''K'' then
        (False, count (st_region_cmds_update (\<lambda>n. n + 1)) (p\<lparr>rp_buttons := []\<rparr>))
      else (False, count (st_level1_cmds_update (\<lambda>n. n + 1)) p))"

subsection \<open>Level 0\<close>

definition on_surf :: "rip_parser \<Rightarrow> rip_ega \<Rightarrow> bool \<times> rip_parser" where
  "on_surf p s = (True, p\<lparr>rp_surf := s\<rparr>)"

text \<open>A command that needs \<open>n\<close> numbers.\<close>

definition needs :: "nat \<Rightarrow> rip_parser \<Rightarrow> int list \<Rightarrow> bool \<times> rip_parser \<Rightarrow> bool \<times> rip_parser" where
  "needs n p a r = (if length a < n then malformed p else r)"

definition exec_state :: "rip_parser \<Rightarrow> byte \<Rightarrow> int list \<Rightarrow> bool \<times> rip_parser" where
  "exec_state p cmd a =
     (if cmd = ch CHR ''*'' then (True, rip_parser_reset p)
      else if cmd = ch CHR ''E'' then on_surf p (rip_ega_erase_view (rp_surf p))
      else if cmd = ch CHR ''v'' then
        needs 4 p a (False, p\<lparr>rp_surf := rip_ega_set_viewport (rp_surf p) (a ! 0) (a ! 1) (a ! 2) (a ! 3)\<rparr>)
      else needs 1 p a (False, p\<lparr>rp_surf := (rp_surf p)\<lparr>eg_xor := (a ! 0 = 1)\<rparr>\<rparr>))"

definition exec_style :: "rip_parser \<Rightarrow> byte \<Rightarrow> int list \<Rightarrow> bool \<times> rip_parser" where
  "exec_style p cmd a =
     (if cmd = ch CHR ''c'' then needs 1 p a (False, p\<lparr>rp_draw_color := a ! 0 AND 0x0F\<rparr>)
      else if cmd = ch CHR ''S'' then
        needs 2 p a
          (let p1 = p\<lparr>rp_fill_pattern := a ! 0, rp_fill_color := a ! 1 AND 0x0F\<rparr>
           in (False, if a ! 0 \<ge> 2 \<and> a ! 0 \<le> 11 then count (st_unsup_fill_pat_update (\<lambda>n. n + 1)) p1 else p1))
      else if cmd = ch CHR ''='' then
        needs 3 p a
          (let p1 = p\<lparr>rp_line_style := a ! 0, rp_line_thick := a ! 2\<rparr>
           in (False, if a ! 0 \<noteq> 0 then count (st_unsup_line_style_update (\<lambda>n. n + 1)) p1 else p1))
      else if cmd = ch CHR ''Q'' then
        needs 16 p a
          (on_surf p (rip_ega_set_palette16 (rp_surf p) (map (\<lambda>v. word_of_int (v AND 0x3F)) (take 16 a))))
      else needs 2 p a (on_surf p (rip_ega_set_one_palette (rp_surf p) (a ! 0) (a ! 1))))"

definition exec_primitive ::
  "rip_env \<Rightarrow> rip_parser \<Rightarrow> byte \<Rightarrow> int list \<Rightarrow> (int \<times> int) list \<Rightarrow> bool \<times> rip_parser" where
  "exec_primitive ev p cmd a pts =
     (let s = rp_surf p in
      if cmd = ch CHR ''X'' then needs 2 p a (on_surf p (rip_ega_pixel (rp_draw_color p) s (a ! 0, a ! 1)))
      else if cmd = ch CHR ''L'' then
        needs 4 p a (on_surf p (rip_ega_line s (a ! 0) (a ! 1) (a ! 2) (a ! 3) (rp_draw_color p) (rp_line_thick p)))
      else if cmd = ch CHR ''R'' then
        needs 4 p a (on_surf p (rip_ega_rect s (a ! 0) (a ! 1) (a ! 2) (a ! 3) (rp_draw_color p) (rp_line_thick p)))
      else if cmd = ch CHR ''B'' then
        needs 4 p a (on_surf p (rip_ega_bar s (a ! 0) (a ! 1) (a ! 2) (a ! 3) (rp_fill_pattern p) (rp_fill_color p)))
      else if length pts < 2 then malformed p
      else if cmd = ch CHR ''P'' then on_surf p (rip_ega_polygon s pts (rp_draw_color p) (rp_line_thick p))
      else if cmd = ch CHR ''p'' then
        on_surf p (rip_ega_polygon (rip_ega_fill_polygon (rv_mem ev) s pts (rp_fill_pattern p) (rp_fill_color p))
          pts (rp_draw_color p) (rp_line_thick p))
      else on_surf p (rip_ega_polyline s pts (rp_draw_color p) (rp_line_thick p)))"

text \<open>Text at the drawing position, which moves past it.\<close>

definition text_at_cursor :: "rip_env \<Rightarrow> rip_parser \<Rightarrow> byte list \<Rightarrow> bool \<times> rip_parser" where
  "text_at_cursor ev p tx =
     (case rip_text_draw (rv_glyphs ev) (rp_surf p) (rp_font p) (rp_vert p) (rp_font_size p) (rp_cur_x p) (rp_cur_y p)
             tx (rp_draw_color p) of
        (s, adv) \<Rightarrow>
          (True, count (st_text_cmds_update (\<lambda>n. n + 1))
             (if rp_vert p then p\<lparr>rp_surf := s, rp_cur_y := wrap32 (rp_cur_y p - adv)\<rparr>
              else p\<lparr>rp_surf := s, rp_cur_x := wrap32 (rp_cur_x p + adv)\<rparr>)))"

definition exec_text :: "rip_env \<Rightarrow> rip_parser \<Rightarrow> byte \<Rightarrow> int list \<Rightarrow> byte list \<Rightarrow> bool \<times> rip_parser" where
  "exec_text ev p cmd a tx =
     (if cmd = ch CHR ''Y'' then
        needs 3 p a
          (let font = (if a ! 0 < 0 \<or> a ! 0 > 10 then 0 else a ! 0);
               sz = (if a ! 2 < 1 then 1 else a ! 2)
           in (False, count (st_font_cmds_update (\<lambda>n. n + 1))
                 (p\<lparr>rp_font := font, rp_vert := (a ! 1 = 1), rp_font_size := (if sz > 10 then 10 else sz)\<rparr>)))
      else if cmd = ch CHR ''T'' then text_at_cursor ev p tx
      else if cmd = ch CHR ''@'' then
        needs 2 p a (text_at_cursor ev (p\<lparr>rp_cur_x := a ! 0, rp_cur_y := a ! 1\<rparr>) tx)
      else needs 2 p a (False, p\<lparr>rp_cur_x := a ! 0, rp_cur_y := a ! 1\<rparr>))"

definition on_curve :: "rip_parser \<Rightarrow> rip_ega \<Rightarrow> bool \<times> rip_parser" where
  "on_curve p s = (True, count (st_arc_cmds_update (\<lambda>n. n + 1)) (p\<lparr>rp_surf := s\<rparr>))"

definition exec_curve :: "rip_env \<Rightarrow> rip_parser \<Rightarrow> byte \<Rightarrow> int list \<Rightarrow> bool \<times> rip_parser" where
  "exec_curve ev p cmd a =
     (let s = rp_surf p; cv = rv_curves ev; c = rp_draw_color p; w = rp_line_thick p;
          fp = rp_fill_pattern p; fc = rp_fill_color p in
      if cmd = ch CHR ''C'' then needs 3 p a (on_curve p (rip_ega_circle cv s (a ! 0) (a ! 1) (a ! 2) c w))
      else if cmd = ch CHR ''O'' \<or> cmd = ch CHR ''V'' then
        needs 6 p a (on_curve p (rip_ega_arc cv s (a ! 0) (a ! 1) (a ! 2) (a ! 3) (a ! 4) (a ! 5) c w))
      else if cmd = ch CHR ''o'' then
        needs 4 p a (on_curve p (rip_ega_ellipse cv
          (rip_ega_fill_ellipse cv s (a ! 0) (a ! 1) (a ! 2) (a ! 3) fp fc) (a ! 0) (a ! 1) (a ! 2) (a ! 3) c w))
      else if cmd = ch CHR ''A'' then
        needs 5 p a (on_curve p (rip_ega_arc cv s (a ! 0) (a ! 1) (a ! 2) (a ! 3) (a ! 4) (rip_ega_aspect_y (a ! 4)) c w))
      else if cmd = ch CHR ''I'' then
        needs 5 p a (on_curve p (rip_ega_pie cv (rv_mem ev) s (a ! 0) (a ! 1) (a ! 2) (a ! 3) (a ! 4)
          (rip_ega_aspect_y (a ! 4)) fp fc c w))
      else needs 6 p a (on_curve p (rip_ega_pie cv (rv_mem ev) s (a ! 0) (a ! 1) (a ! 2) (a ! 3) (a ! 4) (a ! 5) fp fc c w)))"

definition exec_undrawn :: "rip_parser \<Rightarrow> byte \<Rightarrow> bool \<times> rip_parser" where
  "exec_undrawn p cmd =
     (False,
      if cmd = ch CHR ''Z'' then count (st_bezier_cmds_update (\<lambda>n. n + 1)) p
      else if cmd = ch CHR ''F'' then count (st_flood_cmds_update (\<lambda>n. n + 1)) p
      else if cmd \<in> set (map ch ''wegH>#'') then count (st_tty_cmds_update (\<lambda>n. n + 1)) p
      else if cmd = ch CHR ''s'' then count (st_unsup_fill_pat_update (\<lambda>n. n + 1)) p
      else count (st_unknown_cmds_update (\<lambda>n. n + 1)) p)"

definition rip_exec ::
  "rip_env \<Rightarrow> rip_parser \<Rightarrow> byte list \<Rightarrow> byte \<Rightarrow> int list \<Rightarrow> (int \<times> int) list \<Rightarrow> byte list \<Rightarrow> bool \<times> rip_parser" where
  "rip_exec ev p level cmd a pts tx =
     (if level \<noteq> [] \<and> hd level = 0x31 then rip_exec_level1 ev p cmd a tx
      else if level \<noteq> [] \<and> hd level = 0x39 then (False, count (st_level1_cmds_update (\<lambda>n. n + 1)) p)
      else if cmd \<in> set (map ch ''*EvW'') then exec_state p cmd a
      else if cmd \<in> set (map ch ''cS=Qa'') then exec_style p cmd a
      else if cmd \<in> set (map ch ''XLRBPpl'') then exec_primitive ev p cmd a pts
      else if cmd \<in> set (map ch ''YT@m'') then exec_text ev p cmd a tx
      else if cmd \<in> set (map ch ''COoAVIi'') then exec_curve ev p cmd a
      else exec_undrawn p cmd)"

subsection \<open>Lines\<close>

definition run_action :: "rip_env \<Rightarrow> bool \<times> rip_parser \<Rightarrow> rip_action \<Rightarrow> bool \<times> rip_parser" where
  "run_action ev dp act =
     (case dp of (drew, p) \<Rightarrow>
        (case act of
           NoCommand \<Rightarrow> (drew, count (st_malformed_update (\<lambda>n. n + 1)) p)
         | Unknown \<Rightarrow>
             (drew, count (st_unknown_cmds_update (\<lambda>n. n + 1)) (count (st_commands_update (\<lambda>n. n + 1)) p))
         | Malformed \<Rightarrow>
             (drew, count (st_malformed_update (\<lambda>n. n + 1)) (count (st_commands_update (\<lambda>n. n + 1)) p))
         | Exec level cmd a pts tx \<Rightarrow>
             (case rip_exec ev (count (st_commands_update (\<lambda>n. n + 1)) p) level cmd a pts tx of
                (True, p1) \<Rightarrow> (True, count (st_drawn_update (\<lambda>n. n + 1)) p1)
              | (False, p1) \<Rightarrow> (drew, p1))))"

definition rip_run_line :: "rip_env \<Rightarrow> rip_parser \<Rightarrow> byte list \<Rightarrow> bool \<times> rip_parser" where
  "rip_run_line ev p body = foldl (run_action ev) (False, p) (parse_line (rv_mem ev) body)"

text \<open>From the bar after the first Ctrl-A or Ctrl-B that has one.\<close>

fun find_soh :: "byte list \<Rightarrow> byte list option" where
  "find_soh (c # n # s) = (if (c = 1 \<or> c = 2) \<and> n = 0x7C then Some (n # s) else find_soh (n # s))"
| "find_soh _ = None"

definition rip_handle_line :: "rip_env \<Rightarrow> rip_parser \<Rightarrow> byte list \<Rightarrow> bool \<times> rip_parser" where
  "rip_handle_line ev p line =
     (if length line \<ge> 2 \<and> line ! 0 = 0x21 \<and> line ! 1 = 0x7C then rip_run_line ev p (drop 1 line)
      else case find_soh line of
             Some body \<Rightarrow> rip_run_line ev p body
           | None \<Rightarrow>
               (False, if line \<noteq> [] then count (st_raw_text_lines_update (\<lambda>n. n + 1)) p else p))"

definition rip_trailing_backslashes :: "byte list \<Rightarrow> nat" where
  "rip_trailing_backslashes line = length (takeWhile (\<lambda>c. c = 0x5C) (rev line))"

definition rip_feed_byte :: "rip_env \<Rightarrow> bool \<times> rip_parser \<Rightarrow> byte \<Rightarrow> bool \<times> rip_parser" where
  "rip_feed_byte ev dp c =
     (case dp of (drew, p) \<Rightarrow>
        if c = 0x0D \<or> c = 0x0A then
          (if c = 0x0A \<and> rp_last_was_cr p then (drew, p\<lparr>rp_last_was_cr := False\<rparr>)
           else
             let p1 = p\<lparr>rp_last_was_cr := (c = 0x0D)\<rparr> in
             if rp_line p1 = [] \<and> \<not> rp_continued p1 then (drew, p1)
             else if rip_trailing_backslashes (rp_line p1) mod 2 = 1 then
               (drew, p1\<lparr>rp_line := butlast (rp_line p1), rp_continued := True\<rparr>)
             else
               case rip_handle_line ev p1 (rp_line p1) of
                 (d, p2) \<Rightarrow> (drew \<or> d, p2\<lparr>rp_line := [], rp_continued := False\<rparr>))
        else
          let p1 = p\<lparr>rp_last_was_cr := False\<rparr> in
          if length (rp_line p1) < rip_line_max - 1 then (drew, p1\<lparr>rp_line := rp_line p1 @ [c]\<rparr>)
          else
            case rip_handle_line ev p1 (rp_line p1) of
              (d, p2) \<Rightarrow>
                (drew \<or> d, (count (st_malformed_update (\<lambda>n. n + 1)) p2)\<lparr>rp_line := [], rp_continued := False\<rparr>))"

definition rip_parser_feed :: "rip_env \<Rightarrow> rip_parser \<Rightarrow> byte list \<Rightarrow> bool \<times> rip_parser" where
  "rip_parser_feed ev p bs = foldl (rip_feed_byte ev) (False, p) bs"

end
