(* ===== verification/RipSafe.thy ===== *)
theory RipSafe
  imports RipExec
begin

section \<open>RIPscrip: lines end, drawing clips, a stream writes nothing outside\<close>

text \<open>
  The line loop ends and visits a path of neighbouring points. Every drawing operation changes only
  pixels of the viewport (\<open>draws\<close>, with its rules in \<open>draw_intros\<close>). The parser keeps an invariant
  that makes every write of a stream stay in \<open>pix\<close>, provided no VIEWPORT command has its left edge
  right of the screen; for one that has, the erase that follows writes behind the array.
\<close>

subsection \<open>The line loop ends\<close>

lemma line_loop_end: "line_loop x1 y1 dx dy sx sy c s x1 y1 err = Some (rip_ega_pixel c s (x1, y1))"
  by (subst line_loop.simps) simp

text \<open>
  In coordinates along the line: \<open>i\<close> and \<open>j\<close> are the steps made, \<open>D\<close> and \<open>E\<close> those to make. What the
  loop keeps is \<open>err\<close>; it never steps past the end and always makes a step.
\<close>

definition line_err :: "int \<Rightarrow> int \<Rightarrow> int \<Rightarrow> int \<Rightarrow> int" where
  "line_err D E i j = (j + 1) * D - (i + 1) * E"

lemma line_step_x:
  assumes "2 * line_err D E i j \<ge> - E" "0 \<le> i" "i \<le> D" "0 \<le> j" "j \<le> E" "\<not> (i = D \<and> j = E)"
  shows "i < D"
proof (rule ccontr)
  assume "\<not> i < D"
  then have i: "i = D" "j < E" using assms by auto
  have "(j + 1) * D \<le> E * D" using i assms by (intro mult_right_mono) auto
  then have "line_err D E i j \<le> E * D - (D + 1) * E" using i by (simp add: line_err_def)
  then have "line_err D E i j \<le> - E" by (simp add: algebra_simps)
  then show False using assms(1) i assms(4) by linarith
qed

lemma line_step_y:
  assumes "2 * line_err D E i j \<le> D" "0 \<le> i" "i \<le> D" "0 \<le> j" "j \<le> E" "\<not> (i = D \<and> j = E)"
  shows "j < E"
proof (rule ccontr)
  assume "\<not> j < E"
  then have j: "j = E" "i < D" using assms by auto
  have "(i + 1) * E \<le> D * E" using j assms by (intro mult_right_mono) auto
  then have "line_err D E i j \<ge> (E + 1) * D - D * E" using j by (simp add: line_err_def)
  then have "line_err D E i j \<ge> D" by (simp add: algebra_simps)
  then show False using assms(1) j assms(2) by linarith
qed

text \<open>The points from \<open>(i, j)\<close> on: neighbours, monotone, inside the box, ending at \<open>(D, E)\<close>.\<close>

definition next_to :: "int \<times> int \<Rightarrow> int \<times> int \<Rightarrow> bool" where
  "next_to p q \<longleftrightarrow> p \<noteq> q \<and> fst q - fst p \<in> {0, 1} \<and> snd q - snd p \<in> {0, 1}"

fun chain :: "('a \<Rightarrow> 'a \<Rightarrow> bool) \<Rightarrow> 'a list \<Rightarrow> bool" where
  "chain r (x # y # xs) = (r x y \<and> chain r (y # xs))"
| "chain r _ = True"

lemma toward:
  "x0 + sx * D \<in> {-2147483648..2147483647} \<Longrightarrow> x0 \<in> {-2147483648..2147483647} \<Longrightarrow> sx \<in> {1, -1} \<Longrightarrow> 0 \<le> i \<Longrightarrow> i < D \<Longrightarrow>
    wrap32 (x0 + sx * i + sx) = x0 + sx * (i + 1)"
  for x0 sx D i :: int
  by (auto intro!: wrap32_id)

text \<open>The error term stays within one and a half times the sides, so that nothing wraps.\<close>

definition err_ok :: "int \<Rightarrow> int \<Rightarrow> int \<Rightarrow> bool" where
  "err_ok D E e \<longleftrightarrow> - 3 * E \<le> 2 * e \<and> 2 * e \<le> 3 * D"

lemma err_step:
  assumes "err_ok D E e" "0 \<le> D" "D \<le> 536870912" "0 \<le> E" "E \<le> 536870912"
  shows "wrap32 (2 * e) = 2 * e" "2 * e \<ge> - E \<Longrightarrow> wrap32 (e + - E) = e - E" "2 * e \<ge> - E \<Longrightarrow> 2 * e \<le> D \<Longrightarrow> wrap32 (e - E + D) = e - E + D"
    "2 * e \<le> D \<Longrightarrow> wrap32 (e + D) = e + D"
    "err_ok D E ((if 2 * e \<ge> - E then e - E else e) + (if 2 * e \<le> D then D else 0))"
  using assms by (auto simp: err_ok_def intro!: wrap32_id)

lemma line_loop_path:
  assumes "0 \<le> i" "i \<le> D" "0 \<le> j" "j \<le> E" "sx \<in> {1, -1}" "sy \<in> {1, -1}" "err_ok D E (line_err D E i j)"
    and big: "D \<le> 536870912" "E \<le> 536870912" "x0 \<in> {-2147483648..2147483647}" "x0 + sx * D \<in> {-2147483648..2147483647}"
      "y0 \<in> {-2147483648..2147483647}" "y0 + sy * E \<in> {-2147483648..2147483647}"
  shows "\<exists>path. line_loop (x0 + sx * D) (y0 + sy * E) D (- E) sx sy c s (x0 + sx * i) (y0 + sy * j) (line_err D E i j) =
      Some (foldl (rip_ega_pixel c) s (map (\<lambda>(a, b). (x0 + sx * a, y0 + sy * b)) path)) \<and>
    hd path = (i, j) \<and> last path = (D, E) \<and> path \<noteq> [] \<and> chain next_to path \<and>
    length path \<le> nat (D - i) + nat (E - j) + 1"
  using assms(1-7)
proof (induction "nat (D - i) + nat (E - j)" arbitrary: i j s rule: less_induct)
  case less
  show ?case
  proof (cases "i = D \<and> j = E")
    case True
    then show ?thesis by (intro exI [of _ "[(i, j)]"]) (simp add: line_loop_end)
  next
    case False
    let ?e = "line_err D E i j"
    define i' where "i' = (if 2 * ?e \<ge> - E then i + 1 else i)"
    define j' where "j' = (if 2 * ?e \<le> D then j + 1 else j)"
    have x: "2 * ?e \<ge> - E \<Longrightarrow> i < D" using line_step_x less.prems False by blast
    have y: "2 * ?e \<le> D \<Longrightarrow> j < E" using line_step_y less.prems False by blast
    have some: "2 * ?e \<ge> - E \<or> 2 * ?e \<le> D" using less.prems by linarith
    have b: "0 \<le> i'" "i' \<le> D" "0 \<le> j'" "j' \<le> E" "i \<le> i'" "j \<le> j'"
      using less.prems x y by (auto simp: i'_def j'_def)
    have dec: "nat (D - i') + nat (E - j') < nat (D - i) + nat (E - j)"
      using x y some by (auto simp: i'_def j'_def)
    have nb: "next_to (i, j) (i', j')" using some by (auto simp: next_to_def i'_def j'_def)
    have err: "(if 2 * ?e \<ge> - E then ?e - E else ?e) + (if 2 * ?e \<le> D then D else 0) = line_err D E i' j'"
      by (simp add: line_err_def i'_def j'_def algebra_simps)
    have side: "0 \<le> D" "0 \<le> E" using less.prems(1-4) by simp_all
    note st = err_step [OF less.prems(7) side(1) big(1) side(2) big(2)]
    have err': "err_ok D E (line_err D E i' j')" using st(5) by (simp only: err)
    have to: "2 * ?e \<ge> - E \<Longrightarrow> wrap32 (x0 + sx * i + sx) = x0 + sx * (i + 1)"
      "2 * ?e \<le> D \<Longrightarrow> wrap32 (y0 + sy * j + sy) = y0 + sy * (j + 1)"
      using toward [OF big(4,3) less.prems(5,1)] toward [OF big(6,5) less.prems(6,3)] x y by simp_all
    let ?s1 = "rip_ega_pixel c s (x0 + sx * i, y0 + sy * j)"
    have end1: "\<not> (x0 + sx * i = x0 + sx * D \<and> y0 + sy * j = y0 + sy * E)" using False less.prems(5,6) by auto
    have step: "line_loop (x0 + sx * D) (y0 + sy * E) D (- E) sx sy c s (x0 + sx * i) (y0 + sy * j) ?e =
        line_loop (x0 + sx * D) (y0 + sy * E) D (- E) sx sy c ?s1 (x0 + sx * i') (y0 + sy * j') (line_err D E i' j')"
      unfolding err [symmetric]
      by (subst line_loop.simps) (simp only: Let_def end1 if_False st(1), simp add: i'_def j'_def to st(2-4) [simplified])
    obtain path where p: "line_loop (x0 + sx * D) (y0 + sy * E) D (- E) sx sy c ?s1 (x0 + sx * i') (y0 + sy * j') (line_err D E i' j') =
        Some (foldl (rip_ega_pixel c) ?s1 (map (\<lambda>(a, b). (x0 + sx * a, y0 + sy * b)) path))"
      "hd path = (i', j')" "last path = (D, E)" "path \<noteq> []" "chain next_to path"
      "length path \<le> nat (D - i') + nat (E - j') + 1"
      using less.hyps [OF dec b(1-4) less.prems(5,6) err'] by blast
    have "chain next_to ((i, j) # path)" using p(2,4,5) nb by (cases path) auto
    then show ?thesis using step p dec by (intro exI [of _ "(i, j) # path"]) auto
  qed
qed

lemma chain_next_le:
  "chain next_to path \<Longrightarrow> path \<noteq> [] \<Longrightarrow> (a, b) \<in> set path \<Longrightarrow>
    fst (hd path) \<le> a \<and> a \<le> fst (last path) \<and> snd (hd path) \<le> b \<and> b \<le> snd (last path)"
proof (induction path arbitrary: a b)
  case (Cons x xs)
  show ?case
  proof (cases xs)
    case Nil
    then show ?thesis using Cons.prems by auto
  next
    case ys: (Cons y ys)
    have nxt: "next_to x y" and c: "chain next_to xs" using Cons.prems(1) ys by simp_all
    have n: "fst x \<le> fst y" "snd x \<le> snd y" using nxt by (auto simp: next_to_def)
    have IH: "fst y \<le> a' \<and> a' \<le> fst (last xs) \<and> snd y \<le> b' \<and> b' \<le> snd (last xs)" if "(a', b') \<in> set xs" for a' b'
      using Cons.IH [OF c _ that] ys by simp
    have l: "fst y \<le> fst (last xs)" "snd y \<le> snd (last xs)" using IH [of "fst y" "snd y"] ys by auto
    show ?thesis
    proof (cases "(a, b) = x")
      case True
      then show ?thesis using n(1,2) l ys by auto
    next
      case False
      then have "(a, b) \<in> set xs" using Cons.prems(3) by auto
      then show ?thesis using IH n(1,2) ys by fastforce
    qed
  qed
qed simp

lemma chain_map: "chain r xs \<Longrightarrow> (\<And>x y. r x y \<Longrightarrow> q (f x) (f y)) \<Longrightarrow> chain q (map f xs)"
  by (induction r xs rule: chain.induct) auto

definition adjacent :: "int \<times> int \<Rightarrow> int \<times> int \<Rightarrow> bool" where
  "adjacent p q \<longleftrightarrow> p \<noteq> q \<and> \<bar>fst q - fst p\<bar> \<le> 1 \<and> \<bar>snd q - snd p\<bar> \<le> 1"

definition in_box :: "int \<Rightarrow> int \<Rightarrow> int \<Rightarrow> int \<Rightarrow> int \<times> int \<Rightarrow> bool" where
  "in_box x0 y0 x1 y1 p \<longleftrightarrow>
     min x0 x1 \<le> fst p \<and> fst p \<le> max x0 x1 \<and> min y0 y1 \<le> snd p \<and> snd p \<le> max y0 y1"

definition line_path :: "int \<Rightarrow> int \<Rightarrow> int \<Rightarrow> int \<Rightarrow> (int \<times> int) list \<Rightarrow> bool" where
  "line_path x0 y0 x1 y1 path \<longleftrightarrow>
     path \<noteq> [] \<and> hd path = (x0, y0) \<and> last path = (x1, y1) \<and> chain adjacent path \<and>
     list_all (in_box x0 y0 x1 y1) path \<and> int (length path) \<le> \<bar>x1 - x0\<bar> + \<bar>y1 - y0\<bar> + 1"

lemma line_1px_path:
  assumes "x0 \<in> {-2147483648..2147483647}" "x1 \<in> {-2147483648..2147483647}" "y0 \<in> {-2147483648..2147483647}"
    "y1 \<in> {-2147483648..2147483647}" "\<bar>x1 - x0\<bar> \<le> 536870912" "\<bar>y1 - y0\<bar> \<le> 536870912"
  shows "\<exists>path. ega_line_run s x0 y0 x1 y1 c = Some (foldl (rip_ega_pixel c) s path) \<and> line_path x0 y0 x1 y1 path"
proof -
  define D E sx sy where d: "D = \<bar>x1 - x0\<bar>" "E = \<bar>y1 - y0\<bar>"
    "sx = (if x0 < x1 then 1 else -1 :: int)" "sy = (if y0 < y1 then 1 else -1 :: int)"
  have e: "x0 + sx * D = x1" "y0 + sy * E = y1" "0 \<le> D" "0 \<le> E" "D \<le> 536870912" "E \<le> 536870912" using assms by (simp_all add: d)
  have s: "sx \<in> {1, -1}" "sy \<in> {1, -1}" by (simp_all add: d)
  let ?f = "\<lambda>(a, b). (x0 + sx * a, y0 + sy * b)"
  have err: "err_ok D E (line_err D E 0 0)" using e by (simp add: err_ok_def line_err_def)
  obtain path where p: "line_loop x1 y1 D (- E) sx sy c s x0 y0 (D - E) = Some (foldl (rip_ega_pixel c) s (map ?f path))"
    "hd path = (0, 0)" "last path = (D, E)" "path \<noteq> []" "chain next_to path" "length path \<le> nat D + nat E + 1"
    using line_loop_path [of 0 D 0 E sx sy x0 y0 c s] e s err assms(1-4) by (auto simp: line_err_def)
  have box: "in_box x0 y0 x1 y1 (?f q)" if "q \<in> set path" for q
  proof -
    obtain a b where q: "q = (a, b)" by (cases q)
    then have "0 \<le> a" "a \<le> D" "0 \<le> b" "b \<le> E" using chain_next_le [OF p(5,4)] that p(2,3) by auto
    then show ?thesis unfolding q d by (auto simp: in_box_def)
  qed
  have "chain adjacent (map ?f path)"
    using s by (intro chain_map [OF p(5)]) (auto simp: next_to_def adjacent_def)
  moreover have "int (length path) \<le> D + E + 1" using p(6) e(3,4) by linarith
  ultimately have "line_path x0 y0 x1 y1 (map ?f path)"
    using p(2-4) e box by (auto simp: line_path_def hd_map last_map list_all_iff d(1) d(2))
  moreover have "abs32 (wrap32 (x1 - x0)) = D" "wrap32 (- abs32 (wrap32 (y1 - y0))) = - E" "wrap32 (D + - E) = D - E"
    using assms(5,6) by (simp_all add: abs32_def d)
  then have "ega_line_run s x0 y0 x1 y1 c = Some (foldl (rip_ega_pixel c) s (map ?f path))"
    using p(1) by (simp add: ega_line_run_def Let_def d(3,4))
  ultimately show ?thesis by blast
qed

subsection \<open>Where drawing can write\<close>

text \<open>The cells of the viewport, and a change of the surface that stays among them.\<close>

definition view_cells :: "rip_ega \<Rightarrow> int set" where
  "view_cells s = {a. \<exists>x y. a = y * rip_ega_w + x \<and> 0 \<le> x \<and> x < rip_ega_w \<and> 0 \<le> y \<and> y < rip_ega_h \<and>
     eg_vx0 s \<le> x \<and> x \<le> eg_vx1 s \<and> eg_vy0 s \<le> y \<and> y \<le> eg_vy1 s \<and> \<not> eg_disabled s}"

definition draws :: "rip_ega \<Rightarrow> rip_ega \<Rightarrow> bool" where
  "draws s s' \<longleftrightarrow> (\<exists>m. s' = s\<lparr>eg_pix := m\<rparr> \<and> (\<forall>a. a \<notin> view_cells s \<longrightarrow> m a = eg_pix s a) \<and>
     (\<forall>a. eg_pix s a \<le> 15 \<longrightarrow> m a \<le> 15))"

lemma draws_refl [simp, intro]: "draws s s"
  by (auto simp: draws_def intro!: exI [of _ "eg_pix s"])

lemma view_cells_pix [simp]: "view_cells (s\<lparr>eg_pix := m\<rparr>) = view_cells s"
  by (simp add: view_cells_def)

lemma draws_trans [trans]: "draws s t \<Longrightarrow> draws t u \<Longrightarrow> draws s u"
  unfolding draws_def by (elim exE conjE) (rule_tac x = ma in exI, auto)

lemma draws_view: "draws s s' \<Longrightarrow> view_cells s' = view_cells s"
  by (auto simp: draws_def)

named_theorems draw_intros \<open>an operation only draws, whatever was drawn before\<close>

lemma draws_foldl [draw_intros]: "(\<And>t x. draws s t \<Longrightarrow> draws s (f t x)) \<Longrightarrow> draws s t \<Longrightarrow> draws s (foldl f t xs)"
  by (induction xs arbitrary: t) auto

lemma nibble_le: "(x :: byte) AND 0x0F \<le> 15"
  by (simp add: word_and_le1)

lemma draws_pix:
  "(\<And>a. m a = eg_pix s a \<or> a \<in> view_cells s \<and> m a \<le> 15) \<Longrightarrow> draws s (s\<lparr>eg_pix := m\<rparr>)"
  unfolding draws_def by (intro exI [of _ m]) metis

lemma pixel_draws: "draws s (rip_ega_pixel c s p)"
proof (cases p)
  case (Pair x y)
  show ?thesis
  proof (cases "eg_disabled s \<or> x < eg_vx0 s \<or> x > eg_vx1 s \<or> y < eg_vy0 s \<or> y > eg_vy1 s \<or>
      x < 0 \<or> x \<ge> rip_ega_w \<or> y < 0 \<or> y \<ge> rip_ega_h")
    case True
    then have "rip_ega_pixel c s p = s" by (auto simp: Pair rip_ega_pixel_def)
    then show ?thesis by simp
  next
    case False
    then have v: "y * rip_ega_w + x \<in> view_cells s"
      unfolding view_cells_def by (intro CollectI exI [of _ x] exI [of _ y]) auto
    from False have "rip_ega_pixel c s p = s\<lparr>eg_pix := (eg_pix s)(y * rip_ega_w + x :=
        (if eg_xor s then (eg_pix s (y * rip_ega_w + x) XOR word_of_int c) AND 0x0F else color_index c))\<rparr>"
      by (simp add: Pair rip_ega_pixel_def Let_def)
    moreover have "draws s \<dots>" using v by (intro draws_pix) (auto simp: color_index_def nibble_le)
    ultimately show ?thesis by simp
  qed
qed

lemma draws_after: "(\<And>t. draws t (f t)) \<Longrightarrow> draws s t \<Longrightarrow> draws s (f t)"
  by (blast intro: draws_trans)

lemmas pixel_draws' [draw_intros] = draws_after [where f = "\<lambda>t. rip_ega_pixel c t p" for c p, OF pixel_draws]

lemma line_loop_draws: "line_loop x1 y1 dx dy sx sy c t x0 y0 err = Some u \<Longrightarrow> draws t u"
proof (erule line_loop.raw_induct [where P = "\<lambda>x1 y1 dx dy sx sy c t x0 y0 err u. draws t u", rotated])
  fix f :: "int \<Rightarrow> int \<Rightarrow> int \<Rightarrow> int \<Rightarrow> int \<Rightarrow> int \<Rightarrow> int \<Rightarrow> rip_ega \<Rightarrow> int \<Rightarrow> int \<Rightarrow> int \<Rightarrow> rip_ega option"
    and x1 y1 dx dy sx sy c t x0 y0 err u
  assume f: "\<And>x1 y1 dx dy sx sy c t x0 y0 err u. f x1 y1 dx dy sx sy c t x0 y0 err = Some u \<Longrightarrow> draws t u"
    and u: "(let s1 = rip_ega_pixel c t (x0, y0) in
      if x0 = x1 \<and> y0 = y1 then Some s1
      else
        let e2 = wrap32 (2 * err);
            (err1, x2) = (if e2 \<ge> dy then (wrap32 (err + dy), wrap32 (x0 + sx)) else (err, x0));
            (err2, y2) = (if e2 \<le> dx then (wrap32 (err1 + dx), wrap32 (y0 + sy)) else (err1, y0))
        in f x1 y1 dx dy sx sy c s1 x2 y2 err2) = Some u"
  have step: "draws t u" if "f x1 y1 dx dy sx sy c (rip_ega_pixel c t (x0, y0)) a b e = Some u" for a b e
    using f [OF that] pixel_draws by (blast intro: draws_trans)
  show "draws t u"
    using u pixel_draws [of t c "(x0, y0)"] by (auto simp: Let_def split: if_splits intro: step)
qed

lemma line_1px_draws [draw_intros]: "draws s t \<Longrightarrow> draws s (ega_line_1px t x0 y0 x1 y1 c)"
  by (auto simp: ega_line_1px_def ega_line_run_def Let_def split: option.split intro: draws_trans dest: line_loop_draws)

lemma line_draws [draw_intros]: "draws s t \<Longrightarrow> draws s (rip_ega_line t x0 y0 x1 y1 c w)"
  unfolding rip_ega_line_def Let_def by (auto intro!: draw_intros)

lemma rect_draws [draw_intros]: "draws s t \<Longrightarrow> draws s (rip_ega_rect t x0 y0 x1 y1 c w)"
  unfolding rip_ega_rect_def Let_def by (auto intro!: draw_intros)

lemma span_eq:
  fixes s y a b
  defines "xa \<equiv> max (max (min a b) (eg_vx0 s)) 0" and "xb \<equiv> min (min (max a b) (eg_vx1 s)) (rip_ega_w - 1)"
  shows "ega_fill_span c s y a b =
      (if eg_disabled s \<or> y < eg_vy0 s \<or> y > eg_vy1 s \<or> y < 0 \<or> y \<ge> rip_ega_h \<or> xa > xb then s
       else s\<lparr>eg_pix := mem_fill (eg_pix s) (y * rip_ega_w + xa) (y * rip_ega_w + xb + 1) (color_index c)\<rparr>)"
proof -
  have "(if a > b then (b, a) else (a, b)) = (min a b, max a b)" by simp
  then have "ega_fill_span c s y a b =
     (if eg_disabled s then s else if y < eg_vy0 s \<or> y > eg_vy1 s then s else if y < 0 \<or> y \<ge> rip_ega_h then s
      else if xa > xb then s
      else s\<lparr>eg_pix := mem_fill (eg_pix s) (y * rip_ega_w + xa) (y * rip_ega_w + xb + 1) (color_index c)\<rparr>)"
    by (simp only: ega_fill_span_def Let_def prod.case clamp_lo clamp_hi xa_def xb_def)
  then show ?thesis by simp
qed

lemma span_draws: "draws s (ega_fill_span c s y a b)"
proof -
  define xa where "xa = max (max (min a b) (eg_vx0 s)) 0"
  define xb where "xb = min (min (max a b) (eg_vx1 s)) (rip_ega_w - 1)"
  note eq = span_eq [of c s y a b, folded xa_def xb_def, unfolded rip_ega_w_def rip_ega_h_def]
  show ?thesis
  proof (cases "eg_disabled s \<or> y < eg_vy0 s \<or> y > eg_vy1 s \<or> y < 0 \<or> y \<ge> 350 \<or> xa > xb")
    case True
    then show ?thesis by (simp add: eq)
  next
    case False
    have v: "a' \<in> view_cells s" if "y * 640 + xa \<le> a'" "a' < y * 640 + xb + 1" for a'
    proof -
      have "0 \<le> xa" "xb \<le> 639" "eg_vx0 s \<le> xa" "xb \<le> eg_vx1 s"
        by (simp_all add: xa_def xb_def rip_ega_w_def)
      then show ?thesis
        unfolding view_cells_def rip_ega_w_def rip_ega_h_def
        using that False by (intro CollectI exI [of _ "a' - y * 640"] exI [of _ y]) auto
    qed
    have "draws s (s\<lparr>eg_pix := mem_fill (eg_pix s) (y * 640 + xa) (y * 640 + xb + 1) (color_index c)\<rparr>)"
      using v by (intro draws_pix) (auto simp: mem_fill_apply color_index_def nibble_le)
    then show ?thesis using False by (simp add: eq)
  qed
qed

lemmas span_draws' [draw_intros] =
  draws_after [where f = "\<lambda>t. ega_fill_span c t y a b" for c y a b, OF span_draws]

lemma bar_draws [draw_intros]: "draws s t \<Longrightarrow> draws s (rip_ega_bar t x0 y0 x1 y1 f c)"
  unfolding rip_ega_bar_def Let_def by (auto intro!: draw_intros split: prod.split)

lemma fill_pairs_draws [draw_intros]: "draws s t \<Longrightarrow> draws s (fill_pairs c y t xs)"
  by (induction c y t xs rule: fill_pairs.induct) (auto intro!: draw_intros)

lemma fill_polygon_draws [draw_intros]: "draws s t \<Longrightarrow> draws s (rip_ega_fill_polygon m t pts f c)"
  unfolding rip_ega_fill_polygon_def Let_def by (auto intro!: draw_intros)

lemma draw_edges_draws [draw_intros]: "draws s t \<Longrightarrow> draws s (draw_edges c w t es)"
  unfolding draw_edges_def by (auto intro!: draw_intros split: prod.split)

lemma polygon_draws [draw_intros]:
  "draws s t \<Longrightarrow> draws s (rip_ega_polygon t pts c w)" "draws s t \<Longrightarrow> draws s (rip_ega_polyline t pts c w)"
  by (auto simp: rip_ega_polygon_def rip_ega_polyline_def intro!: draw_intros)

lemma arc_draws [draw_intros]: "draws s t \<Longrightarrow> draws s (rip_ega_arc cv t cx cy a b rx ry c w)"
  by (auto simp: rip_ega_arc_def Let_def intro!: draw_intros)

lemma ellipse_draws [draw_intros]:
  "draws s t \<Longrightarrow> draws s (rip_ega_ellipse cv t cx cy rx ry c w)"
  "draws s t \<Longrightarrow> draws s (rip_ega_circle cv t cx cy r c w)"
  "draws s t \<Longrightarrow> draws s (rip_ega_fill_ellipse cv t cx cy rx ry f c)"
  by (auto simp: rip_ega_ellipse_def rip_ega_circle_def rip_ega_fill_ellipse_def Let_def intro!: draw_intros)

lemma pie_draws [draw_intros]: "draws s t \<Longrightarrow> draws s (rip_ega_pie cv m t cx cy a b rx ry f fc c w)"
  unfolding rip_ega_pie_def Let_def by (auto intro!: draw_intros)

lemma bitmap_draws [draw_intros]: "draws s t \<Longrightarrow> draws s (fst (bitmap_draw gl v sz x y c d t adv tx))"
proof (induction tx arbitrary: t adv)
  case (Cons b tx)
  show ?case
    by (simp only: bitmap_draw.simps stroke_draw.simps Let_def) (intro Cons.IH, auto intro!: draw_intros Cons.prems)
qed simp

lemma stroke_points_draws [draw_intros]: "draws s t \<Longrightarrow> draws s (stroke_points v l n b x y adv c prev t pts)"
proof (induction pts arbitrary: prev t v)
  case (Cons p pts)
  show ?case
  proof (cases p)
    case (Pair hx hy)
    then show ?thesis using Cons.prems by (cases prev) (auto simp: Let_def intro!: Cons.IH draw_intros)
  qed
qed simp

lemma stroke_draws [draw_intros]: "draws s t \<Longrightarrow> draws s (fst (stroke_draw gl f v sz x y c d t adv tx))"
proof (induction tx arbitrary: t adv)
  case (Cons b tx)
  show ?case
    by (simp only: bitmap_draw.simps stroke_draw.simps Let_def) (intro Cons.IH, auto intro!: draw_intros Cons.prems)
qed simp

lemma text_draws [draw_intros]: "draws s t \<Longrightarrow> draws s (fst (rip_text_draw gl t f v sz x y tx c))"
  by (auto simp: rip_text_draw_def intro: bitmap_draws stroke_draws split: prod.split)

lemma bevel_ring_draws [draw_intros]: "draws s t \<Longrightarrow> draws s (bevel_ring t r b d c)"
  unfolding bevel_ring_def Let_def by (auto intro!: draw_intros split: prod.split)

lemma bevel_draws [draw_intros]: "draws s t \<Longrightarrow> draws s (draw_bevel st r t)"
  by (auto simp: draw_bevel_def intro!: draw_intros)

lemma hotkey_draws [draw_intros]: "draws s t \<Longrightarrow> draws s (draw_hotkey gl st f sz tx ty label t hk)"
  unfolding draw_hotkey_def Let_def by (auto intro!: draw_intros)

lemma label_draws [draw_intros]: "draws s t \<Longrightarrow> draws s (draw_label gl st r label hk f sz t)"
  unfolding draw_label_def Let_def by (auto intro!: draw_intros split: prod.split option.split)

lemma button_draws [draw_intros]: "draws s t \<Longrightarrow> draws s (snd (rip_button_draw gl t st r label hk f sz))"
  unfolding rip_button_draw_def Let_def by (auto intro!: draw_intros split: prod.split)

end
