(* ===== verification/RipInv.thy ===== *)
theory RipInv
  imports RipSafe
begin

section \<open>RIPscrip: the parser's invariant and its properties\<close>

text \<open>
  What each command may do to the surface, to the line being assembled and to the table of
  regions; the invariant of the parser; the interpretation of \<open>framed_machine\<close> on the feed of
  bytes, which keeps every write on the 640 by 350 screen; and the properties of the component.
  The condition on the bytes is needed: \<open>rip_ega_set_viewport\<close> clips the right and lower edges to
  the screen but not the left one, and \<open>rip_ega_erase_view\<close> trusts their difference.
\<close>

subsection \<open>Commands\<close>

lemma count_surf [simp]: "rp_surf (count f p) = rp_surf p"
  by (simp add: count_def)

lemma count_other [simp]:
  "rp_line (count f p) = rp_line p" "rp_buttons (count f p) = rp_buttons p" "rp_continued (count f p) = rp_continued p"
  by (simp_all add: count_def)

lemma add_region_surf [simp]: "rp_surf (rip_add_region p b) = rp_surf p" "rp_line (rip_add_region p b) = rp_line p"
  by (simp_all add: rip_add_region_def)

lemma malformed_surf [simp]: "rp_surf (snd (malformed p)) = rp_surf p" "rp_line (snd (malformed p)) = rp_line p"
    "rp_buttons (snd (malformed p)) = rp_buttons p"
  by (simp_all add: malformed_def)

text \<open>What a command may do to the surface: draw, clear the screen, change what is not pixels.\<close>

lemma level1_draws: "draws (rp_surf p) (rp_surf (snd (rip_exec_level1 ev p cmd a tx)))"
proof -
  have "draws (rp_surf p) (rp_surf (snd (exec_button ev p a tx)))"
    unfolding exec_button_def Let_def
    by (auto simp: split_beta intro!: button_draws)
  then show ?thesis
    by (auto simp: rip_exec_level1_def exec_button_style_def exec_mouse_def Let_def)
qed

lemma primitive_draws: "draws (rp_surf p) (rp_surf (snd (exec_primitive ev p cmd a pts)))"
  unfolding exec_primitive_def needs_def on_surf_def Let_def by (auto intro!: draw_intros)

lemma text_at_cursor_draws: "draws (rp_surf p) (rp_surf (snd (text_at_cursor ev p tx)))"
  unfolding text_at_cursor_def by (auto simp: split_beta intro!: draw_intros)

lemma exec_text_draws: "draws (rp_surf p) (rp_surf (snd (exec_text ev p cmd a tx)))"
  using text_at_cursor_draws [of p ev tx] text_at_cursor_draws [of "p\<lparr>rp_cur_x := a ! 0, rp_cur_y := a ! 1\<rparr>" ev tx]
  by (auto simp: exec_text_def needs_def Let_def)

lemma exec_curve_draws: "draws (rp_surf p) (rp_surf (snd (exec_curve ev p cmd a)))"
  unfolding exec_curve_def needs_def on_curve_def Let_def by (auto intro!: draw_intros)

lemma exec_undrawn_surf [simp]: "rp_surf (snd (exec_undrawn p cmd)) = rp_surf p"
  by (simp add: exec_undrawn_def)

subsection \<open>The invariant\<close>

definition screen :: "int set" where "screen = {0..<rip_ega_w * rip_ega_h}"

definition view_ok :: "rip_ega \<Rightarrow> bool" where
  "view_ok s \<longleftrightarrow> 0 \<le> eg_vx0 s \<and> eg_vx1 s \<le> rip_ega_w - 1 \<and> eg_vx0 s \<le> eg_vx1 s + 1"

text \<open>A change of the surface that stays on the screen.\<close>

definition on_screen :: "rip_ega \<Rightarrow> rip_ega \<Rightarrow> bool" where
  "on_screen s s' \<longleftrightarrow> (\<forall>a. a \<notin> screen \<longrightarrow> eg_pix s' a = eg_pix s a) \<and>
     ((\<forall>a\<in>screen. eg_pix s a \<le> 15) \<longrightarrow> (\<forall>a\<in>screen. eg_pix s' a \<le> 15)) \<and> (view_ok s \<longrightarrow> view_ok s')"

lemma on_screen_refl [simp]: "on_screen s s"
  by (simp add: on_screen_def)

lemma on_screen_trans: "on_screen s t \<Longrightarrow> on_screen t u \<Longrightarrow> on_screen s u"
  by (auto simp: on_screen_def)

lemma view_cells_screen: "view_cells s \<subseteq> screen"
proof
  fix a
  assume "a \<in> view_cells s"
  then obtain x y where a: "a = y * rip_ega_w + x" "0 \<le> x" "x < rip_ega_w" "0 \<le> y" "y < rip_ega_h"
    by (auto simp: view_cells_def)
  then show "a \<in> screen" using row_major_bounds [of y rip_ega_h x rip_ega_w] by (simp add: screen_def mult.commute)
qed

lemma draws_on_screen: "draws s s' \<Longrightarrow> on_screen s s'"
  using view_cells_screen [of s] by (auto simp: draws_def on_screen_def view_ok_def)

lemma pix_eq_on_screen: "eg_pix s' = eg_pix s \<Longrightarrow> (view_ok s \<Longrightarrow> view_ok s') \<Longrightarrow> on_screen s s'"
  by (auto simp: on_screen_def)

lemma erase_row_on_screen: "view_ok s \<Longrightarrow> on_screen s (erase_row s y) \<and> view_ok (erase_row s y)"
proof (cases "y < 0 \<or> y \<ge> rip_ega_h")
  case True
  then show "view_ok s \<Longrightarrow> ?thesis" by (simp add: erase_row_def)
next
  case False
  assume v: "view_ok s"
  let ?n = "eg_vx1 s - eg_vx0 s + 1"
  have n: "0 \<le> ?n" "?n < 2 ^ 64" "eg_vx0 s + ?n \<le> rip_ega_w" using v by (simp_all add: view_ok_def rip_ega_w_def)
  then have "size_t_of ?n = ?n" by (simp add: size_t_of_def)
  then have eq: "erase_row s y = s\<lparr>eg_pix := mem_fill (eg_pix s) (y * rip_ega_w + eg_vx0 s) (y * rip_ega_w + eg_vx0 s + ?n) 0\<rparr>"
    using False by (simp add: erase_row_def Let_def)
  have "a \<in> screen" if "y * rip_ega_w + eg_vx0 s \<le> a" "a < y * rip_ega_w + eg_vx0 s + ?n" for a
  proof -
    have "0 \<le> y * rip_ega_w" "y * rip_ega_w + rip_ega_w \<le> rip_ega_h * rip_ega_w"
      using row_major_block [of y rip_ega_h rip_ega_w] False by (simp_all add: rip_ega_w_def)
    then show ?thesis using that n v by (auto simp: screen_def view_ok_def mult.commute)
  qed
  then show ?thesis using v by (auto simp: eq on_screen_def mem_fill_apply view_ok_def)
qed

lemma erase_view_on_screen:
  assumes "view_ok s"
  shows "on_screen s (rip_ega_erase_view s)"
proof -
  have "on_screen s (foldl erase_row s ys) \<and> view_ok (foldl erase_row s ys)" for ys
    using assms
  proof (induction ys rule: rev_induct)
    case (snoc y ys)
    then show ?case using erase_row_on_screen [of "foldl erase_row s ys" y] by (auto intro: on_screen_trans)
  qed simp
  then show ?thesis by (simp add: rip_ega_erase_view_def)
qed

lemma reset_on_screen: "on_screen s (rip_ega_reset s)"
  by (auto simp: rip_ega_reset_def on_screen_def screen_def mem_fill_apply view_ok_def rip_ega_w_def)

lemma viewport_on_screen:
  assumes "0 \<le> x0" "0 \<le> x1" "min x0 x1 \<le> rip_ega_w"
  shows "on_screen s (rip_ega_set_viewport s x0 y0 x1 y1)"
proof (cases "x0 > x1")
  case True
  then show ?thesis using assms
    by (intro pix_eq_on_screen) (simp_all add: rip_ega_set_viewport_def view_ok_def rip_ega_w_def Let_def split_beta)
next
  case False
  then show ?thesis using assms
    by (intro pix_eq_on_screen) (simp_all add: rip_ega_set_viewport_def view_ok_def rip_ega_w_def Let_def split_beta)
qed

subsection \<open>Actions and lines\<close>

text \<open>A VIEWPORT command with its left edge on the screen (or just beside it).\<close>

fun view_cmd_ok :: "rip_action \<Rightarrow> bool" where
  "view_cmd_ok (Exec level cmd a pts tx) =
     (level = [] \<and> cmd = ch CHR ''v'' \<and> length a \<ge> 4 \<longrightarrow> min (a ! 0) (a ! 2) \<le> rip_ega_w)"
| "view_cmd_ok _ = True"

text \<open>What the parser gives: numbers that are not negative, and a level of the table.\<close>

fun args_ok :: "rip_action \<Rightarrow> bool" where
  "args_ok (Exec level cmd a pts tx) = (list_all (\<lambda>v. 0 \<le> v) a \<and> (level = [] \<or> hd level = 0x31 \<or> hd level = 0x39))"
| "args_ok _ = True"

lemma take_args_nonneg:
  "list_all (\<lambda>v. 0 \<le> v) a \<Longrightarrow> list_all (\<lambda>v. 0 \<le> v) (fst (snd (take_args m gs s a)))"
proof (induction gs arbitrary: s a)
  case (Cons g gs)
  then show ?case by (auto simp: Let_def split: prod.split option.split)
qed simp

lemma find_cmd_level: "rip_find_cmd level cmd = Some g \<Longrightarrow> level = [] \<or> hd level = 0x31 \<or> hd level = 0x39"
proof -
  assume "rip_find_cmd level cmd = Some g"
  then obtain i l where "i < length rip_cmds" "rip_cmds ! i = (l, cmd, g)" "asc l = level"
    by (auto simp: rip_find_cmd_def find_Some_iff split: option.splits)
  then have "(l, cmd, g) \<in> set rip_cmds" "asc l = level" by (metis nth_mem)+
  moreover have "list_all (\<lambda>(l, c, g). asc l = [] \<or> hd (asc l) = 0x31 \<or> hd (asc l) = (0x39::byte)) rip_cmds"
    by (simp add: rip_cmds_def)
  ultimately show ?thesis by (auto simp: list_all_iff)
qed

lemma parse_line_args: "list_all args_ok (parse_line m s)"
proof (induction m s rule: parse_line.induct)
  case (1 m)
  then show ?case by (simp add: parse_line.simps)
next
  case (2 m c s)
  define level where "level = (if 0x31 \<le> hd s \<and> hd s \<le> 0x39 then takeWhile is_digit (take 9 s) else [])"
  define s1 where "s1 = drop (length level) s"
  show ?case
  proof (cases "c = 0x7C \<and> s \<noteq> [] \<and> s1 \<noteq> []")
    case False
    have "list_all args_ok (parse_line m s)" if "c \<noteq> 0x7C" using 2(1) that by simp
    moreover have "parse_line m (c # s) = (if c \<noteq> 0x7C then parse_line m s else if s = [] then [] else [NoCommand])"
      using False by (subst parse_line.simps(2)) (auto simp: Let_def level_def [symmetric] s1_def [symmetric] simp del: drop_eq_Nil drop_eq_Nil2)
    ultimately show ?thesis by (simp split: if_splits)
  next
    case True
    have eq: "parse_line m (c # s) = (case rip_find_cmd level (hd s1) of
        None \<Rightarrow> Unknown # parse_line m (rip_skip_unknown (tl s1))
      | Some args \<Rightarrow> (case take_args m args (tl s1) [] of
          (bad, a, pts, tx, r) \<Rightarrow>
            if bad then Malformed # parse_line m (rip_skip_unknown (rip_skip_unknown r))
            else Exec level (hd s1) a pts tx # parse_line m (rip_skip_unknown r)))"
      using True
      by (subst parse_line.simps) (simp add: Let_def level_def [symmetric] s1_def [symmetric] del: drop_eq_Nil drop_eq_Nil2)
    show ?thesis
    proof (cases "rip_find_cmd level (hd s1)")
      case None
      have "list_all args_ok (parse_line m (rip_skip_unknown (tl s1)))"
        using True by (intro 2(2) [OF _ _ level_def s1_def _ refl refl None]) simp_all
      then show ?thesis by (simp add: eq None)
    next
      case (Some args)
      obtain bad a pts tx r where t: "take_args m args (tl s1) [] = (bad, a, pts, tx, r)"
        by (cases "take_args m args (tl s1) []") auto
      have "list_all (\<lambda>v. 0 \<le> v) a" using take_args_nonneg [of "[]" m args "tl s1"] t by simp
      then show ?thesis
        using 2(3,4) [OF _ _ level_def s1_def _ refl refl Some t [symmetric] refl refl refl] True find_cmd_level [OF Some]
        unfolding eq by (simp add: Some t)
    qed
  qed
qed

lemma exec_on_screen:
  assumes "view_ok (rp_surf p)" "args_ok (Exec level cmd a pts tx)" "view_cmd_ok (Exec level cmd a pts tx)"
  shows "on_screen (rp_surf p) (rp_surf (snd (rip_exec ev p level cmd a pts tx)))"
proof -
  have state: "on_screen (rp_surf p) (rp_surf (snd (exec_state p cmd a)))" if "level = []"
  proof -
    have nn: "4 \<le> length a \<Longrightarrow> 0 \<le> a ! 0 \<and> 0 \<le> a ! 2"
    proof -
      assume "4 \<le> length a"
      then have "a ! 0 \<in> set a" "a ! 2 \<in> set a" by (simp_all only: nth_mem)
      then show ?thesis using assms(2) by (simp add: list_all_iff)
    qed
    have v: "cmd = ch CHR ''v'' \<Longrightarrow> 4 \<le> length a \<Longrightarrow> min (a ! 0) (a ! 2) \<le> rip_ega_w"
      using assms(3) that by (simp)
    have vp: "on_screen (rp_surf p) (rip_ega_set_viewport (rp_surf p) (a ! 0) (a ! 1) (a ! 2) (a ! 3))"
      if "cmd = ch CHR ''v''" "4 \<le> length a"
      using nn v that by (intro viewport_on_screen) simp_all
    have xor: "on_screen (rp_surf p) (rp_surf p\<lparr>eg_xor := b\<rparr>)" for b
      by (rule pix_eq_on_screen) (simp_all add: view_ok_def)
    show ?thesis
      unfolding exec_state_def needs_def on_surf_def rip_parser_reset_def
      using reset_on_screen erase_view_on_screen [OF assms(1)] vp xor by simp
  qed
  have style: "on_screen (rp_surf p) (rp_surf (snd (exec_style p cmd a)))"
    unfolding exec_style_def needs_def on_surf_def Let_def
    by (rule pix_eq_on_screen)
      (simp_all add: rip_ega_set_palette16_def rip_ega_set_one_palette_def view_ok_def)
  have draw: "draws (rp_surf p) (rp_surf (snd q)) \<Longrightarrow> on_screen (rp_surf p) (rp_surf (snd q))" for q :: "bool \<times> rip_parser"
    by (rule draws_on_screen)
  have "level = [] \<or> hd level = 0x31 \<or> hd level = 0x39" using assms(2) by simp
  then consider "level = []" | "level \<noteq> []" "hd level = 0x31" | "level \<noteq> []" "hd level = 0x39" by blast
  then show ?thesis
  proof cases
    case 1
    then show ?thesis
      using state style draw [OF primitive_draws] draw [OF exec_text_draws] draw [OF exec_curve_draws]
      by (simp add: rip_exec_def)
  qed (simp_all add: rip_exec_def draw [OF level1_draws])
qed

subsection \<open>The parser's invariant\<close>

definition button_ok :: "rip_button \<Rightarrow> bool" where
  "button_ok b \<longleftrightarrow> rb_command b \<noteq> [] \<and> length (rb_command b) < 48 \<and>
     (case rb_rect b of (x0, y0, x1, y1) \<Rightarrow> x0 \<le> x1 \<and> y0 \<le> y1)"

definition buttons_ok :: "rip_parser \<Rightarrow> bool" where
  "buttons_ok p \<longleftrightarrow> length (rp_buttons p) \<le> 64 \<and> list_all button_ok (rp_buttons p)"

definition rip_inv :: "rip_parser \<Rightarrow> bool" where
  "rip_inv p \<longleftrightarrow> view_ok (rp_surf p) \<and> length (rp_line p) < rip_line_max \<and> buttons_ok p"

lemma expand_caret_length: "length acc < cap \<Longrightarrow> length (rip_expand_caret cap acc s) < cap"
  by (induction cap acc s rule: rip_expand_caret.induct) auto

lemma cstr_length: "length (cstr s) \<le> length s"
  by (simp add: cstr_def length_takeWhile_le)

lemma expanded_command_length: "length (cstr (rip_expand_caret 48 [] s)) < 48"
  using cstr_length [of "rip_expand_caret 48 [] s"] expand_caret_length [of "[]" 48 s] by simp

lemma add_region_ok: "buttons_ok p \<Longrightarrow> length (rb_command b) < 48 \<Longrightarrow> buttons_ok (rip_add_region p b)"
  by (auto simp: rip_add_region_def buttons_ok_def button_ok_def norm_rect_def Let_def split: prod.split)

lemma buttons_ok_cong: "rp_buttons p = rp_buttons q \<Longrightarrow> buttons_ok p \<longleftrightarrow> buttons_ok q"
  by (simp add: buttons_ok_def)

text \<open>No command touches the line that is being assembled; only level 1 and \<open>RESET_WINDOWS\<close> touch the regions.\<close>

lemma exec_state_regions:
  "rp_line (snd (exec_state p cmd a)) = rp_line p \<and> rp_buttons (snd (exec_state p cmd a)) \<in> {[], rp_buttons p}"
  by (simp add: exec_state_def needs_def on_surf_def rip_parser_reset_def)

lemma exec_style_regions:
  "rp_line (snd (exec_style p cmd a)) = rp_line p \<and> rp_buttons (snd (exec_style p cmd a)) = rp_buttons p"
  by (simp add: exec_style_def needs_def on_surf_def Let_def)

lemma exec_primitive_regions:
  "rp_line (snd (exec_primitive ev p cmd a pts)) = rp_line p \<and> rp_buttons (snd (exec_primitive ev p cmd a pts)) = rp_buttons p"
  by (simp add: exec_primitive_def needs_def on_surf_def Let_def)

lemma text_at_cursor_regions:
  "rp_line (snd (text_at_cursor ev p tx)) = rp_line p \<and> rp_buttons (snd (text_at_cursor ev p tx)) = rp_buttons p"
  by (simp add: text_at_cursor_def split_beta)

lemma exec_text_regions:
  "rp_line (snd (exec_text ev p cmd a tx)) = rp_line p \<and> rp_buttons (snd (exec_text ev p cmd a tx)) = rp_buttons p"
  by (simp add: exec_text_def needs_def text_at_cursor_regions Let_def)

lemma exec_curve_regions:
  "rp_line (snd (exec_curve ev p cmd a)) = rp_line p \<and> rp_buttons (snd (exec_curve ev p cmd a)) = rp_buttons p"
  by (simp add: exec_curve_def needs_def on_curve_def Let_def)

lemma exec_undrawn_regions:
  "rp_line (snd (exec_undrawn p cmd)) = rp_line p \<and> rp_buttons (snd (exec_undrawn p cmd)) = rp_buttons p"
  by (simp add: exec_undrawn_def)

lemma level1_line: "rp_line (snd (rip_exec_level1 ev p cmd a tx)) = rp_line p"
  by (simp add: rip_exec_level1_def exec_button_style_def exec_mouse_def exec_button_def split_beta Let_def)

lemma level1_buttons: "buttons_ok p \<Longrightarrow> buttons_ok (snd (rip_exec_level1 ev p cmd a tx))"
proof -
  assume b: "buttons_ok p"
  have q: "buttons_ok (count f q)" if "buttons_ok q" for f q
    using that by (simp add: buttons_ok_def)
  have s: "buttons_ok (p\<lparr>rp_surf := t\<rparr>)" for t using b by (simp add: buttons_ok_def)
  show ?thesis
    using b by (auto simp: rip_exec_level1_def exec_button_style_def exec_mouse_def exec_button_def malformed_def split_beta Let_def
        intro!: q add_region_ok s expanded_command_length) (simp_all add: buttons_ok_def)
qed

lemmas exec_regions = exec_state_regions exec_style_regions exec_primitive_regions exec_text_regions
  exec_curve_regions exec_undrawn_regions

lemma exec_line: "rp_line (snd (rip_exec ev p level cmd a pts tx)) = rp_line p"
  by (simp add: rip_exec_def level1_line exec_regions)

lemma exec_buttons: "buttons_ok p \<Longrightarrow> buttons_ok (snd (rip_exec ev p level cmd a pts tx))"
proof -
  assume b: "buttons_ok p"
  have "buttons_ok (snd (exec_state p cmd a))"
    using exec_state_regions [of p cmd a] b by (auto simp: buttons_ok_def)
  moreover have "buttons_ok (snd (exec_style p cmd a))" "buttons_ok (snd (exec_primitive ev p cmd a pts))"
    "buttons_ok (snd (exec_text ev p cmd a tx))" "buttons_ok (snd (exec_curve ev p cmd a))" "buttons_ok (snd (exec_undrawn p cmd))"
    using b by (simp_all add: buttons_ok_def exec_regions)
  moreover have "buttons_ok (count f p)" for f using b by (simp add: buttons_ok_def)
  ultimately show ?thesis
    using level1_buttons [OF b] by (simp add: rip_exec_def del: list.map list.set insert_iff)
qed

subsection \<open>Lines and the stream\<close>

lemma count_inv [simp]: "rip_inv (count f p) = rip_inv p"
  by (simp add: rip_inv_def buttons_ok_def)

definition step_ok :: "rip_parser \<Rightarrow> rip_parser \<Rightarrow> bool" where
  "step_ok p q \<longleftrightarrow> on_screen (rp_surf p) (rp_surf q) \<and> (rip_inv p \<longrightarrow> rip_inv q) \<and> rp_line q = rp_line p"

lemma step_ok_refl: "step_ok p (count f p)"
  by (simp add: step_ok_def)

lemma step_ok_trans: "step_ok p q \<Longrightarrow> step_ok q r \<Longrightarrow> step_ok p r"
  by (auto simp: step_ok_def intro: on_screen_trans)

lemma exec_step_ok:
  assumes "rip_inv p" "args_ok (Exec level cmd a pts tx)" "view_cmd_ok (Exec level cmd a pts tx)"
  shows "step_ok p (snd (rip_exec ev p level cmd a pts tx))"
proof -
  have "on_screen (rp_surf p) (rp_surf (snd (rip_exec ev p level cmd a pts tx)))"
    using assms by (intro exec_on_screen) (simp_all add: rip_inv_def)
  then show ?thesis
    using exec_line [of ev p level cmd a pts tx] exec_buttons [of p ev level cmd a pts tx]
    by (auto simp: step_ok_def rip_inv_def on_screen_def)
qed

lemma run_action_ok:
  assumes "rip_inv (snd dp)" "args_ok act" "view_cmd_ok act"
  shows "step_ok (snd dp) (snd (run_action ev dp act))"
proof (cases act)
  case (Exec level cmd a pts tx)
  let ?c = "count (st_commands_update (\<lambda>n. n + 1)) (snd dp)"
  have "step_ok ?c (snd (rip_exec ev ?c level cmd a pts tx))"
    using assms Exec by (intro exec_step_ok) simp_all
  then have ok: "step_ok (snd dp) (snd (rip_exec ev ?c level cmd a pts tx))"
    using step_ok_refl step_ok_trans by blast
  then have "step_ok (snd dp) (count f (snd (rip_exec ev ?c level cmd a pts tx)))" for f
    using step_ok_refl step_ok_trans by blast
  with ok show ?thesis using Exec by (auto simp: run_action_def split_beta split: bool.split)
qed (auto simp: run_action_def split_beta step_ok_def)

lemma run_actions_ok:
  assumes "rip_inv (snd dp)" "list_all args_ok acts" "list_all view_cmd_ok acts"
  shows "step_ok (snd dp) (snd (foldl (run_action ev) dp acts))"
  using assms
proof (induction acts arbitrary: dp)
  case (Cons act acts)
  have s: "step_ok (snd dp) (snd (run_action ev dp act))" using Cons.prems by (intro run_action_ok) simp_all
  then have "rip_inv (snd (run_action ev dp act))" using Cons.prems(1) by (simp add: step_ok_def)
  then have "step_ok (snd (run_action ev dp act)) (snd (foldl (run_action ev) (run_action ev dp act) acts))"
    using Cons.prems by (intro Cons.IH) simp_all
  with s show ?case by (simp add: step_ok_trans)
qed (simp add: step_ok_def)

text \<open>The commands that a line carries.\<close>

definition line_actions :: "rip_env \<Rightarrow> byte list \<Rightarrow> rip_action list" where
  "line_actions ev line =
     (if length line \<ge> 2 \<and> line ! 0 = 0x21 \<and> line ! 1 = 0x7C then parse_line (rv_mem ev) (drop 1 line)
      else case find_soh line of Some body \<Rightarrow> parse_line (rv_mem ev) body | None \<Rightarrow> [])"

lemma line_actions_args: "list_all args_ok (line_actions ev line)"
  by (simp add: line_actions_def parse_line_args split: option.split)

lemma handle_line_ok:
  assumes "rip_inv p" "list_all view_cmd_ok (line_actions ev line)"
  shows "step_ok p (snd (rip_handle_line ev p line))"
proof -
  have run: "step_ok p (snd (rip_run_line ev p body))" if "list_all view_cmd_ok (parse_line (rv_mem ev) body)" for body
    using run_actions_ok [of "(False, p)" "parse_line (rv_mem ev) body" ev] assms(1) that parse_line_args
    by (simp add: rip_run_line_def)
  show ?thesis
  proof (cases "length line \<ge> 2 \<and> line ! 0 = 0x21 \<and> line ! 1 = 0x7C")
    case True
    then show ?thesis using assms(2) run [of "drop 1 line"] by (simp add: rip_handle_line_def line_actions_def)
  next
    case False
    then show ?thesis
      using assms(2) run step_ok_refl [of p] step_ok_trans
      by (cases "find_soh line")
        (simp_all only: rip_handle_line_def line_actions_def if_False option.case snd_conv, simp add: step_ok_def)
  qed
qed

definition rip_step :: "rip_env \<Rightarrow> rip_parser \<Rightarrow> byte \<Rightarrow> rip_parser" where
  "rip_step ev p c = snd (rip_feed_byte ev (False, p) c)"

text \<open>Where the byte ends a line, no VIEWPORT command of the line has its left edge past the screen.\<close>

definition rip_byte_ok :: "rip_env \<Rightarrow> rip_parser \<Rightarrow> byte \<Rightarrow> bool" where
  "rip_byte_ok ev p c \<longleftrightarrow>
     (c = 0x0D \<or> c = 0x0A \<or> length (rp_line p) \<ge> rip_line_max - 1 \<longrightarrow> list_all view_cmd_ok (line_actions ev (rp_line p)))"

lemma feed_byte_snd: "snd (rip_feed_byte ev (d, p) c) = rip_step ev p c"
  by (simp only: rip_step_def rip_feed_byte_def Let_def split_beta prod.case if_distrib [of snd] fst_conv snd_conv)

lemma feed_snd: "snd (foldl (rip_feed_byte ev) dp bs) = foldl (rip_step ev) (snd dp) bs"
proof (induction bs arbitrary: dp)
  case (Cons b bs)
  have "snd (rip_feed_byte ev dp b) = rip_step ev (snd dp) b" using feed_byte_snd [of ev "fst dp" "snd dp" b] by simp
  then show ?case by (simp add: Cons.IH)
qed simp

lemma inv_fields:
  "rip_inv (p\<lparr>rp_last_was_cr := b\<rparr>) = rip_inv p" "rip_inv (p\<lparr>rp_continued := b\<rparr>) = rip_inv p"
  "rip_inv (p\<lparr>rp_line := l\<rparr>) \<longleftrightarrow> view_ok (rp_surf p) \<and> length l < rip_line_max \<and> buttons_ok p"
  by (simp_all add: rip_inv_def buttons_ok_def)

lemma step_line_ok:
  assumes "rip_inv p" "list_all view_cmd_ok (line_actions ev (rp_line p))"
  defines "q \<equiv> snd (rip_handle_line ev p (rp_line p))"
  shows "on_screen (rp_surf p) (rp_surf q) \<and> rip_inv q"
  using handle_line_ok [OF assms(1,2)] assms(1) by (simp add: q_def step_ok_def)

lemma rip_step_ok:
  assumes "rip_inv p" "rip_byte_ok ev p c"
  shows "on_screen (rp_surf p) (rp_surf (rip_step ev p c)) \<and> rip_inv (rip_step ev p c)"
proof (cases "c = 0x0D \<or> c = 0x0A")
  case True
  let ?p = "p\<lparr>rp_last_was_cr := (c = 0x0D)\<rparr>"
  have "rip_inv ?p" "list_all view_cmd_ok (line_actions ev (rp_line ?p))"
    using assms True by (auto simp: inv_fields rip_byte_ok_def)
  then have "on_screen (rp_surf ?p) (rp_surf (snd (rip_handle_line ev ?p (rp_line ?p)))) \<and>
      rip_inv (snd (rip_handle_line ev ?p (rp_line ?p)))" by (rule step_line_ok)
  then show ?thesis using True assms(1)
    by (auto simp: rip_step_def rip_feed_byte_def Let_def split_beta inv_fields) (auto simp: rip_inv_def buttons_ok_def rip_line_max_def)
next
  case False
  let ?p = "p\<lparr>rp_last_was_cr := False\<rparr>"
  show ?thesis
  proof (cases "length (rp_line p) < rip_line_max - 1")
    case True
    then show ?thesis using False assms(1)
      by (simp add: rip_step_def rip_feed_byte_def Let_def inv_fields) (simp add: rip_inv_def rip_line_max_def buttons_ok_def)
  next
    case long: False
    have "rip_inv ?p" "list_all view_cmd_ok (line_actions ev (rp_line ?p))"
      using assms long by (simp_all add: inv_fields rip_byte_ok_def)
    then have "on_screen (rp_surf ?p) (rp_surf (snd (rip_handle_line ev ?p (rp_line ?p)))) \<and>
        rip_inv (snd (rip_handle_line ev ?p (rp_line ?p)))" by (rule step_line_ok)
    then show ?thesis using False long
      by (auto simp: rip_step_def rip_feed_byte_def Let_def split_beta inv_fields) (auto simp: rip_inv_def buttons_ok_def rip_line_max_def)
  qed
qed

interpretation rip: framed_machine "rip_step ev" "rip_byte_ok ev" rip_inv "\<lambda>p. eg_pix (rp_surf p)" "\<lambda>_. screen" for ev
  by unfold_locales (use rip_step_ok in \<open>auto simp: on_screen_def\<close>)

lemma parser_init_inv: "rip_inv (rip_parser_init surf)"
  by (simp add: rip_inv_def rip_parser_init_def rip_parser_reset_def view_ok_def rip_ega_reset_def rip_ega_w_def
      buttons_ok_def rip_line_max_def)

subsection \<open>Further lemmas\<close>

text \<open>A row inverted twice is as it was, where its cells hold palette indices.\<close>

lemma invert_nibble: "(x :: byte) \<le> 15 \<Longrightarrow> (NOT ((NOT x) AND 0x0F)) AND 0x0F = x"
proof -
  assume "x \<le> 15"
  then have "x AND mask 4 = x" by (intro less_mask_eq) (simp add: word_le_nat_alt word_less_nat_alt)
  then have x: "x AND 0x0F = x" by (simp add: mask_eq_exp_minus_1)
  have "(NOT ((NOT x) AND 0x0F)) AND 0x0F = x AND (0x0F :: byte)"
    by (simp only: bit.de_Morgan_conj bit.double_compl bit.conj_disj_distrib2 bit.conj_cancel_left bit.disj_zero_right)
  then show ?thesis using x by simp
qed

lemma invert_rows_eq:
  assumes "distinct ys" "0 \<le> x0" "x1 < rip_ega_w"
  shows "foldl (invert_row x0 x1) s ys =
    s\<lparr>eg_pix := \<lambda>a. if \<exists>y\<in>set ys. y * rip_ega_w + x0 \<le> a \<and> a \<le> y * rip_ega_w + x1
                  then (NOT (eg_pix s a)) AND 0x0F else eg_pix s a\<rparr>"
  using assms(1)
proof (induction ys rule: rev_induct)
  case (snoc y ys)
  have one: "\<not> (r * rip_ega_w + x0 \<le> a \<and> a \<le> r * rip_ega_w + x1)"
    if "y * rip_ega_w + x0 \<le> a" "a \<le> y * rip_ega_w + x1" "r \<in> set ys" for a r
  proof -
    have "r \<noteq> y" using that(3) snoc.prems by auto
    then show ?thesis using row_major_disjoint [of r y "a - y * rip_ega_w" rip_ega_w] that(1,2) assms(2,3) by auto
  qed
  show ?case
    unfolding foldl_append foldl.simps snoc.IH [OF distinct_append [THEN iffD1, THEN conjunct1, OF snoc.prems]]
    using one by (simp add: invert_row_def, intro arg_cong [where f = "\<lambda>m. s\<lparr>eg_pix := m\<rparr>"] ext) auto
qed simp

text \<open>The highest region that holds a point.\<close>

lemma button_at_loop_eq:
  "button_at_loop bs x y n =
     (let hits = filter (\<lambda>i. in_rect (rb_rect (bs ! i)) x y) [0..<n] in if hits = [] then -1 else int (last hits))"
  by (induction n) (auto simp: Let_def)

text \<open>A text argument as a host writes it.\<close>

fun rip_escape :: "byte list \<Rightarrow> byte list" where
  "rip_escape [] = []"
| "rip_escape (c # s) = (if is_escaped c then [0x5C, c] else [c]) @ rip_escape s"

lemma take_text_escape:
  "length acc + length tx < outsz \<Longrightarrow> rest = [] \<or> hd rest = 0x7C \<Longrightarrow>
    rip_take_text outsz acc (rip_escape tx @ rest) = (acc @ tx, rest)"
proof (induction tx arbitrary: acc)
  case Nil
  then show ?case by (cases rest rule: rip_skip_unknown.cases) (auto simp: is_escaped_def)
next
  case (Cons c tx)
  have put: "text_put outsz acc c = acc @ [c]" using Cons.prems(1) by (simp add: text_put_def)
  have IH: "rip_take_text outsz (acc @ [c]) (rip_escape tx @ rest) = (acc @ c # tx, rest)"
    using Cons.IH [of "acc @ [c]"] Cons.prems by simp
  show ?case
  proof (cases "is_escaped c")
    case True
    then show ?thesis using IH put by simp
  next
    case False
    then have "c \<noteq> 0x5C" "c \<noteq> 0x7C" by (auto simp: is_escaped_def)
    then have "rip_take_text outsz acc (c # r) = rip_take_text outsz (acc @ [c]) r" for r
      using put by (cases r) auto
    then show ?thesis using IH False by simp
  qed
qed


text \<open>Feeding a byte that ends no line; and two lines that the examples below send.\<close>

lemma step_plain:
  "c \<noteq> 0x0D \<Longrightarrow> c \<noteq> 0x0A \<Longrightarrow> length (rp_line p) < rip_line_max - 1 \<Longrightarrow>
    rip_step ev p c = p\<lparr>rp_last_was_cr := False, rp_line := rp_line p @ [c]\<rparr>"
  by (simp add: rip_step_def rip_feed_byte_def Let_def)

lemma parser_init_fields [simp]:
  "rp_line (rip_parser_init surf) = []" "rp_continued (rip_parser_init surf) = False"
  "rp_surf (rip_parser_init surf) = rip_ega_reset surf"
  by (simp_all add: rip_parser_init_def rip_parser_reset_def)

lemmas parse_simps = line_actions_def parse_line.simps rip_find_cmd_def rip_cmds_def Let_def rip_meganum_def
  megadigit_def is_digit_def

lemma line_sample:
  "line_actions ev (asc ''!|c03|L0000HRCM'') =
    [Exec [] (ch CHR ''c'') [3] [] [], Exec [] (ch CHR ''L'') [0, 0, 639, 454] [] []]"
  by (simp add: parse_simps ch_def)

lemma line_overflow:
  "line_actions ev (asc ''!|vJG00M80A|E'') =
    [Exec [] (ch CHR ''v'') [700, 0, 800, 10] [] [], Exec [] (ch CHR ''E'') [] [] []]"
  by (simp add: parse_simps ch_def)

subsection \<open>Properties\<close>

text \<open>
  C4: whatever a host sends, the RIPscrip parser writes to no cell outside the 640 by 350 screen and
  keeps its invariant: a viewport in range, a line that fits its buffer, at most 64 regions, each with
  a command that is not empty and fits its field. The bytes must not carry a VIEWPORT command whose
  left edge lies past the right edge of the screen.
\<close>

theorem rip_stream_safe:
  assumes "rip_inv p" "run_ok (rip_step ev) (rip_byte_ok ev) p bs"
  shows "rip_inv (snd (rip_parser_feed ev p bs)) \<and>
    (\<forall>a. a \<notin> screen \<longrightarrow> eg_pix (rp_surf (snd (rip_parser_feed ev p bs))) a = eg_pix (rp_surf p) a)"
  using rip.run_inv [OF assms] rip.run_frame [OF assms] by (simp add: rip_parser_feed_def feed_snd)

lemma rip_stream_safe_witness:
  "\<forall>ev surf. rip_inv (snd (rip_parser_feed ev (rip_parser_init surf) (asc ''!|c03|L0000HRCM'' @ [0x0A])))"
proof (intro allI)
  fix ev surf
  have ok: "run_ok (rip_step ev) (rip_byte_ok ev) (rip_parser_init surf) (asc ''!|c03|L0000HRCM'' @ [0x0A])"
    using line_sample [of ev] by (simp add: rip_byte_ok_def step_plain rip_line_max_def ch_def rip_ega_w_def)
  show "rip_inv (snd (rip_parser_feed ev (rip_parser_init surf) (asc ''!|c03|L0000HRCM'' @ [0x0A])))"
    using rip_stream_safe [OF parser_init_inv ok] by simp
qed

text \<open>
  C5: the guard that the viewport lacks. A host that sends the thirteen characters
  \<open>!|vJG00M80A|E\<close> and a line feed sets a viewport whose left edge is 700 and whose right edge is clipped to
  639; the erase that follows passes \<open>memset\<close> the count -60, which as a \<open>size_t\<close> is nearly
  2 to the 64, and clears memory past the end of the screen.
\<close>

theorem rip_viewport_overflow:
  "eg_pix (rp_surf (snd (rip_parser_feed ev (rip_parser_init surf) (asc ''!|vJG00M80A|E'' @ [0x0A])))) 224100 = 0 \<and>
   224100 \<notin> screen"
proof -
  define p where "p = rip_parser_init surf\<lparr>rp_last_was_cr := False, rp_line := asc ''!|vJG00M80A|E''\<rparr>"
  let ?v = "rip_ega_set_viewport (rip_ega_reset surf) 700 0 800 10"
  have fed: "foldl (rip_step ev) (rip_parser_init surf) (asc ''!|vJG00M80A|E'' @ [0x0A]) = rip_step ev p 0x0A"
    by (simp add: step_plain rip_line_max_def p_def)
  have line: "rp_line p = asc ''!|vJG00M80A|E''" "rp_surf p = rip_ega_reset surf" "\<not> rp_last_was_cr p" by (simp_all add: p_def)
  have run: "rp_surf (snd (rip_handle_line ev (p\<lparr>rp_last_was_cr := False\<rparr>) (rp_line p))) = rip_ega_erase_view ?v"
    using line_overflow [of ev] line
    by (simp add: rip_handle_line_def line_actions_def rip_run_line_def run_action_def rip_exec_def exec_state_def
        needs_def on_surf_def ch_def)
  have view: "eg_vx0 ?v = 700" "eg_vx1 ?v = 639" "eg_vy0 ?v = 0" "eg_vy1 ?v = 10" "\<not> eg_disabled ?v"
    by (simp_all add: rip_ega_set_viewport_def rip_ega_w_def rip_ega_h_def)
  have "eg_pix (foldl erase_row ?v [0..10]) 224100 = 0"
    using view by (simp add: erase_row_def upto.simps mem_fill_apply size_t_of_def rip_ega_w_def rip_ega_h_def Let_def)
  then have "eg_pix (rip_ega_erase_view ?v) 224100 = 0" using view by (simp add: rip_ega_erase_view_def)
  then have "eg_pix (rp_surf (rip_step ev p 0x0A)) 224100 = 0"
    using run by (simp add: rip_step_def rip_feed_byte_def Let_def split_beta line rip_trailing_backslashes_def)
  then have "eg_pix (rp_surf (snd (rip_parser_feed ev (rip_parser_init surf) (asc ''!|vJG00M80A|E'' @ [0x0A])))) 224100 = 0"
    by (simp only: rip_parser_feed_def feed_snd snd_conv fed)
  then show ?thesis by (simp add: screen_def rip_ega_w_def rip_ega_h_def)
qed

text \<open>
  C34: a line between two ends that are 32-bit integers, not more than 2 to the 29 apart in either direction, is drawn by a loop
  that ends: no sum of the 32-bit arithmetic overflows on the way, and its pixels form a path from one end to the other, each next to
  the one before, all inside the box of the two ends, and no more of them than the two sides of the box together. The bound
  is the one under which the code's loop is right: the ends of a line command are at most 1295, but the text position,
  from which strokes are drawn, accumulates without a limit.
\<close>

theorem rip_line_ends:
  assumes "x0 \<in> {-2147483648..2147483647}" "y0 \<in> {-2147483648..2147483647}" "x1 \<in> {-2147483648..2147483647}"
    "y1 \<in> {-2147483648..2147483647}" "\<bar>x1 - x0\<bar> \<le> 2 ^ 29" "\<bar>y1 - y0\<bar> \<le> 2 ^ 29"
  shows "\<exists>path. ega_line_run s x0 y0 x1 y1 c = Some (foldl (rip_ega_pixel c) s path) \<and>
    ega_line_1px s x0 y0 x1 y1 c = foldl (rip_ega_pixel c) s path \<and> line_path x0 y0 x1 y1 path"
  using line_1px_path [of x0 x1 y0 y1 s c] assms by (auto simp: ega_line_1px_def)

theorem rip_line_ends_witness:
  "\<forall>s. \<exists>path. ega_line_1px s 0 0 639 349 15 = foldl (rip_ega_pixel 15) s path \<and> line_path 0 0 639 349 path"
  using rip_line_ends [of 0 0 639 349 _ 15] by auto

text \<open>
  every command that draws (primitives, text, curves, buttons) changes nothing of the surface but
  pixels of the viewport, and none of those when the viewport is disabled.
\<close>

theorem rip_commands_clip:
  assumes "level \<noteq> [] \<and> hd level = 0x31 \<or> level = [] \<and> cmd \<in> set (map ch ''XLRBPplYT@mCOoAVIi'')"
  shows "draws (rp_surf p) (rp_surf (snd (rip_exec ev p level cmd a pts tx)))"
  using assms
proof
  assume "level \<noteq> [] \<and> hd level = 0x31"
  then show ?thesis by (simp add: rip_exec_def level1_draws)
next
  assume l: "level = [] \<and> cmd \<in> set (map ch ''XLRBPplYT@mCOoAVIi'')"
  then have "cmd \<notin> set (map ch ''*EvW'')" "cmd \<notin> set (map ch ''cS=Qa'')" by (auto simp: ch_def)
  then show ?thesis
    using l primitive_draws exec_text_draws exec_curve_draws by (simp add: rip_exec_def del: list.map list.set insert_iff)
qed

lemma rip_commands_clip_witness:
  "\<forall>ev p. draws (rp_surf p) (rp_surf (snd (rip_exec ev p [] (ch CHR ''L'') [0, 0, 639, 454] [] [])))"
  using rip_commands_clip [of "[]" "ch CHR ''L''"] by (simp add: ch_def)

text \<open>
  inverting a rectangle, which is how a pressed button is shown, is undone by inverting it again.
\<close>

theorem rip_invert_twice:
  assumes "\<forall>a\<in>screen. eg_pix s a \<le> 15"
  shows "rip_ega_invert_rect (rip_ega_invert_rect s x0 y0 x1 y1) x0 y0 x1 y1 = s"
proof -
  have pix: "(NOT ((NOT (eg_pix s (y * rip_ega_w + x))) AND 0x0F)) AND 0x0F = eg_pix s (y * rip_ega_w + x)"
    if "0 \<le> y" "y < rip_ega_h" "0 \<le> x" "x < rip_ega_w" for x y
    using assms row_major_bounds [OF that] by (intro invert_nibble) (simp add: screen_def mult.commute)
  have "foldl (invert_row a b) (foldl (invert_row a b) s [c..d]) [c..d] = s"
    if "0 \<le> a" "b < rip_ega_w" "0 \<le> c" "d < rip_ega_h" for a b c d
  proof -
    have "(NOT ((NOT (eg_pix s n)) AND 0x0F)) AND 0x0F = eg_pix s n"
      if "y \<in> {c..d}" "y * rip_ega_w + a \<le> n" "n \<le> y * rip_ega_w + b" for y n
      using pix [of y "n - y * rip_ega_w"] that \<open>0 \<le> a\<close> \<open>b < rip_ega_w\<close> \<open>0 \<le> c\<close> \<open>d < rip_ega_h\<close> by simp
    then show ?thesis using that
      by (simp add: invert_rows_eq, intro rip_ega.equality) (auto simp: fun_eq_iff)
  qed
  then show ?thesis by (simp add: rip_ega_invert_rect_def Let_def split_beta)
qed

lemma rip_invert_twice_witness:
  "\<forall>s. rip_ega_invert_rect (rip_ega_invert_rect (rip_ega_reset s) 10 20 60 30) 10 20 60 30 = rip_ega_reset s"
  using rip_invert_twice [of "rip_ega_reset s" for s]
  by (simp add: rip_ega_reset_def mem_fill_apply screen_def)

text \<open>
  a text argument reads back as the host wrote it. Bars, exclamation marks and backslashes escaped by a
  backslash come back as themselves, and the text ends at the bar of the next command.
\<close>

theorem rip_text_roundtrip:
  assumes "length tx < outsz" "rest = [] \<or> hd rest = 0x7C"
  shows "rip_take_text outsz [] (rip_escape tx @ rest) = (tx, rest)"
  using take_text_escape [of "[]" tx outsz rest] assms by simp

lemma rip_text_roundtrip_witness:
  "rip_take_text 8 [] (rip_escape [0x41, 0x7C, 0x5C] @ [0x7C, 0x45]) = ([0x41, 0x7C, 0x5C], [0x7C, 0x45])"
  by (rule rip_text_roundtrip) simp_all

end
