(* ===== verification/Gopher.thy ===== *)
theory Gopher
  imports TcpSession CText
begin

section \<open>Gopher URLs, transport and menus (gopher\_protocol.c, gophermap.c)\<close>

text \<open>
  The URL parser and builder, the synchronous fetch with its removal of dot-stuffing in place, and the
  parser of menu replies. The allocator is an argument: \<open>mem n\<close> says whether the \<open>n\<close>-th request of
  a call is granted. A string the code copies into memory of its own is read back as a C string,
  so \<open>cstr\<close> cuts it at a NUL.
\<close>

subsection \<open>URLs\<close>

definition gopher_default_port :: int where "gopher_default_port = 70"

text \<open>The port after a colon: what \<open>atoi\<close> makes of at most 15 digits, if it is a port.\<close>

definition url_port :: "byte list \<Rightarrow> int" where
  "url_port ds =
     (if ds = [] then gopher_default_port
      else let port = atoi (take 15 ds)
           in if port \<le> 0 \<or> port > 65535 then gopher_default_port else port)"

definition after_scheme :: "byte list \<Rightarrow> byte list" where
  "after_scheme url =
     (if starts_with url ''gopher://'' then drop 9 url
      else if starts_with url ''GOPHER://'' then drop 9 url else url)"

text \<open>The result code; and host, port, type and selector where it is 0.\<close>

definition gopher_parse_url ::
  "(nat \<Rightarrow> bool) \<Rightarrow> byte list \<Rightarrow> int \<times> (byte list \<times> int \<times> byte \<times> byte list) option" where
  "gopher_parse_url mem url =
     (let p = after_scheme url;
          host = takeWhile (\<lambda>c. c \<noteq> 0x3A \<and> c \<noteq> 0x2F) p;
          p1 = drop (length host) p;
          (port, p2) =
            (if p1 \<noteq> [] \<and> hd p1 = 0x3A
             then (url_port (takeWhile is_digit (tl p1)), dropWhile is_digit (tl p1))
             else (gopher_default_port, p1));
          path = (if p2 \<noteq> [] \<and> hd p2 = 0x2F then tl p2 else p2);
          (type, selector) = (if path = [] then (0x31, []) else (hd path, tl path))
      in if \<not> mem 0 then (2, None)
         else if host = [] then (3, None)
         else if \<not> mem 1 then (2, None)
         else (0, Some (host, port, type, selector)))"

definition gopher_build_url :: "bool \<Rightarrow> byte list \<Rightarrow> int \<Rightarrow> byte \<Rightarrow> byte list \<Rightarrow> byte list option" where
  "gopher_build_url mem_ok host port type selector =
     (let port_buf = (if port > 0 \<and> port \<noteq> gopher_default_port then asc '':'' @ dec_bytes (nat port) else [])
      in if \<not> mem_ok then None
         else Some (cstr (asc ''gopher://'' @ host @ port_buf @ asc ''/'' @ [type] @ selector)))"

subsection \<open>Dot-stuffing\<close>

text \<open>The end of the line that starts at \<open>r\<close>, its newline included.\<close>

function line_end :: "(int \<Rightarrow> byte) \<Rightarrow> nat \<Rightarrow> nat \<Rightarrow> nat" where
  "line_end m len r = (if r < len then if m (int r) = 0x0A then r + 1 else line_end m len (r + 1) else r)"
  by pat_completeness auto
termination by (relation "measure (\<lambda>(m, len, r). len - r)") auto

declare line_end.simps [simp del]

lemma line_end_bounds: "r < len \<Longrightarrow> r < line_end m len r \<and> line_end m len r \<le> len"
proof (induction m len r rule: line_end.induct)
  case (1 m len r)
  have len: "line_end m len len = len" by (simp add: line_end.simps)
  show ?case
  proof (cases "r + 1 < len")
    case True
    then show ?thesis using 1 by (auto simp: line_end.simps [of m len r])
  next
    case False
    then have "r + 1 = len" using 1(2) by simp
    then show ?thesis using len by (auto simp: line_end.simps [of m len r])
  qed
qed

definition lone_dot :: "byte list \<Rightarrow> bool" where
  "lone_dot l \<longleftrightarrow> l = [0x2E, 0x0A] \<or> l = [0x2E, 0x0D, 0x0A] \<or> l = [0x2E]"

function undot_loop :: "(int \<Rightarrow> byte) \<Rightarrow> nat \<Rightarrow> nat \<Rightarrow> nat \<Rightarrow> (int \<Rightarrow> byte) \<times> nat" where
  "undot_loop m len r w =
     (if r < len then
        let e = line_end m len r; n = e - r; line = mem_slice m (int r) (int n)
        in if lone_dot line then (m, w)
           else if n \<ge> 2 \<and> m (int r) = 0x2E \<and> m (int r + 1) = 0x2E
           then undot_loop (mem_move m (int w) (int r + 1) (int n - 1)) len e (w + n - 1)
           else undot_loop (if w \<noteq> r then mem_move m (int w) (int r) (int n) else m) len e (w + n)
      else (m, w))"
  by pat_completeness auto
termination
proof (relation "measure (\<lambda>(m, len, r, w). len - r)", goal_cases)
  case (2 m len r w)
  then show ?case using line_end_bounds [of r len m] by (auto intro: diff_less_mono2)
next
  case (3 m len r w)
  then show ?case using line_end_bounds [of r len m] by (auto intro: diff_less_mono2)
qed simp

declare undot_loop.simps [simp del]

definition gopher_undot_inplace :: "(int \<Rightarrow> byte) \<Rightarrow> nat \<Rightarrow> (int \<Rightarrow> byte) \<times> nat" where
  "gopher_undot_inplace m len = undot_loop m len 0 0"

subsection \<open>The fetch\<close>

datatype gopher_kind = GOPHER_KIND_MENU | GOPHER_KIND_TEXT | GOPHER_KIND_BINARY

text \<open>\<open>new_cap *= 2\<close> until the chunk fits.\<close>

function grow_cap :: "nat \<Rightarrow> nat \<Rightarrow> nat" where
  "grow_cap cap need = (if 0 < cap \<and> cap < need then grow_cap (2 * cap) need else cap)"
  by pat_completeness auto
termination by (relation "measure (\<lambda>(cap, need). need - cap)") auto

declare grow_cap.simps [simp del]

definition gopher_init_cap :: nat where "gopher_init_cap = 65536"

text \<open>
  The receive loop: the bytes so far, the capacity of the buffer, the number of the next memory request, and
  what each \<open>recv\<close> brings. \<open>None\<close> where memory ran out.
\<close>

fun gopher_recv ::
  "(nat \<Rightarrow> bool) \<Rightarrow> nat \<Rightarrow> nat \<Rightarrow> byte list \<Rightarrow> recv_result list \<Rightarrow> (byte list \<times> nat \<times> nat) option" where
  "gopher_recv mem k cap buf [] = Some (buf, cap, k)"
| "gopher_recv mem k cap buf (r # rs) =
     (case r of
        RData d \<Rightarrow>
          (if d = [] then Some (buf, cap, k)
           else if length buf + length d > cap then
             (if \<not> mem k then None
              else gopher_recv mem (Suc k) (grow_cap cap (length buf + length d)) (buf @ d) rs)
           else gopher_recv mem k cap (buf @ d) rs)
      | RClosed \<Rightarrow> Some (buf, cap, k)
      | RError \<Rightarrow> Some (buf, cap, k))"

text \<open>The socket with what was sent, the result code, and the body where it is 0.\<close>

definition gopher_fetch_sync ::
  "(nat \<Rightarrow> bool) \<Rightarrow> tcp_sock \<Rightarrow> (bool \<times> bool) list option \<Rightarrow> recv_result list \<Rightarrow> int \<Rightarrow> byte list \<Rightarrow> gopher_kind \<Rightarrow>
     tcp_sock \<times> int \<times> byte list option" where
  "gopher_fetch_sync mem s res rs port selector kind =
     (if port \<le> 0 then (s, 1, None)
      else case (case res of None \<Rightarrow> None | Some ais \<Rightarrow> first_connect 0 ais) of
        None \<Rightarrow> (s, 2, None)
      | Some _ \<Rightarrow>
          (if \<not> mem 0 then (s, 3, None)
           else case sock_send (s\<lparr>sk_open := True\<rparr>) (selector @ [0x0D, 0x0A]) of
             (sent, s1) \<Rightarrow>
               let s2 = s1\<lparr>sk_open := False\<rparr> in
               if sent < 0 then (s2, 4, None)
               else if \<not> mem 1 then (s2, 3, None)
               else case gopher_recv mem 2 gopher_init_cap [] rs of
                 None \<Rightarrow> (s2, 3, None)
               | Some (buf, cap, k) \<Rightarrow>
                   let (m, len) = (if kind = GOPHER_KIND_MENU \<or> kind = GOPHER_KIND_TEXT
                                   then gopher_undot_inplace (mem_write (\<lambda>_. 0) 0 buf) (length buf)
                                   else (mem_write (\<lambda>_. 0) 0 buf, length buf))
                   in if len + 1 > cap \<and> \<not> mem k then (s2, 3, None)
                      else (s2, 0, Some (mem_slice m 0 (int len)))))"

subsection \<open>Menus\<close>

record gopher_item =
  gi_type :: byte
  gi_display :: "byte list"
  gi_selector :: "byte list"
  gi_host :: "byte list"
  gi_port :: int

text \<open>The items, their number, the capacity of the array and the number of the next memory request.\<close>

record gophermap_state =
  gm_items :: "gopher_item list"
  gm_cap :: nat
  gm_req :: nat

definition items_push :: "(nat \<Rightarrow> bool) \<Rightarrow> gophermap_state \<Rightarrow> gopher_item \<Rightarrow> gophermap_state option" where
  "items_push mem st it =
     (if length (gm_items st) \<ge> gm_cap st then
        (if \<not> mem (gm_req st) then None
         else Some (st\<lparr>gm_items := gm_items st @ [it], gm_req := Suc (gm_req st),
                       gm_cap := (if gm_cap st * 2 = 0 then 64 else gm_cap st * 2)\<rparr>))
      else Some (st\<lparr>gm_items := gm_items st @ [it]\<rparr>))"

text \<open>Up to a tab, and what follows it.\<close>

definition cut_tab :: "byte list \<Rightarrow> byte list \<times> byte list option" where
  "cut_tab s =
     (takeWhile (\<lambda>c. c \<noteq> 9) s,
      case dropWhile (\<lambda>c. c \<noteq> 9) s of [] \<Rightarrow> None | _ # r \<Rightarrow> Some r)"

definition port_field :: "byte list \<Rightarrow> int" where
  "port_field s = (let p = atoi (cstr (take 15 s)) in if p > 0 \<and> p \<le> 65535 then p else 70)"

definition info_item :: "byte list \<Rightarrow> gopher_item" where
  "info_item line = \<lparr>gi_type = 0x69, gi_display = cstr line, gi_selector = [], gi_host = [], gi_port = 70\<rparr>"

definition menu_item :: "byte list \<Rightarrow> gopher_item" where
  "menu_item line =
     (let (display, r1) = cut_tab (tl line);
          (selector, r2) = (case r1 of None \<Rightarrow> ([], None) | Some s \<Rightarrow> cut_tab s);
          (host, r3) = (case r2 of None \<Rightarrow> ([], None) | Some s \<Rightarrow> cut_tab s);
          port = (case r3 of None \<Rightarrow> 70 | Some s \<Rightarrow> port_field s)
      in \<lparr>gi_type = hd line, gi_display = cstr display, gi_selector = cstr selector, gi_host = cstr host, gi_port = port\<rparr>)"

definition item_of_line :: "byte list \<Rightarrow> gopher_item" where
  "item_of_line line = (if 9 \<in> set line then menu_item line else info_item line)"

definition trim_cr :: "byte list \<Rightarrow> byte list" where
  "trim_cr l = (if l \<noteq> [] \<and> last l = 0x0D then butlast l else l)"

function menu_loop :: "(nat \<Rightarrow> bool) \<Rightarrow> byte list \<Rightarrow> gophermap_state \<Rightarrow> gophermap_state option" where
  "menu_loop mem s st =
     (if s = [] then Some st
      else
        let l = takeWhile (\<lambda>c. c \<noteq> 0x0A) s;
            rest = drop (Suc (length l)) s;
            line = trim_cr l
        in if line = [] then menu_loop mem rest st
           else if line = [0x2E] then Some st
           else if \<not> (mem (gm_req st) \<and> mem (gm_req st + 1) \<and> mem (gm_req st + 2)) then None
           else case items_push mem (st\<lparr>gm_req := gm_req st + 3\<rparr>) (item_of_line line) of
                  None \<Rightarrow> None
                | Some st1 \<Rightarrow> menu_loop mem rest st1)"
  by pat_completeness auto
termination by (relation "measure (\<lambda>(mem, s, st). length s)") auto

declare menu_loop.simps [simp del]

text \<open>The count, and the array where there is one.\<close>

definition gophermap_parse :: "(nat \<Rightarrow> bool) \<Rightarrow> byte list \<Rightarrow> int \<times> gopher_item list option" where
  "gophermap_parse mem buf =
     (if buf = [] then (0, None)
      else if \<not> mem 0 then (0, None)
      else case menu_loop mem buf \<lparr>gm_items = [], gm_cap = 64, gm_req = 1\<rparr> of
             None \<Rightarrow> (0, None)
           | Some st \<Rightarrow> (int (length (gm_items st)), Some (gm_items st)))"

end
