(* ===== verification/GopherNet.thy ===== *)
theory GopherNet
  imports Gopher
begin

section \<open>Gopher: round trips, dot-stuffing in place, menus delivered\<close>

text \<open>
  What a builder writes and a parser reads: URLs; a text that a server stuffs with dots and the loop
  that takes the stuffing out within the buffer; and a menu from the server's items to the parser's.
\<close>

subsection \<open>URLs\<close>

lemma takeWhile_stop: "(\<And>x. x \<in> set xs \<Longrightarrow> P x) \<Longrightarrow> ys = [] \<or> \<not> P (hd ys) \<Longrightarrow> takeWhile P (xs @ ys) = xs"
  by (cases ys) (auto simp: takeWhile_append)

lemma dropWhile_stop: "(\<And>x. x \<in> set xs \<Longrightarrow> P x) \<Longrightarrow> ys = [] \<or> \<not> P (hd ys) \<Longrightarrow> dropWhile P (xs @ ys) = ys"
  by (cases ys) (auto simp: dropWhile_append)

lemma port_digits:
  assumes "0 < port" "port \<le> (65535 :: int)"
  shows "url_port (dec_bytes (nat port)) = port"
proof -
  have "length (dec_bytes (nat port)) \<le> 5"
    unfolding dec_bytes_def using assms by (intro dec_digits_length) auto
  then show ?thesis using assms dec_bytes_not_Nil [of "nat port"]
    by (simp add: url_port_def atoi_dec_bytes)
qed

text \<open>A host that a URL can carry: not empty, without colon, slash and NUL.\<close>

definition url_host :: "byte list \<Rightarrow> bool" where
  "url_host h \<longleftrightarrow> h \<noteq> [] \<and> 0x3A \<notin> set h \<and> 0x2F \<notin> set h \<and> 0 \<notin> set h"

lemma after_scheme_gopher [simp]: "after_scheme (asc ''gopher://'' @ p) = p"
  by (simp only: after_scheme_def starts_with_append if_True) simp

lemma parse_build:
  assumes "url_host host" "0 < port" "port \<le> 65535" "type \<noteq> 0" "0 \<notin> set selector" "mem 0" "mem 1"
  shows "\<exists>url. gopher_build_url True host port type selector = Some url \<and>
    gopher_parse_url mem url = (0, Some (host, port, type, selector))"
proof -
  define pb where "pb = (if port \<noteq> gopher_default_port then 0x3A # dec_bytes (nat port) else [])"
  let ?tail = "0x2F # type # selector"
  have dig: "x \<noteq> 0" if "x \<in> set (dec_bytes (nat port))" for x
    using dec_bytes_all [of "nat port"] that is_digit_not by (auto simp: list_all_iff)
  have "0 \<notin> set (asc ''gopher://'' @ host @ pb @ ?tail)"
    using assms dig by (auto simp: pb_def url_host_def)
  then have build: "gopher_build_url True host port type selector = Some (asc ''gopher://'' @ host @ pb @ ?tail)"
    using assms(2) unfolding gopher_build_url_def by (simp add: Let_def pb_def cstr_id)
  have h: "takeWhile (\<lambda>c. c \<noteq> 0x3A \<and> c \<noteq> 0x2F) (host @ pb @ ?tail) = host"
    using assms(1) by (intro takeWhile_stop) (auto simp: url_host_def pb_def)
  have d: "takeWhile is_digit (dec_bytes (nat port) @ ?tail) = dec_bytes (nat port)"
    "dropWhile is_digit (dec_bytes (nat port) @ ?tail) = ?tail"
    using dec_bytes_all [of "nat port"] by (auto intro!: takeWhile_stop dropWhile_stop simp: list_all_iff is_digit_def)
  have "gopher_parse_url mem (asc ''gopher://'' @ host @ pb @ ?tail) = (0, Some (host, port, type, selector))"
  proof (cases "port = gopher_default_port")
    case True
    then show ?thesis
      using assms(1,6,7) h unfolding gopher_parse_url_def after_scheme_gopher
      by (simp add: pb_def Let_def url_host_def gopher_default_port_def)
  next
    case False
    then show ?thesis
      using assms(1,6,7) h d port_digits [OF assms(2,3)] unfolding gopher_parse_url_def after_scheme_gopher
      by (simp add: pb_def Let_def url_host_def)
  qed
  with build show ?thesis by blast
qed

subsection \<open>Dot-stuffing undone in place is dot-stuffing undone\<close>

text \<open>The reference: the lines of a text, one after the other.\<close>

definition first_line :: "byte list \<Rightarrow> byte list" where
  "first_line s = takeWhile (\<lambda>c. c \<noteq> 0x0A) s @ take 1 (dropWhile (\<lambda>c. c \<noteq> 0x0A) s)"

lemma first_line_Cons: "first_line (c # s) = (if c = 0x0A then [c] else c # first_line s)"
  by (simp add: first_line_def)

lemma first_line_split: "first_line s @ drop (length (first_line s)) s = s"
proof (induction s)
  case (Cons c s)
  then show ?case by (simp add: first_line_Cons)
qed (simp add: first_line_def)

function undot :: "byte list \<Rightarrow> byte list" where
  "undot s =
     (if s = [] then []
      else
        let l = first_line s; rest = drop (length l) s
        in if lone_dot l then []
           else (if take 2 l = [0x2E, 0x2E] then tl l else l) @ undot rest)"
  by pat_completeness auto
termination
proof (relation "measure length", goal_cases)
  case (2 s l rest)
  then show ?case by (cases s) (auto simp: first_line_Cons)
qed simp

declare undot.simps [simp del]

lemma mem_slice_0 [simp]: "mem_slice m a 0 = []"
  by (simp add: mem_slice_def)

lemma mem_slice_Suc: "mem_slice m a (int (Suc n)) = m a # mem_slice m (a + 1) (int n)"
proof -
  have "[0..<nat (int (Suc n))] = 0 # map Suc [0..<n]" by (simp only: nat_int map_Suc_upt upt_conv_Cons zero_less_Suc)
  then show ?thesis unfolding mem_slice_def by (simp only: list.map map_map o_def) (simp add: add.assoc)
qed

lemma mem_slice_add: "mem_slice m a (int (k + n)) = mem_slice m a (int k) @ mem_slice m (a + int k) (int n)"
  by (induction k arbitrary: a) (simp_all add: mem_slice_Suc add.assoc del: of_nat_Suc of_nat_add, simp add: algebra_simps)

lemma slice_line:
  "r \<le> len \<Longrightarrow> mem_slice m (int r) (int (line_end m len r - r)) = first_line (mem_slice m (int r) (int (len - r)))"
proof (induction m len r rule: line_end.induct)
  case (1 m len r)
  show ?case
  proof (cases "r < len")
    case True
    then have n: "len - r = Suc (len - (r + 1))" by simp
    have le: "r + 1 \<le> line_end m len (r + 1)" if "m (int r) \<noteq> 0x0A"
      using line_end_bounds [of "r + 1" len m] True by (cases "r + 1 < len") (auto simp: line_end.simps)
    show ?thesis
    proof (cases "m (int r) = 0x0A")
      case nl: True
      have one: "line_end m len r - r = Suc 0" using True nl by (simp add: line_end.simps [of m len r])
      show ?thesis unfolding n one using nl by (simp add: mem_slice_Suc first_line_Cons del: of_nat_Suc)
    next
      case False
      then have e: "line_end m len r - r = Suc (line_end m len (r + 1) - (r + 1))"
        using True le by (simp add: line_end.simps [of m len r])
      show ?thesis unfolding n e mem_slice_Suc first_line_Cons using 1 True False by (simp add: add.commute)
    qed
  next
    case False
    then show ?thesis using 1(2) by (simp add: line_end.simps first_line_def)
  qed
qed

lemma mem_move_frame: "a < 0 \<or> int len \<le> a \<Longrightarrow> 0 \<le> d \<Longrightarrow> d + n \<le> int len \<Longrightarrow> mem_move m d s n a = m a"
  by (auto simp: mem_move_def)

lemma mem_slice_move_below: "a + n \<le> d \<Longrightarrow> mem_slice (mem_move m d s k) a n = mem_slice m a n"
  by (rule mem_slice_cong) (simp add: mem_move_apply)

lemma mem_slice_move_above: "d + k \<le> a \<Longrightarrow> mem_slice (mem_move m d s k) a n = mem_slice m a n"
  by (rule mem_slice_cong) (simp add: mem_move_apply)

lemma mem_slice_move_self: "mem_slice (mem_move m d s n) d n = mem_slice m s n"
  by (rule mem_slice_cong) (simp add: mem_move_apply)

text \<open>What the loop sees of a line, against the reference.\<close>

definition unstuffed :: "byte list \<Rightarrow> byte list" where
  "unstuffed l = (if take 2 l = [0x2E, 0x2E] then tl l else l)"

lemma undot_slice:
  fixes m :: "int \<Rightarrow> byte"
  assumes "r < len"
  defines "e \<equiv> line_end m len r"
  defines "line \<equiv> mem_slice m (int r) (int (e - r))"
  shows "undot (mem_slice m (int r) (int (len - r))) =
    (if lone_dot line then [] else unstuffed line @ undot (mem_slice m (int e) (int (len - e))))"
proof -
  have e: "r < e" "e \<le> len" using line_end_bounds [OF assms(1)] by (simp_all add: e_def)
  then have n: "len - r = (e - r) + (len - e)" "int r + int (e - r) = int e" by auto
  have line: "line = first_line (mem_slice m (int r) (int (len - r)))"
    using slice_line [of r len m] assms(1) by (simp add: line_def e_def)
  have whole: "mem_slice m (int r) (int (len - r)) = line @ mem_slice m (int e) (int (len - e))"
    unfolding n(1) mem_slice_add line_def n(2) by simp
  have ne: "mem_slice m (int r) (int (len - r)) \<noteq> []"
    using assms(1) by (simp add: mem_slice_def)
  show ?thesis
    by (subst undot.simps) (simp only: ne if_False Let_def line [symmetric], simp only: whole append_eq_conv_conj, simp add: unstuffed_def)
qed

lemma stuffed_slice:
  "take 2 (mem_slice m a (int n)) = [0x2E, 0x2E] \<longleftrightarrow> n \<ge> 2 \<and> m a = (0x2E :: byte) \<and> m (a + 1) = 0x2E"
proof (cases "n \<ge> 2")
  case True
  then obtain k where k: "n = Suc (Suc k)" by (metis Suc_le_D numeral_2_eq_2 Suc_le_mono)
  show ?thesis unfolding k by (simp add: mem_slice_Suc del: of_nat_Suc)
next
  case False
  then have "length (take 2 (mem_slice m a (int n))) \<noteq> length [0x2E :: byte, 0x2E]" by simp
  then show ?thesis using False by metis
qed

lemma tl_slice: "0 < n \<Longrightarrow> tl (mem_slice m a (int n)) = mem_slice m (a + 1) (int (n - 1))"
  by (cases n) (simp_all add: mem_slice_Suc del: of_nat_Suc)

text \<open>A step that copies \<open>k\<close> cells down from \<open>s\<close>.\<close>

lemma copy_down:
  fixes m :: "int \<Rightarrow> byte"
  assumes "w \<le> s" "s + k = e" "e \<le> len"
  defines "m1 \<equiv> mem_move m (int w) (int s) (int k)"
  shows "mem_slice m1 0 (int (w + k)) = mem_slice m 0 (int w) @ mem_slice m (int s) (int k)"
    and "mem_slice m1 (int e) (int (len - e)) = mem_slice m (int e) (int (len - e))"
    and "a < 0 \<or> int len \<le> a \<Longrightarrow> m1 a = m a"
proof -
  show "mem_slice m1 0 (int (w + k)) = mem_slice m 0 (int w) @ mem_slice m (int s) (int k)"
    unfolding m1_def mem_slice_add by (simp add: mem_slice_move_below mem_slice_move_self)
  show "mem_slice m1 (int e) (int (len - e)) = mem_slice m (int e) (int (len - e))"
    unfolding m1_def using assms by (intro mem_slice_move_above) simp
  show "a < 0 \<or> int len \<le> a \<Longrightarrow> m1 a = m a"
    unfolding m1_def using assms by (intro mem_move_frame [of a len]) auto
qed

lemma mem_move_same: "mem_move m a a n = m"
  by (rule ext) (simp add: mem_move_apply)

lemma undot_loop_step:
  fixes m :: "int \<Rightarrow> byte"
  assumes "w \<le> r" "r < len"
  defines "e \<equiv> line_end m len r"
  defines "line \<equiv> mem_slice m (int r) (int (e - r))"
  assumes "\<not> lone_dot line"
  obtains m1 w1 where "undot_loop m len r w = undot_loop m1 len e w1" "w1 \<le> e"
    "mem_slice m1 0 (int w1) = mem_slice m 0 (int w) @ unstuffed line"
    "mem_slice m1 (int e) (int (len - e)) = mem_slice m (int e) (int (len - e))"
    "\<forall>a. a < 0 \<or> int len \<le> a \<longrightarrow> m1 a = m a"
proof -
  have e: "r < e" "e \<le> len" using line_end_bounds [OF assms(2)] by (simp_all add: e_def)
  define n where "n = e - r"
  have loop: "undot_loop m len r w =
      (if take 2 line = [0x2E, 0x2E] then undot_loop (mem_move m (int w) (int r + 1) (int n - 1)) len e (w + n - 1)
       else undot_loop (mem_move m (int w) (int r) (int n)) len e (w + n))"
    using assms(2,5) unfolding line_def stuffed_slice
    by (subst undot_loop.simps) (simp add: Let_def e_def [symmetric] n_def [symmetric] mem_move_same)
  show ?thesis
  proof (cases "take 2 line = [0x2E, 0x2E]")
    case True
    then have n2: "n \<ge> 2" unfolding line_def stuffed_slice n_def by simp
    then have i: "int n - 1 = int (n - 1)" "w + n - 1 = w + (n - 1)" "int r + 1 = int (r + 1)" by auto
    have tl: "unstuffed line = mem_slice m (int (r + 1)) (int (n - 1))"
      using True n2 tl_slice [of n m "int r"] by (simp add: unstuffed_def line_def n_def i(3))
    note c = copy_down [where m = m and w = w and s = "r + 1" and k = "n - 1" and e = e and len = len]
    show ?thesis
      using loop True c assms(1) e n2 unfolding i tl [symmetric]
      by (intro that [of "mem_move m (int w) (int (r + 1)) (int (n - 1))" "w + (n - 1)"]) (auto simp: n_def)
  next
    case False
    then have u: "unstuffed line = mem_slice m (int r) (int n)" by (simp add: unstuffed_def line_def n_def)
    note c = copy_down [where m = m and w = w and s = r and k = n and e = e and len = len]
    show ?thesis
      using loop False c assms(1) e unfolding u [symmetric]
      by (intro that [of "mem_move m (int w) (int r) (int n)" "w + n"]) (auto simp: n_def)
  qed
qed

text \<open>
  The loop, from any point: what was written stays, what is left of the text is appended with its stuffing undone,
  and nothing past the text is touched.
\<close>

lemma undot_loop_spec:
  assumes "w \<le> r" "r \<le> len" "undot_loop m len r w = (m', w')"
  shows "w' \<le> len \<and> mem_slice m' 0 (int w') = mem_slice m 0 (int w) @ undot (mem_slice m (int r) (int (len - r))) \<and>
      (\<forall>a. a < 0 \<or> int len \<le> a \<longrightarrow> m' a = m a)"
  using assms
proof (induction "len - r" arbitrary: m r w rule: less_induct)
  case less
  show ?case
  proof (cases "r < len")
    case False
    then show ?thesis using less.prems by (auto simp: undot_loop.simps undot.simps)
  next
    case True
    define e where "e = line_end m len r"
    define line where "line = mem_slice m (int r) (int (e - r))"
    note undot = undot_slice [OF True, of m, folded e_def, folded line_def]
    show ?thesis
    proof (cases "lone_dot line")
      case lone: True
      have "undot_loop m len r w = (m, w)"
        using True lone by (subst undot_loop.simps) (simp add: Let_def line_def e_def)
      then have "m' = m" "w' = w" using less.prems(3) by simp_all
      then show ?thesis unfolding undot using lone less.prems(1,2) by simp
    next
      case False
      obtain m1 w1 where s: "undot_loop m len r w = undot_loop m1 len e w1" "w1 \<le> e"
        "mem_slice m1 0 (int w1) = mem_slice m 0 (int w) @ unstuffed line"
        "mem_slice m1 (int e) (int (len - e)) = mem_slice m (int e) (int (len - e))"
        "\<forall>a. a < 0 \<or> int len \<le> a \<longrightarrow> m1 a = m a"
        using undot_loop_step [OF less.prems(1) True, of m, folded e_def, folded line_def, OF False] by blast
      have e: "r < e" "e \<le> len" using line_end_bounds [OF True] by (simp_all add: e_def)
      have dec: "len - e < len - r" using e by auto
      have "undot_loop m1 len e w1 = (m', w')" using s(1) less.prems(3) by simp
      note IH = less.hyps [OF dec s(2) e(2) this]
      then show ?thesis unfolding undot using False s(3,4,5) by (simp add: append.assoc)
    qed
  qed
qed

subsection \<open>What a server writes\<close>

text \<open>A text as RFC 1436 sends it: lines ended by CR LF, a dot doubled at the start of a line, a lone dot at the end.\<close>

definition gopher_lines :: "byte list list \<Rightarrow> byte list" where
  "gopher_lines ls = concat (map (\<lambda>l. l @ [0x0D, 0x0A]) ls)"

definition stuffed :: "byte list \<Rightarrow> byte list" where
  "stuffed l = (if l \<noteq> [] \<and> hd l = 0x2E then 0x2E # l else l)"

definition gopher_body :: "byte list list \<Rightarrow> byte list" where
  "gopher_body ls = concat (map (\<lambda>l. stuffed l @ [0x0D, 0x0A]) ls) @ [0x2E, 0x0D, 0x0A]"

lemma first_line_append: "0x0A \<notin> set x \<Longrightarrow> first_line (x @ 0x0A # rest) = x @ [0x0A]"
  by (induction x) (simp_all add: first_line_Cons)

lemma undot_line:
  assumes "0x0A \<notin> set l"
  shows "undot (stuffed l @ 0x0D # 0x0A # rest) = l @ 0x0D # 0x0A # undot rest"
proof -
  let ?x = "stuffed l @ [0x0D]"
  have x: "0x0A \<notin> set ?x" using assms by (auto simp: stuffed_def)
  have fl: "first_line (?x @ 0x0A # rest) = ?x @ [0x0A]" by (rule first_line_append [OF x])
  have lone: "\<not> lone_dot (?x @ [0x0A])"
    by (cases l) (auto simp: lone_dot_def stuffed_def)
  have un: "unstuffed (?x @ [0x0A]) = l @ [0x0D, 0x0A]"
    by (cases l; cases "tl l") (simp_all add: unstuffed_def stuffed_def)
  have "undot (?x @ 0x0A # rest) = unstuffed (?x @ [0x0A]) @ undot rest"
    using lone by (subst undot.simps) (simp add: fl [simplified] Let_def unstuffed_def)
  then show ?thesis using un by simp
qed

lemma undot_body:
  "list_all (\<lambda>l. 0x0A \<notin> set l) ls \<Longrightarrow> undot (gopher_body ls @ junk) = gopher_lines ls"
proof (induction ls)
  case Nil
  have "first_line (0x2E # 0x0D # 0x0A # junk) = [0x2E, 0x0D, 0x0A]" by (simp add: first_line_Cons)
  then show ?case by (simp add: gopher_body_def gopher_lines_def undot.simps lone_dot_def Let_def)
next
  case (Cons l ls)
  then show ?case by (simp add: gopher_body_def gopher_lines_def undot_line)
qed

subsection \<open>Menus\<close>

definition menu_line :: "gopher_item \<Rightarrow> byte list" where
  "menu_line it =
     gi_type it # gi_display it @ [9] @ gi_selector it @ [9] @ gi_host it @ [9] @ dec_bytes (nat (gi_port it))"

definition field_ok :: "byte list \<Rightarrow> bool" where
  "field_ok s \<longleftrightarrow> 9 \<notin> set s \<and> 0x0A \<notin> set s \<and> 0 \<notin> set s"

definition item_ok :: "gopher_item \<Rightarrow> bool" where
  "item_ok it \<longleftrightarrow> gi_type it \<noteq> 0x0A \<and> field_ok (gi_display it) \<and> field_ok (gi_selector it) \<and> field_ok (gi_host it) \<and>
     0 < gi_port it \<and> gi_port it \<le> 65535"

lemma cut_tab_field: "field_ok s \<Longrightarrow> cut_tab (s @ 9 # r) = (s, Some r)"
  by (auto simp: cut_tab_def field_ok_def takeWhile_append dropWhile_append)

lemma port_field_dec:
  assumes "0 < port" "port \<le> (65535 :: int)"
  shows "port_field (dec_bytes (nat port)) = port"
proof -
  have "length (dec_bytes (nat port)) \<le> 5"
    unfolding dec_bytes_def using assms by (intro dec_digits_length) auto
  moreover have "0 \<notin> set (dec_bytes (nat port))"
    using dec_bytes_all [of "nat port"] is_digit_not by (auto simp: list_all_iff)
  ultimately show ?thesis using assms by (simp add: port_field_def cstr_id atoi_dec_bytes)
qed

lemma item_of_menu_line: "item_ok it \<Longrightarrow> item_of_line (menu_line it) = it"
proof -
  assume ok: "item_ok it"
  have "9 \<in> set (menu_line it)" by (simp add: menu_line_def)
  moreover have "menu_item (menu_line it) = it"
    using ok port_field_dec [of "gi_port it"]
    by (intro gopher_item.equality)
      (simp_all add: menu_item_def menu_line_def item_ok_def cut_tab_field Let_def cstr_id field_ok_def)
  ultimately show ?thesis by (simp add: item_of_line_def)
qed

lemma menu_line_plain: "item_ok it \<Longrightarrow> 0x0A \<notin> set (menu_line it)"
  using dec_bytes_all [of "nat (gi_port it)"] is_digit_not
  by (auto simp: menu_line_def item_ok_def field_ok_def list_all_iff)

lemma menu_line_shape: "menu_line it \<noteq> []" "menu_line it \<noteq> [c]"
  by (simp_all add: menu_line_def)

lemma items_push_grants: "\<forall>n. mem n \<Longrightarrow> \<exists>st'. items_push mem st it = Some st' \<and> gm_items st' = gm_items st @ [it]"
  by (simp add: items_push_def)

lemma menu_loop_lines:
  assumes "\<forall>n. mem n"
  shows "list_all item_ok its \<Longrightarrow>
    \<exists>st'. menu_loop mem (gopher_lines (map menu_line its)) st = Some st' \<and> gm_items st' = gm_items st @ its"
proof (induction its arbitrary: st)
  case Nil
  then show ?case by (simp add: gopher_lines_def menu_loop.simps)
next
  case (Cons it its)
  let ?l = "menu_line it @ [0x0D]" and ?rest = "gopher_lines (map menu_line its)"
  have lines: "gopher_lines (map menu_line (it # its)) = ?l @ 0x0A # ?rest" by (simp add: gopher_lines_def)
  have tw: "takeWhile (\<lambda>c. c \<noteq> 0x0A) (?l @ 0x0A # ?rest) = ?l"
    using menu_line_plain [of it] Cons.prems by (intro takeWhile_stop) auto
  have dr: "drop (Suc (length ?l)) (?l @ 0x0A # ?rest) = ?rest" by simp
  have trim: "trim_cr ?l = menu_line it" by (simp add: trim_cr_def)
  obtain st1 where st1: "items_push mem (st\<lparr>gm_req := gm_req st + 3\<rparr>) it = Some st1" "gm_items st1 = gm_items st @ [it]"
    using items_push_grants [OF assms, of "st\<lparr>gm_req := gm_req st + 3\<rparr>" it] by auto
  have step: "menu_loop mem (?l @ 0x0A # ?rest) st = menu_loop mem ?rest st1"
    using Cons.prems assms st1(1) item_of_menu_line [of it] menu_line_shape [of it]
    by (subst menu_loop.simps) (simp only: Let_def tw dr trim, simp)
  show ?case
    unfolding lines step using Cons.IH [of st1] Cons.prems st1(2) by simp
qed

lemma menu_parsed:
  assumes "\<forall>n. mem n" "list_all item_ok its" "its \<noteq> []"
  shows "gophermap_parse mem (gopher_lines (map menu_line its)) = (int (length its), Some its)"
proof -
  have "gopher_lines (map menu_line its) \<noteq> []" using assms(3) by (cases its) (simp_all add: gopher_lines_def)
  moreover obtain st' where "menu_loop mem (gopher_lines (map menu_line its)) \<lparr>gm_items = [], gm_cap = 64, gm_req = 1\<rparr> = Some st'"
    "gm_items st' = its"
    using menu_loop_lines [OF assms(1,2), of "\<lparr>gm_items = [], gm_cap = 64, gm_req = 1\<rparr>"] by auto
  ultimately show ?thesis using assms(1) by (simp add: gophermap_parse_def)
qed

subsection \<open>The fetch\<close>

lemma grow_cap_enough: "0 < cap \<Longrightarrow> need \<le> grow_cap cap need \<and> cap \<le> grow_cap cap need"
proof (induction cap need rule: grow_cap.induct)
  case (1 cap need)
  then show ?case by (subst (1 2) grow_cap.simps) auto
qed

lemma gopher_recv_fits:
  "gopher_recv mem k cap buf rs = Some (buf', cap', k') \<Longrightarrow> length buf \<le> cap \<Longrightarrow> 0 < cap \<Longrightarrow> length buf' \<le> cap'"
proof (induction rs arbitrary: k cap buf)
  case (Cons r rs)
  have g: "length buf + length d \<le> grow_cap cap (length buf + length d) \<and> 0 < grow_cap cap (length buf + length d)" for d
    using grow_cap_enough [of cap "length buf + length d"] Cons.prems(3) by auto
  show ?case
    using Cons.prems g by (auto split: recv_result.splits if_splits intro!: Cons.IH)
qed auto

lemma gopher_recv_chunks:
  assumes "\<forall>n. mem n"
  shows "\<forall>d\<in>set ds. d \<noteq> [] \<Longrightarrow> \<exists>cap' k'. gopher_recv mem k cap buf (map RData ds @ RClosed # rest) = Some (buf @ concat ds, cap', k')"
proof (induction ds arbitrary: k cap buf)
  case (Cons d ds)
  have IH: "\<exists>cap' k'. gopher_recv mem k cap buf (map RData ds @ RClosed # rest) = Some (buf @ concat ds, cap', k')" for k cap buf
    using Cons.prems by (intro Cons.IH) simp
  show ?case
    using Cons.prems spec [OF assms, of k] IH [of "Suc k" "grow_cap cap (length buf + length d)" "buf @ d"] IH [of k cap "buf @ d"] by auto
qed simp

lemma slice_write: "mem_slice (mem_write z 0 buf) 0 (int (length buf)) = buf"
  by (rule nth_equalityI) (simp_all add: nth_mem_slice mem_write_def)

subsection \<open>Properties\<close>

text \<open>
  what \<open>gopher_build_url\<close> writes, \<open>gopher_parse_url\<close> reads back: the host, the port, the type and the
  selector, whatever bytes the selector has.
\<close>

theorem gopher_url_roundtrip:
  assumes "url_host host" "0 < port" "port \<le> 65535" "type \<noteq> 0" "0 \<notin> set selector" "mem 0" "mem 1"
  shows "\<exists>url. gopher_build_url True host port type selector = Some url \<and>
    gopher_parse_url mem url = (0, Some (host, port, type, selector))"
  using assms by (rule parse_build)

lemma gopher_url_roundtrip_witness:
  "\<exists>url. gopher_build_url True (asc ''gopher.org'') 7070 0x31 (asc ''/a:b/c'') = Some url \<and>
    gopher_parse_url (\<lambda>_. True) url = (0, Some (asc ''gopher.org'', 7070, 0x31, asc ''/a:b/c''))"
  by (rule gopher_url_roundtrip) (simp_all add: url_host_def)

text \<open>
  C36: the loop that removes dot-stuffing within the buffer computes what a reader of whole lines computes, never
  lengthens the text, and changes no byte outside it.
\<close>

theorem gopher_undot_inplace_eq:
  "case gopher_undot_inplace m len of (m', w') \<Rightarrow>
     w' \<le> len \<and> mem_slice m' 0 (int w') = undot (mem_slice m 0 (int len)) \<and>
     (\<forall>a. m' a = m a \<or> 0 \<le> a \<and> a < int len)"
proof -
  obtain m' w' where u: "undot_loop m len 0 0 = (m', w')" by (cases "undot_loop m len 0 0")
  have "w' \<le> len \<and> mem_slice m' 0 (int w') = undot (mem_slice m 0 (int len)) \<and> (\<forall>a. a < 0 \<or> int len \<le> a \<longrightarrow> m' a = m a)"
    using undot_loop_spec [of 0 0 len m m' w'] u by simp
  moreover have "m' a = m a \<or> 0 \<le> a \<and> a < int len" if "a < 0 \<or> int len \<le> a \<longrightarrow> m' a = m a" for a
    using that by linarith
  ultimately show ?thesis using u by (simp add: gopher_undot_inplace_def)
qed

text \<open>
  C29: a menu arrives whole. Where a server writes the lines of some items as RFC 1436 says, in any division into
  packets and with anything after the final dot, the fetch succeeds and the parser gives exactly the items.
\<close>

theorem gopher_menu_delivered:
  assumes "\<forall>n. mem n" "0 < port" "first_connect 0 ais = Some i" "0 \<le> sk_results s (sk_calls s)"
    and "\<forall>d\<in>set ds. d \<noteq> []" "concat ds = gopher_body (map menu_line its) @ junk"
    and "list_all item_ok its" "its \<noteq> []"
  shows "\<exists>s' body. gopher_fetch_sync mem s (Some ais) (map RData ds @ RClosed # rest) port selector GOPHER_KIND_MENU = (s', 0, Some body) \<and>
    gophermap_parse mem body = (int (length its), Some its)"
proof -
  let ?req = "selector @ [0x0D, 0x0A]" and ?s = "s\<lparr>sk_open := True\<rparr>"
  obtain sent s1 where send: "sock_send ?s ?req = (sent, s1)" by (cases "sock_send ?s ?req")
  then have sent: "\<not> sent < 0" using assms(4) by (auto simp: sock_send_def Let_def)
  obtain cap k where r: "gopher_recv mem 2 gopher_init_cap [] (map RData ds @ RClosed # rest) = Some (concat ds, cap, k)"
    using gopher_recv_chunks [OF assms(1,5), of 2 gopher_init_cap "[]" rest] by auto
  obtain m' w' where u: "gopher_undot_inplace (mem_write (\<lambda>_. 0) 0 (concat ds)) (length (concat ds)) = (m', w')"
    by (cases "gopher_undot_inplace (mem_write (\<lambda>_. 0) 0 (concat ds)) (length (concat ds))")
  have "mem_slice m' 0 (int w') = undot (concat ds)"
    using undot_loop_spec [of 0 0 "length (concat ds)" "mem_write (\<lambda>_. 0) 0 (concat ds)" m' w'] u
      slice_write [of "\<lambda>_. 0" "concat ds"] by (simp add: gopher_undot_inplace_def)
  also have "\<dots> = gopher_lines (map menu_line its)"
    unfolding assms(6) using assms(7) menu_line_plain by (intro undot_body) (auto simp: list_all_iff)
  finally have body: "mem_slice m' 0 (int w') = gopher_lines (map menu_line its)" .
  have "gopher_fetch_sync mem s (Some ais) (map RData ds @ RClosed # rest) port selector GOPHER_KIND_MENU =
      (s1\<lparr>sk_open := False\<rparr>, 0, Some (gopher_lines (map menu_line its)))"
    using spec [OF assms(1)] assms(2,3) send sent r u body by (simp add: gopher_fetch_sync_def)
  then show ?thesis using menu_parsed [OF assms(1,7,8)] by blast
qed

definition sample_item :: gopher_item where
  "sample_item = \<lparr>gi_type = 0x31, gi_display = asc ''News'', gi_selector = asc ''/n'', gi_host = asc ''a.org'', gi_port = 70\<rparr>"

lemma gopher_menu_delivered_witness:
  "\<exists>s' body. gopher_fetch_sync (\<lambda>_. True) \<lparr>sk_open = False, sk_results = \<lambda>_. 100, sk_calls = 0, sk_wire = []\<rparr> (Some [(True, True)])
      (map RData [gopher_body (map menu_line [sample_item]) @ [0x21]] @ RClosed # []) 70 [] GOPHER_KIND_MENU = (s', 0, Some body) \<and>
    gophermap_parse (\<lambda>_. True) body = (int (length [sample_item]), Some [sample_item])"
  by (rule gopher_menu_delivered [where junk = "[0x21]" and i = 0])
    (simp_all add: item_ok_def sample_item_def field_ok_def gopher_body_def)

text \<open>
  An error or a timeout while the reply is read ends the loop like the end of the reply: a truncated file is reported as
  fetched. And a host that is an IPv6 address in brackets is cut at its first colon.
\<close>

lemma gopher_partial_ok:
  "gopher_fetch_sync (\<lambda>_. True) \<lparr>sk_open = False, sk_results = \<lambda>_. 100, sk_calls = 0, sk_wire = []\<rparr> (Some [(True, True)])
      [RData [0x47, 0x49, 0x46], RError] 70 [] GOPHER_KIND_BINARY =
    (\<lparr>sk_open = False, sk_results = \<lambda>_. 100, sk_calls = 1, sk_wire = [0x0D, 0x0A]\<rparr>, 0, Some [0x47, 0x49, 0x46])"
  by (simp add: gopher_fetch_sync_def sock_send_def gopher_init_cap_def mem_slice_def mem_write_def upt_rec)

lemma gopher_ipv6_host:
  "gopher_parse_url (\<lambda>_. True) (asc ''gopher://[::1]/1'') = (0, Some (asc ''['', 70, 0x3A, asc ''1]/1''))"
proof -
  have "gopher_parse_url (\<lambda>_. True) (asc ''gopher://'' @ asc ''[::1]/1'') = (0, Some (asc ''['', 70, 0x3A, asc ''1]/1''))"
    unfolding gopher_parse_url_def after_scheme_gopher by (simp add: is_digit_def url_port_def gopher_default_port_def)
  then show ?thesis by simp
qed

end
