(* ===== verification/GopherTab.thy ===== *)
theory GopherTab
  imports GopherNet
begin

section \<open>The Gopher tab: navigation, history, selection (gopher\_module.c)\<close>

text \<open>
  What the tab decides, without its windows: the URL it loads, the one fetch it allows at a time, what the end of a
  fetch does to the view and to the two history stacks, what a click on a menu line starts, and the selection. The
  worker thread is its pending request; what \<open>gopher_fetch_sync\<close> answered is an argument of the step that
  ends it. Memory for the tab's own copies of strings is granted.
\<close>

subsection \<open>State\<close>

record gopher_fetch =
  gf_url :: "byte list"
  gf_host :: "byte list"
  gf_port :: int
  gf_type :: byte
  gf_selector :: "byte list"
  gf_display :: "byte list option"
  gf_kind :: gopher_kind
  gf_push :: bool

record gopher_sel =
  se_active :: bool
  se_anchor_line :: int
  se_anchor_col :: int
  se_lead_line :: int
  se_lead_col :: int

datatype gopher_view = GVIEW_MENU | GVIEW_TEXT

record gopher_tab =
  gt_view :: gopher_view
  gt_items :: "gopher_item list"
  gt_text :: "byte list option"
  gt_current :: "byte list option"
  gt_back :: "byte list list"
  gt_fwd :: "byte list list"
  gt_worker :: "gopher_fetch option"
  gt_sel :: gopher_sel
  gt_status :: "byte list"

definition gopher_history_max :: nat where "gopher_history_max = 64"

definition gopher_home_url :: "byte list" where
  "gopher_home_url = asc ''gopher://gopher.greektimes.ca/''"

definition gopher_set_status :: "byte list \<Rightarrow> gopher_tab \<Rightarrow> gopher_tab" where
  "gopher_set_status msg t = t\<lparr>gt_status := msg\<rparr>"

definition gopher_has_document :: "gopher_tab \<Rightarrow> bool" where
  "gopher_has_document t \<longleftrightarrow>
     gt_view t = GVIEW_TEXT \<and> gt_text t \<noteq> None \<or> gt_view t = GVIEW_MENU \<and> length (gt_items t) > 0"

subsection \<open>History\<close>

text \<open>A stack is the list of its entries from the oldest; the top is the last.\<close>

definition history_push_back :: "byte list \<Rightarrow> byte list list \<Rightarrow> byte list list" where
  "history_push_back url stack = (if length stack \<ge> gopher_history_max then tl stack @ [url] else stack @ [url])"

text \<open>The move to the other stack on Back and Forward; where it is full the URL is freed.\<close>

definition history_move :: "byte list option \<Rightarrow> byte list list \<Rightarrow> byte list list" where
  "history_move cur stack =
     (case cur of None \<Rightarrow> stack | Some u \<Rightarrow> if length stack < gopher_history_max then stack @ [u] else stack)"

subsection \<open>Starting a fetch\<close>

definition gopher_normalize_url :: "byte list \<Rightarrow> byte list" where
  "gopher_normalize_url raw =
     (if raw = [] then gopher_home_url
      else if starts_with raw ''gopher://'' \<or> starts_with raw ''GOPHER://'' then raw
      else asc ''gopher://'' @ raw)"

definition gopher_kick_fetch :: "bool \<Rightarrow> gopher_fetch \<Rightarrow> gopher_tab \<Rightarrow> gopher_tab" where
  "gopher_kick_fetch thread_ok r t =
     (case gt_worker t of
        Some _ \<Rightarrow> gopher_set_status (asc ''Gopher: a fetch is already in flight; press Stop first.'') t
      | None \<Rightarrow>
          (if thread_ok then (gopher_set_status (asc ''Connecting...'') t)\<lparr>gt_worker := Some r\<rparr>
           else gopher_set_status (asc ''Gopher: failed to spawn fetch thread.'') t))"

definition kind_of_type :: "byte \<Rightarrow> gopher_kind option" where
  "kind_of_type type =
     (if type = 0x30 then Some GOPHER_KIND_TEXT
      else if type = 0x31 then Some GOPHER_KIND_MENU
      else if type \<in> set (asc ''gI9s'') then Some GOPHER_KIND_BINARY
      else None)"

definition gopher_navigate :: "bool \<Rightarrow> byte list \<Rightarrow> bool \<Rightarrow> gopher_tab \<Rightarrow> gopher_tab" where
  "gopher_navigate thread_ok raw_url push t =
     (let url = gopher_normalize_url raw_url in
      case gopher_parse_url (\<lambda>_. True) url of
        (rc, Some (host, port, type, selector)) \<Rightarrow>
          (case kind_of_type type of
             Some kind \<Rightarrow>
               gopher_kick_fetch thread_ok
                 \<lparr>gf_url = url, gf_host = host, gf_port = port, gf_type = type, gf_selector = selector,
                  gf_display = None, gf_kind = kind, gf_push = push\<rparr> t
           | None \<Rightarrow> gopher_set_status (asc ''Gopher: item type not supported in v0.1.0-mvp.'') t)
      | (rc, None) \<Rightarrow> gopher_set_status (asc ''Gopher: malformed URL.'') t)"

subsection \<open>The end of a fetch\<close>

definition no_selection :: gopher_sel where
  "no_selection = \<lparr>se_active = False, se_anchor_line = 0, se_anchor_col = 0, se_lead_line = 0, se_lead_col = 0\<rparr>"

definition gopher_render_clear :: "gopher_tab \<Rightarrow> gopher_tab" where
  "gopher_render_clear t = t\<lparr>gt_items := [], gt_text := None, gt_sel := no_selection\<rparr>"

definition gopher_render_set_menu :: "gopher_item list \<Rightarrow> gopher_tab \<Rightarrow> gopher_tab" where
  "gopher_render_set_menu items t = (gopher_render_clear t)\<lparr>gt_items := items, gt_view := GVIEW_MENU\<rparr>"

definition gopher_render_set_text :: "byte list \<Rightarrow> gopher_tab \<Rightarrow> gopher_tab" where
  "gopher_render_set_text body t = (gopher_render_clear t)\<lparr>gt_text := Some body, gt_view := GVIEW_TEXT\<rparr>"

text \<open>The page that was fetched becomes the current one.\<close>

definition set_current :: "gopher_fetch \<Rightarrow> gopher_tab \<Rightarrow> gopher_tab" where
  "set_current r t =
     (let t1 = (if gf_push r then
                  (case gt_current t of None \<Rightarrow> t | Some u \<Rightarrow> t\<lparr>gt_back := history_push_back u (gt_back t)\<rparr>)\<lparr>gt_fwd := []\<rparr>
                else t)
      in t1\<lparr>gt_current := Some (gf_url r)\<rparr>)"

definition ends_with_ci :: "byte list \<Rightarrow> string \<Rightarrow> bool" where
  "ends_with_ci s suffix \<longleftrightarrow>
     length suffix \<le> length s \<and>
     map (\<lambda>a. if 0x41 \<le> a \<and> a \<le> 0x5A then a + 32 else a) (drop (length s - length suffix) s) =
     map (\<lambda>a. if 0x41 \<le> a \<and> a \<le> 0x5A then a + 32 else a) (asc suffix)"

text \<open>The status after a binary reply; whether the player took it, and whether the file was saved.\<close>

definition binary_status :: "gopher_fetch \<Rightarrow> bool \<Rightarrow> bool \<Rightarrow> byte list" where
  "binary_status r played saved =
     (if gf_type r = 0x67 \<or> gf_type r = 0x49 then asc ''Done''
      else if gf_type r = 0x39 then
        (if (ends_with_ci (gf_selector r) ''.mp3'' \<or> ends_with_ci (gf_selector r) ''.au'') \<and> played
         then asc ''Done (playing audio)''
         else if saved then asc ''Saved'' else asc ''Save cancelled'')
      else if gf_type r = 0x73 then (if played then asc ''Done (playing audio)'' else asc ''Audio service busy (Stop first).'')
      else asc ''Done (binary; no handler).'')"

text \<open>The worker posts its result: the code where it is not 0, or the body.\<close>

definition gopher_on_fetch_done :: "int + byte list \<Rightarrow> bool \<Rightarrow> bool \<Rightarrow> gopher_tab \<Rightarrow> gopher_tab" where
  "gopher_on_fetch_done result played saved t =
     (case gt_worker t of
        None \<Rightarrow> t
      | Some r \<Rightarrow>
          (let t1 = t\<lparr>gt_worker := None\<rparr> in
           case result of
             Inl code \<Rightarrow>
               gopher_set_status (asc ''Gopher: gopher_fetch_sync failed (code '' @ dec_bytes (nat code) @ asc '')'') t1
           | Inr body \<Rightarrow>
               (case gf_kind r of
                  GOPHER_KIND_MENU \<Rightarrow>
                    gopher_set_status (asc ''Done'')
                      (gopher_render_set_menu
                        (case gophermap_parse (\<lambda>_. True) body of (n, Some items) \<Rightarrow> items | (n, None) \<Rightarrow> []) (set_current r t1))
                | GOPHER_KIND_TEXT \<Rightarrow> gopher_set_status (asc ''Done'') (gopher_render_set_text body (set_current r t1))
                | GOPHER_KIND_BINARY \<Rightarrow> gopher_set_status (binary_status r played saved) t1)))"

subsection \<open>Clicks\<close>

definition gopher_type_is_clickable :: "byte \<Rightarrow> bool" where
  "gopher_type_is_clickable t \<longleftrightarrow> t \<in> set (asc ''107g9sIh'')"

text \<open>The query is what the search dialog gives; \<open>None\<close> where it was dismissed.\<close>

definition gopher_dispatch_item :: "bool \<Rightarrow> byte list option \<Rightarrow> int \<Rightarrow> gopher_tab \<Rightarrow> gopher_tab" where
  "gopher_dispatch_item thread_ok query idx t =
     (if idx < 0 \<or> idx \<ge> int (length (gt_items t)) then t
      else
        let it = gt_items t ! nat idx; port = (if gi_port it > 0 then gi_port it else 70) in
        if \<not> gopher_type_is_clickable (gi_type it) then t
        else if gi_type it = 0x68 then gopher_set_status (asc ''Gopher: 'h' URL items are not yet supported.'') t
        else if gi_type it = 0x37 then
          (case query of
             None \<Rightarrow> t
           | Some q \<Rightarrow>
               if q = [] then t
               else case gopher_build_url True (gi_host it) port 0x37 (gi_selector it @ asc ''%09'' @ q) of
                      None \<Rightarrow> t
                    | Some url \<Rightarrow>
                        gopher_kick_fetch thread_ok
                          \<lparr>gf_url = url, gf_host = gi_host it, gf_port = port, gf_type = 0x37,
                           gf_selector = gi_selector it @ [9] @ q, gf_display = Some (gi_display it),
                           gf_kind = GOPHER_KIND_MENU, gf_push = True\<rparr> t)
        else case gopher_build_url True (gi_host it) port (gi_type it) (gi_selector it) of
               None \<Rightarrow> t
             | Some url \<Rightarrow> gopher_navigate thread_ok url True t)"

subsection \<open>Selection\<close>

definition gopher_total_lines :: "gopher_tab \<Rightarrow> int" where
  "gopher_total_lines t =
     (if gt_view t = GVIEW_MENU then int (length (gt_items t))
      else case gt_text t of
             None \<Rightarrow> 0
           | Some body \<Rightarrow>
               (let n = 1 + int (length (filter (\<lambda>c. c = 0x0A) body));
                    n1 = (if body \<noteq> [] \<and> last body = 0x0A then n - 1 else n)
                in if n1 < 0 then 0 else n1))"

text \<open>The line of a text with number \<open>n\<close>, without its CR.\<close>

fun text_line :: "nat \<Rightarrow> byte list \<Rightarrow> byte list option" where
  "text_line 0 s = Some (trim_cr (takeWhile (\<lambda>c. c \<noteq> 0x0A) s))"
| "text_line (Suc n) s = (case dropWhile (\<lambda>c. c \<noteq> 0x0A) s of [] \<Rightarrow> None | _ # r \<Rightarrow> text_line n r)"

definition gopher_line_text :: "gopher_tab \<Rightarrow> int \<Rightarrow> byte list option" where
  "gopher_line_text t line =
     (if line < 0 then None
      else if gt_view t = GVIEW_MENU then
        (if line \<ge> int (length (gt_items t)) then None else Some (gi_display (gt_items t ! nat line)))
      else case gt_text t of None \<Rightarrow> None | Some body \<Rightarrow> text_line (nat line) body)"

definition gopher_select_set :: "int \<Rightarrow> int \<Rightarrow> int \<Rightarrow> int \<Rightarrow> gopher_tab \<Rightarrow> gopher_tab" where
  "gopher_select_set al ac ll lc t =
     t\<lparr>gt_sel := \<lparr>se_active = True, se_anchor_line = al, se_anchor_col = ac, se_lead_line = ll, se_lead_col = lc\<rparr>\<rparr>"

definition gopher_select_all :: "gopher_tab \<Rightarrow> gopher_tab" where
  "gopher_select_all t =
     (let total = gopher_total_lines t in
      if total \<le> 0 then t
      else gopher_select_set 0 0 (total - 1)
             (case gopher_line_text t (total - 1) of None \<Rightarrow> 0 | Some l \<Rightarrow> int (length l)) t)"

definition sel_normalize :: "gopher_sel \<Rightarrow> int \<times> int \<times> int \<times> int" where
  "sel_normalize s =
     (if se_anchor_line s < se_lead_line s \<or> se_anchor_line s = se_lead_line s \<and> se_anchor_col s \<le> se_lead_col s
      then (se_anchor_line s, se_anchor_col s, se_lead_line s, se_lead_col s)
      else (se_lead_line s, se_lead_col s, se_anchor_line s, se_anchor_col s))"

definition gopher_cell_selected :: "gopher_tab \<Rightarrow> int \<Rightarrow> int \<Rightarrow> bool" where
  "gopher_cell_selected t line col =
     (if \<not> se_active (gt_sel t) then False
      else case sel_normalize (gt_sel t) of (sr, sc, er, ec) \<Rightarrow>
        if line < sr \<or> line > er then False
        else if sr = er then col \<ge> sc \<and> col < ec
        else if line = sr then col \<ge> sc
        else if line = er then col < ec
        else True)"

text \<open>Past the continuation bytes (two high bits 10) of a UTF-8 character.\<close>

definition utf8_snap_forward :: "byte list \<Rightarrow> int \<Rightarrow> int" where
  "utf8_snap_forward s idx =
     (if idx < 0 then 0
      else if nat idx \<ge> length s then int (length s)
      else idx + int (length (takeWhile (\<lambda>c. 0x80 \<le> c \<and> c < 0xC0) (drop (nat idx) s))))"

definition trim_spaces :: "byte list \<Rightarrow> byte list" where
  "trim_spaces s = rev (dropWhile (\<lambda>c. c = 0x20) (rev s))"

text \<open>The part of a line that is selected.\<close>

definition extract_line :: "gopher_tab \<Rightarrow> int \<times> int \<times> int \<times> int \<Rightarrow> int \<Rightarrow> byte list" where
  "extract_line t sel line =
     (case sel of (sr, sc, er, ec) \<Rightarrow>
        let tx = (case gopher_line_text t line of None \<Rightarrow> [] | Some l \<Rightarrow> l);
            tlen = int (length tx);
            lo = (if line = sr then sc else 0);
            hi = (if line = er then ec else tlen);
            lo = (if lo < 0 then 0 else lo);
            hi = (if hi > tlen then tlen else hi);
            lo = utf8_snap_forward tx lo;
            hi = utf8_snap_forward tx hi;
            hi = (if hi < lo then lo else hi)
        in take (nat (hi - lo)) (drop (nat lo) tx))"

text \<open>
  One line into the buffer, with room made for it and for the line break: the bytes used, the capacity, and the
  number of the next memory request. \<open>None\<close> where memory ran out.
\<close>

definition extract_step ::
  "(nat \<Rightarrow> bool) \<Rightarrow> gopher_tab \<Rightarrow> int \<times> int \<times> int \<times> int \<Rightarrow> (byte list \<times> nat \<times> nat) option \<Rightarrow> int \<Rightarrow> (byte list \<times> nat \<times> nat) option" where
  "extract_step mem t sel st line =
     (case st of
        None \<Rightarrow> None
      | Some (used, cap, k) \<Rightarrow>
          (let raw = extract_line t sel line; span = length raw;
               grow = (span > 0 \<and> length used + span + 4 \<ge> cap);
               cap1 = (if grow then grow_cap cap (length used + span + 4) else cap);
               k1 = (if grow then Suc k else k);
               used1 = used @ trim_spaces raw;
               more = (line < fst (snd (snd sel)));
               grow2 = (more \<and> length used1 + 4 \<ge> cap1)
           in if grow \<and> \<not> mem k then None
              else if grow2 \<and> \<not> mem k1 then None
              else Some (if more then used1 @ [0x0D, 0x0A] else used1,
                         if grow2 then cap1 * 2 else cap1, if grow2 then Suc k1 else k1)))"

definition gopher_select_extract :: "(nat \<Rightarrow> bool) \<Rightarrow> gopher_tab \<Rightarrow> byte list option" where
  "gopher_select_extract mem t =
     (if \<not> se_active (gt_sel t) then None
      else case sel_normalize (gt_sel t) of (sr, sc, er, ec) \<Rightarrow>
        if sr = er \<and> sc = ec then None
        else if \<not> mem 0 then None
        else case foldl (extract_step mem t (sr, sc, er, ec)) (Some ([], 256, 1)) [sr..er] of
               None \<Rightarrow> None
             | Some (used, cap, k) \<Rightarrow> if length used + 1 \<ge> cap \<and> \<not> mem k then None else Some used)"

subsection \<open>Buttons\<close>

datatype gopher_command = GO "byte list" | HOME | REFRESH | STOP | BACK | FORWARD

definition gopher_module_on_command :: "bool \<Rightarrow> gopher_command \<Rightarrow> gopher_tab \<Rightarrow> gopher_tab" where
  "gopher_module_on_command thread_ok cmd t =
     (case cmd of
        GO text \<Rightarrow> gopher_navigate thread_ok (take 1023 text) True t
      | HOME \<Rightarrow> gopher_navigate thread_ok gopher_home_url True t
      | REFRESH \<Rightarrow> (case gt_current t of None \<Rightarrow> t | Some u \<Rightarrow> gopher_navigate thread_ok u False t)
      | STOP \<Rightarrow> gopher_set_status (asc ''Gopher: stop requested (waiting on recv timeout)...'') t
      | BACK \<Rightarrow>
          (if gt_back t = [] then t
           else gopher_navigate thread_ok (last (gt_back t)) False
                  (t\<lparr>gt_back := butlast (gt_back t), gt_fwd := history_move (gt_current t) (gt_fwd t), gt_current := None\<rparr>))
      | FORWARD \<Rightarrow>
          (if gt_fwd t = [] then t
           else gopher_navigate thread_ok (last (gt_fwd t)) False
                  (t\<lparr>gt_fwd := butlast (gt_fwd t), gt_back := history_move (gt_current t) (gt_back t), gt_current := None\<rparr>)))"

text \<open>Everything that happens to the tab.\<close>

datatype gopher_event =
    Command bool gopher_command
  | Click bool "byte list option" int
  | Done "int + byte list" bool bool

fun gopher_step :: "gopher_tab \<Rightarrow> gopher_event \<Rightarrow> gopher_tab" where
  "gopher_step t (Command ok c) = gopher_module_on_command ok c t"
| "gopher_step t (Click ok q i) = gopher_dispatch_item ok q i t"
| "gopher_step t (Done res p s) = gopher_on_fetch_done res p s t"

definition gopher_tab_start :: gopher_tab where
  "gopher_tab_start =
     \<lparr>gt_view = GVIEW_MENU, gt_items = [], gt_text = None, gt_current = None, gt_back = [], gt_fwd = [],
      gt_worker = None, gt_sel = no_selection, gt_status = []\<rparr>"

subsection \<open>Lemmas on navigation\<close>

lemma set_status_fields [simp]:
  "gt_current (gopher_set_status m t) = gt_current t" "gt_back (gopher_set_status m t) = gt_back t"
  "gt_fwd (gopher_set_status m t) = gt_fwd t" "gt_worker (gopher_set_status m t) = gt_worker t"
  "gt_items (gopher_set_status m t) = gt_items t" "gt_view (gopher_set_status m t) = gt_view t"
  "gt_text (gopher_set_status m t) = gt_text t"
  by (simp_all add: gopher_set_status_def)

lemma kick_fields [simp]:
  "gt_current (gopher_kick_fetch ok r t) = gt_current t" "gt_back (gopher_kick_fetch ok r t) = gt_back t"
  "gt_fwd (gopher_kick_fetch ok r t) = gt_fwd t" "gt_items (gopher_kick_fetch ok r t) = gt_items t"
  "gt_view (gopher_kick_fetch ok r t) = gt_view t" "gt_text (gopher_kick_fetch ok r t) = gt_text t"
  by (simp_all add: gopher_kick_fetch_def split: option.split)

lemma navigate_fields [simp]:
  "gt_current (gopher_navigate ok url push t) = gt_current t" "gt_back (gopher_navigate ok url push t) = gt_back t"
  "gt_fwd (gopher_navigate ok url push t) = gt_fwd t" "gt_items (gopher_navigate ok url push t) = gt_items t"
  "gt_view (gopher_navigate ok url push t) = gt_view t" "gt_text (gopher_navigate ok url push t) = gt_text t"
  by (simp_all add: gopher_navigate_def Let_def split: prod.split option.split)

lemma navigate_busy: "gt_worker t = Some r \<Longrightarrow> gt_worker (gopher_navigate ok url push t) = Some r"
  by (simp add: gopher_navigate_def gopher_kick_fetch_def Let_def split: prod.split option.split)

text \<open>A URL of a page: as it stands it names a menu or a text.\<close>

definition page_url :: "byte list \<Rightarrow> bool" where
  "page_url url \<longleftrightarrow> gopher_normalize_url url = url \<and>
     (\<exists>host port type selector. gopher_parse_url (\<lambda>_. True) url = (0, Some (host, port, type, selector)) \<and>
        kind_of_type type \<in> {Some GOPHER_KIND_MENU, Some GOPHER_KIND_TEXT})"

lemma navigate_page:
  assumes "page_url url" "gt_worker t = None"
  obtains r where "gt_worker (gopher_navigate True url push t) = Some r" "gf_url r = url" "gf_push r = push"
    "gf_kind r \<noteq> GOPHER_KIND_BINARY"
proof -
  obtain host port type selector where p: "gopher_normalize_url url = url"
    "gopher_parse_url (\<lambda>_. True) url = (0, Some (host, port, type, selector))"
    "kind_of_type type \<in> {Some GOPHER_KIND_MENU, Some GOPHER_KIND_TEXT}"
    using assms(1) by (auto simp: page_url_def)
  then obtain kind where k: "kind_of_type type = Some kind" "kind \<noteq> GOPHER_KIND_BINARY" by auto
  show ?thesis
    using p(1,2) k assms(2)
    by (intro that [of "\<lparr>gf_url = url, gf_host = host, gf_port = port, gf_type = type, gf_selector = selector,
         gf_display = None, gf_kind = kind, gf_push = push\<rparr>"])
      (simp_all add: gopher_navigate_def gopher_kick_fetch_def gopher_set_status_def)
qed

lemma done_page:
  fixes body :: "byte list" and a b :: bool
  assumes "gt_worker t = Some r" "gf_kind r \<noteq> GOPHER_KIND_BINARY"
  defines "t' \<equiv> gopher_on_fetch_done (Inr body) a b t"
  shows "gt_worker t' = None" "gt_current t' = Some (gf_url r)"
    "gt_back t' = gt_back (set_current r t)" "gt_fwd t' = gt_fwd (set_current r t)"
  using assms
  by (cases "gf_kind r"; simp add: gopher_on_fetch_done_def gopher_render_set_menu_def gopher_render_set_text_def
      gopher_render_clear_def set_current_def Let_def split: option.split)+

text \<open>Going to a page without the history being pushed, and the page arriving.\<close>

lemma visit_page:
  fixes body :: "byte list" and a b :: bool
  assumes "page_url url" "gt_worker t = None"
  defines "t' \<equiv> gopher_on_fetch_done (Inr body) a b (gopher_navigate True url False t)"
  shows "gt_worker t' = None \<and> gt_current t' = Some url \<and> gt_back t' = gt_back t \<and> gt_fwd t' = gt_fwd t"
proof -
  obtain r where r: "gt_worker (gopher_navigate True url False t) = Some r" "gf_url r = url" "gf_push r = False"
    "gf_kind r \<noteq> GOPHER_KIND_BINARY" using navigate_page [OF assms(1,2)] by blast
  show ?thesis using done_page [OF r(1,4), of body a b] r(2,3) by (simp add: t'_def set_current_def Let_def)
qed

subsection \<open>The history stacks keep their bounds\<close>

definition history_ok :: "gopher_tab \<Rightarrow> bool" where
  "history_ok t \<longleftrightarrow> length (gt_back t) \<le> gopher_history_max \<and> length (gt_fwd t) \<le> gopher_history_max"

lemma history_push_bound: "length st \<le> gopher_history_max \<Longrightarrow> length (history_push_back u st) \<le> gopher_history_max"
  by (auto simp: history_push_back_def gopher_history_max_def)

lemma history_move_bound: "length st \<le> gopher_history_max \<Longrightarrow> length (history_move u st) \<le> gopher_history_max"
  by (auto simp: history_move_def split: option.split)

lemma done_history: "history_ok t \<Longrightarrow> history_ok (gopher_on_fetch_done res a b t)"
  by (auto simp: gopher_on_fetch_done_def history_ok_def set_current_def gopher_render_set_menu_def
      gopher_render_set_text_def gopher_render_clear_def Let_def history_push_bound
      split: option.split sum.split gopher_kind.split)

lemma command_history: "history_ok t \<Longrightarrow> history_ok (gopher_module_on_command ok cmd t)"
  by (auto simp: gopher_module_on_command_def history_ok_def history_move_bound split: gopher_command.split option.split)

lemma dispatch_history: "history_ok t \<Longrightarrow> history_ok (gopher_dispatch_item ok q i t)"
  by (auto simp: gopher_dispatch_item_def history_ok_def Let_def split: option.split)

interpretation gtab: stream_machine gopher_step "\<lambda>_ _. True" history_ok
proof
  fix s b
  assume "history_ok s"
  then show "history_ok (gopher_step s b)"
    by (cases b) (simp_all add: done_history command_history dispatch_history)
qed

subsection \<open>Properties\<close>

text \<open>
  Back and then Forward, when each page arrives, return to the page the user came from with both stacks as they
  were; in between the page that Back names is shown and the stacks have moved by one.
\<close>

theorem gopher_back_forward:
  fixes b1 b2 :: "byte list" and x1 y1 x2 y2 :: bool
  assumes "gt_worker t = None" "gt_current t = Some u" "gt_back t = bs @ [p]" "history_ok t"
    and "length (gt_fwd t) < gopher_history_max" "page_url p" "page_url u"
  defines "t1 \<equiv> foldl gopher_step t [Command True BACK, Done (Inr b1) x1 y1]"
  defines "t2 \<equiv> foldl gopher_step t1 [Command True FORWARD, Done (Inr b2) x2 y2]"
  shows "gt_current t1 = Some p \<and> gt_back t1 = bs \<and> gt_fwd t1 = gt_fwd t @ [u] \<and>
    gt_current t2 = Some u \<and> gt_back t2 = gt_back t \<and> gt_fwd t2 = gt_fwd t"
proof -
  have bs: "length bs < gopher_history_max" using assms(3,4) by (simp add: history_ok_def)
  have 1: "gt_worker t1 = None \<and> gt_current t1 = Some p \<and> gt_back t1 = bs \<and> gt_fwd t1 = gt_fwd t @ [u]"
    unfolding t1_def using assms(1-3,5) visit_page [OF assms(6)]
    by (simp add: gopher_module_on_command_def history_move_def)
  then have "gt_worker t2 = None \<and> gt_current t2 = Some u \<and> gt_back t2 = bs @ [p] \<and> gt_fwd t2 = gt_fwd t"
    unfolding t2_def using bs visit_page [OF assms(7)]
    by (simp add: gopher_module_on_command_def history_move_def)
  with 1 assms(3) show ?thesis by simp
qed

definition sample_tab :: gopher_tab where
  "sample_tab = gopher_tab_start\<lparr>gt_current := Some (asc ''gopher://a/1x''), gt_back := [asc ''gopher://a/0y'']\<rparr>"

lemma page_samples: "page_url (asc ''gopher://a/1x'')" "page_url (asc ''gopher://a/0y'')"
proof -
  have "gopher_parse_url (\<lambda>_. True) (asc ''gopher://'' @ asc ''a/1x'') = (0, Some (asc ''a'', 70, 0x31, asc ''x''))"
    "gopher_parse_url (\<lambda>_. True) (asc ''gopher://'' @ asc ''a/0y'') = (0, Some (asc ''a'', 70, 0x30, asc ''y''))"
    unfolding gopher_parse_url_def after_scheme_gopher by (simp_all add: gopher_default_port_def)
  then show "page_url (asc ''gopher://a/1x'')" "page_url (asc ''gopher://a/0y'')"
    by (simp_all add: page_url_def gopher_normalize_url_def starts_with_def kind_of_type_def)
qed

lemma gopher_back_forward_witness:
  "gt_current (foldl gopher_step sample_tab [Command True BACK, Done (Inr []) True True]) = Some (asc ''gopher://a/0y'')"
  using gopher_back_forward [of sample_tab "asc ''gopher://a/1x''" "[]" "asc ''gopher://a/0y''" "[]" True True "[]" True True]
    page_samples
  by (simp add: sample_tab_def gopher_tab_start_def history_ok_def gopher_history_max_def)

text \<open>
  Back while a fetch is in flight loses the page it names. The request is refused, but the URL has left the
  back stack and is on neither stack; and the tab no longer knows the URL of the page it still shows.
\<close>

theorem gopher_back_lost:
  fixes ok :: bool
  assumes "gt_worker t = Some r" "gt_current t = Some u" "gt_back t = bs @ [p]" "p \<notin> set bs" "p \<noteq> u" "p \<notin> set (gt_fwd t)"
  defines "t' \<equiv> gopher_step t (Command ok BACK)"
  shows "gt_worker t' = Some r \<and> p \<notin> set (gt_back t') \<and> p \<notin> set (gt_fwd t') \<and> gt_current t' = None \<and>
    gt_view t' = gt_view t \<and> gt_items t' = gt_items t \<and> gt_text t' = gt_text t"
  using assms by (simp add: gopher_module_on_command_def navigate_busy history_move_def)

lemma gopher_back_lost_witness:
  "\<forall>r. gt_current (gopher_step (sample_tab\<lparr>gt_worker := Some r\<rparr>) (Command True BACK)) = None"
  using gopher_back_lost [of "sample_tab\<lparr>gt_worker := Some r\<rparr>" r "asc ''gopher://a/1x''" "[]" "asc ''gopher://a/0y''" True for r]
  by (simp add: sample_tab_def gopher_tab_start_def)

text \<open>
  a click on a line of a menu asks the line's host, at its port, for its selector, in the kind its type calls
  for: the way through the URL that the tab shows loses nothing.
\<close>

theorem gopher_item_followed:
  assumes "gt_worker t = None" "i < length (gt_items t)" "it = gt_items t ! i"
    and "item_ok it" "url_host (gi_host it)" "gi_type it \<in> set (asc ''01gI9s'')"
  shows "\<exists>r. gt_worker (gopher_step t (Click True q (int i))) = Some r \<and>
    gf_host r = gi_host it \<and> gf_port r = gi_port it \<and> gf_type r = gi_type it \<and> gf_selector r = gi_selector it \<and>
    kind_of_type (gi_type it) = Some (gf_kind r) \<and> gf_push r"
proof -
  have ok: "0 < gi_port it" "gi_port it \<le> 65535" "0 \<notin> set (gi_selector it)" "gi_type it \<noteq> 0"
    using assms(4,6) by (auto simp: item_ok_def field_ok_def)
  obtain url where url: "gopher_build_url True (gi_host it) (gi_port it) (gi_type it) (gi_selector it) = Some url"
    "gopher_parse_url (\<lambda>_. True) url = (0, Some (gi_host it, gi_port it, gi_type it, gi_selector it))"
    using parse_build [OF assms(5) ok(1,2,4,3), of "\<lambda>_. True"] by auto
  have norm: "gopher_normalize_url url = url"
    using url(1) by (auto simp: gopher_build_url_def gopher_normalize_url_def starts_with_def cstr_def)
  obtain kind where k: "kind_of_type (gi_type it) = Some kind"
    using assms(6) by (auto simp: kind_of_type_def)
  have "gopher_step t (Click True q (int i)) = gopher_navigate True url True t"
    using assms(2,3,6) url(1) ok(1) by (auto simp: gopher_dispatch_item_def gopher_type_is_clickable_def)
  then show ?thesis
    using assms(1) url(2) norm k by (simp add: gopher_navigate_def gopher_kick_fetch_def gopher_set_status_def)
qed

lemma gopher_item_followed_witness:
  "\<exists>r. gt_worker (gopher_step (gopher_tab_start\<lparr>gt_items := [sample_item]\<rparr>) (Click True None (int 0))) = Some r \<and> gf_port r = 70"
  using gopher_item_followed [of "gopher_tab_start\<lparr>gt_items := [sample_item]\<rparr>" 0 sample_item None]
  by (auto simp: sample_item_def gopher_tab_start_def item_ok_def field_ok_def url_host_def)

text \<open>
  The URL of a search result has type 7, which \<open>gopher_navigate\<close> refuses: Refresh, Back and Forward cannot load it.
\<close>

lemma gopher_search_not_reloaded:
  assumes "gopher_parse_url (\<lambda>_. True) url = (0, Some (host, port, 0x37, selector))" "gopher_normalize_url url = url"
  shows "gopher_navigate ok url push t = gopher_set_status (asc ''Gopher: item type not supported in v0.1.0-mvp.'') t"
  using assms by (simp add: gopher_navigate_def kind_of_type_def)

text \<open>The extraction of a selection writes within the buffer it has, the terminator included.\<close>

lemma trim_spaces_length: "length (trim_spaces s) \<le> length s"
  using length_dropWhile_le [of _ "rev s"] by (simp add: trim_spaces_def)

lemma extract_step_fits:
  assumes "extract_step mem t sel (Some (used, cap, k)) line = Some (used', cap', k')" "length used < cap" "256 \<le> cap"
  shows "length used + length (extract_line t sel line) < cap' \<and> length used' < cap' \<and> 256 \<le> cap'"
proof -
  have g: "n \<le> grow_cap cap n \<and> cap \<le> grow_cap cap n" for n using grow_cap_enough [of cap n] assms(3) by simp
  show ?thesis
    using assms g [of "length used + length (extract_line t sel line) + 4"] trim_spaces_length [of "extract_line t sel line"]
    by (auto simp: extract_step_def Let_def split: if_splits)
qed

end
