(* ===== verification/CuseemeCodec.thy ===== *)
theory CuseemeCodec
  imports Prelude
begin

unbundle bit_operations_syntax

section \<open>CU-SeeMe: packets, video and audio decoders\<close>

text \<open>
  \<open>cuseeme_proto.c\<close>, \<open>cuseeme_video.c\<close>, \<open>cuseeme_idvi.c\<close>, \<open>cuseeme_deltamod.c\<close>, \<open>cuseeme_mulaw.c\<close>. A datagram is
  the list of its bytes. What the parser returns as a pointer into the datagram and a length is the
  part of the list; the parser never gives a part that leaves it. The picture is a function of
  the address in \<open>pix\<close>.
\<close>

subsection \<open>Packets\<close>

definition cusm_rd16 :: "byte list \<Rightarrow> nat \<Rightarrow> u16" where
  "cusm_rd16 p off = push_bit 8 (ucast (p ! off)) OR ucast (p ! (off + 1))"

definition cusm_rd32 :: "byte list \<Rightarrow> nat \<Rightarrow> u32" where
  "cusm_rd32 p off =
     push_bit 24 (ucast (p ! off)) OR push_bit 16 (ucast (p ! (off + 1))) OR
     push_bit 8 (ucast (p ! (off + 2))) OR ucast (p ! (off + 3))"

definition cusm_wr16 :: "byte list \<Rightarrow> nat \<Rightarrow> u16 \<Rightarrow> byte list" where
  "cusm_wr16 p off v = p[off := ucast (drop_bit 8 v), off + 1 := ucast (v AND 0xFF)]"

definition cusm_wr32 :: "byte list \<Rightarrow> nat \<Rightarrow> u32 \<Rightarrow> byte list" where
  "cusm_wr32 p off v =
     p[off := ucast (drop_bit 24 v), off + 1 := ucast (drop_bit 16 v), off + 2 := ucast (drop_bit 8 v),
       off + 3 := ucast (v AND 0xFF)]"

record cusm_packet =
  pk_valid :: bool
  pk_dest_family :: u16
  pk_data_type :: u16
  pk_message :: u16
  pk_seq :: u32
  pk_src_addr :: u32
  pk_plen :: u16
  pk_oc_sendmode :: byte
  pk_oc_recvmode :: byte
  pk_oc_flags :: byte
  pk_vid :: "byte list"
  pk_aud_nsid :: nat
  pk_aud_format :: byte
  pk_aud_newts :: bool
  pk_aud :: "byte list"

definition cusm_packet_zero :: cusm_packet where
  "cusm_packet_zero =
     \<lparr>pk_valid = False, pk_dest_family = 0, pk_data_type = 0, pk_message = 0, pk_seq = 0, pk_src_addr = 0, pk_plen = 0,
      pk_oc_sendmode = 0, pk_oc_recvmode = 0, pk_oc_flags = 0, pk_vid = [], pk_aud_nsid = 0, pk_aud_format = 0,
      pk_aud_newts = False, pk_aud = []\<rparr>"

definition parse_video :: "byte list \<Rightarrow> cusm_packet \<Rightarrow> cusm_packet option" where
  "parse_video buf pk =
     (if length buf < 0x1C then None
      else
        let n = int (length buf);
            vlen = uint (cusm_rd16 buf 0x1A);
            vlen = (if 0x1C + vlen > n then n - 0x1C else vlen);
            vlen = (if vlen < 0 then 0 else vlen)
        in Some (pk\<lparr>pk_vid := take (nat vlen) (drop 0x1C buf)\<rparr>))"

definition parse_audio :: "byte list \<Rightarrow> cusm_packet \<Rightarrow> cusm_packet option" where
  "parse_audio buf pk =
     (if length buf < 0x1A + 8 then None
      else
        let nsid = unat (buf ! 0x1A AND 0x3F);
            flags = buf ! 0x1B;
            off = 0x1A + 8 + 4 * nsid;
            off = (if off > length buf then length buf else off)
        in Some (pk\<lparr>pk_aud_nsid := nsid, pk_aud_format := flags AND 0x1F, pk_aud_newts := (flags AND 0x80 \<noteq> 0),
                    pk_aud := drop off buf\<rparr>))"

definition parse_opencontinue :: "byte list \<Rightarrow> cusm_packet \<Rightarrow> cusm_packet" where
  "parse_opencontinue buf pk =
     (if length buf \<ge> 0x38 then
        pk\<lparr>pk_oc_sendmode := buf ! 0x34, pk_oc_recvmode := buf ! 0x35, pk_oc_flags := buf ! 0x36\<rparr>
      else pk)"

text \<open>The packet where the code returns 1.\<close>

definition cusm_parse :: "byte list \<Rightarrow> cusm_packet option" where
  "cusm_parse buf =
     (if length buf < 0x1A then None
      else
        let pk = cusm_packet_zero
              \<lparr>pk_dest_family := cusm_rd16 buf 0, pk_src_addr := cusm_rd32 buf 0x0C, pk_seq := cusm_rd32 buf 0x10,
               pk_message := cusm_rd16 buf 0x14, pk_data_type := cusm_rd16 buf 0x16, pk_plen := cusm_rd16 buf 0x18\<rparr>;
            pk1 = (if pk_data_type pk = 1 \<or> pk_data_type pk = 2 then parse_video buf pk
                   else if pk_data_type pk = 3 then parse_audio buf pk
                   else if pk_data_type pk = 101 then Some (parse_opencontinue buf pk)
                   else Some pk)
        in map_option (pk_valid_update (\<lambda>_. True)) pk1)"

definition cusm_oc_max_len :: nat where "cusm_oc_max_len = 0x38 + 12"

text \<open>A C string copied behind its length, at most 19 characters of it.\<close>

definition put_name :: "byte list \<Rightarrow> byte list \<Rightarrow> byte list" where
  "put_name name buf =
     (let s = take 19 name
      in take 0x20 buf @ word_of_nat (length s) # s @ drop (0x21 + length s) buf)"

text \<open>The packet of \<open>plen\<close> bytes: header, body, and the one client entry where there is a subscription.\<close>

definition cusm_build_opencontinue ::
  "u32 \<Rightarrow> u32 \<Rightarrow> u16 \<Rightarrow> byte list \<Rightarrow> bool \<Rightarrow> bool \<Rightarrow> u32 \<Rightarrow> byte list" where
  "cusm_build_opencontinue seq my_ip my_port user_name want_audio do_close subscribe_ip =
     (let b0 = replicate cusm_oc_max_len 0;
          b1 = cusm_wr16 b0 0 2;
          b2 = cusm_wr16 b1 2 0;
          b3 = cusm_wr32 b2 4 0;
          b4 = cusm_wr16 b3 8 1;
          b5 = cusm_wr16 b4 0x0A (if my_port \<noteq> 0 then my_port else 7648);
          b6 = cusm_wr32 b5 0x0C my_ip;
          b7 = cusm_wr32 b6 0x10 seq;
          b8 = cusm_wr16 b7 0x14 (if do_close then 6 else 1);
          b9 = cusm_wr16 b8 0x16 101;
          c0 = cusm_wr16 b9 0x1A (if subscribe_ip \<noteq> 0 then 1 else 0);
          c1 = cusm_wr32 c0 0x1C seq;
          c2 = put_name user_name c1;
          c3 = c2[0x34 := 0, 0x35 := 1, 0x36 := 8 OR (if want_audio then 1 else 0), 0x37 := 1];
          plen = (if subscribe_ip \<noteq> 0 then 0x38 + 12 else 0x38 :: nat);
          d0 = (if subscribe_ip \<noteq> 0
                then (cusm_wr32 c3 0x38 subscribe_ip)
                  [0x38 + 4 := (if want_audio then 1 else 0), 0x38 + 5 := 0, 0x38 + 6 := 1, 0x38 + 7 := 0]
                else c3)
      in take plen (cusm_wr16 d0 0x18 (word_of_nat plen)))"

subsection \<open>Video\<close>

definition k_inter :: "u32 list" where
  "k_inter =
     [0x00000000, 0xDDDDDDDE, 0xEEEEEEEF, 0x00000000, 0xEEEEEEEF, 0x00000000, 0x11111111, 0x00000000,
      0x11111111, 0x22222222, 0x11111111, 0x22222222, 0x33333333, 0x22222222, 0x33333333, 0x44444444]"

definition k_intrabits :: "nat list" where
  "k_intrabits = [32, 0, 8, 16, 0, 8, 16, 0, 8, 16, 0, 8, 16, 0, 8, 16]"

record cusm_video =
  cv_pix :: "int \<Rightarrow> byte"
  cv_got_any :: bool

definition cusm_vid_w :: int where "cusm_vid_w = 160"
definition cusm_vid_h :: int where "cusm_vid_h = 120"
definition cusm_sq_cols :: int where "cusm_sq_cols = 20"
definition cusm_sq_count :: int where "cusm_sq_count = 300"

definition cusm_video_init :: "(int \<Rightarrow> byte) \<Rightarrow> cusm_video" where
  "cusm_video_init m = \<lparr>cv_pix = mem_fill m 0 (cusm_vid_w * cusm_vid_h) 8, cv_got_any = False\<rparr>"

text \<open>One bit, and two bits, into the low end of each nibble.\<close>

definition intra8 :: "byte \<Rightarrow> u32" where
  "intra8 b = foldl (\<lambda>r k. r OR push_bit (4 * (7 - k)) (ucast (drop_bit (7 - k) b AND 1))) 0 [0..<8]"

definition intra16 :: "byte \<Rightarrow> byte \<Rightarrow> u32" where
  "intra16 b0 b1 =
     (let w = push_bit 8 (ucast b0) OR ucast b1 :: u16
      in foldl (\<lambda>r k. r OR push_bit (4 * (7 - k)) (ucast (drop_bit (2 * (7 - k)) w AND 3))) 0 [0..<8])"

definition nibble :: "u32 \<Rightarrow> nat \<Rightarrow> byte" where
  "nibble row x = ucast (drop_bit (4 * (7 - x)) row AND 0xF)"

definition put_pixel :: "int \<Rightarrow> int \<Rightarrow> u32 \<Rightarrow> (int \<Rightarrow> byte) \<Rightarrow> nat \<Rightarrow> (int \<Rightarrow> byte)" where
  "put_pixel px py row m x =
     (let gx = px + int x in
      if gx < 0 \<or> gx \<ge> cusm_vid_w then m else m(py * cusm_vid_w + gx := nibble row x))"

definition put_row :: "(int \<Rightarrow> byte) \<Rightarrow> int \<Rightarrow> int \<Rightarrow> u32 \<Rightarrow> (int \<Rightarrow> byte)" where
  "put_row m px py row =
     (if py < 0 \<or> py \<ge> cusm_vid_h then m else foldl (put_pixel px py row) m [0..<8])"

definition square_codes :: "byte list \<Rightarrow> nat list" where
  "square_codes cs = concat (map (\<lambda>b. [unat (drop_bit 4 b AND 0xF), unat (b AND 0xF)]) cs)"

definition intra_need :: "nat list \<Rightarrow> nat" where
  "intra_need codes = sum_list (map (\<lambda>c. k_intrabits ! c div 8) codes)"

text \<open>The value of a row, from its predecessor and its code, and the data after it.\<close>

definition row_value :: "u32 \<Rightarrow> nat \<Rightarrow> byte list \<Rightarrow> u32 \<times> byte list" where
  "row_value prev c d =
     (if k_intrabits ! c = 8 then (prev - k_inter ! c + intra8 (d ! 0), drop 1 d)
      else if k_intrabits ! c = 16 then (prev - k_inter ! c + intra16 (d ! 0) (d ! 1), drop 2 d)
      else if k_intrabits ! c = 32 then (cusm_rd32 d 0, drop 4 d)
      else (prev - k_inter ! c, d))"

fun decode_rows :: "(int \<Rightarrow> byte) \<Rightarrow> int \<Rightarrow> int \<Rightarrow> u32 \<Rightarrow> nat list \<Rightarrow> byte list \<Rightarrow> (int \<Rightarrow> byte) \<times> byte list" where
  "decode_rows m px py prev [] d = (m, d)"
| "decode_rows m px py prev (c # cs) d =
     (case row_value prev c d of (row, d1) \<Rightarrow> decode_rows (put_row m px py row) px (py + 1) row cs d1)"

lemma row_value_length: "length (snd (row_value prev c d)) \<le> length d"
  by (simp add: row_value_def)

lemma decode_rows_length: "length (snd (decode_rows m px py prev cs d)) \<le> length d"
proof (induction cs arbitrary: m py prev d)
  case (Cons c cs)
  show ?case by (simp add: split_beta) (rule order_trans [OF Cons.IH row_value_length])
qed simp

function video_loop :: "cusm_video \<Rightarrow> byte list \<Rightarrow> int \<Rightarrow> cusm_video \<times> int" where
  "video_loop v d squares =
     (if length d < 6 then (v, squares)
      else
        let sid = uint (d ! 0) * 256 + uint (d ! 1);
            codes = square_codes (take 4 (drop 2 d));
            d1 = drop 6 d
        in if sid \<ge> cusm_sq_count then (v, squares)
           else if intra_need codes > length d1 then (v, squares)
           else
             let px = sid mod cusm_sq_cols * 8; py = sid div cusm_sq_cols * 8;
                 (m, d2) = decode_rows (cv_pix v) px py 0x88888888 codes d1
             in video_loop \<lparr>cv_pix = m, cv_got_any = True\<rparr> d2 (squares + 1))"
  by pat_completeness auto
termination
proof (relation "measure (\<lambda>(v, d, n). length d)", goal_cases)
  case (2 v d n sid codes d1 px py z m d2)
  have "length d2 \<le> length d1"
    using decode_rows_length [where ?m = "cv_pix v" and ?d = d1] 2(9,10) by (metis snd_conv)
  then show ?case using 2(1,4) by simp
qed simp

declare video_loop.simps [simp del]

definition cusm_video_decode :: "cusm_video \<Rightarrow> byte list \<Rightarrow> cusm_video \<times> int" where
  "cusm_video_decode v d = video_loop v d 0"

definition cusm_video_to_gray8 :: "cusm_video \<Rightarrow> byte list" where
  "cusm_video_to_gray8 v =
     map (\<lambda>i. word_of_int ((15 - uint (cv_pix v (int i) AND 0xF)) * 17)) [0..<nat (cusm_vid_w * cusm_vid_h)]"

subsection \<open>Audio\<close>

definition clamp16 :: "int \<Rightarrow> int" where
  "clamp16 v = (if v > 32767 then 32767 else if v < -32768 then -32768 else v)"

definition dm_step :: "int list" where "dm_step = [160, 494, -160, -494]"

definition dm_sample :: "int \<Rightarrow> nat \<Rightarrow> int" where
  "dm_sample acc code = wrap32 (wrap32 (cdiv (acc * 255) 256) + dm_step ! code)"

text \<open>The accumulator and the samples so far.\<close>

definition dm_byte :: "int \<times> int list \<Rightarrow> byte \<Rightarrow> int \<times> int list" where
  "dm_byte st b =
     foldl (\<lambda>(acc, out) s.
              let acc1 = dm_sample acc (unat (drop_bit (6 - 2 * s) b AND 3))
              in (acc1, out @ [clamp16 acc1])) st [0..<4]"

definition cusm_deltamod_decode :: "int \<Rightarrow> byte list \<Rightarrow> int \<times> int list" where
  "cusm_deltamod_decode acc d = foldl dm_byte (acc, []) d"

definition idvi_step :: "int list" where
  "idvi_step =
     [7, 8, 9, 10, 11, 12, 13, 14, 16, 17, 19, 21, 23, 25, 28, 31, 34, 37, 41, 45, 50, 55, 60, 66, 73, 80, 88, 97, 107, 118,
      130, 143, 157, 173, 190, 209, 230, 253, 279, 307, 337, 371, 408, 449, 494, 544, 598, 658, 724, 796,
      876, 963, 1060, 1166, 1282, 1411, 1552, 1707, 1878, 2066, 2272, 2499, 2749, 3024, 3327, 3660, 4026, 4428, 4871, 5358,
      5894, 6484, 7132, 7845, 8630, 9493, 10442, 11487, 12635, 13899,
      15289, 16818, 18500, 20350, 22385, 24623, 27086, 29794, 32767]"

definition idvi_index :: "int list" where
  "idvi_index = [-1, -1, -1, -1, 2, 4, 6, 8, -1, -1, -1, -1, 2, 4, 6, 8]"

definition clamp_index :: "int \<Rightarrow> int" where
  "clamp_index i = (let i1 = (if i < 0 then 0 else i) in if i1 > 88 then 88 else i1)"

definition idvi_nibble :: "int \<times> int \<times> int list \<Rightarrow> nat \<Rightarrow> int \<times> int \<times> int list" where
  "idvi_nibble st nib =
     (case st of (pred, index, out) \<Rightarrow>
        let step = idvi_step ! nat index;
            delta = step * int (nib mod 8) div 4 + step div 8;
            pred1 = clamp16 (if nib \<ge> 8 then pred - delta else pred + delta)
        in (pred1, clamp_index (index + idvi_index ! nib), out @ [pred1]))"

definition cusm_idvi_decode :: "byte list \<Rightarrow> int list" where
  "cusm_idvi_decode d =
     (if length d < 4 then []
      else
        let pred = sint (push_bit 8 (ucast (d ! 0)) OR ucast (d ! 1) :: u16);
            index = clamp_index (uint (d ! 2))
        in snd (snd (foldl (\<lambda>st b. idvi_nibble (idvi_nibble st (unat (drop_bit 4 b AND 0xF))) (unat (b AND 0xF)))
                      (pred, index, []) (drop 4 d))))"

definition mulaw_sample :: "byte \<Rightarrow> int" where
  "mulaw_sample b =
     (let mu = NOT b;
          sgn = (if mu AND 0x80 \<noteq> 0 then -1 else 1);
          e = unat (drop_bit 4 mu AND 7);
          mant = uint (mu AND 0xF);
          sample = ((mant * 2) OR 0x21) * 2 ^ e - 33
      in sgn * sample)"

definition cusm_mulaw_decode :: "byte list \<Rightarrow> int list" where
  "cusm_mulaw_decode src = map mulaw_sample src"

end
