(* ===== verification/CuseemeCell.thy ===== *)
theory CuseemeCell
  imports CuseemeCodec
begin

section \<open>CU-SeeMe: what the decoders do\<close>

text \<open>
  Words in network order, rows and squares of the picture, lengths of decoded sound. \<open>enc_square\<close> is a sender
  that codes a square row by row as it is.
\<close>

subsection \<open>Words in network order\<close>

lemma low_byte: "ucast (v AND 0xFF :: 'a::len word) = (ucast v :: byte)"
proof -
  have "v AND 0xFF = take_bit 8 v" by (simp add: take_bit_eq_mask mask_eq_exp_minus_1)
  then show ?thesis by (simp only:) (rule bit_word_eqI, auto simp: bit_ucast_iff bit_take_bit_iff)
qed

lemma and_15: "(w :: 'a::len word) AND 0xF = take_bit 4 w"
  by (simp add: take_bit_eq_mask mask_eq_exp_minus_1)

lemma bytes_of_u16: "push_bit 8 (ucast (ucast (drop_bit 8 v) :: byte)) OR ucast (ucast v :: byte) = (v :: u16)" (is "?w = v")
proof (rule bit_word_eqI)
  fix n
  assume "n < LENGTH(16)"
  then show "bit ?w n = bit v n"
    by (cases "n < 8") (auto simp: bit_or_iff bit_push_bit_iff bit_ucast_iff bit_drop_bit_eq)
qed

lemma rd16_wr16: "off + 1 < length p \<Longrightarrow> cusm_rd16 (cusm_wr16 p off v) off = v"
  by (simp add: cusm_rd16_def cusm_wr16_def low_byte bytes_of_u16)

definition be32 :: "u32 \<Rightarrow> byte list" where
  "be32 w = [ucast (drop_bit 24 w), ucast (drop_bit 16 w), ucast (drop_bit 8 w), ucast w]"

lemma bytes_of_u32:
  "push_bit 24 (ucast (ucast (drop_bit 24 v) :: byte)) OR push_bit 16 (ucast (ucast (drop_bit 16 v) :: byte)) OR
    push_bit 8 (ucast (ucast (drop_bit 8 v) :: byte)) OR ucast (ucast v :: byte) = (v :: u32)" (is "?w = v")
proof (rule bit_word_eqI)
  fix n
  assume "n < LENGTH(32)"
  then consider "n < 8" | "8 \<le> n" "n < 16" | "16 \<le> n" "n < 24" | "24 \<le> n" "n < 32" by force
  then show "bit ?w n = bit v n"
    by cases (auto simp: bit_or_iff bit_push_bit_iff bit_ucast_iff bit_drop_bit_eq)
qed

lemma rd32_be32: "cusm_rd32 (be32 w @ r) 0 = w"
  by (simp add: cusm_rd32_def be32_def bytes_of_u32)

lemma rd32_wr32: "off + 3 < length p \<Longrightarrow> cusm_rd32 (cusm_wr32 p off v) off = v"
  by (simp add: cusm_rd32_def cusm_wr32_def low_byte bytes_of_u32)

subsection \<open>Rows of pixels\<close>

definition row_word :: "byte list \<Rightarrow> u32" where
  "row_word ns = foldl (\<lambda>r k. r OR push_bit (4 * (7 - k)) (ucast (ns ! k))) 0 [0..<8]"

lemma nibble_bound: "(b :: byte) \<le> 15 \<Longrightarrow> bit b n \<Longrightarrow> n < 4"
proof (rule ccontr)
  assume b: "b \<le> 15" "bit b n" and "\<not> n < 4"
  have "b AND mask 4 = b" using b(1) by (intro less_mask_eq) (simp add: word_le_nat_alt word_less_nat_alt)
  then have "bit (b AND mask 4) n" using b(2) by simp
  then show False using \<open>\<not> n < 4\<close> by (simp add: bit_and_iff bit_mask_iff)
qed

lemma nibble_row_word:
  assumes "length ns = 8" "list_all (\<lambda>n. n \<le> 15) ns" "x < 8"
  shows "nibble (row_word ns) x = ns ! x"
proof -
  have le: "ns ! k \<le> 15" if "k < 8" for k using assms(1,2) that by (simp add: list_all_length)
  have bits: "bit (row_word ns) n = (\<exists>k<8. 4 * (7 - k) \<le> n \<and> bit (ns ! k) (n - 4 * (7 - k)))" if "n < 32" for n
  proof -
    have "bit (foldl (\<lambda>r k. r OR push_bit (4 * (7 - k)) (ucast (ns ! k))) (0 :: u32) ks) n =
        (\<exists>k\<in>set ks. 4 * (7 - k) \<le> n \<and> bit (ns ! k) (n - 4 * (7 - k)))" for ks
      using that by (induction ks rule: rev_induct) (auto simp: bit_or_iff bit_push_bit_iff bit_ucast_iff)
    then show ?thesis by (simp add: row_word_def Bex_def)
  qed
  show ?thesis
  proof (rule bit_word_eqI)
    fix n
    assume n: "n < LENGTH(8)"
    have nib: "bit (nibble (row_word ns) x) n \<longleftrightarrow> n < 4 \<and> bit (row_word ns) (n + 4 * (7 - x))"
      using n by (auto simp: nibble_def and_15 bit_ucast_iff bit_take_bit_iff bit_drop_bit_eq add.commute)
    show "bit (nibble (row_word ns) x) n = bit (ns ! x) n"
    proof (cases "n < 4")
      case True
      have k: "k = x" if "k < 8" "4 * (7 - k) \<le> n + 4 * (7 - x)" "bit (ns ! k) (n + 4 * (7 - x) - 4 * (7 - k))" for k
      proof -
        define a b where ab: "a = 7 - k" "b = 7 - x"
        have "n + 4 * b - 4 * a < 4" "4 * a \<le> n + 4 * b"
          using nibble_bound [OF le [OF that(1)] that(3)] that(2) by (simp_all add: ab)
        then have "a = b" using True by linarith
        then show ?thesis using that(1) assms(3) by (simp add: ab)
      qed
      have "bit (row_word ns) (n + 4 * (7 - x)) = bit (ns ! x) n"
      proof (subst bits)
        show "n + 4 * (7 - x) < 32" using True assms(3) by simp
        show "(\<exists>k<8. 4 * (7 - k) \<le> n + 4 * (7 - x) \<and> bit (ns ! k) (n + 4 * (7 - x) - 4 * (7 - k))) = bit (ns ! x) n"
        proof
          assume "\<exists>k<8. 4 * (7 - k) \<le> n + 4 * (7 - x) \<and> bit (ns ! k) (n + 4 * (7 - x) - 4 * (7 - k))"
          then obtain k' where k': "k' < 8" "4 * (7 - k') \<le> n + 4 * (7 - x)" "bit (ns ! k') (n + 4 * (7 - x) - 4 * (7 - k'))" by blast
          then show "bit (ns ! x) n" using k [OF k'] by simp
        qed (use assms(3) in \<open>auto intro!: exI [of _ x]\<close>)
      qed
      then show ?thesis using True nib by simp
    next
      case False
      then show ?thesis using nibble_bound [OF le [OF assms(3)]] nib by auto
    qed
  qed
qed

text \<open>What a row and a run of rows do to the picture.\<close>

lemma cell_eq:
  "0 \<le> x \<Longrightarrow> x < cusm_vid_w \<Longrightarrow> 0 \<le> x' \<Longrightarrow> x' < cusm_vid_w \<Longrightarrow>
    y * cusm_vid_w + x = y' * cusm_vid_w + x' \<longleftrightarrow> y = y' \<and> x = (x' :: int)"
proof -
  assume b: "0 \<le> x" "x < cusm_vid_w" "0 \<le> x'" "x' < cusm_vid_w"
  have "y = y' \<and> x = x'" if "y * 160 + x = y' * 160 + x'"
  proof -
    have "(y * 160 + x) div 160 = y" "(y' * 160 + x') div 160 = y'" using b by (simp_all add: cusm_vid_w_def)
    then have "y = y'" using that by simp
    then show ?thesis using that by simp
  qed
  then show ?thesis by (auto simp: cusm_vid_w_def)
qed

lemma put_row_cell:
  assumes "0 \<le> px" "px + 8 \<le> cusm_vid_w" "0 \<le> py" "py < cusm_vid_h" "0 \<le> x" "x < cusm_vid_w"
  shows "put_row m px py row (y * cusm_vid_w + x) =
    (if y = py \<and> px \<le> x \<and> x < px + 8 then nibble row (nat (x - px)) else m (y * cusm_vid_w + x))"
proof -
  have "foldl (put_pixel px py row) m [0..<n] (y * cusm_vid_w + x) =
      (if y = py \<and> px \<le> x \<and> x < px + int n then nibble row (nat (x - px)) else m (y * cusm_vid_w + x))" if "n \<le> 8" for n
    using that
  proof (induction n)
    case (Suc n)
    have gx: "0 \<le> px + int n" "px + int n < cusm_vid_w" using Suc.prems assms(1,2) by auto
    have e: "y * cusm_vid_w + x = py * cusm_vid_w + (px + int n) \<longleftrightarrow> y = py \<and> x = px + int n"
      using cell_eq [OF assms(5,6) gx] .
    show ?case using Suc gx e by (auto simp: put_pixel_def Let_def)
  qed auto
  from this [of 8] show ?thesis using assms by (simp add: put_row_def)
qed

lemma put_row_frame: "a < 0 \<or> cusm_vid_w * cusm_vid_h \<le> a \<Longrightarrow> put_row m px py row a = m a"
proof -
  assume a: "a < 0 \<or> cusm_vid_w * cusm_vid_h \<le> a"
  have "foldl (put_pixel px py row) m ks a = m a" if "0 \<le> py" "py < cusm_vid_h" for ks
  proof (induction ks arbitrary: m)
    case (Cons k ks)
    have "put_pixel px py row m k a = m a"
    proof (cases "px + int k < 0 \<or> px + int k \<ge> cusm_vid_w")
      case False
      then have "0 \<le> py * cusm_vid_w + (px + int k)" "py * cusm_vid_w + (px + int k) < cusm_vid_h * cusm_vid_w"
        using row_major_bounds [of py cusm_vid_h "px + int k" cusm_vid_w] that by auto
      then show ?thesis using a by (auto simp: put_pixel_def Let_def mult.commute)
    qed (simp add: put_pixel_def Let_def)
    then show ?case using Cons by simp
  qed simp
  then show ?thesis by (simp add: put_row_def)
qed

lemma decode_rows_frame:
  "a < 0 \<or> cusm_vid_w * cusm_vid_h \<le> a \<Longrightarrow> fst (decode_rows m px py prev cs d) a = m a"
proof (induction cs arbitrary: m py prev d)
  case (Cons c cs)
  then show ?case by (simp add: split_beta put_row_frame)
qed simp

lemma video_loop_frame:
  "a < 0 \<or> cusm_vid_w * cusm_vid_h \<le> a \<Longrightarrow> cv_pix (fst (video_loop v d n)) a = cv_pix v a"
proof (induction v d n rule: video_loop.induct)
  case (1 v d n)
  let ?sid = "uint (d ! 0) * 256 + uint (d ! 1)"
  let ?r = "decode_rows (cv_pix v) (?sid mod cusm_sq_cols * 8) (?sid div cusm_sq_cols * 8) 0x88888888 (square_codes (take 4 (drop 2 d))) (drop 6 d)"
  have "cv_pix (fst (video_loop \<lparr>cv_pix = fst ?r, cv_got_any = True\<rparr> (snd ?r) (n + 1))) a = fst ?r a"
    if "\<not> length d < 6" "\<not> ?sid \<ge> cusm_sq_count" "\<not> intra_need (square_codes (take 4 (drop 2 d))) > length (drop 6 d)"
    using 1(1) [OF that(1) refl refl refl that(2,3) refl refl refl _ 1(2), of "fst ?r" "snd ?r"] by simp
  then show ?case
    using decode_rows_frame [OF 1(2)] by (subst video_loop.simps) (simp add: Let_def split_beta)
qed

text \<open>No packet makes the decoder write outside the picture.\<close>

definition picture :: "int set" where "picture = {0..<cusm_vid_w * cusm_vid_h}"

interpretation cusm: framed_machine "\<lambda>v d. fst (cusm_video_decode v d)" "\<lambda>_ _. True" "\<lambda>_. True" cv_pix "\<lambda>_. picture"
  by unfold_locales (auto simp: cusm_video_decode_def picture_def video_loop_frame)

subsection \<open>Squares sent as they are\<close>

text \<open>
  A sender that codes every row of a square with code 0 (the value of the row itself). \<open>f x y\<close> is the
  shade of a pixel.
\<close>

definition square_row :: "(int \<Rightarrow> int \<Rightarrow> byte) \<Rightarrow> int \<Rightarrow> nat \<Rightarrow> u32" where
  "square_row f sid i = row_word (map (\<lambda>x. f (sid mod 20 * 8 + int x) (sid div 20 * 8 + int i)) [0..<8])"

definition enc_square :: "(int \<Rightarrow> int \<Rightarrow> byte) \<Rightarrow> int \<Rightarrow> byte list" where
  "enc_square f sid =
     [word_of_int (sid div 256), word_of_int (sid mod 256), 0, 0, 0, 0] @ concat (map (\<lambda>i. be32 (square_row f sid i)) [0..<8])"

lemma row_value_raw: "row_value prev 0 (be32 w @ r) = (w, r)"
  by (simp add: row_value_def k_intrabits_def rd32_be32) (simp add: be32_def)

lemma length_be32 [simp]: "length (be32 w) = 4"
  by (simp add: be32_def)

lemma decode_raw_rows:
  assumes "0 \<le> px" "px + 8 \<le> cusm_vid_w" "0 \<le> x" "x < cusm_vid_w"
  shows "0 \<le> py \<Longrightarrow> py + int (length ws) \<le> cusm_vid_h \<Longrightarrow>
    snd (decode_rows m px py prev (replicate (length ws) 0) (concat (map be32 ws) @ r)) = r \<and>
    fst (decode_rows m px py prev (replicate (length ws) 0) (concat (map be32 ws) @ r)) (y * cusm_vid_w + x) =
      (if px \<le> x \<and> x < px + 8 \<and> py \<le> y \<and> y < py + int (length ws)
       then nibble (ws ! nat (y - py)) (nat (x - px)) else m (y * cusm_vid_w + x))"
proof (induction ws arbitrary: m py prev)
  case (Cons w ws)
  have IH: "snd (decode_rows (put_row m px py w) px (py + 1) w (replicate (length ws) 0) (concat (map be32 ws) @ r)) = r \<and>
    fst (decode_rows (put_row m px py w) px (py + 1) w (replicate (length ws) 0) (concat (map be32 ws) @ r)) (y * cusm_vid_w + x) =
      (if px \<le> x \<and> x < px + 8 \<and> py + 1 \<le> y \<and> y < py + 1 + int (length ws)
       then nibble (ws ! nat (y - (py + 1))) (nat (x - px)) else put_row m px py w (y * cusm_vid_w + x))"
    using Cons.prems by (intro Cons.IH) auto
  have row: "put_row m px py w (y * cusm_vid_w + x) =
      (if y = py \<and> px \<le> x \<and> x < px + 8 then nibble w (nat (x - px)) else m (y * cusm_vid_w + x))"
    using Cons.prems assms by (intro put_row_cell) auto
  have nth: "(w # ws) ! nat (y - py) = ws ! nat (y - (py + 1))" if "py + 1 \<le> y"
  proof -
    have "nat (y - py) = Suc (nat (y - (py + 1)))" using that by simp
    then show ?thesis by simp
  qed
  show ?case
    using IH row nth by (auto simp: row_value_raw)
qed auto

lemma square_codes_raw: "square_codes [0, 0, 0, 0] = replicate 8 0" "intra_need (replicate 8 0) = 32"
  by code_simp+

lemma length_rows: "length (concat (map (\<lambda>i. be32 (g i)) ks)) = 4 * length ks"
  by (induction ks) simp_all

text \<open>The square of a pixel.\<close>

definition square_of :: "int \<Rightarrow> int \<Rightarrow> int" where
  "square_of x y = y div 8 * 20 + x div 8"

lemma square_of_eq:
  assumes "0 \<le> x" "x < 160" "0 \<le> y" "0 \<le> sid"
  shows "square_of x y = sid \<longleftrightarrow>
    sid mod 20 * 8 \<le> x \<and> x < sid mod 20 * 8 + 8 \<and> sid div 20 * 8 \<le> y \<and> y < sid div 20 * 8 + 8"
proof -
  have c: "0 \<le> x div 8" "x div 8 < 20" using assms by auto
  have q: "a div 8 = b \<longleftrightarrow> b * 8 \<le> a \<and> a < b * 8 + 8" for a b :: int by auto
  have "square_of x y = sid \<longleftrightarrow> y div 8 = sid div 20 \<and> x div 8 = sid mod 20"
    using c div_mult_mod_eq [of sid 20] by (auto simp: square_of_def)
  then show ?thesis by (auto simp: q)
qed

lemma one_square:
  assumes "0 \<le> sid" "sid < 300" "\<And>x y. f x y \<le> 15" "0 \<le> x" "x < cusm_vid_w" "0 \<le> y" "y < cusm_vid_h"
  obtains v' where "video_loop v (enc_square f sid @ r) n = video_loop v' r (n + 1)"
    "cv_pix v' (y * cusm_vid_w + x) = (if square_of x y = sid then f x y else cv_pix v (y * cusm_vid_w + x))"
proof -
  define px py where p: "px = sid mod 20 * 8" "py = sid div 20 * 8"
  define ws where "ws = map (square_row f sid) [0..<8]"
  have ws: "length ws = 8" "concat (map (\<lambda>i. be32 (square_row f sid i)) [0..<8]) = concat (map be32 ws)"
    by (simp_all only: ws_def length_map length_upt map_map o_def)
  have box: "0 \<le> px" "px + 8 \<le> cusm_vid_w" "0 \<le> py" "py + 8 \<le> cusm_vid_h"
    using assms(1,2) by (auto simp: p cusm_vid_w_def cusm_vid_h_def; presburger)+
  let ?d = "decode_rows (cv_pix v) px py 0x88888888 (replicate 8 0) (concat (map be32 ws) @ r)"
  have sid: "uint (word_of_int (sid div 256) :: byte) * 256 + uint (word_of_int (sid mod 256) :: byte) = sid"
    using assms(1,2) by (simp add: uint_word_of_int)
  have len: "length (enc_square f sid @ r) \<ge> 6" "length (concat (map be32 ws)) = 32"
    using length_rows [of "\<lambda>w. w" ws] ws(1) by (simp_all add: enc_square_def)
  have step: "video_loop v (enc_square f sid @ r) n = video_loop \<lparr>cv_pix = fst ?d, cv_got_any = True\<rparr> (snd ?d) (n + 1)"
    using assms(2) len sid
    by (subst video_loop.simps)
      (simp add: enc_square_def ws(2) square_codes_raw Let_def split_beta cusm_sq_count_def cusm_sq_cols_def p)
  have d: "snd ?d = r" "fst ?d (y * cusm_vid_w + x) =
      (if px \<le> x \<and> x < px + 8 \<and> py \<le> y \<and> y < py + 8
       then nibble (ws ! nat (y - py)) (nat (x - px)) else cv_pix v (y * cusm_vid_w + x))"
    using decode_raw_rows [OF box(1,2) assms(4,5) box(3), where ws = ws and m = "cv_pix v" and prev = "0x88888888" and r = r and y = y] box(4) by (simp_all add: ws(1))
  have pix: "nibble (ws ! nat (y - py)) (nat (x - px)) = f x y" if "px \<le> x" "x < px + 8" "py \<le> y" "y < py + 8"
  proof -
    have i: "nat (y - py) < 8" "nat (x - px) < 8" using that by auto
    have "nibble (ws ! nat (y - py)) (nat (x - px)) = map (\<lambda>x. f (px + int x) (py + int (nat (y - py)))) [0..<8] ! nat (x - px)"
      unfolding ws_def using i assms(3) by (simp only: nth_map length_upt nth_upt square_row_def p, subst nibble_row_word) (auto simp: list_all_iff)
    then show ?thesis using i that by simp
  qed
  have "square_of x y = sid \<longleftrightarrow> px \<le> x \<and> x < px + 8 \<and> py \<le> y \<and> y < py + 8"
    using square_of_eq [where x = x and y = y and sid = sid] assms by (simp add: p cusm_vid_w_def)
  then show ?thesis using that [OF step [unfolded d(1)]] d(2) pix by auto
qed

lemma squares_loop:
  assumes "\<And>x y. f x y \<le> 15" "0 \<le> x" "x < cusm_vid_w" "0 \<le> y" "y < cusm_vid_h"
  shows "\<forall>sid\<in>set sids. 0 \<le> sid \<and> sid < 300 \<Longrightarrow>
    snd (video_loop v (concat (map (enc_square f) sids)) n) = n + int (length sids) \<and>
    cv_pix (fst (video_loop v (concat (map (enc_square f) sids)) n)) (y * cusm_vid_w + x) =
      (if square_of x y \<in> set sids then f x y else cv_pix v (y * cusm_vid_w + x))"
proof (induction sids arbitrary: v n)
  case (Cons sid sids)
  obtain v' where v': "video_loop v (enc_square f sid @ concat (map (enc_square f) sids)) n = video_loop v' (concat (map (enc_square f) sids)) (n + 1)"
    "cv_pix v' (y * cusm_vid_w + x) = (if square_of x y = sid then f x y else cv_pix v (y * cusm_vid_w + x))"
  proof (rule one_square [OF _ _ assms, where sid = sid and v = v and n = n and r = "concat (map (enc_square f) sids)"])
    show "0 \<le> sid" "sid < 300" using Cons.prems by auto
  qed
  then show ?case using Cons.IH [of v' "n + 1"] Cons.prems by auto
qed (simp add: video_loop.simps)

subsection \<open>Audio\<close>

lemma dm_byte_length: "length (snd (dm_byte st b)) = length (snd st) + 4"
proof -
  have "length (snd (foldl (\<lambda>(acc, out) s. let acc1 = dm_sample acc (unat (drop_bit (6 - 2 * s) b AND 3))
              in (acc1, out @ [clamp16 acc1])) st ks)) = length (snd st) + length ks" for ks
    by (induction ks rule: rev_induct) (simp_all add: split_beta Let_def)
  then show ?thesis by (simp add: dm_byte_def)
qed

lemma deltamod_length: "length (snd (cusm_deltamod_decode acc d)) = 4 * length d"
proof -
  have "length (snd (foldl dm_byte st d)) = length (snd st) + 4 * length d" for st
    by (induction d arbitrary: st) (simp_all add: dm_byte_length)
  then show ?thesis by (simp add: cusm_deltamod_decode_def)
qed

lemma idvi_nibble_length: "length (snd (snd (idvi_nibble st n))) = Suc (length (snd (snd st)))"
  by (simp add: idvi_nibble_def Let_def split_beta)

lemma idvi_length: "length (cusm_idvi_decode d) = 2 * (length d - 4)"
proof -
  have "length (snd (snd (foldl (\<lambda>st b. idvi_nibble (idvi_nibble st (unat (drop_bit 4 b AND 0xF))) (unat (b AND 0xF))) st bs))) =
      length (snd (snd st)) + 2 * length bs" for st bs
    by (induction bs arbitrary: st) (simp_all add: idvi_nibble_length)
  note this [of _ "drop 4 d"]
  then show ?thesis by (simp add: cusm_idvi_decode_def Let_def)
qed

text \<open>The delta modulator's accumulator cannot overflow: the leak bounds it.\<close>

definition dm_ok :: "int \<Rightarrow> bool" where "dm_ok acc \<longleftrightarrow> \<bar>acc\<bar> \<le> 126464"

lemma dm_sample_ok: "dm_ok acc \<Longrightarrow> code < 4 \<Longrightarrow> dm_ok (dm_sample acc code) \<and> dm_sample acc code = cdiv (acc * 255) 256 + dm_step ! code"
proof -
  assume a: "dm_ok acc" "code < 4"
  have c: "\<bar>cdiv (acc * 255) 256\<bar> \<le> 125970"
    using a(1) by (auto simp: dm_ok_def cdiv_def abs_mult sgn_if)
  have s: "\<bar>dm_step ! code\<bar> \<le> 494"
    using a(2) by (auto simp: dm_step_def less_Suc_eq numeral_eq_Suc)
  have w: "wrap32 (cdiv (acc * 255) 256) = cdiv (acc * 255) 256" using c by (intro wrap32_id) auto
  have "wrap32 (cdiv (acc * 255) 256 + dm_step ! code) = cdiv (acc * 255) 256 + dm_step ! code"
    using c s by (intro wrap32_id) auto
  then show ?thesis using c s w by (auto simp: dm_sample_def dm_ok_def)
qed

end
