(* ===== verification/CuseemeSession.thy ===== *)
theory CuseemeSession
  imports CuseemeCell
begin

section \<open>CU-SeeMe: the session\<close>

text \<open>
  \<open>session_run\<close>, \<open>worker_proc\<close>, \<open>worker_start\<close>, \<open>worker_stop\<close> and the sound queue of
  \<open>cuseeme_module.c\<close>. One turn of the receive loop is a \<open>cusm_iter\<close>: whether the stop event is set, the
  datagram that \<open>recvfrom\<close> delivers (one that does not fit the 4096 bytes of the buffer is an error there), the
  buffers the sound driver has played, and the clock at the four places that read it. The static array \<open>pcm\<close> is a
  function of the index, so that a sample behind its end is seen.
\<close>

definition cusm_nwbuf :: nat where "cusm_nwbuf = 24"
definition cusm_wbuf_samp :: int where "cusm_wbuf_samp = 8192"

datatype cusm_ui = St_disconnected | St_connecting | St_handshaking | St_receiving | St_lost

record cusm_cfg =
  cc_my_ip :: u32
  cc_my_port :: u16
  cc_deltamod :: bool

record cusm_iter =
  it_stop :: bool
  it_data :: "byte list option"
  it_played :: "nat list"
  it_prepared :: bool
  it_t_rx :: u32
  it_t_ka :: u32
  it_t_kaset :: u32
  it_t_to :: u32

record cusm_sess =
  cs_state :: cusm_ui
  cs_gray :: "byte list"
  cs_have_frame :: bool
  cs_frames :: u32
  cs_drops :: u32
  cs_video_pkts :: u32
  cs_audio_bytes :: u32
  cs_pcm :: "int \<Rightarrow> int"
  cs_wave :: bool
  cs_queued :: "bool list"
  cs_played :: "int list list"
  cs_sent :: "byte list list"
  cs_frame_msgs :: nat
  cs_sender :: u32
  cs_seq :: u32
  cs_last_keepalive :: u32
  cs_last_rx :: u32
  cs_vid :: cusm_video
  cs_dm :: int
  cs_last_seq :: u32
  cs_have_last :: bool
  cs_lossy :: bool
  cs_stabilized :: bool

text \<open>The first buffer that is not queued takes the samples; none free drops them.\<close>

definition waveout_push :: "bool \<Rightarrow> int \<Rightarrow> cusm_sess \<Rightarrow> cusm_sess" where
  "waveout_push prepared nsamp s =
     (if \<not> cs_wave s \<or> nsamp \<le> 0 then s
      else
        let n = (if nsamp > cusm_wbuf_samp then cusm_wbuf_samp else nsamp) in
        case find (\<lambda>i. \<not> cs_queued s ! i) [0..<cusm_nwbuf] of
          None \<Rightarrow> s
        | Some i \<Rightarrow>
            if prepared then s\<lparr>cs_queued := (cs_queued s)[i := True], cs_played := cs_played s @ [mem_slice (cs_pcm s) 0 n]\<rparr>
            else s)"

definition waveout_open :: "bool \<Rightarrow> cusm_sess \<Rightarrow> cusm_sess" where
  "waveout_open device s =
     (if cs_wave s then s
      else if device then s\<lparr>cs_wave := True, cs_queued := replicate cusm_nwbuf False\<rparr>
      else s)"

definition waveout_close :: "cusm_sess \<Rightarrow> cusm_sess" where
  "waveout_close s = (if cs_wave s then s\<lparr>cs_wave := False, cs_queued := replicate cusm_nwbuf False\<rparr> else s)"

definition track_seq :: "u32 \<Rightarrow> cusm_sess \<Rightarrow> cusm_sess" where
  "track_seq q s =
     (if cs_have_last s then
        s\<lparr>cs_lossy := (if q > cs_last_seq s + 1 then True else cs_lossy s),
          cs_last_seq := (if q > cs_last_seq s then q else cs_last_seq s)\<rparr>
      else s\<lparr>cs_last_seq := q, cs_have_last := True\<rparr>)"

definition frame_end :: "cusm_sess \<Rightarrow> cusm_sess" where
  "frame_end s =
     (let s1 = s\<lparr>cs_gray := cusm_video_to_gray8 (cs_vid s), cs_have_frame := True, cs_frames := cs_frames s + 1\<rparr>;
          s2 = (if \<not> cs_stabilized s1 then s1\<lparr>cs_stabilized := True, cs_drops := 0\<rparr>
                else if cs_lossy s1 then s1\<lparr>cs_drops := cs_drops s1 + 1\<rparr>
                else s1)
      in s2\<lparr>cs_lossy := False, cs_frame_msgs := Suc (cs_frame_msgs s2)\<rparr>)"

definition on_video :: "cusm_packet \<Rightarrow> cusm_sess \<Rightarrow> cusm_sess" where
  "on_video pk s =
     (let s1 = s\<lparr>cs_state := St_receiving, cs_vid := fst (cusm_video_decode (cs_vid s) (pk_vid pk)),
                 cs_video_pkts := cs_video_pkts s + 1\<rparr>
      in if pk_message pk = 20 then frame_end s1 else s1)"

text \<open>The decoder writes its samples from the start of \<open>pcm\<close> on.\<close>

definition mem_store :: "(int \<Rightarrow> 'a) \<Rightarrow> 'a list \<Rightarrow> (int \<Rightarrow> 'a)" where
  "mem_store m xs = (\<lambda>a. if 0 \<le> a \<and> a < int (length xs) then xs ! nat a else m a)"

definition decode_audio :: "bool \<Rightarrow> byte list \<Rightarrow> cusm_sess \<Rightarrow> cusm_sess \<times> int" where
  "decode_audio deltamod d s =
     (if deltamod then
        let (acc, out) = cusm_deltamod_decode (cs_dm s) d
        in (s\<lparr>cs_dm := acc, cs_pcm := mem_store (cs_pcm s) out\<rparr>, int (length out))
      else
        let out = cusm_idvi_decode d
        in (s\<lparr>cs_pcm := mem_store (cs_pcm s) out\<rparr>, int (length out)))"

definition on_audio :: "bool \<Rightarrow> bool \<Rightarrow> cusm_packet \<Rightarrow> cusm_sess \<Rightarrow> cusm_sess" where
  "on_audio deltamod prepared pk s =
     (let (s1, ns) = decode_audio deltamod (pk_aud pk) s in
      if ns > 0 then
        let s2 = waveout_push prepared ns (s1\<lparr>cs_state := St_receiving\<rparr>)
        in s2\<lparr>cs_audio_bytes := cs_audio_bytes s2 + word_of_nat (length (pk_aud pk))\<rparr>
      else s1)"

definition on_opencontinue :: "cusm_packet \<Rightarrow> cusm_sess \<Rightarrow> cusm_sess" where
  "on_opencontinue pk s =
     (if (pk_oc_sendmode pk = 1 \<or> pk_oc_sendmode pk = 2) \<and> pk_src_addr pk \<noteq> 0
      then s\<lparr>cs_sender := pk_src_addr pk\<rparr> else s)"

definition on_packet :: "cusm_cfg \<Rightarrow> bool \<Rightarrow> byte list \<Rightarrow> cusm_sess \<Rightarrow> cusm_sess" where
  "on_packet cfg prepared d s =
     (case cusm_parse d of
        None \<Rightarrow> s
      | Some pk \<Rightarrow>
          let s1 = track_seq (pk_seq pk) s in
          if pk_data_type pk = 1 then on_video pk s1
          else if pk_data_type pk = 3 then on_audio (cc_deltamod cfg) prepared pk s1
          else if pk_data_type pk = 101 then on_opencontinue pk s1
          else s1)"

definition send_oc :: "cusm_cfg \<Rightarrow> bool \<Rightarrow> u32 \<Rightarrow> cusm_sess \<Rightarrow> cusm_sess" where
  "send_oc cfg closing sub s =
     s\<lparr>cs_sent := cs_sent s @ [cusm_build_opencontinue (cs_seq s) (cc_my_ip cfg) (cc_my_port cfg) (asc ''MGT Unicorn Suite'') True closing sub]\<rparr>"

definition keepalive :: "cusm_cfg \<Rightarrow> cusm_iter \<Rightarrow> cusm_sess \<Rightarrow> cusm_sess" where
  "keepalive cfg it s =
     (if it_t_ka it - cs_last_keepalive s \<ge> 2000
      then send_oc cfg False (cs_sender s) (s\<lparr>cs_last_keepalive := it_t_kaset it, cs_seq := cs_seq s + 1\<rparr>)
      else s)"

definition played :: "nat list \<Rightarrow> cusm_sess \<Rightarrow> cusm_sess" where
  "played is s = s\<lparr>cs_queued := foldl (\<lambda>q i. q[i := False]) (cs_queued s) is\<rparr>"

definition receive :: "cusm_cfg \<Rightarrow> cusm_iter \<Rightarrow> cusm_sess \<Rightarrow> cusm_sess" where
  "receive cfg it s =
     (case it_data it of
        None \<Rightarrow> s
      | Some d \<Rightarrow>
          if 0 < length d \<and> length d \<le> 4096 then on_packet cfg (it_prepared it) d (s\<lparr>cs_last_rx := it_t_rx it\<rparr>) else s)"

text \<open>One turn: why the loop ends, if it does (\<open>Some True\<close> is a stop), and the state.\<close>

definition session_step :: "cusm_cfg \<Rightarrow> cusm_sess \<Rightarrow> cusm_iter \<Rightarrow> bool option \<times> cusm_sess" where
  "session_step cfg s it =
     (if it_stop it then (Some True, s)
      else
        let s1 = keepalive cfg it (receive cfg it (played (it_played it) s))
        in (if it_t_to it - cs_last_rx s1 \<ge> 8000 then Some False else None, s1))"

fun session_loop :: "cusm_cfg \<Rightarrow> cusm_sess \<Rightarrow> cusm_iter list \<Rightarrow> bool option \<times> cusm_sess" where
  "session_loop cfg s [] = (None, s)"
| "session_loop cfg s (it # its) =
     (case session_step cfg s it of
        (Some r, s1) \<Rightarrow> (Some r, s1)
      | (None, s1) \<Rightarrow> session_loop cfg s1 its)"

definition session_open :: "cusm_cfg \<Rightarrow> bool \<Rightarrow> u32 \<times> u32 \<times> u32 \<Rightarrow> (int \<Rightarrow> byte) \<Rightarrow> cusm_sess \<Rightarrow> cusm_sess" where
  "session_open cfg device ticks stack s =
     (case ticks of (t0, t1, t2) \<Rightarrow>
        let s1 = s\<lparr>cs_sender := 0, cs_seq := t0, cs_last_seq := 0, cs_have_last := False, cs_lossy := False,
                   cs_stabilized := False, cs_vid := cusm_video_init stack, cs_dm := 0\<rparr>;
            s2 = waveout_open device s1;
            s3 = send_oc cfg False 0 (s2\<lparr>cs_state := St_handshaking\<rparr>)
        in s3\<lparr>cs_last_keepalive := t1, cs_last_rx := t2\<rparr>)"

definition session_close :: "cusm_cfg \<Rightarrow> cusm_sess \<Rightarrow> cusm_sess" where
  "session_close cfg s =
     waveout_close (send_oc cfg True 0 (send_oc cfg True 0 (s\<lparr>cs_seq := cs_seq s + 1\<rparr>)))"

text \<open>
  What the name server and the socket calls say at the start, and the turns. The result is none while the turns have
  not ended the loop, otherwise what the function returns.
\<close>

record cusm_env =
  ev_dns :: bool
  ev_socket :: bool
  ev_device :: bool
  ev_ticks :: "u32 \<times> u32 \<times> u32"
  ev_stack :: "int \<Rightarrow> byte"
  ev_iters :: "cusm_iter list"

definition session_run :: "cusm_cfg \<Rightarrow> cusm_env \<Rightarrow> cusm_sess \<Rightarrow> bool option \<times> cusm_sess" where
  "session_run cfg ev s =
     (let s1 = s\<lparr>cs_state := St_connecting\<rparr> in
      if \<not> ev_dns ev \<or> \<not> ev_socket ev then (Some False, s1)
      else
        case session_loop cfg (session_open cfg (ev_device ev) (ev_ticks ev) (ev_stack ev) s1) (ev_iters ev) of
          (None, s2) \<Rightarrow> (None, s2)
        | (Some stop, s2) \<Rightarrow> (Some stop, session_close cfg s2))"

text \<open>
  The worker: per round the stop event at the head of its loop, the session, and whether the stop comes in the wait before
  the next attempt. The seconds of the waits are collected.
\<close>

record cusm_round =
  rd_stop :: bool
  rd_env :: cusm_env
  rd_stop_wait :: bool

fun worker_proc :: "cusm_cfg \<Rightarrow> int \<Rightarrow> cusm_sess \<Rightarrow> cusm_round list \<Rightarrow> bool \<times> int list \<times> cusm_sess" where
  "worker_proc cfg retry s [] = (False, [], s)"
| "worker_proc cfg retry s (r # rs) =
     (if rd_stop r then (True, [], s\<lparr>cs_state := St_disconnected\<rparr>)
      else
        case session_run cfg (rd_env r) s of
          (None, s1) \<Rightarrow> (False, [], s1)
        | (Some True, s1) \<Rightarrow> (True, [], s1\<lparr>cs_state := St_disconnected\<rparr>)
        | (Some False, s1) \<Rightarrow>
            let s2 = s1\<lparr>cs_state := St_lost\<rparr> in
            if rd_stop_wait r then (True, [retry], s2\<lparr>cs_state := St_disconnected\<rparr>)
            else
              case worker_proc cfg (if retry < 30 then retry + 5 else retry) s2 rs of
                (ended, waits, s3) \<Rightarrow> (ended, retry # waits, s3))"

text \<open>The thread control. \<open>wk_live\<close> counts the worker threads that have not returned.\<close>

record cusm_worker =
  wk_running :: bool
  wk_stop_event :: bool
  wk_thread :: bool
  wk_retry :: int
  wk_live :: nat

definition worker_start :: "cusm_worker \<Rightarrow> cusm_sess \<Rightarrow> cusm_worker \<times> cusm_sess" where
  "worker_start w s =
     (if wk_running w then (w, s)
      else (w\<lparr>wk_stop_event := False, wk_retry := 5, wk_running := True, wk_thread := True, wk_live := Suc (wk_live w)\<rparr>,
            s\<lparr>cs_frames := 0, cs_drops := 0, cs_video_pkts := 0, cs_audio_bytes := 0, cs_have_frame := False\<rparr>))"

text \<open>\<open>returned\<close>: the thread returns within the four seconds of the wait.\<close>

definition worker_stop :: "bool \<Rightarrow> cusm_worker \<Rightarrow> cusm_sess \<Rightarrow> cusm_worker \<times> cusm_sess" where
  "worker_stop returned w s =
     (if \<not> wk_running w then (w, s)
      else (w\<lparr>wk_stop_event := True, wk_thread := False, wk_running := False,
              wk_live := (if wk_thread w \<and> returned then wk_live w - 1 else wk_live w)\<rparr>,
            s\<lparr>cs_state := St_disconnected\<rparr>))"

end
