(* ===== verification/CuseemeSafe.thy ===== *)
theory CuseemeSafe
  imports CuseemeSession
begin

section \<open>CU-SeeMe: what a session shows, plays and sends\<close>

text \<open>
  The picture on the screen, the bounds of the arrays, the OpenContinue packets, losses, the end of a session and the worker.
\<close>

subsection \<open>Datagrams of a reflector\<close>

definition cusm_header :: "u32 \<Rightarrow> u32 \<Rightarrow> u16 \<Rightarrow> u16 \<Rightarrow> byte list" where
  "cusm_header src q msg dt = cusm_wr16 (cusm_wr16 (cusm_wr32 (cusm_wr32 (replicate 0x1A 0) 0x0C src) 0x10 q) 0x14 msg) 0x16 dt"

definition video_datagram :: "u32 \<Rightarrow> u16 \<Rightarrow> byte list \<Rightarrow> byte list" where
  "video_datagram q msg body =
     cusm_header 0 q msg 1 @ [ucast (drop_bit 8 (word_of_nat (length body) :: u16)), ucast (word_of_nat (length body) :: u16)] @ body"

definition audio_datagram :: "u32 \<Rightarrow> byte \<Rightarrow> byte list \<Rightarrow> byte list" where
  "audio_datagram q fmt body = cusm_header 0 q 0 3 @ [0, fmt, 0, 0, 0, 0, 0, 0] @ body"

lemma length_wr [simp]: "length (cusm_wr16 p off v) = length p" "length (cusm_wr32 p off w) = length p"
  by (simp_all add: cusm_wr16_def cusm_wr32_def)

lemma nth_wr16_other: "i \<noteq> off \<Longrightarrow> i \<noteq> off + 1 \<Longrightarrow> cusm_wr16 p off v ! i = p ! i"
  by (simp add: cusm_wr16_def)

lemma nth_wr32_other:
  "i \<noteq> off \<Longrightarrow> i \<noteq> off + 1 \<Longrightarrow> i \<noteq> off + 2 \<Longrightarrow> i \<noteq> off + 3 \<Longrightarrow> cusm_wr32 p off v ! i = p ! i"
  by (simp add: cusm_wr32_def)

lemma rd16_wr16_other: "off + 1 < o2 \<or> o2 + 1 < off \<Longrightarrow> cusm_rd16 (cusm_wr16 p o2 v) off = cusm_rd16 p off"
  by (auto simp: cusm_rd16_def nth_wr16_other)

lemma rd16_wr32_other: "off + 1 < o2 \<or> o2 + 3 < off \<Longrightarrow> cusm_rd16 (cusm_wr32 p o2 v) off = cusm_rd16 p off"
  by (auto simp: cusm_rd16_def nth_wr32_other)

lemma rd32_wr16_other: "off + 3 < o2 \<or> o2 + 1 < off \<Longrightarrow> cusm_rd32 (cusm_wr16 p o2 v) off = cusm_rd32 p off"
  by (auto simp: cusm_rd32_def nth_wr16_other)

lemma rd32_wr32_other: "off + 3 < o2 \<or> o2 + 3 < off \<Longrightarrow> cusm_rd32 (cusm_wr32 p o2 v) off = cusm_rd32 p off"
  by (auto simp: cusm_rd32_def nth_wr32_other)

lemma rd_append: "off + 1 < length p \<Longrightarrow> cusm_rd16 (p @ r) off = cusm_rd16 p off"
    "off + 3 < length p \<Longrightarrow> cusm_rd32 (p @ r) off = cusm_rd32 p off"
  by (simp_all add: cusm_rd16_def cusm_rd32_def nth_append)

lemmas rd_wr = rd16_wr16 rd32_wr32 rd16_wr16_other rd16_wr32_other rd32_wr16_other rd32_wr32_other rd_append

lemma header_fields [simp]:
  "length (cusm_header src q msg dt) = 0x1A"
  "cusm_rd32 (cusm_header src q msg dt @ r) 0x0C = src"
  "cusm_rd32 (cusm_header src q msg dt @ r) 0x10 = q"
  "cusm_rd16 (cusm_header src q msg dt @ r) 0x14 = msg"
  "cusm_rd16 (cusm_header src q msg dt @ r) 0x16 = dt"
  by (simp_all add: cusm_header_def rd_wr)

lemma parse_video_datagram:
  assumes "length body < 65536"
  obtains pk where "cusm_parse (video_datagram q msg body) = Some pk" "pk_data_type pk = 1" "pk_message pk = msg"
    "pk_seq pk = q" "pk_vid pk = body"
proof -
  let ?d = "video_datagram q msg body"
  have len: "length ?d = 0x1C + length body" by (simp add: video_datagram_def)
  have vlen: "cusm_rd16 ?d 0x1A = word_of_nat (length body)"
    by (simp add: video_datagram_def cusm_rd16_def nth_append bytes_of_u16)
  have v: "uint (word_of_nat (length body) :: u16) = int (length body)"
    using assms by (simp add: uint_nat unat_of_nat)
  have f: "cusm_rd32 ?d 0x10 = q" "cusm_rd16 ?d 0x14 = msg" "cusm_rd16 ?d 0x16 = 1"
    by (simp_all add: video_datagram_def)
  have body: "drop 0x1C ?d = body" by (simp add: video_datagram_def)
  show ?thesis
  proof (rule that)
    show "cusm_parse ?d = Some (cusm_packet_zero\<lparr>pk_dest_family := cusm_rd16 ?d 0, pk_src_addr := cusm_rd32 ?d 0x0C, pk_seq := q,
        pk_message := msg, pk_data_type := 1, pk_plen := cusm_rd16 ?d 0x18, pk_vid := body, pk_valid := True\<rparr>)"
      using len body by (simp add: cusm_parse_def parse_video_def Let_def vlen v f)
  qed simp_all
qed

lemma parse_audio_datagram:
  obtains pk where "cusm_parse (audio_datagram q fmt body) = Some pk" "pk_data_type pk = 3" "pk_seq pk = q" "pk_aud pk = body"
proof -
  let ?d = "audio_datagram q fmt body"
  have len: "length ?d = 0x22 + length body" by (simp add: audio_datagram_def)
  have f: "cusm_rd32 ?d 0x10 = q" "cusm_rd16 ?d 0x14 = 0" "cusm_rd16 ?d 0x16 = 3" "?d ! 0x1A = 0"
    by (simp_all add: audio_datagram_def nth_append)
  have body: "drop 0x22 ?d = body" by (simp add: audio_datagram_def)
  show ?thesis
  proof (rule that)
    show "cusm_parse ?d = Some (cusm_packet_zero\<lparr>pk_dest_family := cusm_rd16 ?d 0, pk_src_addr := cusm_rd32 ?d 0x0C, pk_seq := q,
        pk_message := 0, pk_data_type := 3, pk_plen := cusm_rd16 ?d 0x18, pk_aud_nsid := 0, pk_aud_format := ?d ! 0x1B AND 0x1F,
        pk_aud_newts := (?d ! 0x1B AND 0x80 \<noteq> 0), pk_aud := body, pk_valid := True\<rparr>)"
      using len body by (simp add: cusm_parse_def parse_audio_def Let_def f)
  qed simp_all
qed

subsection \<open>The picture reaches the screen\<close>

lemma gray8_nth:
  assumes "0 \<le> x" "x < cusm_vid_w" "0 \<le> y" "y < cusm_vid_h"
  shows "cusm_video_to_gray8 v ! nat (y * cusm_vid_w + x) = word_of_int ((15 - uint (cv_pix v (y * cusm_vid_w + x) AND 0xF)) * 17)"
proof -
  have "0 \<le> y * cusm_vid_w + x" "y * cusm_vid_w + x < cusm_vid_w * cusm_vid_h"
    using row_major_bounds [of y cusm_vid_h x cusm_vid_w] assms by (simp_all add: mult.commute)
  then show ?thesis by (simp add: cusm_video_to_gray8_def)
qed

lemma keepalive_fields [simp]:
  "cs_gray (keepalive cfg it s) = cs_gray s" "cs_have_frame (keepalive cfg it s) = cs_have_frame s"
  "cs_state (keepalive cfg it s) = cs_state s" "cs_pcm (keepalive cfg it s) = cs_pcm s" "cs_vid (keepalive cfg it s) = cs_vid s"
  "cs_drops (keepalive cfg it s) = cs_drops s" "cs_lossy (keepalive cfg it s) = cs_lossy s"
  "cs_have_last (keepalive cfg it s) = cs_have_last s" "cs_last_seq (keepalive cfg it s) = cs_last_seq s"
  "cs_last_rx (keepalive cfg it s) = cs_last_rx s" "cs_dm (keepalive cfg it s) = cs_dm s"
  by (simp_all add: keepalive_def send_oc_def)

lemma waveout_push_fields [simp]:
  "cs_pcm (waveout_push p n s) = cs_pcm s" "cs_vid (waveout_push p n s) = cs_vid s" "cs_dm (waveout_push p n s) = cs_dm s"
  "cs_drops (waveout_push p n s) = cs_drops s" "cs_lossy (waveout_push p n s) = cs_lossy s"
  "cs_have_last (waveout_push p n s) = cs_have_last s" "cs_last_seq (waveout_push p n s) = cs_last_seq s"
  "cs_last_rx (waveout_push p n s) = cs_last_rx s" "cs_sender (waveout_push p n s) = cs_sender s"
  by (simp_all add: waveout_push_def Let_def split: option.splits)

lemma and_15_small: "(b :: byte) \<le> 15 \<Longrightarrow> b AND 0xF = b"
proof -
  assume "b \<le> 15"
  then have "b AND mask 4 = b" by (intro less_mask_eq) (simp add: word_le_nat_alt word_less_nat_alt)
  then show ?thesis by (simp add: mask_eq_exp_minus_1)
qed

lemma enc_squares_length: "length (concat (map (enc_square f) sids)) = 38 * length sids"
proof (induction sids)
  case (Cons a sids)
  have "length (enc_square f a) = 38" by (simp add: enc_square_def length_rows)
  then show ?case using Cons by simp
qed simp

text \<open>
  C19: A frame that a sender codes square by square (every row as it is) is what the session displays when its last packet has
  arrived: on the squares the packet holds the gray of the sender's shade, everywhere else the picture of before. The
  session is then receiving and has a frame to show.
\<close>

theorem cusm_picture_delivered:
  assumes "\<And>x y. f x y \<le> 15" "0 \<le> x" "x < cusm_vid_w" "0 \<le> y" "y < cusm_vid_h"
    and "\<forall>sid\<in>set sids. 0 \<le> sid \<and> sid < 300" "length sids \<le> 107"
    and "\<not> it_stop it" "it_data it = Some (video_datagram q 20 (concat (map (enc_square f) sids)))"
  shows "cs_gray (snd (session_step cfg s it)) ! nat (y * cusm_vid_w + x) =
      word_of_int ((15 - uint (if square_of x y \<in> set sids then f x y else cv_pix (cs_vid s) (y * cusm_vid_w + x) AND 0xF)) * 17) \<and>
    cs_have_frame (snd (session_step cfg s it)) \<and> cs_state (snd (session_step cfg s it)) = St_receiving"
proof -
  let ?b = "concat (map (enc_square f) sids)"
  have "length ?b < 65536" using assms(7) by (simp only: enc_squares_length)
  then obtain pk where pk: "cusm_parse (video_datagram q 20 ?b) = Some pk" "pk_data_type pk = 1" "pk_message pk = 20" "pk_vid pk = ?b"
    by (rule parse_video_datagram)
  have len: "0 < length (video_datagram q 20 ?b)" "length (video_datagram q 20 ?b) \<le> 4096"
    using assms(7) by (simp_all only: video_datagram_def length_append enc_squares_length) simp_all
  let ?s = "track_seq (pk_seq pk) ((played (it_played it) s)\<lparr>cs_last_rx := it_t_rx it\<rparr>)"
  have vid: "cs_vid ?s = cs_vid s" by (simp add: track_seq_def played_def)
  have rcv: "receive cfg it (played (it_played it) s) = on_video pk ?s"
    using len pk by (simp only: receive_def on_packet_def assms(9) option.simps Let_def if_True) simp
  have loop: "cv_pix (fst (cusm_video_decode (cs_vid s) ?b)) (y * cusm_vid_w + x) =
      (if square_of x y \<in> set sids then f x y else cv_pix (cs_vid s) (y * cusm_vid_w + x))"
    using squares_loop [OF assms(1-5), where sids = sids and v = "cs_vid s" and n = 0] assms(6) by (simp add: cusm_video_decode_def)
  have "cs_gray (on_video pk ?s) = cusm_video_to_gray8 (fst (cusm_video_decode (cs_vid s) ?b))"
    "cs_have_frame (on_video pk ?s)" "cs_state (on_video pk ?s) = St_receiving"
    using pk(3,4) vid by (simp_all add: on_video_def frame_end_def Let_def)
  then show ?thesis
    using rcv assms(8) loop gray8_nth [OF assms(2-5)] and_15_small [OF assms(1)]
    by (simp add: session_step_def Let_def)
qed

subsection \<open>The sound array\<close>

lemma deltamod_dm_ok: "dm_ok acc \<Longrightarrow> dm_ok (fst (cusm_deltamod_decode acc d))"
proof -
  have samp: "dm_ok (fst (foldl (\<lambda>(acc, out) s. let acc1 = dm_sample acc (unat (drop_bit (6 - 2 * s) b AND 3))
              in (acc1, out @ [clamp16 acc1])) st ks))" if "dm_ok (fst st)" for b :: byte and st :: "int \<times> int list" and ks
    using that
  proof (induction ks rule: rev_induct)
    case (snoc k ks)
    have "unat (drop_bit (6 - 2 * k) b AND 3) < 4"
      using word_and_le1 [of "drop_bit (6 - 2 * k) b" 3] by (simp add: word_le_nat_alt)
    then show ?case using snoc dm_sample_ok [THEN conjunct1] by (simp add: split_beta Let_def)
  qed simp
  have "dm_ok (fst (foldl dm_byte st d))" if "dm_ok (fst st)" for st
    using that by (induction d arbitrary: st) (simp_all add: dm_byte_def samp)
  from this [of "(acc, [])"] show "dm_ok acc \<Longrightarrow> ?thesis" by (simp add: cusm_deltamod_decode_def)
qed

lemma track_seq_fields [simp]:
  "cs_pcm (track_seq q s) = cs_pcm s" "cs_vid (track_seq q s) = cs_vid s" "cs_dm (track_seq q s) = cs_dm s"
  "cs_drops (track_seq q s) = cs_drops s"
  by (simp_all add: track_seq_def)

lemma played_fields [simp]:
  "cs_pcm (played i s) = cs_pcm s" "cs_vid (played i s) = cs_vid s" "cs_dm (played i s) = cs_dm s" "cs_drops (played i s) = cs_drops s"
  "cs_lossy (played i s) = cs_lossy s" "cs_have_last (played i s) = cs_have_last s" "cs_last_seq (played i s) = cs_last_seq s"
  "cs_last_rx (played i s) = cs_last_rx s"
  by (simp_all add: played_def)

lemma frame_end_fields [simp]:
  "cs_pcm (frame_end s) = cs_pcm s" "cs_vid (frame_end s) = cs_vid s" "cs_dm (frame_end s) = cs_dm s"
  "cs_have_last (frame_end s) = cs_have_last s" "cs_last_seq (frame_end s) = cs_last_seq s"
  by (simp_all add: frame_end_def Let_def)

lemma on_video_fields [simp]:
  "cs_pcm (on_video pk s) = cs_pcm s" "cs_dm (on_video pk s) = cs_dm s"
  "cs_have_last (on_video pk s) = cs_have_last s" "cs_last_seq (on_video pk s) = cs_last_seq s"
  "cs_vid (on_video pk s) = fst (cusm_video_decode (cs_vid s) (pk_vid pk))"
  by (simp_all add: on_video_def Let_def)

lemma on_audio_fields [simp]:
  "cs_vid (on_audio dm p pk s) = cs_vid s" "cs_drops (on_audio dm p pk s) = cs_drops s" "cs_lossy (on_audio dm p pk s) = cs_lossy s"
  "cs_have_last (on_audio dm p pk s) = cs_have_last s" "cs_last_seq (on_audio dm p pk s) = cs_last_seq s"
  by (simp_all add: on_audio_def decode_audio_def split_beta Let_def)

lemma on_audio_pcm: "cs_pcm (on_audio dm p pk s) = cs_pcm (fst (decode_audio dm (pk_aud pk) s))"
    "cs_dm (on_audio dm p pk s) = cs_dm (fst (decode_audio dm (pk_aud pk) s))"
  by (simp_all add: on_audio_def split_beta Let_def)

lemma on_opencontinue_fields [simp]:
  "cs_pcm (on_opencontinue pk s) = cs_pcm s" "cs_vid (on_opencontinue pk s) = cs_vid s" "cs_dm (on_opencontinue pk s) = cs_dm s"
  "cs_drops (on_opencontinue pk s) = cs_drops s" "cs_lossy (on_opencontinue pk s) = cs_lossy s"
  "cs_have_last (on_opencontinue pk s) = cs_have_last s" "cs_last_seq (on_opencontinue pk s) = cs_last_seq s"
  by (simp_all add: on_opencontinue_def)

lemma parse_audio_bound: "cusm_parse d = Some pk \<Longrightarrow> pk_data_type pk = 3 \<Longrightarrow> length (pk_aud pk) \<le> length d - 0x22"
  by (auto simp: cusm_parse_def parse_audio_def parse_video_def parse_opencontinue_def Let_def simp del: One_nat_def split: if_splits)

lemma session_step_dm: "dm_ok (cs_dm s) \<Longrightarrow> dm_ok (cs_dm (snd (session_step cfg s it)))"
  by (auto simp: session_step_def Let_def receive_def on_packet_def on_audio_pcm decode_audio_def split_beta deltamod_dm_ok
      split: option.splits)

text \<open>
  With the Intel codec the samples of every datagram that \<open>recvfrom\<close> accepts fit, with the delta modulator those of a datagram of at
  most 2082 bytes (2048 of payload, four samples each); with either codec the pixels do.
\<close>

definition sound_fits :: "cusm_cfg \<Rightarrow> byte list \<Rightarrow> bool" where
  "sound_fits cfg d \<longleftrightarrow> length d \<le> (if cc_deltamod cfg then 2082 else 4096)"

lemma decoded_pcm_frame:
  "length p \<le> (if dm then 2048 else 4062) \<Longrightarrow> a \<notin> {0..<cusm_wbuf_samp} \<Longrightarrow> cs_pcm (fst (decode_audio dm p s)) a = cs_pcm s a"
  by (cases dm) (auto simp: decode_audio_def split_beta mem_store_def idvi_length deltamod_length cusm_wbuf_samp_def)

lemma on_packet_pcm:
  assumes "sound_fits cfg d" "a \<notin> {0..<cusm_wbuf_samp}"
  shows "cs_pcm (on_packet cfg p d s) a = cs_pcm s a"
proof (cases "cusm_parse d")
  case (Some pk)
  have "length (pk_aud pk) \<le> (if cc_deltamod cfg then 2048 else 4062)" if "pk_data_type pk = 3"
    using parse_audio_bound [OF Some that] assms(1) by (simp add: sound_fits_def split: if_splits)
  then show ?thesis using decoded_pcm_frame [OF _ assms(2)]
    by (simp add: on_packet_def Some Let_def on_audio_pcm)
qed (simp add: on_packet_def)

lemma on_packet_pix: "a \<notin> picture \<Longrightarrow> cv_pix (cs_vid (on_packet cfg p d s)) a = cv_pix (cs_vid s) a"
  by (simp add: on_packet_def Let_def cusm.step_frame split: option.splits)

text \<open>What arrives in a round has its sound fit: there is nothing, or nothing the loop takes, or a datagram short enough.\<close>

definition round_fits :: "cusm_cfg \<Rightarrow> cusm_iter \<Rightarrow> bool" where
  "round_fits cfg it = (cc_deltamod cfg \<longrightarrow> (case it_data it of None \<Rightarrow> True | Some d \<Rightarrow> length d \<le> 2082))"

interpretation cusm_pcm: framed_machine "\<lambda>s it. snd (session_step cfg s it)" "\<lambda>_. round_fits cfg" "\<lambda>_. True"
  cs_pcm "\<lambda>_. {0..<cusm_wbuf_samp}" for cfg
proof (unfold_locales, goal_cases)
  case (3 s it a)
  have "sound_fits cfg d" if "it_data it = Some d" "length d \<le> 4096" for d
    using 3(2) that by (simp add: round_fits_def sound_fits_def)
  then show ?case
    using on_packet_pcm [of cfg _ a] 3(3) by (simp add: session_step_def Let_def receive_def split: option.splits)
qed simp_all

interpretation cusm_pix: framed_machine "\<lambda>s it. snd (session_step cfg s it)" "\<lambda>_ _. True" "\<lambda>_. True"
  "\<lambda>s. cv_pix (cs_vid s)" "\<lambda>_. picture" for cfg
proof (unfold_locales, goal_cases)
  case (3 s it a)
  then show ?case
    by (simp add: session_step_def Let_def receive_def on_packet_pix split: option.splits)
qed simp_all

interpretation cusm_dm: stream_machine "\<lambda>s it. snd (session_step cfg s it)" "\<lambda>_ _. True" "\<lambda>s. dm_ok (cs_dm s)" for cfg
  by unfold_locales (rule session_step_dm)

lemma session_loop_foldl:
  obtains k where "snd (session_loop cfg s its) = foldl (\<lambda>s it. snd (session_step cfg s it)) s (take k its)"
proof -
  have "\<exists>k. snd (session_loop cfg s its) = foldl (\<lambda>s it. snd (session_step cfg s it)) s (take k its)"
  proof (induction its arbitrary: s)
    case (Cons it its)
    show ?case
    proof (cases "session_step cfg s it")
      case (Pair r s1)
      obtain k where k: "snd (session_loop cfg s1 its) = foldl (\<lambda>s it. snd (session_step cfg s it)) s1 (take k its)"
        using Cons by blast
      show ?thesis
        using k Pair by (cases r) (auto intro: exI [of _ "Suc k"] exI [of _ 1])
    qed
  qed simp
  then show ?thesis using that by blast
qed

lemma run_ok_input: "(\<And>b. b \<in> set bs \<Longrightarrow> P b) \<Longrightarrow> run_ok step (\<lambda>_. P) s bs"
  by (induction bs arbitrary: s) simp_all

text \<open>
  C30: However the datagrams, the clock, the sound driver and the stop event behave, and whichever codec is chosen, the receive
  loop writes the picture only inside its 160 by 120 cells, and a delta modulator's accumulator that is within the bound the leak
  gives (a session starts it at 0) stays there. It writes the sound array only inside its 8192 samples with the Intel codec, and
  also with the delta modulator as long as no datagram is longer than 2082 bytes.
\<close>

theorem cusm_session_safe:
  shows "(b \<notin> picture \<longrightarrow> cv_pix (cs_vid (snd (session_loop cfg s its))) b = cv_pix (cs_vid s) b) \<and>
    (dm_ok (cs_dm s) \<longrightarrow> dm_ok (cs_dm (snd (session_loop cfg s its)))) \<and>
    (a \<notin> {0..<cusm_wbuf_samp} \<longrightarrow>
      \<not> cc_deltamod cfg \<or> (\<forall>it\<in>set its. \<forall>d. it_data it = Some d \<longrightarrow> length d \<le> 2082) \<longrightarrow>
      cs_pcm (snd (session_loop cfg s its)) a = cs_pcm s a)"
proof -
  obtain k where k: "snd (session_loop cfg s its) = foldl (\<lambda>s it. snd (session_step cfg s it)) s (take k its)"
    by (rule session_loop_foldl)
  have ok: "run_ok (\<lambda>s it. snd (session_step cfg s it)) (\<lambda>_ _. True) s (take k its)"
    by (rule run_ok_input) simp
  have fits: "run_ok (\<lambda>s it. snd (session_step cfg s it)) (\<lambda>_. round_fits cfg) s (take k its)"
    if "\<not> cc_deltamod cfg \<or> (\<forall>it\<in>set its. \<forall>d. it_data it = Some d \<longrightarrow> length d \<le> 2082)"
    using that by (intro run_ok_input) (auto simp: round_fits_def split: option.splits dest: in_set_takeD)
  show ?thesis
    unfolding k using cusm_pix.run_frame [OF _ ok] cusm_dm.run_inv [OF _ ok] cusm_pcm.run_frame [OF _ fits] by blast
qed

text \<open>
  C10: With the delta modulator chosen, one datagram of 2083 to 4096 bytes writes behind the end of the array: the decoder makes four
  samples of every byte of the payload and stores them all, so from 2049 bytes on the cell behind the last of the 8192 gets a
  sample.
\<close>

theorem cusm_deltamod_overflow:
  assumes "2048 < length body" "length body \<le> 4062" "cc_deltamod cfg"
    and "\<not> it_stop it" "it_data it = Some (audio_datagram q fmt body)"
  shows "cs_pcm (snd (session_step cfg s it)) cusm_wbuf_samp = snd (cusm_deltamod_decode (cs_dm s) body) ! nat cusm_wbuf_samp \<and>
    int (length (snd (cusm_deltamod_decode (cs_dm s) body))) > cusm_wbuf_samp"
proof -
  obtain pk where pk: "cusm_parse (audio_datagram q fmt body) = Some pk" "pk_data_type pk = 3" "pk_aud pk = body"
    by (rule parse_audio_datagram)
  have len: "0 < length (audio_datagram q fmt body)" "length (audio_datagram q fmt body) \<le> 4096"
    using assms(2) by (simp_all add: audio_datagram_def)
  have "snd (session_step cfg s it) = keepalive cfg it (on_audio True (it_prepared it) pk
      (track_seq (pk_seq pk) ((played (it_played it) s)\<lparr>cs_last_rx := it_t_rx it\<rparr>)))"
    using assms(3,4) len pk by (simp add: session_step_def Let_def receive_def on_packet_def assms(5))
  then show ?thesis
    using assms(1) by (simp add: on_audio_pcm decode_audio_def split_beta pk(3) mem_store_def deltamod_length cusm_wbuf_samp_def)
qed

subsection \<open>OpenContinue\<close>

lemma length_put_name [simp]: "length p = cusm_oc_max_len \<Longrightarrow> length (put_name nm p) = cusm_oc_max_len"
  by (simp add: put_name_def Let_def cusm_oc_max_len_def)

lemma nth_put_name:
  assumes "length p = cusm_oc_max_len" "i < 0x20 \<or> 0x34 \<le> i" "i < cusm_oc_max_len"
  shows "put_name nm p ! i = p ! i"
proof (cases "i < 0x20")
  case True
  then show ?thesis using assms by (simp add: put_name_def Let_def nth_append cusm_oc_max_len_def)
next
  case False
  have n: "length (take 19 nm) \<le> 19" "i - 0x21 \<ge> length (take 19 nm)" "length (take 0x20 p) = 0x20"
    using False assms by (auto simp: cusm_oc_max_len_def)
  have "(take 0x20 p @ word_of_nat (length (take 19 nm)) # take 19 nm @ drop (0x21 + length (take 19 nm)) p) ! i = p ! i"
    using False assms n
    by (simp add: nth_append nth_Cons' cusm_oc_max_len_def del: length_take)
  then show ?thesis by (simp add: put_name_def Let_def)
qed

lemma rd_put_name:
  assumes "length p = cusm_oc_max_len"
  shows "off + 1 < 0x20 \<Longrightarrow> cusm_rd16 (put_name nm p) off = cusm_rd16 p off"
    and "off + 3 < 0x20 \<Longrightarrow> cusm_rd32 (put_name nm p) off = cusm_rd32 p off"
  using nth_put_name [OF assms] by (simp_all add: cusm_rd16_def cusm_rd32_def cusm_oc_max_len_def)

lemma rd_update:
  "off \<noteq> i \<Longrightarrow> off + 1 \<noteq> i \<Longrightarrow> cusm_rd16 (p[i := v]) off = cusm_rd16 p off"
  "off \<noteq> i \<Longrightarrow> off + 1 \<noteq> i \<Longrightarrow> off + 2 \<noteq> i \<Longrightarrow> off + 3 \<noteq> i \<Longrightarrow> cusm_rd32 (p[i := v]) off = cusm_rd32 p off"
  by (simp_all add: cusm_rd16_def cusm_rd32_def)

lemma rd_take:
  "off + 1 < n \<Longrightarrow> cusm_rd16 (take n p) off = cusm_rd16 p off"
  "off + 3 < n \<Longrightarrow> cusm_rd32 (take n p) off = cusm_rd32 p off"
  by (simp_all add: cusm_rd16_def cusm_rd32_def)

lemmas rd_oc = rd_wr rd_put_name rd_update rd_take nth_wr16_other nth_wr32_other

text \<open>
  What the client announces is what a parser of the same protocol reads: an OpenContinue packet of \<open>cusm_build_opencontinue\<close>
  parses, with the sequence number and the address of the client, as open or close, as one that sends no video and wants
  it, with the audio flag; and the packet has the entry of the subscription, with the address in it, exactly when there is an address to
  subscribe to.
\<close>

theorem cusm_oc_roundtrip:
  "let d = cusm_build_opencontinue q ip port nm audio closing sub in
   (\<exists>pk. cusm_parse d = Some pk \<and> pk_data_type pk = 101 \<and> pk_seq pk = q \<and> pk_src_addr pk = ip \<and>
      pk_message pk = (if closing then 6 else 1) \<and> pk_oc_sendmode pk = 0 \<and> pk_oc_recvmode pk = 1 \<and>
      pk_oc_flags pk = 8 OR (if audio then 1 else 0) \<and> unat (pk_plen pk) = length d) \<and>
   (if sub \<noteq> 0 then length d = cusm_oc_max_len \<and> cusm_rd16 d 0x1A = 1 \<and> cusm_rd32 d 0x38 = sub
    else length d = 0x38 \<and> cusm_rd16 d 0x1A = 0)"
proof -
  define d where "d = cusm_build_opencontinue q ip port nm audio closing sub"
  have len: "length d = (if sub \<noteq> 0 then cusm_oc_max_len else 0x38)"
    by (simp add: d_def cusm_build_opencontinue_def Let_def cusm_oc_max_len_def)
  have f: "cusm_rd32 d 0x0C = ip" "cusm_rd32 d 0x10 = q" "cusm_rd16 d 0x14 = (if closing then 6 else 1)" "cusm_rd16 d 0x16 = 101"
    "cusm_rd16 d 0x18 = word_of_nat (if sub \<noteq> 0 then 0x38 + 12 else 0x38)" "d ! 0x34 = 0" "d ! 0x35 = 1"
    "d ! 0x36 = 8 OR (if audio then 1 else 0)"
    by (simp_all add: d_def cusm_build_opencontinue_def Let_def rd_oc cusm_oc_max_len_def)
  have g: "cusm_rd16 d 0x1A = (if sub \<noteq> 0 then 1 else 0)" "sub \<noteq> 0 \<Longrightarrow> cusm_rd32 d 0x38 = sub"
    by (simp_all add: d_def cusm_build_opencontinue_def Let_def rd_oc cusm_oc_max_len_def)
  have "\<exists>pk. cusm_parse d = Some pk \<and> pk_data_type pk = 101 \<and> pk_seq pk = q \<and> pk_src_addr pk = ip \<and>
      pk_message pk = (if closing then 6 else 1) \<and> pk_oc_sendmode pk = 0 \<and> pk_oc_recvmode pk = 1 \<and>
      pk_oc_flags pk = 8 OR (if audio then 1 else 0) \<and> unat (pk_plen pk) = length d"
    using len f by (simp add: cusm_parse_def parse_opencontinue_def Let_def cusm_oc_max_len_def)
  then show ?thesis using len g by (simp only: d_def [symmetric] Let_def) simp
qed

subsection \<open>Losses\<close>

text \<open>The sequence numbers of the packets of some turns.\<close>

definition iter_seq :: "cusm_iter \<Rightarrow> u32 list" where
  "iter_seq it =
     (case it_data it of
        None \<Rightarrow> []
      | Some d \<Rightarrow> if 0 < length d \<and> length d \<le> 4096 then (case cusm_parse d of None \<Rightarrow> [] | Some pk \<Rightarrow> [pk_seq pk]) else [])"

definition lossless :: "cusm_sess \<Rightarrow> bool" where
  "lossless s \<longleftrightarrow> \<not> cs_lossy s"

fun unbroken :: "bool \<Rightarrow> u32 \<Rightarrow> u32 list \<Rightarrow> bool" where
  "unbroken have prev [] = True"
| "unbroken have prev (q # qs) = ((have \<longrightarrow> uint q \<le> uint prev + 1 \<and> uint prev < 0xFFFFFFFF) \<and> unbroken True (if have \<and> q \<le> prev then prev else q) qs)"

lemma on_video_drops:
  "lossless s \<Longrightarrow> lossless (on_video pk s) \<and> cs_drops (on_video pk s) \<in> {0, cs_drops s}"
  by (auto simp: on_video_def frame_end_def Let_def lossless_def)

lemma receive_drops:
  fixes cfg :: cusm_cfg and s :: cusm_sess and it :: cusm_iter
  assumes "lossless s" "unbroken (cs_have_last s) (cs_last_seq s) (iter_seq it @ qs)"
  defines "s' \<equiv> receive cfg it s"
  shows "lossless s' \<and> cs_drops s' \<in> {0, cs_drops s} \<and> unbroken (cs_have_last s') (cs_last_seq s') qs"
proof (cases "\<exists>d pk. it_data it = Some d \<and> 0 < length d \<and> length d \<le> 4096 \<and> cusm_parse d = Some pk")
  case True
  then obtain d pk where d: "it_data it = Some d" "0 < length d" "length d \<le> 4096" "cusm_parse d = Some pk" by blast
  define t where "t = track_seq (pk_seq pk) (s\<lparr>cs_last_rx := it_t_rx it\<rparr>)"
  have u: "cs_have_last s \<longrightarrow> uint (pk_seq pk) \<le> uint (cs_last_seq s) + 1 \<and> uint (cs_last_seq s) < 0xFFFFFFFF"
    "unbroken True (if cs_have_last s \<and> pk_seq pk \<le> cs_last_seq s then cs_last_seq s else pk_seq pk) qs"
    using assms(2) d by (simp_all add: iter_seq_def)
  have no_gap: "\<not> pk_seq pk > cs_last_seq s + 1" if "cs_have_last s"
  proof -
    have "uint (cs_last_seq s + 1) = uint (cs_last_seq s) + 1"
      using u(1) that by (simp add: uint_word_ariths)
    then show ?thesis using u(1) that by (simp add: word_less_def)
  qed
  have t: "lossless t" "cs_drops t = cs_drops s" "unbroken (cs_have_last t) (cs_last_seq t) qs"
  proof (goal_cases)
    case 1
    show ?case using assms(1) no_gap by (auto simp: t_def track_seq_def lossless_def)
  next
    case 3
    have "cs_last_seq t = (if cs_have_last s \<and> pk_seq pk \<le> cs_last_seq s then cs_last_seq s else pk_seq pk)" "cs_have_last t"
      by (auto simp: t_def track_seq_def not_less not_le)
    then show ?case using u(2) by simp
  qed (simp add: t_def)
  have "s' = (if pk_data_type pk = 1 then on_video pk t
          else if pk_data_type pk = 3 then on_audio (cc_deltamod cfg) (it_prepared it) pk t
          else if pk_data_type pk = 101 then on_opencontinue pk t
          else t)"
    using d(2,3) by (simp add: s'_def receive_def on_packet_def d(1,4) Let_def t_def)
  then show ?thesis using t on_video_drops [OF t(1), of pk] by (auto simp: lossless_def)
next
  case False
  then have "iter_seq it = []" by (auto simp: iter_seq_def split: option.splits)
  moreover have "cs_drops s' = cs_drops s" "cs_lossy s' = cs_lossy s" "cs_have_last s' = cs_have_last s" "cs_last_seq s' = cs_last_seq s"
    using False by (auto simp: s'_def receive_def on_packet_def split: option.splits)
  ultimately show ?thesis using assms(1,2) by (simp add: lossless_def)
qed

text \<open>
  A stream without gaps is never reported as lossy: as long as every sequence number is at most one above the highest
  seen (repeated and late packets included) and the counter has not wrapped, the loop never counts a drop; it only
  clears the counter at the first frame.
\<close>

theorem cusm_no_false_drops:
  assumes "\<not> cs_lossy s" "unbroken (cs_have_last s) (cs_last_seq s) (concat (map iter_seq its))"
  shows "cs_drops (snd (session_loop cfg s its)) \<in> {0, cs_drops s}"
  using assms
proof (induction its arbitrary: s)
  case (Cons it its)
  let ?s = "played (it_played it) s"
  let ?r = "receive cfg it ?s"
  have r: "lossless ?r" "cs_drops ?r \<in> {0, cs_drops s}" "unbroken (cs_have_last ?r) (cs_last_seq ?r) (concat (map iter_seq its))"
    using receive_drops [of ?s it "concat (map iter_seq its)" cfg] Cons.prems by (simp_all add: lossless_def)
  have "cs_drops (snd (session_loop cfg (keepalive cfg it ?r) its)) \<in> {0, cs_drops ?r}"
    using Cons.IH [of "keepalive cfg it ?r"] r by (simp add: lossless_def)
  then show ?case using r(2) by (auto simp: session_step_def Let_def)
qed simp

text \<open>A gap marks the frame: the end of it, in this packet or in a later one of the frame, counts one drop.\<close>

lemma gap_marks: "cs_have_last s \<Longrightarrow> q > cs_last_seq s + 1 \<Longrightarrow> cs_lossy (track_seq q s)"
  by (simp add: track_seq_def)

lemma marked_frame_counts: "cs_stabilized s \<Longrightarrow> cs_lossy s \<Longrightarrow> cs_drops (frame_end s) = cs_drops s + 1 \<and> \<not> cs_lossy (frame_end s)"
  by (simp add: frame_end_def Let_def)

subsection \<open>The end of a session\<close>

lemma session_close_sent:
  "\<exists>pre c. cs_sent (session_close cfg s) = pre @ [c, c] \<and>
    (\<exists>pk. cusm_parse c = Some pk \<and> pk_message pk = 6 \<and> pk_data_type pk = 101 \<and> pk_seq pk = cs_seq s + 1) \<and>
    \<not> cs_wave (session_close cfg s)"
proof -
  define c where "c = cusm_build_opencontinue (cs_seq s + 1) (cc_my_ip cfg) (cc_my_port cfg) (asc ''MGT Unicorn Suite'') True True 0"
  have "cs_sent (session_close cfg s) = cs_sent s @ [c, c]" "\<not> cs_wave (session_close cfg s)"
    by (simp_all add: session_close_def waveout_close_def send_oc_def c_def)
  moreover have "\<exists>pk. cusm_parse c = Some pk \<and> pk_message pk = 6 \<and> pk_data_type pk = 101 \<and> pk_seq pk = cs_seq s + 1"
    using cusm_oc_roundtrip [of "cs_seq s + 1" "cc_my_ip cfg" "cc_my_port cfg" "asc ''MGT Unicorn Suite''" True True 0,
        folded c_def, unfolded Let_def] by (simp only: if_True) blast
  ultimately show ?thesis by blast
qed

lemma loop_silence:
  "\<forall>it\<in>set its. \<not> it_stop it \<and> it_data it = None \<Longrightarrow> \<exists>it\<in>set its. it_t_to it - cs_last_rx s \<ge> 8000 \<Longrightarrow>
    fst (session_loop cfg s its) = Some False"
proof (induction its arbitrary: s)
  case (Cons it its)
  have it: "\<not> it_stop it" "it_data it = None" using Cons.prems(1) by simp_all
  define s1 where "s1 = keepalive cfg it (played (it_played it) s)"
  have step: "session_step cfg s it = (if it_t_to it - cs_last_rx s \<ge> 8000 then Some False else None, s1)"
    using it by (simp add: session_step_def receive_def s1_def Let_def)
  show ?case
  proof (cases "it_t_to it - cs_last_rx s \<ge> 8000")
    case False
    have "fst (session_loop cfg s1 its) = Some False"
    proof (rule Cons.IH)
      show "\<forall>it\<in>set its. \<not> it_stop it \<and> it_data it = None" using Cons.prems(1) by simp
      show "\<exists>it\<in>set its. it_t_to it - cs_last_rx s1 \<ge> 8000"
      proof -
        obtain j where j: "j \<in> set (it # its)" "it_t_to j - cs_last_rx s \<ge> 8000" using Cons.prems(2) by (rule bexE)
        then have "j \<in> set its" using False by (cases "j = it") auto
        moreover have "cs_last_rx s1 = cs_last_rx s" by (simp add: s1_def)
        ultimately show ?thesis using j(2) by (intro bexI [of _ j]) (simp_all only:)
      qed
    qed
    then show ?thesis by (simp only: session_loop.simps step False if_False prod.case option.case)
  qed (simp add: step)
qed simp

text \<open>
  A silent reflector ends the session. When the socket gives nothing and the stop event stays clear, the session
  ends as lost at the first turn that reads the clock 8 seconds or more after the last datagram; and a session that
  ends, for this or any other reason after its socket was open, has sent as its last two datagrams the same Close, which
  parses as message 6 with the next sequence number, and has closed the sound device.
\<close>

theorem cusm_session_ends:
  assumes "ev_dns ev" "ev_socket ev" "\<forall>it\<in>set (ev_iters ev). \<not> it_stop it \<and> it_data it = None"
    and "\<exists>it\<in>set (ev_iters ev). it_t_to it - snd (snd (ev_ticks ev)) \<ge> 8000"
  shows "fst (session_run cfg ev s) = Some False \<and>
    (\<exists>pre c. cs_sent (snd (session_run cfg ev s)) = pre @ [c, c] \<and>
      (\<exists>pk. cusm_parse c = Some pk \<and> pk_message pk = 6 \<and> pk_data_type pk = 101 \<and> pk_seq pk = cs_seq (snd (session_run cfg ev s)))) \<and>
    \<not> cs_wave (snd (session_run cfg ev s))"
proof -
  define s1 where "s1 = session_open cfg (ev_device ev) (ev_ticks ev) (ev_stack ev) (s\<lparr>cs_state := St_connecting\<rparr>)"
  obtain s2 where loop: "session_loop cfg s1 (ev_iters ev) = (Some False, s2)"
    using loop_silence [OF assms(3), of s1 cfg] assms(4)
    by (cases "session_loop cfg s1 (ev_iters ev)") (auto simp: s1_def session_open_def split_beta Let_def)
  have run: "session_run cfg ev s = (Some False, session_close cfg s2)"
    using assms(1,2) loop by (simp add: session_run_def Let_def s1_def)
  have "cs_seq (session_close cfg s2) = cs_seq s2 + 1"
    by (simp add: session_close_def waveout_close_def send_oc_def)
  then show ?thesis using session_close_sent [of cfg s2] by (simp only: run fst_conv snd_conv) blast
qed

subsection \<open>The worker\<close>

text \<open>
  The waits between attempts are 5, 10, 15, 20, 25 and then 30 seconds, whatever the sessions do: a session that received
  media does not bring them back to 5.
\<close>

definition next_wait :: "int \<Rightarrow> int" where
  "next_wait r = (if r < 30 then r + 5 else r)"

lemma worker_waits: "\<exists>n. fst (snd (worker_proc cfg r s rounds)) = map (\<lambda>i. (next_wait ^^ i) r) [0..<n]"
proof (induction rounds arbitrary: r s)
  case (Cons rd rounds)
  have one: "\<exists>n. [r] = map (\<lambda>i. (next_wait ^^ i) r) [0..<n]" by (rule exI [of _ 1]) simp
  have cons: "\<exists>n. r # xs = map (\<lambda>i. (next_wait ^^ i) r) [0..<n]" if "\<exists>n. xs = map (\<lambda>i. (next_wait ^^ i) (next_wait r)) [0..<n]" for xs
  proof -
    note ex = that
    obtain n where "xs = map (\<lambda>i. (next_wait ^^ i) (next_wait r)) [0..<n]" using ex by blast
    then have "r # xs = map (\<lambda>i. (next_wait ^^ i) r) [0..<Suc n]"
      by (simp add: map_upt_Suc funpow_swap1 del: upt_Suc)
    then show ?thesis by (rule exI)
  qed
  have nil: "\<exists>n. [] = map (\<lambda>i. (next_wait ^^ i) r) [0..<n]" by (rule exI [of _ 0]) simp
  have eq: "fst (snd (worker_proc cfg r s (rd # rounds))) =
      (if rd_stop rd \<or> fst (session_run cfg (rd_env rd) s) \<noteq> Some False then []
       else if rd_stop_wait rd then [r]
       else r # fst (snd (worker_proc cfg (next_wait r) (snd (session_run cfg (rd_env rd) s)\<lparr>cs_state := St_lost\<rparr>) rounds)))"
    by (auto simp: next_wait_def Let_def split: prod.split option.split bool.split)
  show ?case unfolding eq using nil one cons [OF Cons.IH] by (simp split: if_split)
qed simp

lemma next_wait_pow: "(next_wait ^^ i) 5 = min 30 (5 + 5 * int i)"
  by (induction i) (auto simp: next_wait_def)

lemma cusm_backoff: "\<exists>n. fst (snd (worker_proc cfg 5 s rounds)) = map (\<lambda>i. min 30 (5 + 5 * int i)) [0..<n]"
  using worker_waits [of cfg 5 s rounds] by (simp only: next_wait_pow)

text \<open>
  A stop that does not see its thread return, and a start after it: the stop event is cleared, so the first worker does not see
  it any more, and a second one runs beside it.
\<close>

lemma cusm_two_workers:
  fixes w :: cusm_worker and s :: cusm_sess
  assumes "wk_running w" "wk_live w = 1"
  defines "w2 \<equiv> fst (worker_start (fst (worker_stop False w s)) (snd (worker_stop False w s)))"
  shows "wk_live w2 = 2 \<and> \<not> wk_stop_event w2 \<and> wk_running w2"
  using assms(1,2) by (simp add: w2_def worker_start_def worker_stop_def)

lemma cusm_one_worker:
  fixes w :: cusm_worker and s :: cusm_sess
  assumes "wk_running w" "wk_live w = 1" "wk_thread w"
  defines "w2 \<equiv> fst (worker_start (fst (worker_stop True w s)) (snd (worker_stop True w s)))"
  shows "wk_live w2 = 1 \<and> \<not> wk_stop_event w2 \<and> wk_running w2"
  using assms by (simp add: w2_def worker_start_def worker_stop_def)

subsection \<open>Instances\<close>

definition sess0 :: cusm_sess where
  "sess0 = \<lparr>cs_state = St_disconnected, cs_gray = replicate 19200 0, cs_have_frame = False, cs_frames = 0, cs_drops = 3,
     cs_video_pkts = 0, cs_audio_bytes = 0, cs_pcm = (\<lambda>_. 0), cs_wave = False, cs_queued = replicate cusm_nwbuf False,
     cs_played = [], cs_sent = [], cs_frame_msgs = 0, cs_sender = 0, cs_seq = 0, cs_last_keepalive = 0, cs_last_rx = 0,
     cs_vid = cusm_video_init (\<lambda>_. 0), cs_dm = 0, cs_last_seq = 0, cs_have_last = False, cs_lossy = False, cs_stabilized = False\<rparr>"

definition cfg0 :: "bool \<Rightarrow> cusm_cfg" where
  "cfg0 dm = \<lparr>cc_my_ip = 0x0A000001, cc_my_port = 7648, cc_deltamod = dm\<rparr>"

definition iter0 :: "byte list option \<Rightarrow> u32 \<Rightarrow> cusm_iter" where
  "iter0 d t = \<lparr>it_stop = False, it_data = d, it_played = [], it_prepared = True, it_t_rx = t, it_t_ka = t, it_t_kaset = t, it_t_to = t\<rparr>"

theorem cusm_picture_delivered_witness:
  "cs_have_frame (snd (session_step (cfg0 False) sess0
      (iter0 (Some (video_datagram 1 20 (concat (map (enc_square (\<lambda>_ _. 7)) [0, 299])))) 100))) \<and>
   cs_gray (snd (session_step (cfg0 False) sess0
      (iter0 (Some (video_datagram 1 20 (concat (map (enc_square (\<lambda>_ _. 7)) [0, 299])))) 100))) ! nat (119 * cusm_vid_w + 159) = 136"
  using cusm_picture_delivered [of "\<lambda>_ _. 7" 159 119 "[0, 299]"
      "iter0 (Some (video_datagram 1 20 (concat (map (enc_square (\<lambda>_ _. 7)) [0, 299])))) 100" 1 "cfg0 False" sess0]
  by (simp add: iter0_def cusm_vid_w_def cusm_vid_h_def square_of_def)

lemma iter0_fields: "it_data (iter0 d t) = d" "cc_deltamod (cfg0 dm) = dm"
  by (simp_all add: iter0_def cfg0_def)

lemma sess0_fields: "cs_pcm sess0 a = 0" "b \<notin> picture \<Longrightarrow> cv_pix (cs_vid sess0) b = 0"
  by (auto simp: sess0_def cusm_video_init_def mem_fill_apply picture_def)

theorem cusm_session_safe_witness:
  "cs_pcm (snd (session_loop (cfg0 False) sess0 [iter0 (Some (audio_datagram 1 30 (replicate 4000 255))) 100])) 8192 = 0 \<and>
   cs_pcm (snd (session_loop (cfg0 True) sess0 [iter0 (Some (audio_datagram 1 26 (replicate 2048 255))) 100])) 8192 = 0 \<and>
   cv_pix (cs_vid (snd (session_loop (cfg0 True) sess0 [iter0 (Some (video_datagram 1 20 (replicate 4000 255))) 100]))) (-1) = 0"
proof -
  have out: "(8192 :: int) \<notin> {0..<cusm_wbuf_samp}" "(-1 :: int) \<notin> picture"
    by (simp_all add: cusm_wbuf_samp_def picture_def)
  have short: "length (audio_datagram 1 26 (replicate 2048 255)) \<le> 2082" by (simp add: audio_datagram_def)
  show ?thesis
    using cusm_session_safe [of "-1" "cfg0 False" sess0 "[iter0 (Some (audio_datagram 1 30 (replicate 4000 255))) 100]" 8192]
      cusm_session_safe [of "-1" "cfg0 True" sess0 "[iter0 (Some (audio_datagram 1 26 (replicate 2048 255))) 100]" 8192]
      cusm_session_safe [of "-1" "cfg0 True" sess0 "[iter0 (Some (video_datagram 1 20 (replicate 4000 255))) 100]" 8192]
      out short
    by (simp add: iter0_fields sess0_fields del: session_loop.simps)
qed

theorem cusm_deltamod_overflow_witness:
  "int (length (snd (cusm_deltamod_decode 0 (replicate 2049 255)))) > cusm_wbuf_samp \<and>
   cs_pcm (snd (session_step (cfg0 True) sess0 (iter0 (Some (audio_datagram 1 26 (replicate 2049 255))) 100))) cusm_wbuf_samp =
     snd (cusm_deltamod_decode 0 (replicate 2049 255)) ! nat cusm_wbuf_samp"
  using cusm_deltamod_overflow [of "replicate 2049 255" "cfg0 True" "iter0 (Some (audio_datagram 1 26 (replicate 2049 255))) 100" 1 26 sess0]
  by (simp add: iter0_def cfg0_def sess0_def)

theorem cusm_no_false_drops_witness:
  "cs_drops (snd (session_loop (cfg0 False) sess0 [iter0 (Some (video_datagram 7 20 [])) 100, iter0 (Some (video_datagram 8 20 [])) 200])) \<in> {0, 3}"
proof -
  have "unbroken (cs_have_last sess0) (cs_last_seq sess0)
      (concat (map iter_seq [iter0 (Some (video_datagram 7 20 [])) 100, iter0 (Some (video_datagram 8 20 [])) 200]))"
  proof -
    have "iter_seq (iter0 (Some (video_datagram q 20 [])) t) = [q]" for q t
    proof -
      obtain pk where "cusm_parse (video_datagram q 20 []) = Some pk" "pk_seq pk = q"
        using parse_video_datagram [of "[]" q 20] by auto
      then show ?thesis by (simp add: iter_seq_def iter0_def) (simp add: video_datagram_def)
    qed
    then show ?thesis by (simp add: sess0_def)
  qed
  moreover have "\<not> cs_lossy sess0" "cs_drops sess0 = 3" by (simp_all add: sess0_def)
  ultimately show ?thesis
    using cusm_no_false_drops [of sess0 "[iter0 (Some (video_datagram 7 20 [])) 100, iter0 (Some (video_datagram 8 20 [])) 200]" "cfg0 False"]
    by simp
qed

definition env0 :: "cusm_iter list \<Rightarrow> cusm_env" where
  "env0 its = \<lparr>ev_dns = True, ev_socket = True, ev_device = True, ev_ticks = (5, 6, 7), ev_stack = (\<lambda>_. 0), ev_iters = its\<rparr>"

theorem cusm_session_ends_witness:
  "fst (session_run (cfg0 False) (env0 [iter0 None 5000, iter0 None 8007]) sess0) = Some False"
  using cusm_session_ends [of "env0 [iter0 None 5000, iter0 None 8007]" "cfg0 False" sess0]
  by (simp add: env0_def iter0_def)

end
