(* ===== verification/Irc.thy ===== *)
theory Irc
  imports CText TcpSession
begin

section \<open>The IRC client\<close>

text \<open>
  \<open>irc_client.c\<close>: a receive-only client on a worker thread. The lines it sends and the events it posts are collected in the
  state. The name server, the sockets, the clock, the time zone, \<open>rand\<close> and the stop flag answer through arguments;
  allocation succeeds.
\<close>

subsection \<open>State\<close>

datatype irc_kind = IRC_MSG_PRIVMSG | IRC_MSG_NOTICE

record irc_message =
  im_kind :: irc_kind
  im_nick :: "byte list"
  im_target :: "byte list"
  im_msgid :: "byte list"
  im_text :: "byte list"
  im_when :: systime
  im_server_time :: bool

datatype irc_post =
    IRC_EVT_MESSAGE irc_message
  | IRC_EVT_SYSTEM "byte list"
  | IRC_EVT_FAILED "byte list"
  | IRC_EVT_REGISTERED

record irc_env =
  ie_rand :: "nat \<Rightarrow> nat"
  ie_local :: "systime \<Rightarrow> systime option"
  ie_now :: "nat \<Rightarrow> systime"

text \<open>The client and, from \<open>ss_nick\<close> on, the session.\<close>

record irc =
  ic_host :: "byte list"
  ic_port :: int
  ic_channel :: "byte list"
  ic_nick_pattern :: "byte list"
  ic_ever_registered :: bool
  ic_banner_pending :: bool
  ic_rnd :: nat
  ic_posts :: "irc_post list"
  ic_sent :: "byte list list"
  ss_nick :: "byte list"
  ss_cap_req :: bool
  ss_cap_end :: bool
  ss_reached :: bool
  ss_banner :: bool

definition post :: "irc_post \<Rightarrow> irc \<Rightarrow> irc" where
  "post e c = c\<lparr>ic_posts := ic_posts c @ [e]\<rparr>"

definition emit_system :: "byte list \<Rightarrow> irc \<Rightarrow> irc" where
  "emit_system text c = post (IRC_EVT_SYSTEM (take 1023 text)) c"

definition send_line :: "byte list \<Rightarrow> irc \<Rightarrow> irc" where
  "send_line l c = c\<lparr>ic_sent := ic_sent c @ [take 16383 (l @ [0x0D, 0x0A])]\<rparr>"

subsection \<open>Nicknames\<close>

fun nick_chars :: "irc_env \<Rightarrow> nat \<Rightarrow> byte list \<Rightarrow> byte list \<times> nat" where
  "nick_chars env r [] = ([], r)"
| "nick_chars env r (ch # cs) =
     (if ch = 0x58 then (case nick_chars env (Suc r) cs of (o', r') \<Rightarrow> (word_of_nat (48 + ie_rand env r mod 10) # o', r'))
      else (case nick_chars env r cs of (o', r') \<Rightarrow> (ch # o', r')))"

definition gen_nick :: "irc_env \<Rightarrow> irc \<Rightarrow> irc" where
  "gen_nick env c =
     (let pat = take 63 (ic_nick_pattern c);
          (out, r) = nick_chars env (ic_rnd c) pat
      in if 0x58 \<in> set pat then c\<lparr>ss_nick := out, ic_rnd := r\<rparr>
         else
           let k = min 4 (63 - length out)
           in c\<lparr>ss_nick := out @ map (\<lambda>i. word_of_nat (48 + ie_rand env (r + i) mod 10)) [0..<k], ic_rnd := r + k\<rparr>)"

subsection \<open>Tags and time\<close>

definition upto_char :: "byte \<Rightarrow> byte list \<Rightarrow> byte list" where
  "upto_char ch s = takeWhile (\<lambda>x. x \<noteq> ch) s"

definition from_char :: "byte \<Rightarrow> byte list \<Rightarrow> byte list" where
  "from_char ch s = dropWhile (\<lambda>x. x \<noteq> ch) s"

text \<open>The value of the first segment with the key; the last argument of the loop is the segments.\<close>

function get_tag :: "byte list \<Rightarrow> byte list \<Rightarrow> nat \<Rightarrow> byte list" where
  "get_tag blob key cap =
     (if blob = [] then []
      else
        let seg = upto_char 0x3B blob; k = upto_char 0x3D seg in
        if from_char 0x3D seg \<noteq> [] then
          (if k = key then take (cap - 1) (tl (from_char 0x3D seg)) else get_tag (tl (from_char 0x3B blob)) key cap)
        else if seg = key then []
        else get_tag (tl (from_char 0x3B blob)) key cap)"
  by pat_completeness auto
termination
proof (relation "measure (\<lambda>(b, k, n). length b)", goal_cases)
  case (2 blob key cap seg k)
  then show ?case using length_dropWhile_le [of "\<lambda>x. x \<noteq> 0x3B" "tl blob"]
    by (cases blob) (auto simp: from_char_def le_imp_less_Suc intro: le_less_trans [OF diff_le_self])
next
  case (3 blob key cap seg k)
  then show ?case using length_dropWhile_le [of "\<lambda>x. x \<noteq> 0x3B" "tl blob"]
    by (cases blob) (auto simp: from_char_def le_imp_less_Suc intro: le_less_trans [OF diff_le_self])
qed simp

declare get_tag.simps [simp del]

definition parse_iso_utc :: "byte list \<Rightarrow> systime option" where
  "parse_iso_utc stamp =
     (case scan_fields [0x2D, 0x2D, 0x54, 0x3A, 0x3A] stamp of
        None \<Rightarrow> None
      | Some vs \<Rightarrow>
          let ms = (if from_char 0x2E stamp \<noteq> [] then atoi (tl (from_char 0x2E stamp)) else 0)
          in Some \<lparr>st_year = word_of_int (vs ! 0), st_month = word_of_int (vs ! 1), st_day = word_of_int (vs ! 2),
                   st_hour = word_of_int (vs ! 3), st_minute = word_of_int (vs ! 4), st_second = word_of_int (vs ! 5),
                   st_ms = word_of_int (ms - cdiv ms 1000 * 1000)\<rparr>)"

definition forward_message ::
  "irc_env \<Rightarrow> irc_kind \<Rightarrow> byte list \<Rightarrow> byte list \<Rightarrow> byte list \<Rightarrow> byte list \<Rightarrow> byte list \<Rightarrow> irc \<Rightarrow> irc" where
  "forward_message env kind nick target msgid text time_tag c =
     (let local = (if time_tag \<noteq> [] then Option.bind (parse_iso_utc time_tag) (ie_local env) else None)
      in post (IRC_EVT_MESSAGE
           \<lparr>im_kind = kind, im_nick = take 63 nick, im_target = take 63 target, im_msgid = take 63 msgid,
            im_text = take 1023 text,
            im_when = (case local of None \<Rightarrow> ie_now env (length (ic_posts c)) | Some t \<Rightarrow> t),
            im_server_time = (local \<noteq> None)\<rparr>) c)"

subsection \<open>One line\<close>

definition is_numeric_cmd :: "byte list \<Rightarrow> bool" where
  "is_numeric_cmd cmd \<longleftrightarrow> length cmd = 3 \<and> list_all is_digit cmd"

definition is_join_error :: "byte list \<Rightarrow> bool" where
  "is_join_error cmd \<longleftrightarrow>
     cmd \<in> set (map asc [''403'', ''405'', ''437'', ''471'', ''472'', ''473'', ''474'', ''475'', ''476'', ''477'', ''479''])"

definition skip_sp :: "byte list \<Rightarrow> byte list" where
  "skip_sp s = dropWhile (\<lambda>x. x = 0x20) s"

definition strip_colon :: "byte list \<Rightarrow> byte list" where
  "strip_colon s = (if s \<noteq> [] \<and> hd s = 0x3A then tl s else s)"

definition forward_numeric :: "byte list \<Rightarrow> irc \<Rightarrow> irc" where
  "forward_numeric rest c = emit_system (strip_colon (skip_sp (from_char 0x20 rest))) c"

fun strstr :: "byte list \<Rightarrow> byte list \<Rightarrow> bool" where
  "strstr [] p = (p = [])"
| "strstr (x # xs) p = (take (length p) (x # xs) = p \<or> strstr xs p)"

text \<open>The time, the message identifier and the line behind the tags; none for tags without a command.\<close>

definition take_tags :: "byte list \<Rightarrow> (byte list \<times> byte list \<times> byte list) option" where
  "take_tags line =
     (if line \<noteq> [] \<and> hd line = 0x40 then
        let p = tl line in
        if from_char 0x20 p = [] then None
        else
          let blob = take 16383 (upto_char 0x20 p)
          in Some (get_tag blob (asc ''time'') 64, get_tag blob (asc ''msgid'') 64, skip_sp (from_char 0x20 p))
      else Some ([], [], line))"

definition take_prefix :: "byte list \<Rightarrow> (byte list \<times> byte list) option" where
  "take_prefix p =
     (if p \<noteq> [] \<and> hd p = 0x3A then
        let q = tl p in
        if from_char 0x20 q = [] then None
        else Some (take 63 (takeWhile (\<lambda>x. x \<noteq> 0x21 \<and> x \<noteq> 0x40) (take 255 (upto_char 0x20 q))), skip_sp (from_char 0x20 q))
      else Some ([], p))"

definition do_cap :: "byte list \<Rightarrow> irc \<Rightarrow> irc" where
  "do_cap rest c =
     (let has = (\<lambda>t. strstr rest (asc t));
          c1 = (if \<not> ss_cap_req c \<and> has '' LS '' \<and> \<not> has '' LS * ''
                then (send_line (asc ''CAP REQ :server-time batch message-tags'') c)\<lparr>ss_cap_req := True\<rparr>
                else if ss_cap_req c \<and> \<not> ss_cap_end c \<and> (has '' ACK '' \<or> has '' NAK '')
                then (send_line (asc ''CAP END'') c)\<lparr>ss_cap_end := True\<rparr>
                else c)
      in if ss_banner c1 then
           let caps = (if from_char 0x3A rest \<noteq> [] then tl (from_char 0x3A rest) else rest)
           in if has '' ACK '' \<or> has '' NAK '' then emit_system (take 1199 (asc ''Capabilities acknowledged: '' @ caps)) c1
              else if has '' LS '' then emit_system (take 1199 (asc ''Capabilities supported: '' @ caps)) c1
              else c1
         else c1)"

definition do_welcome :: "byte list \<Rightarrow> irc \<Rightarrow> irc" where
  "do_welcome rest c =
     (let c1 = post IRC_EVT_REGISTERED (c\<lparr>ss_reached := True, ic_ever_registered := True\<rparr>);
          c2 = send_line (take 127 (asc ''JOIN '' @ ic_channel c1)) c1
      in if ss_banner c2 then forward_numeric rest c2 else c2)"

definition do_nick_in_use :: "irc_env \<Rightarrow> irc \<Rightarrow> irc" where
  "do_nick_in_use env c = (let c1 = gen_nick env c in send_line (take 127 (asc ''NICK '' @ ss_nick c1)) c1)"

definition do_numeric :: "byte list \<Rightarrow> byte list \<Rightarrow> irc \<Rightarrow> irc" where
  "do_numeric cmd rest c =
     (if is_join_error cmd then forward_numeric rest c
      else if cmd = asc ''353'' \<or> cmd = asc ''366'' then c
      else if ss_banner c then
        let c1 = forward_numeric rest c
        in if cmd = asc ''376'' \<or> cmd = asc ''422'' then c1\<lparr>ss_banner := False, ic_banner_pending := False\<rparr> else c1
      else c)"

definition do_privmsg ::
  "irc_env \<Rightarrow> irc_kind \<Rightarrow> byte list \<Rightarrow> byte list \<Rightarrow> byte list \<Rightarrow> byte list \<Rightarrow> irc \<Rightarrow> irc" where
  "do_privmsg env kind nick msgid timev rest c =
     (if from_char 0x20 rest = [] then c
      else forward_message env kind nick (take 63 (upto_char 0x20 rest)) msgid
             (strip_colon (skip_sp (from_char 0x20 rest))) timev c)"

definition irc_dispatch ::
  "irc_env \<Rightarrow> byte list \<Rightarrow> byte list \<Rightarrow> byte list \<Rightarrow> byte list \<Rightarrow> byte list \<Rightarrow> irc \<Rightarrow> irc" where
  "irc_dispatch env timev msgid nick cmd rest c =
     (if cmd = asc ''PING'' then send_line (take 599 (asc ''PONG '' @ (if rest \<noteq> [] then rest else [0x3A]))) c
      else if cmd = asc ''CAP'' then do_cap rest c
      else if cmd = asc ''001'' then do_welcome rest c
      else if cmd = asc ''433'' then do_nick_in_use env c
      else if is_numeric_cmd cmd then do_numeric cmd rest c
      else if cmd = asc ''PRIVMSG'' then do_privmsg env IRC_MSG_PRIVMSG nick msgid timev rest c
      else if cmd = asc ''NOTICE'' then do_privmsg env IRC_MSG_NOTICE nick msgid timev rest c
      else c)"

definition handle_line :: "irc_env \<Rightarrow> byte list \<Rightarrow> irc \<Rightarrow> irc" where
  "handle_line env line c =
     (case take_tags line of
        None \<Rightarrow> c
      | Some (timev, msgid, p) \<Rightarrow>
          case take_prefix p of
            None \<Rightarrow> c
          | Some (nick, q) \<Rightarrow> irc_dispatch env timev msgid nick (upto_char 0x20 q) (skip_sp (from_char 0x20 q)) c)"

subsection \<open>A session\<close>

text \<open>The accumulator and the client.\<close>

definition irc_line_max :: nat where "irc_line_max = 16384"

definition end_line :: "byte list \<Rightarrow> byte list" where
  "end_line acc = cstr (if acc \<noteq> [] \<and> last acc = 0x0D then butlast acc else acc)"

definition acc_byte :: "irc_env \<Rightarrow> byte list \<times> irc \<Rightarrow> byte \<Rightarrow> byte list \<times> irc" where
  "acc_byte env st ch =
     (case st of (acc, c) \<Rightarrow>
        if ch = 0x0A then ([], if end_line acc \<noteq> [] then handle_line env (end_line acc) c else c)
        else if length acc < irc_line_max - 1 then (acc @ [ch], c)
        else ([], c))"

fun irc_loop :: "irc_env \<Rightarrow> byte list \<times> irc \<Rightarrow> rx_round list \<Rightarrow> byte list \<times> irc" where
  "irc_loop env st [] = st"
| "irc_loop env st (r # rs) =
     (if rr_stop r then st
      else case rr_recv r of
        RClosed \<Rightarrow> st
      | RError \<Rightarrow> st
      | RData d \<Rightarrow> irc_loop env (foldl (acc_byte env) st d) rs)"

definition session_start :: "irc_env \<Rightarrow> irc \<Rightarrow> irc" where
  "session_start env c =
     (let c1 = gen_nick env (c\<lparr>ss_cap_req := False, ss_cap_end := False, ss_reached := False, ss_banner := ic_banner_pending c\<rparr>);
          c2 = send_line (asc ''CAP LS 302'') c1;
          c3 = send_line (take 127 (asc ''NICK '' @ ss_nick c2)) c2
      in send_line (take 191 (asc ''USER '' @ ss_nick c3 @ asc '' 0 * :MGT Unicorn Viewer'')) c3)"

definition run_session :: "irc_env \<Rightarrow> rx_round list \<Rightarrow> irc \<Rightarrow> irc" where
  "run_session env rs c = snd (irc_loop env ([], session_start env c) rs)"

subsection \<open>Connecting\<close>

datatype irc_fail = IRC_FAIL_NONE | IRC_FAIL_RESOLVE | IRC_FAIL_REFUSED | IRC_FAIL_TIMEOUT | IRC_FAIL_ABORTED | IRC_FAIL_GENERIC

definition fail_reason_text :: "irc_fail \<Rightarrow> byte list" where
  "fail_reason_text r =
     (case r of
        IRC_FAIL_RESOLVE \<Rightarrow> asc ''Could not resolve host''
      | IRC_FAIL_REFUSED \<Rightarrow> asc ''Connection refused''
      | IRC_FAIL_TIMEOUT \<Rightarrow> asc ''Connection timed out''
      | _ \<Rightarrow> asc ''Could not connect'')"

text \<open>What \<open>select\<close> answers in a slice of 200 ms; \<open>Sel_ok\<close> is writable without a pending error.\<close>

datatype irc_select = Sel_error | Sel_none | Sel_except | Sel_ok | Sel_pending_error

datatype irc_connect = Conn_now | Conn_error | Conn_wait "(bool \<times> irc_select) list"

record irc_addr =
  ad_stop :: bool
  ad_socket :: bool
  ad_connect :: irc_connect

text \<open>The wait: connected or the reason; none while the answers given do not decide it.\<close>

fun wait_connect :: "int \<Rightarrow> (bool \<times> irc_select) list \<Rightarrow> irc_fail option" where
  "wait_connect waited [] = None"
| "wait_connect waited ((stop, sel) # rest) =
     (if stop then Some IRC_FAIL_ABORTED
      else if waited \<ge> 18000 then Some IRC_FAIL_TIMEOUT
      else case sel of
        Sel_error \<Rightarrow> Some IRC_FAIL_REFUSED
      | Sel_none \<Rightarrow> wait_connect (waited + 200) rest
      | Sel_except \<Rightarrow> Some IRC_FAIL_REFUSED
      | Sel_pending_error \<Rightarrow> Some IRC_FAIL_REFUSED
      | Sel_ok \<Rightarrow> Some IRC_FAIL_NONE)"

fun try_addrs :: "irc_fail \<Rightarrow> irc_addr list \<Rightarrow> irc_fail option" where
  "try_addrs reason [] = Some reason"
| "try_addrs reason (a # as) =
     (if ad_stop a then Some IRC_FAIL_ABORTED
      else if \<not> ad_socket a then try_addrs reason as
      else case ad_connect a of
        Conn_now \<Rightarrow> Some IRC_FAIL_NONE
      | Conn_error \<Rightarrow> try_addrs IRC_FAIL_REFUSED as
      | Conn_wait slices \<Rightarrow>
          (case wait_connect 0 slices of
             None \<Rightarrow> None
           | Some r \<Rightarrow>
               if r = IRC_FAIL_NONE \<or> r = IRC_FAIL_ABORTED \<or> r = IRC_FAIL_TIMEOUT then Some r else try_addrs r as))"

definition open_socket :: "irc_addr list option \<Rightarrow> irc_fail option" where
  "open_socket res =
     (case res of None \<Rightarrow> Some IRC_FAIL_RESOLVE | Some [] \<Rightarrow> Some IRC_FAIL_RESOLVE | Some as \<Rightarrow> try_addrs IRC_FAIL_GENERIC as)"

subsection \<open>The worker\<close>

record irc_round =
  ir_stop :: bool
  ir_addrs :: "irc_addr list option"
  ir_rx :: "rx_round list"
  ir_stop_after :: bool
  ir_stop_wait :: bool

definition irc_backoff_min :: int where "irc_backoff_min = 2000"
definition irc_backoff_max :: int where "irc_backoff_max = 30000"

definition next_backoff :: "int \<Rightarrow> int" where
  "next_backoff b = (if b * 2 > irc_backoff_max then irc_backoff_max else b * 2)"

text \<open>\<open>%d\<close>.\<close>

definition int_bytes :: "int \<Rightarrow> byte list" where
  "int_bytes i = (if i < 0 then 0x2D # dec_bytes (nat (- i)) else dec_bytes (nat i))"

definition announce :: "irc \<Rightarrow> irc" where
  "announce c =
     (if ic_banner_pending c \<and> \<not> ic_ever_registered c
      then emit_system (take 399 (asc ''Connecting to '' @ ic_host c @ asc '':'' @ int_bytes (ic_port c) @ asc '' '' @ ic_channel c @ asc ''...'')) c
      else c)"

text \<open>The result: whether the worker has ended, and the client.\<close>

fun rx_thread_proc :: "irc_env \<Rightarrow> int \<Rightarrow> irc \<Rightarrow> irc_round list \<Rightarrow> bool \<times> irc" where
  "rx_thread_proc env backoff c [] = (False, c)"
| "rx_thread_proc env backoff c (r # rs) =
     (if ir_stop r then (True, c)
      else
        let c1 = announce c in
        case open_socket (ir_addrs r) of
          None \<Rightarrow> (False, c1)
        | Some IRC_FAIL_NONE \<Rightarrow>
            let c2 = (if ic_banner_pending c1 \<and> \<not> ic_ever_registered c1 then emit_system (asc ''Connected'') c1 else c1);
                c3 = run_session env (ir_rx r) c2;
                b = (if ss_reached c3 then irc_backoff_min else backoff)
            in if ir_stop_after r then (True, c3)
               else if \<not> ss_reached c3 \<and> \<not> ic_ever_registered c3
               then (True, post (IRC_EVT_FAILED (asc ''Connection closed before registration'')) c3)
               else if ir_stop_wait r then (True, c3)
               else rx_thread_proc env (next_backoff b) c3 rs
        | Some reason \<Rightarrow>
            if ir_stop_after r then (True, c1)
            else if \<not> ic_ever_registered c1 then (True, post (IRC_EVT_FAILED (fail_reason_text reason)) c1)
            else if ir_stop_wait r then (True, c1)
            else rx_thread_proc env (next_backoff backoff) c1 rs)"

definition irc_client_open :: "byte list \<Rightarrow> int \<Rightarrow> byte list \<Rightarrow> byte list \<Rightarrow> bool \<Rightarrow> irc" where
  "irc_client_open host port channel nick_pattern show_banner =
     \<lparr>ic_host = take 255 host, ic_port = port, ic_channel = take 63 channel,
      ic_nick_pattern = take 63 (if nick_pattern \<noteq> [] then nick_pattern else asc ''mgtview-XXXX''),
      ic_ever_registered = False, ic_banner_pending = show_banner, ic_rnd = 0, ic_posts = [], ic_sent = [],
      ss_nick = [], ss_cap_req = False, ss_cap_end = False, ss_reached = False, ss_banner = False\<rparr>"

end
