(* ===== verification/IrcSafe.thy ===== *)
theory IrcSafe
  imports Irc
begin

section \<open>Properties of the IRC client\<close>

text \<open>
  The lines of a stream, the tags, the messages that reach the viewer, the registration with a server, what is posted, the policy
  for failures and the bounds of the waits.
\<close>

subsection \<open>Lines of a stream\<close>

lemma recv_loop_good: "irc_loop env st (map good_round chunks) = foldl (acc_byte env) st (concat chunks)"
  by (induction chunks arbitrary: st) (simp_all add: good_round_def)

text \<open>A line that a server may send, with its end.\<close>

definition line_ok :: "byte list \<Rightarrow> bool" where
  "line_ok l \<longleftrightarrow> l \<noteq> [] \<and> 0x0A \<notin> set l \<and> 0 \<notin> set l \<and> last l \<noteq> 0x0D \<and> length l \<le> 16382"

lemma acc_plain:
  "0x0A \<notin> set d \<Longrightarrow> length acc + length d \<le> 16383 \<Longrightarrow> foldl (acc_byte env) (acc, c) d = (acc @ d, c)"
  by (induction d arbitrary: acc) (auto simp: acc_byte_def irc_line_max_def)

lemma acc_line:
  assumes "line_ok l" "e = [0x0D, 0x0A] \<or> e = [0x0A]"
  shows "foldl (acc_byte env) ([], c) (l @ e) = ([], handle_line env l c)"
proof -
  have l: "l \<noteq> []" "0x0A \<notin> set l" "last l \<noteq> 0x0D" "cstr l = l" "length l \<le> 16382" using assms(1) cstr_id [of l] by (auto simp: line_ok_def)
  have "foldl (acc_byte env) ([], c) l = (l, c)" using acc_plain [of l "[]"] l by simp
  moreover have "foldl (acc_byte env) ([], c) (l @ [0x0D]) = (l @ [0x0D], c)" using acc_plain [of "l @ [0x0D]" "[]"] l by simp
  ultimately show ?thesis using assms(2) l by (auto simp: acc_byte_def end_line_def)
qed

text \<open>The client handles exactly the lines of the stream, one after the other, in whatever pieces it arrives.\<close>

lemma stream_lines:
  assumes "list_all (\<lambda>(l, e). line_ok l \<and> (e = [0x0D, 0x0A] \<or> e = [0x0A])) les"
    and "concat chunks = concat (map (\<lambda>(l, e). l @ e) les)"
  shows "irc_loop env ([], c) (map good_round chunks) = ([], foldl (\<lambda>c l. handle_line env l c) c (map fst les))"
proof -
  have "foldl (acc_byte env) ([], c) (concat (map (\<lambda>(l, e). l @ e) les)) = ([], foldl (\<lambda>c l. handle_line env l c) c (map fst les))"
    using assms(1)
  proof (induction les arbitrary: c)
    case (Cons le les)
    obtain l e where le: "le = (l, e)" by (cases le)
    have "foldl (acc_byte env) ([], c) (l @ e) = ([], handle_line env l c)"
      using Cons.prems le by (intro acc_line) simp_all
    then show ?case using Cons.IH [of "handle_line env l c"] Cons.prems le by simp
  qed simp
  then show ?thesis by (simp only: recv_loop_good assms(2))
qed

text \<open>
  A line that is too long is not dropped: its first 16384 bytes are, and what follows them is taken for a line.
\<close>

lemma long_line_tail:
  assumes "length d = 16383" "0x0A \<notin> set d" "ch \<noteq> 0x0A" "line_ok l"
  shows "foldl (acc_byte env) ([], c) (d @ [ch] @ l @ [0x0A]) = ([], handle_line env l c)"
proof -
  have "foldl (acc_byte env) ([], c) (d @ [ch]) = ([], c)"
    using acc_plain [of d "[]"] assms by (simp add: acc_byte_def irc_line_max_def)
  moreover have "foldl (acc_byte env) ([], c) (l @ [0x0A]) = ([], handle_line env l c)"
    using assms(4) by (intro acc_line) simp_all
  ultimately show ?thesis by (metis append_assoc foldl_append)
qed

subsection \<open>Tags\<close>

lemma upto_from: "ch \<notin> set a \<Longrightarrow> upto_char ch (a @ ch # b) = a" "ch \<notin> set a \<Longrightarrow> from_char ch (a @ ch # b) = ch # b"
    "ch \<notin> set a \<Longrightarrow> upto_char ch a = a" "ch \<notin> set a \<Longrightarrow> from_char ch a = []"
proof -
  assume a: "ch \<notin> set a"
  have t: "\<forall>x\<in>set a. x \<noteq> ch" using a by auto
  show "upto_char ch (a @ ch # b) = a" "from_char ch (a @ ch # b) = ch # b" "upto_char ch a = a" "from_char ch a = []"
    using t by (simp_all add: upto_char_def from_char_def takeWhile_append2 dropWhile_append2)
qed

fun join_tags :: "(byte list \<times> byte list) list \<Rightarrow> byte list" where
  "join_tags [] = []"
| "join_tags [(k, v)] = k @ 0x3D # v"
| "join_tags ((k, v) # t # ts) = k @ 0x3D # v @ 0x3B # join_tags (t # ts)"

fun tag_ok :: "byte list \<times> byte list \<Rightarrow> bool" where
  "tag_ok (k, v) = (0x3D \<notin> set k \<and> 0x3B \<notin> set k \<and> 0x3B \<notin> set v)"

lemma get_tag_segment:
  assumes "tag_ok (k, v)" "rest = [] \<or> hd rest = 0x3B"
  shows "get_tag (k @ 0x3D # v @ rest) key cap = (if k = key then take (cap - 1) v else get_tag (tl rest) key cap)"
proof -
  let ?b = "k @ 0x3D # v @ rest"
  have sc: "0x3B \<notin> set (k @ 0x3D # v)" using assms(1) by simp
  have seg: "upto_char 0x3B ?b = k @ 0x3D # v" "from_char 0x3B ?b = rest"
  proof -
    show "upto_char 0x3B ?b = k @ 0x3D # v"
      using assms(2) upto_from(1) [OF sc, of "tl rest"] upto_from(3) [OF sc] by (cases rest) auto
    show "from_char 0x3B ?b = rest"
      using assms(2) upto_from(2) [OF sc, of "tl rest"] upto_from(4) [OF sc] by (cases rest) auto
  qed
  have eq: "upto_char 0x3D (k @ 0x3D # v) = k" "from_char 0x3D (k @ 0x3D # v) = 0x3D # v"
    using assms(1) by (simp_all add: upto_from)
  show ?thesis by (subst get_tag.simps) (simp only: Let_def seg eq, simp)
qed

lemma get_tag_Nil: "get_tag [] key cap = []"
  by (simp add: get_tag.simps)

text \<open>Among tags in any order, the value of the first with the key.\<close>

lemma get_tag_join:
  "list_all tag_ok ts \<Longrightarrow> get_tag (join_tags ts) key cap = (case map_of ts key of None \<Rightarrow> [] | Some v \<Rightarrow> take (cap - 1) v)"
proof (induction ts rule: join_tags.induct)
  case (2 k v)
  then show ?case using get_tag_segment [of k v "[]" key cap] by (simp add: get_tag_Nil)
next
  case (3 k v t ts)
  then show ?case using get_tag_segment [of k v "0x3B # join_tags (t # ts)" key cap] by auto
qed (simp add: get_tag_Nil)

lemma join_tags_set: "ch \<in> set (join_tags ts) \<Longrightarrow> ch = 0x3D \<or> ch = 0x3B \<or> (\<exists>(k, v)\<in>set ts. ch \<in> set k \<or> ch \<in> set v)"
  by (induction ts rule: join_tags.induct) auto

subsection \<open>Messages\<close>

definition tag_val :: "(byte list \<times> byte list) list \<Rightarrow> string \<Rightarrow> byte list" where
  "tag_val ts k = (case map_of ts (asc k) of None \<Rightarrow> [] | Some v \<Rightarrow> take 63 v)"

fun kind_name :: "irc_kind \<Rightarrow> byte list" where
  "kind_name IRC_MSG_PRIVMSG = asc ''PRIVMSG''"
| "kind_name IRC_MSG_NOTICE = asc ''NOTICE''"

definition message_line ::
  "(byte list \<times> byte list) list \<Rightarrow> byte list \<Rightarrow> byte list \<Rightarrow> irc_kind \<Rightarrow> byte list \<Rightarrow> byte list \<Rightarrow> byte list" where
  "message_line ts nick uh kind target tx =
     0x40 # join_tags ts @ 0x20 # 0x3A # (nick @ 0x21 # uh) @ 0x20 # kind_name kind @ 0x20 # target @ 0x20 # 0x3A # tx"

definition word_ok :: "byte list \<Rightarrow> bool" where
  "word_ok s \<longleftrightarrow> 0x20 \<notin> set s \<and> 0x0A \<notin> set s \<and> 0 \<notin> set s"

definition tags_ok :: "(byte list \<times> byte list) list \<Rightarrow> bool" where
  "tags_ok ts \<longleftrightarrow> list_all tag_ok ts \<and> list_all (\<lambda>(k, v). word_ok k \<and> word_ok v) ts"

lemma join_tags_word: "tags_ok ts \<Longrightarrow> word_ok (join_tags ts)"
  using join_tags_set [of _ ts] by (fastforce simp: word_ok_def tags_ok_def list_all_iff)

lemma skip_sp_simps [simp]: "skip_sp (0x20 # s) = skip_sp s" "c \<noteq> 0x20 \<Longrightarrow> skip_sp (c # s) = c # s" "skip_sp [] = []"
  by (simp_all add: skip_sp_def)

lemma skip_sp_word: "0x20 \<notin> set s \<Longrightarrow> s \<noteq> [] \<Longrightarrow> skip_sp (s @ r) = s @ r"
  by (cases s) auto

lemma take_prefix_nick:
  assumes "word_ok (nick @ 0x21 # uh)" "0x21 \<notin> set nick" "0x40 \<notin> set nick"
  shows "take_prefix (0x3A # (nick @ 0x21 # uh) @ 0x20 # q) = Some (take 63 nick, skip_sp q)"
proof -
  have s: "0x20 \<notin> set (nick @ 0x21 # uh)" using assms(1) by (simp add: word_ok_def)
  have "take 63 (takeWhile (\<lambda>x. x \<noteq> 0x21 \<and> x \<noteq> 0x40) (take 255 (nick @ 0x21 # uh))) = take 63 nick"
  proof (cases "length nick < 255")
    case True
    then have "take 255 (nick @ 0x21 # uh) = nick @ 0x21 # take (254 - length nick) uh"
      by (simp add: take_Cons' numeral_eq_Suc)
    moreover have "takeWhile (\<lambda>x. x \<noteq> 0x21 \<and> x \<noteq> 0x40) (nick @ 0x21 # take (254 - length nick) uh) = nick"
      using assms(2,3) by (subst takeWhile_append2) auto
    ultimately show ?thesis by simp
  next
    case False
    then have "take 255 (nick @ 0x21 # uh) = take 255 nick" by simp
    moreover have "takeWhile (\<lambda>x. x \<noteq> 0x21 \<and> x \<noteq> 0x40) (take 255 nick) = take 255 nick"
      using assms(2,3) by (subst takeWhile_eq_all_conv) (auto dest: in_set_takeD)
    moreover have "take 63 (take 255 nick) = take 63 nick" by simp
    ultimately show ?thesis by (simp only:)
  qed
  moreover define w where "w = nick @ 0x21 # uh"
  ultimately have "take 63 (takeWhile (\<lambda>x. x \<noteq> 0x21 \<and> x \<noteq> 0x40) (take 255 w)) = take 63 nick" "0x20 \<notin> set w"
    using s by (simp_all only: not_False_eq_True)
  then show ?thesis unfolding w_def [symmetric] by (simp add: take_prefix_def Let_def upto_from)
qed

lemma handle_message_line:
  assumes "tags_ok ts" "length (join_tags ts) \<le> 16383" "word_ok (nick @ 0x21 # uh)" "0x21 \<notin> set nick" "0x40 \<notin> set nick"
    and "word_ok target" "target \<noteq> []"
  shows "handle_line env (message_line ts nick uh kind target tx) c =
    forward_message env kind (take 63 nick) (take 63 target) (tag_val ts ''msgid'') tx (tag_val ts ''time'') c"
proof -
  let ?p = "0x3A # (nick @ 0x21 # uh) @ 0x20 # kind_name kind @ 0x20 # target @ 0x20 # 0x3A # tx"
  have j: "0x20 \<notin> set (join_tags ts)" using join_tags_word [OF assms(1)] by (simp add: word_ok_def)
  have tv: "get_tag (join_tags ts) (asc k) 64 = tag_val ts k" for k
    using assms(1) get_tag_join [of ts "asc k" 64] by (simp add: tags_ok_def tag_val_def split: option.split)
  have tags: "take_tags (message_line ts nick uh kind target tx) = Some (tag_val ts ''time'', tag_val ts ''msgid'', ?p)"
    using assms(2) by (simp add: take_tags_def message_line_def Let_def upto_from [OF j] tv del: asc_simps)
  have kn: "0x20 \<notin> set (kind_name kind)" "kind_name kind \<noteq> []" by (cases kind; simp)+
  have pre: "take_prefix ?p = Some (take 63 nick, kind_name kind @ 0x20 # target @ 0x20 # 0x3A # tx)"
    using take_prefix_nick [OF assms(3-5)] skip_sp_word [OF kn] by simp
  have tg: "0x20 \<notin> set target" using assms(6) by (simp add: word_ok_def)
  have pm: "do_privmsg env kind (take 63 nick) mi ti (target @ 0x20 # 0x3A # tx) c =
      forward_message env kind (take 63 nick) (take 63 target) mi tx ti c" for mi ti
    by (simp add: do_privmsg_def upto_from [OF tg] strip_colon_def)
  have disp: "irc_dispatch env ti mi (take 63 nick) (kind_name kind) (target @ 0x20 # 0x3A # tx) c =
      do_privmsg env kind (take 63 nick) mi ti (target @ 0x20 # 0x3A # tx) c" for mi ti
    by (cases kind) (simp_all add: irc_dispatch_def is_numeric_cmd_def)
  show ?thesis
    by (simp only: handle_line_def tags pre option.case prod.case upto_from [OF kn(1)] skip_sp_word [OF tg assms(7)] skip_sp_simps disp pm)
qed

text \<open>
  C23: A channel message reaches the viewer. A PRIVMSG or NOTICE line of a server, with tags in any order, arriving in whatever pieces, posts
  exactly one message and changes nothing else: the sender's nick, the target, the msgid and the text are the ones that
  were sent, cut to their arrays, and the time is the server's, where there is one that can be read, and the local clock's otherwise.
\<close>

theorem irc_message_delivered:
  assumes "tags_ok ts" "word_ok (nick @ 0x21 # uh)" "0x21 \<notin> set nick" "0x40 \<notin> set nick" "word_ok target" "target \<noteq> []"
    and "0x0A \<notin> set tx" "0 \<notin> set tx" "tx = [] \<or> last tx \<noteq> 0x0D" "length (message_line ts nick uh kind target tx) \<le> 16382"
    and "concat chunks = message_line ts nick uh kind target tx @ [0x0D, 0x0A]"
  shows "\<exists>when srv. irc_loop env ([], c) (map good_round chunks) =
      ([], c\<lparr>ic_posts := ic_posts c @ [IRC_EVT_MESSAGE \<lparr>im_kind = kind, im_nick = take 63 nick, im_target = take 63 target,
          im_msgid = tag_val ts ''msgid'', im_text = take 1023 tx, im_when = when, im_server_time = srv\<rparr>]\<rparr>) \<and>
    (case Option.bind (parse_iso_utc (tag_val ts ''time'')) (ie_local env) of
       None \<Rightarrow> when = ie_now env (length (ic_posts c)) \<and> \<not> srv
     | Some t \<Rightarrow> when = t \<and> srv)"
proof -
  let ?l = "message_line ts nick uh kind target tx"
  have j: "word_ok (join_tags ts)" by (rule join_tags_word [OF assms(1)])
  have kn: "word_ok (kind_name kind)" by (cases kind) (simp_all add: word_ok_def)
  have "last ?l = last (0x3A # tx)" by (simp add: message_line_def)
  then have lo: "line_ok ?l"
    using assms(2,5,7-10) j kn by (auto simp: line_ok_def message_line_def word_ok_def)
  have jl: "length (join_tags ts) \<le> 16383" using assms(10) by (simp add: message_line_def)
  have "irc_loop env ([], c) (map good_round chunks) = ([], handle_line env ?l c)"
    using stream_lines [of "[(?l, [0x0D, 0x0A])]" chunks env c] lo assms(11) by simp
  moreover have "handle_line env ?l c = forward_message env kind (take 63 nick) (take 63 target) (tag_val ts ''msgid'') tx (tag_val ts ''time'') c"
    by (rule handle_message_line [OF assms(1) jl assms(2-6)])
  ultimately have step: "irc_loop env ([], c) (map good_round chunks) =
      ([], forward_message env kind (take 63 nick) (take 63 target) (tag_val ts ''msgid'') tx (tag_val ts ''time'') c)" by simp
  let ?local = "Option.bind (parse_iso_utc (tag_val ts ''time'')) (ie_local env)"
  have "parse_iso_utc [] = None" by (simp add: parse_iso_utc_def scan_d_def)
  then have local: "(if tag_val ts ''time'' \<noteq> [] then ?local else None) = ?local" by auto
  have mid: "take 63 (tag_val ts ''msgid'') = tag_val ts ''msgid''" by (simp add: tag_val_def split: option.split)
  show ?thesis
    unfolding step forward_message_def local Let_def post_def mid
    by (intro exI [of _ "case ?local of None \<Rightarrow> ie_now env (length (ic_posts c)) | Some t \<Rightarrow> t"] exI [of _ "?local \<noteq> None"] conjI)
      (simp_all split: option.split)
qed

definition irc_demo_env :: irc_env where
  "irc_demo_env = \<lparr>ie_rand = (\<lambda>n. n), ie_local = Some, ie_now = (\<lambda>_. \<lparr>st_year = 1970, st_month = 1, st_day = 1, st_hour = 0,
     st_minute = 0, st_second = 0, st_ms = 0\<rparr>)\<rparr>"

definition irc_demo :: irc where
  "irc_demo = irc_client_open (asc ''irc.example'') 6667 (asc ''#retro'') [] False"

theorem irc_message_delivered_witness:
  "\<exists>m. snd (irc_loop irc_demo_env ([], irc_demo) (map good_round
      [message_line [(asc ''msgid'', asc ''a1''), (asc ''time'', asc ''x'')] (asc ''bob'') (asc ''b@h'') IRC_MSG_PRIVMSG (asc ''#retro'') (asc ''hi''),
       [0x0D, 0x0A]])) = post (IRC_EVT_MESSAGE m) irc_demo \<and> im_text m = asc ''hi'' \<and> im_msgid m = asc ''a1'' \<and> \<not> im_server_time m"
proof -
  let ?ts = "[(asc ''msgid'', asc ''a1''), (asc ''time'', asc ''x'')]"
  have a: "tags_ok ?ts" "word_ok (asc ''bob'' @ 0x21 # asc ''b@h'')" "word_ok (asc ''#retro'')"
    by (simp_all add: tags_ok_def word_ok_def)
  have t: "parse_iso_utc (tag_val ?ts ''time'') = None" by (simp add: tag_val_def parse_iso_utc_def scan_d_def is_digit_def is_space_def)
  show ?thesis
    using irc_message_delivered [of ?ts "asc ''bob''" "asc ''b@h''" "asc ''#retro''" "asc ''hi''" IRC_MSG_PRIVMSG
        "[message_line ?ts (asc ''bob'') (asc ''b@h'') IRC_MSG_PRIVMSG (asc ''#retro'') (asc ''hi''), [0x0D, 0x0A]]" irc_demo_env irc_demo] a t
    by (auto simp: post_def message_line_def tag_val_def)
qed

subsection \<open>Registration\<close>

definition crlf_line :: "byte list \<Rightarrow> byte list" where
  "crlf_line l = l @ [0x0D, 0x0A]"

definition hello :: "byte list \<Rightarrow> byte list list" where
  "hello nick = [crlf_line (asc ''CAP LS 302''), crlf_line (asc ''NICK '' @ nick), crlf_line (asc ''USER '' @ nick @ asc '' 0 * :MGT Unicorn Viewer'')]"

lemma nick_chars_length: "length (fst (nick_chars env r cs)) = length cs"
  by (induction cs arbitrary: r) (auto split: prod.split, metis fst_conv, metis fst_conv)

lemma gen_nick_length: "length (ss_nick (gen_nick env c)) \<le> 63"
  using nick_chars_length [of env "ic_rnd c" "take 63 (ic_nick_pattern c)"] by (auto simp: gen_nick_def Let_def split_beta min_def)

lemma gen_nick_fields:
  "\<exists>n r. gen_nick env c = c\<lparr>ss_nick := n, ic_rnd := r\<rparr>"
  by (simp add: gen_nick_def Let_def split_beta) blast

lemma send_line_short: "length l \<le> 16381 \<Longrightarrow> send_line l c = c\<lparr>ic_sent := ic_sent c @ [crlf_line l]\<rparr>"
  by (simp add: send_line_def crlf_line_def)

lemma session_start_eq:
  "\<exists>r nick. length nick \<le> 63 \<and> session_start env c =
    c\<lparr>ss_nick := nick, ic_rnd := r, ss_cap_req := False, ss_cap_end := False, ss_reached := False, ss_banner := ic_banner_pending c,
      ic_sent := ic_sent c @ hello nick\<rparr>"
proof -
  let ?c = "c\<lparr>ss_cap_req := False, ss_cap_end := False, ss_reached := False, ss_banner := ic_banner_pending c\<rparr>"
  obtain n r where g: "gen_nick env ?c = ?c\<lparr>ss_nick := n, ic_rnd := r\<rparr>" using gen_nick_fields by blast
  have n: "length n \<le> 63" using gen_nick_length [of env ?c] by (simp add: g)
  then have t: "take 127 (asc ''NICK '' @ n) = asc ''NICK '' @ n"
      "take 191 (asc ''USER '' @ n @ asc '' 0 * :MGT Unicorn Viewer'') = asc ''USER '' @ n @ asc '' 0 * :MGT Unicorn Viewer''"
    by (intro take_all; simp del: asc_simps(2))+
  have l: "length (asc ''CAP LS 302'') \<le> 16381" "length (asc ''NICK '' @ n) \<le> 16381"
      "length (asc ''USER '' @ n @ asc '' 0 * :MGT Unicorn Viewer'') \<le> 16381"
    using n by (simp_all del: asc_simps(2))
  have "session_start env c = ?c\<lparr>ss_nick := n, ic_rnd := r, ic_sent := ic_sent c @ hello n\<rparr>"
    by (simp add: session_start_def Let_def g t l hello_def send_line_short del: asc_simps(2) take_append)
  then show ?thesis using n by (intro exI [of _ r] exI [of _ n]) simp
qed

subsection \<open>What is posted\<close>

text \<open>Every event fits the arrays of its structure, ends included.\<close>

fun post_fits :: "irc_post \<Rightarrow> bool" where
  "post_fits (IRC_EVT_MESSAGE m) =
     (length (im_nick m) \<le> 63 \<and> length (im_target m) \<le> 63 \<and> length (im_msgid m) \<le> 63 \<and> length (im_text m) \<le> 1023)"
| "post_fits (IRC_EVT_SYSTEM t) = (length t \<le> 1023)"
| "post_fits (IRC_EVT_FAILED t) = (length t \<le> 127)"
| "post_fits IRC_EVT_REGISTERED = True"

fun is_failed :: "irc_post \<Rightarrow> bool" where
  "is_failed (IRC_EVT_FAILED t) = True"
| "is_failed _ = False"

text \<open>
  What a line, a session and the announcements may do: they only add events, which fit and are not failures, and a welcome is
  posted exactly when the client becomes, or again is, registered.
\<close>

definition irc_step :: "irc \<Rightarrow> irc \<Rightarrow> bool" where
  "irc_step c c' \<longleftrightarrow>
     (\<exists>ps. ic_posts c' = ic_posts c @ ps \<and> list_all post_fits ps \<and> \<not> list_ex is_failed ps \<and>
        (ic_ever_registered c' \<longleftrightarrow> ic_ever_registered c \<or> IRC_EVT_REGISTERED \<in> set ps)) \<and>
     (ss_reached c' \<longrightarrow> ss_reached c \<or> ic_ever_registered c')"

lemma irc_step_refl [simp]: "irc_step c c"
  by (simp add: irc_step_def)

lemma irc_step_trans: "irc_step c d \<Longrightarrow> irc_step d e \<Longrightarrow> irc_step c e"
proof -
  assume a: "irc_step c d" and b: "irc_step d e"
  obtain p where p: "ic_posts d = ic_posts c @ p" "list_all post_fits p" "\<not> list_ex is_failed p"
      "ic_ever_registered d \<longleftrightarrow> ic_ever_registered c \<or> IRC_EVT_REGISTERED \<in> set p" using a by (auto simp: irc_step_def)
  obtain q where q: "ic_posts e = ic_posts d @ q" "list_all post_fits q" "\<not> list_ex is_failed q"
      "ic_ever_registered e \<longleftrightarrow> ic_ever_registered d \<or> IRC_EVT_REGISTERED \<in> set q" using b by (auto simp: irc_step_def)
  show ?thesis
    unfolding irc_step_def
    using a b p q by (intro conjI exI [of _ "p @ q"]) (auto simp: irc_step_def)
qed

lemma irc_step_same: "ic_posts c' = ic_posts c \<Longrightarrow> ic_ever_registered c' = ic_ever_registered c \<Longrightarrow> ss_reached c' \<longrightarrow> ss_reached c \<Longrightarrow> irc_step c c'"
  by (auto simp: irc_step_def)

lemma irc_step_post: "post_fits e \<Longrightarrow> \<not> is_failed e \<Longrightarrow> e \<noteq> IRC_EVT_REGISTERED \<Longrightarrow> irc_step c (post e c)"
  by (auto simp: irc_step_def post_def)

lemma irc_step_emit [simp]: "irc_step c (emit_system t c)" "irc_step c (forward_numeric r c)"
  by (auto simp: forward_numeric_def emit_system_def intro!: irc_step_post)

lemma irc_step_send [simp]: "irc_step c (send_line l c)"
  by (rule irc_step_same) (simp_all add: send_line_def)

lemma irc_step_gen_nick [simp]: "irc_step c (gen_nick env c)"
proof -
  obtain n r where "gen_nick env c = c\<lparr>ss_nick := n, ic_rnd := r\<rparr>" using gen_nick_fields by blast
  then show ?thesis by (simp add: irc_step_def)
qed

lemma irc_step_cap: "irc_step c (do_cap r c)"
proof -
  have e: "irc_step a (emit_system t c')" if "irc_step a c'" for a t c'
    using that irc_step_emit(1) by (rule irc_step_trans)
  have s: "irc_step c ((send_line l c)\<lparr>ss_cap_req := b\<rparr>)" "irc_step c ((send_line l c)\<lparr>ss_cap_end := b\<rparr>)" for l b
    by (rule irc_step_same; simp add: send_line_def)+
  show ?thesis by (auto simp: do_cap_def Let_def s intro!: e)
qed

lemma irc_step_welcome: "irc_step c (do_welcome r c)"
proof -
  have 1: "irc_step c (post IRC_EVT_REGISTERED (c\<lparr>ss_reached := True, ic_ever_registered := True\<rparr>))"
    by (auto simp: irc_step_def post_def)
  have 2: "irc_step c (send_line l (post IRC_EVT_REGISTERED (c\<lparr>ss_reached := True, ic_ever_registered := True\<rparr>)))" for l
    using 1 irc_step_send by (rule irc_step_trans)
  show ?thesis by (auto simp: do_welcome_def Let_def intro: 2 irc_step_trans [OF 2 irc_step_emit(2)])
qed

lemma irc_step_numeric: "irc_step c (do_numeric cmd r c)"
proof -
  have "irc_step c ((forward_numeric r c)\<lparr>ss_banner := False, ic_banner_pending := False\<rparr>)"
    using irc_step_emit(2) [of c r] by (rule irc_step_trans) (simp add: irc_step_def)
  then show ?thesis by (auto simp: do_numeric_def Let_def)
qed

lemma irc_step_privmsg: "irc_step c (do_privmsg env k n m t r c)"
  by (auto simp: do_privmsg_def forward_message_def Let_def intro!: irc_step_post)

lemma irc_step_dispatch: "irc_step c (irc_dispatch env t m n cmd r c)"
  by (simp add: irc_dispatch_def irc_step_cap irc_step_welcome irc_step_numeric irc_step_privmsg do_nick_in_use_def Let_def
      irc_step_trans [OF irc_step_gen_nick irc_step_send])

lemma irc_step_line: "irc_step c (handle_line env l c)"
  by (simp add: handle_line_def irc_step_dispatch split: option.split)

lemma irc_step_bytes: "irc_step c (snd (foldl (acc_byte env) (acc, c) d))"
proof (induction d arbitrary: acc c)
  case (Cons b d)
  obtain a' c' where ac: "acc_byte env (acc, c) b = (a', c')" by (cases "acc_byte env (acc, c) b")
  have "irc_step c c'" using ac by (auto simp: acc_byte_def irc_step_line split: if_splits)
  then show ?case using Cons.IH [of c' a'] by (simp add: ac irc_step_trans)
qed simp

lemma irc_step_recv: "irc_step c (snd (irc_loop env (acc, c) rs))"
proof (induction rs arbitrary: acc c)
  case (Cons r rs)
  have "irc_step c (snd (irc_loop env (foldl (acc_byte env) (acc, c) d) rs))" for d
    using irc_step_trans [OF irc_step_bytes [of c env acc d] Cons.IH [of _ "fst (foldl (acc_byte env) (acc, c) d)"]] by simp
  then show ?case by (simp split: recv_result.split)
qed simp

lemma run_session_step:
  "\<exists>ps. ic_posts (run_session env rs c) = ic_posts c @ ps \<and> list_all post_fits ps \<and> \<not> list_ex is_failed ps \<and>
     (ic_ever_registered (run_session env rs c) \<longleftrightarrow> ic_ever_registered c \<or> IRC_EVT_REGISTERED \<in> set ps) \<and>
     (ss_reached (run_session env rs c) \<longrightarrow> ic_ever_registered (run_session env rs c))"
proof -
  obtain r nick where st: "session_start env c =
      c\<lparr>ss_nick := nick, ic_rnd := r, ss_cap_req := False, ss_cap_end := False, ss_reached := False, ss_banner := ic_banner_pending c,
      ic_sent := ic_sent c @ hello nick\<rparr>" using session_start_eq by blast
  show ?thesis
    using irc_step_recv [of "session_start env c" env "[]" rs] by (auto simp: run_session_def irc_step_def st)
qed

subsection \<open>A server, and what it is answered\<close>

text \<open>
  The lines of a server, from the protocol: the parts of the capability negotiation, the welcome, a nickname that is taken, PING, and
  any other command or numeric (notices, the text of the day, errors). Each may carry tags and the name of its sender.
\<close>

datatype cap_sub = Cap_ls_more | Cap_ls | Cap_ack | Cap_nak | Cap_new | Cap_del

fun cap_text :: "cap_sub \<Rightarrow> byte list" where
  "cap_text Cap_ls_more = asc ''LS *''"
| "cap_text Cap_ls = asc ''LS''"
| "cap_text Cap_ack = asc ''ACK''"
| "cap_text Cap_nak = asc ''NAK''"
| "cap_text Cap_new = asc ''NEW''"
| "cap_text Cap_del = asc ''DEL''"

datatype server_line =
    Sv_ping "byte list"
  | Sv_cap "byte list" cap_sub "byte list"
  | Sv_welcome "byte list"
  | Sv_nick_taken "byte list"
  | Sv_other "byte list" "byte list"

fun sv_cmd :: "server_line \<Rightarrow> byte list" where
  "sv_cmd (Sv_ping a) = asc ''PING''"
| "sv_cmd (Sv_cap w sub caps) = asc ''CAP''"
| "sv_cmd (Sv_welcome r) = asc ''001''"
| "sv_cmd (Sv_nick_taken r) = asc ''433''"
| "sv_cmd (Sv_other cmd r) = cmd"

fun sv_args :: "server_line \<Rightarrow> byte list" where
  "sv_args (Sv_ping a) = a"
| "sv_args (Sv_cap w sub caps) = w @ 0x20 # cap_text sub @ 0x20 # 0x3A # caps"
| "sv_args (Sv_welcome r) = r"
| "sv_args (Sv_nick_taken r) = r"
| "sv_args (Sv_other cmd r) = r"

fun sv_text :: "byte list \<times> byte list \<times> server_line \<Rightarrow> byte list" where
  "sv_text (tags, from, l) =
     (if tags = [] then [] else 0x40 # tags @ [0x20]) @ (if from = [] then [] else 0x3A # from @ [0x20]) @
     sv_cmd l @ (if sv_args l = [] then [] else 0x20 # sv_args l)"

text \<open>The list of a capability line does not itself hold the words of the negotiation; they are in capitals, capabilities are not.\<close>

definition caps_ok :: "byte list \<Rightarrow> bool" where
  "caps_ok caps \<longleftrightarrow> (\<forall>p\<in>{'' LS '', '' LS * '', '' ACK '', '' NAK ''}. \<not> strstr caps (asc p))"

fun server_line_ok :: "server_line \<Rightarrow> bool" where
  "server_line_ok (Sv_ping a) = (a \<noteq> [] \<and> hd a \<noteq> 0x20 \<and> length a \<le> 594)"
| "server_line_ok (Sv_cap w sub caps) = (w \<noteq> [] \<and> 0x20 \<notin> set w \<and> caps_ok caps)"
| "server_line_ok (Sv_welcome r) = True"
| "server_line_ok (Sv_nick_taken r) = True"
| "server_line_ok (Sv_other cmd r) =
     (cmd \<noteq> [] \<and> 0x20 \<notin> set cmd \<and> hd cmd \<noteq> 0x3A \<and> hd cmd \<noteq> 0x40 \<and> cmd \<notin> set (map asc [''PING'', ''CAP'', ''001'', ''433'']))"

fun sv_ok :: "byte list \<times> byte list \<times> server_line \<Rightarrow> bool" where
  "sv_ok (tags, from, l) \<longleftrightarrow> 0x20 \<notin> set tags \<and> 0x20 \<notin> set from \<and> server_line_ok l"

text \<open>
  What the protocol asks of the client: a PONG for every PING, one request when the list of capabilities is complete, one end of
  the negotiation at the answer to it, another nickname for each that is taken, and the channel after the welcome.
\<close>

datatype reply = Rp_pong "byte list" | Rp_cap_req | Rp_cap_end | Rp_nick | Rp_join

fun sv_replies :: "bool \<Rightarrow> bool \<Rightarrow> server_line list \<Rightarrow> reply list" where
  "sv_replies asked ended [] = []"
| "sv_replies asked ended (Sv_ping a # ls) = Rp_pong a # sv_replies asked ended ls"
| "sv_replies asked ended (Sv_welcome r # ls) = Rp_join # sv_replies asked ended ls"
| "sv_replies asked ended (Sv_nick_taken r # ls) = Rp_nick # sv_replies asked ended ls"
| "sv_replies asked ended (Sv_other cmd r # ls) = sv_replies asked ended ls"
| "sv_replies asked ended (Sv_cap w sub caps # ls) =
     (if sub = Cap_ls \<and> \<not> asked then Rp_cap_req # sv_replies True ended ls
      else if sub \<in> {Cap_ack, Cap_nak} \<and> asked \<and> \<not> ended then Rp_cap_end # sv_replies True True ls
      else sv_replies asked ended ls)"

fun reply_text :: "byte list \<Rightarrow> reply \<Rightarrow> byte list \<Rightarrow> bool" where
  "reply_text ch (Rp_pong a) b \<longleftrightarrow> b = crlf_line (asc ''PONG '' @ a)"
| "reply_text ch Rp_cap_req b \<longleftrightarrow> b = crlf_line (asc ''CAP REQ :server-time batch message-tags'')"
| "reply_text ch Rp_cap_end b \<longleftrightarrow> b = crlf_line (asc ''CAP END'')"
| "reply_text ch Rp_nick b \<longleftrightarrow> (\<exists>n. length n \<le> 63 \<and> b = crlf_line (asc ''NICK '' @ n))"
| "reply_text ch Rp_join b \<longleftrightarrow> b = crlf_line (asc ''JOIN '' @ ch)"

definition welcomes :: "server_line list \<Rightarrow> nat" where
  "welcomes ls = length (filter (\<lambda>l. \<exists>r. l = Sv_welcome r) ls)"

text \<open>From \<open>c\<close> the client has come to \<open>c'\<close> with these replies and so many welcomes.\<close>

definition served :: "irc \<Rightarrow> reply list \<Rightarrow> nat \<Rightarrow> irc \<Rightarrow> bool" where
  "served c rs n c' \<longleftrightarrow>
     (\<exists>out. ic_sent c' = ic_sent c @ out \<and> list_all2 (reply_text (ic_channel c)) rs out) \<and>
     (\<exists>ps. ic_posts c' = ic_posts c @ ps \<and> filter (\<lambda>e. e = IRC_EVT_REGISTERED) ps = replicate n IRC_EVT_REGISTERED) \<and>
     ic_channel c' = ic_channel c \<and> (ss_reached c' \<longleftrightarrow> ss_reached c \<or> 0 < n) \<and>
     (ic_ever_registered c' \<longleftrightarrow> ic_ever_registered c \<or> 0 < n)"

lemma served_refl [simp]: "served c [] 0 c"
  by (simp add: served_def)

lemma served_trans:
  assumes "served c rs n d" "served d rs' n' e"
  shows "served c (rs @ rs') (n + n') e"
proof -
  obtain o1 p1 where 1: "ic_sent d = ic_sent c @ o1" "list_all2 (reply_text (ic_channel c)) rs o1" "ic_posts d = ic_posts c @ p1"
      "filter (\<lambda>e. e = IRC_EVT_REGISTERED) p1 = replicate n IRC_EVT_REGISTERED" "ic_channel d = ic_channel c"
    using assms(1) unfolding served_def by blast
  obtain o2 p2 where 2: "ic_sent e = ic_sent d @ o2" "list_all2 (reply_text (ic_channel d)) rs' o2" "ic_posts e = ic_posts d @ p2"
      "filter (\<lambda>e. e = IRC_EVT_REGISTERED) p2 = replicate n' IRC_EVT_REGISTERED"
    using assms(2) unfolding served_def by blast
  have "ic_sent e = ic_sent c @ (o1 @ o2)" "list_all2 (reply_text (ic_channel c)) (rs @ rs') (o1 @ o2)"
      "ic_posts e = ic_posts c @ (p1 @ p2)"
      "filter (\<lambda>e. e = IRC_EVT_REGISTERED) (p1 @ p2) = replicate (n + n') IRC_EVT_REGISTERED"
    using 1 2 by (simp_all add: replicate_add list_all2_appendI)
  then show ?thesis using assms unfolding served_def by auto
qed

lemma served_post:
  "e \<noteq> IRC_EVT_REGISTERED \<Longrightarrow> served c rs n d \<Longrightarrow> served c rs n (post e d)"
  using served_trans [of c rs n d "[]" 0 "post e d"] by (simp add: served_def post_def)

lemma served_emit: "served c rs n d \<Longrightarrow> served c rs n (emit_system t d)" "served c rs n d \<Longrightarrow> served c rs n (forward_numeric r d)"
  by (simp_all add: emit_system_def forward_numeric_def served_post)

lemma served_send:
  "length l \<le> 16381 \<Longrightarrow> reply_text (ic_channel c) r (crlf_line l) \<Longrightarrow> served c [r] 0 (send_line l c)"
  by (simp add: served_def send_line_short)

text \<open>Fields that the relation does not look at.\<close>

lemma served_fields:
  "served c rs n d \<Longrightarrow> served c rs n (d\<lparr>ss_cap_req := b\<rparr>)" "served c rs n d \<Longrightarrow> served c rs n (d\<lparr>ss_cap_end := b\<rparr>)"
  "served c rs n d \<Longrightarrow> served c rs n (d\<lparr>ss_banner := b\<rparr>)" "served c rs n d \<Longrightarrow> served c rs n (d\<lparr>ic_banner_pending := b\<rparr>)"
  "served c rs n d \<Longrightarrow> served c rs n (d\<lparr>ss_nick := k, ic_rnd := i\<rparr>)"
  by (simp_all add: served_def)

lemma strstr_skip: "0x20 \<notin> set w \<Longrightarrow> hd p = 0x20 \<Longrightarrow> p \<noteq> [] \<Longrightarrow> strstr (w @ r) p = strstr r p"
proof (induction w)
  case (Cons x w)
  have "take (length p) (x # w @ r) \<noteq> p" using Cons.prems by (cases p) auto
  then show ?case using Cons by simp
qed simp

lemma cap_words:
  assumes "server_line_ok (Sv_cap w sub caps)"
  shows "strstr (sv_args (Sv_cap w sub caps)) (asc '' LS '') \<longleftrightarrow> sub \<in> {Cap_ls, Cap_ls_more}"
    "strstr (sv_args (Sv_cap w sub caps)) (asc '' LS * '') \<longleftrightarrow> sub = Cap_ls_more"
    "strstr (sv_args (Sv_cap w sub caps)) (asc '' ACK '') \<longleftrightarrow> sub = Cap_ack"
    "strstr (sv_args (Sv_cap w sub caps)) (asc '' NAK '') \<longleftrightarrow> sub = Cap_nak"
proof -
  have w: "0x20 \<notin> set w" and c: "caps_ok caps" using assms by simp_all
  have p: "hd (asc (CHR '' '' # q)) = 0x20 \<and> asc (CHR '' '' # q) \<noteq> []" for q by simp
  show "strstr (sv_args (Sv_cap w sub caps)) (asc '' LS '') \<longleftrightarrow> sub \<in> {Cap_ls, Cap_ls_more}"
    "strstr (sv_args (Sv_cap w sub caps)) (asc '' LS * '') \<longleftrightarrow> sub = Cap_ls_more"
    "strstr (sv_args (Sv_cap w sub caps)) (asc '' ACK '') \<longleftrightarrow> sub = Cap_ack"
    "strstr (sv_args (Sv_cap w sub caps)) (asc '' NAK '') \<longleftrightarrow> sub = Cap_nak"
    using c by (cases sub; simp add: strstr_skip [OF w] caps_ok_def)+
qed

text \<open>A line with tags and a sender is dispatched with its command and arguments.\<close>

lemma word_upto:
  "0x20 \<notin> set w \<Longrightarrow> upto_char 0x20 (w @ (if r = [] then [] else 0x20 # r)) = w"
  "0x20 \<notin> set w \<Longrightarrow> skip_sp (from_char 0x20 (w @ (if r = [] then [] else 0x20 # r))) = skip_sp r"
  by (auto simp: upto_from skip_sp_def)

lemma sv_cmd_word:
  "server_line_ok l \<Longrightarrow> sv_cmd l \<noteq> [] \<and> 0x20 \<notin> set (sv_cmd l) \<and> hd (sv_cmd l) \<noteq> 0x3A \<and> hd (sv_cmd l) \<noteq> 0x40"
  by (cases l) simp_all

lemma handle_sv:
  assumes "sv_ok (tags, from, l)"
  obtains tm mi nick where "handle_line env (sv_text (tags, from, l)) c = irc_dispatch env tm mi nick (sv_cmd l) (skip_sp (sv_args l)) c"
proof -
  define body where "body = sv_cmd l @ (if sv_args l = [] then [] else 0x20 # sv_args l)"
  define q where "q = (if from = [] then [] else 0x3A # from @ [0x20]) @ body"
  have w: "sv_cmd l \<noteq> []" "0x20 \<notin> set (sv_cmd l)" "hd (sv_cmd l) \<noteq> 0x3A" "hd (sv_cmd l) \<noteq> 0x40" using sv_cmd_word assms by simp_all
  have b: "body \<noteq> []" "hd body = hd (sv_cmd l)" "upto_char 0x20 body = sv_cmd l" "skip_sp (from_char 0x20 body) = skip_sp (sv_args l)"
    using w word_upto [OF w(2)] by (simp_all add: body_def)
  have bs: "hd body \<noteq> 0x20" using w(1,2) b(2) by (cases "sv_cmd l") auto
  have skip: "skip_sp (0x20 # s) = s" if "s \<noteq> []" "hd s \<noteq> 0x20" for s using that by (cases s) (auto simp: skip_sp_def)
  obtain nick where p: "take_prefix q = Some (nick, body)"
    using assms upto_from(1,2) [of "0x20" "from" body] w(3) b(1,2) skip [OF b(1) bs]
    by (cases "from = []") (auto simp: q_def take_prefix_def Let_def)
  have q: "q \<noteq> []" "hd q \<noteq> 0x40" "hd q \<noteq> 0x20" using b(1,2) w(4) bs by (simp_all add: q_def)
  obtain tm mi where t: "take_tags (sv_text (tags, from, l)) = Some (tm, mi, q)"
    using assms upto_from(1,2) [of "0x20" tags q] q skip [OF q(1,3)]
    by (cases "tags = []") (auto simp: q_def [symmetric] body_def [symmetric] take_tags_def Let_def)
  show ?thesis using that [of tm mi nick] t p b(3,4) by (simp add: handle_line_def)
qed

lemma skip_sp_id: "s \<noteq> [] \<Longrightarrow> hd s \<noteq> 0x20 \<Longrightarrow> skip_sp s = s"
  by (cases s) (simp_all add: skip_sp_def)

lemma served_cap:
  fixes c :: irc
  assumes "server_line_ok (Sv_cap w sub caps)"
  defines "c' \<equiv> do_cap (sv_args (Sv_cap w sub caps)) c"
  shows "served c (if sub = Cap_ls \<and> \<not> ss_cap_req c then [Rp_cap_req]
      else if sub \<in> {Cap_ack, Cap_nak} \<and> ss_cap_req c \<and> \<not> ss_cap_end c then [Rp_cap_end] else []) 0 c' \<and>
    ss_cap_req c' = (ss_cap_req c \<or> sub = Cap_ls) \<and>
    ss_cap_end c' = (ss_cap_end c \<or> sub \<in> {Cap_ack, Cap_nak} \<and> ss_cap_req c)"
proof -
  define d where "d = (if \<not> ss_cap_req c \<and> sub \<in> {Cap_ls, Cap_ls_more} \<and> sub \<noteq> Cap_ls_more
      then (send_line (asc ''CAP REQ :server-time batch message-tags'') c)\<lparr>ss_cap_req := True\<rparr>
      else if ss_cap_req c \<and> \<not> ss_cap_end c \<and> (sub = Cap_ack \<or> sub = Cap_nak)
      then (send_line (asc ''CAP END'') c)\<lparr>ss_cap_end := True\<rparr> else c)"
  have c': "c' = d \<or> (\<exists>t. c' = emit_system t d)"
    unfolding c'_def do_cap_def Let_def cap_words [OF assms(1)] d_def [symmetric] by metis
  have s: "served c [Rp_cap_req] 0 ((send_line (asc ''CAP REQ :server-time batch message-tags'') c)\<lparr>ss_cap_req := True\<rparr>)"
    "served c [Rp_cap_end] 0 ((send_line (asc ''CAP END'') c)\<lparr>ss_cap_end := True\<rparr>)"
    by (intro served_fields served_send; simp)+
  have f: "ss_cap_req (send_line l c) = ss_cap_req c" "ss_cap_end (send_line l c) = ss_cap_end c" for l by (simp_all add: send_line_def)
  have "served c (if sub = Cap_ls \<and> \<not> ss_cap_req c then [Rp_cap_req]
      else if sub \<in> {Cap_ack, Cap_nak} \<and> ss_cap_req c \<and> \<not> ss_cap_end c then [Rp_cap_end] else []) 0 d \<and>
    ss_cap_req d = (ss_cap_req c \<or> sub = Cap_ls) \<and>
    ss_cap_end d = (ss_cap_end c \<or> sub \<in> {Cap_ack, Cap_nak} \<and> ss_cap_req c)"
    unfolding d_def using s by (cases sub) (auto simp: f simp del: asc_simps)
  then show ?thesis using c' by (auto simp: emit_system_def post_def intro: served_emit(1) [unfolded emit_system_def post_def])
qed

lemma served_welcome:
  "length (ic_channel c) \<le> 63 \<Longrightarrow> served c [Rp_join] 1 (do_welcome r c)"
proof -
  assume ch: "length (ic_channel c) \<le> 63"
  have "take 127 (asc ''JOIN '' @ ic_channel c) = asc ''JOIN '' @ ic_channel c" using ch by (intro take_all) simp
  moreover have "length (asc ''JOIN '' @ ic_channel c) \<le> 16381" using ch by simp
  then have "served c [Rp_join] 1 (send_line (asc ''JOIN '' @ ic_channel c)
      (post IRC_EVT_REGISTERED (c\<lparr>ss_reached := True, ic_ever_registered := True\<rparr>)))"
    by (simp add: served_def post_def send_line_short del: asc_simps length_append)
  ultimately show ?thesis by (simp add: do_welcome_def Let_def post_def served_emit del: asc_simps)
qed

lemma served_numeric: "served c [] 0 (do_numeric cmd r c)"
  by (auto simp: do_numeric_def Let_def intro!: served_fields served_emit)

lemma served_privmsg: "served c [] 0 (do_privmsg env k n m t r c)"
  by (auto simp: do_privmsg_def forward_message_def Let_def intro!: served_post)

lemma served_nick: "served c [Rp_nick] 0 (do_nick_in_use env c)"
proof -
  obtain n r where g: "gen_nick env c = c\<lparr>ss_nick := n, ic_rnd := r\<rparr>" using gen_nick_fields by blast
  have n: "length n \<le> 63" using gen_nick_length [of env c] by (simp add: g)
  then have "take 127 (asc ''NICK '' @ n) = asc ''NICK '' @ n" by (intro take_all) simp
  then have "do_nick_in_use env c = send_line (asc ''NICK '' @ n) (c\<lparr>ss_nick := n, ic_rnd := r\<rparr>)"
    by (simp add: do_nick_in_use_def g Let_def del: asc_simps)
  then show ?thesis using n by (auto simp: served_def send_line_short)
qed

definition flags :: "irc \<Rightarrow> bool \<times> bool" where
  "flags c = (ss_cap_req c, ss_cap_end c)"

lemma flags_same [simp]:
  "flags (send_line l c) = flags c" "flags (emit_system t c) = flags c" "flags (forward_numeric r c) = flags c" "flags (post e c) = flags c"
  "flags (gen_nick env c) = flags c" "flags (c\<lparr>ss_reached := True, ic_ever_registered := True\<rparr>) = flags c"
  "flags (c\<lparr>ss_banner := False, ic_banner_pending := False\<rparr>) = flags c"
  by (simp_all add: flags_def send_line_def emit_system_def forward_numeric_def post_def gen_nick_def Let_def split_beta)

lemma flags_ops [simp]:
  "flags (do_welcome r c) = flags c" "flags (do_numeric cmd r c) = flags c" "flags (do_privmsg env k n m t r c) = flags c"
  "flags (do_nick_in_use env c) = flags c"
  by (simp_all add: do_welcome_def do_numeric_def do_privmsg_def forward_message_def do_nick_in_use_def Let_def)

text \<open>Any lines of the server, one after the other.\<close>

lemma server_served:
  assumes "list_all sv_ok ls" "length (ic_channel c) \<le> 63"
  shows "served c (sv_replies (ss_cap_req c) (ss_cap_end c) (map (\<lambda>(t, f, l). l) ls)) (welcomes (map (\<lambda>(t, f, l). l) ls))
    (foldl (\<lambda>c l. handle_line env l c) c (map sv_text ls))"
  using assms
proof (induction ls arbitrary: c)
  case (Cons x ls)
  obtain tags "from" l where x: "x = (tags, from, l)" by (cases x)
  have ok: "sv_ok (tags, from, l)" "server_line_ok l" using Cons.prems(1) x by simp_all
  obtain tm mi nick where h: "handle_line env (sv_text x) c = irc_dispatch env tm mi nick (sv_cmd l) (skip_sp (sv_args l)) c"
    using handle_sv [OF ok(1)] x by blast
  define d where "d = handle_line env (sv_text x) c"
  let ?ls = "map (\<lambda>(t, f, l). l) ls"
  have step: ?case if "served c rs d1 d" "sv_replies (ss_cap_req c) (ss_cap_end c) (l # ?ls) = rs @ sv_replies (ss_cap_req d) (ss_cap_end d) ?ls"
      "d1 = (if \<exists>r. l = Sv_welcome r then 1 else 0)" for rs d1
  proof -
    have "ic_channel d = ic_channel c" using that(1) by (simp add: served_def)
    then have "served d (sv_replies (ss_cap_req d) (ss_cap_end d) ?ls) (welcomes ?ls) (foldl (\<lambda>c l. handle_line env l c) d (map sv_text ls))"
      using Cons.IH [of d] Cons.prems by simp
    moreover have "welcomes (l # ?ls) = d1 + welcomes ?ls" using that(3) by (simp add: welcomes_def)
    ultimately have "served c (sv_replies (ss_cap_req c) (ss_cap_end c) (l # ?ls)) (welcomes (l # ?ls))
        (foldl (\<lambda>c l. handle_line env l c) d (map sv_text ls))"
      using served_trans [OF that(1)] that(2) by simp
    then show ?thesis by (simp only: x d_def list.map foldl.simps prod.case)
  qed
  have fl: "flags d = flags c \<Longrightarrow> ss_cap_req d = ss_cap_req c \<and> ss_cap_end d = ss_cap_end c" by (simp add: flags_def)
  show ?case
  proof (cases l)
    case (Sv_ping a)
    have len: "length a \<le> 594" and a: "skip_sp a = a" using Sv_ping ok(2) by (simp_all add: skip_sp_id)
    have "take 599 (asc ''PONG '' @ a) = asc ''PONG '' @ a" using len by (intro take_all) simp
    then have d: "d = send_line (asc ''PONG '' @ a) c" using h Sv_ping ok(2) a by (simp add: d_def irc_dispatch_def)
    have "served c [Rp_pong a] 0 d" unfolding d using len by (intro served_send) simp_all
    moreover have "flags d = flags c" by (simp add: d del: asc_simps)
    ultimately show ?thesis using Sv_ping fl by (intro step) simp_all
  next
    case (Sv_cap w' sub caps)
    have "skip_sp (sv_args l) = sv_args l" using Sv_cap ok(2) by (cases w') (simp_all add: skip_sp_def)
    then have "d = do_cap (sv_args l) c" using h Sv_cap by (simp add: d_def irc_dispatch_def del: sv_args.simps)
    then show ?thesis
      using served_cap [of w' sub caps c] ok(2) Sv_cap by (intro step) (auto simp del: sv_args.simps)
  next
    case (Sv_welcome r)
    then have d: "d = do_welcome (skip_sp r) c" using h by (simp add: d_def irc_dispatch_def)
    then have "flags d = flags c" "served c [Rp_join] 1 d" using served_welcome [OF Cons.prems(2)] by simp_all
    then show ?thesis using Sv_welcome fl by (intro step) simp_all
  next
    case (Sv_nick_taken r)
    then have d: "d = do_nick_in_use env c" using h by (simp add: d_def irc_dispatch_def)
    then have "flags d = flags c" "served c [Rp_nick] 0 d" using served_nick by simp_all
    then show ?thesis using Sv_nick_taken fl by (intro step) simp_all
  next
    case (Sv_other cmd r)
    then have "served c [] 0 d" "flags d = flags c"
      using h ok(2) by (auto simp: d_def irc_dispatch_def served_numeric served_privmsg)
    then show ?thesis using Sv_other fl by (intro step) simp_all
  qed
qed (simp add: welcomes_def)

text \<open>
  C39: Registration, against any server. The server may send PINGs, notices, numerics and any other commands at any point, its list of
  capabilities in several lines, an acknowledgement or a refusal, refuse nicknames, and give its lines tags and a sender; they may
  arrive in whatever pieces, on a first connection that shows its banner or on a later one. The client sends its three opening lines and
  then exactly what the protocol asks for, in order: a PONG for every PING, the request at the end of the first list of capabilities, the end of the
  negotiation at the answer to it, another nickname for each that is taken, and its channel after the welcome. It counts as
  registered, and has told the viewer, exactly when it was welcomed, once for each welcome; nothing it posts is a failure.
\<close>

theorem irc_registers:
  fixes env :: irc_env
  assumes "length (ic_channel c) \<le> 63" "list_all sv_ok ls" "list_all line_ok (map sv_text ls)"
    and "concat chunks = concat (map crlf_line (map sv_text ls))"
  defines "c' \<equiv> run_session env (map good_round chunks) c" and "lines \<equiv> map (\<lambda>(tags, from, l). l) ls"
  shows "(\<exists>nick out. length nick \<le> 63 \<and> ic_sent c' = ic_sent c @ hello nick @ out \<and>
      list_all2 (reply_text (ic_channel c)) (sv_replies False False lines) out) \<and>
    (\<exists>ps. ic_posts c' = ic_posts c @ ps \<and> \<not> list_ex is_failed ps \<and>
      filter (\<lambda>e. e = IRC_EVT_REGISTERED) ps = replicate (welcomes lines) IRC_EVT_REGISTERED) \<and>
    (ss_reached c' \<longleftrightarrow> 0 < welcomes lines) \<and> (ic_ever_registered c' \<longleftrightarrow> ic_ever_registered c \<or> 0 < welcomes lines)"
proof -
  have ok: "list_all (\<lambda>(l, e). line_ok l \<and> (e = [0x0D, 0x0A] \<or> e = [0x0A])) (map (\<lambda>l. (l, [0x0D, 0x0A])) (map sv_text ls))"
    using assms(3) by (simp add: list_all_iff)
  have cc: "concat chunks = concat (map (\<lambda>(l, e). l @ e) (map (\<lambda>l. (l, [0x0D, 0x0A])) (map sv_text ls)))"
    by (simp add: assms(4) crlf_line_def o_def)
  obtain r nick where n: "length nick \<le> 63" and st: "session_start env c =
      c\<lparr>ss_nick := nick, ic_rnd := r, ss_cap_req := False, ss_cap_end := False, ss_reached := False, ss_banner := ic_banner_pending c,
      ic_sent := ic_sent c @ hello nick\<rparr>" using session_start_eq by blast
  have "map fst (map (\<lambda>l. (l, [0x0D, 0x0A :: byte])) (map sv_text ls)) = map sv_text ls" by (simp add: o_def)
  then have run: "c' = foldl (\<lambda>c l. handle_line env l c) (session_start env c) (map sv_text ls)"
    using stream_lines [OF ok cc, of env "session_start env c"] by (simp only: c'_def run_session_def snd_conv)
  have "served (session_start env c) (sv_replies False False lines) (welcomes lines) c'"
    using server_served [OF assms(2), of "session_start env c" env] assms(1) by (simp add: run lines_def st)
  moreover have "\<exists>ps. ic_posts c' = ic_posts c @ ps \<and> \<not> list_ex is_failed ps"
    using run_session_step [of env "map good_round chunks" c] c'_def by blast
  ultimately show ?thesis using n unfolding served_def by (auto simp: st)
qed

text \<open>A server with a notice, a nickname that is taken, a list of capabilities in two lines and a tagged welcome; the first connection.\<close>

definition demo_server :: "(byte list \<times> byte list \<times> server_line) list" where
  "demo_server =
     [([], asc ''srv'', Sv_other (asc ''NOTICE'') (asc ''* :Looking up'')), ([], [], Sv_ping (asc '':k'')),
      ([], asc ''srv'', Sv_nick_taken (asc ''* bob :taken'')), ([], asc ''srv'', Sv_cap (asc ''*'') Cap_ls_more (asc ''batch'')),
      ([], asc ''srv'', Sv_cap (asc ''*'') Cap_ls (asc ''sasl'')), ([], asc ''srv'', Sv_cap (asc ''*'') Cap_nak (asc ''batch'')),
      (asc ''time=x'', asc ''srv'', Sv_welcome (asc ''bob :hi''))]"

theorem irc_registers_witness:
  "sv_replies False False (map (\<lambda>(tags, from, l). l) demo_server) = [Rp_pong (asc '':k''), Rp_nick, Rp_cap_req, Rp_cap_end, Rp_join] \<and>
   ss_reached (run_session irc_demo_env (map good_round (map crlf_line (map sv_text demo_server))) (irc_demo\<lparr>ic_banner_pending := True\<rparr>))"
proof -
  have "list_all sv_ok demo_server" "list_all line_ok (map sv_text demo_server)"
    by (simp_all add: demo_server_def line_ok_def caps_ok_def)
  moreover have "length (ic_channel (irc_demo\<lparr>ic_banner_pending := True\<rparr>)) \<le> 63" by (simp add: irc_demo_def irc_client_open_def)
  moreover have "welcomes (map (\<lambda>(tags, from, l). l) demo_server) = 1" by (simp add: demo_server_def welcomes_def)
  moreover have "sv_replies False False (map (\<lambda>(tags, from, l). l) demo_server) =
      [Rp_pong (asc '':k''), Rp_nick, Rp_cap_req, Rp_cap_end, Rp_join]" by (simp add: demo_server_def)
  ultimately show ?thesis
    using irc_registers [of "irc_demo\<lparr>ic_banner_pending := True\<rparr>" demo_server "map crlf_line (map sv_text demo_server)" irc_demo_env]
    by simp
qed

subsection \<open>The policy for failures\<close>

lemma irc_step_announce: "irc_step c (announce c)"
  by (simp add: announce_def)

lemma run_session_irc_step:
  assumes "irc_step b c"
  shows "\<exists>ps. ic_posts (run_session env rs c) = ic_posts b @ ps \<and> list_all post_fits ps \<and> \<not> list_ex is_failed ps \<and>
     (ic_ever_registered (run_session env rs c) \<longleftrightarrow> ic_ever_registered b \<or> IRC_EVT_REGISTERED \<in> set ps) \<and>
     (ss_reached (run_session env rs c) \<longrightarrow> ic_ever_registered (run_session env rs c))"
proof -
  obtain ps where "ic_posts c = ic_posts b @ ps" "list_all post_fits ps" "\<not> list_ex is_failed ps"
      "ic_ever_registered c \<longleftrightarrow> ic_ever_registered b \<or> IRC_EVT_REGISTERED \<in> set ps" using assms by (auto simp: irc_step_def)
  moreover obtain qs where "ic_posts (run_session env rs c) = ic_posts c @ qs" "list_all post_fits qs" "\<not> list_ex is_failed qs"
      "ic_ever_registered (run_session env rs c) \<longleftrightarrow> ic_ever_registered c \<or> IRC_EVT_REGISTERED \<in> set qs"
      "ss_reached (run_session env rs c) \<longrightarrow> ic_ever_registered (run_session env rs c)" using run_session_step by blast
  ultimately show ?thesis by (intro exI [of _ "ps @ qs"]) auto
qed

text \<open>What the worker may post after the events \<open>old\<close>.\<close>

definition policy :: "irc_post list \<Rightarrow> bool \<Rightarrow> bool \<Rightarrow> irc_post list \<Rightarrow> bool" where
  "policy old reg done new \<longleftrightarrow>
     (\<exists>ps fs. new = old @ ps @ fs \<and> list_all post_fits (ps @ fs) \<and> \<not> list_ex is_failed ps \<and>
        (fs = [] \<or> (\<exists>t. fs = [IRC_EVT_FAILED t] \<and> t \<noteq> [] \<and> done \<and> \<not> reg \<and> IRC_EVT_REGISTERED \<notin> set ps)))"

lemma policy_done: "new = old @ ps \<Longrightarrow> list_all post_fits ps \<Longrightarrow> \<not> list_ex is_failed ps \<Longrightarrow> policy old reg d new"
  unfolding policy_def by (rule exI [of _ ps], rule exI [of _ "[]"]) simp

lemma policy_failed:
  "new = old @ ps @ [IRC_EVT_FAILED t] \<Longrightarrow> list_all post_fits ps \<Longrightarrow> \<not> list_ex is_failed ps \<Longrightarrow> IRC_EVT_REGISTERED \<notin> set ps \<Longrightarrow>
     t \<noteq> [] \<Longrightarrow> length t \<le> 127 \<Longrightarrow> policy old False True new"
  unfolding policy_def by (rule exI [of _ ps], rule exI [of _ "[IRC_EVT_FAILED t]"]) simp

lemma policy_append:
  assumes "policy (old @ ps) (reg \<or> IRC_EVT_REGISTERED \<in> set ps) d new" "list_all post_fits ps" "\<not> list_ex is_failed ps"
  shows "policy old reg d new"
proof -
  obtain qs fs where "new = (old @ ps) @ qs @ fs" "list_all post_fits (qs @ fs)" "\<not> list_ex is_failed qs"
      "fs = [] \<or> (\<exists>t. fs = [IRC_EVT_FAILED t] \<and> t \<noteq> [] \<and> d \<and> \<not> (reg \<or> IRC_EVT_REGISTERED \<in> set ps) \<and> IRC_EVT_REGISTERED \<notin> set qs)"
    using assms(1) unfolding policy_def by blast
  then show ?thesis
    unfolding policy_def using assms(2,3) by (intro exI [of _ "ps @ qs"] exI [of _ fs]) auto
qed

lemma fail_text: "fail_reason_text r \<noteq> []" "length (fail_reason_text r) \<le> 127"
  by (cases r; simp add: fail_reason_text_def)+

text \<open>
  C35: The policy for failures. Whatever the network does and whenever the viewer stops it, every event fits its structure, and a failure is
  posted at most once: as the last event, with a reason, when the worker ends and only if the client has never been registered.
  Once it was registered the worker ends only when it is told to.
\<close>

theorem irc_failure_policy:
  "case rx_thread_proc env backoff c rounds of (done, c') \<Rightarrow>
     policy (ic_posts c) (ic_ever_registered c) done (ic_posts c') \<and>
     (done \<and> ic_ever_registered c' \<longrightarrow> (\<exists>r\<in>set rounds. ir_stop r \<or> ir_stop_after r \<or> ir_stop_wait r))"
proof (induction rounds arbitrary: backoff c)
  case Nil
  show ?case using policy_done [of "ic_posts c" "ic_posts c" "[]"] by simp
next
  case (Cons r rs)
  show ?case
  proof (cases "ir_stop r")
    case True
    then show ?thesis using policy_done [of "ic_posts c" "ic_posts c" "[]"] by simp
  next
    case run: False
    define P where "P d c' \<longleftrightarrow> policy (ic_posts c) (ic_ever_registered c) d (ic_posts c') \<and>
      (d \<and> ic_ever_registered c' \<longrightarrow> (\<exists>r\<in>set (r # rs). ir_stop r \<or> ir_stop_after r \<or> ir_stop_wait r))" for d and c' :: irc
    have ex: "P d c'" if "ic_posts c' = ic_posts c @ ps" "list_all post_fits ps" "\<not> list_ex is_failed ps"
        "d \<longrightarrow> ir_stop_after r \<or> ir_stop_wait r" for ps d c'
      using that policy_done [of "ic_posts c'" "ic_posts c" ps "ic_ever_registered c" d] by (auto simp: P_def)
    have fl: "P True (post (IRC_EVT_FAILED t) c')" if "ic_posts c' = ic_posts c @ ps" "list_all post_fits ps" "\<not> list_ex is_failed ps"
        "\<not> ic_ever_registered c'" "\<not> ic_ever_registered c" "IRC_EVT_REGISTERED \<notin> set ps" "t \<noteq> []" "length t \<le> 127" for ps t c'
      using that policy_failed [of "ic_posts c' @ [IRC_EVT_FAILED t]" "ic_posts c" ps t] by (simp add: P_def post_def)
    have ih: "case rx_thread_proc env b c' rs of (d, c') \<Rightarrow> P d c'"
      if "ic_posts c' = ic_posts c @ ps" "list_all post_fits ps" "\<not> list_ex is_failed ps"
        "ic_ever_registered c' \<longleftrightarrow> ic_ever_registered c \<or> IRC_EVT_REGISTERED \<in> set ps" for ps b c'
    proof -
      obtain d e where r: "rx_thread_proc env b c' rs = (d, e)" by (cases "rx_thread_proc env b c' rs")
      have ih: "policy (ic_posts c @ ps) (ic_ever_registered c \<or> IRC_EVT_REGISTERED \<in> set ps) d (ic_posts e)"
          "d \<and> ic_ever_registered e \<longrightarrow> (\<exists>r\<in>set rs. ir_stop r \<or> ir_stop_after r \<or> ir_stop_wait r)"
        using Cons.IH [of c' b] unfolding r prod.case that(1,4) by blast+
      show ?thesis using policy_append [OF ih(1) that(2,3)] ih(2) by (simp add: r P_def)
    qed
    define c1 where "c1 = announce c"
    obtain p1 where p1: "ic_posts c1 = ic_posts c @ p1" "list_all post_fits p1" "\<not> list_ex is_failed p1"
        "ic_ever_registered c1 \<longleftrightarrow> ic_ever_registered c \<or> IRC_EVT_REGISTERED \<in> set p1"
      using irc_step_announce [of c] unfolding irc_step_def c1_def by blast
    define c3 where "c3 = run_session env (ir_rx r) (if ic_banner_pending c1 \<and> \<not> ic_ever_registered c1 then emit_system (asc ''Connected'') c1 else c1)"
    have "irc_step c (if ic_banner_pending c1 \<and> \<not> ic_ever_registered c1 then emit_system (asc ''Connected'') c1 else c1)"
      using irc_step_announce [of c] irc_step_trans [OF irc_step_announce irc_step_emit(1)] by (simp add: c1_def)
    from run_session_irc_step [OF this, of env "ir_rx r"]
    obtain p3 where p3: "ic_posts c3 = ic_posts c @ p3" "list_all post_fits p3" "\<not> list_ex is_failed p3"
        "ic_ever_registered c3 \<longleftrightarrow> ic_ever_registered c \<or> IRC_EVT_REGISTERED \<in> set p3"
      unfolding c3_def by blast
    have failed: "case (if ir_stop_after r then (True, c1)
            else if \<not> ic_ever_registered c1 then (True, post (IRC_EVT_FAILED (fail_reason_text reason)) c1)
            else if ir_stop_wait r then (True, c1) else rx_thread_proc env (next_backoff backoff) c1 rs) of (d, c') \<Rightarrow> P d c'" for reason
      using ex [OF p1(1-3), of True] fl [OF p1(1-3), of "fail_reason_text reason"] ih [OF p1, of "next_backoff backoff"] p1(4) fail_text by auto
    have connected: "case (if ir_stop_after r then (True, c3)
            else if \<not> ss_reached c3 \<and> \<not> ic_ever_registered c3
            then (True, post (IRC_EVT_FAILED (asc ''Connection closed before registration'')) c3)
            else if ir_stop_wait r then (True, c3) else rx_thread_proc env b c3 rs) of (d, c') \<Rightarrow> P d c'" for b
      using ex [OF p3(1-3), of True] fl [OF p3(1-3), of "asc ''Connection closed before registration''"] ih [OF p3, of b] p3(4) by auto
    have "rx_thread_proc env backoff c (r # rs) = (case open_socket (ir_addrs r) of
          None \<Rightarrow> (False, c1)
        | Some IRC_FAIL_NONE \<Rightarrow>
            (if ir_stop_after r then (True, c3)
            else if \<not> ss_reached c3 \<and> \<not> ic_ever_registered c3
            then (True, post (IRC_EVT_FAILED (asc ''Connection closed before registration'')) c3)
            else if ir_stop_wait r then (True, c3) else rx_thread_proc env (next_backoff (if ss_reached c3 then irc_backoff_min else backoff)) c3 rs)
        | Some reason \<Rightarrow> (if ir_stop_after r then (True, c1)
            else if \<not> ic_ever_registered c1 then (True, post (IRC_EVT_FAILED (fail_reason_text reason)) c1)
            else if ir_stop_wait r then (True, c1) else rx_thread_proc env (next_backoff backoff) c1 rs))"
      unfolding rx_thread_proc.simps Let_def c1_def [symmetric] c3_def [symmetric] using run by (simp only: if_False)
    then have "case rx_thread_proc env backoff c (r # rs) of (d, c') \<Rightarrow> P d c'"
      using connected failed ex [OF p1(1-3), of False] by (simp only: split: option.split irc_fail.split) simp
    then show ?thesis by (simp only: P_def)
  qed
qed

definition irc_demo_round :: "bool \<Rightarrow> irc_round" where
  "irc_demo_round stop = \<lparr>ir_stop = stop, ir_addrs = None, ir_rx = [], ir_stop_after = False, ir_stop_wait = False\<rparr>"

theorem irc_failure_policy_witness:
  "(let c = irc_demo; p = rx_thread_proc irc_demo_env 2000 c [irc_demo_round False] in
      fst p \<and> ic_posts (snd p) = [IRC_EVT_FAILED (asc ''Could not resolve host'')] \<and> policy [] False True (ic_posts (snd p))) \<and>
   (let c = irc_demo\<lparr>ic_ever_registered := True\<rparr>; rounds = [irc_demo_round False, irc_demo_round True];
        p = rx_thread_proc irc_demo_env 2000 c rounds in
      fst p \<and> ic_ever_registered (snd p) \<and> (\<exists>r\<in>set rounds. ir_stop r \<or> ir_stop_after r \<or> ir_stop_wait r))"
proof -
  let ?c = "irc_demo\<lparr>ic_ever_registered := True\<rparr>"
  have run: "rx_thread_proc irc_demo_env 2000 irc_demo [irc_demo_round False] =
      (True, irc_demo\<lparr>ic_posts := [IRC_EVT_FAILED (asc ''Could not resolve host'')]\<rparr>)"
    "rx_thread_proc irc_demo_env 2000 ?c [irc_demo_round False, irc_demo_round True] = (True, ?c)"
    by (simp_all add: irc_demo_round_def open_socket_def announce_def irc_demo_def irc_client_open_def post_def fail_reason_text_def)
  have f: "ic_posts irc_demo = []" "\<not> ic_ever_registered irc_demo" by (simp_all add: irc_demo_def irc_client_open_def)
  show ?thesis
    using irc_failure_policy [where env = irc_demo_env and backoff = 2000 and c = irc_demo and rounds = "[irc_demo_round False]"]
      irc_failure_policy [where env = irc_demo_env and backoff = 2000 and c = ?c and rounds = "[irc_demo_round False, irc_demo_round True]"]
    unfolding run Let_def by (simp add: f)
qed

subsection \<open>The wait for a connection and between two\<close>

text \<open>A connection attempt is decided within 91 slices of 200 ms, whatever \<open>select\<close> answers.\<close>

lemma wait_connect_decides_from:
  "18000 \<le> waited + 200 * (int (length slices) - 1) \<Longrightarrow> slices \<noteq> [] \<Longrightarrow> wait_connect waited slices \<noteq> None"
proof (induction waited slices rule: wait_connect.induct)
  case (2 waited stop sel rest)
  then show ?case by (cases "rest = []") (auto split: irc_select.split)
qed simp

lemma wait_connect_decides: "91 \<le> length slices \<Longrightarrow> wait_connect 0 slices \<noteq> None"
  by (rule wait_connect_decides_from) auto

text \<open>The pauses grow from two seconds to at most thirty.\<close>

lemma next_backoff_range:
  "irc_backoff_min \<le> b \<and> b \<le> irc_backoff_max \<Longrightarrow> irc_backoff_min \<le> next_backoff b \<and> next_backoff b \<le> irc_backoff_max \<and> b \<le> next_backoff b"
  by (auto simp: next_backoff_def irc_backoff_min_def irc_backoff_max_def)

end
