(* ===== verification/RipTab.thy ===== *)
theory RipTab
  imports RipInv CText
begin

section \<open>The RIPscrip tab\<close>

text \<open>
  \<open>ripscrip_module.c\<close>: the session, the scanner for the auto-sensing queries, the switch between the parser and the Zmodem
  receiver, regions under the mouse and the keyboard. Each message the canvas gets is an event; what other parts answer (whether a
  session or a receiver starts, the size of the canvas, the result of a transfer) comes with it. Painting, the status line, the
  connection strip and the capture file are window code.
\<close>

subsection \<open>State\<close>

text \<open>
  \<open>tb_dib\<close> is the surface the bitmap was last made from, \<open>tb_sent\<close> what the tab gave to the telnet session, \<open>tb_opened\<close> the sessions
  it asked for, and \<open>tb_zmr\<close> a running receiver with the bytes it was handed.
\<close>

record rip_tab =
  tb_telnet :: bool
  tb_connected :: bool
  tb_ever_drew :: bool
  tb_host :: "byte list"
  tb_port :: int
  tb_opened :: "(byte list \<times> int) list"
  tb_sent :: "byte list"
  tb_parser :: rip_parser
  tb_dib :: rip_ega
  tb_enabled :: bool
  tb_notice :: "byte list"
  tb_notice_persist :: bool
  tb_notice_timer :: bool
  tb_zmr :: "byte list option"
  tb_zmr_cancel :: bool
  tb_active :: bool
  tb_zmr_done :: u32
  tb_zsig_len :: nat
  tb_press_idx :: int
  tb_press_in :: bool
  tb_press_armed :: bool
  tb_capture :: bool
  tb_flash_idx :: int
  tb_flash_cmd :: "byte list"
  tb_flash_timer :: bool
  tb_esc_state :: nat
  tb_esc_digit :: byte

definition rip_dib_refresh :: "rip_tab \<Rightarrow> rip_tab" where
  "rip_dib_refresh s = s\<lparr>tb_dib := rp_surf (tb_parser s)\<rparr>"

subsection \<open>The canvas\<close>

definition rip_dest_rect :: "int \<Rightarrow> int \<Rightarrow> rect" where
  "rip_dest_rect cw cht =
     (if cw \<le> 0 \<or> cht \<le> 0 then (0, 0, 0, 0)
      else
        let dh0 = cdiv (wrap32 (cw * 480)) 640;
            (dw, dh) = (if dh0 > cht then (cdiv (wrap32 (cht * 640)) 480, cht) else (cw, dh0));
            l = cdiv (cw - dw) 2; t = cdiv (cht - dh) 2
        in (l, t, l + dw, t + dh))"

definition rip_client_to_surface :: "int \<Rightarrow> int \<Rightarrow> int \<Rightarrow> int \<Rightarrow> (int \<times> int) option" where
  "rip_client_to_surface cw cht px py =
     (if cw \<le> 0 \<or> cht \<le> 0 then None
      else case rip_dest_rect cw cht of (l, t, r, b) \<Rightarrow>
        let dw = r - l; dh = b - t in
        if dw \<le> 0 \<or> dh \<le> 0 then None
        else if px < l \<or> px \<ge> r then None
        else if py < t \<or> py \<ge> b then None
        else
          let sx = cdiv (wrap32 ((px - l) * rip_ega_w)) dw; sy = cdiv (wrap32 ((py - t) * rip_ega_h)) dh;
              sx1 = (if sx < 0 then 0 else sx); sy1 = (if sy < 0 then 0 else sy)
          in Some (if sx1 > rip_ega_w - 1 then rip_ega_w - 1 else sx1, if sy1 > rip_ega_h - 1 then rip_ega_h - 1 else sy1))"

subsection \<open>Sending and notices\<close>

definition rip_send_raw :: "byte list \<Rightarrow> rip_tab \<Rightarrow> rip_tab" where
  "rip_send_raw buf s = (if tb_telnet s \<and> buf \<noteq> [] then s\<lparr>tb_sent := tb_sent s @ buf\<rparr> else s)"

definition rip_notice_set :: "byte list \<Rightarrow> bool \<Rightarrow> rip_tab \<Rightarrow> rip_tab" where
  "rip_notice_set msg persist s = s\<lparr>tb_notice := take 127 msg, tb_notice_persist := persist, tb_notice_timer := \<not> persist\<rparr>"

definition rip_notice_clear :: "rip_tab \<Rightarrow> rip_tab" where
  "rip_notice_clear s = s\<lparr>tb_notice := [], tb_notice_persist := False, tb_notice_timer := False\<rparr>"

subsection \<open>The pressed look\<close>

definition rip_count_blocked :: "rip_tab \<Rightarrow> rip_tab" where
  "rip_count_blocked s = s\<lparr>tb_parser := count (st_download_blocked_update (\<lambda>n. n + 1)) (tb_parser s)\<rparr>"

definition flip_region :: "int \<Rightarrow> rip_parser \<Rightarrow> rip_parser" where
  "flip_region idx p =
     (if idx < 0 \<or> idx \<ge> int (length (rp_buttons p)) then p
      else
        let b = rp_buttons p ! nat idx in
        if \<not> rb_invert b then p
        else case rb_image b of (ix0, iy0, ix1, iy1) \<Rightarrow>
          if ix1 < ix0 \<or> iy1 < iy0 then p
          else p\<lparr>rp_surf := rip_ega_invert_rect (rp_surf p) ix0 iy0 ix1 iy1\<rparr>)"

definition rip_press_flip_quiet :: "int \<Rightarrow> rip_tab \<Rightarrow> rip_tab" where
  "rip_press_flip_quiet idx s = s\<lparr>tb_parser := flip_region idx (tb_parser s)\<rparr>"

definition rip_press_flip :: "int \<Rightarrow> rip_tab \<Rightarrow> rip_tab" where
  "rip_press_flip idx s =
     (if idx < 0 \<or> idx \<ge> int (length (rp_buttons (tb_parser s))) then s
      else if \<not> rb_invert (rp_buttons (tb_parser s) ! nat idx) then s
      else rip_dib_refresh (rip_press_flip_quiet idx s))"

definition rip_press_clear :: "rip_tab \<Rightarrow> rip_tab" where
  "rip_press_clear s =
     (let s1 = (if tb_press_in s then rip_press_flip (tb_press_idx s) s else s)
      in s1\<lparr>tb_press_idx := -1, tb_press_in := False, tb_press_armed := False\<rparr>)"

definition rip_press_abandon :: "rip_tab \<Rightarrow> rip_tab" where
  "rip_press_abandon s =
     (let s1 = (if tb_flash_idx s \<ge> 0 then s\<lparr>tb_flash_timer := False\<rparr> else s)
      in s1\<lparr>tb_flash_idx := -1, tb_flash_cmd := [], tb_press_idx := -1, tb_press_in := False, tb_press_armed := False\<rparr>)"

definition rip_press_cancel_for_redraw :: "rip_tab \<Rightarrow> rip_tab" where
  "rip_press_cancel_for_redraw s =
     (if tb_press_idx s < 0 \<and> tb_flash_idx s < 0 then s
      else rip_press_abandon (if tb_press_in s then rip_press_flip (tb_press_idx s) s else s))"

text \<open>The saved press is the index and the region.\<close>

definition rip_press_suspend :: "rip_tab \<Rightarrow> (int \<times> rip_button) option \<times> rip_tab" where
  "rip_press_suspend s =
     (if \<not> tb_press_in s \<or> tb_press_idx s < 0 \<or> tb_press_idx s \<ge> int (length (rp_buttons (tb_parser s))) then (None, s)
      else (Some (tb_press_idx s, rp_buttons (tb_parser s) ! nat (tb_press_idx s)), rip_press_flip_quiet (tb_press_idx s) s))"

definition rip_press_resume :: "(int \<times> rip_button) option \<Rightarrow> rip_tab \<Rightarrow> bool \<times> rip_tab" where
  "rip_press_resume sv s =
     (case sv of
        None \<Rightarrow> (False, s)
      | Some (idx, btn) \<Rightarrow>
          if idx \<ge> int (length (rp_buttons (tb_parser s))) then (True, rip_press_abandon s)
          else
            let now = rp_buttons (tb_parser s) ! nat idx in
            if rb_image now \<noteq> rb_image btn \<or> rb_invert now \<noteq> rb_invert btn \<or> rb_command now \<noteq> rb_command btn
            then (True, rip_press_abandon s)
            else (False, rip_press_flip_quiet idx s))"

subsection \<open>Commands and the receiver\<close>

text \<open>\<open>started\<close> says whether \<open>zmodem_recv_start\<close> succeeds.\<close>

definition rip_zmodem_begin :: "bool \<Rightarrow> byte list \<Rightarrow> rip_tab \<Rightarrow> bool \<times> rip_tab" where
  "rip_zmodem_begin started why s =
     (if tb_active s \<or> tb_zmr s \<noteq> None then (False, s)
      else if \<not> tb_connected s \<or> \<not> tb_telnet s then (False, s)
      else
        let s1 = rip_press_cancel_for_redraw s in
        if \<not> started then (False, s1\<lparr>tb_zmr := None\<rparr>)
        else (True, rip_notice_set why True (s1\<lparr>tb_zmr := Some [], tb_zmr_cancel := False, tb_active := True, tb_zsig_len := 0\<rparr>)))"

definition rip_send_command :: "bool \<Rightarrow> byte list \<Rightarrow> rip_tab \<Rightarrow> rip_tab" where
  "rip_send_command started cmd s =
     (if \<not> tb_connected s \<or> \<not> tb_telnet s \<or> cmd = [] then s
      else if tb_active s then s
      else
        let (ok, s1) = (if rip_command_is_download cmd then rip_zmodem_begin started (asc ''Starting download...'') s else (True, s)) in
        if \<not> ok then rip_notice_set (asc ''Download could not be started'') False (rip_count_blocked s1)
        else
          let s2 = rip_send_raw cmd s1
          in if last cmd \<noteq> 0x0D \<and> last cmd \<noteq> 0x0A then rip_send_raw [0x0D] s2 else s2)"

definition rip_activate_region :: "bool \<Rightarrow> int \<Rightarrow> rip_tab \<Rightarrow> rip_tab" where
  "rip_activate_region started idx s =
     (if idx < 0 \<or> idx \<ge> int (length (rp_buttons (tb_parser s))) then s
      else rip_send_command started (rb_command (rp_buttons (tb_parser s) ! nat idx)) s)"

definition rip_hotkey_activate :: "bool \<Rightarrow> int \<Rightarrow> rip_tab \<Rightarrow> rip_tab" where
  "rip_hotkey_activate started idx s =
     (if idx < 0 \<or> idx \<ge> int (length (rp_buttons (tb_parser s))) then s
      else
        let s1 = rip_press_cancel_for_redraw s; b = rp_buttons (tb_parser s1) ! nat idx in
        if \<not> rb_invert b then rip_activate_region started idx s1
        else
          let s2 = s1\<lparr>tb_flash_cmd := take 47 (rb_command b), tb_flash_idx := idx, tb_press_idx := idx, tb_press_in := True,
                      tb_press_armed := False\<rparr>
          in (rip_press_flip idx s2)\<lparr>tb_flash_timer := True\<rparr>)"

subsection \<open>The scanner for queries\<close>

definition rip_version_answer :: "byte list" where
  "rip_version_answer = asc ''RIPSCRIP015400''"

text \<open>What the byte releases to the parser, itself last, or none where it is held or used up.\<close>

definition rip_scan :: "byte \<Rightarrow> rip_tab \<Rightarrow> byte list option \<times> rip_tab" where
  "rip_scan b s =
     (let s0 = s\<lparr>tb_esc_state := 0\<rparr> in
      if tb_esc_state s = 0 then
        (if b = 0x1B then (None, s\<lparr>tb_esc_state := 1\<rparr>) else (Some [], s))
      else if tb_esc_state s = 1 then
        (if b = 0x5B then (None, s\<lparr>tb_esc_state := 2\<rparr>) else (Some [0x1B], s0))
      else if tb_esc_state s = 2 then
        (if b = 0x21 then (None, (rip_send_raw rip_version_answer s)\<lparr>tb_esc_state := 0\<rparr>)
         else if 0x30 \<le> b \<and> b \<le> 0x32 then (None, s\<lparr>tb_esc_digit := b, tb_esc_state := 3\<rparr>)
         else (Some [0x1B, 0x5B], s0))
      else
        (if b = 0x21 then
           (None, (if tb_esc_digit s = 0x30 then rip_send_raw rip_version_answer s
                   else if tb_esc_digit s = 0x31 then s\<lparr>tb_enabled := False\<rparr>
                   else if tb_esc_digit s = 0x32 then s\<lparr>tb_enabled := True\<rparr>
                   else s)\<lparr>tb_esc_state := 0\<rparr>)
         else (Some [0x1B, 0x5B, tb_esc_digit s], s0)))"

definition rip_out_size :: nat where "rip_out_size = 8192"

definition put_out :: "byte list \<Rightarrow> byte list \<Rightarrow> byte list" where
  "put_out out bs = (if length out + length bs \<le> rip_out_size then out @ bs else out)"

definition rip_flush :: "rip_env \<Rightarrow> byte list \<Rightarrow> bool \<times> rip_tab \<Rightarrow> bool \<times> rip_tab" where
  "rip_flush ev out ds =
     (case ds of (drew, s) \<Rightarrow>
        if tb_enabled s then (case rip_parser_feed ev (tb_parser s) out of (d, p) \<Rightarrow> (drew \<or> d, s\<lparr>tb_parser := p\<rparr>))
        else (drew, s))"

definition consume_byte :: "rip_env \<Rightarrow> byte list \<times> bool \<times> rip_tab \<Rightarrow> byte \<Rightarrow> byte list \<times> bool \<times> rip_tab" where
  "consume_byte ev st b =
     (case st of (out, drew, s) \<Rightarrow>
        case rip_scan b s of
          (None, s1) \<Rightarrow> (out, drew, s1)
        | (Some held, s1) \<Rightarrow>
            let out1 = put_out (put_out out held) [b] in
            if length out1 = rip_out_size then ([], rip_flush ev out1 (drew, s1)) else (out1, drew, s1))"

definition rip_consume :: "rip_env \<Rightarrow> byte list \<Rightarrow> rip_tab \<Rightarrow> bool \<times> rip_tab" where
  "rip_consume ev data s =
     (case foldl (consume_byte ev) ([], False, s) data of
        (out, ds) \<Rightarrow> if out \<noteq> [] then rip_flush ev out ds else ds)"

subsection \<open>Sessions\<close>

definition rip_zmodem_abandon :: "rip_tab \<Rightarrow> rip_tab" where
  "rip_zmodem_abandon s =
     (if tb_zmr s = None then s\<lparr>tb_active := False\<rparr>
      else rip_notice_clear (s\<lparr>tb_zmr := None, tb_zmr_cancel := False, tb_active := False, tb_zsig_len := 0\<rparr>))"

definition rip_close_session :: "rip_tab \<Rightarrow> rip_tab" where
  "rip_close_session s =
     (let s1 = (if tb_active s \<or> tb_zmr s \<noteq> None then rip_zmodem_abandon s else s);
          s2 = rip_press_cancel_for_redraw s1
      in s2\<lparr>tb_telnet := False, tb_connected := False, tb_esc_state := 0, tb_zsig_len := 0, tb_ever_drew := False\<rparr>)"

definition rip_do_connect :: "byte list \<Rightarrow> byte list \<Rightarrow> bool \<Rightarrow> rip_tab \<Rightarrow> rip_tab" where
  "rip_do_connect host_text port_text opened s =
     (if tb_connected s \<or> tb_telnet s then s
      else
        let host = take 255 host_text; port0 = atoi (take 15 port_text) in
        if host = [] then s
        else
          let port = (if port0 \<le> 0 \<or> port0 > 65535 then 23 else port0);
              s1 = rip_press_cancel_for_redraw (s\<lparr>tb_host := host, tb_port := port\<rparr>);
              s2 = rip_dib_refresh (s1\<lparr>tb_parser := rip_parser_init (rp_surf (tb_parser s1)), tb_enabled := True, tb_ever_drew := False,
                     tb_zsig_len := 0\<rparr>)
          in s2\<lparr>tb_opened := tb_opened s2 @ [(host, port)], tb_telnet := opened\<rparr>)"

subsection \<open>What arrives\<close>

definition rip_sig :: "byte list" where "rip_sig = [0x2A, 0x2A, 0x18, 0x42]"

text \<open>The offset just past the signature, and how much of it has been seen.\<close>

fun rip_scan_for_zmodem :: "nat \<Rightarrow> nat \<Rightarrow> byte list \<Rightarrow> nat option \<times> nat" where
  "rip_scan_for_zmodem i k [] = (None, k)"
| "rip_scan_for_zmodem i k (b # bs) =
     (if k < 4 \<and> b = rip_sig ! k then
        (if Suc k = 4 then (Some (Suc i), 0) else rip_scan_for_zmodem (Suc i) (Suc k) bs)
      else rip_scan_for_zmodem (Suc i) (if b = rip_sig ! 0 then 1 else 0) bs)"

definition rip_feed_scene :: "rip_env \<Rightarrow> byte list \<Rightarrow> rip_tab \<Rightarrow> rip_tab" where
  "rip_feed_scene ev data s =
     (let (sv, s1) = rip_press_suspend s;
          (drew, s2) = rip_consume ev data s1;
          (forced, s3) = rip_press_resume sv s2;
          s4 = (if drew \<or> forced then rip_dib_refresh s3 else s3)
      in if drew then s4\<lparr>tb_ever_drew := True\<rparr> else s4)"

definition rip_push :: "byte list \<Rightarrow> rip_tab \<Rightarrow> rip_tab" where
  "rip_push data s = s\<lparr>tb_zmr := map_option (\<lambda>p. p @ data) (tb_zmr s)\<rparr>"

definition rip_on_data :: "rip_env \<Rightarrow> bool \<Rightarrow> byte list \<Rightarrow> rip_tab \<Rightarrow> rip_tab" where
  "rip_on_data ev started data s =
     (if tb_active s then rip_push data s
      else if data = [] then s
      else case rip_scan_for_zmodem 0 (tb_zsig_len s) data of
        (None, k) \<Rightarrow> rip_feed_scene ev data (s\<lparr>tb_zsig_len := k\<rparr>)
      | (Some n, k) \<Rightarrow>
          let (sv, s1) = rip_press_suspend (s\<lparr>tb_zsig_len := k\<rparr>);
              s2 = snd (rip_consume ev (take n data) s1);
              s3 = rip_dib_refresh (snd (rip_press_resume sv s2));
              (ok, s4) = rip_zmodem_begin started (asc ''Receiving file...'') s3
          in if ok then (if n < length data then rip_push (drop n data) s4 else s4)
             else if drop n data \<noteq> [] then rip_feed_scene ev (drop n data) s4
             else s4)"

record zmr_progress =
  zp_name :: "byte list"
  zp_received :: "64 word"
  zp_total :: "64 word"

record zmr_outcome =
  zo_ok :: bool
  zo_name :: "byte list"
  zo_received :: "64 word"
  zo_detail :: "byte list"
  zo_tail :: "byte list"

definition num :: "64 word \<Rightarrow> byte list" where "num w = dec_bytes (unat w)"

definition rip_on_zmr_progress :: "zmr_progress \<Rightarrow> rip_tab \<Rightarrow> rip_tab" where
  "rip_on_zmr_progress p s =
     (if \<not> tb_active s then s
      else
        let name = (if zp_name p \<noteq> [] then zp_name p else asc ''file'');
            pct0 = sint (ucast (zp_received p * 100 div zp_total p) :: 32 word);
            pct = (if pct0 > 100 then 100 else pct0);
            pct_text = (if pct < 0 then 0x2D # dec_bytes (nat (- pct)) else dec_bytes (nat pct));
            line = (if zp_total p > 0
              then asc ''Receiving '' @ name @ asc ''  '' @ pct_text @ asc ''%  ('' @ num (zp_received p) @ asc '' of '' @ num (zp_total p) @ asc '' bytes)''
              else asc ''Receiving '' @ name @ asc ''  '' @ num (zp_received p) @ asc '' bytes'')
        in rip_notice_set (take 127 line) True s)"

text \<open>The result is none where \<open>zmodem_recv_finish\<close> gives none.\<close>

definition rip_on_zmr_done :: "rip_env \<Rightarrow> zmr_outcome option \<Rightarrow> rip_tab \<Rightarrow> rip_tab" where
  "rip_on_zmr_done ev res s =
     (if tb_zmr s = None then s\<lparr>tb_active := False\<rparr>
      else
        let s1 = s\<lparr>tb_zmr := None, tb_zmr_cancel := False, tb_active := False, tb_zsig_len := 0\<rparr> in
        case res of
          None \<Rightarrow> rip_notice_clear s1
        | Some r \<Rightarrow>
            let s2 = (if zo_ok r
                 then rip_notice_set (take 159 (asc ''Saved '' @ zo_name r @ asc '' ('' @ num (zo_received r) @ asc '' bytes)'')) False
                        (s1\<lparr>tb_zmr_done := tb_zmr_done s1 + 1\<rparr>)
                 else rip_notice_set (take 159 (asc ''Download stopped: '' @ zo_detail r)) False (rip_count_blocked s1))
            in if zo_tail r \<noteq> [] then rip_feed_scene ev (zo_tail r) s2 else s2)"

subsection \<open>Messages\<close>

definition rip_ascii_from_vk :: "int \<Rightarrow> bool \<Rightarrow> bool \<Rightarrow> byte" where
  "rip_ascii_from_vk vk shift caps =
     (if 0x41 \<le> vk \<and> vk \<le> 0x5A then (if shift \<noteq> caps then word_of_int vk else word_of_int (vk + 32))
      else if 0x30 \<le> vk \<and> vk \<le> 0x39 \<and> \<not> shift then word_of_int vk
      else if vk = 0x20 then 0x20
      else if vk = 0x0D then 0x0D
      else if vk = 0x08 then 0x08
      else if vk = 0xBD \<and> \<not> shift then 0x2D
      else 0)"

text \<open>Positions come with the size of the canvas.\<close>

datatype rip_event =
    Mouse_down int int int int
  | Mouse_move int int int int
  | Mouse_up bool
  | Capture_changed
  | Key_down int bool bool bool
  | Flash_timer bool
  | Notice_timer
  | Tel_connected
  | Tel_data "byte list" bool
  | Tel_error
  | Tel_closed
  | Zmr_progress zmr_progress
  | Zmr_done "zmr_outcome option"
  | Connect "byte list" "byte list" bool
  | Disconnect

definition region_under :: "int \<Rightarrow> int \<Rightarrow> int \<Rightarrow> int \<Rightarrow> rip_tab \<Rightarrow> int" where
  "region_under cw cht px py s =
     (case rip_client_to_surface cw cht px py of
        None \<Rightarrow> -1
      | Some (sx, sy) \<Rightarrow> rip_button_at (tb_parser s) sx sy)"

definition rip_on_mouse_down :: "int \<Rightarrow> int \<Rightarrow> int \<Rightarrow> int \<Rightarrow> rip_tab \<Rightarrow> rip_tab" where
  "rip_on_mouse_down cw cht px py s =
     (if \<not> tb_connected s \<or> tb_active s then s
      else
        let s1 = rip_press_cancel_for_redraw s; idx = region_under cw cht px py s1 in
        if idx \<ge> 0 then rip_press_flip idx (s1\<lparr>tb_press_idx := idx, tb_press_armed := True, tb_press_in := True, tb_capture := True\<rparr>)
        else s1)"

definition rip_on_mouse_move :: "int \<Rightarrow> int \<Rightarrow> int \<Rightarrow> int \<Rightarrow> rip_tab \<Rightarrow> rip_tab" where
  "rip_on_mouse_move cw cht px py s =
     (if \<not> tb_press_armed s \<or> tb_press_idx s < 0 then s
      else
        let inside = (rip_client_to_surface cw cht px py \<noteq> None \<and> region_under cw cht px py s = tb_press_idx s) in
        if inside \<noteq> tb_press_in s then (rip_press_flip (tb_press_idx s) s)\<lparr>tb_press_in := inside\<rparr> else s)"

text \<open>Releasing the capture sends \<open>WM_CAPTURECHANGED\<close>.\<close>

definition rip_on_mouse_up :: "bool \<Rightarrow> rip_tab \<Rightarrow> rip_tab" where
  "rip_on_mouse_up started s =
     (let idx = tb_press_idx s; activate = (tb_press_armed s \<and> tb_press_in s \<and> idx \<ge> 0);
          s1 = (if tb_capture s then rip_press_clear (s\<lparr>tb_capture := False\<rparr>) else s);
          s2 = rip_press_clear s1
      in if activate then rip_activate_region started idx s2 else s2)"

definition on_key_down :: "int \<Rightarrow> bool \<Rightarrow> bool \<Rightarrow> bool \<Rightarrow> rip_tab \<Rightarrow> rip_tab" where
  "on_key_down vk shift caps started s =
     (if \<not> tb_connected s \<or> \<not> tb_telnet s then s
      else if tb_active s then (if vk = 0x1B then s\<lparr>tb_zmr_cancel := True\<rparr> else s)
      else
        let c = rip_ascii_from_vk vk shift caps in
        if c \<noteq> 0 then
          let idx = rip_button_by_hotkey (tb_parser s) (uint c) in
          if idx \<ge> 0 then rip_hotkey_activate started idx s
          else if rp_buttons (tb_parser s) = [] then rip_send_raw [c] s
          else s
        else s)"

definition on_flash_timer :: "bool \<Rightarrow> rip_tab \<Rightarrow> rip_tab" where
  "on_flash_timer started s =
     (let s1 = rip_press_clear (s\<lparr>tb_flash_timer := False\<rparr>) in
      if tb_flash_idx s1 \<ge> 0 \<and> tb_flash_cmd s1 \<noteq> [] then
        (rip_send_command started (tb_flash_cmd s1) (s1\<lparr>tb_flash_idx := -1, tb_flash_cmd := []\<rparr>))\<lparr>tb_flash_idx := -1\<rparr>
      else s1\<lparr>tb_flash_idx := -1\<rparr>)"

definition rip_tab_step :: "rip_env \<Rightarrow> rip_tab \<Rightarrow> rip_event \<Rightarrow> rip_tab" where
  "rip_tab_step ev s e =
     (case e of
        Mouse_down cw cht px py \<Rightarrow> rip_on_mouse_down cw cht px py s
      | Mouse_move cw cht px py \<Rightarrow> rip_on_mouse_move cw cht px py s
      | Mouse_up started \<Rightarrow> rip_on_mouse_up started s
      | Capture_changed \<Rightarrow> rip_press_clear (s\<lparr>tb_capture := False\<rparr>)
      | Key_down vk shift caps started \<Rightarrow> on_key_down vk shift caps started s
      | Flash_timer started \<Rightarrow> on_flash_timer started s
      | Notice_timer \<Rightarrow> s\<lparr>tb_notice := [], tb_notice_timer := False\<rparr>
      | Tel_connected \<Rightarrow> s\<lparr>tb_connected := True\<rparr>
      | Tel_data data started \<Rightarrow> rip_on_data ev started data s
      | Tel_error \<Rightarrow> s
      | Tel_closed \<Rightarrow> rip_close_session s
      | Zmr_progress p \<Rightarrow> rip_on_zmr_progress p s
      | Zmr_done res \<Rightarrow> rip_on_zmr_done ev res s
      | Connect host port opened \<Rightarrow> rip_do_connect host port opened s
      | Disconnect \<Rightarrow> if tb_telnet s \<or> tb_connected s then rip_close_session s else s)"

definition rip_tab_init :: "rip_ega \<Rightarrow> rip_tab" where
  "rip_tab_init surf =
     rip_dib_refresh
       \<lparr>tb_telnet = False, tb_connected = False, tb_ever_drew = False, tb_host = asc ''ripscrip.greektimes.ca'', tb_port = 23,
        tb_opened = [], tb_sent = [], tb_parser = rip_parser_init surf, tb_dib = surf, tb_enabled = True, tb_notice = [],
        tb_notice_persist = False, tb_notice_timer = False, tb_zmr = None, tb_zmr_cancel = False, tb_active = False,
        tb_zmr_done = 0, tb_zsig_len = 0, tb_press_idx = -1, tb_press_in = False, tb_press_armed = False, tb_capture = False,
        tb_flash_idx = -1, tb_flash_cmd = [], tb_flash_timer = False, tb_esc_state = 0, tb_esc_digit = 0\<rparr>"

end
