(* ===== verification/RipTabInv.thy ===== *)
theory RipTabInv
  imports RipTab
begin

section \<open>The RIPscrip tab: the scanner, the pressed look, what the host sends\<close>

text \<open>
  The facts the properties of the tab rest on. The parser keeps the cells of the surface palette indices and reports every change of the
  picture; nothing it does depends on the counter of refused downloads; a chunk goes through the scanner to the parser in one piece; the pressed
  look comes off and goes back without a trace.
\<close>

subsection \<open>Palette indices\<close>

definition nib :: "rip_ega \<Rightarrow> bool" where
  "nib s \<longleftrightarrow> (\<forall>a\<in>screen. eg_pix s a \<le> 15)"

lemma draws_nib: "draws s s' \<Longrightarrow> nib s \<Longrightarrow> nib s'"
  by (auto simp: draws_def nib_def)

lemma erase_row_nib: "nib s \<Longrightarrow> nib (erase_row s y)"
  by (auto simp: nib_def erase_row_def Let_def mem_fill_apply)

lemma erase_view_nib: "nib s \<Longrightarrow> nib (rip_ega_erase_view s)"
proof -
  have "nib s \<Longrightarrow> nib (foldl erase_row s ys)" for ys
    by (induction ys arbitrary: s) (auto intro: erase_row_nib)
  then show "nib s \<Longrightarrow> ?thesis" by (simp add: rip_ega_erase_view_def)
qed

lemma reset_nib: "nib (rip_ega_reset s)"
  by (auto simp: nib_def rip_ega_reset_def mem_fill_apply screen_def)

lemma invert_nib: "nib s \<Longrightarrow> nib (rip_ega_invert_rect s x0 y0 x1 y1)"
proof -
  have row: "nib s \<Longrightarrow> nib (invert_row a b s y)" for a b s y
    by (auto simp: nib_def invert_row_def nibble_le)
  have "nib s \<Longrightarrow> nib (foldl (invert_row a b) s ys)" for a b ys
    by (induction ys arbitrary: s) (auto intro: row)
  then show "nib s \<Longrightarrow> ?thesis" by (simp add: rip_ega_invert_rect_def Let_def split_beta)
qed

lemma exec_nib: "nib (rp_surf p) \<Longrightarrow> nib (rp_surf (snd (rip_exec ev p level cmd a pts tx)))"
proof -
  assume n: "nib (rp_surf p)"
  have "nib (rp_surf (snd (exec_state p cmd a)))"
    unfolding exec_state_def needs_def on_surf_def rip_parser_reset_def
    using n reset_nib erase_view_nib [OF n] by (auto simp: nib_def rip_ega_set_viewport_def Let_def split_beta)
  moreover have "nib (rp_surf (snd (exec_style p cmd a)))"
    unfolding exec_style_def needs_def on_surf_def Let_def
    using n by (auto simp: nib_def rip_ega_set_palette16_def rip_ega_set_one_palette_def)
  ultimately show ?thesis
    using n draws_nib [OF primitive_draws n] draws_nib [OF exec_text_draws n] draws_nib [OF exec_curve_draws n] draws_nib [OF level1_draws n]
    by (simp add: rip_exec_def)
qed

lemma run_line_nib: "nib (rp_surf p) \<Longrightarrow> nib (rp_surf (snd (rip_run_line ev p body)))"
proof -
  have act: "nib (rp_surf (snd dp)) \<Longrightarrow> nib (rp_surf (snd (run_action ev dp act)))" for dp act
  proof (cases act)
    case (Exec level cmd a pts tx)
    assume n: "nib (rp_surf (snd dp))"
    then have "nib (rp_surf (snd (rip_exec ev (count (st_commands_update (\<lambda>n. n + 1)) (snd dp)) level cmd a pts tx)))"
      by (intro exec_nib) simp
    then show ?thesis using Exec by (auto simp: run_action_def split_beta split: bool.split)
  qed (auto simp: run_action_def split_beta)
  have "nib (rp_surf (snd dp)) \<Longrightarrow> nib (rp_surf (snd (foldl (run_action ev) dp acts)))" for dp acts
  proof (induction acts arbitrary: dp)
    case (Cons a acts)
    show ?case using Cons.IH [OF act [OF Cons.prems]] by simp
  qed simp
  then show "nib (rp_surf p) \<Longrightarrow> ?thesis" by (simp add: rip_run_line_def)
qed

lemma handle_line_nib: "nib (rp_surf p) \<Longrightarrow> nib (rp_surf (snd (rip_handle_line ev p line)))"
  by (auto simp: rip_handle_line_def run_line_nib split: option.split)

lemma step_nib: "nib (rp_surf p) \<Longrightarrow> nib (rp_surf (rip_step ev p c))"
  using handle_line_nib [of "p\<lparr>rp_last_was_cr := b\<rparr>" ev "rp_line p" for b]
  by (auto simp: rip_step_def rip_feed_byte_def Let_def split_beta)

lemma feed_nib: "nib (rp_surf p) \<Longrightarrow> nib (rp_surf (snd (rip_parser_feed ev p bs)))"
proof -
  have "nib (rp_surf p) \<Longrightarrow> nib (rp_surf (foldl (rip_step ev) p bs))"
    by (induction bs arbitrary: p) (auto intro: step_nib)
  then show "nib (rp_surf p) \<Longrightarrow> ?thesis" by (simp add: rip_parser_feed_def feed_snd)
qed

subsection \<open>What is not reported as drawn has not changed the picture\<close>

definition look :: "rip_ega \<Rightarrow> (int \<Rightarrow> byte) \<times> byte list" where
  "look s = (eg_pix s, eg_pal16 s)"

definition calm :: "rip_parser \<Rightarrow> bool \<times> rip_parser \<Rightarrow> bool" where
  "calm p q \<longleftrightarrow> fst q \<or> look (rp_surf (snd q)) = look (rp_surf p)"

lemma calm_if: "calm p x \<Longrightarrow> calm p y \<Longrightarrow> calm p (if b then x else y)"
  by simp

lemma calm_basic: "calm p (malformed p)" "calm p (on_surf p s)" "calm p (on_curve p s)" "calm p r \<Longrightarrow> calm p (needs n p a r)"
  by (simp_all add: calm_def on_surf_def on_curve_def needs_def)

lemma exec_look: "\<not> fst (rip_exec ev p level cmd a pts tx) \<Longrightarrow> look (rp_surf (snd (rip_exec ev p level cmd a pts tx))) = look (rp_surf p)"
proof -
  have button: "calm p (exec_button ev p a tx)"
    by (auto simp: exec_button_def Let_def split_beta rip_button_draw_def calm_def split: if_splits)
  have level1: "calm p (rip_exec_level1 ev p cmd a tx)"
    unfolding rip_exec_level1_def exec_button_style_def exec_mouse_def Let_def
    by (intro calm_if button calm_basic) (simp_all add: calm_def)
  have state: "calm p (exec_state p cmd a)"
    unfolding exec_state_def
    by (intro calm_if calm_basic) (simp_all add: calm_def look_def rip_ega_set_viewport_def Let_def split_beta)
  have style: "calm p (exec_style p cmd a)"
    unfolding exec_style_def Let_def by (intro calm_if calm_basic) (simp_all add: calm_def)
  have primitive: "calm p (exec_primitive ev p cmd a pts)"
    unfolding exec_primitive_def Let_def by (intro calm_if calm_basic)
  have tx: "calm p (text_at_cursor ev q t)" for q t by (simp add: calm_def text_at_cursor_def split_beta)
  have words: "calm p (exec_text ev p cmd a tx)"
    unfolding exec_text_def Let_def by (intro calm_if calm_basic tx) (simp_all add: calm_def)
  have curve: "calm p (exec_curve ev p cmd a)"
    unfolding exec_curve_def Let_def by (intro calm_if calm_basic)
  have "calm p (rip_exec ev p level cmd a pts tx)"
    unfolding rip_exec_def by (intro calm_if level1 state style primitive words curve) (simp_all add: calm_def)
  then show "\<not> fst (rip_exec ev p level cmd a pts tx) \<Longrightarrow> ?thesis" by (simp add: calm_def)
qed

lemma run_action_look: "fst (run_action ev dp act) \<or> look (rp_surf (snd (run_action ev dp act))) = look (rp_surf (snd dp))"
proof (cases act)
  case (Exec level cmd a pts tx)
  then show ?thesis
    using exec_look [of ev "count (st_commands_update (\<lambda>n. n + 1)) (snd dp)" level cmd a pts tx]
    by (auto simp: run_action_def split_beta split: bool.split)
qed (auto simp: run_action_def split_beta)

lemma run_action_sticky: "fst dp \<Longrightarrow> fst (run_action ev dp act)"
  by (auto simp: run_action_def split_beta split: rip_action.split bool.split)

lemma run_line_look: "fst (rip_run_line ev p body) \<or> look (rp_surf (snd (rip_run_line ev p body))) = look (rp_surf p)"
proof -
  have st: "fst dp \<Longrightarrow> fst (foldl (run_action ev) dp acts)" for dp acts
  proof (induction acts arbitrary: dp)
    case (Cons a acts)
    show ?case using Cons.IH [OF run_action_sticky [OF Cons.prems]] by simp
  qed simp
  have "fst (foldl (run_action ev) dp acts) \<or> look (rp_surf (snd (foldl (run_action ev) dp acts))) = look (rp_surf (snd dp))" for dp acts
  proof (induction acts arbitrary: dp)
    case (Cons act acts)
    show ?case using Cons.IH [of "run_action ev dp act"] run_action_look [of ev dp act] st [of "run_action ev dp act" acts]
      by (cases "fst (run_action ev dp act)") simp_all
  qed simp
  from this [of "(False, p)"] show ?thesis by (simp add: rip_run_line_def)
qed

lemma handle_line_look: "fst (rip_handle_line ev p l) \<or> look (rp_surf (snd (rip_handle_line ev p l))) = look (rp_surf p)"
  using run_line_look by (auto simp: rip_handle_line_def split: option.split)

lemma feed_byte_look: "fst (rip_feed_byte ev (False, p) c) \<or> look (rp_surf (snd (rip_feed_byte ev (False, p) c))) = look (rp_surf p)"
proof -
  have line: "fst (rip_handle_line ev (p\<lparr>rp_last_was_cr := b\<rparr>) l) \<or>
      look (rp_surf (snd (rip_handle_line ev (p\<lparr>rp_last_was_cr := b\<rparr>) l))) = look (rp_surf p)" for b l
    using handle_line_look [of ev "p\<lparr>rp_last_was_cr := b\<rparr>" l] by simp
  show ?thesis
    unfolding rip_feed_byte_def Let_def prod.case split_beta
    using line [of True "rp_line p"] line [of False "rp_line p"] line [of False "[]"] line [of True "[]"] by simp
qed

text \<open>Feeding, with what was drawn before.\<close>

lemma feed_byte_drew: "rip_feed_byte ev (d, p) c = (d \<or> fst (rip_feed_byte ev (False, p) c), snd (rip_feed_byte ev (False, p) c))"
  by (auto simp: rip_feed_byte_def Let_def split_beta)

lemma feed_from: "foldl (rip_feed_byte ev) (d, p) bs = (d \<or> fst (rip_parser_feed ev p bs), snd (rip_parser_feed ev p bs))"
proof (induction bs arbitrary: d p)
  case (Cons b bs)
  have "foldl (rip_feed_byte ev) (e, p) (b # bs) = (e \<or> fst (rip_feed_byte ev (False, p) b) \<or> fst (rip_parser_feed ev (snd (rip_feed_byte ev (False, p) b)) bs),
      snd (rip_parser_feed ev (snd (rip_feed_byte ev (False, p) b)) bs))" for e
    by (simp add: feed_byte_drew [of ev e p b] Cons.IH)
  from this [of d] this [of False] show ?case by (simp add: rip_parser_feed_def)
qed (simp add: rip_parser_feed_def)

lemma feed_append:
  "rip_parser_feed ev p (a @ b) =
     (fst (rip_parser_feed ev p a) \<or> fst (rip_parser_feed ev (snd (rip_parser_feed ev p a)) b),
      snd (rip_parser_feed ev (snd (rip_parser_feed ev p a)) b))"
  using feed_from [of ev "fst (rip_parser_feed ev p a)" "snd (rip_parser_feed ev p a)" b]
  by (simp add: rip_parser_feed_def)

lemma feed_Nil [simp]: "rip_parser_feed ev p [] = (False, p)"
  by (simp add: rip_parser_feed_def)

lemma feed_look: "fst (rip_parser_feed ev p bs) \<or> look (rp_surf (snd (rip_parser_feed ev p bs))) = look (rp_surf p)"
proof (induction bs rule: rev_induct)
  case (snoc b bs)
  have one: "rip_parser_feed ev q [b] = rip_feed_byte ev (False, q) b" for q by (simp add: rip_parser_feed_def)
  show ?case
    using snoc feed_byte_look [of ev "snd (rip_parser_feed ev p bs)" b] by (auto simp: feed_append one)
qed simp

subsection \<open>The counter of refused downloads\<close>

text \<open>Nothing the parser does depends on it.\<close>

definition bl :: "(u32 \<Rightarrow> u32) \<Rightarrow> rip_parser \<Rightarrow> rip_parser" where
  "bl h p = count (st_download_blocked_update h) p"

lemma bl_fields [simp]:
  "rp_surf (bl h p) = rp_surf p" "rp_draw_color (bl h p) = rp_draw_color p" "rp_fill_pattern (bl h p) = rp_fill_pattern p"
  "rp_fill_color (bl h p) = rp_fill_color p" "rp_line_style (bl h p) = rp_line_style p" "rp_line_thick (bl h p) = rp_line_thick p"
  "rp_font (bl h p) = rp_font p" "rp_vert (bl h p) = rp_vert p" "rp_font_size (bl h p) = rp_font_size p"
  "rp_cur_x (bl h p) = rp_cur_x p" "rp_cur_y (bl h p) = rp_cur_y p" "rp_line (bl h p) = rp_line p"
  "rp_continued (bl h p) = rp_continued p" "rp_last_was_cr (bl h p) = rp_last_was_cr p" "rp_buttons (bl h p) = rp_buttons p"
  "rp_btn_style (bl h p) = rp_btn_style p"
  by (simp_all add: bl_def count_def)

lemma bl_updates [simp]:
  "(bl h p)\<lparr>rp_surf := s\<rparr> = bl h (p\<lparr>rp_surf := s\<rparr>)" "(bl h p)\<lparr>rp_draw_color := i\<rparr> = bl h (p\<lparr>rp_draw_color := i\<rparr>)"
  "(bl h p)\<lparr>rp_fill_pattern := i\<rparr> = bl h (p\<lparr>rp_fill_pattern := i\<rparr>)" "(bl h p)\<lparr>rp_fill_color := i\<rparr> = bl h (p\<lparr>rp_fill_color := i\<rparr>)"
  "(bl h p)\<lparr>rp_line_style := i\<rparr> = bl h (p\<lparr>rp_line_style := i\<rparr>)" "(bl h p)\<lparr>rp_line_thick := i\<rparr> = bl h (p\<lparr>rp_line_thick := i\<rparr>)"
  "(bl h p)\<lparr>rp_font := i\<rparr> = bl h (p\<lparr>rp_font := i\<rparr>)" "(bl h p)\<lparr>rp_vert := b\<rparr> = bl h (p\<lparr>rp_vert := b\<rparr>)"
  "(bl h p)\<lparr>rp_font_size := i\<rparr> = bl h (p\<lparr>rp_font_size := i\<rparr>)" "(bl h p)\<lparr>rp_cur_x := i\<rparr> = bl h (p\<lparr>rp_cur_x := i\<rparr>)"
  "(bl h p)\<lparr>rp_cur_y := i\<rparr> = bl h (p\<lparr>rp_cur_y := i\<rparr>)" "(bl h p)\<lparr>rp_line := l\<rparr> = bl h (p\<lparr>rp_line := l\<rparr>)"
  "(bl h p)\<lparr>rp_continued := b\<rparr> = bl h (p\<lparr>rp_continued := b\<rparr>)" "(bl h p)\<lparr>rp_last_was_cr := b\<rparr> = bl h (p\<lparr>rp_last_was_cr := b\<rparr>)"
  "(bl h p)\<lparr>rp_buttons := bs\<rparr> = bl h (p\<lparr>rp_buttons := bs\<rparr>)" "(bl h p)\<lparr>rp_btn_style := st\<rparr> = bl h (p\<lparr>rp_btn_style := st\<rparr>)"
  by (simp_all add: bl_def count_def)

lemma bl_counts [simp]:
  "count (st_commands_update k) (bl h p) = bl h (count (st_commands_update k) p)"
  "count (st_drawn_update k) (bl h p) = bl h (count (st_drawn_update k) p)"
  "count (st_text_cmds_update k) (bl h p) = bl h (count (st_text_cmds_update k) p)"
  "count (st_font_cmds_update k) (bl h p) = bl h (count (st_font_cmds_update k) p)"
  "count (st_arc_cmds_update k) (bl h p) = bl h (count (st_arc_cmds_update k) p)"
  "count (st_bezier_cmds_update k) (bl h p) = bl h (count (st_bezier_cmds_update k) p)"
  "count (st_flood_cmds_update k) (bl h p) = bl h (count (st_flood_cmds_update k) p)"
  "count (st_level1_cmds_update k) (bl h p) = bl h (count (st_level1_cmds_update k) p)"
  "count (st_region_cmds_update k) (bl h p) = bl h (count (st_region_cmds_update k) p)"
  "count (st_button_cmds_update k) (bl h p) = bl h (count (st_button_cmds_update k) p)"
  "count (st_button_undrawn_update k) (bl h p) = bl h (count (st_button_undrawn_update k) p)"
  "count (st_tty_cmds_update k) (bl h p) = bl h (count (st_tty_cmds_update k) p)"
  "count (st_unknown_cmds_update k) (bl h p) = bl h (count (st_unknown_cmds_update k) p)"
  "count (st_raw_text_lines_update k) (bl h p) = bl h (count (st_raw_text_lines_update k) p)"
  "count (st_unsup_fill_pat_update k) (bl h p) = bl h (count (st_unsup_fill_pat_update k) p)"
  "count (st_unsup_line_style_update k) (bl h p) = bl h (count (st_unsup_line_style_update k) p)"
  "count (st_malformed_update k) (bl h p) = bl h (count (st_malformed_update k) p)"
  by (simp_all add: bl_def count_def)

lemma bl_if: "(if b then bl h p else bl h q) = bl h (if b then p else q)"
  by simp

definition blp :: "(u32 \<Rightarrow> u32) \<Rightarrow> bool \<times> rip_parser \<Rightarrow> bool \<times> rip_parser" where
  "blp h dp = (fst dp, bl h (snd dp))"

lemma blp_if: "blp h (if b then x else y) = (if b then blp h x else blp h y)"
  by simp

lemma blp_simps [simp]:
  "malformed (bl h p) = blp h (malformed p)" "on_surf (bl h p) s = blp h (on_surf p s)" "on_curve (bl h p) s = blp h (on_curve p s)"
  "needs n (bl h p) a (blp h r) = blp h (needs n p a r)" "(d, bl h p) = blp h (d, p)" "rip_parser_reset (bl h p) = bl h (rip_parser_reset p)"
  by (simp_all add: malformed_def on_surf_def on_curve_def needs_def blp_def rip_parser_reset_def)

lemma cm_if: "x' = blp h x \<Longrightarrow> y' = blp h y \<Longrightarrow> (if b then x' else y') = blp h (if b then x else y)"
  by simp

lemma cm_basic:
  "malformed (bl h p) = blp h (malformed p)" "on_surf (bl h p) s = blp h (on_surf p s)" "on_curve (bl h p) s = blp h (on_curve p s)"
  "r' = blp h r \<Longrightarrow> needs n (bl h p) a r' = blp h (needs n p a r)"
  by simp_all

lemma exec_button_bl: "exec_button ev (bl h p) a tx = blp h (exec_button ev p a tx)"
proof -
  have "rip_add_region (bl h p) b = bl h (rip_add_region p b)" for p b by (simp add: rip_add_region_def)
  then show ?thesis by (simp add: exec_button_def Let_def split_beta blp_if bl_if)
qed

lemma exec_bl: "rip_exec ev (bl h p) level cmd a pts tx = blp h (rip_exec ev p level cmd a pts tx)"
proof -
  have region: "rip_add_region (bl h p) b = bl h (rip_add_region p b)" for b by (simp add: rip_add_region_def)
  have level1: "rip_exec_level1 ev (bl h p) cmd a tx = blp h (rip_exec_level1 ev p cmd a tx)"
    by (simp add: rip_exec_level1_def exec_button_bl exec_button_style_def exec_mouse_def Let_def blp_if region)
  have state: "exec_state (bl h p) cmd a = blp h (exec_state p cmd a)"
    unfolding exec_state_def bl_fields by (intro cm_if cm_basic) simp_all
  have style: "exec_style (bl h p) cmd a = blp h (exec_style p cmd a)"
    unfolding exec_style_def Let_def bl_fields by (intro cm_if cm_basic) (simp_all add: bl_if)
  have primitive: "exec_primitive ev (bl h p) cmd a pts = blp h (exec_primitive ev p cmd a pts)"
    unfolding exec_primitive_def Let_def bl_fields by (intro cm_if cm_basic)
  have tc: "text_at_cursor ev (bl h q) t = blp h (text_at_cursor ev q t)" for q t
    by (simp add: text_at_cursor_def split_beta bl_if)
  have words: "exec_text ev (bl h p) cmd a tx = blp h (exec_text ev p cmd a tx)"
    unfolding exec_text_def Let_def by (intro cm_if cm_basic tc) (simp_all add: tc)
  have curve: "exec_curve ev (bl h p) cmd a = blp h (exec_curve ev p cmd a)"
    unfolding exec_curve_def Let_def bl_fields by (intro cm_if cm_basic)
  have undrawn: "exec_undrawn (bl h p) cmd = blp h (exec_undrawn p cmd)"
    by (simp add: exec_undrawn_def bl_if)
  show ?thesis
    unfolding rip_exec_def by (intro cm_if level1 state style primitive words curve undrawn) simp
qed

lemma blp_sel [simp]: "fst (blp h x) = fst x" "snd (blp h x) = bl h (snd x)"
  by (simp_all add: blp_def del: blp_simps)

lemma blp_pair: "blp h (d, p) = (d, bl h p)"
  by (simp add: blp_def del: blp_simps)

lemma run_action_bl: "run_action ev (blp h dp) act = blp h (run_action ev dp act)"
proof (cases act)
  case (Exec level cmd a pts tx)
  obtain d q where "rip_exec ev (count (st_commands_update (\<lambda>n. n + 1)) (snd dp)) level cmd a pts tx = (d, q)" by fastforce
  then show ?thesis using Exec
    by (cases d) (simp_all add: run_action_def exec_bl blp_pair split_beta del: blp_simps)
qed (simp_all add: run_action_def split_beta)

lemma handle_line_bl: "rip_handle_line ev (bl h p) l = blp h (rip_handle_line ev p l)"
proof -
  have "foldl (run_action ev) (blp h dp) acts = blp h (foldl (run_action ev) dp acts)" for dp acts
    by (induction acts arbitrary: dp) (simp_all add: run_action_bl)
  then have "rip_run_line ev (bl h p) b = blp h (rip_run_line ev p b)" for b by (simp add: rip_run_line_def)
  then show ?thesis by (simp add: rip_handle_line_def bl_if split: option.split)
qed

lemma feed_byte_bl: "rip_feed_byte ev (blp h dp) c = blp h (rip_feed_byte ev dp c)"
proof (cases dp)
  case (Pair d p)
  have "rip_handle_line ev ((bl h p)\<lparr>rp_last_was_cr := b\<rparr>) l = blp h (rip_handle_line ev (p\<lparr>rp_last_was_cr := b\<rparr>) l)" for b l
    by (simp add: handle_line_bl)
  then show ?thesis unfolding Pair blp_pair rip_feed_byte_def Let_def prod.case bl_fields bl_updates split_beta
    by (simp add: handle_line_bl del: blp_simps) (simp add: blp_pair del: blp_simps)
qed

lemma feed_bl: "rip_parser_feed ev (bl h p) bs = blp h (rip_parser_feed ev p bs)"
proof -
  have "foldl (rip_feed_byte ev) (blp h dp) bs = blp h (foldl (rip_feed_byte ev) dp bs)" for dp
    by (induction bs arbitrary: dp) (simp_all add: feed_byte_bl)
  from this [of "(False, p)"] show ?thesis by (simp add: rip_parser_feed_def)
qed

subsection \<open>The scanner\<close>

text \<open>The scanner by itself: what is released for the parser, and the tab.\<close>

fun scan_all :: "rip_tab \<Rightarrow> byte list \<Rightarrow> byte list \<times> rip_tab" where
  "scan_all s [] = ([], s)"
| "scan_all s (b # bs) =
     (case rip_scan b s of (r, s1) \<Rightarrow> case scan_all s1 bs of (out, s2) \<Rightarrow>
        ((case r of None \<Rightarrow> [] | Some h \<Rightarrow> h @ [b]) @ out, s2))"

text \<open>What the scanner looks at, and what it changes.\<close>

definition sc :: "rip_tab \<Rightarrow> bool \<times> nat \<times> byte" where
  "sc s = (tb_enabled s, tb_esc_state s, tb_esc_digit s)"

lemma scan_only: "\<exists>en es dg se. snd (rip_scan b s) = s\<lparr>tb_enabled := en, tb_esc_state := es, tb_esc_digit := dg, tb_sent := se\<rparr>"
proof -
  have "\<exists>se. rip_send_raw m s = s\<lparr>tb_sent := se\<rparr>" for m
  proof (cases "tb_telnet s \<and> m \<noteq> []")
    case False
    then show ?thesis by (intro exI [of _ "tb_sent s"]) (simp add: rip_send_raw_def)
  qed (auto simp: rip_send_raw_def)
  then obtain se where se: "rip_send_raw rip_version_answer s = s\<lparr>tb_sent := se\<rparr>" by blast
  show ?thesis
    by (rule exI [of _ "tb_enabled (snd (rip_scan b s))"], rule exI [of _ "tb_esc_state (snd (rip_scan b s))"],
        rule exI [of _ "tb_esc_digit (snd (rip_scan b s))"], rule exI [of _ "tb_sent (snd (rip_scan b s))"])
      (simp add: rip_scan_def Let_def se)
qed

lemma scan_all_only: "\<exists>en es dg se. snd (scan_all s d) = s\<lparr>tb_enabled := en, tb_esc_state := es, tb_esc_digit := dg, tb_sent := se\<rparr>"
proof (induction d arbitrary: s)
  case Nil
  show ?case by (rule exI [of _ "tb_enabled s"], rule exI [of _ "tb_esc_state s"], rule exI [of _ "tb_esc_digit s"], rule exI [of _ "tb_sent s"]) simp
next
  case (Cons b bs)
  obtain r s1 where r: "rip_scan b s = (r, s1)" by (cases "rip_scan b s")
  then obtain en es dg se where 1: "s1 = s\<lparr>tb_enabled := en, tb_esc_state := es, tb_esc_digit := dg, tb_sent := se\<rparr>"
    using scan_only [of b s] by auto
  show ?case using Cons.IH [of s1] by (auto simp: r 1 split_beta)
qed

lemma scan_all_fields [simp]:
  "tb_parser (snd (scan_all s d)) = tb_parser s" "tb_dib (snd (scan_all s d)) = tb_dib s" "tb_press_in (snd (scan_all s d)) = tb_press_in s"
  "tb_press_idx (snd (scan_all s d)) = tb_press_idx s" "tb_active (snd (scan_all s d)) = tb_active s"
  "tb_zmr (snd (scan_all s d)) = tb_zmr s" "tb_telnet (snd (scan_all s d)) = tb_telnet s"
  "tb_connected (snd (scan_all s d)) = tb_connected s" "tb_zsig_len (snd (scan_all s d)) = tb_zsig_len s"
  "tb_flash_idx (snd (scan_all s d)) = tb_flash_idx s" "tb_flash_timer (snd (scan_all s d)) = tb_flash_timer s"
  "tb_press_armed (snd (scan_all s d)) = tb_press_armed s" "tb_flash_cmd (snd (scan_all s d)) = tb_flash_cmd s"
  "tb_capture (snd (scan_all s d)) = tb_capture s"
  using scan_all_only [of s d] by auto

lemma scan_sc: "sc s = sc t \<Longrightarrow> fst (rip_scan b s) = fst (rip_scan b t) \<and> sc (snd (rip_scan b s)) = sc (snd (rip_scan b t))"
  by (auto simp: sc_def rip_scan_def rip_send_raw_def Let_def)

lemma scan_all_sc: "sc s = sc t \<Longrightarrow> fst (scan_all s d) = fst (scan_all t d) \<and> sc (snd (scan_all s d)) = sc (snd (scan_all t d))"
proof (induction d arbitrary: s t)
  case (Cons b bs)
  then have b: "fst (rip_scan b s) = fst (rip_scan b t)" "sc (snd (rip_scan b s)) = sc (snd (rip_scan b t))" using scan_sc by blast+
  show ?case using Cons.IH [OF b(2)] b(1) by (simp add: split_beta)
qed simp

lemma scan_all_append:
  "scan_all s (a @ b) = (fst (scan_all s a) @ fst (scan_all (snd (scan_all s a)) b), snd (scan_all (snd (scan_all s a)) b))"
  by (induction a arbitrary: s) (simp_all add: split_beta)

definition held :: "rip_tab \<Rightarrow> nat" where "held s = tb_esc_state s"

lemma scan_held:
  assumes "tb_esc_state s \<le> 3"
  shows "tb_esc_state (snd (rip_scan b s)) \<le> 3 \<and>
    (case fst (rip_scan b s) of None \<Rightarrow> held (snd (rip_scan b s)) \<le> held s + 1
     | Some h \<Rightarrow> length h + held (snd (rip_scan b s)) \<le> held s)"
  using assms by (auto simp: rip_scan_def Let_def held_def)

lemma scan_all_esc: "tb_esc_state s \<le> 3 \<Longrightarrow> tb_esc_state (snd (scan_all s d)) \<le> 3"
proof (induction d arbitrary: s)
  case (Cons b bs)
  then show ?case using Cons.IH [of "snd (rip_scan b s)"] scan_held [of s b] by (simp add: split_beta)
qed simp

text \<open>A chunk that fits the buffer goes to the parser in one piece.\<close>

lemma consume_fold:
  assumes "tb_esc_state s \<le> 3" "length out + held s + length d \<le> rip_out_size" "length out < rip_out_size"
  shows "foldl (consume_byte ev) (out, drew, s) d =
    (let r = out @ fst (scan_all s d); s' = snd (scan_all s d) in
     if length r = rip_out_size then ([], rip_flush ev r (drew, s')) else (r, drew, s'))"
  using assms
proof (induction d arbitrary: out s)
  case Nil
  then show ?case by simp
next
  case (Cons b d)
  obtain r s1 where r: "rip_scan b s = (r, s1)" by (cases "rip_scan b s")
  note h = scan_held [OF Cons.prems(1), of b, unfolded r fst_conv snd_conv]
  show ?case
  proof (cases r)
    case None
    have le: "length out + held s1 + length d \<le> rip_out_size" using h None Cons.prems(2) by simp
    have "consume_byte ev (out, drew, s) b = (out, drew, s1)" by (simp add: consume_byte_def r None)
    then show ?thesis
      using Cons.IH [OF conjunct1 [OF h] le Cons.prems(3)] by (simp add: r None split_beta)
  next
    case (Some hd)
    let ?o = "out @ hd @ [b]"
    have le: "length ?o + held s1 + length d \<le> rip_out_size" using h Some Cons.prems(2) by simp
    have po: "put_out (put_out out hd) [b] = ?o" using le by (simp add: put_out_def)
    show ?thesis
    proof (cases "length ?o = rip_out_size")
      case True
      then have "d = []" using le by simp
      then show ?thesis using True by (simp add: consume_byte_def r Some po Let_def)
    next
      case False
      have "consume_byte ev (out, drew, s) b = (?o, drew, s1)" using False by (simp add: consume_byte_def r Some po Let_def)
      then show ?thesis
        using Cons.IH [OF conjunct1 [OF h] le] False le by (simp add: r Some split_beta)
    qed
  qed
qed

lemma flush_Nil: "rip_flush ev [] ds = ds"
  by (cases ds) (simp add: rip_flush_def)

lemma consume_eq:
  assumes "tb_esc_state s \<le> 3" "length d \<le> 8189"
  shows "rip_consume ev d s = rip_flush ev (fst (scan_all s d)) (False, snd (scan_all s d))"
proof -
  have "foldl (consume_byte ev) ([], False, s) d =
      (let r = [] @ fst (scan_all s d); s' = snd (scan_all s d) in
       if length r = rip_out_size then ([], rip_flush ev r (False, s')) else (r, False, s'))"
    using assms by (intro consume_fold) (simp_all add: held_def rip_out_size_def)
  then show ?thesis by (simp add: rip_consume_def Let_def flush_Nil rip_out_size_def)
qed

text \<open>What a chunk of any length does.\<close>

lemma flush_fields:
  "\<exists>p. snd (rip_flush ev out (drew, s)) = s\<lparr>tb_parser := p\<rparr> \<and> (nib (rp_surf (tb_parser s)) \<longrightarrow> nib (rp_surf p)) \<and>
     (drew \<longrightarrow> fst (rip_flush ev out (drew, s))) \<and> (fst (rip_flush ev out (drew, s)) \<or> look (rp_surf p) = look (rp_surf (tb_parser s)))"
proof (cases "tb_enabled s")
  case True
  show ?thesis
    by (intro exI [of _ "snd (rip_parser_feed ev (tb_parser s) out)"])
      (use feed_nib [of "tb_parser s" ev out] feed_look [of ev "tb_parser s" out] in \<open>auto simp: rip_flush_def True split_beta\<close>)
next
  case False
  then show ?thesis by (intro exI [of _ "tb_parser s"]) (simp add: rip_flush_def)
qed

definition consumed :: "rip_tab \<Rightarrow> bool \<times> rip_tab \<Rightarrow> bool" where
  "consumed s ds \<longleftrightarrow>
     (\<exists>p en es dg se. snd ds = s\<lparr>tb_parser := p, tb_enabled := en, tb_esc_state := es, tb_esc_digit := dg, tb_sent := se\<rparr> \<and> es \<le> 3 \<and>
        (nib (rp_surf (tb_parser s)) \<longrightarrow> nib (rp_surf p)) \<and> (fst ds \<or> look (rp_surf p) = look (rp_surf (tb_parser s))))"

lemma consumed_flush: "consumed s (d, t) \<Longrightarrow> consumed s (rip_flush ev out (d, t))"
proof -
  assume "consumed s (d, t)"
  then obtain p en es dg se where t: "t = s\<lparr>tb_parser := p, tb_enabled := en, tb_esc_state := es, tb_esc_digit := dg, tb_sent := se\<rparr>"
      "es \<le> 3" "nib (rp_surf (tb_parser s)) \<longrightarrow> nib (rp_surf p)" "d \<or> look (rp_surf p) = look (rp_surf (tb_parser s))"
    by (auto simp: consumed_def)
  obtain q where q: "snd (rip_flush ev out (d, t)) = t\<lparr>tb_parser := q\<rparr>" "nib (rp_surf (tb_parser t)) \<longrightarrow> nib (rp_surf q)"
      "d \<longrightarrow> fst (rip_flush ev out (d, t))" "fst (rip_flush ev out (d, t)) \<or> look (rp_surf q) = look (rp_surf (tb_parser t))"
    using flush_fields [of ev out d t] by blast
  show ?thesis
    unfolding consumed_def
    by (rule exI [of _ q], rule exI [of _ en], rule exI [of _ es], rule exI [of _ dg], rule exI [of _ se])
      (use t q in auto)
qed

lemma consumed_scan: "consumed s (d, t) \<Longrightarrow> consumed s (d, snd (rip_scan b t))"
proof -
  assume "consumed s (d, t)"
  then obtain p en es dg se where t: "t = s\<lparr>tb_parser := p, tb_enabled := en, tb_esc_state := es, tb_esc_digit := dg, tb_sent := se\<rparr>"
      "es \<le> 3" "nib (rp_surf (tb_parser s)) \<longrightarrow> nib (rp_surf p)" "d \<or> look (rp_surf p) = look (rp_surf (tb_parser s))"
    by (auto simp: consumed_def)
  obtain en' es' dg' se' where u: "snd (rip_scan b t) = t\<lparr>tb_enabled := en', tb_esc_state := es', tb_esc_digit := dg', tb_sent := se'\<rparr>"
    using scan_only [of b t] by blast
  then have "es' \<le> 3" using scan_held [of t b] t(1,2) by simp
  then show ?thesis
    unfolding consumed_def u
    by (intro exI [of _ p] exI [of _ en'] exI [of _ es'] exI [of _ dg'] exI [of _ se'] conjI) (use t in simp_all)
qed

lemma consume_consumed: "tb_esc_state s \<le> 3 \<Longrightarrow> consumed s (rip_consume ev d s)"
proof -
  assume "tb_esc_state s \<le> 3"
  then have 0: "consumed s (False, s)"
    unfolding consumed_def
    by (intro exI [of _ "tb_parser s"] exI [of _ "tb_enabled s"] exI [of _ "tb_esc_state s"] exI [of _ "tb_esc_digit s"] exI [of _ "tb_sent s"]) simp
  have "consumed s (snd (foldl (consume_byte ev) (out, d0, t) d))" if "consumed s (d0, t)" for out d0 t
    using that
  proof (induction d arbitrary: out d0 t)
    case (Cons b bs)
    obtain r t1 where r: "rip_scan b t = (r, t1)" by (cases "rip_scan b t")
    have t1: "consumed s (d0, t1)" using consumed_scan [OF Cons.prems, of b] by (simp add: r)
    obtain out' d' t' where st: "consume_byte ev (out, d0, t) b = (out', d', t')" by (cases "consume_byte ev (out, d0, t) b")
    have "consumed s (d', t')"
    proof (cases r)
      case None
      then show ?thesis using st t1 by (simp add: consume_byte_def r)
    next
      case (Some h)
      then show ?thesis
        using st t1 consumed_flush [OF t1, of ev "put_out (put_out out h) [b]"] by (simp add: consume_byte_def r Let_def split: if_splits)
    qed
    then show ?case using Cons.IH by (simp add: st)
  qed simp
  from this [OF 0, of "[]"] show ?thesis
    using consumed_flush [of s _ _ ev] by (auto simp: rip_consume_def split: prod.split)
qed

subsection \<open>The pressed look\<close>

lemma flip_fields [simp]: "rp_buttons (flip_region i p) = rp_buttons p"
  by (simp add: flip_region_def Let_def split: prod.split)

lemma flip_nib: "nib (rp_surf p) \<Longrightarrow> nib (rp_surf (flip_region i p))"
  by (simp add: flip_region_def Let_def invert_nib split: prod.split)

lemma flip_flip: "nib (rp_surf p) \<Longrightarrow> flip_region i (flip_region i p) = p"
proof -
  assume "nib (rp_surf p)"
  then have "rip_ega_invert_rect (rip_ega_invert_rect (rp_surf p) a b c d) a b c d = rp_surf p" for a b c d
    by (intro rip_invert_twice) (simp add: nib_def)
  then show ?thesis by (simp add: flip_region_def Let_def split: prod.split)
qed

lemma invert_look: "look s = look t \<Longrightarrow> look (rip_ega_invert_rect s a b c d) = look (rip_ega_invert_rect t a b c d)"
proof -
  have "look s = look t \<Longrightarrow> look (foldl (invert_row x0 x1) s ys) = look (foldl (invert_row x0 x1) t ys)" for x0 x1 ys
  proof (induction ys arbitrary: s t)
    case (Cons y ys)
    have e: "eg_pix s = eg_pix t" "eg_pal16 s = eg_pal16 t" using Cons.prems by (simp_all add: look_def)
    have "look (invert_row x0 x1 s y) = look (invert_row x0 x1 t y)" by (simp add: look_def invert_row_def fun_eq_iff e)
    from Cons.IH [OF this] show ?case by simp
  qed simp
  then show "look s = look t \<Longrightarrow> ?thesis" by (simp add: rip_ega_invert_rect_def Let_def split_beta)
qed

text \<open>The parser with the pressed look taken off.\<close>

definition tp :: "rip_tab \<Rightarrow> rip_parser" where
  "tp s = (if tb_press_in s then flip_region (tb_press_idx s) (tb_parser s) else tb_parser s)"

definition rip_tab_ok :: "rip_tab \<Rightarrow> bool" where
  "rip_tab_ok s \<longleftrightarrow>
     nib (rp_surf (tb_parser s)) \<and> look (tb_dib s) = look (rp_surf (tb_parser s)) \<and>
     (tb_press_in s \<longrightarrow> 0 \<le> tb_press_idx s \<and> tb_press_idx s < int (length (rp_buttons (tb_parser s)))) \<and>
     (tb_active s \<longleftrightarrow> tb_zmr s \<noteq> None) \<and>
     (tb_active s \<longrightarrow> tb_connected s \<and> tb_telnet s \<and> tb_press_idx s < 0 \<and> tb_flash_idx s < 0) \<and>
     (0 \<le> tb_flash_idx s \<longrightarrow> tb_flash_timer s) \<and>
     tb_esc_state s \<le> 3 \<and> tb_zsig_len s < 4"

text \<open>An event that is not the host's: the scene and the scanner are as they were.\<close>

definition same :: "rip_tab \<Rightarrow> rip_tab \<Rightarrow> bool" where
  "same s t \<longleftrightarrow> (rip_tab_ok s \<longrightarrow> rip_tab_ok t \<and> bl (\<lambda>_. 0) (tp t) = bl (\<lambda>_. 0) (tp s) \<and> sc t = sc s)"

lemma same_refl [simp]: "same s s"
  by (simp add: same_def)

lemma same_trans: "same s t \<Longrightarrow> same t u \<Longrightarrow> same s u"
  by (auto simp: same_def)

lemma press_flip_eq:
  "\<exists>d. rip_press_flip i s = s\<lparr>tb_parser := flip_region i (tb_parser s), tb_dib := d\<rparr> \<and>
     (look (tb_dib s) = look (rp_surf (tb_parser s)) \<longrightarrow> look d = look (rp_surf (flip_region i (tb_parser s))))"
proof (cases "i < 0 \<or> i \<ge> int (length (rp_buttons (tb_parser s))) \<or> \<not> rb_invert (rp_buttons (tb_parser s) ! nat i)")
  case True
  then have "flip_region i (tb_parser s) = tb_parser s" "rip_press_flip i s = s" by (auto simp: flip_region_def rip_press_flip_def)
  then show ?thesis by (intro exI [of _ "tb_dib s"]) simp
next
  case False
  then show ?thesis
    by (intro exI [of _ "rp_surf (flip_region i (tb_parser s))"])
      (simp add: rip_press_flip_def rip_dib_refresh_def rip_press_flip_quiet_def)
qed

text \<open>The look comes off.\<close>

lemma press_off:
  assumes "rip_tab_ok s"
  defines "t \<equiv> (if tb_press_in s then rip_press_flip (tb_press_idx s) s else s)"
  shows "\<exists>d. t = s\<lparr>tb_parser := tp s, tb_dib := d\<rparr> \<and> look d = look (rp_surf (tp s)) \<and> nib (rp_surf (tp s)) \<and>
    rp_buttons (tp s) = rp_buttons (tb_parser s)"
proof (cases "tb_press_in s")
  case True
  obtain d where "rip_press_flip (tb_press_idx s) s = s\<lparr>tb_parser := flip_region (tb_press_idx s) (tb_parser s), tb_dib := d\<rparr>"
      "look d = look (rp_surf (flip_region (tb_press_idx s) (tb_parser s)))"
    using press_flip_eq [of "tb_press_idx s" s] assms(1) by (auto simp: rip_tab_ok_def)
  then show ?thesis using True assms(1) by (intro exI [of _ d]) (simp add: t_def tp_def rip_tab_ok_def flip_nib)
next
  case False
  then show ?thesis using assms(1) by (intro exI [of _ "tb_dib s"]) (simp add: t_def tp_def rip_tab_ok_def)
qed

lemma press_clear_ok: "rip_tab_ok s \<Longrightarrow> \<exists>d. rip_press_clear s =
    s\<lparr>tb_parser := tp s, tb_dib := d, tb_press_idx := -1, tb_press_in := False, tb_press_armed := False\<rparr> \<and>
    look d = look (rp_surf (tp s)) \<and> nib (rp_surf (tp s))"
  using press_off [of s] unfolding rip_press_clear_def Let_def by (fastforce elim!: exE conjE)

lemma press_clear_same [simp]: "same s (rip_press_clear s)"
  unfolding same_def
proof
  assume ok: "rip_tab_ok s"
  obtain d where "rip_press_clear s = s\<lparr>tb_parser := tp s, tb_dib := d, tb_press_idx := -1, tb_press_in := False, tb_press_armed := False\<rparr>"
      "look d = look (rp_surf (tp s))" "nib (rp_surf (tp s))"
    using press_clear_ok [OF ok] by blast
  then show "rip_tab_ok (rip_press_clear s) \<and> bl (\<lambda>_. 0) (tp (rip_press_clear s)) = bl (\<lambda>_. 0) (tp s) \<and> sc (rip_press_clear s) = sc s"
    using ok by (auto simp: rip_tab_ok_def sc_def) (simp_all add: tp_def)
qed

text \<open>Cancelling leaves no press and no flash.\<close>

lemma cancel_ok:
  assumes "rip_tab_ok s"
  shows "\<exists>d i a f c ft. rip_press_cancel_for_redraw s =
    s\<lparr>tb_parser := tp s, tb_dib := d, tb_flash_timer := ft, tb_flash_idx := f, tb_flash_cmd := c, tb_press_idx := i, tb_press_in := False, tb_press_armed := a\<rparr> \<and>
    look d = look (rp_surf (tp s)) \<and> nib (rp_surf (tp s)) \<and> rp_buttons (tp s) = rp_buttons (tb_parser s) \<and> f < 0 \<and> i < 0"
proof (cases "tb_press_idx s < 0 \<and> tb_flash_idx s < 0")
  case True
  then have "\<not> tb_press_in s" "tp s = tb_parser s" using assms by (auto simp: rip_tab_ok_def tp_def)
  then show ?thesis
    using True assms
    by (intro exI [of _ "tb_dib s"] exI [of _ "tb_press_idx s"] exI [of _ "tb_press_armed s"] exI [of _ "tb_flash_idx s"] exI [of _ "tb_flash_cmd s"]
        exI [of _ "tb_flash_timer s"]) (simp add: rip_press_cancel_for_redraw_def rip_tab_ok_def)
next
  case False
  obtain d where d: "(if tb_press_in s then rip_press_flip (tb_press_idx s) s else s) = s\<lparr>tb_parser := tp s, tb_dib := d\<rparr>"
      "look d = look (rp_surf (tp s))" "nib (rp_surf (tp s))" "rp_buttons (tp s) = rp_buttons (tb_parser s)"
    using press_off [OF assms] by blast
  have "rip_press_cancel_for_redraw s = rip_press_abandon (s\<lparr>tb_parser := tp s, tb_dib := d\<rparr>)"
    unfolding rip_press_cancel_for_redraw_def d(1) by (rule if_not_P [OF False])
  then show ?thesis
    using d
    by (intro exI [of _ d] exI [of _ "-1"] exI [of _ False] exI [of _ "-1"] exI [of _ "[]"]
        exI [of _ "if tb_flash_idx s \<ge> 0 then False else tb_flash_timer s"]) (simp add: rip_press_abandon_def)
qed

lemma cancel_same [simp]: "same s (rip_press_cancel_for_redraw s)"
  unfolding same_def
proof
  assume ok: "rip_tab_ok s"
  obtain d i a f c ft where c: "rip_press_cancel_for_redraw s =
    s\<lparr>tb_parser := tp s, tb_dib := d, tb_flash_timer := ft, tb_flash_idx := f, tb_flash_cmd := c, tb_press_idx := i, tb_press_in := False, tb_press_armed := a\<rparr>"
      "look d = look (rp_surf (tp s))" "nib (rp_surf (tp s))" "f < 0" "i < 0"
    using cancel_ok [OF ok] by blast
  then show "rip_tab_ok (rip_press_cancel_for_redraw s) \<and> bl (\<lambda>_. 0) (tp (rip_press_cancel_for_redraw s)) = bl (\<lambda>_. 0) (tp s) \<and>
      sc (rip_press_cancel_for_redraw s) = sc s"
    using ok by (auto simp: rip_tab_ok_def sc_def) (simp_all add: tp_def)
qed

text \<open>What does not touch the fields of the scene.\<close>

lemma same_send [simp]: "same s (rip_send_raw b s)"
  by (simp add: same_def rip_send_raw_def rip_tab_ok_def tp_def sc_def)

lemma same_notice [simp]: "same s (rip_notice_set m p s)" "same s (rip_notice_clear s)"
  by (simp_all add: same_def rip_notice_set_def rip_notice_clear_def rip_tab_ok_def tp_def sc_def)

lemma flip_bl: "flip_region i (bl h p) = bl h (flip_region i p)"
  by (simp add: flip_region_def Let_def split: prod.split)

lemma bl_bl [simp]: "bl (\<lambda>_. 0) (bl h p) = bl (\<lambda>_. 0) p"
  by (simp add: bl_def count_def)

lemma same_blocked [simp]: "same s (rip_count_blocked s)"
proof -
  have "rip_count_blocked s = s\<lparr>tb_parser := bl (\<lambda>n. n + 1) (tb_parser s)\<rparr>" by (simp add: rip_count_blocked_def bl_def)
  then show ?thesis by (simp add: same_def rip_tab_ok_def tp_def sc_def flip_bl)
qed

lemma begin_same [simp]: "same s (snd (rip_zmodem_begin started why s))"
proof (cases "tb_active s \<or> tb_zmr s \<noteq> None \<or> \<not> tb_connected s \<or> \<not> tb_telnet s")
  case True
  then show ?thesis by (auto simp: rip_zmodem_begin_def)
next
  case False
  show ?thesis
    unfolding same_def
  proof
    assume ok: "rip_tab_ok s"
    obtain d i a f c ft where c: "rip_press_cancel_for_redraw s =
      s\<lparr>tb_parser := tp s, tb_dib := d, tb_flash_timer := ft, tb_flash_idx := f, tb_flash_cmd := c, tb_press_idx := i, tb_press_in := False, tb_press_armed := a\<rparr>"
        "look d = look (rp_surf (tp s))" "nib (rp_surf (tp s))" "f < 0" "i < 0"
      using cancel_ok [OF ok] by blast
    show "rip_tab_ok (snd (rip_zmodem_begin started why s)) \<and> bl (\<lambda>_. 0) (tp (snd (rip_zmodem_begin started why s))) = bl (\<lambda>_. 0) (tp s) \<and>
        sc (snd (rip_zmodem_begin started why s)) = sc s"
      using ok c False
      by (cases started) (auto simp: rip_zmodem_begin_def Let_def c(1) rip_notice_set_def rip_tab_ok_def sc_def tp_def)
  qed
qed

lemma send_command_same [simp]: "same s (rip_send_command started cmd s)"
proof -
  obtain ok s1 where b: "rip_zmodem_begin started (asc ''Starting download...'') s = (ok, s1)" by (cases "rip_zmodem_begin started (asc ''Starting download...'') s")
  have "same s s1" using begin_same [of s started "asc ''Starting download...''"] by (simp only: b snd_conv)
  then have t: "same s1 u \<Longrightarrow> same s u" for u by (rule same_trans)
  have n: "same u (rip_notice_set m p (rip_count_blocked u))" for u m p by (rule same_trans [OF same_blocked same_notice(1)])
  have r: "same u (rip_send_raw a (rip_send_raw c u))" for u a c by (rule same_trans [OF same_send same_send])
  show ?thesis
    unfolding rip_send_command_def Let_def b by (auto intro: t n r)
qed

lemma activate_same [simp]: "same s (rip_activate_region started i s)"
  by (simp add: rip_activate_region_def)

lemma hotkey_same [simp]: "same s (rip_hotkey_activate started i s)" if "\<not> tb_active s"
proof (cases "i < 0 \<or> i \<ge> int (length (rp_buttons (tb_parser s)))")
  case True
  then show ?thesis by (auto simp: rip_hotkey_activate_def)
next
  case False
  let ?c = "rip_press_cancel_for_redraw s"
  show ?thesis
  proof (cases "rb_invert (rp_buttons (tb_parser ?c) ! nat i)")
    case inv: False
    show ?thesis
      using False inv same_trans [OF cancel_same [of s] activate_same [of ?c started i]] by (simp add: rip_hotkey_activate_def Let_def)
  next
    case inv: True
    show ?thesis
      unfolding same_def
    proof
      assume ok: "rip_tab_ok s"
      obtain d j a f c ft where c: "?c =
        s\<lparr>tb_parser := tp s, tb_dib := d, tb_flash_timer := ft, tb_flash_idx := f, tb_flash_cmd := c, tb_press_idx := j, tb_press_in := False, tb_press_armed := a\<rparr>"
          "look d = look (rp_surf (tp s))" "nib (rp_surf (tp s))" "rp_buttons (tp s) = rp_buttons (tb_parser s)"
        using cancel_ok [OF ok] by blast
      let ?s2 = "?c\<lparr>tb_flash_cmd := take 47 (rb_command (rp_buttons (tb_parser ?c) ! nat i)), tb_flash_idx := i, tb_press_idx := i,
          tb_press_in := True, tb_press_armed := False\<rparr>"
      obtain e where e: "rip_press_flip i ?s2 = ?s2\<lparr>tb_parser := flip_region i (tb_parser ?s2), tb_dib := e\<rparr>"
          "look (tb_dib ?s2) = look (rp_surf (tb_parser ?s2)) \<longrightarrow> look e = look (rp_surf (flip_region i (tb_parser ?s2)))"
        using press_flip_eq by blast
      have r: "rip_hotkey_activate started i s = (?s2\<lparr>tb_parser := flip_region i (tb_parser ?s2), tb_dib := e\<rparr>)\<lparr>tb_flash_timer := True\<rparr>"
        using False inv by (simp add: rip_hotkey_activate_def Let_def e(1))
      show "rip_tab_ok (rip_hotkey_activate started i s) \<and> bl (\<lambda>_. 0) (tp (rip_hotkey_activate started i s)) = bl (\<lambda>_. 0) (tp s) \<and>
          sc (rip_hotkey_activate started i s) = sc s"
        unfolding r using e(2) c False ok that
        by (simp add: rip_tab_ok_def sc_def flip_nib) (simp add: tp_def flip_flip)
    qed
  qed
qed

subsection \<open>What the host sends\<close>

lemma suspend_eq:
  assumes "rip_tab_ok s"
  shows "rip_press_suspend s =
    (if tb_press_in s then Some (tb_press_idx s, rp_buttons (tb_parser s) ! nat (tb_press_idx s)) else None, s\<lparr>tb_parser := tp s\<rparr>)"
  using assms by (auto simp: rip_press_suspend_def rip_press_flip_quiet_def tp_def rip_tab_ok_def)

lemma tp_updates [simp]:
  "tp (s\<lparr>tb_dib := d\<rparr>) = tp s" "tp (s\<lparr>tb_ever_drew := b\<rparr>) = tp s" "tp (s\<lparr>tb_zsig_len := k\<rparr>) = tp s" "tp (s\<lparr>tb_zmr := z\<rparr>) = tp s"
  by (simp_all add: tp_def)

text \<open>After the parser has drawn, the look is back or the press is gone.\<close>

lemma resume_ok:
  fixes s :: rip_tab
  assumes ok: "rip_tab_ok s"
    and u: "u = s\<lparr>tb_parser := p, tb_enabled := en, tb_esc_state := es, tb_esc_digit := dg, tb_sent := se\<rparr>"
    and p: "nib (rp_surf p)"
    and r: "rip_press_resume (fst (rip_press_suspend s)) u = (forced, v)"
  shows "tp v = p \<and> nib (rp_surf (tb_parser v)) \<and>
    (tb_press_in v \<longrightarrow> 0 \<le> tb_press_idx v \<and> tb_press_idx v < int (length (rp_buttons (tb_parser v)))) \<and>
    (tb_press_idx s < 0 \<longrightarrow> tb_press_idx v < 0) \<and> (0 \<le> tb_flash_idx v \<longrightarrow> tb_flash_timer v) \<and> (tb_flash_idx s < 0 \<longrightarrow> tb_flash_idx v < 0) \<and>
    (tb_active v, tb_zmr v, tb_connected v, tb_telnet v, tb_zsig_len v, tb_dib v) =
      (tb_active s, tb_zmr s, tb_connected s, tb_telnet s, tb_zsig_len s, tb_dib s) \<and>
    (tb_enabled v, tb_esc_state v, tb_esc_digit v, tb_sent v) = (en, es, dg, se) \<and>
    (\<not> forced \<and> look (rp_surf p) = look (rp_surf (tp s)) \<longrightarrow> look (rp_surf (tb_parser v)) = look (rp_surf (tb_parser s)))"
proof (cases "tb_press_in s")
  case False
  then have "v = u" "forced = False" using r suspend_eq [OF ok] by (simp_all add: rip_press_resume_def)
  then show ?thesis using False ok p by (simp add: u tp_def rip_tab_ok_def)
next
  case True
  let ?i = "tb_press_idx s"
  let ?b = "rp_buttons (tb_parser s) ! nat ?i"
  have i: "0 \<le> ?i" "?i < int (length (rp_buttons (tb_parser s)))" using ok True by (simp_all add: rip_tab_ok_def)
  have sv: "fst (rip_press_suspend s) = Some (?i, ?b)" using suspend_eq [OF ok] True by simp
  have ab: ?thesis if "v = rip_press_abandon u" "forced"
    using that ok p by (simp add: u rip_press_abandon_def tp_def rip_tab_ok_def)
  show ?thesis
  proof (cases "?i \<ge> int (length (rp_buttons p)) \<or> rb_image (rp_buttons p ! nat ?i) \<noteq> rb_image ?b \<or>
      rb_invert (rp_buttons p ! nat ?i) \<noteq> rb_invert ?b \<or> rb_command (rp_buttons p ! nat ?i) \<noteq> rb_command ?b")
    case gone: True
    then have "v = rip_press_abandon u" "forced" using r by (auto simp: sv rip_press_resume_def u Let_def split: if_splits)
    then show ?thesis by (rule ab)
  next
    case False
    then have v: "v = u\<lparr>tb_parser := flip_region ?i p\<rparr>" "\<not> forced"
      using r by (auto simp: sv rip_press_resume_def u Let_def rip_press_flip_quiet_def split: if_splits)
    have "look (rp_surf (flip_region ?i p)) = look (rp_surf (tb_parser s))" if "look (rp_surf p) = look (rp_surf (tp s))"
    proof -
      have "flip_region ?i (tp s) = tb_parser s" using True ok by (simp add: tp_def rip_tab_ok_def flip_flip)
      moreover have "look (rp_surf (flip_region ?i p)) = look (rp_surf (flip_region ?i (tp s)))"
        using False i that invert_look [OF that] True by (auto simp: flip_region_def tp_def Let_def split: prod.split)
      ultimately show ?thesis by simp
    qed
    then show ?thesis using v False i True p ok by (simp add: u tp_def flip_flip flip_nib rip_tab_ok_def)
  qed
qed

lemma resume_tab:
  assumes ok: "rip_tab_ok s"
    and u: "u = s\<lparr>tb_parser := p, tb_enabled := en, tb_esc_state := es, tb_esc_digit := dg, tb_sent := se\<rparr>"
    and p: "nib (rp_surf p)" and es: "es \<le> 3"
    and r: "rip_press_resume (fst (rip_press_suspend s)) u = (forced, v)"
  shows "rip_tab_ok (v\<lparr>tb_dib := rp_surf (tb_parser v)\<rparr>)" "sc v = sc u" "tp v = p"
    "\<not> forced \<Longrightarrow> look (rp_surf p) = look (rp_surf (tp s)) \<Longrightarrow> rip_tab_ok v"
    "(tb_active v, tb_zmr v, tb_connected v, tb_telnet v, tb_zsig_len v) = (tb_active s, tb_zmr s, tb_connected s, tb_telnet s, tb_zsig_len s)"
proof -
  note v = resume_ok [OF ok u p r]
  show "sc v = sc u" "tp v = p" using v by (simp_all add: sc_def u)
  show "(tb_active v, tb_zmr v, tb_connected v, tb_telnet v, tb_zsig_len v) = (tb_active s, tb_zmr s, tb_connected s, tb_telnet s, tb_zsig_len s)" using v by simp
  have idle: "tb_active v \<longrightarrow> tb_connected v \<and> tb_telnet v \<and> tb_press_idx v < 0 \<and> tb_flash_idx v < 0" "tb_active v \<longleftrightarrow> tb_zmr v \<noteq> None"
      "tb_zsig_len v < 4" "tb_esc_state v \<le> 3"
    using v ok es unfolding rip_tab_ok_def by auto
  then show "rip_tab_ok (v\<lparr>tb_dib := rp_surf (tb_parser v)\<rparr>)" using v unfolding rip_tab_ok_def by simp
  show "rip_tab_ok v" if "\<not> forced" "look (rp_surf p) = look (rp_surf (tp s))"
  proof -
    have "look (tb_dib v) = look (rp_surf (tb_parser v))" using v that ok unfolding rip_tab_ok_def by simp
    then show ?thesis using idle v unfolding rip_tab_ok_def by simp
  qed
qed

lemma tab_ok_parser: "rip_tab_ok s \<Longrightarrow> rip_tab_ok (s\<lparr>tb_zsig_len := k\<rparr>) = (k < 4)"
  by (simp add: rip_tab_ok_def)

lemma tp_nib: "rip_tab_ok s \<Longrightarrow> nib (rp_surf (tp s))"
  by (simp add: tp_def rip_tab_ok_def flip_nib)

lemma feed_scene_ok:
  assumes ok: "rip_tab_ok s"
  shows "rip_tab_ok (rip_feed_scene ev d s) \<and>
    tp (rip_feed_scene ev d s) = tb_parser (snd (rip_consume ev d (s\<lparr>tb_parser := tp s\<rparr>))) \<and>
    sc (rip_feed_scene ev d s) = sc (snd (rip_consume ev d (s\<lparr>tb_parser := tp s\<rparr>))) \<and>
    (let t = rip_feed_scene ev d s in
     (tb_active t, tb_zmr t, tb_connected t, tb_telnet t, tb_zsig_len t) = (tb_active s, tb_zmr s, tb_connected s, tb_telnet s, tb_zsig_len s))"
proof -
  let ?s1 = "s\<lparr>tb_parser := tp s\<rparr>"
  have "tb_esc_state ?s1 \<le> 3" using ok by (simp add: rip_tab_ok_def)
  note c = consume_consumed [OF this, of ev d]
  obtain drew u where cd: "rip_consume ev d ?s1 = (drew, u)" by (cases "rip_consume ev d ?s1")
  obtain p en es dg se where u: "u = s\<lparr>tb_parser := p, tb_enabled := en, tb_esc_state := es, tb_esc_digit := dg, tb_sent := se\<rparr>"
      "es \<le> 3" "nib (rp_surf p)" "drew \<or> look (rp_surf p) = look (rp_surf (tp s))"
    using c tp_nib [OF ok] unfolding consumed_def cd by auto
  obtain forced v where r: "rip_press_resume (fst (rip_press_suspend s)) u = (forced, v)"
    by (cases "rip_press_resume (fst (rip_press_suspend s)) u")
  note v = resume_tab [OF ok u(1,3,2) r]
  have f: "rip_feed_scene ev d s =
      (let s4 = (if drew \<or> forced then rip_dib_refresh v else v) in if drew then s4\<lparr>tb_ever_drew := True\<rparr> else s4)"
    using suspend_eq [OF ok] r by (simp add: rip_feed_scene_def cd)
  note v(1-3)
  moreover have "rip_tab_ok v" if "\<not> drew" "\<not> forced"
    using v(4) u(4) that by simp
  moreover have "rip_tab_ok (w\<lparr>tb_ever_drew := b\<rparr>) = rip_tab_ok w" for w b by (simp add: rip_tab_ok_def)
  moreover have "sc (w\<lparr>tb_ever_drew := b\<rparr>) = sc w" "sc (w\<lparr>tb_dib := d'\<rparr>) = sc w" for w b d' by (simp_all add: sc_def)
  moreover have "tb_parser u = p" by (simp add: u(1))
  ultimately show ?thesis using v(5) by (cases drew; cases forced) (simp_all add: f cd rip_dib_refresh_def Let_def)
qed

text \<open>The bytes \<open>d\<close> have gone through the scanner to the parser, and nothing else has happened to the scene.\<close>

definition fed :: "rip_env \<Rightarrow> rip_tab \<Rightarrow> rip_tab \<Rightarrow> byte list \<Rightarrow> bool" where
  "fed ev s t d \<longleftrightarrow> rip_tab_ok t \<and> sc t = sc (snd (scan_all s d)) \<and>
     bl (\<lambda>_. 0) (tp t) = snd (rip_parser_feed ev (bl (\<lambda>_. 0) (tp s)) (fst (scan_all s d)))"

lemma fed_trans: "fed ev s t a \<Longrightarrow> fed ev t u b \<Longrightarrow> fed ev s u (a @ b)"
  using scan_all_sc [of t "snd (scan_all s a)" b] by (simp add: fed_def scan_all_append feed_append)

lemma same_fed: "same s t \<Longrightarrow> rip_tab_ok s \<Longrightarrow> fed ev s t []"
  by (simp add: same_def fed_def)

text \<open>The bytes switch nothing off and on.\<close>

fun keeps :: "rip_tab \<Rightarrow> byte list \<Rightarrow> bool" where
  "keeps s [] = True"
| "keeps s (b # bs) = (tb_enabled (snd (rip_scan b s)) = tb_enabled s \<and> keeps (snd (rip_scan b s)) bs)"

lemma keeps_append: "keeps s (a @ b) = (keeps s a \<and> keeps (snd (scan_all s a)) b)"
  by (induction a arbitrary: s) (simp_all add: split_beta)

lemma keeps_enabled: "keeps s d \<Longrightarrow> tb_enabled (snd (scan_all s d)) = tb_enabled s"
  by (induction d arbitrary: s) (simp_all add: split_beta)

lemma keeps_sc: "sc s = sc t \<Longrightarrow> keeps s d = keeps t d"
proof (induction d arbitrary: s t)
  case (Cons b d)
  then have "sc (snd (rip_scan b s)) = sc (snd (rip_scan b t))" using scan_sc by blast
  from this Cons.IH [OF this] Cons.prems show ?case by (simp add: sc_def)
qed simp

lemma consume_fed:
  fixes ev :: rip_env
  assumes "rip_tab_ok s" "tb_enabled s" "keeps s d" "length d \<le> 8189"
  defines "c \<equiv> snd (rip_consume ev d (s\<lparr>tb_parser := tp s\<rparr>))"
  shows "bl (\<lambda>_. 0) (tb_parser c) = snd (rip_parser_feed ev (bl (\<lambda>_. 0) (tp s)) (fst (scan_all s d))) \<and> sc c = sc (snd (scan_all s d))"
proof -
  let ?s1 = "s\<lparr>tb_parser := tp s\<rparr>"
  have 1: "sc ?s1 = sc s" by (simp add: sc_def)
  have "tb_esc_state ?s1 \<le> 3" using assms(1) by (simp add: rip_tab_ok_def)
  then have "c = snd (rip_flush ev (fst (scan_all ?s1 d)) (False, snd (scan_all ?s1 d)))"
    unfolding c_def using consume_eq [OF _ assms(4)] by simp
  moreover have "tb_enabled (snd (scan_all ?s1 d))"
    using keeps_enabled [of ?s1 d] keeps_sc [OF 1] assms(2,3) by simp
  ultimately have "c = (snd (scan_all ?s1 d))\<lparr>tb_parser := snd (rip_parser_feed ev (tp s) (fst (scan_all s d)))\<rparr>"
    using scan_all_sc [OF 1, of d] by (simp add: rip_flush_def split_beta)
  then show ?thesis using scan_all_sc [OF 1, of d] by (simp add: feed_bl) (simp add: sc_def)
qed

lemma feed_scene_fed:
  assumes "rip_tab_ok s" "tb_enabled s" "keeps s d" "length d \<le> 8189"
  shows "fed ev s (rip_feed_scene ev d s) d"
  using feed_scene_ok [OF assms(1), of ev d] consume_fed [OF assms] by (simp add: fed_def)

lemma scan_zmodem_k: "k < 4 \<Longrightarrow> snd (rip_scan_for_zmodem i k d) < 4"
  by (induction i k d rule: rip_scan_for_zmodem.induct) auto

lemma push_same: "same s (rip_push d s)"
  by (simp add: same_def rip_push_def rip_tab_ok_def tp_def sc_def)

text \<open>The first part of a chunk in which a transfer starts.\<close>

definition upto_sig :: "rip_env \<Rightarrow> byte list \<Rightarrow> rip_tab \<Rightarrow> rip_tab" where
  "upto_sig ev d s =
     (let (sv, s1) = rip_press_suspend s in rip_dib_refresh (snd (rip_press_resume sv (snd (rip_consume ev d s1)))))"

lemma upto_sig_ok:
  assumes ok: "rip_tab_ok s"
  shows "rip_tab_ok (upto_sig ev d s) \<and> tp (upto_sig ev d s) = tb_parser (snd (rip_consume ev d (s\<lparr>tb_parser := tp s\<rparr>))) \<and>
    sc (upto_sig ev d s) = sc (snd (rip_consume ev d (s\<lparr>tb_parser := tp s\<rparr>))) \<and>
    (tb_active (upto_sig ev d s), tb_zmr (upto_sig ev d s), tb_connected (upto_sig ev d s), tb_telnet (upto_sig ev d s)) =
      (tb_active s, tb_zmr s, tb_connected s, tb_telnet s)"
proof -
  let ?s1 = "s\<lparr>tb_parser := tp s\<rparr>"
  have "tb_esc_state ?s1 \<le> 3" using ok by (simp add: rip_tab_ok_def)
  note c = consume_consumed [OF this, of ev d]
  obtain drew u where cd: "rip_consume ev d ?s1 = (drew, u)" by (cases "rip_consume ev d ?s1")
  obtain p en es dg se where u: "u = s\<lparr>tb_parser := p, tb_enabled := en, tb_esc_state := es, tb_esc_digit := dg, tb_sent := se\<rparr>"
      "es \<le> 3" "nib (rp_surf p)"
    using c tp_nib [OF ok] unfolding consumed_def cd by auto
  obtain forced v where r: "rip_press_resume (fst (rip_press_suspend s)) u = (forced, v)"
    by (cases "rip_press_resume (fst (rip_press_suspend s)) u")
  note v = resume_tab [OF ok u(1,3,2) r]
  have f: "upto_sig ev d s = rip_dib_refresh v" using suspend_eq [OF ok] r by (simp add: upto_sig_def cd)
  note v(1-3)
  moreover have "sc (w\<lparr>tb_dib := d'\<rparr>) = sc w" for w d' by (simp add: sc_def)
  moreover have "tb_parser u = p" by (simp add: u(1))
  ultimately show ?thesis using v by (simp add: f cd rip_dib_refresh_def)
qed

lemma upto_sig_fed:
  assumes "rip_tab_ok s" "tb_enabled s" "keeps s d" "length d \<le> 8189"
  shows "fed ev s (upto_sig ev d s) d"
  using upto_sig_ok [OF assms(1), of ev d] consume_fed [OF assms] by (simp add: fed_def)

lemma on_data_eq:
  "rip_on_data ev started data s =
     (if tb_active s then rip_push data s
      else if data = [] then s
      else case rip_scan_for_zmodem 0 (tb_zsig_len s) data of
        (None, k) \<Rightarrow> rip_feed_scene ev data (s\<lparr>tb_zsig_len := k\<rparr>)
      | (Some n, k) \<Rightarrow>
          (case rip_zmodem_begin started (asc ''Receiving file...'') (upto_sig ev (take n data) (s\<lparr>tb_zsig_len := k\<rparr>)) of (ok, s4) \<Rightarrow>
             if ok then (if n < length data then rip_push (drop n data) s4 else s4)
             else if drop n data \<noteq> [] then rip_feed_scene ev (drop n data) s4 else s4))"
  by (simp add: rip_on_data_def upto_sig_def Let_def split_beta split: option.split)

lemma same_tab_ok: "same s t \<Longrightarrow> rip_tab_ok s \<Longrightarrow> rip_tab_ok t"
  by (simp add: same_def)

lemma on_data_ok: "rip_tab_ok s \<Longrightarrow> rip_tab_ok (rip_on_data ev started data s)"
proof -
  assume ok: "rip_tab_ok s"
  obtain r k where r: "rip_scan_for_zmodem 0 (tb_zsig_len s) data = (r, k)" by (cases "rip_scan_for_zmodem 0 (tb_zsig_len s) data")
  have "k < 4" using scan_zmodem_k [of "tb_zsig_len s" 0 data] ok r by (simp add: rip_tab_ok_def)
  then have k: "rip_tab_ok (s\<lparr>tb_zsig_len := k\<rparr>)" using ok by (simp add: tab_ok_parser)
  show ?thesis
  proof (cases "tb_active s \<or> data = []")
    case True
    then show ?thesis using ok same_tab_ok [OF push_same ok] by (auto simp: on_data_eq)
  next
    case False
    show ?thesis
    proof (cases r)
      case None
      then show ?thesis using False r feed_scene_ok [OF k, of ev data] by (simp add: on_data_eq)
    next
      case (Some n)
      let ?u = "upto_sig ev (take n data) (s\<lparr>tb_zsig_len := k\<rparr>)"
      obtain b s4 where b: "rip_zmodem_begin started (asc ''Receiving file...'') ?u = (b, s4)"
        by (cases "rip_zmodem_begin started (asc ''Receiving file...'') ?u")
      have s4: "rip_tab_ok s4"
        using begin_same [of ?u started "asc ''Receiving file...''"] upto_sig_ok [OF k, of ev "take n data"] unfolding b
        by (simp add: same_def)
      then show ?thesis
        using False r Some b feed_scene_ok [OF s4, of ev "drop n data"] same_tab_ok [OF push_same s4]
        by (simp add: on_data_eq del: asc_simps)
    qed
  qed
qed

end
