(* ===== verification/RipTabSafe.thy ===== *)
theory RipTabSafe
  imports RipTabInv
begin

section \<open>Properties of the RIPscrip tab\<close>

text \<open>
  Each message and the scene, the invariant, the scene of a session against a tab that only feeds its parser, transfers the host
  starts, clicks, the time of a transfer.
\<close>

subsection \<open>Every message\<close>

lemma on_data_fed:
  fixes data :: "byte list" and started :: bool
  assumes ok: "rip_tab_ok s" and en: "tb_enabled s"
  defines "cs \<equiv> (if tb_active s \<or> data = [] then []
    else case rip_scan_for_zmodem 0 (tb_zsig_len s) data of
      (None, k) \<Rightarrow> [data]
    | (Some n, k) \<Rightarrow>
        if started \<and> tb_connected s \<and> tb_telnet s \<or> drop n data = [] then [take n data] else [take n data, drop n data])"
  assumes kp: "keeps s (concat cs)" and len: "list_all (\<lambda>c. length c \<le> 8189) cs"
  shows "fed ev s (rip_on_data ev started data s) (concat cs)"
proof (cases "tb_active s \<or> data = []")
  case True
  then have "same s (rip_on_data ev started data s)" "cs = []" using push_same by (auto simp: on_data_eq cs_def)
  then show ?thesis using same_fed [OF _ ok] by simp
next
  case False
  obtain r k where r: "rip_scan_for_zmodem 0 (tb_zsig_len s) data = (r, k)" by (cases "rip_scan_for_zmodem 0 (tb_zsig_len s) data")
  have "k < 4" using scan_zmodem_k [of "tb_zsig_len s" 0 data] ok r by (simp add: rip_tab_ok_def)
  let ?s = "s\<lparr>tb_zsig_len := k\<rparr>"
  have k: "rip_tab_ok ?s" "tb_enabled ?s" "sc ?s = sc s" using ok en \<open>k < 4\<close> by (simp_all add: tab_ok_parser sc_def)
  have kq: "keeps ?s d = keeps s d" for d by (rule keeps_sc [OF k(3)])
  have fz: "fed ev ?s t d = fed ev s t d" for t d using scan_all_sc [OF k(3), of d] by (simp add: fed_def)
  show ?thesis
  proof (cases r)
    case None
    have cs: "cs = [data]" using False by (simp add: cs_def r None)
    have "fed ev ?s (rip_feed_scene ev data ?s) data"
      using kp len by (intro feed_scene_fed k(1,2)) (simp_all add: kq cs)
    then show ?thesis using False by (simp add: on_data_eq r None cs fz)
  next
    case (Some n)
    let ?u = "upto_sig ev (take n data) ?s"
    obtain b s4 where b: "rip_zmodem_begin started (asc ''Receiving file...'') ?u = (b, s4)"
      by (cases "rip_zmodem_begin started (asc ''Receiving file...'') ?u")
    have u: "rip_tab_ok ?u" "(tb_active ?u, tb_zmr ?u, tb_connected ?u, tb_telnet ?u) = (tb_active s, tb_zmr s, tb_connected s, tb_telnet s)"
      using upto_sig_ok [OF k(1), of ev "take n data"] by simp_all
    have "tb_zmr s = None" using ok False by (simp add: rip_tab_ok_def)
    then have be: "b = (started \<and> tb_connected s \<and> tb_telnet s)"
      using b u(2) False by (cases started) (auto simp: rip_zmodem_begin_def)
    have pre: "keeps s (take n data)" "length (take n data) \<le> 8189"
      using kp len False by (auto simp: cs_def r Some keeps_append simp del: append_take_drop_id split: if_splits)
    have f1: "fed ev s ?u (take n data)"
      using upto_sig_fed [OF k(1,2), of "take n data" ev] pre by (simp add: kq fz)
    have s4: "same ?u s4" using begin_same [of ?u started "asc ''Receiving file...''"] by (simp only: b snd_conv)
    have f2: "fed ev s s4 (take n data)" using fed_trans [OF f1 same_fed [OF s4 u(1)]] by simp
    have on: "rip_on_data ev started data s = (if b then (if n < length data then rip_push (drop n data) s4 else s4)
        else if drop n data \<noteq> [] then rip_feed_scene ev (drop n data) s4 else s4)"
      using False by (simp add: on_data_eq r Some b del: asc_simps)
    have ok4: "rip_tab_ok s4" using f2 by (simp add: fed_def)
    show ?thesis
    proof (cases "b \<or> drop n data = []")
      case True
      have "concat cs = take n data" using True False by (auto simp: cs_def r Some be)
      moreover have "same s4 (rip_on_data ev started data s)" using True push_same by (auto simp: on)
      ultimately show ?thesis using fed_trans [OF f2 same_fed [OF _ ok4]] by simp
    next
      case no: False
      have cs: "cs = [take n data, drop n data]" using no False by (simp add: cs_def r Some be)
      have sc4: "sc s4 = sc (snd (scan_all s (take n data)))" using f2 by (simp add: fed_def)
      have "keeps (snd (scan_all s (take n data))) (drop n data)" "keeps s (take n data)"
        using kp by (simp_all add: cs keeps_append del: append_take_drop_id)
      then have k4: "keeps s4 (drop n data)" "tb_enabled s4"
        using keeps_sc [OF sc4] keeps_enabled [of s "take n data"] sc4 en by (simp_all add: sc_def)
      have "fed ev s4 (rip_feed_scene ev (drop n data) s4) (drop n data)"
        using len by (intro feed_scene_fed ok4 k4) (simp add: cs)
      then show ?thesis using fed_trans [OF f2] no by (simp add: on cs del: append_take_drop_id)
    qed
  qed
qed

lemma zmr_done_fed:
  assumes ok: "rip_tab_ok s"
  shows "rip_tab_ok (rip_on_zmr_done ev res s)"
    and "tb_enabled s \<Longrightarrow> t = (case res of None \<Rightarrow> [] | Some r \<Rightarrow> if tb_zmr s = None then [] else zo_tail r) \<Longrightarrow> keeps s t \<Longrightarrow> length t \<le> 8189 \<Longrightarrow>
      fed ev s (rip_on_zmr_done ev res s) t"
proof -
  let ?s1 = "s\<lparr>tb_zmr := None, tb_zmr_cancel := False, tb_active := False, tb_zsig_len := 0\<rparr>"
  have idle: "tb_zmr s = None \<Longrightarrow> s\<lparr>tb_active := False\<rparr> = s" using ok by (simp add: rip_tab_ok_def)
  have 1: "same s ?s1" by (simp add: same_def rip_tab_ok_def tp_def sc_def)
  have n: "same s u \<Longrightarrow> same s (rip_notice_set m p u)" "same s u \<Longrightarrow> same s (rip_notice_clear u)" "same s u \<Longrightarrow> same s (rip_count_blocked u)" for u m p
    by (rule same_trans, assumption, simp)+
  have d: "same s (?s1\<lparr>tb_zmr_done := k\<rparr>)" for k by (simp add: same_def rip_tab_ok_def tp_def sc_def)
  define s2 where "s2 r = (if zo_ok r
                 then rip_notice_set (take 159 (asc ''Saved '' @ zo_name r @ asc '' ('' @ num (zo_received r) @ asc '' bytes)'')) False
                        (?s1\<lparr>tb_zmr_done := tb_zmr_done ?s1 + 1\<rparr>)
                 else rip_notice_set (take 159 (asc ''Download stopped: '' @ zo_detail r)) False (rip_count_blocked ?s1))" for r :: zmr_outcome
  have s2: "same s (s2 r)" for r unfolding s2_def using n(1) [OF d] n(1) [OF n(3) [OF 1]] by auto
  have eq: "rip_on_zmr_done ev res s = (if tb_zmr s = None then s
      else case res of None \<Rightarrow> rip_notice_clear ?s1 | Some r \<Rightarrow> if zo_tail r \<noteq> [] then rip_feed_scene ev (zo_tail r) (s2 r) else s2 r)"
    unfolding rip_on_zmr_done_def Let_def s2_def using idle by simp
  show "rip_tab_ok (rip_on_zmr_done ev res s)"
    using ok s2 n(2) [OF 1] feed_scene_ok same_tab_ok by (auto simp: eq split: option.split) blast+
  assume en: "tb_enabled s" and t: "t = (case res of None \<Rightarrow> [] | Some r \<Rightarrow> if tb_zmr s = None then [] else zo_tail r)"
    and kp: "keeps s t" and len: "length t \<le> 8189"
  show "fed ev s (rip_on_zmr_done ev res s) t"
  proof (cases "tb_zmr s = None \<or> res = None \<or> t = []")
    case True
    then have "t = []" "same s (rip_on_zmr_done ev res s)" using t n(2) [OF 1] s2 by (auto simp: eq split: option.splits)
    then show ?thesis using same_fed [OF _ ok] by simp
  next
    case False
    then obtain r where r: "res = Some r" "t = zo_tail r" using t by (auto split: option.splits if_splits)
    have ok2: "rip_tab_ok (s2 r)" "sc (s2 r) = sc s" using s2 [of r] ok by (simp_all add: same_def)
    have "fed ev (s2 r) (rip_feed_scene ev t (s2 r)) t"
      using kp len keeps_sc [OF ok2(2)] ok2 en by (intro feed_scene_fed) (simp_all add: sc_def)
    then have "fed ev s (rip_feed_scene ev t (s2 r)) t" using fed_trans [OF same_fed [OF s2 ok]] by fastforce
    then show ?thesis using False r eq by auto
  qed
qed

text \<open>The chunks that a message gives to the scene.\<close>

definition to_scene :: "rip_tab \<Rightarrow> rip_event \<Rightarrow> byte list list" where
  "to_scene s e =
     (case e of
        Tel_data data started \<Rightarrow>
          if tb_active s \<or> data = [] then []
          else (case rip_scan_for_zmodem 0 (tb_zsig_len s) data of
              (None, k) \<Rightarrow> [data]
            | (Some n, k) \<Rightarrow>
                if started \<and> tb_connected s \<and> tb_telnet s \<or> drop n data = [] then [take n data] else [take n data, drop n data])
      | Zmr_done (Some r) \<Rightarrow> if tb_zmr s = None then [] else [zo_tail r]
      | _ \<Rightarrow> [])"

fun session_event :: "rip_event \<Rightarrow> bool" where
  "session_event (Connect h p r) = False"
| "session_event Disconnect = False"
| "session_event Tel_closed = False"
| "session_event _ = True"

fun ui_event :: "rip_event \<Rightarrow> bool" where
  "ui_event (Mouse_down cw cht px py) = True"
| "ui_event (Mouse_move cw cht px py) = True"
| "ui_event (Mouse_up r) = True"
| "ui_event Capture_changed = True"
| "ui_event (Key_down vk shift caps r) = True"
| "ui_event (Flash_timer r) = True"
| "ui_event Notice_timer = True"
| "ui_event _ = False"

lemma button_at_range: "rip_button_at p x y \<ge> 0 \<Longrightarrow> rip_button_at p x y < int (length (rp_buttons p))"
proof -
  have "button_at_loop bs x y n < int n \<or> button_at_loop bs x y n = -1" for bs n by (induction n) auto
  from this [of "rp_buttons p" "length (rp_buttons p)"] show "rip_button_at p x y \<ge> 0 \<Longrightarrow> ?thesis" by (auto simp: rip_button_at_def)
qed

lemma region_under_range: "region_under cw cht px py s \<ge> 0 \<Longrightarrow> region_under cw cht px py s < int (length (rp_buttons (tb_parser s)))"
  by (auto simp: region_under_def button_at_range split: option.splits)

lemma mouse_down_same: "same s (rip_on_mouse_down cw cht px py s)"
proof (cases "\<not> tb_connected s \<or> tb_active s")
  case True
  then show ?thesis by (auto simp: rip_on_mouse_down_def)
next
  case False
  let ?c = "rip_press_cancel_for_redraw s" let ?i = "region_under cw cht px py (rip_press_cancel_for_redraw s)"
  show ?thesis
  proof (cases "?i \<ge> 0")
    case no: False
    then show ?thesis using False by (simp add: rip_on_mouse_down_def Let_def)
  next
    case True
    note rng = region_under_range [OF True]
    define i where "i = ?i"
    let ?t = "?c\<lparr>tb_press_idx := i, tb_press_armed := True, tb_press_in := True, tb_capture := True\<rparr>"
    have eq: "rip_on_mouse_down cw cht px py s = rip_press_flip i ?t"
      using False True by (simp add: rip_on_mouse_down_def Let_def i_def)
    obtain e where e: "rip_press_flip i ?t = ?t\<lparr>tb_parser := flip_region i (tb_parser ?t), tb_dib := e\<rparr>"
        "look (tb_dib ?t) = look (rp_surf (tb_parser ?t)) \<longrightarrow> look e = look (rp_surf (flip_region i (tb_parser ?t)))"
      using press_flip_eq by blast
    show ?thesis
      unfolding same_def eq e(1)
    proof
      assume ok: "rip_tab_ok s"
      obtain d j a f c ft where c: "?c =
        s\<lparr>tb_parser := tp s, tb_dib := d, tb_flash_timer := ft, tb_flash_idx := f, tb_flash_cmd := c, tb_press_idx := j, tb_press_in := False, tb_press_armed := a\<rparr>"
          "look d = look (rp_surf (tp s))" "nib (rp_surf (tp s))" "f < 0"
        using cancel_ok [OF ok] by blast
      have "0 \<le> i" "i < int (length (rp_buttons (tp s)))" using True rng by (simp_all add: i_def [symmetric]) (simp add: c(1))
      then show "rip_tab_ok (?t\<lparr>tb_parser := flip_region i (tb_parser ?t), tb_dib := e\<rparr>) \<and>
          bl (\<lambda>_. 0) (tp (?t\<lparr>tb_parser := flip_region i (tb_parser ?t), tb_dib := e\<rparr>)) = bl (\<lambda>_. 0) (tp s) \<and>
          sc (?t\<lparr>tb_parser := flip_region i (tb_parser ?t), tb_dib := e\<rparr>) = sc s"
        using e(2) c ok False by (simp add: rip_tab_ok_def sc_def flip_nib) (simp add: tp_def flip_flip)
    qed
  qed
qed

lemma mouse_move_same: "same s (rip_on_mouse_move cw cht px py s)"
proof (cases "\<not> tb_press_armed s \<or> tb_press_idx s < 0")
  case True
  then show ?thesis by (auto simp: rip_on_mouse_move_def)
next
  case False
  define inside where "inside = (rip_client_to_surface cw cht px py \<noteq> None \<and> region_under cw cht px py s = tb_press_idx s)"
  show ?thesis
  proof (cases "inside = tb_press_in s")
    case True
    then show ?thesis using False unfolding rip_on_mouse_move_def inside_def [symmetric] Let_def by simp
  next
    case ne: False
    obtain e where e: "rip_press_flip (tb_press_idx s) s = s\<lparr>tb_parser := flip_region (tb_press_idx s) (tb_parser s), tb_dib := e\<rparr>"
        "look (tb_dib s) = look (rp_surf (tb_parser s)) \<longrightarrow> look e = look (rp_surf (flip_region (tb_press_idx s) (tb_parser s)))"
      using press_flip_eq by blast
    have eq: "rip_on_mouse_move cw cht px py s = s\<lparr>tb_parser := flip_region (tb_press_idx s) (tb_parser s), tb_dib := e, tb_press_in := inside\<rparr>"
      using False ne unfolding rip_on_mouse_move_def inside_def [symmetric] Let_def e(1) by simp
    have "inside \<Longrightarrow> tb_press_idx s < int (length (rp_buttons (tb_parser s)))"
      using region_under_range [of cw cht px py s] False by (simp add: inside_def)
    then show ?thesis
      using e(2) ne False unfolding same_def eq by (auto simp: rip_tab_ok_def sc_def flip_nib tp_def flip_flip)
  qed
qed

lemma same_updates: "same s (s\<lparr>tb_capture := b\<rparr>)" "same s (s\<lparr>tb_zmr_cancel := b\<rparr>)" "same s (s\<lparr>tb_notice := m, tb_notice_timer := b\<rparr>)"
    "same s (s\<lparr>tb_flash_idx := -1\<rparr>)" "same s (s\<lparr>tb_flash_idx := -1, tb_flash_cmd := []\<rparr>)"
  by (auto simp: same_def rip_tab_ok_def tp_def sc_def)

lemma mouse_up_same: "same s (rip_on_mouse_up started s)"
proof -
  let ?s1 = "if tb_capture s then rip_press_clear (s\<lparr>tb_capture := False\<rparr>) else s"
  have "same s ?s1" using same_trans [OF same_updates(1) press_clear_same] by simp
  then have 2: "same s (rip_press_clear ?s1)" using press_clear_same by (rule same_trans)
  then have "same s (rip_activate_region started i (rip_press_clear ?s1))" for i using activate_same by (rule same_trans)
  with 2 show ?thesis by (simp add: rip_on_mouse_up_def Let_def)
qed

lemma key_same: "same s (on_key_down vk shift caps started s)"
  by (simp add: on_key_down_def Let_def same_updates)

lemma flash_same: "same s (on_flash_timer started s)"
proof (cases "rip_tab_ok s")
  case ok: True
  let ?s0 = "s\<lparr>tb_flash_timer := False\<rparr>"
  let ?s1 = "rip_press_clear ?s0"
  let ?s2 = "?s1\<lparr>tb_flash_idx := -1, tb_flash_cmd := []\<rparr>"
  have "\<exists>d. ?s1 = s\<lparr>tb_flash_timer := False, tb_parser := tp s, tb_dib := d, tb_press_idx := -1, tb_press_in := False, tb_press_armed := False\<rparr> \<and>
      look d = look (rp_surf (tp s)) \<and> nib (rp_surf (tp s))"
  proof (cases "tb_press_in s")
    case True
    obtain d where "rip_press_flip (tb_press_idx s) s = s\<lparr>tb_parser := tp s, tb_dib := d\<rparr>"
        "look d = look (rp_surf (tp s))" "nib (rp_surf (tp s))" using press_off [OF ok] True by auto
    moreover have "rip_press_flip i ?s0 = (rip_press_flip i s)\<lparr>tb_flash_timer := False\<rparr>" for i
      by (simp add: rip_press_flip_def rip_dib_refresh_def rip_press_flip_quiet_def)
    ultimately show ?thesis using True by (intro exI [of _ d]) (simp add: rip_press_clear_def Let_def)
  next
    case False
    then show ?thesis using ok by (intro exI [of _ "tb_dib s"]) (simp add: rip_press_clear_def Let_def tp_def rip_tab_ok_def)
  qed
  then obtain d where off: "?s1 = s\<lparr>tb_flash_timer := False, tb_parser := tp s, tb_dib := d, tb_press_idx := -1, tb_press_in := False, tb_press_armed := False\<rparr>"
      "look d = look (rp_surf (tp s))" "nib (rp_surf (tp s))" by blast
  have t: "tp (?s1\<lparr>tb_flash_idx := i, tb_flash_cmd := c\<rparr>) = tp s" for i c by (subst tp_def) (simp add: off(1))
  have ok1: "rip_tab_ok (?s1\<lparr>tb_flash_idx := -1, tb_flash_cmd := c\<rparr>)" for c using off(2,3) ok by (simp add: off(1) rip_tab_ok_def)
  have c1: "sc (?s1\<lparr>tb_flash_idx := i, tb_flash_cmd := c\<rparr>) = sc s" for i c by (simp add: off(1) sc_def)
  have "same s (?s1\<lparr>tb_flash_idx := -1, tb_flash_cmd := c\<rparr>)" for c using t ok1 c1 by (simp add: same_def)
  from this [of "tb_flash_cmd ?s1"] this [of "[]"] have s1: "same s (?s1\<lparr>tb_flash_idx := -1\<rparr>)" "same s ?s2" by simp_all
  have "same s ((rip_send_command started c ?s2)\<lparr>tb_flash_idx := -1\<rparr>)" for c
    using same_trans [OF s1(2) same_trans [OF send_command_same same_updates(4)]] .
  then show ?thesis using s1(1) by (simp add: on_flash_timer_def Let_def)
next
  case False
  then show ?thesis by (simp add: same_def)
qed

lemma ui_same: "ui_event e \<Longrightarrow> same s (rip_tab_step ev s e)"
  using same_trans [OF same_updates(1) press_clear_same] same_updates(3)
  by (cases e) (simp_all add: rip_tab_step_def mouse_down_same mouse_move_same mouse_up_same key_same flash_same)

lemma progress_same: "same s (rip_on_zmr_progress p s)"
  by (simp add: rip_on_zmr_progress_def Let_def)

lemma close_ok: "rip_tab_ok s \<Longrightarrow> rip_tab_ok (rip_close_session s)"
proof -
  assume ok: "rip_tab_ok s"
  let ?s1 = "if tb_active s \<or> tb_zmr s \<noteq> None then rip_zmodem_abandon s else s"
  have ok1: "rip_tab_ok ?s1" "\<not> tb_active ?s1" "tb_zmr ?s1 = None"
    using ok by (auto simp: rip_zmodem_abandon_def rip_notice_clear_def rip_tab_ok_def)
  obtain d i a f c ft where c: "rip_press_cancel_for_redraw ?s1 =
    ?s1\<lparr>tb_parser := tp ?s1, tb_dib := d, tb_flash_timer := ft, tb_flash_idx := f, tb_flash_cmd := c, tb_press_idx := i, tb_press_in := False, tb_press_armed := a\<rparr>"
      "look d = look (rp_surf (tp ?s1))" "nib (rp_surf (tp ?s1))" "f < 0"
    using cancel_ok [OF ok1(1)] by blast
  then show ?thesis
    unfolding rip_close_session_def Let_def c(1) using ok1(2,3) by (simp only: rip_tab_ok_def) simp
qed

lemma init_nib: "nib (rp_surf (rip_parser_init surf))" "rp_buttons (rip_parser_init surf) = []"
  by (simp_all add: rip_parser_init_def rip_parser_reset_def reset_nib)

lemma connect_ok: "rip_tab_ok s \<Longrightarrow> rip_tab_ok (rip_do_connect host port opened s)"
proof (cases "tb_connected s \<or> tb_telnet s \<or> take 255 host = []")
  case True
  moreover assume "rip_tab_ok s"
  ultimately show ?thesis by (auto simp: rip_do_connect_def Let_def)
next
  case False
  assume ok: "rip_tab_ok s"
  define pt where "pt = (let port0 = atoi (take 15 port) in if port0 \<le> 0 \<or> port0 > 65535 then 23 else port0)"
  let ?s0 = "s\<lparr>tb_host := take 255 host, tb_port := pt\<rparr>"
  have ok0: "rip_tab_ok ?s0" "\<not> tb_active s" using ok False by (auto simp: rip_tab_ok_def)
  obtain d i a f c ft where c: "rip_press_cancel_for_redraw ?s0 =
    ?s0\<lparr>tb_parser := tp ?s0, tb_dib := d, tb_flash_timer := ft, tb_flash_idx := f, tb_flash_cmd := c, tb_press_idx := i, tb_press_in := False, tb_press_armed := a\<rparr>"
      "f < 0" using cancel_ok [OF ok0(1)] by blast
  have "rip_do_connect host port opened s =
      (let s2 = rip_dib_refresh ((rip_press_cancel_for_redraw ?s0)\<lparr>tb_parser := rip_parser_init (rp_surf (tb_parser (rip_press_cancel_for_redraw ?s0))),
          tb_enabled := True, tb_ever_drew := False, tb_zsig_len := 0\<rparr>) in s2\<lparr>tb_opened := tb_opened s2 @ [(take 255 host, pt)], tb_telnet := opened\<rparr>)"
    using False by (simp add: rip_do_connect_def Let_def pt_def)
  then show ?thesis unfolding c(1) using ok0 c(2) by (simp add: rip_tab_ok_def Let_def rip_dib_refresh_def init_nib reset_nib)
qed

lemma rip_tab_step_ok: "rip_tab_ok s \<Longrightarrow> rip_tab_ok (rip_tab_step ev s e)"
proof (cases "ui_event e")
  case True
  moreover assume "rip_tab_ok s"
  ultimately show ?thesis using ui_same by (auto simp: same_def)
next
  case False
  assume ok: "rip_tab_ok s"
  then show ?thesis
    using False on_data_ok [OF ok] zmr_done_fed(1) [OF ok] connect_ok [OF ok] close_ok [OF ok] same_tab_ok [OF progress_same ok]
    by (cases e) (auto simp: rip_tab_step_def, simp add: rip_tab_ok_def)
qed

interpretation riptab: stream_machine "rip_tab_step ev" "\<lambda>_ _. True" rip_tab_ok for ev
  by unfold_locales (rule rip_tab_step_ok)

text \<open>
  C40: The tab is never out of step. Whatever messages come, in whatever order: the bitmap on the canvas shows the surface as it is, pressed looks
  included; the cells of the surface are palette indices; a pressed look is that of a region that exists; the receiver runs exactly while the tab is in
  receive mode, with a connected session and without a press; a waiting command has its timer.
\<close>

theorem rip_tab_invariant: "rip_tab_ok (foldl (rip_tab_step ev) (rip_tab_init surf) es)"
proof -
  have "rip_tab_ok (rip_tab_init surf)"
    by (simp add: rip_tab_init_def rip_dib_refresh_def rip_tab_ok_def init_nib reset_nib)
  then show ?thesis by (rule riptab.run_inv [OF _ run_ok_True])
qed

subsection \<open>The scene of a session\<close>

fun scene_chunks :: "rip_env \<Rightarrow> rip_tab \<Rightarrow> rip_event list \<Rightarrow> byte list list" where
  "scene_chunks ev s [] = []"
| "scene_chunks ev s (e # es) = to_scene s e @ scene_chunks ev (rip_tab_step ev s e) es"

lemma step_fed:
  assumes "rip_tab_ok s" "tb_enabled s" "session_event e" "keeps s (concat (to_scene s e))" "list_all (\<lambda>c. length c \<le> 8189) (to_scene s e)"
  shows "fed ev s (rip_tab_step ev s e) (concat (to_scene s e))"
proof (cases "ui_event e")
  case True
  moreover from this have "to_scene s e = []" by (cases e) (simp_all add: to_scene_def)
  ultimately show ?thesis using same_fed [OF ui_same assms(1)] by simp
next
  case False
  have upd: "same s (s\<lparr>tb_connected := True\<rparr>)" by (simp add: same_def rip_tab_ok_def tp_def sc_def)
  show ?thesis
  proof (cases e)
    case (Tel_data data started)
    then show ?thesis using on_data_fed [OF assms(1,2), of data started ev] assms(4,5) by (simp add: rip_tab_step_def to_scene_def)
  next
    case (Zmr_done res)
    have t: "concat (to_scene s e) = (case res of None \<Rightarrow> [] | Some r \<Rightarrow> if tb_zmr s = None then [] else zo_tail r)"
      by (auto simp: to_scene_def Zmr_done split: option.split)
    have "length (concat (to_scene s e)) \<le> 8189" using assms(5) by (auto simp: to_scene_def Zmr_done split: option.splits)
    then show ?thesis using zmr_done_fed(2) [OF assms(1,2) t assms(4)] by (simp add: rip_tab_step_def Zmr_done)
  next
    case (Zmr_progress p)
    then show ?thesis using same_fed [OF progress_same assms(1)] by (simp add: rip_tab_step_def to_scene_def)
  next
    case Tel_connected
    then show ?thesis using same_fed [OF upd assms(1)] by (simp add: rip_tab_step_def to_scene_def)
  next
    case Tel_error
    then show ?thesis using same_fed [OF same_refl assms(1)] by (simp add: rip_tab_step_def to_scene_def)
  qed (use False assms(3) in simp_all)
qed

lemma script_fed:
  assumes "rip_tab_ok s" "tb_enabled s" "list_all session_event es" "keeps s (concat (scene_chunks ev s es))"
    and "list_all (\<lambda>c. length c \<le> 8189) (scene_chunks ev s es)"
  shows "fed ev s (foldl (rip_tab_step ev) s es) (concat (scene_chunks ev s es))"
  using assms
proof (induction es arbitrary: s)
  case Nil
  then show ?case by (simp add: fed_def)
next
  case (Cons e es)
  let ?t = "rip_tab_step ev s e" and ?d = "concat (to_scene s e)"
  have k: "keeps s ?d" "keeps (snd (scan_all s ?d)) (concat (scene_chunks ev ?t es))"
    using Cons.prems(4) by (simp_all add: keeps_append)
  have f: "fed ev s ?t ?d" using Cons.prems k(1) by (intro step_fed) simp_all
  then have t: "rip_tab_ok ?t" "sc ?t = sc (snd (scan_all s ?d))" by (simp_all add: fed_def)
  have "tb_enabled ?t" using t(2) keeps_enabled [OF k(1)] Cons.prems(2) by (simp add: sc_def)
  then have "fed ev ?t (foldl (rip_tab_step ev) ?t es) (concat (scene_chunks ev ?t es))"
    using Cons.prems t keeps_sc [OF t(2)] k(2) by (intro Cons.IH) simp_all
  with f show ?case using fed_trans by simp
qed

text \<open>A host's stream: text, escape sequences that are not for the scanner, queries.\<close>

datatype rip_token = Lit byte | Esc1 byte | Esc2 byte | Esc3 byte byte | Query | Query0

fun tok_ok :: "rip_token \<Rightarrow> bool" where
  "tok_ok (Lit b) = (b \<noteq> 0x1B)"
| "tok_ok (Esc1 x) = (x \<noteq> 0x5B)"
| "tok_ok (Esc2 y) = (y \<notin> {0x21, 0x30, 0x31, 0x32})"
| "tok_ok (Esc3 d y) = (d \<in> {0x30, 0x31, 0x32} \<and> y \<noteq> 0x21)"
| "tok_ok _ = True"

fun enc :: "rip_token \<Rightarrow> byte list" where
  "enc (Lit b) = [b]"
| "enc (Esc1 x) = [0x1B, x]"
| "enc (Esc2 y) = [0x1B, 0x5B, y]"
| "enc (Esc3 d y) = [0x1B, 0x5B, d, y]"
| "enc Query = [0x1B, 0x5B, 0x21]"
| "enc Query0 = [0x1B, 0x5B, 0x30, 0x21]"

fun dec :: "rip_token \<Rightarrow> byte list" where
  "dec Query = []"
| "dec Query0 = []"
| "dec t = enc t"

lemma digits: "((0x30 :: byte) \<le> y \<and> y \<le> 0x32) = (y \<in> {0x30, 0x31, 0x32})"
proof -
  have "((0x30 :: byte) \<le> y \<and> y \<le> 0x32) = (uint y \<in> {48, 49, 50})" by (auto simp: word_le_def)
  also have "\<dots> = (y \<in> {0x30, 0x31, 0x32})" by (auto simp: word_uint_eq_iff)
  finally show ?thesis .
qed

lemma scan_tok:
  assumes "tok_ok t" "tb_esc_state s = 0"
  shows "fst (scan_all s (enc t)) = dec t \<and> tb_esc_state (snd (scan_all s (enc t))) = 0 \<and> keeps s (enc t)"
proof (cases t)
  case (Esc2 y)
  then have "\<not> ((0x30 :: byte) \<le> y \<and> y \<le> 0x32)" using assms(1) by (simp add: digits)
  then show ?thesis using assms by (simp add: Esc2 rip_scan_def Let_def)
next
  case (Esc3 d y)
  then have "(0x30 :: byte) \<le> d \<and> d \<le> 0x32" "d \<noteq> 0x21" using assms(1) by (auto simp: digits)
  then show ?thesis using assms by (auto simp: Esc3 rip_scan_def Let_def)
qed (use assms in \<open>auto simp: rip_scan_def Let_def rip_send_raw_def\<close>)

lemma scan_toks:
  "list_all tok_ok ts \<Longrightarrow> tb_esc_state s = 0 \<Longrightarrow>
     fst (scan_all s (concat (map enc ts))) = concat (map dec ts) \<and> tb_esc_state (snd (scan_all s (concat (map enc ts)))) = 0 \<and>
     keeps s (concat (map enc ts))"
proof (induction ts arbitrary: s)
  case (Cons t ts)
  note h = scan_tok [of t s]
  show ?case using h Cons.prems Cons.IH [of "snd (scan_all s (enc t))"] by (simp add: scan_all_append keeps_append)
qed simp

lemma scene_exact:
  assumes "rip_tab_ok s" "tb_enabled s" "tb_esc_state s = 0" "list_all session_event es"
    and "list_all (\<lambda>c. length c \<le> 8189) (scene_chunks ev s es)"
    and "list_all tok_ok toks" "concat (scene_chunks ev s es) = concat (map enc toks)"
  shows "bl (\<lambda>_. 0) (tp (foldl (rip_tab_step ev) s es)) = snd (rip_parser_feed ev (bl (\<lambda>_. 0) (tp s)) (concat (map dec toks)))"
proof -
  note h = scan_toks [OF assms(6,3)]
  have "fed ev s (foldl (rip_tab_step ev) s es) (concat (scene_chunks ev s es))"
    using assms h by (intro script_fed) simp_all
  then show ?thesis using h by (simp add: fed_def assms(7))
qed

text \<open>
  C20: The scene is what the host drew. During a session, whatever the user does with the mouse and the keyboard, and whatever is downloaded in between:
  the parser, with the pressed look taken off, is the parser of a tab that does nothing but feed it the host's text, with the auto-sensing queries taken out and every other
  byte in its place. The stream may arrive in any chunks of at most 8189 bytes (a longer one can lose a byte, \<open>rip_byte_lost\<close>); it has no command that turns RIPscrip off or on
  (\<open>ESC [ 1 !\<close>, \<open>ESC [ 2 !\<close>); the counter of refused downloads is left out of the comparison.
\<close>

theorem rip_scene_exact:
  assumes "rip_tab_ok s" "tb_enabled s" "tb_esc_state s = 0" "list_all session_event es"
    and "list_all (\<lambda>c. length c \<le> 8189) (scene_chunks ev s es)"
    and "list_all tok_ok toks" "concat (scene_chunks ev s es) = concat (map enc toks)"
  shows "bl (\<lambda>_. 0) (tp (foldl (rip_tab_step ev) s es)) = snd (rip_parser_feed ev (bl (\<lambda>_. 0) (tp s)) (concat (map dec toks)))"
  by (rule scene_exact [OF assms])

subsection \<open>Transfers\<close>

lemma zscan_append:
  "rip_scan_for_zmodem i k (a @ b) =
     (case rip_scan_for_zmodem i k a of (None, k') \<Rightarrow> rip_scan_for_zmodem (i + length a) k' b | (Some n, k') \<Rightarrow> (Some n, k'))"
  by (induction i k a rule: rip_scan_for_zmodem.induct) (auto split: option.splits prod.splits)

lemma zscan_shift: "rip_scan_for_zmodem (i + j) k d = (map_option (\<lambda>n. n + j) (fst (rip_scan_for_zmodem i k d)), snd (rip_scan_for_zmodem i k d))"
  by (induction i k d rule: rip_scan_for_zmodem.induct) auto

lemma zscan_range: "rip_scan_for_zmodem i k d = (Some n, k') \<Longrightarrow> i < n \<and> n \<le> i + length d \<and> k' = 0"
  by (induction i k d rule: rip_scan_for_zmodem.induct) (auto split: if_splits)

lemma zscan_plain: "0x2A \<notin> set d \<Longrightarrow> rip_scan_for_zmodem i 0 d = (None, 0)"
  by (induction d arbitrary: i) (auto simp: rip_sig_def)

lemma nth_rip_sig: "k < 4 \<Longrightarrow> take (Suc k) rip_sig = take k rip_sig @ [rip_sig ! k]"
  by (rule take_Suc_conv_app_nth) (simp add: rip_sig_def)

lemma zscan_found: "rip_scan_for_zmodem i k d = (Some n, k') \<Longrightarrow> k < 4 \<Longrightarrow> \<exists>x y. take k rip_sig @ d = x @ rip_sig @ y"
proof (induction i k d rule: rip_scan_for_zmodem.induct)
  case (2 i k b bs)
  show ?case
  proof (cases "b = rip_sig ! k")
    case True
    then have t: "take k rip_sig @ b # bs = take (Suc k) rip_sig @ bs" using nth_rip_sig [OF 2(4)] by simp
    show ?thesis
    proof (cases "Suc k = 4")
      case True
      then have "take (Suc k) rip_sig @ bs = [] @ rip_sig @ bs" by (simp add: rip_sig_def)
      then show ?thesis unfolding t by blast
    next
      case False
      then show ?thesis unfolding t using 2 \<open>b = rip_sig ! k\<close> by (auto simp: t)
    qed
  next
    case False
    let ?k = "if b = rip_sig ! 0 then 1 else 0"
    have "?k < (4 :: nat)" by simp
    then obtain x y where "take ?k rip_sig @ bs = x @ rip_sig @ y" using 2(2) [OF _] 2(3,4) False by auto
    moreover have "b # bs = (if b = rip_sig ! 0 then [] else [b]) @ take ?k rip_sig @ bs" by (simp add: rip_sig_def)
    ultimately have "take k rip_sig @ b # bs = (take k rip_sig @ (if b = rip_sig ! 0 then [] else [b]) @ x) @ rip_sig @ y" by simp
    then show ?thesis by blast
  qed
qed simp

lemma zscan_state: "rip_scan_for_zmodem i k d = (None, k') \<Longrightarrow> k < 4 \<Longrightarrow> (d = [] \<longrightarrow> k' = k) \<and> (d \<noteq> [] \<and> last d \<noteq> 0x2A \<longrightarrow> k' = 0 \<or> k' = 3)"
proof (induction i k d rule: rip_scan_for_zmodem.induct)
  case (2 i k b bs)
  have "k = 0 \<or> k = 1 \<or> k = 2 \<or> k = 3" using 2(4) by auto
  then show ?case using 2(1,2,3) by (auto simp: rip_sig_def split: if_splits)
qed simp

lemma zscan_first:
  assumes "pre = [] \<or> last pre \<noteq> 0x2A" "\<not> (\<exists>x y. pre = x @ rip_sig @ y)"
  shows "rip_scan_for_zmodem 0 0 (pre @ rip_sig @ rest) = (Some (length pre + 4), 0)"
proof -
  obtain r k where r: "rip_scan_for_zmodem 0 0 pre = (r, k)" by (cases "rip_scan_for_zmodem 0 0 pre")
  have n: "r = None" using zscan_found [of 0 0 pre _ k] r assms(2) by (cases r) auto
  then have "k = 0 \<or> k = 3" using zscan_state [of 0 0 pre k] r assms(1) by auto
  then show ?thesis unfolding zscan_append [of 0 0 pre] r n by (auto simp: rip_sig_def)
qed

text \<open>After an odd number of asterisks, from three on, the signature goes unseen.\<close>

lemma zscan_star: "0x2A \<notin> set rest \<Longrightarrow> rip_scan_for_zmodem i 0 (0x2A # rip_sig @ rest) = (None, 0)"
  by (simp add: rip_sig_def zscan_plain)

definition rip_data_events :: "bool \<Rightarrow> byte list list \<Rightarrow> rip_event list" where
  "rip_data_events started cs = map (\<lambda>c. Tel_data c started) cs"

lemma push_chunks:
  "tb_active s \<Longrightarrow> tb_zmr s = Some p \<Longrightarrow>
     tb_zmr (foldl (rip_tab_step ev) s (rip_data_events st cs)) = Some (p @ concat cs) \<and> tb_active (foldl (rip_tab_step ev) s (rip_data_events st cs)) \<and>
     scene_chunks ev s (rip_data_events st cs) = []"
  by (induction cs arbitrary: s p) (simp_all add: rip_data_events_def rip_tab_step_def rip_on_data_def rip_push_def to_scene_def)

lemma transfer_chunks:
  assumes "rip_tab_ok s" "\<not> tb_active s" "tb_connected s" "tb_telnet s"
    and "rip_scan_for_zmodem 0 (tb_zsig_len s) (concat cs) = (Some n, k)"
  shows "tb_zmr (foldl (rip_tab_step ev) s (rip_data_events True cs)) = Some (drop n (concat cs)) \<and>
    tb_active (foldl (rip_tab_step ev) s (rip_data_events True cs)) \<and> concat (scene_chunks ev s (rip_data_events True cs)) = take n (concat cs)"
  using assms
proof (induction cs arbitrary: s n k)
  case (Cons c cs)
  note ok = Cons.prems(1)
  let ?t = "rip_on_data ev True c s"
  have step: "foldl (rip_tab_step ev) s (rip_data_events True (c # cs)) = foldl (rip_tab_step ev) ?t (rip_data_events True cs)"
    by (simp add: rip_data_events_def rip_tab_step_def)
  have sch: "scene_chunks ev s (rip_data_events True (c # cs)) = to_scene s (Tel_data c True) @ scene_chunks ev ?t (rip_data_events True cs)"
    by (simp add: rip_data_events_def rip_tab_step_def)
  obtain r k1 where r: "rip_scan_for_zmodem 0 (tb_zsig_len s) c = (r, k1)" by (cases "rip_scan_for_zmodem 0 (tb_zsig_len s) c")
  show ?case
  proof (cases "c = []")
    case True
    then have "?t = s" "to_scene s (Tel_data c True) = []" using Cons.prems(2) by (simp_all add: rip_on_data_def to_scene_def)
    then show ?thesis using Cons.IH [OF Cons.prems(1-4), of n k] Cons.prems(5) step sch unfolding True by simp
  next
    case ne: False
    show ?thesis
    proof (cases r)
      case None
      let ?s = "s\<lparr>tb_zsig_len := k1\<rparr>"
      have "k1 < 4" using scan_zmodem_k [of "tb_zsig_len s" 0 c] ok r by (simp add: rip_tab_ok_def)
      then have k1: "rip_tab_ok ?s" using ok by (simp add: tab_ok_parser)
      have t: "?t = rip_feed_scene ev c ?s" using Cons.prems(2) ne by (simp add: on_data_eq r None)
      then have t': "rip_tab_ok ?t" "\<not> tb_active ?t" "tb_connected ?t" "tb_telnet ?t" "tb_zsig_len ?t = k1"
        using feed_scene_ok [OF k1, of ev c] Cons.prems(2-4) by (simp_all add: Let_def)
      have "rip_scan_for_zmodem (length c) k1 (concat cs) = (Some n, k)"
        using Cons.prems(5) by (simp add: zscan_append r None)
      then have n: "rip_scan_for_zmodem 0 k1 (concat cs) = (Some (n - length c), k)" "length c \<le> n"
        using zscan_shift [of 0 "length c" k1 "concat cs"]
        by (cases "rip_scan_for_zmodem 0 k1 (concat cs)", cases "fst (rip_scan_for_zmodem 0 k1 (concat cs))"; simp)+
      have "to_scene s (Tel_data c True) = [c]" using Cons.prems(2) ne by (simp add: to_scene_def r None)
      then show ?thesis using Cons.IH [OF t'(1-4), of "n - length c" k] t'(5) n by (simp add: step sch)
    next
      case (Some m)
      then have m: "m = n" using Cons.prems(5) by (simp add: zscan_append r)
      have le: "n \<le> length c" using zscan_range [OF r [unfolded Some]] m by simp
      let ?s = "s\<lparr>tb_zsig_len := k1\<rparr>"
      have "k1 < 4" using scan_zmodem_k [of "tb_zsig_len s" 0 c] ok r by (simp add: rip_tab_ok_def)
      then have k1: "rip_tab_ok ?s" using ok by (simp add: tab_ok_parser)
      let ?u = "upto_sig ev (take n c) ?s"
      have zn: "tb_zmr s = None" using ok Cons.prems(2) by (simp add: rip_tab_ok_def)
      then have u: "\<not> tb_active ?u" "tb_zmr ?u = None" "tb_connected ?u" "tb_telnet ?u"
        using upto_sig_ok [OF k1, of ev "take n c"] Cons.prems(2-4) by simp_all
      then have b: "fst (rip_zmodem_begin True (asc ''Receiving file...'') ?u)"
          "tb_zmr (snd (rip_zmodem_begin True (asc ''Receiving file...'') ?u)) = Some []"
          "tb_active (snd (rip_zmodem_begin True (asc ''Receiving file...'') ?u))"
        by (simp_all add: rip_zmodem_begin_def rip_notice_set_def Let_def)
      have t: "tb_active ?t" "tb_zmr ?t = Some (drop n c)"
        using Cons.prems(2) ne b by (auto simp: on_data_eq r Some m split_beta rip_push_def simp del: asc_simps)
      have "to_scene s (Tel_data c True) = [take n c]"
        using Cons.prems(2-4) ne by (simp add: to_scene_def r Some m)
      then show ?thesis
        using push_chunks [OF t, of ev True cs] le by (simp add: step sch)
    qed
  qed
qed simp

lemma data_chunks_short: "list_all (\<lambda>c. length c \<le> m) cs \<Longrightarrow> list_all (\<lambda>c. length c \<le> m) (scene_chunks ev s (rip_data_events st cs))"
proof (induction cs arbitrary: s)
  case (Cons c cs)
  then have "list_all (\<lambda>c. length c \<le> m) (to_scene s (Tel_data c st))"
    by (auto simp: to_scene_def split: prod.splits option.splits)
  with Cons show ?case by (simp add: rip_data_events_def)
qed (simp add: rip_data_events_def)

text \<open>
  C26: A file that the host sends on its own is received whole. When the opening of a Zmodem header comes for the first time in the stream of a session, in any chunks of at most 8189 bytes, and no
  asterisk stands right before it (then it can be missed, \<open>zscan_star\<close>): the parser of the scene has been fed everything up to the last byte of that opening, the queries taken out, as a tab would that
  only feeds its parser, and the receiver is started and has been handed every byte after it, in order. (The text before has no command that turns RIPscrip off or on; the pressed look and the counter of
  refused downloads are left out of the comparison.)
\<close>

theorem rip_transfer_received:
  assumes "rip_tab_ok s" "tb_enabled s" "tb_esc_state s = 0" "\<not> tb_active s" "tb_connected s" "tb_telnet s" "tb_zsig_len s = 0"
    and "list_all tok_ok toks" "pre = concat (map enc toks)" "pre = [] \<or> last pre \<noteq> 0x2A" "\<not> (\<exists>x y. pre = x @ rip_sig @ y)"
    and "concat cs = pre @ rip_sig @ rest" "list_all (\<lambda>c. length c \<le> 8189) cs"
  shows "let s' = foldl (rip_tab_step ev) s (rip_data_events True cs) in
    tb_active s' \<and> tb_zmr s' = Some rest \<and>
    bl (\<lambda>_. 0) (tp s') = snd (rip_parser_feed ev (bl (\<lambda>_. 0) (tp s)) (concat (map dec toks) @ rip_sig))"
proof -
  let ?es = "rip_data_events True cs"
  have "rip_scan_for_zmodem 0 (tb_zsig_len s) (concat cs) = (Some (length pre + 4), 0)"
    using zscan_first [OF assms(10,11)] by (simp add: assms(7,12))
  moreover have "length rip_sig = 4" by (simp add: rip_sig_def)
  ultimately have t: "tb_zmr (foldl (rip_tab_step ev) s ?es) = Some rest" "tb_active (foldl (rip_tab_step ev) s ?es)" "concat (scene_chunks ev s ?es) = pre @ rip_sig"
    using transfer_chunks [OF assms(1,4-6), of cs "length pre + 4" 0 ev] by (simp_all add: assms(12))
  have "list_all session_event ?es" by (simp add: rip_data_events_def list_all_iff)
  moreover have "list_all tok_ok (toks @ map Lit rip_sig)" "concat (scene_chunks ev s ?es) = concat (map enc (toks @ map Lit rip_sig))"
    using assms(8) t(3) by (simp_all add: assms(9) rip_sig_def)
  ultimately have "bl (\<lambda>_. 0) (tp (foldl (rip_tab_step ev) s ?es)) = snd (rip_parser_feed ev (bl (\<lambda>_. 0) (tp s)) (concat (map dec (toks @ map Lit rip_sig))))"
    using data_chunks_short [OF assms(13)] assms(1-3) by (intro scene_exact) simp_all
  moreover have "concat (map dec (map Lit rip_sig)) = rip_sig" by (simp add: rip_sig_def)
  ultimately show ?thesis using t by (simp add: Let_def)
qed

text \<open>A session that has just been connected.\<close>

definition rip_demo_tab :: "rip_ega \<Rightarrow> rip_tab" where
  "rip_demo_tab surf = (rip_tab_init surf)\<lparr>tb_telnet := True, tb_connected := True\<rparr>"

lemma rip_demo_tab_ok: "rip_tab_ok (rip_demo_tab surf)"
  by (simp add: rip_demo_tab_def rip_tab_init_def rip_dib_refresh_def rip_tab_ok_def init_nib reset_nib)

lemma rip_demo_tab_fields [simp]:
  "\<not> tb_active (rip_demo_tab surf)" "tb_connected (rip_demo_tab surf)" "tb_telnet (rip_demo_tab surf)" "tb_zsig_len (rip_demo_tab surf) = 0"
  "tb_enabled (rip_demo_tab surf)" "tb_esc_state (rip_demo_tab surf) = 0" "tp (rip_demo_tab surf) = rip_parser_init surf" "tb_zmr (rip_demo_tab surf) = None"
  by (simp_all add: rip_demo_tab_def rip_tab_init_def rip_dib_refresh_def tp_def)

theorem rip_transfer_received_witness:
  "\<forall>ev surf. tb_zmr (foldl (rip_tab_step ev) (rip_demo_tab surf) (rip_data_events True [asc ''*b*'' @ [0x1B, 0x5B], [0x21, 0x2A, 0x2A, 0x18], asc ''B01'', asc ''2''])) = Some (asc ''012'')"
proof (intro allI)
  fix ev surf
  let ?toks = "[Lit 0x2A, Lit 0x62, Lit 0x2A, Query]" and ?cs = "[asc ''*b*'' @ [0x1B, 0x5B], [0x21, 0x2A, 0x2A, 0x18], asc ''B01'', asc ''2'']"
  have pre: "asc ''*b*'' @ [0x1B, 0x5B, 0x21] = concat (map enc ?toks)" by simp
  have c: "concat ?cs = (asc ''*b*'' @ [0x1B, 0x5B, 0x21]) @ rip_sig @ asc ''012''" by (simp add: rip_sig_def)
  have "0x18 \<notin> set (asc ''*b*'' @ [0x1B, 0x5B, 0x21])" "0x18 \<in> set rip_sig" by (simp_all add: rip_sig_def)
  then have n: "\<not> (\<exists>x y. asc ''*b*'' @ [0x1B, 0x5B, 0x21] = x @ rip_sig @ y)" by (metis UnCI set_append)
  from rip_transfer_received [OF rip_demo_tab_ok rip_demo_tab_fields(5,6,1-4) _ pre _ n c, of ev surf]
  show "tb_zmr (foldl (rip_tab_step ev) (rip_demo_tab surf) (rip_data_events True ?cs)) = Some (asc ''012'')"
    by (simp add: Let_def)
qed

theorem rip_scene_exact_witness:
  "\<forall>ev surf. bl (\<lambda>_. 0) (tp (foldl (rip_tab_step ev) (rip_demo_tab surf)
      [Mouse_down 640 480 5 5, Tel_data (asc ''!|*'' @ [0x1B]) True, Tel_data (asc ''[!|1K'' @ [0x0A]) True, Mouse_up True])) =
     snd (rip_parser_feed ev (bl (\<lambda>_. 0) (rip_parser_init surf)) (asc ''!|*|1K'' @ [0x0A]))"
proof (intro allI)
  fix ev surf
  define a where "a = asc ''!|*'' @ [0x1B]"
  define b where "b = asc ''[!|1K'' @ [0x0A]"
  let ?es = "[Mouse_down 640 480 5 5, Tel_data a True, Tel_data b True, Mouse_up True]"
  let ?toks = "[Lit 0x21, Lit 0x7C, Lit 0x2A, Query, Lit 0x7C, Lit 0x31, Lit 0x4B, Lit 0x0A]"
  let ?s = "rip_demo_tab surf"
  have z: "rip_scan_for_zmodem 0 0 a = (None, 0)" "rip_scan_for_zmodem 0 0 b = (None, 0)" by (simp_all add: a_def b_def rip_sig_def)
  have ab: "a \<noteq> []" "b \<noteq> []" by (simp_all add: a_def b_def)
  have "region_under 640 480 5 5 (rip_press_cancel_for_redraw ?s) = -1"
    by (simp add: rip_demo_tab_def rip_tab_init_def rip_dib_refresh_def rip_press_cancel_for_redraw_def region_under_def rip_button_at_def init_nib(2) split: option.split)
  then have md: "rip_tab_step ev ?s (Mouse_down 640 480 5 5) = ?s"
    by (simp add: rip_tab_step_def rip_on_mouse_down_def Let_def)
      (simp add: rip_demo_tab_def rip_tab_init_def rip_dib_refresh_def rip_press_cancel_for_redraw_def)
  let ?t = "rip_feed_scene ev a (?s\<lparr>tb_zsig_len := 0\<rparr>)"
  have s0: "rip_tab_ok (?s\<lparr>tb_zsig_len := 0\<rparr>)" using rip_demo_tab_ok by (simp add: tab_ok_parser)
  have t: "rip_tab_step ev ?s (Tel_data a True) = ?t"
    using ab by (simp add: rip_tab_step_def on_data_eq z)
  have tf: "\<not> tb_active ?t" "tb_zsig_len ?t = 0" using feed_scene_ok [OF s0, of ev a] by (simp_all add: Let_def)
  have sc: "scene_chunks ev ?s ?es = [a, b]"
    using tf ab z by (simp add: md t to_scene_def)
  have "bl (\<lambda>_. 0) (tp (foldl (rip_tab_step ev) ?s ?es)) = snd (rip_parser_feed ev (bl (\<lambda>_. 0) (tp ?s)) (concat (map dec ?toks)))"
    by (rule rip_scene_exact [OF rip_demo_tab_ok], simp, simp, simp, unfold sc, simp add: a_def b_def, simp, simp add: a_def b_def)
  then show "bl (\<lambda>_. 0) (tp (foldl (rip_tab_step ev) ?s [Mouse_down 640 480 5 5, Tel_data (asc ''!|*'' @ [0x1B]) True, Tel_data (asc ''[!|1K'' @ [0x0A]) True, Mouse_up True])) =
      snd (rip_parser_feed ev (bl (\<lambda>_. 0) (rip_parser_init surf)) (asc ''!|*|1K'' @ [0x0A]))"
    by (simp add: a_def b_def)
qed

subsection \<open>While a transfer runs\<close>

fun transfer_event :: "rip_event \<Rightarrow> bool" where
  "transfer_event (Tel_data d r) = True"
| "transfer_event (Zmr_progress p) = True"
| "transfer_event e = ui_event e"

fun event_data :: "rip_event \<Rightarrow> byte list" where
  "event_data (Tel_data d r) = d"
| "event_data _ = []"

lemma idle_step:
  assumes "rip_tab_ok s" "tb_active s" "tb_zmr s = Some p" "transfer_event e"
  shows "let t = rip_tab_step ev s e in
    tb_sent t = tb_sent s \<and> tb_parser t = tb_parser s \<and> tb_active t \<and> tb_zmr t = Some (p @ event_data e)"
proof -
  have i: "tb_press_idx s < 0" "\<not> tb_press_in s" "tb_flash_idx s < 0" using assms(1,2) by (auto simp: rip_tab_ok_def)
  show ?thesis
    using assms(2-4) i
    by (cases e) (auto simp: rip_tab_step_def rip_on_mouse_down_def rip_on_mouse_move_def rip_on_mouse_up_def rip_press_clear_def on_key_down_def
        on_flash_timer_def rip_on_data_def rip_push_def rip_on_zmr_progress_def rip_notice_set_def Let_def)
qed

text \<open>
  While a file is received the tab is out of the conversation. Whatever the user does: nothing the user does is sent, the scene and its regions stay as they are, and the
  receiver gets every byte that arrives, in order.
\<close>

theorem rip_transfer_quiet:
  assumes "rip_tab_ok s" "tb_active s" "tb_zmr s = Some p" "list_all transfer_event es"
  shows "let t = foldl (rip_tab_step ev) s es in
    tb_sent t = tb_sent s \<and> tb_parser t = tb_parser s \<and> tb_active t \<and> tb_zmr t = Some (p @ concat (map event_data es))"
  using assms
proof (induction es arbitrary: s p)
  case (Cons e es)
  let ?t = "rip_tab_step ev s e"
  have st: "tb_sent ?t = tb_sent s" "tb_parser ?t = tb_parser s" "tb_active ?t" "tb_zmr ?t = Some (p @ event_data e)"
    using idle_step [OF Cons.prems(1-3), of e ev] Cons.prems(4) by (simp_all add: Let_def)
  have "rip_tab_ok ?t" by (rule rip_tab_step_ok [OF Cons.prems(1)])
  from Cons.IH [OF this st(3,4)] show ?case using Cons.prems(4) st(1,2) by (simp add: Let_def)
qed simp

theorem rip_transfer_quiet_witness:
  "\<forall>ev surf. let s = rip_on_data ev True rip_sig (rip_demo_tab surf); t = foldl (rip_tab_step ev) s [Key_down 0x41 False False True, Tel_data [1] True, Mouse_up True] in
     tb_sent t = tb_sent s \<and> tb_zmr t = Some [1]"
proof (intro allI)
  fix ev surf
  let ?s = "rip_on_data ev True rip_sig (rip_demo_tab surf)"
  let ?es = "[Key_down 0x41 False False True, Tel_data [1] True, Mouse_up True]"
  have c: "concat [rip_sig] = [] @ rip_sig @ []" by simp
  have s: "tb_active ?s" "tb_zmr ?s = Some []"
    using transfer_chunks [where s = "rip_demo_tab surf" and cs = "[rip_sig]" and n = 4 and k = 0 and ev = ev, OF rip_demo_tab_ok rip_demo_tab_fields(1-3)] zscan_first [of "[]" "[]"]
    by (simp_all add: rip_data_events_def rip_tab_step_def rip_sig_def)
  have "rip_tab_ok ?s" by (rule on_data_ok [OF rip_demo_tab_ok])
  from rip_transfer_quiet [OF this s, of ?es ev] show "let s = ?s; t = foldl (rip_tab_step ev) s ?es in tb_sent t = tb_sent s \<and> tb_zmr t = Some [1]"
    by (simp add: Let_def)
qed

subsection \<open>Clicks\<close>

lemma region_under_cong: "rp_buttons (tb_parser t) = rp_buttons (tb_parser s) \<Longrightarrow> region_under cw cht px py t = region_under cw cht px py s"
  by (simp add: region_under_def rip_button_at_def split: option.split)

lemma tp_buttons [simp]: "rp_buttons (tp s) = rp_buttons (tb_parser s)"
  by (simp add: tp_def)

text \<open>The mouse is down on region \<open>i\<close>, and over it or not.\<close>

definition pressed :: "rip_tab \<Rightarrow> rip_tab \<Rightarrow> int \<Rightarrow> bool \<Rightarrow> bool" where
  "pressed s t i b \<longleftrightarrow>
     rip_tab_ok t \<and> tp t = tp s \<and> tb_press_armed t \<and> tb_press_idx t = i \<and> tb_press_in t = b \<and> tb_flash_idx t < 0 \<and>
     tb_connected t \<and> tb_telnet t \<and> \<not> tb_active t \<and> tb_sent t = tb_sent s"

lemma down_pressed:
  assumes "rip_tab_ok s" "tb_connected s" "tb_telnet s" "\<not> tb_active s" "region_under cw cht px py s = i" "0 \<le> i"
  shows "pressed s (rip_on_mouse_down cw cht px py s) i True"
proof -
  let ?c = "rip_press_cancel_for_redraw s"
  obtain d j a f c ft where c: "?c =
    s\<lparr>tb_parser := tp s, tb_dib := d, tb_flash_timer := ft, tb_flash_idx := f, tb_flash_cmd := c, tb_press_idx := j, tb_press_in := False, tb_press_armed := a\<rparr>"
      "nib (rp_surf (tp s))" "f < 0"
    using cancel_ok [OF assms(1)] by blast
  have r: "region_under cw cht px py ?c = i" using assms(5) region_under_cong [of ?c s cw cht px py] by (simp add: c(1))
  let ?t = "?c\<lparr>tb_press_idx := i, tb_press_armed := True, tb_press_in := True, tb_capture := True\<rparr>"
  obtain e where e: "rip_press_flip i ?t = ?t\<lparr>tb_parser := flip_region i (tb_parser ?t), tb_dib := e\<rparr>" using press_flip_eq by blast
  have eq: "rip_on_mouse_down cw cht px py s = ?t\<lparr>tb_parser := flip_region i (tb_parser ?t), tb_dib := e\<rparr>"
    using assms(2,4,6) by (simp only: rip_on_mouse_down_def Let_def r e) simp
  have ok: "rip_tab_ok (rip_on_mouse_down cw cht px py s)" using mouse_down_same assms(1) by (rule same_tab_ok)
  have "tp (rip_on_mouse_down cw cht px py s) = tp s" by (subst tp_def) (simp add: eq c(1) flip_flip c(2))
  then show ?thesis using ok assms(2-4) c(3) by (simp add: pressed_def) (simp add: eq c(1))
qed

lemma move_pressed:
  assumes "pressed s t i b" "0 \<le> i"
  shows "pressed s (rip_on_mouse_move cw cht px py t) i (region_under cw cht px py s = i)"
proof -
  have bt: "rp_buttons (tb_parser t) = rp_buttons (tb_parser s)" using assms(1) tp_buttons by (metis pressed_def)
  define inside where "inside = (region_under cw cht px py s = i)"
  have io: "(rip_client_to_surface cw cht px py \<noteq> None \<and> region_under cw cht px py t = tb_press_idx t) = inside"
    using assms region_under_cong [OF bt, of cw cht px py] by (auto simp: inside_def pressed_def region_under_def split: option.splits)
  have ok: "rip_tab_ok (rip_on_mouse_move cw cht px py t)" by (rule same_tab_ok [OF mouse_move_same]) (use assms(1) in \<open>simp add: pressed_def\<close>)
  show ?thesis
  proof (cases "inside = b")
    case True
    then have "rip_on_mouse_move cw cht px py t = t" using assms unfolding rip_on_mouse_move_def io Let_def by (simp add: pressed_def)
    then show ?thesis using assms(1) True by (simp add: inside_def [symmetric])
  next
    case False
    obtain e where e: "rip_press_flip i t = t\<lparr>tb_parser := flip_region i (tb_parser t), tb_dib := e\<rparr>" using press_flip_eq by blast
    have eq: "rip_on_mouse_move cw cht px py t = t\<lparr>tb_parser := flip_region i (tb_parser t), tb_dib := e, tb_press_in := inside\<rparr>"
      using assms False e unfolding rip_on_mouse_move_def io Let_def by (simp add: pressed_def)
    have "tp (t\<lparr>tb_parser := flip_region i (tb_parser t), tb_dib := e, tb_press_in := inside\<rparr>) = tp t"
      using assms(1) False by (auto simp: tp_def pressed_def rip_tab_ok_def flip_flip)
    then show ?thesis using ok assms(1) unfolding eq by (simp add: pressed_def inside_def [symmetric])
  qed
qed

definition mouse_moves :: "(int \<times> int \<times> int \<times> int) list \<Rightarrow> rip_event list" where
  "mouse_moves ms = map (\<lambda>(cw, cht, px, py). Mouse_move cw cht px py) ms"

definition ends_inside :: "rip_tab \<Rightarrow> int \<Rightarrow> (int \<times> int \<times> int \<times> int) list \<Rightarrow> bool" where
  "ends_inside s i ms \<longleftrightarrow> ms = [] \<or> (case last ms of (cw, cht, px, py) \<Rightarrow> region_under cw cht px py s = i)"

lemma moves_pressed:
  assumes "pressed s t i True" "0 \<le> i"
  shows "pressed s (foldl (rip_tab_step ev) t (mouse_moves ms)) i (ends_inside s i ms)"
proof (induction ms rule: rev_induct)
  case Nil
  then show ?case using assms(1) by (simp add: mouse_moves_def ends_inside_def)
next
  case (snoc m ms)
  obtain cw cht px py where m: "m = (cw, cht, px, py)" by (cases m)
  show ?case
    using move_pressed [OF snoc.IH assms(2), of cw cht px py] by (simp add: mouse_moves_def ends_inside_def m rip_tab_step_def)
qed

lemma clear_off:
  "rip_tab_ok t \<Longrightarrow> \<exists>d. rip_press_clear (t\<lparr>tb_capture := c\<rparr>) =
    t\<lparr>tb_capture := c, tb_parser := tp t, tb_dib := d, tb_press_idx := -1, tb_press_in := False, tb_press_armed := False\<rparr>"
proof -
  assume ok: "rip_tab_ok t"
  then have "rip_tab_ok (t\<lparr>tb_capture := c\<rparr>)" "tp (t\<lparr>tb_capture := c\<rparr>) = tp t" by (simp_all add: rip_tab_ok_def tp_def)
  then show ?thesis using press_clear_ok [of "t\<lparr>tb_capture := c\<rparr>"] by auto
qed

lemma up_pressed:
  assumes "pressed s t i b" "0 \<le> i"
  shows "\<exists>d. rip_on_mouse_up started t =
    (let u = t\<lparr>tb_capture := False, tb_parser := tp s, tb_dib := d, tb_press_idx := -1, tb_press_in := False, tb_press_armed := False\<rparr>
     in if b then rip_activate_region started i u else u)"
proof -
  have ok: "rip_tab_ok t" and tp: "tp t = tp s" and f: "tb_press_armed t" "tb_press_in t = b" "tb_press_idx t = i" using assms(1) by (simp_all add: pressed_def)
  let ?u = "\<lambda>d. t\<lparr>tb_capture := False, tb_parser := tp s, tb_dib := d, tb_press_idx := -1, tb_press_in := False, tb_press_armed := False\<rparr>"
  obtain d where d: "rip_press_clear (t\<lparr>tb_capture := False\<rparr>) = ?u d" using clear_off [OF ok, of False] by (auto simp: tp)
  have twice: "rip_press_clear (?u d) = ?u d" by (simp add: rip_press_clear_def Let_def)
  have "rip_press_clear (if tb_capture t then rip_press_clear (t\<lparr>tb_capture := False\<rparr>) else t) = ?u d"
  proof (cases "tb_capture t")
    case True
    then show ?thesis by (simp only: d twice if_True)
  next
    case False
    then have "t = t\<lparr>tb_capture := False\<rparr>" by simp
    then show ?thesis using d False by metis
  qed
  then show ?thesis
    using f assms(2) by (intro exI [of _ d]) (simp only: rip_on_mouse_up_def Let_def simp_thms if_cancel)
qed

text \<open>
  C32: A click is what it looks like. The mouse goes down on a region, moves about, and comes up. If it comes up over the region, its command goes to the host, once, with a carriage return where it has no
  end of line; a download has its receiver running before, and goes unsent and is counted where that cannot be. If it comes up elsewhere nothing is sent. Either way the pressed look is gone and the scene is as it was.
\<close>

theorem rip_click:
  assumes "rip_tab_ok s" "tb_connected s" "tb_telnet s" "\<not> tb_active s" "region_under cw cht px py s = i" "0 \<le> i"
    and "rb_command (rp_buttons (tb_parser s) ! nat i) \<noteq> []"
  shows "let t = foldl (rip_tab_step ev) s (Mouse_down cw cht px py # mouse_moves ms @ [Mouse_up started]);
      cmd = rb_command (rp_buttons (tb_parser s) ! nat i)
    in \<not> tb_press_in t \<and> rp_surf (tb_parser t) = rp_surf (tp s) \<and>
      (if \<not> ends_inside s i ms then tb_sent t = tb_sent s \<and> \<not> tb_active t
       else if rip_command_is_download cmd \<and> \<not> started then
         tb_sent t = tb_sent s \<and> \<not> tb_active t \<and> tb_parser t = bl (\<lambda>n. n + 1) (tp s)
       else tb_sent t = tb_sent s @ cmd @ (if last cmd = 0x0D \<or> last cmd = 0x0A then [] else [0x0D]) \<and>
         tb_active t = rip_command_is_download cmd)"
proof -
  let ?t1 = "foldl (rip_tab_step ev) (rip_on_mouse_down cw cht px py s) (mouse_moves ms)"
  define cmd where "cmd = rb_command (rp_buttons (tb_parser s) ! nat i)"
  note p = moves_pressed [OF down_pressed [OF assms(1-6)] assms(6), of ev ms]
  obtain d where d: "rip_on_mouse_up started ?t1 =
    (let u = ?t1\<lparr>tb_capture := False, tb_parser := tp s, tb_dib := d, tb_press_idx := -1, tb_press_in := False, tb_press_armed := False\<rparr>
     in if ends_inside s i ms then rip_activate_region started i u else u)"
    using up_pressed [OF p assms(6), of started] by blast
  let ?u = "?t1\<lparr>tb_capture := False, tb_parser := tp s, tb_dib := d, tb_press_idx := -1, tb_press_in := False, tb_press_armed := False\<rparr>"
  have u: "\<not> tb_press_in ?u" "tb_parser ?u = tp s" "tb_sent ?u = tb_sent s" "\<not> tb_active ?u" "tb_connected ?u" "tb_telnet ?u" "tb_zmr ?u = None"
      "tb_press_idx ?u < 0" "tb_flash_idx ?u < 0"
  proof -
    have "tb_active ?t1 \<longleftrightarrow> tb_zmr ?t1 \<noteq> None" "\<not> tb_active ?t1" using p unfolding pressed_def rip_tab_ok_def by blast+
    then have "tb_zmr ?t1 = None" by blast
    then show "\<not> tb_press_in ?u" "tb_parser ?u = tp s" "tb_sent ?u = tb_sent s" "\<not> tb_active ?u" "tb_connected ?u" "tb_telnet ?u" "tb_zmr ?u = None"
        "tb_press_idx ?u < 0" "tb_flash_idx ?u < 0" using p by (simp_all add: pressed_def)
  qed
  have "i < int (length (rp_buttons (tb_parser s)))" using region_under_range [of cw cht px py s] assms(5,6) by simp
  then have a: "rip_activate_region started i ?u = rip_send_command started cmd ?u"
    using assms(6) by (simp add: rip_activate_region_def cmd_def)
  have run: "foldl (rip_tab_step ev) s (Mouse_down cw cht px py # mouse_moves ms @ [Mouse_up started]) =
      (if ends_inside s i ms then rip_send_command started cmd ?u else ?u)"
    using d by (simp add: rip_tab_step_def Let_def a)
  have cmd: "cmd \<noteq> []" using assms(7) by (simp add: cmd_def)
  have "let t = rip_send_command started cmd w in \<not> tb_press_in t \<and> rp_surf (tb_parser t) = rp_surf (tb_parser w) \<and>
      (if rip_command_is_download cmd \<and> \<not> started then
         tb_sent t = tb_sent w \<and> \<not> tb_active t \<and> tb_parser t = bl (\<lambda>n. n + 1) (tb_parser w)
       else tb_sent t = tb_sent w @ cmd @ (if last cmd = 0x0D \<or> last cmd = 0x0A then [] else [0x0D]) \<and> tb_active t = rip_command_is_download cmd)"
    if "\<not> tb_press_in w" "\<not> tb_active w" "tb_connected w" "tb_telnet w" "tb_zmr w = None" "tb_press_idx w < 0" "tb_flash_idx w < 0" for w
    using that cmd
    by (simp add: rip_send_command_def rip_zmodem_begin_def rip_press_cancel_for_redraw_def rip_notice_set_def rip_count_blocked_def rip_send_raw_def
        bl_def Let_def del: asc_simps)
  note send = this
  define w where "w = ?u"
  note u' = u [folded w_def]
  have g: "\<not> tb_press_in (rip_send_command started cmd w)" "rp_surf (tb_parser (rip_send_command started cmd w)) = rp_surf (tp s)"
    "if rip_command_is_download cmd \<and> \<not> started then tb_sent (rip_send_command started cmd w) = tb_sent s \<and>
        \<not> tb_active (rip_send_command started cmd w) \<and> tb_parser (rip_send_command started cmd w) = bl (\<lambda>n. n + 1) (tp s)
     else tb_sent (rip_send_command started cmd w) = tb_sent s @ cmd @ (if last cmd = 0x0D \<or> last cmd = 0x0A then [] else [0x0D]) \<and>
        tb_active (rip_send_command started cmd w) = rip_command_is_download cmd"
    using send [OF u'(1,4-9), unfolded Let_def u'(2,3)] by blast+
  show ?thesis
  proof (cases "ends_inside s i ms")
    case True
    have "foldl (rip_tab_step ev) s (Mouse_down cw cht px py # mouse_moves ms @ [Mouse_up started]) = rip_send_command started cmd w"
      unfolding run w_def by (rule if_P [OF True])
    then show ?thesis using g True unfolding Let_def cmd_def [symmetric] by (simp only: not_True_eq_False if_False) blast
  next
    case False
    have "foldl (rip_tab_step ev) s (Mouse_down cw cht px py # mouse_moves ms @ [Mouse_up started]) = w"
      unfolding run w_def by (rule if_not_P [OF False])
    then show ?thesis using u' False unfolding Let_def cmd_def [symmetric] by (simp only: not_False_eq_True if_True)
  qed
qed

text \<open>One region over the whole screen.\<close>

definition rip_click_tab :: "rip_ega \<Rightarrow> rip_tab" where
  "rip_click_tab surf = (rip_demo_tab surf)\<lparr>tb_parser := (rip_parser_init surf)\<lparr>rp_buttons :=
     [\<lparr>rb_rect = (0, 0, 639, 349), rb_image = (0, 0, 9, 9), rb_hotkey = 0, rb_flags = 0, rb_invert = True, rb_label = [], rb_command = asc ''QUIT''\<rparr>]\<rparr>\<rparr>"

theorem rip_click_witness:
  "\<forall>ev surf. tb_sent (foldl (rip_tab_step ev) (rip_click_tab surf) [Mouse_down 640 480 5 5, Mouse_move 640 480 (-1) 5, Mouse_move 640 480 6 6, Mouse_up True]) =
     tb_sent (rip_click_tab surf) @ asc ''QUIT'' @ [0x0D]"
proof (intro allI)
  fix ev surf
  let ?s = "rip_click_tab surf"
  have ok: "rip_tab_ok ?s" using rip_demo_tab_ok [of surf] by (simp add: rip_click_tab_def rip_tab_ok_def)
      (simp add: rip_demo_tab_def rip_tab_init_def rip_dib_refresh_def reset_nib)
  have f: "tb_connected ?s" "tb_telnet ?s" "\<not> tb_active ?s" "rb_command (rp_buttons (tb_parser ?s) ! 0) = asc ''QUIT''"
    by (simp_all add: rip_click_tab_def)
  have r: "region_under 640 480 5 5 ?s = 0" "region_under 640 480 6 6 ?s = 0"
    by (simp_all add: region_under_def rip_click_tab_def rip_client_to_surface_def rip_dest_rect_def cdiv_def rip_ega_w_def rip_ega_h_def
        rip_button_at_def in_rect_def Let_def)
  have "ends_inside ?s 0 [(640, 480, -1, 5), (640, 480, 6, 6)]" by (simp add: ends_inside_def r)
  moreover have "rb_command (rp_buttons (tb_parser ?s) ! nat 0) \<noteq> []" by (simp add: f)
  moreover have "Mouse_down 640 480 5 5 # mouse_moves [(640, 480, -1, 5), (640, 480, 6, 6)] @ [Mouse_up True] =
      [Mouse_down 640 480 5 5, Mouse_move 640 480 (-1) 5, Mouse_move 640 480 6 6, Mouse_up True]" by (simp add: mouse_moves_def)
  ultimately show "tb_sent (foldl (rip_tab_step ev) ?s [Mouse_down 640 480 5 5, Mouse_move 640 480 (-1) 5, Mouse_move 640 480 6 6, Mouse_up True]) =
      tb_sent ?s @ asc ''QUIT'' @ [0x0D]"
    using rip_click [OF ok f(1-3) r(1), where ms = "[(640, 480, -1, 5), (640, 480, 6, 6)]" and ev = ev and started = True] f(4)
    by (simp add: Let_def rip_command_is_download_def)
qed

subsection \<open>What goes wrong\<close>

text \<open>
  A press that was dragged off its region is not given up when the host changes the scene: back over whatever region has its number now, the release sends that
  region's command.
\<close>

lemma feed_scene_dragged:
  assumes "rip_tab_ok s" "\<not> tb_press_in s"
  shows "let t = rip_feed_scene ev d s in (tb_press_armed t, tb_press_idx t, tb_press_in t, tb_flash_idx t) = (tb_press_armed s, tb_press_idx s, False, tb_flash_idx s)"
proof -
  have "tb_esc_state s \<le> 3" using assms(1) by (simp add: rip_tab_ok_def)
  note c = consume_consumed [OF this, of ev d]
  obtain drew u where cd: "rip_consume ev d s = (drew, u)" by (cases "rip_consume ev d s")
  obtain p en es dg se where u: "u = s\<lparr>tb_parser := p, tb_enabled := en, tb_esc_state := es, tb_esc_digit := dg, tb_sent := se\<rparr>"
    using c unfolding consumed_def cd by auto
  have sv: "rip_press_suspend s = (None, s)" using assms(2) by (simp add: rip_press_suspend_def)
  show ?thesis using assms(2) by (simp add: rip_feed_scene_def sv cd rip_press_resume_def u rip_dib_refresh_def Let_def)
qed

lemma rip_dragged_press_lives:
  assumes ok: "rip_tab_ok s" and drag: "tb_press_armed s" "tb_press_idx s = i" "0 \<le> i" "\<not> tb_press_in s" "tb_flash_idx s < 0"
    and conn: "tb_connected s" "tb_telnet s" "\<not> tb_active s" and scan: "rip_scan_for_zmodem 0 (tb_zsig_len s) d = (None, k)" "d \<noteq> []"
    and over: "region_under cw cht px py t = i" and cmd: "cmd = rb_command (rp_buttons (tb_parser t) ! nat i)" "cmd \<noteq> []" "\<not> rip_command_is_download cmd"
    and t: "t = rip_tab_step ev s (Tel_data d st)"
  shows "tb_sent (foldl (rip_tab_step ev) s [Tel_data d st, Mouse_move cw cht px py, Mouse_up started]) =
    tb_sent t @ cmd @ (if last cmd = 0x0D \<or> last cmd = 0x0A then [] else [0x0D])"
proof -
  have "k < 4" using scan_zmodem_k [of "tb_zsig_len s" 0 d] ok scan(1) by (simp add: rip_tab_ok_def)
  let ?s = "s\<lparr>tb_zsig_len := k\<rparr>"
  have ok': "rip_tab_ok ?s" using ok \<open>k < 4\<close> by (simp add: tab_ok_parser)
  have te: "t = rip_feed_scene ev d ?s" using conn scan by (simp add: t rip_tab_step_def on_data_eq)
  have "pressed t t i False"
    using feed_scene_ok [OF ok', of ev d] feed_scene_dragged [OF ok', of ev d] drag conn by (simp add: te pressed_def Let_def)
  from move_pressed [OF this drag(3), of cw cht px py]
  have p: "pressed t (rip_on_mouse_move cw cht px py t) i True" by (simp add: over)
  obtain e where "rip_on_mouse_up started (rip_on_mouse_move cw cht px py t) = rip_activate_region started i
      ((rip_on_mouse_move cw cht px py t)\<lparr>tb_capture := False, tb_parser := tp t, tb_dib := e, tb_press_idx := -1, tb_press_in := False, tb_press_armed := False\<rparr>)"
    using up_pressed [OF p drag(3), of started] by (auto simp: Let_def)
  moreover have "i < int (length (rp_buttons (tb_parser t)))" using region_under_range [of cw cht px py t] over drag(3) by simp
  moreover have "rip_tab_step ev (rip_tab_step ev t (Mouse_move cw cht px py)) (Mouse_up started) =
      rip_on_mouse_up started (rip_on_mouse_move cw cht px py t)" by (simp add: rip_tab_step_def)
  ultimately show ?thesis
    using p drag(3) cmd
    by (simp add: t [symmetric] rip_activate_region_def rip_send_command_def rip_send_raw_def pressed_def)
qed

text \<open>A hot key's command is dropped when its region is replaced while it flashes.\<close>

lemma rip_hotkey_lost:
  "fst (rip_press_resume sv s) \<Longrightarrow> tb_sent (on_flash_timer st (snd (rip_press_resume sv s))) = tb_sent (snd (rip_press_resume sv s))"
  by (auto simp: rip_press_resume_def rip_press_abandon_def on_flash_timer_def rip_press_clear_def Let_def split: option.splits if_splits)

text \<open>Text that comes in one chunk with the sequence that switches the scene off is lost with it.\<close>

lemma scan_plain: "tb_esc_state s = 0 \<Longrightarrow> 0x1B \<notin> set d \<Longrightarrow> scan_all s d = (d, s)"
  by (induction d) (simp_all add: rip_scan_def Let_def)

lemma rip_mode_loses_text:
  assumes "tb_esc_state s = 0" "0x1B \<notin> set d" "length d \<le> 8185"
  shows "tb_parser (snd (rip_consume ev (d @ [0x1B, 0x5B, 0x31, 0x21]) s)) = tb_parser s"
proof -
  have "scan_all s [0x1B, 0x5B, 0x31, 0x21] = ([], s\<lparr>tb_esc_digit := 0x31, tb_enabled := False, tb_esc_state := 0\<rparr>)"
    using assms(1) by (simp add: rip_scan_def Let_def)
  then show ?thesis
    using assms consume_eq [of s "d @ [0x1B, 0x5B, 0x31, 0x21]" ev] by (simp add: scan_all_append scan_plain rip_flush_def)
qed

text \<open>A byte behind an escape is dropped where the escape fills the buffer.\<close>

lemma rip_byte_lost:
  assumes "length out = 8191" "tb_esc_state s = 1" "b \<noteq> 0x5B"
  shows "consume_byte ev (out, drew, s) b = ([], rip_flush ev (out @ [0x1B]) (drew, s\<lparr>tb_esc_state := 0\<rparr>))"
  using assms by (simp add: consume_byte_def rip_scan_def put_out_def rip_out_size_def Let_def)

text \<open>What is drawn in the chunk in which a transfer starts does not count as drawn.\<close>

lemma rip_first_scene_hidden:
  assumes "rip_tab_ok s"
  shows "tb_ever_drew (upto_sig ev d s) = tb_ever_drew s"
proof -
  have "tb_esc_state (s\<lparr>tb_parser := tp s\<rparr>) \<le> 3" using assms by (simp add: rip_tab_ok_def)
  note c = consume_consumed [OF this, of ev d]
  obtain drew u where cd: "rip_consume ev d (s\<lparr>tb_parser := tp s\<rparr>) = (drew, u)" by (cases "rip_consume ev d (s\<lparr>tb_parser := tp s\<rparr>)")
  have "tb_ever_drew u = tb_ever_drew s" using c unfolding consumed_def cd by auto
  moreover have "tb_ever_drew (snd (rip_press_resume sv u)) = tb_ever_drew u" for sv
    by (auto simp: rip_press_resume_def rip_press_abandon_def rip_press_flip_quiet_def Let_def split: option.split)
  ultimately show ?thesis using suspend_eq [OF assms] by (simp add: upto_sig_def cd rip_dib_refresh_def)
qed

text \<open>A click is carried to a cell of the surface.\<close>

lemma rip_click_on_surface:
  "rip_client_to_surface cw cht px py = Some (x, y) \<Longrightarrow> 0 \<le> x \<and> x < rip_ega_w \<and> 0 \<le> y \<and> y < rip_ega_h"
  by (auto simp: rip_client_to_surface_def rip_ega_w_def rip_ega_h_def Let_def split: if_splits prod.splits)

end
