(* ===== verification/UpdText.thy ===== *)
theory UpdText
  imports CText
begin

section \<open>What the updater reads\<close>

text \<open>
  The functions of \<open>suite_update.c\<close> and \<open>suite_sha256.c\<close> on text: version numbers and their order, the reader for the manifest,
  the check of an address, the name of the local file, the comparison of checksums. A text is a C string, without its terminator.
\<close>

subsection \<open>Versions\<close>

text \<open>Digits, at most \<open>k\<close> of them.\<close>

fun read_digits :: "nat \<Rightarrow> nat \<Rightarrow> byte list \<Rightarrow> nat \<times> byte list" where
  "read_digits (Suc k) v (c # cs) = (if is_digit c then read_digits k (v * 10 + (unat c - 48)) cs else (v, c # cs))"
| "read_digits k v s = (v, s)"

fun ver_numbers :: "nat \<Rightarrow> byte list \<Rightarrow> nat list \<times> byte list" where
  "ver_numbers 0 s = ([], s)"
| "ver_numbers (Suc i) s =
     (case read_digits 9 0 s of (v, s1) \<Rightarrow>
        if s1 \<noteq> [] \<and> hd s1 = 0x2E then (case ver_numbers i (tl s1) of (ns, s2) \<Rightarrow> (v # ns, s2))
        else (v # replicate i 0, s1))"

definition ver_split :: "byte list \<Rightarrow> nat list \<times> byte list" where
  "ver_split s =
     (let s1 = dropWhile (\<lambda>c. c = 0x20 \<or> c = 9) s;
          s2 = (if s1 \<noteq> [] \<and> (hd s1 = 0x76 \<or> hd s1 = 0x56) then tl s1 else s1);
          (n, s3) = ver_numbers 3 s2;
          s4 = dropWhile (\<lambda>c. c = 0x2E \<or> is_digit c) s3
      in (n, if s4 \<noteq> [] \<and> hd s4 = 0x2D then tl s4 else []))"

definition ident_is_num :: "byte list \<Rightarrow> bool" where
  "ident_is_num p \<longleftrightarrow> p \<noteq> [] \<and> list_all is_digit p"

text \<open>\<open>strtoul\<close> on text that starts with a digit; an \<open>unsigned long\<close> has 32 bits, and a number that does not fit is the largest.\<close>

fun strtoul :: "nat \<Rightarrow> byte list \<Rightarrow> nat" where
  "strtoul v [] = v"
| "strtoul v (c # cs) = (if is_digit c then strtoul (min 4294967295 (v * 10 + (unat c - 48))) cs else v)"

text \<open>\<open>strncmp\<close> over the length of the shorter one.\<close>

fun bytes_cmp :: "byte list \<Rightarrow> byte list \<Rightarrow> int" where
  "bytes_cmp (x # xs) (y # ys) = (if x < y then -1 else if y < x then 1 else bytes_cmp xs ys)"
| "bytes_cmp xs ys = 0"

definition upto_dot :: "byte list \<Rightarrow> byte list" where
  "upto_dot s = takeWhile (\<lambda>c. c \<noteq> 0x2E) s"

definition past_dot :: "byte list \<Rightarrow> byte list" where
  "past_dot s = tl (dropWhile (\<lambda>c. c \<noteq> 0x2E) s)"

text \<open>One round of the loop: the comparison of the identifiers in front.\<close>

definition ident_cmp :: "byte list \<Rightarrow> byte list \<Rightarrow> int" where
  "ident_cmp a b =
     (let x = upto_dot a; y = upto_dot b; anum = ident_is_num x; bnum = ident_is_num y in
      if anum \<and> bnum then
        (let av = strtoul 0 a; bv = strtoul 0 b in if av \<noteq> bv then (if av < bv then -1 else 1) else 0)
      else if anum \<noteq> bnum then (if anum then -1 else 1)
      else
        let c = bytes_cmp x y in
        if c \<noteq> 0 then (if c < 0 then -1 else 1)
        else if length x \<noteq> length y then (if length x < length y then -1 else 1)
        else 0)"

lemma past_dot_shorter: "a \<noteq> [] \<Longrightarrow> length (past_dot a) < length a"
  using length_dropWhile_le [of "\<lambda>c. c \<noteq> 0x2E" a] by (cases a) (auto simp: past_dot_def)

function prerelease_cmp :: "byte list \<Rightarrow> byte list \<Rightarrow> int" where
  "prerelease_cmp a b =
     (if a = [] \<and> b = [] then 0
      else if a = [] then -1
      else if b = [] then 1
      else if ident_cmp a b \<noteq> 0 then ident_cmp a b
      else prerelease_cmp (past_dot a) (past_dot b))"
  by pat_completeness auto

termination
  by (relation "measure (\<lambda>(a, b). length a)") (simp_all add: past_dot_shorter)

declare prerelease_cmp.simps [simp del]

fun numbers_cmp :: "nat list \<Rightarrow> nat list \<Rightarrow> int" where
  "numbers_cmp (a # as) (b # bs) = (if a \<noteq> b then (if a < b then -1 else 1) else numbers_cmp as bs)"
| "numbers_cmp as bs = 0"

definition suite_update_compare_versions :: "byte list \<Rightarrow> byte list \<Rightarrow> int" where
  "suite_update_compare_versions a b =
     (let (na, pa) = ver_split a; (nb, pb) = ver_split b; c = numbers_cmp na nb in
      if c \<noteq> 0 then c
      else if pa = [] \<and> pb = [] then 0
      else if pa = [] then 1
      else if pb = [] then -1
      else prerelease_cmp pa pb)"

subsection \<open>The manifest\<close>

definition json_ws :: "byte \<Rightarrow> bool" where
  "json_ws c \<longleftrightarrow> c = 0x20 \<or> c = 9 \<or> c = 0x0D \<or> c = 0x0A"

text \<open>The key, its closing quote and a colon: what follows them.\<close>

fun json_after_key :: "byte list \<Rightarrow> byte list \<Rightarrow> byte list option" where
  "json_after_key key [] = None"
| "json_after_key [] (c # cs) =
     (if c = 0x22 then
        let q = dropWhile json_ws cs in
        if q \<noteq> [] \<and> hd q = 0x3A then Some (dropWhile json_ws (tl q)) else None
      else None)"
| "json_after_key (k # ks) (c # cs) = (if c = k then json_after_key ks cs else None)"

fun json_value_for :: "byte list \<Rightarrow> byte list \<Rightarrow> byte list option" where
  "json_value_for [] key = None"
| "json_value_for (c # cs) key =
     (if c = 0x22 then (case json_after_key key cs of Some q \<Rightarrow> Some q | None \<Rightarrow> json_value_for cs key)
      else json_value_for cs key)"

definition hex_value :: "byte \<Rightarrow> nat option" where
  "hex_value c =
     (if 0x30 \<le> c \<and> c \<le> 0x39 then Some (unat c - 48)
      else if 0x61 \<le> c \<and> c \<le> 0x66 then Some (unat c - 87)
      else if 0x41 \<le> c \<and> c \<le> 0x46 then Some (unat c - 55)
      else None)"

text \<open>What follows a backslash: the byte it stands for and the rest, or the end of the document.\<close>

definition json_escape :: "byte list \<Rightarrow> (byte \<times> byte list) option" where
  "json_escape p =
     (case p of
        [] \<Rightarrow> None
      | e # p1 \<Rightarrow>
          if e = 0x6E then Some (0x0A, p1)
          else if e = 0x72 then Some (0x0D, p1)
          else if e = 0x74 then Some (9, p1)
          else if e = 0x75 then
            let ds = takeWhile (\<lambda>c. hex_value c \<noteq> None) (take 4 p1);
                v = foldl (\<lambda>v c. v * 16 + the (hex_value c)) 0 ds
            in Some (if 0x20 \<le> v \<and> v < 0x7F then word_of_nat v else 0x3F, drop (length ds) p1)
          else Some (e, p1))"

text \<open>The loop, with the room that is left; what is copied, and where it stops.\<close>

fun json_string_body :: "nat \<Rightarrow> byte list \<Rightarrow> byte list \<times> byte list" where
  "json_string_body 0 p = ([], p)"
| "json_string_body (Suc r) [] = ([], [])"
| "json_string_body (Suc r) (c # p) =
     (if c = 0x22 then ([], c # p)
      else if c = 0x5C then
        (case json_escape p of
           None \<Rightarrow> ([], [])
         | Some (x, p1) \<Rightarrow> (case json_string_body r p1 of (out, q) \<Rightarrow> (x # out, q)))
      else (case json_string_body r p of (out, q) \<Rightarrow> (c # out, q)))"

text \<open>Whether it succeeds, and what it leaves in a buffer of \<open>cap\<close> bytes.\<close>

definition json_get_string :: "byte list \<Rightarrow> byte list \<Rightarrow> nat \<Rightarrow> bool \<times> byte list" where
  "json_get_string doc key cap =
     (case json_value_for doc key of
        None \<Rightarrow> (False, [])
      | Some p \<Rightarrow>
          if p = [] \<or> hd p \<noteq> 0x22 then (False, [])
          else case json_string_body (cap - 1) (tl p) of (out, q) \<Rightarrow> (q \<noteq> [] \<and> hd q = 0x22, out))"

definition json_get_uint :: "byte list \<Rightarrow> byte list \<Rightarrow> nat" where
  "json_get_uint doc key =
     (case json_value_for doc key of None \<Rightarrow> 0 | Some p \<Rightarrow> fst (read_digits 19 0 p))"

subsection \<open>Checks\<close>

definition is_hex64 :: "byte list \<Rightarrow> bool" where
  "is_hex64 s \<longleftrightarrow> length s = 64 \<and> list_all (\<lambda>c. hex_value c \<noteq> None) s"

text \<open>Letters without their case, as \<open>_strnicmp\<close> compares them.\<close>

definition to_lower :: "byte \<Rightarrow> byte" where
  "to_lower c = (if 0x41 \<le> c \<and> c \<le> 0x5A then c + 0x20 else c)"

definition same_nocase :: "byte list \<Rightarrow> byte list \<Rightarrow> bool" where
  "same_nocase a b \<longleftrightarrow> map to_lower a = map to_lower b"

definition update_allowed_host :: "byte list" where
  "update_allowed_host = asc ''apps.greektimes.ca''"

definition url_host_allowed :: "byte list \<Rightarrow> bool" where
  "url_host_allowed url =
     (if \<not> same_nocase (take 8 url) (asc ''https://'') then False
      else
        let h = drop 8 url in
        if 0x40 \<in> set (takeWhile (\<lambda>c. c \<noteq> 0x2F) h) then False
        else
          let host = takeWhile (\<lambda>c. c \<noteq> 0x2F \<and> c \<noteq> 0x3A) h; hlen = length host; dlen = length update_allowed_host in
          if hlen = 0 then False
          else if hlen = dlen then same_nocase host update_allowed_host
          else if hlen > dlen then
            host ! (hlen - dlen - 1) = 0x2E \<and> same_nocase (drop (hlen - dlen) host) update_allowed_host
          else False)"

text \<open>\<open>strrchr\<close>: what follows the last slash.\<close>

definition last_part :: "byte list \<Rightarrow> byte list" where
  "last_part url = rev (takeWhile (\<lambda>c. c \<noteq> 0x2F) (rev url))"

definition name_char :: "byte \<Rightarrow> bool" where
  "name_char c \<longleftrightarrow> 0x41 \<le> c \<and> c \<le> 0x5A \<or> 0x61 \<le> c \<and> c \<le> 0x7A \<or> is_digit c \<or> c = 0x2E \<or> c = 0x2D \<or> c = 0x5F"

fun clean_name :: "nat \<Rightarrow> byte list \<Rightarrow> byte list" where
  "clean_name 0 s = []"
| "clean_name (Suc r) [] = []"
| "clean_name (Suc r) (c # cs) =
     (if c = 0x3F \<or> c = 0x23 then []
      else if name_char c then c # clean_name r cs
      else clean_name (Suc r) cs)"

definition msi_local_name :: "byte list \<Rightarrow> byte list" where
  "msi_local_name url =
     (let clean = clean_name 127 (last_part url) in
      if length clean < 5 \<or> \<not> same_nocase (drop (length clean - 4) clean) (asc ''.msi'')
      then asc ''MGT_Unicorn_Suite_update.msi'' else clean)"

unbundle bit_operations_syntax

text \<open>Hexadecimal digits in lower case, and the comparison that does not stop early.\<close>

definition hex_digit :: "byte \<Rightarrow> byte" where
  "hex_digit n = (if n < 10 then 0x30 + n else 0x57 + n)"

definition hex_text :: "byte list \<Rightarrow> byte list" where
  "hex_text d = concat (map (\<lambda>b. [hex_digit (drop_bit 4 b AND 0x0F), hex_digit (b AND 0x0F)]) d)"

definition lower_hex :: "byte \<Rightarrow> byte" where
  "lower_hex c = (if 0x41 \<le> c \<and> c \<le> 0x46 then c + 32 else c)"

definition suite_sha256_hex_equal :: "byte list \<Rightarrow> byte list \<Rightarrow> bool" where
  "suite_sha256_hex_equal a b =
     (if length a \<noteq> 64 \<or> length b \<noteq> 64 then False
      else foldl (\<lambda>diff i. diff OR (lower_hex (a ! i) XOR lower_hex (b ! i))) 0 [0..<64] = 0)"

end
