(* ===== verification/Fetch.thy ===== *)
theory Fetch
  imports UpdText
begin

section \<open>Fetching over HTTPS, and checksums of files\<close>

text \<open>
  \<open>http_fetch.c\<close> and \<open>suite_sha256_file\<close>. WinHTTP, CNG and the file system answer through arguments: \<open>http_net\<close> has the answers to
  one request, \<open>sha_env\<close> those of the checksum. The disk is a map from paths to contents. The status that \<open>http_fetch_last_status\<close> would
  give, which nothing asks for, is not modelled.
\<close>

unbundle bit_operations_syntax

type_synonym files = "byte list \<Rightarrow> byte list option"

datatype http_rc =
    HTTP_FETCH_OK | HTTP_FETCH_BADURL | HTTP_FETCH_OPEN | HTTP_FETCH_CONNECT | HTTP_FETCH_REQUEST | HTTP_FETCH_SEND
  | HTTP_FETCH_RESPONSE | HTTP_FETCH_HTTPSTATUS | HTTP_FETCH_READ | HTTP_FETCH_MEMORY | HTTP_FETCH_FILEIO
  | HTTP_FETCH_CANCELLED | HTTP_FETCH_TOOBIG

text \<open>
  One round of reading: the query for what is available fails, or says how much there is; then what \<open>WinHttpReadData\<close> gives of it, if it
  does not fail, and the error where \<open>WriteFile\<close> does not write it all.
\<close>

datatype http_read = Avail_error nat | Avail u32 "byte list option" "nat option"

text \<open>
  \<open>hn_crack\<close> is what \<open>WinHttpCrackUrl\<close> makes of an address: whether its scheme is https, host, port, path. \<open>hn_create\<close>, \<open>hn_delete\<close>
  are the answers of the file system, \<open>hn_alloc\<close> that of the heap for a size.
\<close>

record http_net =
  hn_crack :: "byte list \<Rightarrow> (bool \<times> byte list \<times> u16 \<times> byte list) option"
  hn_err :: nat
  hn_open :: bool
  hn_connect :: bool
  hn_request :: bool
  hn_send :: "nat option"
  hn_receive :: "nat option"
  hn_status :: "u32 option"
  hn_length :: "byte list option"
  hn_reads :: "http_read list"
  hn_create :: bool
  hn_delete :: bool
  hn_alloc :: "nat \<Rightarrow> bool"

subsection \<open>A request\<close>

definition http_timeout :: nat where "http_timeout = 12002"

definition err_text :: "string \<Rightarrow> nat \<Rightarrow> byte list" where
  "err_text msg e = asc msg @ asc '' (err '' @ dec_bytes e @ asc '').''"

text \<open>The result, the message, and where a connection was made to.\<close>

definition hf_open :: "http_net \<Rightarrow> byte list \<Rightarrow> http_rc \<times> byte list \<times> (byte list \<times> u16) option" where
  "hf_open net url =
     (case hn_crack net url of
        None \<Rightarrow> (HTTP_FETCH_BADURL, err_text ''The address could not be parsed'' (hn_err net), None)
      | Some (https, host, port, path) \<Rightarrow>
          if \<not> https then (HTTP_FETCH_BADURL, asc ''Only https addresses are allowed.'', None)
          else if \<not> hn_open net then (HTTP_FETCH_OPEN, err_text ''Could not start the web client'' (hn_err net), None)
          else if \<not> hn_connect net then
            (HTTP_FETCH_CONNECT, asc ''Could not reach '' @ host @ asc '' (err '' @ dec_bytes (hn_err net) @ asc '').'', None)
          else if \<not> hn_request net then
            (HTTP_FETCH_REQUEST, err_text ''Could not build the request'' (hn_err net), Some (host, port))
          else case hn_send net of
            Some e \<Rightarrow>
              (HTTP_FETCH_SEND,
               if e = http_timeout then asc ''The server did not answer in time.'' else err_text ''The request could not be sent'' e,
               Some (host, port))
          | None \<Rightarrow>
              (case hn_receive net of
                 Some e \<Rightarrow>
                   (HTTP_FETCH_RESPONSE,
                    if e = http_timeout then asc ''The server did not answer in time.'' else err_text ''No response from the server'' e,
                    Some (host, port))
               | None \<Rightarrow>
                   let status = (case hn_status net of None \<Rightarrow> 0 | Some w \<Rightarrow> w) in
                   if status < 200 \<or> status \<ge> 300 then
                     (HTTP_FETCH_HTTPSTATUS, asc ''The server answered HTTP '' @ dec_bytes (unat status) @ asc ''.'', Some (host, port))
                   else (HTTP_FETCH_OK, [], Some (host, port))))"

definition hf_content_length :: "http_net \<Rightarrow> 64 word" where
  "hf_content_length net =
     (case hn_length net of
        None \<Rightarrow> 0
      | Some t \<Rightarrow> foldl (\<lambda>v c. v * 10 + (ucast c - 0x30)) 0 (takeWhile is_digit t))"

subsection \<open>Into memory\<close>

text \<open>
  \<open>new_cap\<close> is doubled until it is large enough, in 32 bits. After 32 rounds it is zero and stays so: the loop that has not ended by
  then does not end.
\<close>

fun grow_cap32 :: "nat \<Rightarrow> u32 \<Rightarrow> u32 \<Rightarrow> u32 option" where
  "grow_cap32 0 need c = (if c < need then None else Some c)"
| "grow_cap32 (Suc r) need c = (if c < need then grow_cap32 r need (c * 2) else Some c)"

definition limit_text :: "string \<Rightarrow> nat \<Rightarrow> byte list" where
  "limit_text msg n = asc msg @ dec_bytes n @ asc '' byte limit.''"

text \<open>The limit, the capacity of the block (0 where there is none), what was read. None where it does not return.\<close>

fun mem_loop :: "http_net \<Rightarrow> nat \<Rightarrow> u32 \<Rightarrow> byte list \<Rightarrow> http_read list \<Rightarrow> (http_rc \<times> byte list \<times> u32 \<times> byte list) option" where
  "mem_loop net mx cap used [] = Some (HTTP_FETCH_OK, [], cap, used)"
| "mem_loop net mx cap used (Avail_error e # rs) = Some (HTTP_FETCH_READ, err_text ''The transfer was interrupted'' e, cap, used)"
| "mem_loop net mx cap used (Avail avail d w # rs) =
     (if avail = 0 then Some (HTTP_FETCH_OK, [], cap, used)
      else if mx \<noteq> 0 \<and> length used + unat avail > mx then
        Some (HTTP_FETCH_TOOBIG, limit_text ''The reply is larger than the '' mx, cap, used)
      else
        let need = word_of_nat (length used) + avail + 1;
            next = (\<lambda>c. case d of
                None \<Rightarrow> Some (HTTP_FETCH_OK, [], c, used)
              | Some got0 \<Rightarrow>
                  let got = take (unat avail) got0 in
                  if got = [] then Some (HTTP_FETCH_OK, [], c, used) else mem_loop net mx c (used @ got) rs)
        in if need > cap then
             (case grow_cap32 32 need (if cap \<noteq> 0 then cap * 2 else 8192) of
                None \<Rightarrow> None
              | Some c \<Rightarrow> if hn_alloc net (unat c) then next c else Some (HTTP_FETCH_MEMORY, asc ''Out of memory.'', cap, used))
           else next cap)"

text \<open>The result, the message, the body, the connection.\<close>

definition http_fetch_to_memory ::
  "http_net \<Rightarrow> byte list \<Rightarrow> nat \<Rightarrow> (http_rc \<times> byte list \<times> byte list \<times> (byte list \<times> u16) option) option" where
  "http_fetch_to_memory net url mx =
     (case hf_open net url of (rc, err, con) \<Rightarrow>
        if rc \<noteq> HTTP_FETCH_OK then Some (rc, err, [], con)
        else case mem_loop net mx 0 [] (hn_reads net) of
          None \<Rightarrow> None
        | Some (rc, err, cap, used) \<Rightarrow>
            if rc \<noteq> HTTP_FETCH_OK then Some (rc, err, [], con)
            else if cap = 0 \<and> \<not> hn_alloc net 1 then Some (HTTP_FETCH_MEMORY, asc ''Out of memory.'', [], con)
            else Some (HTTP_FETCH_OK, [], used, con))"

subsection \<open>Into a file\<close>

text \<open>
  \<open>progress\<close> is the callback: true where it asks to stop. The result has its calls, and what has been written.
\<close>

fun file_loop :: "nat \<Rightarrow> (nat \<Rightarrow> nat \<Rightarrow> bool) \<Rightarrow> nat \<Rightarrow> byte list \<Rightarrow> (nat \<times> nat) list \<Rightarrow> http_read list \<Rightarrow>
    http_rc \<times> byte list \<times> byte list \<times> (nat \<times> nat) list" where
  "file_loop mx progress expect out calls [] = (HTTP_FETCH_OK, [], out, calls)"
| "file_loop mx progress expect out calls (Avail_error e # rs) =
     (HTTP_FETCH_READ, err_text ''The transfer was interrupted'' e, out, calls)"
| "file_loop mx progress expect out calls (Avail avail d w # rs) =
     (if avail = 0 then (HTTP_FETCH_OK, [], out, calls)
      else case d of
        None \<Rightarrow> (HTTP_FETCH_OK, [], out, calls)
      | Some got0 \<Rightarrow>
          let got = take (min (unat avail) 32768) got0 in
          if got = [] then (HTTP_FETCH_OK, [], out, calls)
          else if mx \<noteq> 0 \<and> length out + length got > mx then
            (HTTP_FETCH_TOOBIG, limit_text ''The download ran past the '' mx, out, calls)
          else if w \<noteq> None then (HTTP_FETCH_FILEIO, err_text ''Writing the download failed'' (the w), out, calls)
          else
            let out1 = out @ got; calls1 = calls @ [(length out1, expect)] in
            if progress (length out1) expect then (HTTP_FETCH_CANCELLED, [], out1, calls1)
            else file_loop mx progress expect out1 calls1 rs)"

definition http_fetch_to_file ::
  "http_net \<Rightarrow> byte list \<Rightarrow> byte list \<Rightarrow> nat \<Rightarrow> (nat \<Rightarrow> nat \<Rightarrow> bool) \<Rightarrow> files \<Rightarrow>
    http_rc \<times> byte list \<times> files \<times> (nat \<times> nat) list \<times> (byte list \<times> u16) option" where
  "http_fetch_to_file net url path mx progress files =
     (case hf_open net url of (rc, err, con) \<Rightarrow>
        if rc \<noteq> HTTP_FETCH_OK then (rc, err, files, [], con)
        else
          let expect = unat (hf_content_length net);
              fail = (\<lambda>rc err files calls. (rc, err, if hn_delete net then files(path := None) else files, calls, con))
          in
          if mx \<noteq> 0 \<and> expect > mx then
            fail HTTP_FETCH_TOOBIG (asc ''The download is '' @ dec_bytes expect @ asc '' bytes, over the '' @ dec_bytes mx @ asc '' byte limit.'') files []
          else if \<not> hn_create net then fail HTTP_FETCH_FILEIO (err_text ''Could not create the local file'' (hn_err net)) files []
          else if progress 0 expect then fail HTTP_FETCH_CANCELLED [] (files(path \<mapsto> [])) [(0, expect)]
          else case file_loop mx progress expect [] [(0, expect)] (hn_reads net) of (rc, err, out, calls) \<Rightarrow>
            if rc \<noteq> HTTP_FETCH_OK then fail rc err (files(path \<mapsto> out)) calls
            else if expect \<noteq> 0 \<and> length out \<noteq> expect then
              fail HTTP_FETCH_READ (asc ''The download stopped short: '' @ dec_bytes (length out) @ asc '' of '' @ dec_bytes expect @ asc '' bytes.'')
                (files(path \<mapsto> out)) calls
            else (HTTP_FETCH_OK, [], files(path \<mapsto> out), calls, con))"

subsection \<open>The checksum of a file\<close>

text \<open>
  \<open>sh_hash\<close> is the function the provider computes, 32 bytes; a status that is not zero is a failure. \<open>sh_read\<close> and \<open>sh_data\<close> give the error
  of a read and the status of hashing for each round; a read that does not fail fills the buffer or ends the file.
\<close>

record sha_env =
  sh_hash :: "byte list \<Rightarrow> byte list"
  sh_alg :: u32
  sh_objlen :: u32
  sh_hashlen :: "u32 \<times> u32"
  sh_alloc :: bool
  sh_create :: u32
  sh_open :: "nat option"
  sh_read :: "nat \<Rightarrow> nat option"
  sh_data :: "nat \<Rightarrow> u32"
  sh_finish :: u32

definition sha256_chunk :: nat where "sha256_chunk = 65536"

definition hex8 :: "u32 \<Rightarrow> byte list" where
  "hex8 w = map (\<lambda>i. hex_digit (ucast (drop_bit (4 * (7 - i)) w) AND 0x0F)) [0..<8]"

definition status_text :: "string \<Rightarrow> u32 \<Rightarrow> byte list" where
  "status_text msg st = asc msg @ asc '' (0x'' @ hex8 st @ asc '').''"

function sha_loop :: "sha_env \<Rightarrow> nat \<Rightarrow> byte list \<Rightarrow> byte list \<Rightarrow> byte list + byte list" where
  "sha_loop env i rest fed =
     (case sh_read env i of
        Some e \<Rightarrow> Inl (err_text ''Could not read the file to check it'' e)
      | None \<Rightarrow>
          if rest = [] then Inr fed
          else if sh_data env i \<noteq> 0 then Inl (status_text ''SHA-256 failed while reading'' (sh_data env i))
          else sha_loop env (Suc i) (drop sha256_chunk rest) (fed @ take sha256_chunk rest))"
  by pat_completeness auto
termination
  by (relation "measure (\<lambda>(env, i, rest, fed). length rest)") (auto simp: sha256_chunk_def)

declare sha_loop.simps [simp del]

text \<open>The message, or the digest in hexadecimal.\<close>

definition suite_sha256_file :: "sha_env \<Rightarrow> files \<Rightarrow> byte list \<Rightarrow> byte list + byte list" where
  "suite_sha256_file env files path =
     (if sh_alg env \<noteq> 0 then Inl (status_text ''SHA-256 is unavailable'' (sh_alg env))
      else if sh_objlen env \<noteq> 0 then Inl (status_text ''SHA-256 setup failed'' (sh_objlen env))
      else if fst (sh_hashlen env) \<noteq> 0 \<or> snd (sh_hashlen env) \<noteq> 32 then Inl (asc ''SHA-256 reported an unexpected digest size.'')
      else if \<not> sh_alloc env then Inl (asc ''Out of memory.'')
      else if sh_create env \<noteq> 0 then Inl (status_text ''SHA-256 could not start'' (sh_create env))
      else case (sh_open env, files path) of
        (None, Some content) \<Rightarrow>
          (case sha_loop env 0 content [] of
             Inl e \<Rightarrow> Inl e
           | Inr fed \<Rightarrow>
               if sh_finish env \<noteq> 0 then Inl (status_text ''SHA-256 could not finish'' (sh_finish env))
               else Inr (hex_text (sh_hash env fed)))
      | (e, _) \<Rightarrow> Inl (err_text ''Could not open the file to check it'' (case e of None \<Rightarrow> 2 | Some n \<Rightarrow> n)))"

end
