(* ===== verification/Update.thy ===== *)
theory Update
  imports Fetch
begin

section \<open>The updater\<close>

text \<open>
  \<open>suite_update.c\<close>: the check on a worker thread, the offer, the download on a worker thread, the hand-over to the installer. An event is a message
  or a menu command on the user's thread, or a worker running from its start to its end. What other parts answer comes with the event: whether an
  allocation, a thread or a posted message succeeds, the network, the checksum provider, the clock, the user.
\<close>

subsection \<open>State\<close>

record upd_manifest =
  um_version :: "byte list"
  um_msi_url :: "byte list"
  um_msi_sha256 :: "byte list"
  um_msi_bytes :: nat
  um_notes :: "byte list"
  um_min_supported :: "byte list"

definition no_manifest :: upd_manifest where
  "no_manifest = \<lparr>um_version = [], um_msi_url = [], um_msi_sha256 = [], um_msi_bytes = 0, um_notes = [], um_min_supported = []\<rparr>"

datatype upd_mode = UPD_MODE_MANUAL | UPD_MODE_STARTUP

record upd_result =
  ur_ok :: bool
  ur_cmp :: int
  ur_mode :: upd_mode
  ur_required :: bool
  ur_placeholder :: bool
  ur_error :: "byte list"
  ur_m :: upd_manifest

record upd_download =
  ud_ok :: bool
  ud_error :: "byte list"
  ud_path :: "byte list"
  ud_m :: upd_manifest

datatype upd_worker = No_worker | Checking | Downloading upd_manifest

datatype upd_message = Upd_result upd_result | Upd_dldone upd_download

text \<open>The modal dialog that is open: the offer, or the question whether to go on with the installer.\<close>

datatype upd_dialog = No_dialog | Offer upd_manifest upd_mode bool | Ready upd_download

datatype upd_out =
    Status "byte list"
  | Box "byte list"
  | Offered upd_manifest upd_mode bool
  | Asked upd_download
  | Fetched "byte list"
  | Launched "byte list" "byte list" upd_manifest "byte list option"
  | Close_main

text \<open>\<open>Launched\<close> has the command line, the path, the manifest, and what the file holds at that moment.\<close>

record upd =
  up_busy :: bool
  up_mode :: upd_mode
  up_thread :: bool
  up_worker :: upd_worker
  up_posted :: "upd_message list"
  up_dialog :: upd_dialog
  up_pending :: upd_manifest
  up_startup :: "u32 option"
  up_last :: "byte list option"
  up_skipped :: "byte list option"
  up_files :: files
  up_log :: "upd_out list"

text \<open>
  What stays the same: the override in the environment, whether the registry can be written, what \<open>SystemTimeToFileTime\<close> makes of a date,
  the directory for local data or for temporary files.
\<close>

record upd_env =
  ue_url :: "byte list option"
  ue_registry :: bool
  ue_filetime :: "systime \<Rightarrow> nat option"
  ue_local :: "byte list option"
  ue_temp :: "byte list option"

definition out_log :: "upd_out \<Rightarrow> upd \<Rightarrow> upd" where
  "out_log x s = s\<lparr>up_log := up_log s @ [x]\<rparr>"

abbreviation status :: "string \<Rightarrow> upd \<Rightarrow> upd" where
  "status msg s \<equiv> out_log (Status (asc msg)) s"

abbreviation box :: "byte list \<Rightarrow> upd \<Rightarrow> upd" where
  "box msg s \<equiv> out_log (Box msg) s"

abbreviation release :: "upd \<Rightarrow> upd" where
  "release s \<equiv> s\<lparr>up_busy := False\<rparr>"

abbreviation crlf2 :: "byte list" where
  "crlf2 \<equiv> [0x0D, 0x0A, 0x0D, 0x0A]"

definition suite_version_str :: "byte list" where
  "suite_version_str = asc ''0.7.0-beta''"

definition update_manifest_url :: "byte list" where
  "update_manifest_url = asc ''https://apps.greektimes.ca/unicorn-suite/manifest.json''"

definition update_manifest_max :: nat where "update_manifest_max = 256 * 1024"
definition update_msi_max :: nat where "update_msi_max = 256 * 1024 * 1024"

definition suite_update_manifest_url :: "upd_env \<Rightarrow> byte list" where
  "suite_update_manifest_url env =
     (case ue_url env of
        Some u \<Rightarrow> if u \<noteq> [] \<and> length u < 512 \<and> url_host_allowed u then u else update_manifest_url
      | None \<Rightarrow> update_manifest_url)"

subsection \<open>Settings\<close>

definition settings_read :: "byte list option \<Rightarrow> nat \<Rightarrow> byte list option" where
  "settings_read v cap =
     (case v of None \<Rightarrow> None | Some t \<Rightarrow> if length t < cap \<and> t \<noteq> [] then Some t else None)"

definition suite_update_startup_enabled :: "upd \<Rightarrow> bool" where
  "suite_update_startup_enabled s = (case up_startup s of None \<Rightarrow> True | Some v \<Rightarrow> v \<noteq> 0)"

definition suite_update_set_startup_enabled :: "upd_env \<Rightarrow> bool \<Rightarrow> upd \<Rightarrow> upd" where
  "suite_update_set_startup_enabled env on s = (if ue_registry env then s\<lparr>up_startup := Some (if on then 1 else 0)\<rparr> else s)"

definition settings_stamp_check :: "upd_env \<Rightarrow> byte list \<Rightarrow> upd \<Rightarrow> upd" where
  "settings_stamp_check env stamp s = (if ue_registry env then s\<lparr>up_last := Some (take 31 stamp)\<rparr> else s)"

definition settings_write_skipped :: "upd_env \<Rightarrow> byte list \<Rightarrow> upd \<Rightarrow> upd" where
  "settings_write_skipped env v s = (if ue_registry env then s\<lparr>up_skipped := Some v\<rparr> else s)"

text \<open>When the last check was, and the time since then, in units of 100 ns; none where it is not known.\<close>

definition stamp_time :: "upd_env \<Rightarrow> upd \<Rightarrow> nat option" where
  "stamp_time env s =
     (case settings_read (up_last s) 32 of
        None \<Rightarrow> None
      | Some buf \<Rightarrow>
          (case scan_fields [0x2D, 0x2D, 0x54, 0x3A, 0x3A] buf of
             None \<Rightarrow> None
           | Some vs \<Rightarrow>
               ue_filetime env \<lparr>st_year = word_of_int (vs ! 0), st_month = word_of_int (vs ! 1), st_day = word_of_int (vs ! 2),
                 st_hour = word_of_int (vs ! 3), st_minute = word_of_int (vs ! 4), st_second = word_of_int (vs ! 5), st_ms = 0\<rparr>))"

definition ticks_since_last_check :: "upd_env \<Rightarrow> nat \<Rightarrow> upd \<Rightarrow> nat option" where
  "ticks_since_last_check env now s = map_option (\<lambda>t. if now \<le> t then 0 else now - t) (stamp_time env s)"

definition throttled :: "upd_env \<Rightarrow> nat \<Rightarrow> upd \<Rightarrow> bool" where
  "throttled env now s =
     (case ticks_since_last_check env now s of None \<Rightarrow> False | Some t \<Rightarrow> t < 24 * 36000000000)"

subsection \<open>The check\<close>

text \<open>The manifest, or why it is refused.\<close>

definition read_manifest :: "byte list \<Rightarrow> byte list + upd_manifest" where
  "read_manifest doc =
     (case json_get_string doc (asc ''version'') 64 of (v_ok, version) \<Rightarrow>
      case json_get_string doc (asc ''msi_url'') 512 of (u_ok, url) \<Rightarrow>
      case json_get_string doc (asc ''msi_sha256'') 65 of (h_ok, sha) \<Rightarrow>
        if \<not> v_ok \<or> version = [] then Inl (asc ''The update information was not readable (no version).'')
        else if \<not> u_ok \<or> url = [] then Inl (asc ''The update information was not readable (no download).'')
        else if \<not> h_ok \<or> \<not> is_hex64 sha then Inl (asc ''The update information has no usable checksum. Refusing.'')
        else if \<not> url_host_allowed url then
          Inl (asc ''The update points at a host other than '' @ update_allowed_host @ asc ''. Refusing.'')
        else Inr \<lparr>um_version = version, um_msi_url = url, um_msi_sha256 = sha, um_msi_bytes = json_get_uint doc (asc ''msi_bytes''),
               um_notes = snd (json_get_string doc (asc ''notes'') 4096),
               um_min_supported = snd (json_get_string doc (asc ''min_supported'') 64)\<rparr>)"

definition upd_required :: "upd_manifest \<Rightarrow> bool" where
  "upd_required m \<longleftrightarrow>
     um_min_supported m \<noteq> [] \<and> suite_update_compare_versions suite_version_str (um_min_supported m) < 0"

definition upd_placeholder :: "upd_manifest \<Rightarrow> bool" where
  "upd_placeholder m \<longleftrightarrow> um_msi_bytes m = 0 \<or> length (takeWhile (\<lambda>c. c = 0x30) (um_msi_sha256 m)) = 64"

definition check_result :: "upd_mode \<Rightarrow> byte list + upd_manifest \<Rightarrow> upd_result" where
  "check_result mode r =
     (case r of
        Inl e \<Rightarrow> \<lparr>ur_ok = False, ur_cmp = 0, ur_mode = mode, ur_required = False, ur_placeholder = False, ur_error = take 255 e,
                 ur_m = no_manifest\<rparr>
      | Inr m \<Rightarrow> \<lparr>ur_ok = True, ur_cmp = suite_update_compare_versions suite_version_str (um_version m), ur_mode = mode,
                 ur_required = upd_required m, ur_placeholder = upd_placeholder m, ur_error = [], ur_m = m\<rparr>)"

text \<open>The body is a C string. \<open>stamp\<close> is the time, as it is written down.\<close>

definition check_thread :: "upd_env \<Rightarrow> http_net \<Rightarrow> bool \<Rightarrow> byte list \<Rightarrow> bool \<Rightarrow> upd \<Rightarrow> upd" where
  "check_thread env net alloc stamp posted s =
     (if \<not> alloc then release (s\<lparr>up_worker := No_worker\<rparr>)
      else
        let url = suite_update_manifest_url env;
            s1 = out_log (Fetched url) (status ''Checking for updates...'' s)
        in case http_fetch_to_memory net url update_manifest_max of
          None \<Rightarrow> s1
        | Some (rc, err, body, con) \<Rightarrow>
            let r = (if rc \<noteq> HTTP_FETCH_OK
                 then Inl (if err \<noteq> [] then take 255 err else asc ''The update service could not be reached.'')
                 else read_manifest (cstr body));
                s2 = settings_stamp_check env stamp (s1\<lparr>up_worker := No_worker\<rparr>)
            in if posted then s2\<lparr>up_posted := up_posted s2 @ [Upd_result (check_result (up_mode s) r)]\<rparr>
               else release s2)"

subsection \<open>The download\<close>

definition update_dir :: "upd_env \<Rightarrow> byte list option" where
  "update_dir env =
     map_option (\<lambda>base. take 259 (base @ 0x5C # asc ''MGT Unicorn Suite'' @ 0x5C # asc ''Update''))
       (case ue_local env of None \<Rightarrow> ue_temp env | Some base \<Rightarrow> Some base)"

definition dl_line :: "nat \<times> nat \<Rightarrow> byte list" where
  "dl_line c =
     (case c of (got, whole) \<Rightarrow> take 159
        (if whole > 0
         then asc ''Downloading the update... '' @ dec_bytes (min 100 (got * 100 div whole)) @ asc ''%  ('' @ dec_bytes got @
              asc '' of '' @ dec_bytes whole @ asc '' bytes)''
         else asc ''Downloading the update... '' @ dec_bytes got @ asc '' bytes''))"

definition delete_file :: "bool \<Rightarrow> byte list \<Rightarrow> files \<Rightarrow> files" where
  "delete_file ok path files = (if ok then files(path := None) else files)"

text \<open>The result of the thread, the disk, and what it says on the way.\<close>

definition download_run ::
  "upd_env \<Rightarrow> http_net \<Rightarrow> sha_env \<Rightarrow> bool \<Rightarrow> upd_manifest \<Rightarrow> files \<Rightarrow> upd_download \<times> files \<times> upd_out list" where
  "download_run env net sha del m files =
     (let fail = (\<lambda>e. \<lparr>ud_ok = False, ud_error = take 255 e, ud_path = [], ud_m = m\<rparr>) in
      case update_dir env of
        None \<Rightarrow> (fail (asc ''There is nowhere to save the download.''), files, [])
      | Some dir \<Rightarrow>
          let path = take 259 (dir @ 0x5C # msi_local_name (um_msi_url m)) in
          case http_fetch_to_file net (um_msi_url m) path update_msi_max (\<lambda>_ _. False) files of (rc, err, files1, calls, con) \<Rightarrow>
            let outs = Fetched (um_msi_url m) # map (\<lambda>c. Status (dl_line c)) calls in
            if rc \<noteq> HTTP_FETCH_OK then
              (fail (if err \<noteq> [] then take 255 err else asc ''The download failed.''), files1, outs)
            else
              let outs1 = outs @ [Status (asc ''Checking the download...'')] in
              (case suite_sha256_file sha files1 path of
                 Inl e \<Rightarrow>
                   (fail (if e \<noteq> [] then take 255 e else asc ''The download could not be checked.''), delete_file del path files1, outs1)
               | Inr got_hash \<Rightarrow>
                   if \<not> suite_sha256_hex_equal got_hash (um_msi_sha256 m) then
                     (fail (asc ''The downloaded installer does not match its published checksum. It has been deleted and will NOT be run.''),
                      delete_file del path files1, outs1)
                   else (\<lparr>ud_ok = True, ud_error = [], ud_path = path, ud_m = m\<rparr>, files1, outs1)))"

definition download_thread :: "upd_env \<Rightarrow> http_net \<Rightarrow> sha_env \<Rightarrow> bool \<Rightarrow> bool \<Rightarrow> upd_manifest \<Rightarrow> upd \<Rightarrow> upd" where
  "download_thread env net sha del posted m s =
     (case download_run env net sha del m (up_files s) of (d, files, outs) \<Rightarrow>
        let s1 = s\<lparr>up_files := files, up_log := up_log s @ outs, up_worker := No_worker\<rparr>
        in if posted then s1\<lparr>up_posted := up_posted s1 @ [Upd_dldone d]\<rparr> else release s1)"

subsection \<open>The user's thread\<close>

definition join_worker :: "upd \<Rightarrow> upd" where
  "join_worker s = s\<lparr>up_thread := False\<rparr>"

definition start_check :: "upd_mode \<Rightarrow> bool \<Rightarrow> upd \<Rightarrow> upd" where
  "start_check mode started s0 =
     (let s = s0\<lparr>up_mode := mode\<rparr> in
      if up_busy s then (if mode = UPD_MODE_MANUAL then status ''An update check is already running.'' s else s)
      else
        let s1 = join_worker (s\<lparr>up_busy := True\<rparr>) in
        if started then s1\<lparr>up_thread := True, up_worker := Checking\<rparr>
        else
          let s2 = release s1 in
          if mode = UPD_MODE_MANUAL then box (asc ''The update check could not be started.'') s2 else s2)"

definition suite_update_check :: "bool \<Rightarrow> upd \<Rightarrow> upd" where
  "suite_update_check started s = start_check UPD_MODE_MANUAL started s"

definition suite_update_startup_check :: "upd_env \<Rightarrow> nat \<Rightarrow> bool \<Rightarrow> upd \<Rightarrow> upd" where
  "suite_update_startup_check env now started s =
     (if \<not> suite_update_startup_enabled s then s
      else if throttled env now s then s
      else start_check UPD_MODE_STARTUP started s)"

definition start_download :: "bool \<Rightarrow> bool \<Rightarrow> upd_manifest \<Rightarrow> upd \<Rightarrow> upd" where
  "start_download alloc started m s =
     (if \<not> alloc then release s
      else
        let s1 = join_worker s in
        if started then s1\<lparr>up_thread := True, up_worker := Downloading m\<rparr>
        else box (asc ''The download could not be started.'') (release s1))"

text \<open>Up to the dialog.\<close>

definition on_result :: "upd_result \<Rightarrow> upd \<Rightarrow> upd" where
  "on_result r s =
     (let manual = (ur_mode r = UPD_MODE_MANUAL) in
      if \<not> ur_ok r then
        let s1 = status ''Update check failed.'' s;
            s2 = (if manual then box (take 1023 (asc ''Could not check for updates.'' @ crlf2 @ ur_error r @ crlf2 @ asc ''You are running '' @
                     suite_version_str @ asc ''.'')) s1 else s1)
        in release s2
      else if ur_placeholder r \<or> ur_cmp r \<ge> 0 then
        let s1 = status ''The Suite is up to date.'' s;
            tail = (if ur_placeholder r then asc ''No release has been published yet.''
                    else if ur_cmp r > 0 then asc ''That is newer than the published version, so there is nothing to install.''
                    else asc ''This is the current version.'');
            s2 = (if manual then box (take 1023 (asc ''You are running '' @ suite_version_str @ asc ''.'' @ crlf2 @ tail)) s1 else s1)
        in release s2
      else if \<not> manual \<and>
        (case settings_read (up_skipped s) 64 of
           None \<Rightarrow> False
         | Some skipped \<Rightarrow> suite_update_compare_versions (um_version (ur_m r)) skipped \<le> 0) then release s
      else
        out_log (Offered (ur_m r) (ur_mode r) (ur_required r))
          (status ''An update is available.''
             (s\<lparr>up_pending := ur_m r, up_dialog := Offer (ur_m r) (ur_mode r) (ur_required r)\<rparr>)))"

text \<open>The buttons of the offer, and how it is closed: \<open>Dialog_failed\<close> where it could not be shown.\<close>

datatype upd_answer = IDOK | IDCANCEL | IDD_UPD_SKIP | Dialog_failed

definition upd_buttons :: "upd_mode \<Rightarrow> bool \<Rightarrow> upd_answer list" where
  "upd_buttons mode required =
     (if mode = UPD_MODE_STARTUP \<and> \<not> required then [IDOK, IDCANCEL, IDD_UPD_SKIP] else [IDOK, IDCANCEL])"

definition on_offer_closed :: "upd_env \<Rightarrow> upd_answer \<Rightarrow> bool \<Rightarrow> bool \<Rightarrow> bool \<Rightarrow> upd_manifest \<Rightarrow> upd \<Rightarrow> upd" where
  "on_offer_closed env answer checked alloc started m s =
     (let s0 = s\<lparr>up_dialog := No_dialog\<rparr>;
          s1 = (if answer = Dialog_failed then s0 else suite_update_set_startup_enabled env checked s0)
      in if answer = IDOK then start_download alloc started (up_pending s1) s1
         else if answer = IDD_UPD_SKIP then release (status ''This version will be skipped.'' (settings_write_skipped env (um_version m) s1))
         else release (status ''Update postponed.'' s1))"

definition on_download_done :: "upd_download \<Rightarrow> upd \<Rightarrow> upd" where
  "on_download_done d s =
     (if \<not> ud_ok d then
        release (box (take 1399 (asc ''The update was not installed.'' @ crlf2 @ ud_error d @ crlf2 @ asc ''You are still running '' @
          suite_version_str @ asc '', and nothing has changed.'')) (status ''The update was not installed.'' s))
      else out_log (Asked d) (status ''Update downloaded and verified.'' (s\<lparr>up_dialog := Ready d\<rparr>)))"

definition launch_command :: "byte list \<Rightarrow> byte list \<Rightarrow> byte list" where
  "launch_command sysdir path = take 583 (0x22 # sysdir @ 0x5C # asc ''msiexec.exe'' @ 0x22 # asc '' /i '' @ 0x22 # path @ [0x22])"

text \<open>\<open>sysdir\<close> is the system directory, none where it cannot be had; \<open>created\<close> whether the process starts.\<close>

definition launch_installer :: "byte list option \<Rightarrow> bool \<Rightarrow> upd_download \<Rightarrow> upd \<Rightarrow> bool \<times> upd" where
  "launch_installer sysdir created d s =
     (if ud_path d = [] then (False, s)
      else case sysdir of
        None \<Rightarrow> (False, s)
      | Some dir \<Rightarrow>
          if created then (True, out_log (Launched (launch_command dir (ud_path d)) (ud_path d) (ud_m d) (up_files s (ud_path d))) s)
          else (False, s))"

definition on_ready_closed :: "bool \<Rightarrow> byte list option \<Rightarrow> bool \<Rightarrow> upd_download \<Rightarrow> upd \<Rightarrow> upd" where
  "on_ready_closed go sysdir created d s0 =
     (let s = s0\<lparr>up_dialog := No_dialog\<rparr> in
      if \<not> go then
        release (status ''Update ready but not installed.''
          (box (take 1399 (asc ''The verified installer is here if you want to run it yourself:'' @ crlf2 @ ud_path d)) s))
      else case launch_installer sysdir created d s of (ok, s1) \<Rightarrow>
        if \<not> ok then
          release (box (take 1399 (asc ''The installer could not be started.'' @ crlf2 @
            asc ''It is here if you want to run it yourself:'' @ [0x0D, 0x0A] @ ud_path d)) s1)
        else out_log Close_main (status ''Closing so the installer can run...'' (release s1)))"

subsection \<open>Events\<close>

datatype upd_event =
    Menu_check bool
  | Startup_check nat bool
  | Check_runs http_net bool "byte list" bool
  | Download_runs http_net sha_env bool bool
  | Message
  | Offer_closed upd_answer bool bool bool
  | Ready_closed bool "byte list option" bool
  | Disk_changes files

text \<open>\<open>Disk_changes\<close> is another program at work.\<close>

definition upd_step :: "upd_env \<Rightarrow> upd \<Rightarrow> upd_event \<Rightarrow> upd" where
  "upd_step env s e =
     (case e of
        Menu_check started \<Rightarrow> suite_update_check started s
      | Startup_check now started \<Rightarrow> suite_update_startup_check env now started s
      | Check_runs net alloc stamp posted \<Rightarrow>
          (case up_worker s of Checking \<Rightarrow> check_thread env net alloc stamp posted s | _ \<Rightarrow> s)
      | Download_runs net sha del posted \<Rightarrow>
          (case up_worker s of Downloading m \<Rightarrow> download_thread env net sha del posted m s | _ \<Rightarrow> s)
      | Message \<Rightarrow>
          (case up_posted s of
             [] \<Rightarrow> s
           | Upd_result r # ms \<Rightarrow> on_result r (s\<lparr>up_posted := ms\<rparr>)
           | Upd_dldone d # ms \<Rightarrow> on_download_done d (s\<lparr>up_posted := ms\<rparr>))
      | Offer_closed answer checked alloc started \<Rightarrow>
          (case up_dialog s of
             Offer m mode required \<Rightarrow>
               if answer = Dialog_failed \<or> answer \<in> set (upd_buttons mode required)
               then on_offer_closed env answer checked alloc started m s else s
           | _ \<Rightarrow> s)
      | Ready_closed go sysdir created \<Rightarrow>
          (case up_dialog s of Ready d \<Rightarrow> on_ready_closed go sysdir created d s | _ \<Rightarrow> s)
      | Disk_changes files \<Rightarrow> s\<lparr>up_files := files\<rparr>)"

definition upd_init :: "files \<Rightarrow> u32 option \<Rightarrow> byte list option \<Rightarrow> byte list option \<Rightarrow> upd" where
  "upd_init files startup checked skipped =
     \<lparr>up_busy = False, up_mode = UPD_MODE_MANUAL, up_thread = False, up_worker = No_worker, up_posted = [], up_dialog = No_dialog,
      up_pending = no_manifest, up_startup = startup, up_last = checked, up_skipped = skipped, up_files = files, up_log = []\<rparr>"

text \<open>The notes as the dialog shows them: a line feed without a carriage return before it gets one.\<close>

fun crlf_notes :: "byte \<Rightarrow> byte list \<Rightarrow> byte list" where
  "crlf_notes p [] = []"
| "crlf_notes p (c # cs) = (if c = 0x0A \<and> p \<noteq> 0x0D then [0x0D, c] else [c]) @ crlf_notes c cs"

end
