(* ===== verification/UpdOrder.thy ===== *)
theory UpdOrder
  imports UpdText "HOL-Library.List_Lexorder" "HOL-Library.Product_Lexorder"
begin

section \<open>The order of versions\<close>

text \<open>
  The comparison of versions in \<open>suite_update.c\<close> compares keys in a linear order, for any two texts; for versions as
  semver.org writes them it is the precedence that semver.org defines.
\<close>

subsection \<open>Keys\<close>

definition cmp_of :: "'a::linorder \<Rightarrow> 'a \<Rightarrow> int" where
  "cmp_of x y = (if x < y then -1 else if y < x then 1 else 0)"

lemma cmp_of_eq [simp]: "cmp_of x y = 0 \<longleftrightarrow> x = y" "cmp_of x y < 0 \<longleftrightarrow> x < y" "0 < cmp_of x y \<longleftrightarrow> y < x"
  by (auto simp: cmp_of_def)

lemma cmp_of_same [simp]: "cmp_of x x = 0" "x < y \<Longrightarrow> cmp_of x y = -1" "y < x \<Longrightarrow> cmp_of x y = 1" "cmp_of (Suc m) (Suc n) = cmp_of m n"
  by (simp_all add: cmp_of_def)

lemma cmp_of_pair: "cmp_of (a, b) (c, d) = (if cmp_of a c \<noteq> 0 then cmp_of a c else cmp_of b d)"
  by (auto simp: cmp_of_def less_prod_def order.strict_iff_not)

lemma cmp_of_list:
  "cmp_of [] [] = 0" "cmp_of [] (y # ys) = -1" "cmp_of (x # xs) [] = 1"
  "cmp_of (x # xs) (y # ys) = (if cmp_of x y \<noteq> 0 then cmp_of x y else cmp_of xs ys)"
  by (auto simp: cmp_of_def)

lemma cmp_of_ends: "cmp_of [] ys = cmp_of 0 (length ys)" "cmp_of xs [] = cmp_of (length xs) 0"
  by (cases ys; simp add: cmp_of_list) (cases xs; simp add: cmp_of_list)

definition ident_key :: "byte list \<Rightarrow> bool \<times> nat \<times> byte list" where
  "ident_key x = (if ident_is_num x then (False, strtoul 0 x, []) else (True, 0, x))"

function idents :: "byte list \<Rightarrow> byte list list" where
  "idents s = (if s = [] then [] else upto_dot s # idents (past_dot s))"
  by pat_completeness auto
termination
  by (relation "measure length") (simp_all add: past_dot_shorter)

declare idents.simps [simp del]

definition ver_key :: "byte list \<Rightarrow> nat list \<times> bool \<times> (bool \<times> nat \<times> byte list) list" where
  "ver_key s = (case ver_split s of (n, p) \<Rightarrow> (n, p = [], map ident_key (idents p)))"

lemma strtoul_prefix: "list_all is_digit (upto_dot a) \<Longrightarrow> strtoul v a = strtoul v (upto_dot a)"
  by (induction a arbitrary: v) (auto simp: upto_dot_def is_digit_def)

lemma bytes_cmp_key: "(if bytes_cmp x y \<noteq> 0 then bytes_cmp x y else cmp_of (length x) (length y)) = cmp_of x y"
proof (induction x y rule: bytes_cmp.induct)
  case (1 x xs y ys)
  show ?case
  proof (cases x y rule: linorder_cases)
    case equal
    then show ?thesis using 1 by (simp add: cmp_of_list(4) split: if_splits)
  qed (simp_all add: cmp_of_list(4))
qed (simp_all add: cmp_of_ends)

lemma bytes_cmp_sign: "bytes_cmp x y \<in> {-1, 0, 1}"
  by (induction x y rule: bytes_cmp.induct) auto

lemma ident_cmp_key: "ident_cmp a b = cmp_of (ident_key (upto_dot a)) (ident_key (upto_dot b))"
proof -
  have "list_all is_digit (upto_dot a)" if "ident_is_num (upto_dot a)" for a using that by (simp add: ident_is_num_def)
  then have n: "strtoul 0 a = strtoul 0 (upto_dot a)" if "ident_is_num (upto_dot a)" for a using that strtoul_prefix by blast
  define x y where "x = upto_dot a" and "y = upto_dot b"
  have l: "(if length x \<noteq> length y then if length x < length y then -1 else 1 else 0) = cmp_of (length x) (length y)"
    by (simp add: cmp_of_def)
  have alnum: "(if bytes_cmp x y \<noteq> 0 then if bytes_cmp x y < 0 then -1 else 1
      else if length x \<noteq> length y then if length x < length y then -1 else 1 else 0) = cmp_of x y"
    unfolding l bytes_cmp_key [of x y, symmetric] using bytes_cmp_sign [of x y] by auto
  have num: "(if k \<noteq> l then if k < l then -1 else 1 else 0) = cmp_of k l" for k l :: nat
    by (simp add: cmp_of_def)
  show ?thesis
  proof (cases "ident_is_num x \<and> ident_is_num y")
    case True
    then show ?thesis using n by (simp only: ident_cmp_def ident_key_def x_def y_def Let_def num) (simp add: cmp_of_pair)
  next
    case False
    then show ?thesis
      unfolding ident_cmp_def ident_key_def x_def [symmetric] y_def [symmetric] Let_def alnum by (auto simp: cmp_of_pair)
  qed
qed

lemma prerelease_cmp_key: "prerelease_cmp a b = cmp_of (map ident_key (idents a)) (map ident_key (idents b))"
proof (induction a b rule: prerelease_cmp.induct)
  case (1 a b)
  then show ?case
    by (subst prerelease_cmp.simps, subst idents.simps, subst (2) idents.simps) (simp add: cmp_of_list ident_cmp_key)
qed

lemma numbers_cmp_key: "length a = length b \<Longrightarrow> numbers_cmp a b = cmp_of a b"
  by (induction a b rule: numbers_cmp.induct) (auto simp: cmp_of_list cmp_of_def)

lemma ver_numbers_length: "length (fst (ver_numbers i s)) = i"
proof (induction i arbitrary: s)
  case (Suc i)
  then show ?case by (simp split: prod.split) (metis fst_conv)
qed simp

lemma ver_split_length: "length (fst (ver_split s)) = 3"
  unfolding ver_split_def Let_def case_prod_beta fst_conv by (rule ver_numbers_length)

lemma idents_Nil [simp]: "idents s = [] \<longleftrightarrow> s = []"
  by (subst idents.simps) simp

text \<open>For any two texts.\<close>

lemma compare_versions_key: "suite_update_compare_versions a b = cmp_of (ver_key a) (ver_key b)"
proof -
  obtain na pa nb pb where s: "ver_split a = (na, pa)" "ver_split b = (nb, pb)" by fastforce
  then have "length na = length nb" using ver_split_length [of a] ver_split_length [of b] by simp
  then have n: "numbers_cmp na nb = cmp_of na nb" by (rule numbers_cmp_key)
  have r: "cmp_of (pa = [], map ident_key (idents pa)) (pb = [], map ident_key (idents pb)) =
      (if pa = [] \<and> pb = [] then 0 else if pa = [] then 1 else if pb = [] then -1 else prerelease_cmp pa pb)"
    by (cases "pa = []"; cases "pb = []") (simp_all add: cmp_of_pair prerelease_cmp_key)
  show ?thesis
    unfolding suite_update_compare_versions_def ver_key_def s Let_def prod.case n cmp_of_pair [of na] r by (rule refl)
qed

subsection \<open>Semantic versions\<close>

text \<open>A version as semver.org writes it, without build metadata, and its precedence as semver.org defines it.\<close>

datatype pre_ident = Num nat | Alnum "byte list"

datatype semver = Semver nat nat nat "pre_ident list"

inductive ident_before :: "pre_ident \<Rightarrow> pre_ident \<Rightarrow> bool" where
  "m < n \<Longrightarrow> ident_before (Num m) (Num n)"
| "ident_before (Num m) (Alnum t)"
| "s < t \<Longrightarrow> ident_before (Alnum s) (Alnum t)"

inductive precedes :: "semver \<Rightarrow> semver \<Rightarrow> bool" where
  "a < a' \<Longrightarrow> precedes (Semver a b c p) (Semver a' b' c' q)"
| "b < b' \<Longrightarrow> precedes (Semver a b c p) (Semver a b' c' q)"
| "c < c' \<Longrightarrow> precedes (Semver a b c p) (Semver a b c' q)"
| "p \<noteq> [] \<Longrightarrow> precedes (Semver a b c p) (Semver a b c [])"
| "p \<noteq> [] \<Longrightarrow> (p, q) \<in> lexord {(x, y). ident_before x y} \<Longrightarrow> precedes (Semver a b c p) (Semver a b c q)"

inductive_simps ident_before_simps [simp]:
  "ident_before (Num m) (Num n)" "ident_before (Num m) (Alnum t)" "ident_before (Alnum s) (Num n)" "ident_before (Alnum s) (Alnum t)"

inductive_simps precedes_simps: "precedes (Semver a b c p) (Semver a' b' c' q)"

fun ident_text :: "pre_ident \<Rightarrow> byte list" where
  "ident_text (Num n) = dec_bytes n"
| "ident_text (Alnum s) = s"

fun dotted :: "byte list list \<Rightarrow> byte list" where
  "dotted [] = []"
| "dotted [x] = x"
| "dotted (x # xs) = x @ 0x2E # dotted xs"

fun ver_text :: "semver \<Rightarrow> byte list" where
  "ver_text (Semver a b c p) =
     dec_bytes a @ 0x2E # dec_bytes b @ 0x2E # dec_bytes c @ (if p = [] then [] else 0x2D # dotted (map ident_text p))"

definition ident_char :: "byte \<Rightarrow> bool" where
  "ident_char c \<longleftrightarrow> 0x41 \<le> c \<and> c \<le> 0x5A \<or> 0x61 \<le> c \<and> c \<le> 0x7A \<or> is_digit c \<or> c = 0x2D"

fun ident_ok :: "pre_ident \<Rightarrow> bool" where
  "ident_ok (Num n) \<longleftrightarrow> n < 4294967296"
| "ident_ok (Alnum s) \<longleftrightarrow> s \<noteq> [] \<and> list_all ident_char s \<and> \<not> list_all is_digit s"

fun semver_ok :: "semver \<Rightarrow> bool" where
  "semver_ok (Semver a b c p) \<longleftrightarrow> a < 1000000000 \<and> b < 1000000000 \<and> c < 1000000000 \<and> list_all ident_ok p"

subsection \<open>Numbers that are written and read back\<close>

definition digits_value :: "nat \<Rightarrow> byte list \<Rightarrow> nat" where
  "digits_value v ds = foldl (\<lambda>v c. v * 10 + (unat c - 48)) v ds"

lemma digits_value_simps [simp]: "digits_value v [] = v" "digits_value v (c # cs) = digits_value (v * 10 + (unat c - 48)) cs"
  "digits_value v (xs @ ys) = digits_value (digits_value v xs) ys"
  by (simp_all add: digits_value_def)

lemma digits_value_dec: "n < f \<Longrightarrow> digits_value 0 (dec_digits f n) = n"
proof (induction f arbitrary: n)
  case (Suc f)
  have d: "unat (word_of_nat (48 + k) :: byte) - 48 = k" if "k < 10" for k using digit_byte [OF that] by (simp flip: nat_uint_eq)
  show ?case
  proof (cases "n < 10")
    case True
    then show ?thesis using d [of n] by simp
  next
    case False
    have "digits_value 0 (dec_digits f (n div 10)) = n div 10" using Suc.prems False by (intro Suc.IH) auto
    then show ?thesis using False d [of "n mod 10"] by simp
  qed
qed simp

lemma digits_value_bytes: "digits_value 0 (dec_bytes n) = n"
  by (simp only: dec_bytes_def digits_value_dec lessI)

lemma read_digits_all:
  "list_all is_digit ds \<Longrightarrow> length ds \<le> k \<Longrightarrow> rest = [] \<or> \<not> is_digit (hd rest) \<Longrightarrow> read_digits k v (ds @ rest) = (digits_value v ds, rest)"
proof (induction k arbitrary: v ds)
  case 0
  then show ?case by (cases rest) auto
next
  case (Suc k)
  show ?case
  proof (cases ds)
    case Nil
    then show ?thesis using Suc.prems by (cases rest) auto
  next
    case (Cons d ds')
    then show ?thesis using Suc.prems Suc.IH [of ds'] by simp
  qed
qed

lemma dec_bytes_length: "n < 10 ^ k \<Longrightarrow> 0 < k \<Longrightarrow> length (dec_bytes n) \<le> k"
  unfolding dec_bytes_def by (rule dec_digits_length)

lemma read_dec: "n < 10 ^ k \<Longrightarrow> 0 < k \<Longrightarrow> rest = [] \<or> \<not> is_digit (hd rest) \<Longrightarrow> read_digits k 0 (dec_bytes n @ rest) = (n, rest)"
  using read_digits_all [OF dec_bytes_all dec_bytes_length] by (simp only: digits_value_bytes)

lemma strtoul_digits: "list_all is_digit ds \<Longrightarrow> digits_value v ds < 4294967296 \<Longrightarrow> strtoul v ds = digits_value v ds"
proof (induction ds arbitrary: v)
  case (Cons d ds)
  have mono: "v \<le> digits_value v ds" for v
  proof (induction ds arbitrary: v)
    case (Cons c cs)
    have "v \<le> v * 10 + (unat c - 48)" by simp
    also have "\<dots> \<le> digits_value (v * 10 + (unat c - 48)) cs" by (rule Cons)
    finally show ?case by simp
  qed simp
  let ?x = "v * 10 + (unat d - 48)"
  have "?x < 4294967296" using mono [of ?x] Cons.prems(2) by simp
  then have "min 4294967295 ?x = ?x" by simp
  then show ?case using Cons by simp
qed simp


subsection \<open>The comparison is the precedence\<close>

fun pkey :: "pre_ident \<Rightarrow> bool \<times> nat \<times> byte list" where
  "pkey (Num n) = (False, n, [])"
| "pkey (Alnum s) = (True, 0, s)"

lemma pkey_less: "ident_before x y \<longleftrightarrow> pkey x < pkey y"
  by (cases x; cases y) simp_all

lemma pkey_eq: "pkey x = pkey y \<longleftrightarrow> x = y"
  by (cases x; cases y) simp_all

lemma pkeys_less: "(p, q) \<in> lexord {(x, y). ident_before x y} \<longleftrightarrow> map pkey p < map pkey q"
proof (induction p arbitrary: q)
  case Nil
  then show ?case by (cases q) simp_all
next
  case (Cons x p)
  then show ?case by (cases q) (auto simp: pkey_less pkey_eq)
qed

lemma pkeys_eq: "map pkey p = map pkey q \<longleftrightarrow> p = q"
  by (rule inj_map_eq_map) (auto intro: injI simp: pkey_eq)

lemma ident_text_ok:
  assumes "ident_ok x"
  shows "ident_key (ident_text x) = pkey x" "ident_text x \<noteq> []" "0x2E \<notin> set (ident_text x)"
proof -
  have d: "\<not> is_digit 0x2E" "\<not> ident_char 0x2E" by (simp_all add: is_digit_def ident_char_def)
  show "ident_key (ident_text x) = pkey x"
    using assms strtoul_digits [OF dec_bytes_all, of 0]
    by (cases x) (auto simp: ident_key_def ident_is_num_def dec_bytes_all dec_bytes_not_Nil digits_value_bytes)
  show "ident_text x \<noteq> []" using assms by (cases x) (simp_all add: dec_bytes_not_Nil)
  show "0x2E \<notin> set (ident_text x)" using assms d dec_bytes_all by (cases x) (auto simp: list_all_iff)
qed

lemma upto_dot_text: "0x2E \<notin> set x \<Longrightarrow> upto_dot x = x \<and> past_dot x = [] \<and> upto_dot (x @ 0x2E # y) = x \<and> past_dot (x @ 0x2E # y) = y"
  by (induction x) (auto simp: upto_dot_def past_dot_def)

lemma idents_dotted: "list_all (\<lambda>x. x \<noteq> [] \<and> 0x2E \<notin> set x) xs \<Longrightarrow> idents (dotted xs) = xs"
proof (induction xs rule: dotted.induct)
  case (2 x)
  then show ?case using upto_dot_text [of x] by (subst idents.simps) (simp add: idents.simps [of "[]"])
next
  case (3 x y xs)
  then show ?case using upto_dot_text [of x] by (subst idents.simps) simp
qed (simp add: idents.simps)

lemma dotted_not_Nil: "xs \<noteq> [] \<Longrightarrow> list_all (\<lambda>x. x \<noteq> []) xs \<Longrightarrow> dotted xs \<noteq> []"
  by (induction xs rule: dotted.induct) auto

lemma ver_split_text:
  assumes "semver_ok (Semver a b c p)"
  shows "ver_split (ver_text (Semver a b c p)) = ([a, b, c], dotted (map ident_text p))"
proof -
  define t where "t = (if p = [] then [] else 0x2D # dotted (map ident_text p))"
  have t: "t = [] \<or> hd t = 0x2D" by (simp add: t_def)
  have nd: "\<not> is_digit 0x2D" "\<not> is_digit 0x2E" by (simp_all add: is_digit_def)
  have n: "read_digits 9 0 (dec_bytes k @ r) = (k, r)" if "k < 1000000000" "r = [] \<or> hd r = 0x2D \<or> hd r = 0x2E" for k r
    using read_dec [of k 9 r] that nd by auto
  have nums: "ver_numbers 3 (ver_text (Semver a b c p)) = ([a, b, c], t)"
  proof -
    have "read_digits 9 0 (dec_bytes c @ t) = (c, t)" using n [of c t] assms t by auto
    moreover have "\<not> (t \<noteq> [] \<and> hd t = 0x2E)" using t by auto
    ultimately show ?thesis
      using assms n [of a "0x2E # dec_bytes b @ 0x2E # dec_bytes c @ t"] n [of b "0x2E # dec_bytes c @ t"]
      by (auto simp: numeral_3_eq_3 t_def [symmetric])
  qed
  have hd: "is_digit (hd (ver_text (Semver a b c p)))" "ver_text (Semver a b c p) \<noteq> []"
    using dec_bytes_all [of a] dec_bytes_not_Nil [of a] by (cases "dec_bytes a"; simp)+
  then have h: "dropWhile (\<lambda>c. c = 0x20 \<or> c = 9) (ver_text (Semver a b c p)) = ver_text (Semver a b c p)"
    "hd (ver_text (Semver a b c p)) \<noteq> 0x76" "hd (ver_text (Semver a b c p)) \<noteq> 0x56"
    by (cases "ver_text (Semver a b c p)"; auto simp: is_digit_def)+
  have d: "dropWhile (\<lambda>c. c = 0x2E \<or> is_digit c) t = t" using t nd by (cases t) auto
  then have "ver_split (ver_text (Semver a b c p)) = ([a, b, c], if t \<noteq> [] \<and> hd t = 0x2D then tl t else [])"
    using h by (simp only: ver_split_def Let_def nums prod.case d if_False simp_thms h)
  then show ?thesis by (simp add: t_def)
qed

lemma ver_key_text:
  assumes "semver_ok (Semver a b c p)"
  shows "ver_key (ver_text (Semver a b c p)) = ([a, b, c], p = [], map pkey p)"
proof -
  have p: "list_all (\<lambda>x. ident_key (ident_text x) = pkey x \<and> ident_text x \<noteq> [] \<and> 0x2E \<notin> set (ident_text x)) p"
    using assms ident_text_ok by (auto simp: list_all_iff)
  then have "idents (dotted (map ident_text p)) = map ident_text p" by (intro idents_dotted) (simp add: list_all_iff)
  moreover have "dotted (map ident_text p) = [] \<longleftrightarrow> p = []"
    using p dotted_not_Nil [of "map ident_text p"] by (cases "p = []") (auto simp: list_all_iff)
  ultimately show ?thesis using p by (simp add: ver_key_def ver_split_text [OF assms] list_all_iff del: ver_text.simps)
qed

lemma ver_compare:
  assumes "semver_ok v" "semver_ok w"
  shows "let c = suite_update_compare_versions (ver_text v) (ver_text w) in
    c = (if precedes v w then -1 else if precedes w v then 1 else 0) \<and> (c = 0 \<longleftrightarrow> v = w)"
proof -
  obtain a b c p a' b' c' q where v: "v = Semver a b c p" "w = Semver a' b' c' q" by (cases v; cases w)
  let ?k = "\<lambda>a b c p. ([a, b, c], p = [], map pkey p)"
  have k: "suite_update_compare_versions (ver_text v) (ver_text w) = cmp_of (?k a b c p) (?k a' b' c' q)"
    using ver_key_text assms by (simp only: compare_versions_key v)
  have l: "precedes (Semver a b c p) (Semver a' b' c' q) \<longleftrightarrow> ?k a b c p < ?k a' b' c' q" for a b c p a' b' c' q
    by (auto simp: precedes_simps pkeys_less)
  have "cmp_of (?k a b c p) (?k a' b' c' q) = (if precedes v w then -1 else if precedes w v then 1 else 0)"
    unfolding v l cmp_of_def by (rule refl)
  moreover have "cmp_of (?k a b c p) (?k a' b' c' q) = 0 \<longleftrightarrow> v = w" by (auto simp: v pkeys_eq)
  ultimately show ?thesis by (simp only: k Let_def simp_thms)
qed

text \<open>
  C6: The comparison of versions is the precedence of semver.org. For any two versions, pre-releases included, it tells which one comes first, and that they are the same only where they are.
  (Numbers of at most nine digits, numeric identifiers below 2 to the 32.)
\<close>

theorem upd_version_order:
  assumes "semver_ok v" "semver_ok w"
  shows "let c = suite_update_compare_versions (ver_text v) (ver_text w) in
    c = (if precedes v w then -1 else if precedes w v then 1 else 0) \<and> (c = 0 \<longleftrightarrow> v = w)"
  by (rule ver_compare [OF assms])

theorem upd_version_order_witness:
  "suite_update_compare_versions (ver_text (Semver 0 7 0 [Alnum (asc ''beta'')])) (ver_text (Semver 0 7 0 [Alnum (asc ''beta''), Num 2])) = -1"
  using upd_version_order [of "Semver 0 7 0 [Alnum (asc ''beta'')]" "Semver 0 7 0 [Alnum (asc ''beta''), Num 2]"]
  by (simp add: ident_char_def is_digit_def precedes_simps Let_def)


text \<open>Build metadata counts where a pre-release comes before it, and does not otherwise.\<close>

lemma upd_build_counts:
  "suite_update_compare_versions (asc ''1.0.0-rc+1'') (asc ''1.0.0-rc+2'') = -1" "suite_update_compare_versions (asc ''1.0.0+1'') (asc ''1.0.0+2'') = 0"
  by code_simp+

end
