(* ===== verification/UpdJson.thy ===== *)
theory UpdJson
  imports UpdOrder
begin

section \<open>A manifest that is written and read back\<close>

text \<open>
  A flat JSON object whose values are strings, numbers and other words, as a relation between the members and the texts that write
  them, with any white space at every place and every escape that the reader knows; and what the reader makes of such a text.
\<close>

datatype jval = JStr "byte list" | JNum nat | JWord "byte list"

subsection \<open>What is written\<close>

definition short_escapes :: "(byte \<times> byte) list" where
  "short_escapes = [(0x22, 0x22), (0x5C, 0x5C), (0x2F, 0x2F), (0x0A, 0x6E), (0x0D, 0x72), (9, 0x74)]"

inductive char_written :: "byte \<Rightarrow> byte list \<Rightarrow> bool" where
  Plain: "x \<noteq> 0x22 \<Longrightarrow> x \<noteq> 0x5C \<Longrightarrow> char_written x [x]"
| Short: "(x, e) \<in> set short_escapes \<Longrightarrow> char_written x [0x5C, e]"
| Hex: "hex_value a = Some h \<Longrightarrow> hex_value b = Some l \<Longrightarrow> 0x20 \<le> h * 16 + l \<Longrightarrow> h * 16 + l < 0x7F \<Longrightarrow>
    char_written (word_of_nat (h * 16 + l)) [0x5C, 0x75, 0x30, 0x30, a, b]"

inductive string_written :: "byte list \<Rightarrow> byte list \<Rightarrow> bool" where
  Nil: "string_written [] []"
| Cons: "char_written x e \<Longrightarrow> string_written s t \<Longrightarrow> string_written (x # s) (e @ t)"

definition word_char :: "byte \<Rightarrow> bool" where
  "word_char c \<longleftrightarrow> ident_char c \<or> c = 0x2B \<or> c = 0x2E"

inductive value_written :: "jval \<Rightarrow> byte list \<Rightarrow> bool" where
  "string_written s t \<Longrightarrow> value_written (JStr s) (0x22 # t @ [0x22])"
| "value_written (JNum n) (dec_bytes n)"
| "t \<noteq> [] \<Longrightarrow> list_all word_char t \<Longrightarrow> value_written (JWord t) t"

abbreviation white :: "byte list \<Rightarrow> bool" where
  "white \<equiv> list_all json_ws"

inductive member_written :: "byte list \<times> jval \<Rightarrow> byte list \<Rightarrow> bool" where
  "white w1 \<Longrightarrow> white w2 \<Longrightarrow> white w3 \<Longrightarrow> value_written v t \<Longrightarrow>
    member_written (k, v) (0x22 # k @ 0x22 # w1 @ 0x3A # w2 @ t @ w3)"

inductive members_written :: "(byte list \<times> jval) list \<Rightarrow> byte list \<Rightarrow> bool" where
  None: "members_written [] []"
| One: "member_written m t \<Longrightarrow> members_written [m] t"
| More: "member_written m t \<Longrightarrow> white w \<Longrightarrow> members_written (m2 # ms) t' \<Longrightarrow> members_written (m # m2 # ms) (t @ 0x2C # w @ t')"

inductive json_written :: "(byte list \<times> jval) list \<Rightarrow> byte list \<Rightarrow> bool" where
  "white w0 \<Longrightarrow> white w1 \<Longrightarrow> white w2 \<Longrightarrow> members_written ms t \<Longrightarrow> json_written ms (w0 @ 0x7B # w1 @ t @ 0x7D # w2)"

inductive_cases char_writtenE: "char_written x e"
inductive_cases value_writtenE: "value_written v t"
inductive_cases str_writtenE: "value_written (JStr s) t"
inductive_cases num_writtenE: "value_written (JNum n) t"
inductive_cases member_writtenE: "member_written (k, v) t"
inductive_cases json_writtenE: "json_written ms doc"

lemma char_string: "char_written x e \<Longrightarrow> string_written [x] e"
  using string_written.Cons [OF _ string_written.Nil] by fastforce

lemma string_written_append: "string_written s t \<Longrightarrow> string_written s' t' \<Longrightarrow> string_written (s @ s') (t @ t')"
  by (induction rule: string_written.induct) (auto intro: string_written.Cons)

lemma plain_string: "0x22 \<notin> set s \<Longrightarrow> 0x5C \<notin> set s \<Longrightarrow> string_written s s"
proof (induction s)
  case (Cons x s)
  then show ?case using string_written.Cons [OF char_written.Plain, of x s s] by auto
qed (rule string_written.Nil)

subsection \<open>One way of writing\<close>

text \<open>The same white space everywhere, and only the escapes that are needed.\<close>

definition json_enc :: "byte \<Rightarrow> byte list" where
  "json_enc x =
     (if x = 0x22 \<or> x = 0x5C then [0x5C, x]
      else if x = 0x0A then [0x5C, 0x6E]
      else if x = 0x0D then [0x5C, 0x72]
      else if x = 9 then [0x5C, 0x74]
      else [x])"

fun jval_text :: "jval \<Rightarrow> byte list" where
  "jval_text (JStr s) = 0x22 # concat (map json_enc s) @ [0x22]"
| "jval_text (JNum n) = dec_bytes n"
| "jval_text (JWord t) = t"

fun member_text :: "byte list \<Rightarrow> byte list \<times> jval \<Rightarrow> byte list" where
  "member_text w (k, v) = 0x22 # k @ 0x22 # w @ 0x3A # w @ jval_text v @ w"

fun members_text :: "byte list \<Rightarrow> (byte list \<times> jval) list \<Rightarrow> byte list" where
  "members_text w [] = []"
| "members_text w [m] = member_text w m"
| "members_text w (m # ms) = member_text w m @ 0x2C # w @ members_text w ms"

definition json_doc :: "byte list \<Rightarrow> (byte list \<times> jval) list \<Rightarrow> byte list" where
  "json_doc w ms = 0x7B # w @ members_text w ms @ [0x7D]"


lemma json_enc_written: "string_written s (concat (map json_enc s))"
proof (induction s)
  case (Cons x s)
  have "char_written x (json_enc x)" by (auto simp: json_enc_def short_escapes_def intro!: char_written.intros)
  from string_written.Cons [OF this Cons] show ?case by simp
qed (simp add: string_written.Nil)

lemma jval_text_written: "(\<And>t. v = JWord t \<Longrightarrow> t \<noteq> [] \<and> list_all word_char t) \<Longrightarrow> value_written v (jval_text v)"
  using json_enc_written by (cases v) (auto intro: value_written.intros)

lemma json_doc_written:
  assumes "white w" "list_all (\<lambda>(k, v). \<forall>t. v = JWord t \<longrightarrow> t \<noteq> [] \<and> list_all word_char t) ms"
  shows "json_written ms (json_doc w ms)"
proof -
  have m: "member_written m (member_text w m)" if "(\<lambda>(k, v). \<forall>t. v = JWord t \<longrightarrow> t \<noteq> [] \<and> list_all word_char t) m" for m
    using that assms(1) jval_text_written [of "snd m"] by (cases m) (auto intro: member_written.intros)
  have "members_written ms (members_text w ms)"
    using assms(2) by (induction ms rule: induct_list012) (auto intro!: members_written.intros m assms(1) simp del: member_text.simps)
  from json_written.intros [of "[]" w "[]", OF _ assms(1) _ this] show ?thesis by (simp add: json_doc_def)
qed

subsection \<open>What is read\<close>

definition key_ok :: "byte list \<Rightarrow> bool" where
  "key_ok k \<longleftrightarrow> k \<noteq> [] \<and> list_all (\<lambda>c. ident_char c \<or> c = 0x5F) k"

definition key_stop :: "byte \<Rightarrow> bool" where
  "key_stop c \<longleftrightarrow> c = 0x22 \<or> c = 0x5C \<or> c = 0x2C \<or> c = 0x3A \<or> c = 0x7D \<or> json_ws c"

lemma key_chars: "key_ok k \<Longrightarrow> c \<in> set k \<Longrightarrow> \<not> key_stop c"
proof -
  assume "key_ok k" "c \<in> set k"
  then have "ident_char c \<or> c = 0x5F" by (auto simp: key_ok_def list_all_iff)
  then show "\<not> key_stop c"
    by (auto simp: ident_char_def is_digit_def key_stop_def json_ws_def)
qed

lemma key_quote: "key_ok k \<Longrightarrow> 0x22 \<notin> set k \<and> 0x5C \<notin> set k \<and> k \<noteq> []"
  using key_chars [of k "0x22"] key_chars [of k "0x5C"] by (auto simp: key_stop_def key_ok_def)

lemma drop_ws: "list_all json_ws w \<Longrightarrow> dropWhile json_ws (w @ x) = dropWhile json_ws x"
  by (induction w) auto

text \<open>What a written character leaves to a reader that looks for the next quote.\<close>

lemma hex_plain: "hex_value a = Some h \<Longrightarrow> a \<noteq> 0x22 \<and> a \<noteq> 0x5C"
  by (auto simp: hex_value_def split: if_splits)

lemma char_shape:
  assumes "char_written x e"
  obtains "e \<noteq> []" "0x22 \<notin> set e" "0x5C \<notin> set (tl e)" | e' where "e = [0x5C, e']" "e' = 0x22 \<or> e' = 0x5C"
  using assms by (cases rule: char_written.cases) (auto simp: short_escapes_def dest: hex_plain)

lemma after_key_plain:
  assumes "0x22 \<notin> set e" "e \<noteq> []" "\<And>k. 0x22 \<notin> set k \<Longrightarrow> 0x5C \<notin> set k \<Longrightarrow> json_after_key k rest = None" "0x22 \<notin> set key" "0x5C \<notin> set key"
  shows "json_after_key key (e @ rest) = None"
  using assms(1,4,5)
proof (induction e arbitrary: key)
  case Nil
  then show ?case using assms(3) by simp
next
  case (Cons c e)
  then show ?case by (cases key) auto
qed

lemma after_key_string:
  assumes "string_written s t" "0x22 \<notin> set key" "0x5C \<notin> set key" "dropWhile json_ws rest \<noteq> [] \<longrightarrow> hd (dropWhile json_ws rest) \<noteq> 0x3A"
  shows "json_after_key key (t @ 0x22 # rest) = None"
  using assms(1-3)
proof (induction s t arbitrary: key rule: string_written.induct)
  case Nil
  then show ?case using assms(4) by (cases key) (auto simp: Let_def)
next
  case (Cons x e s t)
  from Cons.hyps(1) show ?case
  proof (cases rule: char_shape)
    case 1
    then show ?thesis using after_key_plain [of e "t @ 0x22 # rest" key] Cons.IH Cons.prems by simp
  next
    case (2 e')
    then show ?thesis using Cons.prems by (cases key) auto
  qed
qed

lemma after_key_stop: "key_ok key \<Longrightarrow> key_stop (hd rest) \<Longrightarrow> json_after_key key rest = None"
  using key_chars [of key "hd key"] by (cases key; cases rest) (auto simp: key_ok_def)

lemma after_key_other: "0x22 \<notin> set k \<Longrightarrow> 0x22 \<notin> set key \<Longrightarrow> k \<noteq> key \<Longrightarrow> json_after_key key (k @ 0x22 # rest) = None"
proof (induction k arbitrary: key)
  case Nil
  then show ?case by (cases key) auto
next
  case (Cons c k)
  then show ?case by (cases key) auto
qed

lemma after_key_same: "dropWhile json_ws rest = 0x3A # v \<Longrightarrow> json_after_key k (k @ 0x22 # rest) = Some (dropWhile json_ws v)"
  by (induction k) (simp_all add: Let_def)

lemma value_for_plain: "0x22 \<notin> set xs \<Longrightarrow> json_value_for (xs @ rest) key = json_value_for rest key"
  by (induction xs) auto

lemma value_for_string:
  assumes "string_written s t" "0x22 \<notin> set key" "0x5C \<notin> set key" "dropWhile json_ws rest \<noteq> [] \<longrightarrow> hd (dropWhile json_ws rest) \<noteq> 0x3A"
  shows "json_value_for (t @ 0x22 # rest) key = json_value_for (0x22 # rest) key"
  using assms(1)
proof (induction s t rule: string_written.induct)
  case (Cons x e s t)
  from Cons.hyps(1) show ?case
  proof (cases rule: char_shape)
    case 1
    then show ?thesis using value_for_plain [of e "t @ 0x22 # rest" key] Cons.IH by simp
  next
    case (2 e')
    then show ?thesis using Cons.IH after_key_string [OF Cons.hyps(2) assms(2-4)] by auto
  qed
qed simp

lemma value_for_stop:
  assumes "key_ok key" "key_stop (hd rest)"
  shows "json_value_for (0x22 # rest) key = json_value_for rest key"
  using after_key_stop [OF assms] by simp

definition value_end :: "byte list \<Rightarrow> bool" where
  "value_end t \<longleftrightarrow> t \<noteq> [] \<and> (hd t = 0x2C \<or> hd t = 0x7D)"

lemma value_end_ws: "value_end t \<Longrightarrow> list_all json_ws w \<Longrightarrow> dropWhile json_ws (w @ t) = t \<and> key_stop (hd (w @ t)) \<and> w @ t \<noteq> []"
  by (cases t; cases w) (auto simp: value_end_def key_stop_def drop_ws json_ws_def)

lemma ws_plain: "list_all json_ws w \<Longrightarrow> 0x22 \<notin> set w"
  by (auto simp: list_all_iff json_ws_def)

lemma word_plain: "word_char c \<Longrightarrow> \<not> json_ws c \<and> c \<noteq> 0x22 \<and> c \<noteq> 0"
  by (auto simp: word_char_def ident_char_def is_digit_def json_ws_def)

lemma dec_word: "list_all word_char (dec_bytes n)"
  using dec_bytes_all [of n] by (auto simp: list_all_iff word_char_def ident_char_def is_digit_def)

lemma unquoted_plain: "list_all word_char t \<Longrightarrow> 0x22 \<notin> set t"
  using word_plain by (auto simp: list_all_iff)

lemma value_shape:
  assumes "value_written v t"
  obtains s u where "v = JStr s" "string_written s u" "t = 0x22 # u @ [0x22]" | "t \<noteq> []" "list_all word_char t"
  using assms by (cases rule: value_written.cases) (use dec_word dec_bytes_not_Nil in auto)

lemma value_for_colon:
  assumes "key_ok key" "white w1" "white w2"
  shows "json_value_for (0x22 # w1 @ 0x3A # w2 @ x) key = json_value_for x key"
proof -
  have h: "key_stop (hd (w1 @ 0x3A # w2 @ x))" using assms(2) by (cases w1) (auto simp: key_stop_def)
  have p: "0x22 \<notin> set (w1 @ 0x3A # w2)" using ws_plain assms(2,3) by simp
  show ?thesis using value_for_stop [OF assms(1) h] value_for_plain [OF p, of x key] by simp
qed

lemma value_for_value:
  assumes "key_ok key" "white w" "value_end rest" "value_written v t"
  shows "json_value_for (t @ w @ rest) key = json_value_for rest key"
  using assms(4)
proof (cases rule: value_shape)
  case (1 s u)
  note e = value_end_ws [OF assms(3,2)]
  have d: "dropWhile json_ws (w @ rest) \<noteq> [] \<longrightarrow> hd (dropWhile json_ws (w @ rest)) \<noteq> 0x3A" using e assms(3) by (auto simp: value_end_def)
  have q: "0x22 \<notin> set key" "0x5C \<notin> set key" using key_quote [OF assms(1)] by simp_all
  have "json_value_for (t @ w @ rest) key = json_value_for (u @ 0x22 # w @ rest) key"
    using after_key_string [OF 1(2) q d] by (simp add: 1)
  also have "\<dots> = json_value_for (w @ rest) key"
    using value_for_string [OF 1(2) q d] value_for_stop [OF assms(1), of "w @ rest"] e by simp
  also have "\<dots> = json_value_for rest key" using value_for_plain [OF ws_plain [OF assms(2)]] by simp
  finally show ?thesis .
next
  case 2
  then show ?thesis using value_for_plain [OF unquoted_plain] value_for_plain [OF ws_plain [OF assms(2)]] by simp
qed

lemma value_start: "value_written v t \<Longrightarrow> dropWhile json_ws (t @ x) = t @ x"
  by (erule value_shape) (use word_plain in \<open>auto simp: json_ws_def neq_Nil_conv\<close>)

definition value_read :: "jval option \<Rightarrow> byte list option \<Rightarrow> bool" where
  "value_read ov x \<longleftrightarrow>
     (case ov of None \<Rightarrow> x = None | Some v \<Rightarrow> \<exists>t r. value_written v t \<and> x = Some (t @ r) \<and> r \<noteq> [] \<and> key_stop (hd r))"

lemma member_read:
  assumes "key_ok key" "key_ok (fst m)" "value_end rest" "member_written m t" "value_read (map_of ms key) (json_value_for rest key)"
  shows "value_read (map_of (m # ms) key) (json_value_for (t @ rest) key)"
proof -
  obtain k v where m: "m = (k, v)" by (cases m)
  from assms(4) obtain w1 w2 w3 u where w: "white w1" "white w2" "white w3" "value_written v u"
    and t: "t = 0x22 # k @ 0x22 # w1 @ 0x3A # w2 @ u @ w3" unfolding m by (rule member_writtenE)
  let ?r = "w1 @ 0x3A # w2 @ u @ w3 @ rest"
  show ?thesis
  proof (cases "k = key")
    case True
    have "dropWhile json_ws ?r = 0x3A # w2 @ u @ w3 @ rest" using drop_ws [OF w(1)] by (simp add: json_ws_def)
    from after_key_same [OF this, of k] have "json_value_for (t @ rest) key = Some (u @ w3 @ rest)"
      using True drop_ws [OF w(2)] value_start [OF w(4)] by (simp add: t)
    then show ?thesis using True w(4) value_end_ws [OF assms(3) w(3)] by (auto simp: m value_read_def)
  next
    case False
    note q = key_quote [OF assms(1)] key_quote [OF assms(2) [unfolded m fst_conv]]
    have "json_value_for (t @ rest) key = json_value_for (k @ 0x22 # ?r) key"
      using after_key_other [of k key ?r] q False by (simp add: t)
    also have "\<dots> = json_value_for (u @ w3 @ rest) key"
      using value_for_plain [of k "0x22 # ?r" key] value_for_colon [OF assms(1) w(1,2)] q by simp
    finally show ?thesis using value_for_value [OF assms(1) w(3) assms(3) w(4)] assms(5) False by (simp add: m)
  qed
qed

lemma members_value:
  assumes "members_written ms t" "key_ok key" "list_all (\<lambda>m. key_ok (fst m)) ms" "0x22 \<notin> set w"
  shows "value_read (map_of ms key) (json_value_for (t @ 0x7D # w) key)"
  using assms(1,3)
proof (induction rule: members_written.induct)
  case None
  then show ?case using value_for_plain [OF assms(4), of "[]"] by (simp add: value_read_def)
next
  case (One m t)
  have "value_read (map_of [] key) (json_value_for (0x7D # w) key)" using value_for_plain [OF assms(4), of "[]"] by (simp add: value_read_def)
  from member_read [OF assms(2) _ _ One.hyps, of "0x7D # w" "[]"] this One.prems show ?case by (simp add: value_end_def)
next
  case (More m t v m2 ms t')
  let ?r = "0x2C # v @ t' @ 0x7D # w"
  have "json_value_for ?r key = json_value_for (t' @ 0x7D # w) key"
    using value_for_plain [OF ws_plain [OF More.hyps(2)]] by simp
  then have "value_read (map_of (m2 # ms) key) (json_value_for ?r key)" using More by simp
  from member_read [OF assms(2) _ _ More.hyps(1) this] More.prems show ?case by (simp add: value_end_def)
qed

lemma doc_value:
  assumes "json_written ms doc" "key_ok key" "list_all (\<lambda>m. key_ok (fst m)) ms"
  shows "value_read (map_of ms key) (json_value_for doc key)"
proof -
  from assms(1) obtain w0 w1 w2 t where w: "white w0" "white w1" "white w2" "members_written ms t"
    and doc: "doc = w0 @ 0x7B # w1 @ t @ 0x7D # w2" by (rule json_writtenE)
  have "json_value_for doc key = json_value_for (t @ 0x7D # w2) key"
    using value_for_plain [OF ws_plain [OF w(1)]] value_for_plain [OF ws_plain [OF w(2)]] by (simp add: doc)
  then show ?thesis using members_value [OF w(4) assms(2,3) ws_plain [OF w(3)]] by simp
qed

lemma string_body_written: "string_written s t \<Longrightarrow> length s \<le> r \<Longrightarrow> json_string_body r (t @ 0x22 # x) = (s, 0x22 # x)"
proof (induction s t arbitrary: r rule: string_written.induct)
  case Nil
  then show ?case by (cases r) simp_all
next
  case (Cons c e s t)
  then obtain q where r: "r = Suc q" "length s \<le> q" by (cases r) auto
  note IH = Cons.IH [OF r(2)]
  from Cons.hyps(1) show ?case
  proof (cases rule: char_written.cases)
    case Plain
    then show ?thesis using IH by (simp add: r(1))
  next
    case (Short e')
    then show ?thesis using IH by (auto simp: r(1) short_escapes_def json_escape_def)
  next
    case (Hex a h b l)
    have "hex_value 0x30 = Some 0" by (simp add: hex_value_def)
    then show ?thesis using IH Hex by (simp add: r(1) json_escape_def)
  qed
qed

lemma read_string:
  assumes "json_written ms doc" "list_all (\<lambda>m. key_ok (fst m)) ms" "key_ok key" "map_of ms key = Some (JStr s)" "length s < cap"
  shows "json_get_string doc key cap = (True, s)"
proof -
  obtain u r where u: "value_written (JStr s) u" "json_value_for doc key = Some (u @ r)"
    using doc_value [OF assms(1,3,2)] assms(4) by (auto simp: value_read_def)
  from u(1) obtain t where "string_written s t" "u = 0x22 # t @ [0x22]" by (rule str_writtenE)
  then show ?thesis using string_body_written [of s t "cap - 1" r] u(2) assms(5) by (simp add: json_get_string_def)
qed

lemma read_number:
  assumes "json_written ms doc" "list_all (\<lambda>m. key_ok (fst m)) ms" "key_ok key" "map_of ms key = Some (JNum n)" "n < 10 ^ 19"
  shows "json_get_uint doc key = n"
proof -
  obtain u r where u: "value_written (JNum n) u" "json_value_for doc key = Some (u @ r)" "key_stop (hd r)"
    using doc_value [OF assms(1,3,2)] assms(4) by (auto simp: value_read_def)
  have "u = dec_bytes n" using u(1) by (rule num_writtenE)
  moreover have "\<not> is_digit (hd r)" using u(3) by (auto simp: key_stop_def is_digit_def json_ws_def)
  ultimately show ?thesis using read_dec [OF assms(5), of r] u(2) by (simp add: json_get_uint_def)
qed

lemma read_absent:
  assumes "json_written ms doc" "list_all (\<lambda>m. key_ok (fst m)) ms" "key_ok key" "map_of ms key = None"
  shows "json_get_string doc key cap = (False, [])" "json_get_uint doc key = 0"
  using doc_value [OF assms(1,3,2)] assms(4) by (simp_all add: json_get_string_def json_get_uint_def value_read_def)

text \<open>A written text has no zero byte, if its strings have none.\<close>

fun value_ok :: "jval \<Rightarrow> bool" where
  "value_ok (JStr t) \<longleftrightarrow> 0 \<notin> set t"
| "value_ok _ \<longleftrightarrow> True"

lemma char_plain: "char_written x e \<Longrightarrow> x \<noteq> 0 \<Longrightarrow> 0 \<notin> set e"
  by (erule char_writtenE) (auto simp: short_escapes_def hex_value_def)

lemma string_plain: "string_written s t \<Longrightarrow> 0 \<notin> set s \<Longrightarrow> 0 \<notin> set t"
  by (induction rule: string_written.induct) (auto dest: char_plain)

lemma value_plain: "value_written v t \<Longrightarrow> value_ok v \<Longrightarrow> 0 \<notin> set t"
  by (erule value_shape) (use word_plain string_plain in \<open>auto simp: list_all_iff\<close>)

lemma white_plain: "white w \<Longrightarrow> 0 \<notin> set w"
  by (auto simp: list_all_iff json_ws_def)

lemma key_plain: "key_ok k \<Longrightarrow> 0 \<notin> set k"
  by (auto simp: key_ok_def list_all_iff ident_char_def is_digit_def)

lemma members_plain: "members_written ms t \<Longrightarrow> list_all (\<lambda>(k, v). key_ok k \<and> value_ok v) ms \<Longrightarrow> 0 \<notin> set t"
  by (induction rule: members_written.induct) (auto elim!: member_written.cases dest: white_plain key_plain value_plain)

lemma doc_plain: "json_written ms doc \<Longrightarrow> list_all (\<lambda>(k, v). key_ok k \<and> value_ok v) ms \<Longrightarrow> 0 \<notin> set doc"
  by (erule json_writtenE) (auto dest: white_plain members_plain)

end
