(* ===== verification/UpdInv.thy ===== *)
theory UpdInv
  imports Update UpdJson
begin

section \<open>The invariant of the updater\<close>

text \<open>Fetching into memory returns; the updater is idle or does exactly one thing, and what it launched had been checked.\<close>

subsection \<open>Fetching\<close>

lemma grow_cap32_some:
  assumes "0 < unat c" "unat need \<le> 2147483648" "unat need \<le> unat c * 2 ^ r"
  shows "\<exists>c'. grow_cap32 r need c = Some c' \<and> need \<le> c'"
  using assms
proof (induction r arbitrary: c)
  case 0
  then show ?case by (auto simp: word_le_nat_alt word_less_nat_alt)
next
  case (Suc r)
  show ?case
  proof (cases "c < need")
    case True
    then have "unat c < 2147483648" using Suc.prems(2) by (simp add: word_less_nat_alt)
    then have "unat (c * 2) = unat c * 2" by (subst unat_mult_lem [THEN iffD1]) simp_all
    then show ?thesis using Suc True by simp
  qed auto
qed

lemma mem_loop_grows:
  fixes cap avail :: u32
  assumes "mx \<le> 1000000000" "n + unat avail \<le> mx" "word_of_nat n + avail + 1 > cap"
  shows "\<exists>c. grow_cap32 32 (word_of_nat n + avail + 1) (if cap \<noteq> 0 then cap * 2 else 8192) = Some c"
proof -
  let ?need = "word_of_nat n + avail + 1"
  have "?need = word_of_nat (n + unat avail + 1)" by simp
  then have need: "unat ?need = n + unat avail + 1" using assms(1,2) by (simp only: unat_of_nat) simp
  let ?c = "if cap \<noteq> 0 then cap * 2 else 8192"
  have "unat cap < n + unat avail + 1" using assms(3) need by (simp add: word_less_nat_alt)
  then have "unat (cap * 2) = unat cap * 2" using assms(1,2) by (subst unat_mult_lem [THEN iffD1]) simp_all
  moreover have "0 < unat cap" if "cap \<noteq> 0" using that by (simp add: unat_gt_0)
  ultimately have c: "0 < unat ?c" by simp
  then have "unat ?need \<le> unat ?c * 2 ^ 32" using need assms(1,2) by (cases "unat ?c") simp_all
  then show ?thesis using grow_cap32_some [OF c, of ?need 32] need assms(1,2) by auto
qed

lemma mem_loop_returns:
  assumes "mx \<noteq> 0" "mx \<le> 1000000000" "length used \<le> mx"
  shows "mem_loop net mx cap used rs \<noteq> None"
  using assms(3)
proof (induction rs arbitrary: cap used)
  case (Cons x rs)
  show ?case
  proof (cases x)
    case (Avail avail d w)
    define go where "go c = (case d of
                None \<Rightarrow> Some (HTTP_FETCH_OK, [], c, used)
              | Some got0 \<Rightarrow>
                  let got = take (unat avail) got0 in
                  if got = [] then Some (HTTP_FETCH_OK, [], c, used) else mem_loop net mx c (used @ got) rs)" for c
    have n: "go c \<noteq> None" if "length used + unat avail \<le> mx" for c
      using that Cons.IH by (auto simp: go_def Let_def split: option.split)
    show ?thesis
    proof (cases "avail = 0 \<or> length used + unat avail > mx")
      case False
      then have l: "length used + unat avail \<le> mx" by simp
      show ?thesis using False n [OF l] mem_loop_grows [OF assms(2) l, of cap]
        by (auto simp: Avail Let_def go_def [symmetric] split: option.split)
    qed (use assms(1) in \<open>auto simp: Avail\<close>)
  qed simp
qed simp

text \<open>The update manifest is always fetched, or the fetch fails.\<close>

lemma fetch_returns: "http_fetch_to_memory net url update_manifest_max \<noteq> None"
  using mem_loop_returns [of update_manifest_max "[]" net 0 "hn_reads net"]
  by (auto simp: http_fetch_to_memory_def update_manifest_max_def split: prod.split option.split)

text \<open>A body that comes in pieces.\<close>

definition body_reads :: "byte list list \<Rightarrow> http_read list" where
  "body_reads cs = map (\<lambda>c. Avail (word_of_nat (length c)) (Some c) None) cs"

lemma mem_loop_body:
  assumes "mx \<le> 1000000000" "list_all (\<lambda>c. c \<noteq> []) cs" "length used + length (concat cs) \<le> mx" "\<forall>n. hn_alloc net n"
  shows "\<exists>c. mem_loop net mx cap used (body_reads cs) = Some (HTTP_FETCH_OK, [], c, used @ concat cs)"
  using assms(2,3)
proof (induction cs arbitrary: cap used)
  case Nil
  then show ?case by (simp add: body_reads_def)
next
  case (Cons x cs)
  let ?a = "word_of_nat (length x) :: u32"
  have x: "unat ?a = length x" "length x \<noteq> 0" "take (length x) x \<noteq> []" using Cons.prems assms(1) by (simp_all add: unat_of_nat)
  then have a: "?a \<noteq> 0" by (metis unat_0)
  have l: "length used + unat ?a \<le> mx" using Cons.prems x by simp
  have IH: "\<exists>c. mem_loop net mx cap (used @ x) (body_reads cs) = Some (HTTP_FETCH_OK, [], c, (used @ x) @ concat cs)" for cap
    using Cons.prems by (intro Cons.IH) simp_all
  have b: "body_reads (x # cs) = Avail ?a (Some x) None # body_reads cs" by (simp add: body_reads_def)
  show ?case unfolding b
    using a l IH mem_loop_grows [OF assms(1) l, of cap] assms(4) x
    by (auto simp: Let_def split: option.split)
qed

subsection \<open>The state of a check\<close>

definition offer_ok :: "upd_manifest \<Rightarrow> bool" where
  "offer_ok m \<longleftrightarrow> is_hex64 (um_msi_sha256 m) \<and> url_host_allowed (um_msi_url m) \<and> \<not> upd_placeholder m \<and>
     suite_update_compare_versions suite_version_str (um_version m) < 0"

text \<open>What a file holds has the checksum of the manifest, for a hash function; nothing is claimed where there is none.\<close>

definition matches_sum :: "(byte list \<Rightarrow> byte list) option \<Rightarrow> byte list option \<Rightarrow> upd_manifest \<Rightarrow> bool" where
  "matches_sum h c m \<longleftrightarrow>
     (case h of None \<Rightarrow> True | Some f \<Rightarrow> \<exists>content. c = Some content \<and> suite_sha256_hex_equal (hex_text (f content)) (um_msi_sha256 m))"

definition offered_in :: "upd_out list \<Rightarrow> upd_manifest \<Rightarrow> bool" where
  "offered_in log m \<longleftrightarrow> offer_ok m \<and> (\<exists>mode required. Offered m mode required \<in> set log)"

definition verified_in :: "(byte list \<Rightarrow> byte list) option \<Rightarrow> files \<Rightarrow> upd_out list \<Rightarrow> upd_download \<Rightarrow> bool" where
  "verified_in h files log d \<longleftrightarrow> offered_in log (ud_m d) \<and> Fetched (um_msi_url (ud_m d)) \<in> set log \<and> matches_sum h (files (ud_path d)) (ud_m d)"

fun message_ok :: "(byte list \<Rightarrow> byte list) option \<Rightarrow> upd \<Rightarrow> upd_message \<Rightarrow> bool" where
  "message_ok h s (Upd_result r) \<longleftrightarrow> (ur_ok r \<and> \<not> ur_placeholder r \<and> ur_cmp r < 0 \<longrightarrow> offer_ok (ur_m r))"
| "message_ok h s (Upd_dldone d) \<longleftrightarrow> (ud_ok d \<longrightarrow> verified_in h (up_files s) (up_log s) d)"

text \<open>The updater is idle, or does exactly one thing.\<close>

fun phase_ok :: "(byte list \<Rightarrow> byte list) option \<Rightarrow> upd \<Rightarrow> upd_worker \<Rightarrow> upd_message list \<Rightarrow> upd_dialog \<Rightarrow> bool" where
  "phase_ok h s No_worker [] No_dialog \<longleftrightarrow> \<not> up_busy s"
| "phase_ok h s Checking [] No_dialog \<longleftrightarrow> up_busy s"
| "phase_ok h s (Downloading m) [] No_dialog \<longleftrightarrow> up_busy s \<and> offered_in (up_log s) m"
| "phase_ok h s No_worker [x] No_dialog \<longleftrightarrow> up_busy s \<and> message_ok h s x"
| "phase_ok h s No_worker [] (Offer m mode required) \<longleftrightarrow> up_busy s \<and> up_pending s = m \<and> offered_in (up_log s) m"
| "phase_ok h s No_worker [] (Ready d) \<longleftrightarrow> up_busy s \<and> Asked d \<in> set (up_log s) \<and> verified_in h (up_files s) (up_log s) d"
| "phase_ok h s w p d \<longleftrightarrow> False"

text \<open>What was launched had been offered, fetched, checked and agreed to, in this order.\<close>

definition launch_ok :: "(byte list \<Rightarrow> byte list) option \<Rightarrow> upd_out list \<Rightarrow> upd_out \<Rightarrow> bool" where
  "launch_ok h before x =
     (case x of
        Launched cmd path m content \<Rightarrow>
          offered_in before m \<and> Fetched (um_msi_url m) \<in> set before \<and> (\<exists>d. Asked d \<in> set before \<and> ud_m d = m \<and> ud_path d = path) \<and>
          matches_sum h content m
      | _ \<Rightarrow> True)"

definition log_ok :: "(byte list \<Rightarrow> byte list) option \<Rightarrow> upd_out list \<Rightarrow> bool" where
  "log_ok h log \<longleftrightarrow> (\<forall>i < length log. launch_ok h (take i log) (log ! i))"

definition upd_ok :: "(byte list \<Rightarrow> byte list) option \<Rightarrow> upd \<Rightarrow> bool" where
  "upd_ok h s \<longleftrightarrow> phase_ok h s (up_worker s) (up_posted s) (up_dialog s) \<and> log_ok h (up_log s)"

text \<open>The events for which it holds: with a hash function, no other program changes the disk, and the provider computes that function.\<close>

definition quiet_disk :: "(byte list \<Rightarrow> byte list) option \<Rightarrow> upd_event \<Rightarrow> bool" where
  "quiet_disk h e \<longleftrightarrow>
     (case h of
        None \<Rightarrow> True
      | Some f \<Rightarrow> (case e of Download_runs net sha del posted \<Rightarrow> sh_hash sha = f | Disk_changes files \<Rightarrow> False | _ \<Rightarrow> True))"

lemma log_ok_snoc: "log_ok h (log @ [x]) \<longleftrightarrow> log_ok h log \<and> launch_ok h log x"
  by (auto simp: log_ok_def nth_append less_Suc_eq)

fun not_launch :: "upd_out \<Rightarrow> bool" where
  "not_launch (Launched cmd path m c) \<longleftrightarrow> False"
| "not_launch x \<longleftrightarrow> True"

lemma log_ok_plain [simp]: "list_all not_launch xs \<Longrightarrow> log_ok h (log @ xs) \<longleftrightarrow> log_ok h log"
proof (induction xs rule: rev_induct)
  case (snoc x xs)
  then have "launch_ok h (log @ xs) x" by (cases x) (simp_all add: launch_ok_def)
  then show ?case using snoc log_ok_snoc [of h "log @ xs" x] by simp
qed simp

lemma log_ok_launch: "list_all not_launch xs \<Longrightarrow> log_ok h (log @ x # xs) \<longleftrightarrow> log_ok h log \<and> launch_ok h log x"
  using log_ok_plain [of xs h "log @ [x]"] by (simp add: log_ok_snoc)

lemma out_log_fields [simp]:
  "up_busy (out_log x s) = up_busy s" "up_worker (out_log x s) = up_worker s" "up_posted (out_log x s) = up_posted s"
  "up_dialog (out_log x s) = up_dialog s" "up_pending (out_log x s) = up_pending s" "up_files (out_log x s) = up_files s"
  "up_log (out_log x s) = up_log s @ [x]" "up_mode (out_log x s) = up_mode s" "up_skipped (out_log x s) = up_skipped s"
  by (simp_all add: out_log_def)

lemma settings_fields [simp]:
  "up_busy (settings_stamp_check env t s) = up_busy s" "up_worker (settings_stamp_check env t s) = up_worker s"
  "up_posted (settings_stamp_check env t s) = up_posted s" "up_dialog (settings_stamp_check env t s) = up_dialog s"
  "up_log (settings_stamp_check env t s) = up_log s" "up_files (settings_stamp_check env t s) = up_files s"
  "up_busy (settings_write_skipped env t s) = up_busy s" "up_worker (settings_write_skipped env t s) = up_worker s"
  "up_posted (settings_write_skipped env t s) = up_posted s" "up_dialog (settings_write_skipped env t s) = up_dialog s"
  "up_log (settings_write_skipped env t s) = up_log s" "up_files (settings_write_skipped env t s) = up_files s"
  "up_busy (suite_update_set_startup_enabled env b s) = up_busy s" "up_worker (suite_update_set_startup_enabled env b s) = up_worker s"
  "up_posted (suite_update_set_startup_enabled env b s) = up_posted s" "up_dialog (suite_update_set_startup_enabled env b s) = up_dialog s"
  "up_log (suite_update_set_startup_enabled env b s) = up_log s" "up_files (suite_update_set_startup_enabled env b s) = up_files s"
  "up_pending (suite_update_set_startup_enabled env b s) = up_pending s" "up_skipped (settings_stamp_check env t s) = up_skipped s"
  by (simp_all add: settings_stamp_check_def settings_write_skipped_def suite_update_set_startup_enabled_def)

lemma offered_in_mono: "offered_in log m \<Longrightarrow> set log \<subseteq> set log' \<Longrightarrow> offered_in log' m"
  by (auto simp: offered_in_def)

lemma verified_in_mono: "verified_in h files log d \<Longrightarrow> set log \<subseteq> set log' \<Longrightarrow> verified_in h files log' d"
  by (auto simp: verified_in_def intro: offered_in_mono)

lemma message_ok_mono:
  "message_ok h s x \<Longrightarrow> up_files t = up_files s \<Longrightarrow> set (up_log s) \<subseteq> set (up_log t) \<Longrightarrow> message_ok h t x"
  by (cases x) (auto intro: verified_in_mono)

lemma phase_ok_mono:
  assumes "phase_ok h s w p d" "up_busy t = up_busy s" "up_pending t = up_pending s" "up_files t = up_files s" "set (up_log s) \<subseteq> set (up_log t)"
  shows "phase_ok h t w p d"
  using assms by (cases "(h, s, w, p, d)" rule: phase_ok.cases) (auto intro: message_ok_mono verified_in_mono offered_in_mono)

text \<open>While a check runs, or when none does, only the phase it is in holds.\<close>

lemma phase_simps:
  "phase_ok h s Checking p d \<longleftrightarrow> p = [] \<and> d = No_dialog \<and> up_busy s"
  "phase_ok h s (Downloading m) p d \<longleftrightarrow> p = [] \<and> d = No_dialog \<and> up_busy s \<and> offered_in (up_log s) m"
  "phase_ok h s w (x # p) d \<longleftrightarrow> w = No_worker \<and> p = [] \<and> d = No_dialog \<and> up_busy s \<and> message_ok h s x"
  "phase_ok h s w p (Offer m mode required) \<longleftrightarrow> w = No_worker \<and> p = [] \<and> up_busy s \<and> up_pending s = m \<and> offered_in (up_log s) m"
  "phase_ok h s w p (Ready e) \<longleftrightarrow> w = No_worker \<and> p = [] \<and> up_busy s \<and> Asked e \<in> set (up_log s) \<and> verified_in h (up_files s) (up_log s) e"
  by (cases p; cases d; cases w; auto)+

lemma phase_busy: "phase_ok h s w p d \<Longrightarrow> up_busy s \<longleftrightarrow> w \<noteq> No_worker \<or> p \<noteq> [] \<or> d \<noteq> No_dialog"
  by (cases "(h, s, w, p, d)" rule: phase_ok.cases) auto

lemma start_check_ok:
  assumes "upd_ok h s"
  shows "upd_ok h (start_check mode started s)"
proof -
  have l: "log_ok h (up_log s)" and p: "phase_ok h s (up_worker s) (up_posted s) (up_dialog s)" using assms by (simp_all add: upd_ok_def)
  show ?thesis
  proof (cases "up_busy s")
    case True
    have "phase_ok h (out_log x (s\<lparr>up_mode := md\<rparr>)) (up_worker s) (up_posted s) (up_dialog s)"
      "phase_ok h (s\<lparr>up_mode := md\<rparr>) (up_worker s) (up_posted s) (up_dialog s)" for x md
      by (rule phase_ok_mono [OF p]; auto)+
    then show ?thesis using l True by (simp add: start_check_def upd_ok_def Let_def)
  next
    case False
    then have "up_worker s = No_worker" "up_posted s = []" "up_dialog s = No_dialog" using phase_busy [OF p] by simp_all
    then show ?thesis using l False by (simp add: start_check_def upd_ok_def join_worker_def Let_def)
  qed
qed

lemma startup_check_ok: "upd_ok h s \<Longrightarrow> upd_ok h (suite_update_startup_check env now started s)"
  by (simp add: suite_update_startup_check_def start_check_ok)

lemma read_manifest_ok: "read_manifest doc = Inr m \<Longrightarrow> is_hex64 (um_msi_sha256 m) \<and> url_host_allowed (um_msi_url m)"
  by (auto simp: read_manifest_def split: prod.splits if_splits)

lemma check_result_ok: "message_ok h s (Upd_result (check_result mode (case r of Inl e \<Rightarrow> Inl (f e) | Inr doc \<Rightarrow> read_manifest doc)))"
  using read_manifest_ok by (auto simp: check_result_def offer_ok_def split: sum.splits)

lemma check_thread_ok:
  assumes "upd_ok h s" "up_worker s = Checking"
  shows "upd_ok h (check_thread env net alloc stamp posted s)"
proof -
  have s: "log_ok h (up_log s)" "up_busy s" "up_posted s = []" "up_dialog s = No_dialog" using assms by (simp_all add: upd_ok_def phase_simps)
  have m: "message_ok h t (Upd_result (check_result mode (if b then Inl e else read_manifest doc)))" for t mode b e doc
    using read_manifest_ok by (auto simp: check_result_def offer_ok_def split: sum.splits)
  show ?thesis using s assms(2) m
    by (auto simp: check_thread_def upd_ok_def Let_def split: option.split prod.split)
qed

lemma on_result_ok:
  assumes "upd_ok h s" "up_posted s = [Upd_result r]"
  shows "upd_ok h (on_result r (s\<lparr>up_posted := []\<rparr>))"
proof -
  have s: "log_ok h (up_log s)" "up_busy s" "up_worker s = No_worker" "up_dialog s = No_dialog" "message_ok h s (Upd_result r)"
    using assms by (simp_all add: upd_ok_def phase_simps)
  then show ?thesis by (auto simp: on_result_def upd_ok_def offered_in_def Let_def split: option.split)
qed

lemma offer_closed_ok:
  assumes "upd_ok h s" "up_dialog s = Offer m mode required"
  shows "upd_ok h (on_offer_closed env answer checked alloc started m s)"
proof -
  have s: "log_ok h (up_log s)" "up_busy s" "up_worker s = No_worker" "up_posted s = []" "up_pending s = m" "offered_in (up_log s) m"
    using assms by (simp_all add: upd_ok_def phase_simps)
  then show ?thesis by (auto simp: on_offer_closed_def upd_ok_def start_download_def join_worker_def Let_def)
qed

lemma sha_loop_fed: "sha_loop env i rest fed = Inr x \<Longrightarrow> x = fed @ rest"
proof (induction env i rest fed rule: sha_loop.induct)
  case (1 env i rest fed)
  from "1.prems" show ?case
    by (subst (asm) sha_loop.simps) (use "1.IH" in \<open>auto split: option.splits if_splits\<close>)
qed

lemma sha256_file_content:
  "suite_sha256_file env files path = Inr t \<Longrightarrow> \<exists>content. files path = Some content \<and> t = hex_text (sh_hash env content)"
  using sha_loop_fed [of env 0 _ "[]"] by (auto simp: suite_sha256_file_def split: option.splits sum.splits if_splits)

lemma download_run_ok:
  assumes "download_run env net sha del m files = (d, files', outs)"
  shows "ud_ok d \<Longrightarrow> ud_m d = m \<and> Fetched (um_msi_url m) \<in> set outs \<and> matches_sum (Some (sh_hash sha)) (files' (ud_path d)) m"
    and "list_all not_launch outs"
  using assms
  by (auto simp: download_run_def matches_sum_def Let_def list_all_iff dest!: sha256_file_content split: option.splits prod.splits sum.splits if_splits)

lemma download_thread_ok:
  assumes "upd_ok h s" "up_worker s = Downloading m" "h = None \<or> h = Some (sh_hash sha)"
  shows "upd_ok h (download_thread env net sha del posted m s)"
proof -
  have s: "log_ok h (up_log s)" "up_busy s" "up_posted s = []" "up_dialog s = No_dialog" "offered_in (up_log s) m"
    using assms by (simp_all add: upd_ok_def phase_simps)
  obtain d files outs where r: "download_run env net sha del m (up_files s) = (d, files, outs)" by (metis prod_cases3)
  have l: "log_ok h (up_log s @ outs)" using download_run_ok(2) [OF r] s(1) by simp
  have "ud_ok d \<Longrightarrow> verified_in h files (up_log s @ outs) d"
    using download_run_ok(1) [OF r] offered_in_mono [OF s(5), of "up_log s @ outs"] assms(3) by (auto simp: verified_in_def matches_sum_def)
  then show ?thesis using s l by (simp add: download_thread_def r upd_ok_def Let_def)
qed

lemma download_done_ok:
  assumes "upd_ok h s" "up_posted s = [Upd_dldone d]"
  shows "upd_ok h (on_download_done d (s\<lparr>up_posted := []\<rparr>))"
proof -
  have s: "log_ok h (up_log s)" "up_busy s" "up_worker s = No_worker" "up_dialog s = No_dialog" "message_ok h s (Upd_dldone d)"
    using assms by (simp_all add: upd_ok_def phase_simps)
  have "verified_in h (up_files s) (up_log s) d \<Longrightarrow> verified_in h (up_files s) (up_log s @ xs) d" for xs
    by (rule verified_in_mono) auto
  then show ?thesis using s by (auto simp: on_download_done_def upd_ok_def Let_def)
qed

lemma ready_closed_ok:
  assumes "upd_ok h s" "up_dialog s = Ready d"
  shows "upd_ok h (on_ready_closed go sysdir created d s)"
proof -
  have s: "log_ok h (up_log s)" "up_busy s" "up_worker s = No_worker" "up_posted s = []" "Asked d \<in> set (up_log s)" "verified_in h (up_files s) (up_log s) d"
    using assms by (simp_all add: upd_ok_def phase_simps)
  have "launch_ok h (up_log s) (Launched cmd (ud_path d) (ud_m d) (up_files s (ud_path d)))" for cmd
    using s(5,6) by (auto simp: launch_ok_def verified_in_def)
  then show ?thesis using s
    by (auto simp: on_ready_closed_def launch_installer_def upd_ok_def log_ok_launch Let_def split: option.split)
qed

lemma disk_changes_ok:
  assumes "upd_ok None s"
  shows "upd_ok None (s\<lparr>up_files := files\<rparr>)"
proof -
  have m: "message_ok None (s\<lparr>up_files := files\<rparr>) x = message_ok None s x" for x by (cases x) (simp_all add: verified_in_def matches_sum_def)
  have "phase_ok None s w p d \<Longrightarrow> phase_ok None (s\<lparr>up_files := files\<rparr>) w p d" for w p d
    by (cases "(None :: (byte list \<Rightarrow> byte list) option, s, w, p, d)" rule: phase_ok.cases) (auto simp: m verified_in_def matches_sum_def)
  then show ?thesis using assms by (simp add: upd_ok_def)
qed

lemma upd_step_ok: "upd_ok h s \<Longrightarrow> quiet_disk h e \<Longrightarrow> upd_ok h (upd_step env s e)"
proof (cases e)
  case Message
  assume ok: "upd_ok h s"
  show ?thesis
  proof (cases "up_posted s")
    case (Cons x ms)
    then have "ms = []" using ok by (simp add: upd_ok_def phase_simps)
    then show ?thesis using Cons ok on_result_ok [OF ok] download_done_ok [OF ok] by (cases x) (simp_all add: Message upd_step_def)
  qed (use ok in \<open>simp add: Message upd_step_def\<close>)
next
  case (Startup_check now started)
  then show "upd_ok h s \<Longrightarrow> ?thesis" by (simp add: upd_step_def startup_check_ok)
next
  case (Download_runs net sha del posted)
  assume "upd_ok h s" "quiet_disk h e"
  then show ?thesis using download_thread_ok [of h s _ sha env net del posted]
    by (auto simp: Download_runs upd_step_def quiet_disk_def split: upd_worker.split option.splits)
next
  case (Disk_changes files)
  assume "upd_ok h s" "quiet_disk h e"
  then show ?thesis using disk_changes_ok by (auto simp: Disk_changes upd_step_def quiet_disk_def split: option.splits)
qed (auto simp: upd_step_def suite_update_check_def intro: start_check_ok check_thread_ok download_thread_ok offer_closed_ok ready_closed_ok
    split: upd_worker.split upd_dialog.split)

end
