(* ===== verification/UpdSafe.thy ===== *)
theory UpdSafe
  imports UpdInv
begin

section \<open>Properties of the updater\<close>

text \<open>The manifest, which addresses pass, what may be installed, that every check ends, what is offered, what a fetched file holds.\<close>

subsection \<open>Runs\<close>

interpretation updater: stream_machine "upd_step env" "\<lambda>_. quiet_disk h" "upd_ok h" for env h
  by unfold_locales (rule upd_step_ok)

lemma upd_init_ok: "upd_ok h (upd_init files startup checked skipped)"
  by (simp add: upd_init_def upd_ok_def log_ok_def)

lemma upd_run_ok: "list_all (quiet_disk h) es \<Longrightarrow> upd_ok h (foldl (upd_step env) (upd_init files startup checked skipped) es)"
  by (rule updater.run_inv [OF upd_init_ok]) (simp add: run_ok_each)

subsection \<open>A manifest\<close>

definition same_string :: "byte list \<Rightarrow> jval option \<Rightarrow> bool" where
  "same_string t ov \<longleftrightarrow> (case ov of None \<Rightarrow> t = [] | Some v \<Rightarrow> v = JStr t)"

text \<open>The members, in any order and with any others, are those of a manifest that the updater can hold.\<close>

definition describes :: "(byte list \<times> jval) list \<Rightarrow> upd_manifest \<Rightarrow> bool" where
  "describes ms m \<longleftrightarrow>
     list_all (\<lambda>(k, v). key_ok k \<and> value_ok v) ms \<and>
     map_of ms (asc ''version'') = Some (JStr (um_version m)) \<and> um_version m \<noteq> [] \<and> length (um_version m) < 64 \<and>
     map_of ms (asc ''msi_url'') = Some (JStr (um_msi_url m)) \<and> length (um_msi_url m) < 512 \<and> url_host_allowed (um_msi_url m) \<and>
     map_of ms (asc ''msi_sha256'') = Some (JStr (um_msi_sha256 m)) \<and> is_hex64 (um_msi_sha256 m) \<and>
     map_of ms (asc ''msi_bytes'') = Some (JNum (um_msi_bytes m)) \<and> um_msi_bytes m < 10 ^ 19 \<and>
     same_string (um_notes m) (map_of ms (asc ''notes'')) \<and> length (um_notes m) < 4096 \<and>
     same_string (um_min_supported m) (map_of ms (asc ''min_supported'')) \<and> length (um_min_supported m) < 64"

lemma manifest_keys:
  "key_ok (asc ''version'')" "key_ok (asc ''msi_url'')" "key_ok (asc ''msi_sha256'')" "key_ok (asc ''msi_bytes'')" "key_ok (asc ''notes'')"
  "key_ok (asc ''min_supported'')"
  by (simp_all add: key_ok_def ident_char_def is_digit_def)

lemma read_described:
  assumes "json_written ms doc" "describes ms m"
  shows "read_manifest doc = Inr m"
proof -
  have k: "list_all (\<lambda>m. key_ok (fst m)) ms" using assms(2) by (auto simp: describes_def list_all_iff)
  note rs = read_string [OF assms(1) k] and ra = read_absent [OF assms(1) k] and d = assms(2) [unfolded describes_def]
  have v: "json_get_string doc (asc ''version'') 64 = (True, um_version m)"
    using rs [OF manifest_keys(1)] d by blast
  have u: "json_get_string doc (asc ''msi_url'') 512 = (True, um_msi_url m)"
    using rs [OF manifest_keys(2)] d by blast
  have h: "json_get_string doc (asc ''msi_sha256'') 65 = (True, um_msi_sha256 m)"
    using rs [OF manifest_keys(3), of "um_msi_sha256 m" 65] d by (simp add: is_hex64_def)
  have b: "json_get_uint doc (asc ''msi_bytes'') = um_msi_bytes m"
    using read_number [OF assms(1) k manifest_keys(4)] d by blast
  have opt: "snd (json_get_string doc key cap) = t" if "key_ok key" "same_string t (map_of ms key)" "length t < cap" for key t cap
    using that rs [OF that(1), of t cap] ra [OF that(1)] by (cases "map_of ms key") (simp_all add: same_string_def)
  have n: "snd (json_get_string doc (asc ''notes'') 4096) = um_notes m" using opt [OF manifest_keys(5)] d by blast
  have ms: "snd (json_get_string doc (asc ''min_supported'') 64) = um_min_supported m" using opt [OF manifest_keys(6)] d by blast
  have "um_msi_url m \<noteq> []" using d by (auto simp: url_host_allowed_def same_nocase_def)
  then show ?thesis using d unfolding read_manifest_def v u h b n ms by simp
qed


definition demo_manifest :: upd_manifest where
  "demo_manifest = \<lparr>um_version = ver_text (Semver 0 8 0 []), um_msi_url = asc ''https://apps.greektimes.ca/s.msi'', um_msi_sha256 = concat (replicate 32 (asc ''01'')),
     um_msi_bytes = 3, um_notes = asc ''The key '' @ 0x22 # asc ''version'' @ 0x22 # asc '': is quoted'', um_min_supported = []\<rparr>"

definition demo_members :: "(byte list \<times> jval) list" where
  "demo_members =
     [(asc ''notes'', JStr (um_notes demo_manifest)), (asc ''msi_bytes'', JNum 3), (asc ''extra'', JStr (asc ''}'')),
      (asc ''msi_url'', JStr (um_msi_url demo_manifest)), (asc ''version'', JStr (um_version demo_manifest)),
      (asc ''msi_sha256'', JStr (um_msi_sha256 demo_manifest))]"

lemma dec_bytes_digit: "n < 10 \<Longrightarrow> dec_bytes n = [word_of_nat (48 + n)]"
  by (simp add: dec_bytes_def)

lemma demo_describes: "describes demo_members demo_manifest"
proof -
  have v: "um_version demo_manifest = asc ''0.8.0''" by (simp add: demo_manifest_def dec_bytes_digit)
  have h: "is_hex64 (um_msi_sha256 demo_manifest)" 
    by (auto simp: demo_manifest_def is_hex64_def hex_value_def length_concat list_all_iff sum_list_replicate)
  have u: "url_host_allowed (um_msi_url demo_manifest)"
    by (simp add: demo_manifest_def url_host_allowed_def same_nocase_def to_lower_def update_allowed_host_def Let_def)
  have t: "0 \<notin> set (um_version demo_manifest)" "0 \<notin> set (um_msi_sha256 demo_manifest)" "0 \<notin> set (um_msi_url demo_manifest)" "0 \<notin> set (um_notes demo_manifest)"
    unfolding v by (auto simp: demo_manifest_def)
  have k: "key_ok (asc ''extra'')" by (simp add: key_ok_def ident_char_def is_digit_def)
  have "length (um_msi_url demo_manifest) < 512" "length (um_notes demo_manifest) < 4096" "um_min_supported demo_manifest = []" "um_msi_bytes demo_manifest = 3"
    by (simp_all add: demo_manifest_def)
  then show ?thesis using v h u t k manifest_keys
    by (simp add: describes_def demo_members_def same_string_def)
qed







subsection \<open>Addresses\<close>

text \<open>
  The host of an https address by RFC 3986: the authority ends at a slash, a question mark or a number sign; user information and a port are
  not part of the host.
\<close>

definition authority :: "byte list \<Rightarrow> byte list" where
  "authority url = takeWhile (\<lambda>c. c \<noteq> 0x2F \<and> c \<noteq> 0x3F \<and> c \<noteq> 0x23) (drop 8 url)"

definition rfc_host :: "byte list \<Rightarrow> byte list" where
  "rfc_host url =
     (let a = authority url; h = (if 0x40 \<in> set a then tl (dropWhile (\<lambda>c. c \<noteq> 0x40) a) else a) in takeWhile (\<lambda>c. c \<noteq> 0x3A) h)"

definition on_update_host :: "byte list \<Rightarrow> bool" where
  "on_update_host h \<longleftrightarrow> same_nocase h update_allowed_host \<or> (\<exists>p q. h = p @ 0x2E # q \<and> same_nocase q update_allowed_host)"

lemma same_nocase_length: "same_nocase a b \<Longrightarrow> length a = length b"
  unfolding same_nocase_def by (metis length_map)

lemma host_on_update_host:
  assumes "0x2F \<notin> set host" "0x3A \<notin> set host"
  shows "(if length host = 0 then False
    else if length host = length update_allowed_host then same_nocase host update_allowed_host
    else if length host > length update_allowed_host then
      host ! (length host - length update_allowed_host - 1) = 0x2E \<and> same_nocase (drop (length host - length update_allowed_host) host) update_allowed_host
    else False) \<longleftrightarrow> on_update_host host" (is "?c \<longleftrightarrow> _")
proof
  let ?d = "length update_allowed_host"
  have d: "?d = 18" by (simp add: update_allowed_host_def)
  assume c: ?c
  show "on_update_host host"
  proof (cases "length host = ?d")
    case False
    then have l: "?d < length host" "host ! (length host - ?d - 1) = 0x2E" "same_nocase (drop (length host - ?d) host) update_allowed_host"
      using c by (auto split: if_splits)
    then have "host = take (length host - ?d - 1) host @ 0x2E # drop (length host - ?d) host"
      using id_take_nth_drop [of "length host - ?d - 1" host] by (simp add: Suc_diff_Suc)
    then show ?thesis using l(3) unfolding on_update_host_def by blast
  qed (use c in \<open>simp add: on_update_host_def split: if_splits\<close>)
next
  let ?d = "length update_allowed_host"
  have d: "?d = 18" by (simp add: update_allowed_host_def)
  assume "on_update_host host"
  then consider "same_nocase host update_allowed_host" | p q where "host = p @ 0x2E # q" "same_nocase q update_allowed_host"
    by (auto simp: on_update_host_def)
  then show ?c
  proof cases
    case 1
    then show ?thesis using same_nocase_length [OF 1] d by auto
  next
    case 2
    then show ?thesis using same_nocase_length [OF 2(2)] d by (auto simp: nth_append)
  qed
qed

lemma takeWhile_both: "takeWhile (\<lambda>c. P c \<and> Q c) xs = takeWhile Q (takeWhile P xs)"
  by (induction xs) auto

text \<open>
  C33: Only the update host passes, for addresses without a question mark, a number sign or user information before the first slash. An address is let through exactly if it is an https address
  and its host, as RFC 3986 has it, is the update host or a name below it, in any case of the letters and with any port.
\<close>

theorem upd_host_checked:
  assumes "set (takeWhile (\<lambda>c. c \<noteq> 0x2F) (drop 8 url)) \<inter> {0x3F, 0x23, 0x40} = {}"
  shows "url_host_allowed url \<longleftrightarrow> same_nocase (take 8 url) (asc ''https://'') \<and> on_update_host (rfc_host url)"
proof -
  let ?a = "takeWhile (\<lambda>c. c \<noteq> 0x2F) (drop 8 url)"
  let ?h = "takeWhile (\<lambda>c. c \<noteq> 0x3A) ?a"
  have q: "0x3F \<notin> set ?a" "0x23 \<notin> set ?a" "0x40 \<notin> set ?a" using assms by auto
  have "authority url = takeWhile (\<lambda>c. c \<noteq> 0x3F \<and> c \<noteq> 0x23) ?a" unfolding authority_def by (rule takeWhile_both)
  also have "\<dots> = ?a" using q(1,2) by (subst takeWhile_eq_all_conv) metis
  finally have "rfc_host url = ?h" using q(3) by (simp add: rfc_host_def Let_def)
  moreover have "takeWhile (\<lambda>c. c \<noteq> 0x2F \<and> c \<noteq> 0x3A) (drop 8 url) = ?h" by (rule takeWhile_both)
  moreover have "0x2F \<notin> set ?h" "0x3A \<notin> set ?h" by (auto dest: set_takeWhileD)
  ultimately show ?thesis using q(3) host_on_update_host [of ?h] by (simp add: url_host_allowed_def Let_def del: length_0_conv)
qed

theorem upd_host_checked_witness:
  "url_host_allowed (asc ''HTTPS://Apps.Greektimes.CA:8443/x.msi'') \<and> \<not> url_host_allowed (asc ''https://greektimes.ca.evil.example/x.msi'')"
proof -
  have "on_update_host (rfc_host (asc ''HTTPS://Apps.Greektimes.CA:8443/x.msi''))"
    by (simp add: on_update_host_def rfc_host_def authority_def same_nocase_def to_lower_def update_allowed_host_def Let_def)
  then have "url_host_allowed (asc ''HTTPS://Apps.Greektimes.CA:8443/x.msi'')"
    by (subst upd_host_checked) (simp_all add: same_nocase_def to_lower_def)
  moreover have "\<not> url_host_allowed (asc ''https://greektimes.ca.evil.example/x.msi'')"
    by (simp add: url_host_allowed_def same_nocase_def to_lower_def update_allowed_host_def Let_def)
  ultimately show ?thesis by blast
qed

text \<open>
  C8: Any host can pass. The check ends the host only at a slash or a colon, but a question mark ends it too: an address that names any machine, followed by a question mark and the name of the update host, is let
  through.
\<close>

theorem upd_host_hole:
  assumes "set h \<inter> {0x2F, 0x3A, 0x3F, 0x23, 0x40} = {}"
  shows "let url = asc ''https://'' @ h @ 0x3F # 0x2E # update_allowed_host @ 0x2F # file in url_host_allowed url \<and> rfc_host url = h"
proof -
  let ?u = "asc ''https://'' @ h @ 0x3F # 0x2E # update_allowed_host @ 0x2F # file"
  let ?q = "h @ 0x3F # 0x2E # update_allowed_host"
  have d: "drop 8 ?u = ?q @ 0x2F # file" "take 8 ?u = asc ''https://''" by simp_all
  have u: "0x2F \<notin> set update_allowed_host \<and> 0x3A \<notin> set update_allowed_host \<and> 0x40 \<notin> set update_allowed_host" by (simp add: update_allowed_host_def)
  have h: "0x2F \<notin> set h" "0x3A \<notin> set h" "0x3F \<notin> set h" "0x23 \<notin> set h" "0x40 \<notin> set h" using assms by auto
  have q: "set ?q \<inter> {0x2F, 0x3A, 0x40} = {}" using u h by auto
  have t: "takeWhile P (?q @ 0x2F # file) = ?q" if "\<forall>c\<in>set ?q. P c" "\<not> P 0x2F" for P
    using that by (subst takeWhile_append2) auto
  have host: "takeWhile (\<lambda>c. c \<noteq> 0x2F \<and> c \<noteq> 0x3A) (drop 8 ?u) = ?q" unfolding d by (rule t) (use q in auto)
  have user: "0x40 \<notin> set (takeWhile (\<lambda>c. c \<noteq> 0x2F) (drop 8 ?u))" using q unfolding d by (subst t) auto
  have "authority ?u = h"
    unfolding authority_def d using h by (simp add: takeWhile_append2 takeWhile_eq_all_conv) (auto simp: takeWhile_append)
  moreover have "takeWhile (\<lambda>c. c \<noteq> 0x3A) h = h" using h(2) by (subst takeWhile_eq_all_conv) metis
  ultimately have "rfc_host ?u = h" using h(5) by (simp only: rfc_host_def Let_def if_False)
  moreover have "url_host_allowed ?u"
    unfolding url_host_allowed_def d(2) Let_def host using user by (simp add: same_nocase_def nth_append)
  ultimately show ?thesis by (simp only: Let_def simp_thms)
qed

theorem upd_host_hole_witness: "url_host_allowed (asc ''https://evil.example?.'' @ update_allowed_host @ asc ''/x.msi'')"
  using upd_host_hole [of "asc ''evil.example''" "asc ''x.msi''"] by (simp add: Let_def)

subsection \<open>What is launched\<close>

text \<open>
  C3: Only a verified installer is started. Whatever the network answers, whatever the user does, in whatever order messages and workers come: when the installer is started on a file, that version is newer than the
  running one and comes from an allowed address, the user was shown it before, it was fetched after the user took it, its file was checked and the user asked again, and the
  bytes in the file have the checksum that the manifest has. (The provider computes \<open>h\<close>; no other program writes the disk.)
\<close>

theorem upd_only_verified:
  assumes "list_all (quiet_disk (Some h)) es"
    and "up_log (foldl (upd_step env) (upd_init files startup checked skipped) es) = before @ Launched cmd path m content # after"
  shows "suite_update_compare_versions suite_version_str (um_version m) < 0 \<and> url_host_allowed (um_msi_url m) \<and>
    (\<exists>mode required. Offered m mode required \<in> set before) \<and> Fetched (um_msi_url m) \<in> set before \<and>
    (\<exists>d. Asked d \<in> set before \<and> ud_m d = m \<and> ud_path d = path) \<and>
    (\<exists>bytes. content = Some bytes \<and> suite_sha256_hex_equal (hex_text (h bytes)) (um_msi_sha256 m))"
proof -
  have "log_ok (Some h) (before @ Launched cmd path m content # after)"
    using upd_run_ok [OF assms(1), of env files startup checked skipped] unfolding upd_ok_def assms(2) by blast
  then have "launch_ok (Some h) before (Launched cmd path m content)" unfolding log_ok_def by (elim allE [of _ "length before"]) simp
  then show ?thesis by (auto simp: launch_ok_def offered_in_def offer_ok_def matches_sum_def)
qed

subsection \<open>Every check ends\<close>

definition upd_rank :: "upd \<Rightarrow> nat" where
  "upd_rank s =
     (case up_dialog s of
        Offer m mode required \<Rightarrow> 4
      | Ready d \<Rightarrow> 1
      | No_dialog \<Rightarrow>
          (case up_posted s of
             Upd_result r # ms \<Rightarrow> 5
           | Upd_dldone d # ms \<Rightarrow> 2
           | [] \<Rightarrow> (case up_worker s of Checking \<Rightarrow> 6 | Downloading m \<Rightarrow> 3 | No_worker \<Rightarrow> 0)))"

text \<open>The events the updater waits for: its worker comes to its end, its message is handled, its dialog is closed.\<close>

fun awaited :: "upd \<Rightarrow> upd_event \<Rightarrow> bool" where
  "awaited s (Check_runs net alloc stamp posted) \<longleftrightarrow> up_worker s = Checking"
| "awaited s (Download_runs net sha del posted) \<longleftrightarrow> (\<exists>m. up_worker s = Downloading m)"
| "awaited s Message \<longleftrightarrow> up_posted s \<noteq> []"
| "awaited s (Offer_closed answer checked alloc started) \<longleftrightarrow>
     (\<exists>m mode required. up_dialog s = Offer m mode required \<and> (answer = Dialog_failed \<or> answer \<in> set (upd_buttons mode required)))"
| "awaited s (Ready_closed go sysdir created) \<longleftrightarrow> (\<exists>d. up_dialog s = Ready d)"
| "awaited s e \<longleftrightarrow> False"

fun awaited_count :: "upd_env \<Rightarrow> upd \<Rightarrow> upd_event list \<Rightarrow> nat" where
  "awaited_count env s [] = 0"
| "awaited_count env s (e # es) = (if awaited s e then 1 else 0) + awaited_count env (upd_step env s e) es"

fun new_check :: "upd_event \<Rightarrow> bool" where
  "new_check (Menu_check started) \<longleftrightarrow> True"
| "new_check (Startup_check now started) \<longleftrightarrow> True"
| "new_check e \<longleftrightarrow> False"

lemma upd_rank_cong:
  "up_dialog t = up_dialog s \<Longrightarrow> up_posted t = up_posted s \<Longrightarrow> up_worker t = up_worker s \<Longrightarrow> upd_rank t = upd_rank s"
  by (simp only: upd_rank_def)

lemma start_check_busy: "up_busy s \<Longrightarrow> upd_rank (start_check mode started s) = upd_rank s \<and> up_busy (start_check mode started s)"
  by (auto simp: start_check_def Let_def intro: upd_rank_cong)

lemma startup_check_busy: "up_busy s \<Longrightarrow> upd_rank (suite_update_startup_check env now started s) = upd_rank s \<and> up_busy (suite_update_startup_check env now started s)"
  by (simp add: suite_update_startup_check_def start_check_busy)

lemma rank_busy: "upd_ok h s \<Longrightarrow> up_busy s \<longleftrightarrow> upd_rank s \<noteq> 0"
  unfolding upd_ok_def
  by (cases "(h, s, up_worker s, up_posted s, up_dialog s)" rule: phase_ok.cases)
    (auto simp: upd_rank_def split: upd_message.split)

lemma check_thread_rank:
  assumes "upd_ok h s" "up_worker s = Checking"
  shows "upd_rank (check_thread env net alloc stamp posted s) < upd_rank s"
proof -
  have s: "up_posted s = []" "up_dialog s = No_dialog" using assms by (simp_all add: upd_ok_def phase_simps)
  obtain rc err body con where "http_fetch_to_memory net (suite_update_manifest_url env) update_manifest_max = Some (rc, err, body, con)"
    using fetch_returns [of net "suite_update_manifest_url env"] by auto
  then show ?thesis using s assms(2) by (simp add: check_thread_def upd_rank_def Let_def)
qed

lemma download_thread_rank:
  assumes "upd_ok h s" "up_worker s = Downloading m"
  shows "upd_rank (download_thread env net sha del posted m s) < upd_rank s"
proof -
  have s: "up_posted s = []" "up_dialog s = No_dialog" using assms by (simp_all add: upd_ok_def phase_simps)
  then show ?thesis using assms(2) by (simp add: download_thread_def upd_rank_def Let_def split: prod.split)
qed

lemma message_rank:
  assumes "upd_ok h s" "up_posted s \<noteq> []"
  shows "upd_rank (upd_step env s Message) < upd_rank s"
proof -
  obtain x ms where x: "up_posted s = x # ms" using assms(2) by (cases "up_posted s") auto
  then have s: "ms = []" "up_worker s = No_worker" "up_dialog s = No_dialog" using assms(1) by (simp_all add: upd_ok_def phase_simps)
  show ?thesis
    using x s by (cases x) (auto simp: upd_step_def on_result_def on_download_done_def upd_rank_def Let_def split: option.split)
qed

lemma offer_rank:
  assumes "upd_ok h s" "up_dialog s = Offer m mode required"
  shows "upd_rank (on_offer_closed env answer checked alloc started m s) < upd_rank s"
proof -
  have s: "up_posted s = []" "up_worker s = No_worker" using assms by (simp_all add: upd_ok_def phase_simps)
  then show ?thesis using assms(2) by (auto simp: on_offer_closed_def start_download_def join_worker_def upd_rank_def Let_def)
qed

lemma ready_rank:
  assumes "upd_ok h s" "up_dialog s = Ready d"
  shows "upd_rank (on_ready_closed go sysdir created d s) < upd_rank s"
proof -
  have s: "up_posted s = []" "up_worker s = No_worker" using assms by (simp_all add: upd_ok_def phase_simps)
  then show ?thesis using assms(2)
    by (auto simp: on_ready_closed_def launch_installer_def upd_rank_def Let_def split: option.split)
qed

lemma step_rank:
  assumes "upd_ok h s" "\<not> new_check e"
  shows "upd_rank (upd_step env s e) + (if awaited s e then 1 else 0) \<le> upd_rank s"
proof (cases e)
  case (Check_runs net alloc stamp posted)
  then show ?thesis
    using check_thread_rank [OF assms(1), of env net alloc stamp posted] by (cases "up_worker s") (auto simp: upd_step_def)
next
  case (Download_runs net sha del posted)
  then show ?thesis
    using download_thread_rank [OF assms(1), of _ env net sha del posted] by (cases "up_worker s") (auto simp: upd_step_def)
next
  case Message
  then show ?thesis using message_rank [OF assms(1), of env] by (cases "up_posted s") (auto simp: upd_step_def)
next
  case (Offer_closed answer checked alloc started)
  then show ?thesis
    using offer_rank [OF assms(1), of _ _ _ env answer checked alloc started] by (cases "up_dialog s") (auto simp: upd_step_def)
next
  case (Ready_closed go sysdir created)
  then show ?thesis
    using ready_rank [OF assms(1), of _ go sysdir created] by (cases "up_dialog s") (auto simp: upd_step_def)
next
  case (Disk_changes files)
  then have "upd_rank (upd_step env s e) = upd_rank s" by (intro upd_rank_cong) (simp_all add: upd_step_def)
  then show ?thesis by (simp add: Disk_changes)
qed (use assms(2) in simp_all)

lemma run_rank:
  assumes "upd_ok h s" "list_all (quiet_disk h) es" "list_all (\<lambda>e. \<not> new_check e) es"
  shows "upd_rank (foldl (upd_step env) s es) + awaited_count env s es \<le> upd_rank s"
  using assms
proof (induction es arbitrary: s)
  case (Cons e es)
  have "upd_ok h (upd_step env s e)" using Cons.prems upd_step_ok by simp
  from Cons.IH [OF this] step_rank [OF Cons.prems(1), of e env] Cons.prems(2,3) show ?case by simp
qed simp

lemma busy_awaited:
  assumes "upd_ok h s"
  shows "up_busy s \<longleftrightarrow> (\<exists>e. awaited s e)"
proof
  assume "up_busy s"
  then consider "up_worker s = Checking" | m where "up_worker s = Downloading m" | "up_posted s \<noteq> []" | m mode r where "up_dialog s = Offer m mode r"
    | d where "up_dialog s = Ready d"
    using assms phase_busy [of h s] by (cases "up_worker s"; cases "up_dialog s") (auto simp: upd_ok_def)
  then show "\<exists>e. awaited s e"
  proof cases
    case 1
    then have "awaited s (Check_runs net False [] False)" for net by simp
    then show ?thesis by blast
  next
    case (2 m)
    then have "awaited s (Download_runs net sha False False)" for net sha by simp
    then show ?thesis by blast
  next
    case 3
    then have "awaited s Message" by simp
    then show ?thesis by blast
  next
    case (4 m mode r)
    then have "awaited s (Offer_closed Dialog_failed False False False)" by simp
    then show ?thesis by blast
  next
    case (5 d)
    then have "awaited s (Ready_closed False None False)" by simp
    then show ?thesis by blast
  qed
next
  assume "\<exists>e. awaited s e"
  then obtain e where "awaited s e" by blast
  then show "up_busy s" using assms phase_busy [of h s] unfolding upd_ok_def by (cases e) auto
qed

text \<open>
  C24: Every check comes to its end. Whatever the network, the provider, the disk and the user answer, and whatever fails: a check waits for at most six things, one after another, and the updater is busy
  exactly while there is something it waits for. Once nothing is left it is idle, and a new check can start.
\<close>

theorem upd_settles:
  assumes "list_all (\<lambda>e. \<not> new_check e) es"
  shows "let s = foldl (upd_step env) (upd_init files startup checked skipped) past; t = foldl (upd_step env) s es
    in awaited_count env s es \<le> 6 \<and> (up_busy t \<longleftrightarrow> (\<exists>e. awaited t e))"
proof -
  let ?s = "foldl (upd_step env) (upd_init files startup checked skipped) past"
  have q: "list_all (quiet_disk None) xs" for xs by (simp add: list_all_iff quiet_disk_def)
  have ok: "upd_ok None ?s" by (rule upd_run_ok [OF q])
  have "upd_rank (foldl (upd_step env) ?s es) + awaited_count env ?s es \<le> upd_rank ?s" by (rule run_rank [OF ok q assms])
  moreover have "upd_rank ?s \<le> 6" by (auto simp: upd_rank_def split: upd_dialog.split list.split upd_message.split upd_worker.split)
  moreover have "upd_ok None (foldl (upd_step env) ?s es)" using upd_run_ok [OF q, of env files startup checked skipped "past @ es"] by simp
  ultimately show ?thesis using busy_awaited [of None "foldl (upd_step env) ?s es"] by (simp add: Let_def)
qed

theorem upd_settles_witness:
  "\<forall>env net. let t = foldl (upd_step env) (upd_init Map.empty None None None) [Menu_check True, Check_runs net False [] True] in \<not> (\<exists>e. awaited t e)"
proof (intro allI)
  fix env net
  let ?s = "foldl (upd_step env) (upd_init Map.empty None None None) [Menu_check True]"
  have "\<not> up_busy (foldl (upd_step env) ?s [Check_runs net False [] True])"
    by (simp add: upd_step_def suite_update_check_def start_check_def join_worker_def check_thread_def upd_init_def Let_def)
  then show "let t = foldl (upd_step env) (upd_init Map.empty None None None) [Menu_check True, Check_runs net False [] True] in \<not> (\<exists>e. awaited t e)"
    using upd_settles [where past = "[Menu_check True]" and es = "[Check_runs net False [] True]" and env = env and files = Map.empty and startup = None and checked = None and skipped = None] by (simp add: Let_def)
qed

subsection \<open>What is offered\<close>

text \<open>A server that delivers a body in pieces.\<close>

definition delivers :: "http_net \<Rightarrow> byte list \<Rightarrow> byte list list \<Rightarrow> bool" where
  "delivers net url cs \<longleftrightarrow>
     (\<exists>host port path. hn_crack net url = Some (True, host, port, path)) \<and> hn_open net \<and> hn_connect net \<and> hn_request net \<and>
     hn_send net = None \<and> hn_receive net = None \<and> (\<exists>w. hn_status net = Some w \<and> 200 \<le> w \<and> w < 300) \<and>
     hn_reads net = body_reads cs \<and> list_all (\<lambda>c. c \<noteq> []) cs \<and> (\<forall>n. hn_alloc net n)"

lemma open_delivers: "delivers net url cs \<Longrightarrow> \<exists>con. hf_open net url = (HTTP_FETCH_OK, [], con)"
  by (auto simp: delivers_def hf_open_def Let_def not_less [symmetric])

lemma fetch_delivers:
  assumes "delivers net url cs" "length (concat cs) \<le> mx" "mx \<le> 1000000000"
  shows "\<exists>con. http_fetch_to_memory net url mx = Some (HTTP_FETCH_OK, [], concat cs, con)"
proof -
  have d: "list_all (\<lambda>c. c \<noteq> []) cs" "\<forall>n. hn_alloc net n" "hn_reads net = body_reads cs" using assms(1) by (auto simp: delivers_def)
  obtain con where o: "hf_open net url = (HTTP_FETCH_OK, [], con)" using open_delivers [OF assms(1)] by blast
  obtain c where "mem_loop net mx 0 [] (hn_reads net) = Some (HTTP_FETCH_OK, [], c, concat cs)"
    using mem_loop_body [OF assms(3) d(1), of "[]" net 0] assms(2) d(2,3) by auto
  then show ?thesis using d(2) o by (simp add: http_fetch_to_memory_def)
qed

lemma compare_versions_flip: "suite_update_compare_versions a b = - suite_update_compare_versions b a"
  unfolding compare_versions_key cmp_of_def by auto

lemma suite_version: "suite_version_str = ver_text (Semver 0 7 0 [Alnum (asc ''beta'')])"
  by (simp add: suite_version_str_def dec_bytes_digit)

lemma suite_version_ok: "semver_ok (Semver 0 7 0 [Alnum (asc ''beta'')])"
  by (simp add: ident_char_def is_digit_def)

lemma ver_text_not_Nil: "ver_text v \<noteq> []"
  by (cases v) simp

lemma idle_phase: "upd_ok h s \<Longrightarrow> \<not> up_busy s \<Longrightarrow> up_worker s = No_worker \<and> up_posted s = [] \<and> up_dialog s = No_dialog"
  using phase_busy by (auto simp: upd_ok_def)

text \<open>The command or the message that starts a check, and whether it does.\<close>

fun start_of :: "upd_mode \<Rightarrow> nat \<Rightarrow> upd_event" where
  "start_of UPD_MODE_MANUAL now = Menu_check True"
| "start_of UPD_MODE_STARTUP now = Startup_check now True"

definition may_start :: "upd_env \<Rightarrow> upd_mode \<Rightarrow> nat \<Rightarrow> upd \<Rightarrow> bool" where
  "may_start env mode now s \<longleftrightarrow> mode = UPD_MODE_MANUAL \<or> suite_update_startup_enabled s \<and> \<not> throttled env now s"

lemma start_checks:
  assumes "\<not> up_busy s" "may_start env mode now s"
  shows "upd_step env s (start_of mode now) = s\<lparr>up_mode := mode, up_busy := True, up_thread := True, up_worker := Checking\<rparr>"
  using assms
  by (cases mode) (simp_all add: may_start_def upd_step_def suite_update_check_def suite_update_startup_check_def start_check_def join_worker_def Let_def)

lemma check_posts:
  assumes "http_fetch_to_memory net (suite_update_manifest_url env) update_manifest_max = Some (HTTP_FETCH_OK, [], doc, con)"
    and "read_manifest (cstr doc) = Inr m" "up_worker s = Checking" "up_posted s = []"
  shows "let t = upd_step env s (Check_runs net True stamp True) in
    up_posted t = [Upd_result (check_result (up_mode s) (Inr m))] \<and> up_skipped t = up_skipped s \<and> up_worker t = No_worker \<and>
    up_dialog t = up_dialog s \<and> up_busy t = up_busy s"
  using assms by (simp add: upd_step_def check_thread_def Let_def)

text \<open>
  C16: The user is offered exactly the newer versions. When no check runs and one is started, by the user or at startup, and the update host delivers a manifest, in whatever pieces: the offer appears if the version it has
  comes after the running one and a release has been published, unless the check was made at startup and the user skipped that version or a later one. Otherwise the updater is idle again.
\<close>

theorem upd_offered:
  assumes "s = foldl (upd_step env) (upd_init files startup checked skipped) past" "\<not> up_busy s" "may_start env mode now s"
    and "json_written ms doc" "describes ms m" "um_version m = ver_text v" "semver_ok v"
    and "delivers net (suite_update_manifest_url env) cs" "concat cs = doc" "length doc \<le> 262144"
    and "up_skipped s = map_option ver_text k" "\<forall>k'. k = Some k' \<longrightarrow> semver_ok k' \<and> length (ver_text k') < 64"
  shows "let t = foldl (upd_step env) s [start_of mode now, Check_runs net True stamp True, Message] in
    if precedes (Semver 0 7 0 [Alnum (asc ''beta'')]) v \<and> \<not> upd_placeholder m \<and> (mode = UPD_MODE_MANUAL \<or> k = None \<or> precedes (the k) v)
    then up_dialog t = Offer m mode (upd_required m) else up_dialog t = No_dialog \<and> \<not> up_busy t"
proof -
  have "upd_ok None s" unfolding assms(1) by (rule upd_run_ok) (simp add: list_all_iff quiet_disk_def)
  note idle = idle_phase [OF this assms(2)]
  let ?s1 = "s\<lparr>up_mode := mode, up_busy := True, up_thread := True, up_worker := Checking\<rparr>"
  define s2 where "s2 = upd_step env ?s1 (Check_runs net True stamp True)"
  obtain con where f: "http_fetch_to_memory net (suite_update_manifest_url env) update_manifest_max = Some (HTTP_FETCH_OK, [], doc, con)"
    using fetch_delivers [OF assms(8), of update_manifest_max] assms(9,10) by (auto simp: update_manifest_max_def)
  have "0 \<notin> set doc" using doc_plain [OF assms(4)] assms(5) by (simp add: describes_def)
  then have r: "read_manifest (cstr doc) = Inr m" using read_described [OF assms(4,5)] cstr_id by simp
  have s2: "up_posted s2 = [Upd_result (check_result mode (Inr m))]" "up_skipped s2 = map_option ver_text k" "up_dialog s2 = No_dialog"
    using check_posts [OF f r, of ?s1 stamp] idle assms(11) by (simp_all add: s2_def Let_def)
  have cmp: "suite_update_compare_versions (ver_text a) (ver_text v) < 0 \<longleftrightarrow> precedes a v" "suite_update_compare_versions (ver_text v) (ver_text a) \<le> 0 \<longleftrightarrow> \<not> precedes a v"
    if "semver_ok a" for a
    using ver_compare [OF that assms(7)] compare_versions_flip [of "ver_text v" "ver_text a"] by (auto simp: Let_def split: if_splits)
  have skip: "(case settings_read (up_skipped s2) 64 of None \<Rightarrow> False | Some t \<Rightarrow> suite_update_compare_versions (um_version m) t \<le> 0) \<longleftrightarrow>
      \<not> (k = None \<or> precedes (the k) v)"
    using assms(12) cmp(2) ver_text_not_Nil by (cases k) (auto simp: s2(2) settings_read_def assms(6))
  have newer: "suite_update_compare_versions suite_version_str (um_version m) < 0 \<longleftrightarrow> precedes (Semver 0 7 0 [Alnum (asc ''beta'')]) v"
    using cmp(1) [OF suite_version_ok] by (simp only: suite_version assms(6))
  have run: "foldl (upd_step env) s [start_of mode now, Check_runs net True stamp True, Message] =
      on_result (check_result mode (Inr m)) (s2\<lparr>up_posted := []\<rparr>)"
    using start_checks [OF assms(2,3)] s2(1) by (simp add: s2_def [symmetric]) (simp add: upd_step_def)
  show ?thesis
    unfolding run Let_def using newer skip s2(3)
    by (cases mode; cases "settings_read (up_skipped s2) 64") (auto simp: on_result_def check_result_def Let_def not_le)
qed

subsection \<open>A file that is fetched\<close>

text \<open>
  A server sends a body, and a connection carries it in pieces: a read announces some bytes and brings some of them. The body is over where no more
  is announced or a read brings nothing. The connection may also break at any time: then an end is seen too early, or a call fails. The truth value says whether it broke.
\<close>

fun read_ends :: "http_read \<Rightarrow> bool" where
  "read_ends (Avail_error e) \<longleftrightarrow> False"
| "read_ends (Avail a d w) \<longleftrightarrow> a = 0 \<or> d = Some []"

fun read_fails :: "http_read \<Rightarrow> bool" where
  "read_fails (Avail_error e) \<longleftrightarrow> True"
| "read_fails (Avail a d w) \<longleftrightarrow> d = None"

inductive carries :: "byte list \<Rightarrow> http_read list \<Rightarrow> bool \<Rightarrow> bool" where
  Whole: "read_ends r \<Longrightarrow> carries [] (r # rs) False"
| Broken: "read_ends r \<or> read_fails r \<Longrightarrow> carries body (r # rs) True"
| Piece: "piece \<noteq> [] \<Longrightarrow> length piece \<le> unat a \<Longrightarrow> length piece \<le> 32768 \<Longrightarrow> carries body rs broken \<Longrightarrow>
    carries (piece @ body) (Avail a (Some piece) w # rs) broken"

lemma file_loop_end:
  assumes "file_loop mx progress expect out calls (r # rs) = (rc, err, out', calls')" "read_ends r \<or> read_fails r"
  shows "out' = out"
  using assms by (cases r) (auto split: if_splits option.splits)

lemma file_loop_carries:
  assumes "carries body reads broken" "file_loop mx progress expect out calls reads = (rc, err, out', calls')" "mx \<noteq> 0 \<longrightarrow> length out \<le> mx"
  shows "\<exists>got rest. body = got @ rest \<and> out' = out @ got \<and> (mx \<noteq> 0 \<longrightarrow> length out' \<le> mx) \<and> (rc = HTTP_FETCH_OK \<longrightarrow> rest = [] \<or> broken)"
  using assms
proof (induction arbitrary: out calls rule: carries.induct)
  case (Whole r rs)
  then show ?case using file_loop_end by fastforce
next
  case (Broken r body rs)
  then have "out' = out" using file_loop_end by blast
  then show ?case using Broken.prems(2) by (intro exI [of _ "[]"] exI [of _ body]) simp
next
  case (Piece piece a body rs broken w)
  have t: "take (min (unat a) 32768) piece = piece" "a \<noteq> 0" using Piece.hyps(1-3) by auto
  let ?over = "mx \<noteq> 0 \<and> length out + length piece > mx"
  let ?calls = "calls @ [(length (out @ piece), expect)]"
  consider "out' = out" "rc \<noteq> HTTP_FETCH_OK" | "\<not> ?over" "out' = out @ piece" "rc \<noteq> HTTP_FETCH_OK"
    | "\<not> ?over" "file_loop mx progress expect (out @ piece) ?calls rs = (rc, err, out', calls')"
    using Piece.prems(1) Piece.hyps(1) t by (auto simp: Let_def split: if_splits)
  then show ?case
  proof cases
    case 1
    then show ?thesis using Piece.prems(2) by (intro exI [of _ "[]"] exI [of _ "piece @ body"]) simp
  next
    case 2
    then show ?thesis by (intro exI [of _ piece] exI [of _ body]) auto
  next
    case 3
    from Piece.IH [OF 3(2)] 3(1) obtain got rest where
      "body = got @ rest" "out' = out @ piece @ got" "mx \<noteq> 0 \<longrightarrow> length out' \<le> mx" "rc = HTTP_FETCH_OK \<longrightarrow> rest = [] \<or> broken" by auto
    then show ?thesis by (intro exI [of _ "piece @ got"] exI [of _ rest]) simp
  qed
qed

text \<open>
  C38: A fetched file is whole, but for one case. Let the server send a body, and announce its length or none, and let the connection carry it in any pieces and perhaps break. When the fetch succeeds, the file holds
  the body, within the limit; only where no length was announced and the connection broke may it hold just the beginning. When it fails after the request was opened, the file is deleted, an
  older one of that name included; if deleting fails, what stays is the older file or the beginning of the body. A request that could not be opened changes nothing. No other file ever changes.
\<close>

theorem upd_fetch_file:
  assumes "carries body (hn_reads net) broken" "hf_content_length net = 0 \<or> unat (hf_content_length net) = length body"
    and "http_fetch_to_file net url path mx progress files = (rc, err, files', calls, con)"
  shows "(\<forall>p. p \<noteq> path \<longrightarrow> files' p = files p) \<and>
    (if rc = HTTP_FETCH_OK
     then \<exists>got rest. files' path = Some got \<and> body = got @ rest \<and> (mx \<noteq> 0 \<longrightarrow> length got \<le> mx) \<and>
       (rest = [] \<or> hf_content_length net = 0 \<and> broken)
     else if fst (hf_open net url) \<noteq> HTTP_FETCH_OK then files' = files
     else if hn_delete net then files' path = None
     else files' path = files path \<or> (\<exists>got rest. files' path = Some got \<and> body = got @ rest))"
proof -
  obtain rc0 e0 c0 where o: "hf_open net url = (rc0, e0, c0)" by (metis prod_cases3)
  let ?n = "unat (hf_content_length net)"
  obtain rc1 e1 out calls1 where l: "file_loop mx progress ?n [] [(0, ?n)] (hn_reads net) = (rc1, e1, out, calls1)" by (metis prod_cases4)
  obtain rest where g: "body = out @ rest" "mx \<noteq> 0 \<longrightarrow> length out \<le> mx" "rc1 = HTTP_FETCH_OK \<longrightarrow> rest = [] \<or> broken"
    using file_loop_carries [OF assms(1) l] by auto
  have whole: "hf_content_length net \<noteq> 0 \<Longrightarrow> length out = ?n \<Longrightarrow> rest = []" using assms(2) g(1) by auto
  have start: "\<exists>rest. body = [] @ rest" by simp
  show ?thesis
    using assms(3) o l g whole start
    by (cases "rc0 = HTTP_FETCH_OK"; cases "rc1 = HTTP_FETCH_OK")
      (auto simp: http_fetch_to_file_def Let_def unat_eq_zero split: if_splits)
qed

subsection \<open>Examples\<close>

definition demo_net :: "http_read list \<Rightarrow> http_net" where
  "demo_net reads = \<lparr>hn_crack = (\<lambda>_. Some (True, update_allowed_host, 443, [0x2F])), hn_err = 0, hn_open = True, hn_connect = True, hn_request = True,
     hn_send = None, hn_receive = None, hn_status = Some 200, hn_length = None, hn_reads = reads, hn_create = True, hn_delete = True, hn_alloc = (\<lambda>_. True)\<rparr>"

definition demo_hash :: "byte list \<Rightarrow> byte list" where
  "demo_hash c = replicate 32 1"

definition demo_sha :: sha_env where
  "demo_sha = \<lparr>sh_hash = demo_hash, sh_alg = 0, sh_objlen = 0, sh_hashlen = (0, 32), sh_alloc = True, sh_create = 0, sh_open = None,
     sh_read = (\<lambda>_. None), sh_data = (\<lambda>_. 0), sh_finish = 0\<rparr>"

definition demo_env :: upd_env where
  "demo_env = \<lparr>ue_url = None, ue_registry = True, ue_filetime = (\<lambda>_. None), ue_local = Some (asc ''C:''), ue_temp = None\<rparr>"

abbreviation demo_doc :: "byte list" where
  "demo_doc \<equiv> json_doc [] demo_members"

lemma demo_delivers: "delivers (demo_net (body_reads [demo_doc])) url [demo_doc]"
  by (simp add: delivers_def demo_net_def json_doc_def)

lemma demo_doc_written: "json_written demo_members demo_doc"
  by (rule json_doc_written) (simp_all add: demo_members_def)

lemma demo_newer: "precedes (Semver 0 7 0 [Alnum (asc ''beta'')]) (Semver 0 8 0 [])"
  by (rule precedes.intros) simp

lemma demo_published: "\<not> upd_placeholder demo_manifest"
  by code_simp

lemma json_enc_length: "length (concat (map json_enc s)) \<le> 2 * length s"
  by (induction s) (auto simp: json_enc_def)

lemma demo_length: "length demo_doc \<le> 262144"
proof -
  have l: "length (um_notes demo_manifest) = 28" "length (um_msi_url demo_manifest) = 32" "length (um_version demo_manifest) = 5" "length (um_msi_sha256 demo_manifest) = 64"
    by (simp_all add: demo_manifest_def dec_bytes_digit length_concat sum_list_replicate)
  have "length demo_doc \<le> 500"
    using json_enc_length [of "um_notes demo_manifest"] json_enc_length [of "um_msi_url demo_manifest"] json_enc_length [of "um_version demo_manifest"]
      json_enc_length [of "um_msi_sha256 demo_manifest"]
    by (simp add: json_doc_def demo_members_def l dec_bytes_digit json_enc_def)
  then show ?thesis by simp
qed

theorem upd_fetch_file_witness:
  "let r = http_fetch_to_file (demo_net [Avail 2 (Some [1, 2]) None, Avail 9 (Some [3]) None, Avail 0 None None]) [] [7] 10 (\<lambda>_ _. False) Map.empty in fst (snd (snd r)) [7] = Some [1, 2, 3]"
proof -
  let ?net = "demo_net [Avail 2 (Some [1, 2]) None, Avail 9 (Some [3]) None, Avail 0 None None]"
  obtain rc err files calls con where r: "http_fetch_to_file ?net [] [7] 10 (\<lambda>_ _. False) Map.empty = (rc, err, files, calls, con)" by (metis prod_cases5)
  have ok: "rc = HTTP_FETCH_OK" using r by (simp add: http_fetch_to_file_def hf_open_def demo_net_def hf_content_length_def)
  have "carries ([1, 2] @ [3] @ []) (hn_reads ?net) False"
    unfolding demo_net_def http_net.simps by (intro carries.intros) simp_all
  from upd_fetch_file [OF this _ r] ok show ?thesis by (simp add: r Let_def) (auto simp: demo_net_def hf_content_length_def)
qed

theorem upd_offered_witness:
  "\<forall>files. up_dialog (foldl (upd_step demo_env) (upd_init files None None (Some (ver_text (Semver 0 7 9 []))))
     [Startup_check 0 True, Check_runs (demo_net (body_reads [demo_doc])) True [] True, Message]) = Offer demo_manifest UPD_MODE_STARTUP False"
proof
  fix files
  let ?s = "upd_init files None None (Some (ver_text (Semver 0 7 9 [])))"
  have "precedes (Semver 0 7 9 []) (Semver 0 8 0 [])" by (rule precedes.intros) simp
  moreover have "may_start demo_env UPD_MODE_STARTUP 0 ?s"
    by (simp add: may_start_def upd_init_def suite_update_startup_enabled_def throttled_def ticks_since_last_check_def stamp_time_def settings_read_def)
  moreover have "\<not> upd_required demo_manifest" by (simp add: upd_required_def demo_manifest_def)
  ultimately show "up_dialog (foldl (upd_step demo_env) ?s [Startup_check 0 True, Check_runs (demo_net (body_reads [demo_doc])) True [] True, Message]) =
      Offer demo_manifest UPD_MODE_STARTUP False"
    using upd_offered [of ?s demo_env files None None "Some (ver_text (Semver 0 7 9 []))" "[]" UPD_MODE_STARTUP 0 demo_members demo_doc demo_manifest "Semver 0 8 0 []"
        "demo_net (body_reads [demo_doc])" "[demo_doc]" "Some (Semver 0 7 9 [])" "[]"]
      demo_describes demo_doc_written demo_delivers demo_newer demo_published demo_length
    by (simp add: upd_init_def Let_def dec_bytes_digit) (simp add: demo_manifest_def dec_bytes_digit)
qed

text \<open>A check, an update that is taken, and its installation.\<close>

definition demo_update :: "upd_event list" where
  "demo_update =
     [Menu_check True, Check_runs (demo_net (body_reads [demo_doc])) True [] True, Message, Offer_closed IDOK True True True,
      Download_runs (demo_net [Avail 3 (Some [1, 2, 3]) None]) demo_sha True True, Message, Ready_closed True (Some (asc ''S'')) True]"

lemma hex_equal_same: "length a = 64 \<Longrightarrow> suite_sha256_hex_equal a a"
proof -
  have "foldl (\<lambda>diff i. diff OR (lower_hex (a ! i) XOR lower_hex (a ! i))) 0 is = 0" for "is"
    by (induction "is") auto
  then show "length a = 64 \<Longrightarrow> ?thesis" by (simp add: suite_sha256_hex_equal_def)
qed

lemma demo_hex: "hex_text (demo_hash c) = um_msi_sha256 demo_manifest"
proof -
  have "hex_text (replicate n 1) = concat (replicate n (asc ''01''))" for n
    by (induction n) (simp_all add: hex_text_def hex_digit_def)
  then show ?thesis by (simp add: demo_hash_def demo_manifest_def)
qed

lemma demo_download:
  "download_run demo_env (demo_net [Avail 3 (Some [1, 2, 3]) None]) demo_sha True demo_manifest Map.empty =
    (\<lparr>ud_ok = True, ud_error = [], ud_path = p, ud_m = demo_manifest\<rparr>, files, outs) \<Longrightarrow> p \<noteq> []"
  by (auto simp: download_run_def update_dir_def demo_env_def Let_def split: prod.splits sum.splits if_splits)

lemma demo_download_ok:
  "\<exists>p files outs. p \<noteq> [] \<and> download_run demo_env (demo_net [Avail 3 (Some [1, 2, 3]) None]) demo_sha True demo_manifest Map.empty =
    (\<lparr>ud_ok = True, ud_error = [], ud_path = p, ud_m = demo_manifest\<rparr>, files, outs)"
proof -
  let ?net = "demo_net [Avail 3 (Some [1, 2, 3]) None]"
  obtain dir where dir: "update_dir demo_env = Some dir" "dir \<noteq> []" by (simp add: update_dir_def demo_env_def)
  let ?p = "take 259 (dir @ 0x5C # msi_local_name (um_msi_url demo_manifest))"
  have f: "\<exists>calls con. http_fetch_to_file ?net (um_msi_url demo_manifest) ?p update_msi_max (\<lambda>_ _. False) Map.empty =
      (HTTP_FETCH_OK, [], Map.empty(?p \<mapsto> [1, 2, 3]), calls, con)"
    by (simp add: http_fetch_to_file_def hf_open_def demo_net_def hf_content_length_def update_msi_max_def)
  have "suite_sha256_file demo_sha (Map.empty(?p \<mapsto> [1, 2, 3])) ?p = Inr (um_msi_sha256 demo_manifest)"
    using demo_hex by (simp add: suite_sha256_file_def demo_sha_def sha_loop.simps sha256_chunk_def)
  moreover have "suite_sha256_hex_equal (um_msi_sha256 demo_manifest) (um_msi_sha256 demo_manifest)"
    by (rule hex_equal_same) (simp add: demo_manifest_def length_concat sum_list_replicate)
  moreover have "?p \<noteq> []" using dir(2) by simp
  ultimately show ?thesis using f dir(1) by (auto simp: download_run_def Let_def)
qed

lemma demo_run: "\<exists>cmd path content. Launched cmd path demo_manifest content \<in> set (up_log (foldl (upd_step demo_env) (upd_init Map.empty None None None) demo_update))"
proof -
  let ?s = "upd_init Map.empty None None None"
  let ?s1 = "?s\<lparr>up_mode := UPD_MODE_MANUAL, up_busy := True, up_thread := True, up_worker := Checking\<rparr>"
  have s1: "upd_step demo_env ?s (Menu_check True) = ?s1"
    using start_checks [of ?s demo_env UPD_MODE_MANUAL] by (simp add: may_start_def) (simp add: upd_init_def)
  define s2 where "s2 = upd_step demo_env ?s1 (Check_runs (demo_net (body_reads [demo_doc])) True [] True)"
  obtain con where f: "http_fetch_to_memory (demo_net (body_reads [demo_doc])) (suite_update_manifest_url demo_env) update_manifest_max = Some (HTTP_FETCH_OK, [], demo_doc, con)"
    using fetch_delivers [OF demo_delivers, of update_manifest_max] demo_length by (auto simp: update_manifest_max_def)
  have m: "list_all (\<lambda>(k, v). key_ok k \<and> value_ok v) demo_members" using demo_describes by (simp add: describes_def)
  have r: "read_manifest (cstr demo_doc) = Inr demo_manifest"
    using read_described [OF demo_doc_written demo_describes] cstr_id [OF doc_plain [OF demo_doc_written m]] by simp
  have s2: "up_posted s2 = [Upd_result (check_result UPD_MODE_MANUAL (Inr demo_manifest))]" "up_worker s2 = No_worker" "up_dialog s2 = No_dialog" "up_busy s2"
    "up_files s2 = Map.empty"
    using check_posts [OF f r, of ?s1 "[]"] by (simp_all add: s2_def Let_def) (simp_all add: upd_init_def upd_step_def check_thread_def f r Let_def)
  have cmp: "suite_update_compare_versions suite_version_str (um_version demo_manifest) < 0"
    using ver_compare [OF suite_version_ok, of "Semver 0 8 0 []"] demo_newer by (simp add: suite_version demo_manifest_def Let_def del: ver_text.simps)
  define s3 where "s3 = upd_step demo_env s2 Message"
  have s3: "up_dialog s3 = Offer demo_manifest UPD_MODE_MANUAL (upd_required demo_manifest)" "up_pending s3 = demo_manifest" "up_posted s3 = []" "up_files s3 = Map.empty"
    using s2 cmp demo_published by (simp_all add: s3_def upd_step_def on_result_def check_result_def Let_def)
  define s4 where "s4 = upd_step demo_env s3 (Offer_closed IDOK True True True)"
  have s4: "up_dialog s4 = No_dialog" "up_worker s4 = Downloading demo_manifest" "up_posted s4 = []" "up_files s4 = Map.empty"
    using s3 by (simp_all add: s4_def upd_step_def upd_buttons_def on_offer_closed_def start_download_def join_worker_def Let_def)
  define s5 where "s5 = upd_step demo_env s4 (Download_runs (demo_net [Avail 3 (Some [1, 2, 3]) None]) demo_sha True True)"
  obtain p files outs where p: "p \<noteq> []" "download_run demo_env (demo_net [Avail 3 (Some [1, 2, 3]) None]) demo_sha True demo_manifest Map.empty =
      (\<lparr>ud_ok = True, ud_error = [], ud_path = p, ud_m = demo_manifest\<rparr>, files, outs)" using demo_download_ok by blast
  have s5: "up_posted s5 = [Upd_dldone \<lparr>ud_ok = True, ud_error = [], ud_path = p, ud_m = demo_manifest\<rparr>]" "up_dialog s5 = No_dialog"
    using s4 p by (simp_all add: s5_def upd_step_def download_thread_def Let_def)
  define s6 where "s6 = upd_step demo_env s5 Message"
  have s6: "up_dialog s6 = Ready \<lparr>ud_ok = True, ud_error = [], ud_path = p, ud_m = demo_manifest\<rparr>"
    using s5 by (simp add: s6_def upd_step_def on_download_done_def)
  have "foldl (upd_step demo_env) ?s demo_update = upd_step demo_env s6 (Ready_closed True (Some (asc ''S'')) True)"
    by (simp only: demo_update_def foldl.simps s1 s2_def [symmetric] s3_def [symmetric] s4_def [symmetric] s5_def [symmetric] s6_def [symmetric])
  then show ?thesis using s6 p(1) by (simp add: upd_step_def on_ready_closed_def launch_installer_def Let_def) blast
qed

theorem upd_only_verified_witness:
  "\<exists>cmd path content. Launched cmd path demo_manifest content \<in> set (up_log (foldl (upd_step demo_env) (upd_init Map.empty None None None) demo_update)) \<and>
    (\<exists>bytes. content = Some bytes \<and> suite_sha256_hex_equal (hex_text (demo_hash bytes)) (um_msi_sha256 demo_manifest))"
proof -
  obtain cmd path content where l: "Launched cmd path demo_manifest content \<in> set (up_log (foldl (upd_step demo_env) (upd_init Map.empty None None None) demo_update))"
    using demo_run by blast
  then obtain before after where b: "up_log (foldl (upd_step demo_env) (upd_init Map.empty None None None) demo_update) = before @ Launched cmd path demo_manifest content # after"
    by (meson split_list)
  have q: "list_all (quiet_disk (Some demo_hash)) demo_update" by (simp add: demo_update_def quiet_disk_def demo_sha_def)
  from upd_only_verified [OF q b] l show ?thesis by blast
qed

subsection \<open>The local name\<close>

lemma clean_name_chars: "list_all name_char (clean_name r s) \<and> length (clean_name r s) \<le> r"
  by (induction r s rule: clean_name.induct) auto

text \<open>The name is a leaf of harmless characters, whatever the address, but it can be that of a device.\<close>

lemma msi_local_name_leaf: "list_all name_char (msi_local_name url) \<and> length (msi_local_name url) \<le> 127"
  using clean_name_chars [of 127 "last_part url"]
  by (auto simp: msi_local_name_def Let_def name_char_def is_digit_def)

lemma msi_local_name_device: "msi_local_name (asc ''https://apps.greektimes.ca/CON.msi'') = asc ''CON.msi''"
proof -
  have "last_part (asc ''https://apps.greektimes.ca/CON.msi'') = asc ''CON.msi''" by (simp add: last_part_def)
  moreover have "clean_name (Suc 126) (asc ''CON.msi'') = asc ''CON.msi''"
  proof -
    have step: "name_char c \<Longrightarrow> c \<noteq> 0x3F \<Longrightarrow> c \<noteq> 0x23 \<Longrightarrow> 0 < n \<Longrightarrow> clean_name n (c # cs) = c # clean_name (n - 1) cs" for c cs n
      by (cases n) simp_all
    show ?thesis by (simp add: step name_char_def is_digit_def del: clean_name.simps) (simp add: eval_nat_numeral)
  qed
  ultimately show ?thesis by (simp add: msi_local_name_def same_nocase_def to_lower_def Let_def)
qed

subsection \<open>What goes wrong\<close>

text \<open>What another program puts in the file after it was checked is what is launched.\<close>

lemma upd_file_swapped:
  assumes "up_dialog s = Ready d" "ud_path d \<noteq> []" "files (ud_path d) = Some other"
  shows "\<exists>cmd. Launched cmd (ud_path d) (ud_m d) (Some other) \<in> set (up_log (foldl (upd_step env) s [Disk_changes files, Ready_closed True (Some dir) True]))"
  using assms by (auto simp: upd_step_def on_ready_closed_def launch_installer_def Let_def)

text \<open>A check that the user asks for while another runs changes what the running one counts as.\<close>

lemma upd_mode_overwritten: "up_busy s \<Longrightarrow> up_mode (suite_update_check started s) = UPD_MODE_MANUAL"
  by (simp add: suite_update_check_def start_check_def Let_def)

text \<open>A check that failed counts for the time between checks, and one in the future blocks those at startup until then.\<close>

lemma upd_future_stamp:
  assumes "suite_update_startup_enabled s" "ticks_since_last_check env later s = Some 0" "now \<le> later"
  shows "suite_update_startup_check env now started s = s"
proof -
  obtain t where t: "stamp_time env s = Some t" using assms(2) by (cases "stamp_time env s") (simp_all add: ticks_since_last_check_def)
  then have "later \<le> t" using assms(2) by (cases "later \<le> t") (simp_all add: ticks_since_last_check_def)
  then have "ticks_since_last_check env now s = Some 0" using assms(3) t by (simp add: ticks_since_last_check_def)
  then show ?thesis using assms(1) by (simp add: suite_update_startup_check_def throttled_def)
qed

text \<open>A required update that the user had skipped before it became required is not shown at startup.\<close>

lemma upd_required_skipped:
  assumes "ur_ok r" "ur_mode r = UPD_MODE_STARTUP" "ur_required r" "\<not> ur_placeholder r" "ur_cmp r < 0" "up_skipped s = Some (um_version (ur_m r))"
    and "um_version (ur_m r) \<noteq> []" "length (um_version (ur_m r)) < 64"
  shows "on_result r s = s\<lparr>up_busy := False\<rparr>"
proof -
  have "suite_update_compare_versions v v = 0" for v by (simp add: compare_versions_key)
  then show ?thesis using assms by (simp add: on_result_def settings_read_def)
qed

text \<open>A file that was there is deleted by a fetch that fails before it has written anything.\<close>

lemma fetch_deletes_old_file:
  assumes "hf_open net url = (HTTP_FETCH_OK, e, con)" "\<not> hn_create net" "hn_delete net"
  shows "fst (snd (snd (http_fetch_to_file net url path mx progress files))) path = None"
  using assms by (simp add: http_fetch_to_file_def Let_def)

text \<open>Where the server announces no length, a connection that breaks ends the fetch with success.\<close>

lemma fetch_cut_short:
  assumes "hf_open net url = (HTTP_FETCH_OK, e, con)" "hn_create net" "hf_content_length net = 0" "hn_reads net = [Avail 2 (Some [1, 2]) None, Avail 2 None None]"
  shows "let r = http_fetch_to_file net url path 10 (\<lambda>_ _. False) files in fst r = HTTP_FETCH_OK \<and> fst (snd (snd r)) path = Some [1, 2]"
  using assms by (simp add: http_fetch_to_file_def Let_def)

lemma fetch_memory_cut_short:
  assumes "hf_open net url = (HTTP_FETCH_OK, e, con)" "\<forall>n. hn_alloc net n" "hn_reads net = [Avail 2 (Some [1, 2]) None, Avail 2 None None]"
  shows "http_fetch_to_memory net url 10 = Some (HTTP_FETCH_OK, [], [1, 2], con)"
proof -
  have "grow_cap32 r 3 8192 = Some 8192" for r by (cases r) simp_all
  then show ?thesis using assms by (simp add: http_fetch_to_memory_def Let_def)
qed

text \<open>Without a limit, the loop that doubles the buffer does not end once more than 2 to the 31 bytes are needed.\<close>

lemma fetch_grow_stuck: "0x80000000 < need \<Longrightarrow> grow_cap32 (Suc r) need 0x80000000 = None"
proof -
  assume n: "0x80000000 < need"
  then have "0 < need" by (rule order.strict_trans [rotated]) simp
  then have z: "grow_cap32 r need 0 = None" for r by (induction r) simp_all
  have "grow_cap32 (Suc r) need 0x80000000 = grow_cap32 r need (0x80000000 * 2)" using n by (simp only: grow_cap32.simps if_True)
  also have "(0x80000000 * 2 :: u32) = 0" by simp
  finally show ?thesis by (simp only: z)
qed

text \<open>The notes with their line ends doubled fit the buffer that is allocated for them.\<close>

lemma crlf_notes_length: "length (crlf_notes p src) \<le> length src * 2"
  by (induction src arbitrary: p) (auto intro: le_SucI)

lemma crlf_notes_fit: "length (crlf_notes p src) + 1 \<le> length src * 2 + 3"
  using crlf_notes_length [of p src] by simp

end
