(* ===== verification/Spec2Isabelle.thy ===== *)
theory Spec2Isabelle
  imports VtTerm Telnet LineProtos TelnetScreen MinitelPage ZmodemSafe ZmodemRing ArchieSafe RipInv GopherTab CuseemeSafe IrcSafe RipTabSafe UpdSafe
begin

text \<open>
  The MGT Unicorn Suite: a verification library for its protocol engines.

  The Suite is a Win32 program in C with one tab per network service. The tabs are window code; what
  they know of their services is in small engines under \<open>src/src\<close> that a tab drives from its
  message loop or from a worker thread. This library models those engines: bytes that a stranger
  sent come in, and a screen, a file, a list of hits or a reply goes out.

  How the parts interact. \<open>telnet_module.c\<close> owns a \<open>telnet_proto\<close> session (a thread that reads
  the socket and peels off the telnet layer) and a \<open>vt_term\<close> (the screen the payload is fed to);
  the tab reads in the session what the thread learned, such as who echoes;
  it also starts the Finger and QOTD threads, which are of the same kind, and writes its own prompt
  and line editor to the same screen. The Minitel tab feeds its payload to \<open>minitel_decode\<close>. The
  Archie tab calls \<open>archie_query\<close> on a thread and shows what it left. The RIPscrip tab feeds its
  payload to \<open>rip_parser_feed\<close>, which draws on a \<open>RipEga\<close> surface and keeps the table of
  clickable regions, and, while a download runs, to a \<open>zmodem_recv\<close> session; the pressed look of a
  region is drawn on the same surface and taken off before the host draws. The Gopher tab parses
  its address with \<open>gopher_url_parse\<close>, fetches on a thread, parses a menu with \<open>gophermap_parse\<close> and
  keeps a history. The CU-SeeMe worker decodes the datagrams of a reflector into a picture and a
  queue of sound buffers. The IRC client reads a server on a worker thread and posts events to its tab.
  The updater of the shell has two workers, one that fetches the manifest and one that fetches and
  checks the installer; each posts its result to the main window, which asks the user and starts the
  next one, and a flag keeps a second check away meanwhile.

  Theories, and what they model:
  \<^item> \<open>Prelude\<close>: bytes and words, the C \<open>int\<close>, arrays as functions of an address, C strings, and the
    locales for machines that are fed one byte at a time (\<open>stream_machine\<close>, \<open>framed_machine\<close>,
    \<open>transducer\<close>).
  \<^item> \<open>VtTerm\<close>: \<open>vt_term.c\<close>, the VT220 screen with scrollback, resize and selection.
  \<^item> \<open>TcpSession\<close>, \<open>Telnet\<close>, \<open>LineProtos\<close>: the socket sessions and \<open>telnet_proto.c\<close>,
    \<open>finger_proto.c\<close>, \<open>qotd_proto.c\<close>.
  \<^item> \<open>Minitel\<close>, \<open>MinitelInv\<close>, \<open>MinitelPage\<close>: \<open>minitel_decode.c\<close>, its invariant and its page.
  \<^item> \<open>ZmodemName\<close>, \<open>ZmodemRing\<close>, \<open>ZmodemRecv\<close>, \<open>ZmodemSafe\<close>: \<open>zmodem_recv.c\<close>, that is names and
    paths, the ring between the threads, the session, and what it does to the disk.
  \<^item> \<open>ArchieParse\<close>, \<open>Archie\<close>, \<open>ArchieSafe\<close>: \<open>archie_ardp.c\<close>, the reply parser, the query, and both
    against a server and a network.
  \<^item> \<open>RipEga\<close>, \<open>RipText\<close>, \<open>RipParser\<close>, \<open>RipExec\<close>: \<open>rip_ega.c\<close>, \<open>rip_text.c\<close> with \<open>rip_button.c\<close>,
    and \<open>rip_parser.c\<close> in two parts (taking a line apart, carrying commands out); \<open>RipSafe\<close> says
    where drawing can write and that lines end, \<open>RipInv\<close> has the parser's invariant.
  \<^item> \<open>RipTab\<close>, \<open>RipTabInv\<close>, \<open>RipTabSafe\<close>: \<open>ripscrip_module.c\<close>, the messages of the RIPscrip tab:
    its session, the scanner for queries, the switch to the Zmodem receiver, the pressed look and the
    regions; the invariant of the tab, and its scene against a tab that only feeds the parser.
  \<^item> \<open>CText\<close>, \<open>Gopher\<close>, \<open>GopherNet\<close>, \<open>GopherTab\<close>: functions of the C library on strings;
    \<open>gopher_protocol.c\<close>, \<open>gophermap.c\<close> and \<open>gopher_module.c\<close>, that is addresses, requests, menus,
    the fetching thread, the history and the handlers of the tab.
  \<^item> \<open>CuseemeCodec\<close>, \<open>CuseemeSession\<close>, \<open>CuseemeCell\<close>, \<open>CuseemeSafe\<close>: \<open>cuseeme_proto.c\<close>,
    \<open>cuseeme_video.c\<close>, the three sound decoders, the worker of \<open>cuseeme_module.c\<close>, the picture a
    frame leaves, and what a session writes and when it ends.
  \<^item> \<open>TelnetTab\<close>, \<open>TelnetScreen\<close>: \<open>telnet_module.c\<close>, the handlers of the terminal tab, and the tab
    with the telnet worker and the screen.
  \<^item> \<open>Irc\<close>, \<open>IrcSafe\<close>: \<open>irc_client.c\<close>, lines, registration against the lines a server may send,
    messages, reconnection.
  \<^item> \<open>UpdText\<close>, \<open>Fetch\<close>, \<open>Update\<close>: the text functions of \<open>suite_update.c\<close> (versions, the members of
    the manifest, addresses, local names), \<open>http_fetch.c\<close> with the checksum of \<open>suite_sha256.c\<close>, and
    the updater itself: settings, workers, dialogs and the messages between them.
  \<^item> \<open>UpdOrder\<close>, \<open>UpdJson\<close>, \<open>UpdInv\<close>, \<open>UpdSafe\<close>: the comparison of versions against the precedence of
    semver.org, reading a manifest that was written, the invariant of the updater, and what it offers,
    fetches and launches.

  How state and operations correspond. A struct is a record whose fields have the struct's names
  with a short prefix; a function of the source is a definition of the same name, or of the same
  name for the part of it a comment names (a case of a switch, a locked section). An array is a
  function from addresses, so that a write outside it would show; the safety theorems say there is
  none. Machine integers are words or \<open>int\<close> with \<open>wrap32\<close>. What is outside the source (the socket,
  the clock, the disk, the scheduler, the allocator, the vendored Zmodem core) answers through
  arguments: a script of results, or a truth value for each call.

  What the lemmas show. For the decoders: an invariant of the state that every byte keeps, no write
  outside the memory, the meaning of runs of text and of control sequences. For the protocols: what
  a peer that follows the protocol gets, and that no peer can do harm. For the parsers: round trips
  with a writer defined here, and bounds for every input.

  Bounds and fuel. Loops are structural or have a measure, but for the loop that draws a line, a
  partial function in 32-bit arithmetic that is proved to return for ends within 2^29 of each other (a loop
  that did not return would leave the surface of the model as it was; only a text position that has run
  over the range of an \<open>int\<close> gives ends further apart), and the loop that doubles the capacity of a fetch, which has
  32 rounds: a number of 32 bits doubled 32 times is 0 and stays 0, so a loop that has not ended by then
  never does (\<open>grow_cap32\<close>). The retry
  counts are those of the source (2000 ms in steps of 50, 30000 ms in steps of 100, four attempts,
  999 names, 32 protocol errors, 8000 ms without a datagram, pauses of 2000 to 30000 ms, 24 hours between two startup checks), and so are
  the sizes (8192 sound samples, datagrams of 4096 bytes, an edited line of 1023 characters, a line
  of a server of 16383 bytes, a buffer of 8192 bytes for the scene, hence chunks of at most 8189 bytes
  in the theorem on it, a manifest of 256 KB, an installer of 256 MB). The terminal is proved safe for at most 2^30 columns and 2^30 rows with
  the scrollback, and control sequences without numbers of ten digits; the line editor for lines that fit the
  row of the screen; the sound array, with the delta modulator, for datagrams of at most 2082 bytes. The order of versions is proved for numbers
  of at most nine digits and numeric identifiers below 2^32, where the source's
  integers neither wrap nor saturate. Where the answers of the outside are a script, a script that ends
  leaves the loop where it is; the liveness theorems name the scripts that are long enough.

  Not modelled: painting, dialogs and everything else that is a call into Windows, and the tabs that
  are little else; the vendored libraries (libwww, freeWAIS, libx86emu, marduk, mbzm) and with them the
  Web, WAIS, NABU and GW-BASIC tabs; the sound and video services, which drive system libraries; the
  firmware and the font tables; the mathematical library (the samples of an arc are arguments). The
  NAPLPS decoder, the rasteriser of the Minitel view and the TrueSpeech decoder are the program's own
  and are not modelled either.
\<close>

end
